(* ===== verification/Hoomd_Prelude.thy ===== *)
theory Hoomd_Prelude
  imports Complex_Main "HOL-Library.Word"
begin

text \<open>
  Shared vocabulary of the development: the scalar and integer types of the program, the
  C++ conversions the sources use (truncation of a floating-point value to an integer, the
  reciprocal square root of the \<open>fast\<close> namespace of \<open>utils/HOOMDMath.h\<close>), and the generic
  lemmas on lists, words and reals that the component theories rely on.

  \<open>Scalar\<close> is \<open>float\<close> or \<open>double\<close> depending on the build; the model uses the exact real
  numbers, so statements about it are statements about the program up to rounding.
  \<open>unsigned int\<close> is a 32-bit word where wrap-around matters and a natural number where the
  theories bound the values below \<open>2 ^ 32\<close>.
\<close>

type_synonym Scalar = real
type_synonym uint = "32 word"

named_theorems hoomd_defs \<open>small non-recursive definitions, unfolded by the component proofs\<close>

section \<open>Conversions and fast math\<close>

text \<open>The size of a scalar in the build with double precision.\<close>

definition sizeof_Scalar :: nat where
  "sizeof_Scalar = 8"

text \<open>Truncation towards zero, which every cast of a scalar to an integer starts with.\<close>

definition cast_int :: "real \<Rightarrow> int" where
  "cast_int x = (if 0 \<le> x then \<lfloor>x\<rfloor> else \<lceil>x\<rceil>)"

lemma cast_int_nonneg: "0 \<le> x \<Longrightarrow> cast_int x = \<lfloor>x\<rfloor>"
  by (simp add: cast_int_def)

lemma cast_int_neg: "x \<le> 0 \<Longrightarrow> cast_int x = \<lceil>x\<rceil>"
  by (cases "x = 0") (simp_all add: cast_int_def)

lemma cast_int_of_int [simp]: "cast_int (of_int n) = n"
  by (simp add: cast_int_def)

lemma cast_int_bounds_nonneg:
  assumes "0 \<le> x"
  shows "real_of_int (cast_int x) \<le> x" and "x < real_of_int (cast_int x) + 1"
  using assms by (simp_all add: cast_int_nonneg)

text \<open>The casts \<open>(int) x\<close> and \<open>(unsigned int) x\<close>. Beyond the range of the type C++ leaves the value
  undefined; it is the one of the conversion instructions of x86-64. The theorems bound the argument or
  hold whatever the value.\<close>

definition cast_int32 :: "real \<Rightarrow> int" where
  "cast_int32 x = (let n = cast_int x in if - (2 ^ 31) \<le> n \<and> n < 2 ^ 31 then n else - (2 ^ 31))"

definition cast_uint32 :: "real \<Rightarrow> nat" where
  "cast_uint32 x = nat (cast_int x mod 2 ^ 32)"

lemma cast_int32_eq:
  assumes "- (2 ^ 31) \<le> x" "x < 2 ^ 31"
  shows "cast_int32 x = cast_int x"
proof -
  have "- (2 ^ 31) \<le> cast_int x" "cast_int x < 2 ^ 31"
    using assms by (auto simp: cast_int_def le_floor_iff floor_less_iff le_ceiling_iff ceiling_less_iff)
  then show ?thesis by (simp add: cast_int32_def)
qed

lemma cast_int32_of_int: "- (2 ^ 31) \<le> n \<Longrightarrow> n < 2 ^ 31 \<Longrightarrow> cast_int32 (of_int n) = n"
  by (simp add: cast_int32_def)

lemma cast_uint32_of_nat: "n < 2 ^ 32 \<Longrightarrow> cast_uint32 (real n) = n"
  using cast_int_of_int [of "int n"] by (simp add: cast_uint32_def)

text \<open>\<open>fast::rsqrt\<close>: the host branch computes \<open>1 / sqrt(x)\<close>.\<close>

definition rsqrt :: "real \<Rightarrow> real" where
  "rsqrt x = 1 / sqrt x"

lemma rsqrt_pos: "0 < x \<Longrightarrow> 0 < rsqrt x"
  by (simp add: rsqrt_def)

lemma rsqrt_power2: "0 < x \<Longrightarrow> rsqrt x * rsqrt x = 1 / x"
  by (simp add: rsqrt_def field_simps)

lemma rsqrt_square: "0 < r \<Longrightarrow> rsqrt (r * r) = 1 / r"
  by (simp add: rsqrt_def)

section \<open>Words\<close>

text \<open>Arithmetic on words that does not wrap is arithmetic on natural numbers.\<close>

lemma unat_add_nowrap:
  fixes a b :: "'a::len word"
  shows "unat a + unat b < 2 ^ LENGTH('a) \<Longrightarrow> unat (a + b) = unat a + unat b"
  using unat_add_lem by blast

lemma unat_mult_nowrap:
  fixes a b :: "'a::len word"
  shows "unat a * unat b < 2 ^ LENGTH('a) \<Longrightarrow> unat (a * b) = unat a * unat b"
  using unat_mult_lem by blast

lemma uint_eq_iff: "(a = b) \<longleftrightarrow> unat a = unat b" for a b :: uint
  by (rule word_unat_eq_iff)

section \<open>Lists\<close>

lemma nth_append_right_offset [simp]: "(xs @ ys) ! (length xs + i) = ys ! i"
  by (simp add: nth_append)

lemma list_update_length_append [simp]:
  "(xs @ y # ys)[length xs := z] = xs @ z # ys"
  by (induction xs) auto

lemma nth_list_update_in: "j < length xs \<Longrightarrow> xs[i := y] ! j = (if j = i then y else xs ! j)"
  by auto

section \<open>Errors\<close>

text \<open>A failed \<open>assert\<close>, a thrown \<open>std::runtime_error\<close> and a dereferenced null pointer end a call with an
  error value.\<close>

datatype error = Assertion_failed | Runtime_error | Null_dereference | Division_by_zero

type_synonym 'a result = "error + 'a"

definition bindr :: "'a result \<Rightarrow> ('a \<Rightarrow> 'b result) \<Rightarrow> 'b result" where
  "bindr r f = (case r of Inl e \<Rightarrow> Inl e | Inr x \<Rightarrow> f x)"

definition check :: "bool \<Rightarrow> error \<Rightarrow> unit result" where
  "check b e = (if b then Inr () else Inl e)"

lemma bindr_simps [simp]: "bindr (Inl e) f = Inl e" "bindr (Inr x) f = f x"
  by (simp_all add: bindr_def)

lemma bindr_Inr: "bindr r f = Inr y \<longleftrightarrow> (\<exists>x. r = Inr x \<and> f x = Inr y)"
  by (cases r) simp_all

lemma check_Inr [simp]: "check b e = Inr u \<longleftrightarrow> b"
  by (simp add: check_def)

lemma check_simps [simp]: "b \<Longrightarrow> check b e = Inr ()" "\<not> b \<Longrightarrow> check b e = Inl e"
  by (simp_all add: check_def)

section \<open>Memory\<close>

text \<open>\<open>memcpy(dst + i, src + j, n)\<close> and \<open>memset(buf + i, 0, n)\<close> on arrays of elements.\<close>

definition memcpy :: "'a list \<Rightarrow> nat \<Rightarrow> 'a list \<Rightarrow> nat \<Rightarrow> nat \<Rightarrow> 'a list" where
  "memcpy dst i src j n = take i dst @ take n (drop j src) @ drop (i + n) dst"

definition memset0 :: "'a::zero list \<Rightarrow> nat \<Rightarrow> nat \<Rightarrow> 'a list" where
  "memset0 buf i n = take i buf @ replicate n 0 @ drop (i + n) buf"

lemma length_memcpy [simp]: "i + n \<le> length dst \<Longrightarrow> j + n \<le> length src \<Longrightarrow> length (memcpy dst i src j n) = length dst"
  by (simp add: memcpy_def)

lemma length_memset0 [simp]: "i + n \<le> length buf \<Longrightarrow> length (memset0 buf i n) = length buf"
  by (simp add: memset0_def)

lemma nth_memcpy:
  assumes "i + n \<le> length dst" "j + n \<le> length src" "k < length dst"
  shows "memcpy dst i src j n ! k = (if i \<le> k \<and> k < i + n then src ! (j + (k - i)) else dst ! k)"
proof -
  have "length (take n (drop j src)) = n" "length (take i dst) = i" using assms by auto
  then show ?thesis using assms unfolding memcpy_def by (auto simp: nth_append)
qed

lemma memcpy_all [simp]: "length dst = n \<Longrightarrow> length src = n \<Longrightarrow> memcpy dst 0 src 0 n = src"
  by (simp add: memcpy_def)

lemma memset0_all: "length buf = n \<Longrightarrow> memset0 buf 0 n = replicate n 0"
  by (simp add: memset0_def)

section \<open>Traces and simulation\<close>

text \<open>A finite run of a labelled step relation, and the transfer of runs along a simulation.\<close>

inductive trace :: "('s \<Rightarrow> 'e \<Rightarrow> 's \<Rightarrow> bool) \<Rightarrow> 's \<Rightarrow> 'e list \<Rightarrow> 's \<Rightarrow> bool" for step where
  trace_nil [intro!]: "trace step s [] s"
| trace_cons [intro]: "step s e t \<Longrightarrow> trace step t es u \<Longrightarrow> trace step s (e # es) u"

inductive_simps trace_simps [simp]: "trace step s [] t" "trace step s (e # es) t"

locale simulation =
  fixes cstep :: "'c \<Rightarrow> 'e \<Rightarrow> 'c \<Rightarrow> bool" and astep :: "'a \<Rightarrow> 'e \<Rightarrow> 'a \<Rightarrow> bool"
    and inv :: "'c \<Rightarrow> bool" and abs :: "'c \<Rightarrow> 'a"
  assumes step_simulated: "inv s \<Longrightarrow> cstep s e t \<Longrightarrow> inv t \<and> astep (abs s) e (abs t)"
begin

lemma trace_simulated:
  "trace cstep s es t \<Longrightarrow> inv s \<Longrightarrow> inv t \<and> trace astep (abs s) es (abs t)"
  by (induction rule: trace.induct) (use step_simulated in blast)+

end

end
