(* ===== verification/Index_Maps.thy ===== *)
theory Index_Maps
  imports Hoomd_Prelude
begin

text \<open>
  The index calculators of \<open>utils/Index1D.h\<close>: \<open>Index2D\<close>, \<open>Index3D\<close> and
  \<open>Index2DUpperTriangular\<close>. All arithmetic is \<open>unsigned int\<close> arithmetic, so the model
  computes on 32-bit words and every theorem names the size below which nothing wraps.
  Each indexer is shown to be a bijection between the index tuples in range and the
  interval of array positions below \<open>getNumElements()\<close>.
\<close>

section \<open>Index2D\<close>

record Index2D =
  i2_w :: uint
  i2_h :: uint

definition Index2D_square :: "uint \<Rightarrow> Index2D" where
  "Index2D_square w = \<lparr>i2_w = w, i2_h = w\<rparr>"

definition Index2D_rect :: "uint \<Rightarrow> uint \<Rightarrow> Index2D" where
  "Index2D_rect w h = \<lparr>i2_w = w, i2_h = h\<rparr>"

definition Index2D_idx :: "Index2D \<Rightarrow> uint \<Rightarrow> uint \<Rightarrow> uint" where
  "Index2D_idx I i j = j * i2_w I + i"

definition Index2D_getNumElements :: "Index2D \<Rightarrow> uint" where
  "Index2D_getNumElements I = i2_w I * i2_h I"

definition Index2D_getW :: "Index2D \<Rightarrow> uint" where
  "Index2D_getW I = i2_w I"

definition Index2D_getH :: "Index2D \<Rightarrow> uint" where
  "Index2D_getH I = i2_h I"

section \<open>Index3D\<close>

record Index3D =
  i3_w :: uint
  i3_h :: uint
  i3_d :: uint

definition Index3D_cube :: "uint \<Rightarrow> Index3D" where
  "Index3D_cube w = \<lparr>i3_w = w, i3_h = w, i3_d = w\<rparr>"

definition Index3D_rect :: "uint \<Rightarrow> uint \<Rightarrow> uint \<Rightarrow> Index3D" where
  "Index3D_rect w h d = \<lparr>i3_w = w, i3_h = h, i3_d = d\<rparr>"

definition Index3D_idx :: "Index3D \<Rightarrow> uint \<Rightarrow> uint \<Rightarrow> uint \<Rightarrow> uint" where
  "Index3D_idx I i j k = (k * i3_h I + j) * i3_w I + i"

definition Index3D_getNumElements :: "Index3D \<Rightarrow> uint" where
  "Index3D_getNumElements I = i3_w I * i3_h I * i3_d I"

text \<open>The inverse mapping, in the order of the source: \<open>z\<close> and \<open>y\<close> by division, \<open>x\<close> as
  what is left.\<close>

definition Index3D_getTriple :: "Index3D \<Rightarrow> uint \<Rightarrow> uint \<times> uint \<times> uint" where
  "Index3D_getTriple I idx =
     (let z = idx div (i3_h I * i3_w I);
          y = (idx mod (i3_h I * i3_w I)) div i3_w I;
          x = idx - z * i3_h I * i3_w I - y * i3_w I
      in (x, y, z))"

section \<open>Index2DUpperTriangular\<close>

record Index2DUpperTriangular =
  ut_w :: uint
  ut_term :: uint

definition Index2DUpperTriangular_new :: "uint \<Rightarrow> Index2DUpperTriangular" where
  "Index2DUpperTriangular_new w = \<lparr>ut_w = w, ut_term = 2 * w - 1\<rparr>"

definition Index2DUpperTriangular_idx :: "Index2DUpperTriangular \<Rightarrow> uint \<Rightarrow> uint \<Rightarrow> uint" where
  "Index2DUpperTriangular_idx I i j =
     (let (i', j') = (if i < j then (j, i) else (i, j))
      in j' * (ut_term I - j') div 2 + i')"

definition Index2DUpperTriangular_getNumElements :: "Index2DUpperTriangular \<Rightarrow> uint" where
  "Index2DUpperTriangular_getNumElements I = ut_w I * (ut_w I + 1) div 2"

section \<open>Row-major arithmetic on natural numbers\<close>

lemma row_major_less:
  assumes "i < w" "j < h"
  shows "j * w + i < w * (h::nat)"
proof -
  have "j * w + i < Suc j * w" using assms(1) by simp
  also have "\<dots> \<le> h * w" using assms(2) by (intro mult_le_mono1) simp
  finally show ?thesis by (simp add: mult.commute)
qed

lemma row_major_bij:
  "bij_betw (\<lambda>(i, j). j * w + i) ({..<w} \<times> {..<h}) {..<w * (h::nat)}"
proof (rule bij_betw_byWitness [where f' = "\<lambda>n. (n mod w, n div w)"])
  show "\<forall>a\<in>{..<w} \<times> {..<h}. (\<lambda>n. (n mod w, n div w)) (case a of (i, j) \<Rightarrow> j * w + i) = a"
    by (auto simp: div_mult_self3)
  show "\<forall>a'\<in>{..<w * h}. (case (a' mod w, a' div w) of (i, j) \<Rightarrow> j * w + i) = a'"
    by simp
  show "(\<lambda>(i, j). j * w + i) ` ({..<w} \<times> {..<h}) \<subseteq> {..<w * h}"
    by (auto intro: row_major_less)
  show "(\<lambda>n. (n mod w, n div w)) ` {..<w * h} \<subseteq> {..<w} \<times> {..<h}"
    by (auto simp: less_mult_imp_div_less mult.commute) (cases w, auto)
qed

section \<open>The word computations do not wrap\<close>

lemma unat_of_nat_small [simp]: "n < 2 ^ 32 \<Longrightarrow> unat (of_nat n :: uint) = n"
  by (simp add: unat_of_nat)

lemma Index2D_idx_unat:
  assumes size: "unat (i2_w I) * unat (i2_h I) < 2 ^ 32"
    and i: "unat i < unat (i2_w I)" and j: "unat j < unat (i2_h I)"
  shows "unat (Index2D_idx I i j) = unat j * unat (i2_w I) + unat i"
proof -
  have lt: "unat j * unat (i2_w I) + unat i < 2 ^ 32"
    using row_major_less [OF i j] size by simp
  then have m: "unat (j * i2_w I) = unat j * unat (i2_w I)"
    by (intro unat_mult_nowrap) simp
  show ?thesis
    unfolding Index2D_idx_def using lt m by (subst unat_add_nowrap) simp_all
qed

lemma Index2D_getNumElements_unat:
  "unat (i2_w I) * unat (i2_h I) < 2 ^ 32 \<Longrightarrow>
     unat (Index2D_getNumElements I) = unat (i2_w I) * unat (i2_h I)"
  by (simp add: Index2D_getNumElements_def unat_mult_nowrap)

lemma Index3D_idx_unat:
  assumes size: "unat (i3_w I) * unat (i3_h I) * unat (i3_d I) < 2 ^ 32"
    and i: "unat i < unat (i3_w I)" and j: "unat j < unat (i3_h I)" and k: "unat k < unat (i3_d I)"
  shows "unat (Index3D_idx I i j k) =
           (unat k * unat (i3_h I) + unat j) * unat (i3_w I) + unat i"
proof -
  let ?w = "unat (i3_w I)" and ?h = "unat (i3_h I)"
  have row: "unat k * ?h + unat j < ?h * unat (i3_d I)"
    by (rule row_major_less [OF j k])
  have "(unat k * ?h + unat j) * ?w + unat i < ?w * (?h * unat (i3_d I))"
    by (rule row_major_less [OF i row])
  then have lt: "(unat k * ?h + unat j) * ?w + unat i < 2 ^ 32"
    using size by (simp add: mult.assoc)
  have "?w > 0" using i by simp
  then have "unat k * ?h + unat j \<le> (unat k * ?h + unat j) * ?w" by simp
  then have lt2: "unat k * ?h + unat j < 2 ^ 32" using lt by linarith
  then have a: "unat (k * i3_h I) = unat k * ?h"
    by (intro unat_mult_nowrap) simp
  have b: "unat (k * i3_h I + j) = unat k * ?h + unat j"
    using lt2 a by (subst unat_add_nowrap) simp_all
  have c: "unat ((k * i3_h I + j) * i3_w I) = (unat k * ?h + unat j) * ?w"
    using lt b by (subst unat_mult_nowrap) simp_all
  show ?thesis
    unfolding Index3D_idx_def using lt c by (subst unat_add_nowrap) simp_all
qed

lemma Index3D_getNumElements_unat:
  assumes "unat (i3_w I) * unat (i3_h I) * unat (i3_d I) < 2 ^ 32" "0 < unat (i3_d I)"
  shows "unat (Index3D_getNumElements I) = unat (i3_w I) * unat (i3_h I) * unat (i3_d I)"
proof -
  have "unat (i3_w I) * unat (i3_h I) \<le> unat (i3_w I) * unat (i3_h I) * unat (i3_d I)"
    using assms(2) by simp
  from le_less_trans [OF this assms(1)]
  have "unat (i3_w I) * unat (i3_h I) < 2 ^ LENGTH(32)" by simp
  then have "unat (i3_w I * i3_h I) = unat (i3_w I) * unat (i3_h I)"
    by (rule unat_mult_nowrap)
  then show ?thesis
    using assms(1) by (simp add: Index3D_getNumElements_def unat_mult_nowrap)
qed

text \<open>Reading a row-major position back: quotient and remainder recover the indices.\<close>

lemma row_major_decode:
  assumes "i < w" "j < (h::nat)"
  shows "((k * h + j) * w + i) div (h * w) = k"
    and "((k * h + j) * w + i) mod (h * w) = j * w + i"
    and "(j * w + i) div w = j"
proof -
  have eq: "(k * h + j) * w + i = (j * w + i) + k * (h * w)"
    by (simp add: algebra_simps)
  have lt: "j * w + i < h * w"
    using row_major_less [OF assms] by (simp add: mult.commute)
  then have "h * w \<noteq> 0" by linarith
  then show "((k * h + j) * w + i) div (h * w) = k"
    unfolding eq using lt by (subst div_mult_self1) simp_all
  show "((k * h + j) * w + i) mod (h * w) = j * w + i"
    unfolding eq using lt by simp
  show "(j * w + i) div w = j" using assms(1) by simp
qed

section \<open>Triangular numbers\<close>

text \<open>\<open>ut_base w j\<close> is the offset of row \<open>j\<close>: the indexer stores \<open>(i, j)\<close>, \<open>j \<le> i < w\<close>, at
  \<open>ut_base w j + i\<close>.\<close>

definition ut_base :: "nat \<Rightarrow> nat \<Rightarrow> nat" where
  "ut_base w j = j * (2 * w - 1 - j) div 2"

lemma ut_base_double:
  assumes "j < w"
  shows "2 * ut_base w j = j * (2 * w - 1 - j)"
proof -
  have "even (j * (2 * w - 1 - j))" using assms by (cases "even j") auto
  then show ?thesis by (simp add: ut_base_def)
qed

lemma ut_base_Suc:
  assumes "Suc j < w"
  shows "ut_base w (Suc j) + Suc j = ut_base w j + w"
proof -
  obtain d where w: "w = Suc (Suc (j + d))"
    using assms less_iff_Suc_add by (metis add_Suc less_imp_Suc_add)
  have "2 * ut_base w j = j * (2 * w - 1 - j)"
    by (rule ut_base_double) (use assms in simp)
  moreover have "2 * ut_base w (Suc j) = Suc j * (2 * w - 1 - Suc j)"
    by (rule ut_base_double) (use assms in simp)
  ultimately have "2 * (ut_base w (Suc j) + Suc j) = 2 * (ut_base w j + w)"
    by (simp add: w algebra_simps)
  then show ?thesis by simp
qed

lemma ut_base_mono:
  assumes "j < j'" "j' < w"
  shows "ut_base w j + w \<le> ut_base w j' + j'"
  using assms
proof (induction j')
  case (Suc m)
  then show ?case
  proof (cases "j = m")
    case False
    with Suc have "ut_base w j + w \<le> ut_base w m + m" by simp
    also have "\<dots> \<le> ut_base w m + w" using Suc.prems by simp
    finally show ?thesis using ut_base_Suc [of m w] Suc.prems by simp
  qed (use ut_base_Suc in simp)
qed simp

lemma ut_base_less:
  assumes "j \<le> i" "i < w"
  shows "ut_base w j + i < w * (w + 1) div 2"
proof -
  have "2 * ut_base w j = j * (2 * w - 1 - j)" using assms by (intro ut_base_double) simp
  moreover obtain d where w: "w = Suc (j + d)" using assms less_imp_Suc_add by (metis le_less_trans)
  ultimately have "2 * (ut_base w j + w) \<le> w * (w + 1)"
    by (simp add: algebra_simps)
  then have "ut_base w j + w \<le> w * (w + 1) div 2" by presburger
  then show ?thesis using assms(2) by linarith
qed

lemma card_triangle: "card {(i, j). j \<le> i \<and> i < w} = w * (w + 1) div 2"
proof -
  have "{(i, j). j \<le> i \<and> i < w} = Sigma {..<w} (\<lambda>i. {..i})" by auto
  then have "card {(i, j). j \<le> i \<and> i < w} = (\<Sum>i<w. i + 1)" by simp
  also have "\<dots> = w * (w + 1) div 2"
    by (induction w) auto
  finally show ?thesis .
qed

lemma ut_bij: "bij_betw (\<lambda>(i, j). ut_base w j + i) {(i, j). j \<le> i \<and> i < w} {..<w * (w + 1) div 2}"
  (is "bij_betw ?f ?A ?B")
proof -
  have fin: "finite ?A"
    by (rule finite_subset [of _ "{..<w} \<times> {..<w}"]) auto
  have inj: "inj_on ?f ?A"
  proof (rule inj_onI, clarify)
    fix i j i' j'
    assume a: "j \<le> i" "i < w" "j' \<le> i'" "i' < w"
      and eq: "ut_base w j + i = ut_base w j' + i'"
    then have "j = j'"
      using ut_base_mono [of j j' w] ut_base_mono [of j' j w] by (cases j j' rule: linorder_cases) auto
    with eq show "i = i' \<and> j = j'" by simp
  qed
  have "?f ` ?A \<subseteq> ?B" using ut_base_less by fastforce
  moreover have "card (?f ` ?A) = card ?B"
    using card_triangle [of w] by (simp add: card_image [OF inj])
  ultimately have "?f ` ?A = ?B" by (intro card_subset_eq) auto
  with inj show ?thesis by (simp add: bij_betw_def)
qed

section \<open>Properties\<close>

text \<open>A rectangular \<open>Index2D\<close> whose number of elements fits in an \<open>unsigned int\<close> maps the
  pairs \<open>i < w\<close>, \<open>j < h\<close> one-to-one onto the array positions below \<open>getNumElements()\<close>.\<close>

theorem Index2D_bijective:
  assumes "unat w * unat h < 2 ^ 32"
  shows "bij_betw (\<lambda>(i, j). unat (Index2D_idx (Index2D_rect w h) (of_nat i) (of_nat j)))
           ({..<unat w} \<times> {..<unat h})
           {..<unat (Index2D_getNumElements (Index2D_rect w h))}"
proof -
  have w: "unat w < 2 ^ 32" and h: "unat h < 2 ^ 32"
    using unsigned_less [of w] unsigned_less [of h] by simp_all
  have "bij_betw (\<lambda>(i, j). j * unat w + i) ({..<unat w} \<times> {..<unat h}) {..<unat w * unat h}"
    by (rule row_major_bij)
  moreover have "unat (Index2D_idx (Index2D_rect w h) (of_nat i) (of_nat j)) = j * unat w + i"
    if "i < unat w" "j < unat h" for i j
    using that assms w h by (subst Index2D_idx_unat) (auto simp: Index2D_rect_def)
  ultimately show ?thesis
    using assms by (subst bij_betw_cong [where g = "\<lambda>(i, j). j * unat w + i"])
      (auto simp: Index2D_getNumElements_unat Index2D_rect_def)
qed

theorem Index2D_bijective_witness:
  "bij_betw (\<lambda>(i, j). unat (Index2D_idx (Index2D_rect 3 5) (of_nat i) (of_nat j)))
     ({..<unat (3 :: uint)} \<times> {..<unat (5 :: uint)})
     {..<unat (Index2D_getNumElements (Index2D_rect 3 5))}"
  by (rule Index2D_bijective) simp

text \<open>\<open>Index3D::getTriple\<close> inverts \<open>Index3D::operator()\<close>, and the index stays below
  \<open>getNumElements()\<close>, whenever the array fits in an \<open>unsigned int\<close>.\<close>

theorem Index3D_getTriple_inverse:
  assumes size: "unat w * unat h * unat d < 2 ^ 32"
    and ijk: "i < w" "j < h" "k < d"
  shows "Index3D_getTriple (Index3D_rect w h d) (Index3D_idx (Index3D_rect w h d) i j k) = (i, j, k)
    \<and> Index3D_idx (Index3D_rect w h d) i j k < Index3D_getNumElements (Index3D_rect w h d)"
proof -
  let ?I = "Index3D_rect w h d" and ?w = "unat w" and ?h = "unat h"
  have i: "unat i < ?w" and j: "unat j < ?h" and k: "unat k < unat d"
    using ijk by (simp_all add: word_less_nat_alt)
  define n where "n = Index3D_idx ?I i j k"
  have n: "unat n = (unat k * ?h + unat j) * ?w + unat i"
    unfolding n_def using size i j k by (subst Index3D_idx_unat) (simp_all add: Index3D_rect_def)
  have "?h * ?w \<le> ?w * ?h * unat d" using k by (simp add: mult.commute)
  from le_less_trans [OF this size] have "unat (h * w) = ?h * ?w"
    by (intro unat_mult_nowrap) simp
  with n row_major_decode [OF i j] have z: "n div (h * w) = k" and m: "unat (n mod (h * w)) = unat j * ?w + unat i"
    by (simp_all add: uint_eq_iff unat_div unat_mod)
  from m row_major_decode(3) [OF i j] have y: "n mod (h * w) div w = j"
    by (simp add: uint_eq_iff unat_div)
  have "n = (k * h + j) * w + i" by (simp add: n_def Index3D_idx_def Index3D_rect_def)
  then have x: "n - k * h * w - j * w = i" by (simp add: algebra_simps)
  have "unat n < ?w * (?h * unat d)"
    unfolding n by (rule row_major_less [OF i row_major_less [OF j k]])
  then have "n < Index3D_getNumElements ?I"
    using size k by (simp add: word_less_nat_alt Index3D_getNumElements_unat Index3D_rect_def mult.assoc)
  moreover have "Index3D_getTriple ?I n = (i, j, k)"
    using x y z by (simp add: Index3D_getTriple_def Index3D_rect_def Let_def)
  ultimately show ?thesis by (simp add: n_def)
qed

theorem Index3D_getTriple_inverse_witness:
  "Index3D_getTriple (Index3D_rect 4 3 2) (Index3D_idx (Index3D_rect 4 3 2) 3 2 1) = (3, 2, 1)
    \<and> Index3D_idx (Index3D_rect 4 3 2) 3 2 1 < Index3D_getNumElements (Index3D_rect 4 3 2)"
  by (rule Index3D_getTriple_inverse) simp_all

lemma less_half_double: "(x::nat) < y div 2 \<Longrightarrow> 2 * x < y"
  by linarith

lemma Index2DUpperTriangular_idx_unat:
  assumes size: "unat w * (unat w + 1) < 2 ^ 32" and ij: "unat j \<le> unat i" "unat i < unat w"
  shows "unat (Index2DUpperTriangular_idx (Index2DUpperTriangular_new w) i j) = ut_base (unat w) (unat j) + unat i"
proof -
  let ?w = "unat w" and ?j = "unat j"
  have "?w \<le> ?w * ?w" by (cases ?w) auto
  then have "2 * ?w \<le> ?w * (?w + 1)" by (simp add: distrib_left)
  from le_less_trans [OF this size] have "2 * ?w < 2 ^ LENGTH(32)" by simp
  moreover have two: "unat (2 :: uint) = 2" by simp
  ultimately have w2: "unat (2 * w) = 2 * ?w"
    by (simp only: unat_mult_nowrap)
  have "1 \<le> 2 * w"
    using w2 ij by (simp only: word_le_nat_alt) simp
  then have t: "unat (2 * w - 1) = 2 * ?w - 1" by (simp only: unat_sub w2) simp
  then have s: "unat (2 * w - 1 - j) = 2 * ?w - 1 - ?j"
    using ij by (subst unat_sub) (simp_all add: word_le_nat_alt)
  have dbl: "?j * (2 * ?w - 1 - ?j) = 2 * ut_base ?w ?j"
    by (rule ut_base_double [symmetric]) (rule le_less_trans [OF ij])
  have "2 * (ut_base ?w ?j + unat i) < ?w * (?w + 1)"
    by (rule less_half_double [OF ut_base_less [OF ij]])
  from less_trans [OF this size]
  have lt: "2 * ut_base ?w ?j < 2 ^ LENGTH(32)" "ut_base ?w ?j + unat i < 2 ^ LENGTH(32)"
    by simp_all
  have "unat j * unat (2 * w - 1 - j) < 2 ^ LENGTH(32)"
    unfolding s dbl by (rule lt(1))
  then have "unat (j * (2 * w - 1 - j)) = ?j * (2 * ?w - 1 - ?j)"
    by (simp only: unat_mult_nowrap s)
  then have d: "unat (j * (2 * w - 1 - j) div 2) = ut_base ?w ?j"
    by (simp add: unat_div ut_base_def)
  have "\<not> i < j" using ij(1) by (simp add: word_less_nat_alt)
  moreover have "unat (j * (2 * w - 1 - j) div 2 + i) = ut_base ?w ?j + unat i"
    using d lt(2) by (simp only: unat_add_nowrap)
  ultimately show ?thesis
    by (simp add: Index2DUpperTriangular_idx_def Index2DUpperTriangular_new_def)
qed

lemma Index2DUpperTriangular_getNumElements_unat:
  assumes "unat w * (unat w + 1) < 2 ^ 32"
  shows "unat (Index2DUpperTriangular_getNumElements (Index2DUpperTriangular_new w)) = unat w * (unat w + 1) div 2"
proof (cases "w = 0")
  case False
  then have "0 < unat w" by (simp add: unat_gt_0)
  then have "unat w + 1 \<le> unat w * (unat w + 1)" by simp
  from le_less_trans [OF this assms] have "unat (w + 1) = unat w + 1"
    by (subst unat_add_nowrap) simp_all
  with assms have "unat (w * (w + 1)) = unat w * (unat w + 1)"
    by (subst unat_mult_nowrap) simp_all
  then show ?thesis
    by (simp add: Index2DUpperTriangular_getNumElements_def Index2DUpperTriangular_new_def unat_div)
qed (simp add: Index2DUpperTriangular_getNumElements_def Index2DUpperTriangular_new_def)

text \<open>The upper triangular indexer is symmetric in its two arguments and maps the pairs
  \<open>j \<le> i < w\<close> one-to-one onto the \<open>w (w + 1) / 2\<close> positions \<open>getNumElements()\<close> counts, as long
  as \<open>w (w + 1)\<close> does not wrap.\<close>

theorem Index2DUpperTriangular_bijective:
  assumes size: "unat w * (unat w + 1) < 2 ^ 32"
  shows "bij_betw (\<lambda>(i, j). unat (Index2DUpperTriangular_idx (Index2DUpperTriangular_new w) (of_nat i) (of_nat j)))
           {(i, j). j \<le> i \<and> i < unat w}
           {..<unat (Index2DUpperTriangular_getNumElements (Index2DUpperTriangular_new w))}
    \<and> (\<forall>i j. Index2DUpperTriangular_idx (Index2DUpperTriangular_new w) i j =
             Index2DUpperTriangular_idx (Index2DUpperTriangular_new w) j i)"
proof
  have w: "unat w < 2 ^ 32" using unsigned_less [of w] by simp
  have "unat (Index2DUpperTriangular_idx (Index2DUpperTriangular_new w) (of_nat i) (of_nat j))
      = ut_base (unat w) j + i" if "j \<le> i" "i < unat w" for i j
    using that size w by (subst Index2DUpperTriangular_idx_unat) simp_all
  then show "bij_betw (\<lambda>(i, j). unat (Index2DUpperTriangular_idx (Index2DUpperTriangular_new w) (of_nat i) (of_nat j)))
           {(i, j). j \<le> i \<and> i < unat w}
           {..<unat (Index2DUpperTriangular_getNumElements (Index2DUpperTriangular_new w))}"
    using ut_bij [of "unat w"] size
    by (subst bij_betw_cong [where g = "\<lambda>(i, j). ut_base (unat w) j + i"])
      (auto simp: Index2DUpperTriangular_getNumElements_unat)
  show "\<forall>i j. Index2DUpperTriangular_idx (Index2DUpperTriangular_new w) i j =
             Index2DUpperTriangular_idx (Index2DUpperTriangular_new w) j i"
    by (auto simp: Index2DUpperTriangular_idx_def)
qed

theorem Index2DUpperTriangular_bijective_witness:
  "bij_betw (\<lambda>(i, j). unat (Index2DUpperTriangular_idx (Index2DUpperTriangular_new 4) (of_nat i) (of_nat j)))
     {(i, j). j \<le> i \<and> i < unat (4 :: uint)}
     {..<unat (Index2DUpperTriangular_getNumElements (Index2DUpperTriangular_new 4))}"
  using Index2DUpperTriangular_bijective [of 4] by simp

end
