(* ===== verification/Vector_Math.thy ===== *)
theory Vector_Math
  imports Hoomd_Prelude
begin

text \<open>
  The vector types of \<open>utils/VectorMath.h\<close> (\<open>vec3\<close>, \<open>vec2\<close>, \<open>quat\<close>, \<open>rotmat2\<close>,
  \<open>rotmat3\<close>) and the \<open>Scalar3\<close> operators of \<open>utils/HOOMDMath.h\<close>, operator by operator.
  \<open>Scalar3\<close> and \<open>vec3<Scalar>\<close> have the same three components and the conversions between
  them copy the components, so both are the type \<open>vec3\<close> here. The compound assignments
  (\<open>+=\<close> and its kin) return the new value of their left operand.
  The properties say that the quaternion rotation of the code is the rotation that the
  comments promise, and that the rotation matrices compute the same one.
\<close>

section \<open>Three-component vectors\<close>

datatype vec3 = Vec3 (vx: real) (vy: real) (vz: real)

type_synonym Scalar3 = vec3

datatype Scalar4 = Scalar4 (sx: real) (sy: real) (sz: real) (sw: real)

definition make_scalar3 :: "real \<Rightarrow> real \<Rightarrow> real \<Rightarrow> Scalar3" where
  "make_scalar3 x y z = Vec3 x y z"

definition make_scalar4 :: "real \<Rightarrow> real \<Rightarrow> real \<Rightarrow> real \<Rightarrow> Scalar4" where
  "make_scalar4 x y z w = Scalar4 x y z w"

definition vec3_zero :: vec3 where
  "vec3_zero = Vec3 0 0 0"

definition vec3_of_scalar4 :: "Scalar4 \<Rightarrow> vec3" where
  "vec3_of_scalar4 a = Vec3 (sx a) (sy a) (sz a)"

definition vec3_swap :: "vec3 \<Rightarrow> vec3 \<Rightarrow> vec3 \<times> vec3" where
  "vec3_swap this v =
     (let tx = vx v; ty = vy v; tz = vz v;
          v' = Vec3 (vx this) (vy this) (vz this);
          this' = Vec3 tx ty tz
      in (this', v'))"

definition vec3_add :: "vec3 \<Rightarrow> vec3 \<Rightarrow> vec3" where
  "vec3_add a b = Vec3 (vx a + vx b) (vy a + vy b) (vz a + vz b)"

definition vec3_sub :: "vec3 \<Rightarrow> vec3 \<Rightarrow> vec3" where
  "vec3_sub a b = Vec3 (vx a - vx b) (vy a - vy b) (vz a - vz b)"

definition vec3_mul :: "vec3 \<Rightarrow> vec3 \<Rightarrow> vec3" where
  "vec3_mul a b = Vec3 (vx a * vx b) (vy a * vy b) (vz a * vz b)"

definition vec3_div :: "vec3 \<Rightarrow> vec3 \<Rightarrow> vec3" where
  "vec3_div a b = Vec3 (vx a / vx b) (vy a / vy b) (vz a / vz b)"

definition vec3_neg :: "vec3 \<Rightarrow> vec3" where
  "vec3_neg a = Vec3 (- vx a) (- vy a) (- vz a)"

definition vec3_add_assign :: "vec3 \<Rightarrow> vec3 \<Rightarrow> vec3" where
  "vec3_add_assign a b =
     (let ax = vx a + vx b; ay = vy a + vy b; az = vz a + vz b in Vec3 ax ay az)"

definition vec3_sub_assign :: "vec3 \<Rightarrow> vec3 \<Rightarrow> vec3" where
  "vec3_sub_assign a b =
     (let ax = vx a - vx b; ay = vy a - vy b; az = vz a - vz b in Vec3 ax ay az)"

definition vec3_mul_assign :: "vec3 \<Rightarrow> vec3 \<Rightarrow> vec3" where
  "vec3_mul_assign a b =
     (let ax = vx a * vx b; ay = vy a * vy b; az = vz a * vz b in Vec3 ax ay az)"

definition vec3_div_assign :: "vec3 \<Rightarrow> vec3 \<Rightarrow> vec3" where
  "vec3_div_assign a b =
     (let ax = vx a / vx b; ay = vy a / vy b; az = vz a / vz b in Vec3 ax ay az)"

definition vec3_scale :: "vec3 \<Rightarrow> real \<Rightarrow> vec3" where
  "vec3_scale a b = Vec3 (vx a * b) (vy a * b) (vz a * b)"

definition scale_vec3 :: "real \<Rightarrow> vec3 \<Rightarrow> vec3" where
  "scale_vec3 b a = Vec3 (vx a * b) (vy a * b) (vz a * b)"

text \<open>Division by a scalar multiplies by the reciprocal; the compound assignment divides.\<close>

definition vec3_divs :: "vec3 \<Rightarrow> real \<Rightarrow> vec3" where
  "vec3_divs a b = (let q = 1 / b in vec3_scale a q)"

definition vec3_scale_assign :: "vec3 \<Rightarrow> real \<Rightarrow> vec3" where
  "vec3_scale_assign a b = (let ax = vx a * b; ay = vy a * b; az = vz a * b in Vec3 ax ay az)"

definition vec3_divs_assign :: "vec3 \<Rightarrow> real \<Rightarrow> vec3" where
  "vec3_divs_assign a b = (let ax = vx a / b; ay = vy a / b; az = vz a / b in Vec3 ax ay az)"

definition vec3_eq :: "vec3 \<Rightarrow> vec3 \<Rightarrow> bool" where
  "vec3_eq a b \<longleftrightarrow> vx a = vx b \<and> vy a = vy b \<and> vz a = vz b"

definition vec3_neq :: "vec3 \<Rightarrow> vec3 \<Rightarrow> bool" where
  "vec3_neq a b \<longleftrightarrow> vx a \<noteq> vx b \<or> vy a \<noteq> vy b \<or> vz a \<noteq> vz b"

definition dot :: "vec3 \<Rightarrow> vec3 \<Rightarrow> real" where
  "dot a b = vx a * vx b + vy a * vy b + vz a * vz b"

definition cross :: "vec3 \<Rightarrow> vec3 \<Rightarrow> vec3" where
  "cross a b = Vec3 (vy a * vz b - vz a * vy b)
                    (vz a * vx b - vx a * vz b)
                    (vx a * vy b - vy a * vx b)"

definition vec_to_scalar3 :: "vec3 \<Rightarrow> Scalar3" where
  "vec_to_scalar3 a = make_scalar3 (vx a) (vy a) (vz a)"

definition vec_to_scalar4 :: "vec3 \<Rightarrow> real \<Rightarrow> Scalar4" where
  "vec_to_scalar4 a w = make_scalar4 (vx a) (vy a) (vz a) w"

text \<open>The scalar division of \<open>Scalar3\<close> divides component by component, and a scalar divided
  by a \<open>Scalar3\<close> is the vector of quotients.\<close>

definition scalar3_divs :: "Scalar3 \<Rightarrow> real \<Rightarrow> Scalar3" where
  "scalar3_divs a b = make_scalar3 (vx a / b) (vy a / b) (vz a / b)"

definition divs_scalar3 :: "real \<Rightarrow> Scalar3 \<Rightarrow> Scalar3" where
  "divs_scalar3 a b = make_scalar3 (a / vx b) (a / vy b) (a / vz b)"

subsection \<open>The additive group of vectors\<close>

instantiation vec3 :: ab_group_add
begin

definition zero_vec3_def [hoomd_defs]: "0 = vec3_zero"
definition plus_vec3_def [hoomd_defs]: "a + b = vec3_add a b"
definition minus_vec3_def [hoomd_defs]: "a - b = vec3_sub a b"
definition uminus_vec3_def [hoomd_defs]: "- a = vec3_neg a"

instance
  by standard
    (simp_all add: zero_vec3_def plus_vec3_def minus_vec3_def uminus_vec3_def
      vec3_zero_def vec3_add_def vec3_sub_def vec3_neg_def)

end

lemma vec3_components [simp]:
  "vx 0 = 0" "vy 0 = 0" "vz 0 = 0"
  "vx (a + b) = vx a + vx b" "vy (a + b) = vy a + vy b" "vz (a + b) = vz a + vz b"
  "vx (a - b) = vx a - vx b" "vy (a - b) = vy a - vy b" "vz (a - b) = vz a - vz b"
  "vx (- a) = - vx a" "vy (- a) = - vy a" "vz (- a) = - vz a"
  "vx (scale_vec3 c a) = c * vx a" "vy (scale_vec3 c a) = c * vy a" "vz (scale_vec3 c a) = c * vz a"
  "vx (vec3_scale a c) = vx a * c" "vy (vec3_scale a c) = vy a * c" "vz (vec3_scale a c) = vz a * c"
  "vx (cross a b) = vy a * vz b - vz a * vy b"
  "vy (cross a b) = vz a * vx b - vx a * vz b"
  "vz (cross a b) = vx a * vy b - vy a * vx b"
  by (simp_all add: hoomd_defs vec3_zero_def vec3_add_def vec3_sub_def vec3_neg_def scale_vec3_def
      vec3_scale_def cross_def)

lemma vec3_eqI: "vx a = vx b \<Longrightarrow> vy a = vy b \<Longrightarrow> vz a = vz b \<Longrightarrow> a = b"
  by (rule vec3.expand) simp

lemma vec3_eq_iff: "a = b \<longleftrightarrow> vx a = vx b \<and> vy a = vy b \<and> vz a = vz b"
  by (auto intro: vec3_eqI)

lemma vec3_eq_eq [simp]: "vec3_eq a b \<longleftrightarrow> a = b" and vec3_neq_eq [simp]: "vec3_neq a b \<longleftrightarrow> a \<noteq> b"
  by (auto simp: vec3_eq_def vec3_neq_def vec3_eq_iff)

lemma vec3_add_eq [simp]: "vec3_add a b = a + b" and vec3_sub_eq [simp]: "vec3_sub a b = a - b"
  and vec3_neg_eq [simp]: "vec3_neg a = - a"
  by (simp_all add: hoomd_defs)

lemma vec3_scale_eq [simp]: "vec3_scale a c = scale_vec3 c a"
  by (simp add: vec3_eq_iff)

lemma vec_to_scalar3_id [simp]: "vec_to_scalar3 a = a"
  by (simp add: vec_to_scalar3_def make_scalar3_def)

lemma dot_commute: "dot a b = dot b a"
  by (simp add: dot_def algebra_simps)

lemma dot_linear [simp]:
  "dot (a + b) c = dot a c + dot b c" "dot a (b + c) = dot a b + dot a c"
  "dot (a - b) c = dot a c - dot b c" "dot a (b - c) = dot a b - dot a c"
  "dot (- a) b = - dot a b" "dot a (- b) = - dot a b"
  "dot (scale_vec3 k a) b = k * dot a b" "dot a (scale_vec3 k b) = k * dot a b"
  "dot 0 a = 0" "dot a 0 = 0"
  by (simp_all add: dot_def algebra_simps)

lemma dot_self_nonneg: "0 \<le> dot a a"
  by (simp add: dot_def)

lemma dot_self_eq_0 [simp]: "dot a a = 0 \<longleftrightarrow> a = 0"
proof
  assume eq: "dot a a = 0"
  have "0 \<le> vx a * vx a" "0 \<le> vy a * vy a" "0 \<le> vz a * vz a" by simp_all
  with eq have "vx a * vx a = 0 \<and> vy a * vy a = 0 \<and> vz a * vz a = 0"
    unfolding dot_def by linarith
  then show "a = 0" by (simp add: vec3_eq_iff)
qed simp

lemma scale_vec3_simps [simp]:
  "scale_vec3 0 a = 0" "scale_vec3 1 a = a" "scale_vec3 k 0 = 0"
  "scale_vec3 (- k) a = - scale_vec3 k a" "scale_vec3 k (- a) = - scale_vec3 k a"
  "scale_vec3 k (scale_vec3 l a) = scale_vec3 (k * l) a"
  by (simp_all add: vec3_eq_iff)

lemma scale_vec3_distrib:
  "scale_vec3 (k + l) a = scale_vec3 k a + scale_vec3 l a"
  "scale_vec3 (k - l) a = scale_vec3 k a - scale_vec3 l a"
  "scale_vec3 k (a + b) = scale_vec3 k a + scale_vec3 k b"
  "scale_vec3 k (a - b) = scale_vec3 k a - scale_vec3 k b"
  by (simp_all add: vec3_eq_iff algebra_simps)

section \<open>Two-component vectors\<close>

datatype vec2 = Vec2 (v2x: real) (v2y: real)

definition vec2_zero :: vec2 where
  "vec2_zero = Vec2 0 0"

definition vec2_swap :: "vec2 \<Rightarrow> vec2 \<Rightarrow> vec2 \<times> vec2" where
  "vec2_swap this v =
     (let tx = v2x v; ty = v2y v; v' = Vec2 (v2x this) (v2y this); this' = Vec2 tx ty in (this', v'))"

definition vec2_add :: "vec2 \<Rightarrow> vec2 \<Rightarrow> vec2" where
  "vec2_add a b = Vec2 (v2x a + v2x b) (v2y a + v2y b)"

definition vec2_sub :: "vec2 \<Rightarrow> vec2 \<Rightarrow> vec2" where
  "vec2_sub a b = Vec2 (v2x a - v2x b) (v2y a - v2y b)"

definition vec2_mul :: "vec2 \<Rightarrow> vec2 \<Rightarrow> vec2" where
  "vec2_mul a b = Vec2 (v2x a * v2x b) (v2y a * v2y b)"

definition vec2_div :: "vec2 \<Rightarrow> vec2 \<Rightarrow> vec2" where
  "vec2_div a b = Vec2 (v2x a / v2x b) (v2y a / v2y b)"

definition vec2_neg :: "vec2 \<Rightarrow> vec2" where
  "vec2_neg a = Vec2 (- v2x a) (- v2y a)"

definition vec2_add_assign :: "vec2 \<Rightarrow> vec2 \<Rightarrow> vec2" where
  "vec2_add_assign a b = (let ax = v2x a + v2x b; ay = v2y a + v2y b in Vec2 ax ay)"

definition vec2_sub_assign :: "vec2 \<Rightarrow> vec2 \<Rightarrow> vec2" where
  "vec2_sub_assign a b = (let ax = v2x a - v2x b; ay = v2y a - v2y b in Vec2 ax ay)"

definition vec2_mul_assign :: "vec2 \<Rightarrow> vec2 \<Rightarrow> vec2" where
  "vec2_mul_assign a b = (let ax = v2x a * v2x b; ay = v2y a * v2y b in Vec2 ax ay)"

definition vec2_div_assign :: "vec2 \<Rightarrow> vec2 \<Rightarrow> vec2" where
  "vec2_div_assign a b = (let ax = v2x a / v2x b; ay = v2y a / v2y b in Vec2 ax ay)"

definition vec2_scale :: "vec2 \<Rightarrow> real \<Rightarrow> vec2" where
  "vec2_scale a b = Vec2 (v2x a * b) (v2y a * b)"

definition scale_vec2 :: "real \<Rightarrow> vec2 \<Rightarrow> vec2" where
  "scale_vec2 b a = Vec2 (v2x a * b) (v2y a * b)"

definition vec2_divs :: "vec2 \<Rightarrow> real \<Rightarrow> vec2" where
  "vec2_divs a b = (let q = 1 / b in vec2_scale a q)"

definition vec2_scale_assign :: "vec2 \<Rightarrow> real \<Rightarrow> vec2" where
  "vec2_scale_assign a b = (let ax = v2x a * b; ay = v2y a * b in Vec2 ax ay)"

definition vec2_divs_assign :: "vec2 \<Rightarrow> real \<Rightarrow> vec2" where
  "vec2_divs_assign a b = (let ax = v2x a / b; ay = v2y a / b in Vec2 ax ay)"

definition vec2_eq :: "vec2 \<Rightarrow> vec2 \<Rightarrow> bool" where
  "vec2_eq a b \<longleftrightarrow> v2x a = v2x b \<and> v2y a = v2y b"

definition vec2_neq :: "vec2 \<Rightarrow> vec2 \<Rightarrow> bool" where
  "vec2_neq a b \<longleftrightarrow> v2x a \<noteq> v2x b \<or> v2y a \<noteq> v2y b"

definition dot2 :: "vec2 \<Rightarrow> vec2 \<Rightarrow> real" where
  "dot2 a b = v2x a * v2x b + v2y a * v2y b"

definition perp :: "vec2 \<Rightarrow> vec2" where
  "perp a = Vec2 (- v2y a) (v2x a)"

definition perpdot :: "vec2 \<Rightarrow> vec2 \<Rightarrow> real" where
  "perpdot a b = dot2 (perp a) b"

lemma vec2_eq_iff: "a = b \<longleftrightarrow> v2x a = v2x b \<and> v2y a = v2y b"
  by (auto intro: vec2.expand)

section \<open>Quaternions\<close>

datatype quat = Quat (qs: real) (qv: vec3)

definition quat_of_scalar4 :: "Scalar4 \<Rightarrow> quat" where
  "quat_of_scalar4 a = Quat (sx a) (Vec3 (sy a) (sz a) (sw a))"

definition quat_one :: quat where
  "quat_one = Quat 1 (Vec3 0 0 0)"

definition quat_fromAxisAngle :: "vec3 \<Rightarrow> real \<Rightarrow> quat" where
  "quat_fromAxisAngle axis \<theta> = Quat (cos (\<theta> / 2)) (scale_vec3 (sin (\<theta> / 2)) axis)"

definition scale_quat :: "real \<Rightarrow> quat \<Rightarrow> quat" where
  "scale_quat b a = Quat (b * qs a) (scale_vec3 b (qv a))"

definition quat_scale :: "quat \<Rightarrow> real \<Rightarrow> quat" where
  "quat_scale a b = Quat (qs a * b) (vec3_scale (qv a) b)"

definition quat_add :: "quat \<Rightarrow> quat \<Rightarrow> quat" where
  "quat_add a b = Quat (qs a + qs b) (qv a + qv b)"

definition quat_add_assign :: "quat \<Rightarrow> quat \<Rightarrow> quat" where
  "quat_add_assign a b = (let s = qs a + qs b; v = vec3_add_assign (qv a) (qv b) in Quat s v)"

definition quat_sub :: "quat \<Rightarrow> quat \<Rightarrow> quat" where
  "quat_sub a b = Quat (qs a - qs b) (qv a - qv b)"

definition quat_sub_assign :: "quat \<Rightarrow> quat \<Rightarrow> quat" where
  "quat_sub_assign a b = (let s = qs a - qs b; v = vec3_sub_assign (qv a) (qv b) in Quat s v)"

definition quat_mul :: "quat \<Rightarrow> quat \<Rightarrow> quat" where
  "quat_mul a b =
     Quat (qs a * qs b - dot (qv a) (qv b))
          (scale_vec3 (qs a) (qv b) + scale_vec3 (qs b) (qv a) + cross (qv a) (qv b))"

definition vec3_mul_quat :: "vec3 \<Rightarrow> quat \<Rightarrow> quat" where
  "vec3_mul_quat a b = quat_mul (Quat 0 a) b"

definition quat_mul_vec3 :: "quat \<Rightarrow> vec3 \<Rightarrow> quat" where
  "quat_mul_vec3 a b = quat_mul a (Quat 0 b)"

definition norm2 :: "quat \<Rightarrow> real" where
  "norm2 a = qs a * qs a + dot (qv a) (qv a)"

definition quat_conj :: "quat \<Rightarrow> quat" where
  "quat_conj a = Quat (qs a) (- qv a)"

definition rotate3 :: "quat \<Rightarrow> vec3 \<Rightarrow> vec3" where
  "rotate3 a b =
     scale_vec3 (qs a * qs a - dot (qv a) (qv a)) b
     + scale_vec3 (2 * qs a) (cross (qv a) b)
     + scale_vec3 (2 * dot (qv a) b) (qv a)"

definition rotate2 :: "quat \<Rightarrow> vec2 \<Rightarrow> vec2" where
  "rotate2 a b =
     (let b3 = Vec3 (v2x b) (v2y b) 0;
          b3' = scale_vec3 (qs a * qs a - dot (qv a) (qv a)) b3
                + scale_vec3 (2 * qs a) (cross (qv a) b3)
                + scale_vec3 (2 * dot (qv a) b3) (qv a)
      in Vec2 (vx b3') (vy b3'))"

definition quat_to_scalar4 :: "quat \<Rightarrow> Scalar4" where
  "quat_to_scalar4 a = make_scalar4 (qs a) (vx (qv a)) (vy (qv a)) (vz (qv a))"

definition quat_dot :: "quat \<Rightarrow> quat \<Rightarrow> real" where
  "quat_dot a b = qs a * qs b + dot (qv a) (qv b)"

lemma quat_eq_iff: "a = b \<longleftrightarrow> qs a = qs b \<and> qv a = qv b"
  by (auto intro: quat.expand)

section \<open>Rotation matrices\<close>

datatype rotmat2 = Rotmat2 (r2row0: vec2) (r2row1: vec2)

definition rotmat2_of_quat :: "quat \<Rightarrow> rotmat2" where
  "rotmat2_of_quat q =
     (let a = qs q; b = vx (qv q); c = vy (qv q); d = vz (qv q)
      in Rotmat2 (Vec2 (a*a + b*b - c*c - d*d) (2*b*c - 2*a*d))
                 (Vec2 (2*b*c + 2*a*d) (a*a - b*b + c*c - d*d)))"

definition rotmat2_id :: rotmat2 where
  "rotmat2_id = Rotmat2 (Vec2 1 0) (Vec2 0 1)"

definition rotmat2_fromAngle :: "real \<Rightarrow> rotmat2" where
  "rotmat2_fromAngle \<theta> = Rotmat2 (Vec2 (cos \<theta>) (- sin \<theta>)) (Vec2 (sin \<theta>) (cos \<theta>))"

definition rotmat2_apply :: "rotmat2 \<Rightarrow> vec2 \<Rightarrow> vec2" where
  "rotmat2_apply A b = Vec2 (dot2 (r2row0 A) b) (dot2 (r2row1 A) b)"

definition rotmat2_transpose :: "rotmat2 \<Rightarrow> rotmat2" where
  "rotmat2_transpose A =
     Rotmat2 (Vec2 (v2x (r2row0 A)) (v2x (r2row1 A))) (Vec2 (v2y (r2row0 A)) (v2y (r2row1 A)))"

datatype rotmat3 = Rotmat3 (row0: vec3) (row1: vec3) (row2: vec3)

definition rotmat3_of_quat :: "quat \<Rightarrow> rotmat3" where
  "rotmat3_of_quat q =
     (let a = qs q; b = vx (qv q); c = vy (qv q); d = vz (qv q)
      in Rotmat3 (Vec3 (a*a + b*b - c*c - d*d) (2*b*c - 2*a*d) (2*b*d + 2*a*c))
                 (Vec3 (2*b*c + 2*a*d) (a*a - b*b + c*c - d*d) (2*c*d - 2*a*b))
                 (Vec3 (2*b*d - 2*a*c) (2*c*d + 2*a*b) (a*a - b*b - c*c + d*d)))"

definition rotmat3_id :: rotmat3 where
  "rotmat3_id = Rotmat3 (Vec3 1 0 0) (Vec3 0 1 0) (Vec3 0 0 1)"

definition rotmat3_fromAxisAngle :: "vec3 \<Rightarrow> real \<Rightarrow> rotmat3" where
  "rotmat3_fromAxisAngle axis \<theta> = rotmat3_of_quat (quat_fromAxisAngle axis \<theta>)"

definition rotmat3_apply :: "rotmat3 \<Rightarrow> vec3 \<Rightarrow> vec3" where
  "rotmat3_apply A b = Vec3 (dot (row0 A) b) (dot (row1 A) b) (dot (row2 A) b)"

definition rotmat3_transpose :: "rotmat3 \<Rightarrow> rotmat3" where
  "rotmat3_transpose A =
     Rotmat3 (Vec3 (vx (row0 A)) (vx (row1 A)) (vx (row2 A)))
             (Vec3 (vy (row0 A)) (vy (row1 A)) (vy (row2 A)))
             (Vec3 (vz (row0 A)) (vz (row1 A)) (vz (row2 A)))"

definition project3 :: "vec3 \<Rightarrow> vec3 \<Rightarrow> vec3" where
  "project3 a b = scale_vec3 (dot a b / dot b b) b"

section \<open>Rotations\<close>

lemma quat_conj_simps [simp]: "qs (quat_conj a) = qs a" "qv (quat_conj a) = - qv a"
  by (simp_all add: quat_conj_def)

lemma norm2_conj [simp]: "norm2 (quat_conj a) = norm2 a"
  by (simp add: norm2_def)

lemma norm2_nonneg: "0 \<le> norm2 a"
  by (simp add: norm2_def dot_self_nonneg)

lemma norm2_mul: "norm2 (quat_mul a b) = norm2 a * norm2 b"
  by (cases a; cases b) (simp add: norm2_def quat_mul_def dot_def algebra_simps)

lemma norm2_scale: "norm2 (scale_quat k a) = k * k * norm2 a"
  by (simp add: norm2_def scale_quat_def dot_def algebra_simps)

lemma rotate_scale_quat: "rotate3 (scale_quat k a) b = scale_vec3 (k * k) (rotate3 a b)"
  by (simp add: rotate3_def scale_quat_def dot_def vec3_eq_iff algebra_simps)

lemma rotate_linear [simp]:
  "rotate3 a (b + c) = rotate3 a b + rotate3 a c"
  "rotate3 a (b - c) = rotate3 a b - rotate3 a c"
  "rotate3 a (- b) = - rotate3 a b"
  "rotate3 a (scale_vec3 k b) = scale_vec3 k (rotate3 a b)"
  "rotate3 a 0 = 0"
  by (simp_all add: rotate3_def dot_def vec3_eq_iff algebra_simps)

lemma dot_rotate: "dot (rotate3 a b) (rotate3 a c) = norm2 a * norm2 a * dot b c"
  by (simp add: rotate3_def norm2_def dot_def) algebra

lemma rotate_conj_rotate: "rotate3 (quat_conj a) (rotate3 a b) = scale_vec3 (norm2 a * norm2 a) b"
  by (simp add: rotate3_def norm2_def dot_def vec3_eq_iff) (intro conjI; algebra)

lemma rotate_mul: "rotate3 (quat_mul a b) c = rotate3 a (rotate3 b c)"
  by (simp add: rotate3_def quat_mul_def dot_def vec3_eq_iff) (intro conjI; algebra)

lemma rotmat3_rotate: "rotmat3_apply (rotmat3_of_quat q) b = rotate3 q b"
  by (simp add: rotmat3_apply_def rotmat3_of_quat_def rotate3_def dot_def vec3_eq_iff Let_def)
    (intro conjI; algebra)

lemma rotmat3_transpose_conj: "rotmat3_transpose (rotmat3_of_quat q) = rotmat3_of_quat (quat_conj q)"
  by (simp add: rotmat3_transpose_def rotmat3_of_quat_def Let_def)

section \<open>Properties\<close>

text \<open>The optimised \<open>rotate(quat, vec3)\<close> computes what its comment promises: the vector
  part of the quaternion product \<open>a * b * conj(a)\<close>, whose scalar part is zero.\<close>

theorem rotate_is_conjugation:
  "quat_mul (quat_mul_vec3 a b) (quat_conj a) = Quat 0 (rotate3 a b)"
  by (simp add: quat_mul_vec3_def quat_mul_def rotate3_def dot_def quat_eq_iff vec3_eq_iff)
    (intro conjI; algebra)

text \<open>A unit quaternion rotates rigidly: \<open>rotate3\<close> keeps dot products (lengths and
  angles), \<open>quat_conj\<close> undoes it, the product of two unit quaternions is a unit quaternion and
  rotates by one after the other.\<close>

theorem rotate_rigid:
  assumes "norm2 a = 1" "norm2 b = 1"
  shows "dot (rotate3 a u) (rotate3 a v) = dot u v
    \<and> rotate3 (quat_conj a) (rotate3 a u) = u
    \<and> norm2 (quat_mul a b) = 1
    \<and> rotate3 (quat_mul a b) u = rotate3 a (rotate3 b u)"
  using assms by (simp add: dot_rotate rotate_conj_rotate norm2_mul rotate_mul)

theorem rotate_rigid_witness:
  "dot (rotate3 (Quat (3/5) (Vec3 0 0 (4/5))) (Vec3 1 2 3)) (rotate3 (Quat (3/5) (Vec3 0 0 (4/5))) (Vec3 4 5 6)) = 32"
proof -
  have n: "norm2 (Quat (3/5) (Vec3 0 0 (4/5))) = 1" by (simp add: norm2_def dot_def field_simps)
  show ?thesis
    using rotate_rigid [OF n n, of "Vec3 1 2 3" "Vec3 4 5 6"] by (simp add: dot_def)
qed

text \<open>The matrices built from a quaternion apply the same rotation as the quaternion:
  \<open>rotmat3(q) * b = rotate(q, b)\<close>, its transpose applies the conjugate rotation, and
  \<open>rotmat2(q) * b\<close> is the \<open>vec2\<close> overload of \<open>rotate3\<close>.\<close>

theorem rotmat_rotate:
  "rotmat3_apply (rotmat3_of_quat q) b = rotate3 q b
    \<and> rotmat3_apply (rotmat3_transpose (rotmat3_of_quat q)) b = rotate3 (quat_conj q) b
    \<and> rotmat2_apply (rotmat2_of_quat q) c = rotate2 q c"
  by (simp add: rotmat3_rotate rotmat3_transpose_conj)
    (simp add: rotmat2_apply_def rotmat2_of_quat_def rotate2_def dot2_def dot_def Let_def algebra_simps)

text \<open>\<open>quat::fromAxisAngle\<close> with a unit axis yields a unit quaternion whose rotation is
  the rotation by \<open>\<theta>\<close> around the axis (Rodrigues' formula).\<close>

theorem fromAxisAngle_rodrigues:
  assumes "dot axis axis = 1"
  shows "norm2 (quat_fromAxisAngle axis \<theta>) = 1
    \<and> rotate3 (quat_fromAxisAngle axis \<theta>) b =
        scale_vec3 (cos \<theta>) b + scale_vec3 (sin \<theta>) (cross axis b)
        + scale_vec3 ((1 - cos \<theta>) * dot axis b) axis"
proof -
  define c s where "c = cos (\<theta> / 2)" and "s = sin (\<theta> / 2)"
  have cs: "c * c + s * s = 1" unfolding c_def s_def by (metis sin_cos_squared_add3)
  have cos: "cos \<theta> = c * c - s * s" and sin: "sin \<theta> = 2 * s * c"
    using cos_double [of "\<theta> / 2"] sin_double [of "\<theta> / 2"]
    by (simp_all add: c_def s_def power2_eq_square)
  have one: "1 - cos \<theta> = 2 * s * s" using cs cos by simp
  have "rotate3 (Quat c (scale_vec3 s axis)) b =
      scale_vec3 (c * c - s * s * dot axis axis) b + scale_vec3 (2 * s * c) (cross axis b)
      + scale_vec3 (2 * s * s * dot axis b) axis"
    by (simp add: rotate3_def dot_def vec3_eq_iff algebra_simps)
  moreover have "norm2 (Quat c (scale_vec3 s axis)) = c * c + s * s * dot axis axis"
    by (simp add: norm2_def)
  ultimately show ?thesis
    unfolding quat_fromAxisAngle_def c_def [symmetric] s_def [symmetric]
    unfolding one unfolding cos sin using assms cs by simp
qed

theorem fromAxisAngle_rodrigues_witness:
  "rotate3 (quat_fromAxisAngle (Vec3 0 0 1) (pi / 2)) (Vec3 1 0 0) = Vec3 0 1 0"
proof -
  have "dot (Vec3 0 0 1) (Vec3 0 0 1) = 1" by (simp add: dot_def)
  from fromAxisAngle_rodrigues [OF this, of "pi / 2" "Vec3 1 0 0"]
  show ?thesis by (simp add: vec3_eq_iff dot_def)
qed

text \<open>The compound assignments agree with the binary operators, in particular the two
  spellings of the division by a scalar.\<close>

lemma compound_assignments [simp]:
  "vec3_add_assign a b = a + b" "vec3_sub_assign a b = a - b"
  "vec3_mul_assign a b = vec3_mul a b" "vec3_div_assign a b = vec3_div a b"
  "vec3_scale_assign a k = scale_vec3 k a" "vec3_divs_assign a k = vec3_divs a k"
  "vec2_add_assign c d = vec2_add c d" "vec2_sub_assign c d = vec2_sub c d"
  "vec2_mul_assign c d = vec2_mul c d" "vec2_div_assign c d = vec2_div c d"
  "vec2_scale_assign c k = vec2_scale c k" "vec2_divs_assign c k = vec2_divs c k"
  "quat_add_assign p q = quat_add p q" "quat_sub_assign p q = quat_sub p q"
  by (simp_all add: vec3_add_assign_def vec3_sub_assign_def vec3_mul_assign_def vec3_div_assign_def
      vec3_scale_assign_def vec3_divs_assign_def vec3_divs_def vec3_mul_def vec3_div_def
      vec2_add_assign_def vec2_sub_assign_def vec2_mul_assign_def vec2_div_assign_def
      vec2_scale_assign_def vec2_divs_assign_def vec2_divs_def vec2_add_def vec2_sub_def
      vec2_mul_def vec2_div_def vec2_scale_def quat_add_assign_def quat_sub_assign_def
      quat_add_def quat_sub_def vec3_eq_iff vec2_eq_iff)

lemma perpdot_eq: "perpdot a b = v2x a * v2y b - v2y a * v2x b"
  by (simp add: perpdot_def perp_def dot2_def)

lemma project3_orthogonal: "b \<noteq> 0 \<Longrightarrow> dot (a - project3 a b) b = 0"
  by (simp add: project3_def)

lemma quat_scalar4_round_trip: "quat_of_scalar4 (quat_to_scalar4 q) = q"
  by (simp add: quat_of_scalar4_def quat_to_scalar4_def make_scalar4_def quat_eq_iff)

lemma rotmat2_fromAngle_rotates:
  "rotmat2_apply (rotmat2_transpose (rotmat2_fromAngle \<theta>)) (rotmat2_apply (rotmat2_fromAngle \<theta>) b) = b"
proof -
  have "cos \<theta> * cos \<theta> + sin \<theta> * sin \<theta> = 1" by (metis sin_cos_squared_add3)
  then show ?thesis
    by (simp add: rotmat2_apply_def rotmat2_transpose_def rotmat2_fromAngle_def dot2_def vec2_eq_iff
        del: sin_cos_squared_add3) (intro conjI; algebra)
qed

end
