(* ===== verification/Box_Dim.thy ===== *)
theory Box_Dim
  imports Vector_Math
begin

text \<open>
  The simulation box of \<open>data_structures/BoxDim.h\<close>: a triclinic, optionally periodic box with
  its fractional coordinates, the minimum image convention (the host branch and the \<open>NVCC\<close>
  branch), the wrapping of positions with their image counters, lattice vectors, volume and
  plane distances. The overloads on \<open>vec3\<close> convert to \<open>Scalar3\<close> and call the methods
  modelled here; \<open>Scalar3\<close> and \<open>vec3\<close> are one type in the model.
  Image counters are unbounded integers.
\<close>

section \<open>The box\<close>

datatype 'a tri = Tri (tx: 'a) (ty: 'a) (tz: 'a)

type_synonym int3 = "int tri"
type_synonym uchar3 = "bool tri"
type_synonym char3 = "int tri"

record BoxDim =
  m_lo :: Scalar3
  m_hi :: Scalar3
  m_L :: Scalar3
  m_Linv :: Scalar3
  m_xy :: real
  m_xz :: real
  m_yz :: real
  m_periodic :: uchar3

abbreviation no_flags :: char3 where
  "no_flags \<equiv> Tri 0 0 0"

abbreviation all_periodic :: uchar3 where
  "all_periodic \<equiv> Tri True True True"

definition BoxDim_null :: BoxDim where
  "BoxDim_null = \<lparr>m_lo = make_scalar3 0 0 0, m_hi = make_scalar3 0 0 0, m_L = make_scalar3 0 0 0,
     m_Linv = make_scalar3 0 0 0, m_xy = 0, m_xz = 0, m_yz = 0, m_periodic = all_periodic\<rparr>"

definition setL :: "BoxDim \<Rightarrow> Scalar3 \<Rightarrow> BoxDim" where
  "setL b L = (let hi = scalar3_divs L 2 in
     b\<lparr>m_hi := hi, m_lo := - hi, m_Linv := divs_scalar3 1 L, m_L := L\<rparr>)"

definition setLoHi :: "BoxDim \<Rightarrow> Scalar3 \<Rightarrow> Scalar3 \<Rightarrow> BoxDim" where
  "setLoHi b lo hi =
     b\<lparr>m_hi := hi, m_lo := lo, m_Linv := divs_scalar3 1 (hi - lo), m_L := hi - lo\<rparr>"

definition setTiltFactors :: "BoxDim \<Rightarrow> real \<Rightarrow> real \<Rightarrow> real \<Rightarrow> BoxDim" where
  "setTiltFactors b xy xz yz = b\<lparr>m_xy := xy, m_xz := xz, m_yz := yz\<rparr>"

definition setPeriodic :: "BoxDim \<Rightarrow> uchar3 \<Rightarrow> BoxDim" where
  "setPeriodic b periodic = b\<lparr>m_periodic := periodic\<rparr>"

text \<open>The constructors start from uninitialised members and set all of them.\<close>

definition BoxDim_cube :: "real \<Rightarrow> BoxDim" where
  "BoxDim_cube Len = (setL BoxDim_null (make_scalar3 Len Len Len))
     \<lparr>m_periodic := all_periodic, m_xz := 0, m_xy := 0, m_yz := 0\<rparr>"

definition BoxDim_xyz :: "real \<Rightarrow> real \<Rightarrow> real \<Rightarrow> BoxDim" where
  "BoxDim_xyz Len_x Len_y Len_z = (setL BoxDim_null (make_scalar3 Len_x Len_y Len_z))
     \<lparr>m_periodic := all_periodic, m_xz := 0, m_xy := 0, m_yz := 0\<rparr>"

definition BoxDim_len3 :: "Scalar3 \<Rightarrow> BoxDim" where
  "BoxDim_len3 L = (setL BoxDim_null L)
     \<lparr>m_periodic := all_periodic, m_xz := 0, m_xy := 0, m_yz := 0\<rparr>"

definition BoxDim_tilted :: "real \<Rightarrow> real \<Rightarrow> real \<Rightarrow> real \<Rightarrow> BoxDim" where
  "BoxDim_tilted Len xy xz yz =
     (setTiltFactors (setL BoxDim_null (make_scalar3 Len Len Len)) xy xz yz)
     \<lparr>m_periodic := all_periodic\<rparr>"

definition BoxDim_lohi :: "Scalar3 \<Rightarrow> Scalar3 \<Rightarrow> uchar3 \<Rightarrow> BoxDim" where
  "BoxDim_lohi lo hi periodic = (setLoHi BoxDim_null lo hi)
     \<lparr>m_periodic := periodic, m_xz := 0, m_xy := 0, m_yz := 0\<rparr>"

section \<open>Fractional coordinates\<close>

definition getNearestPlaneDistance :: "BoxDim \<Rightarrow> Scalar3" where
  "getNearestPlaneDistance b =
     Vec3 (vx (m_L b) * rsqrt (1 + m_xy b * m_xy b
                               + (m_xy b * m_yz b - m_xz b) * (m_xy b * m_yz b - m_xz b)))
          (vy (m_L b) * rsqrt (1 + m_yz b * m_yz b))
          (vz (m_L b))"

definition makeFraction_ghost :: "BoxDim \<Rightarrow> Scalar3 \<Rightarrow> Scalar3 \<Rightarrow> Scalar3" where
  "makeFraction_ghost b v ghost_width =
     (let delta = v - m_lo b;
          delta = Vec3 (vx delta - ((m_xz b - m_yz b * m_xy b) * vz v + m_xy b * vy v))
                       (vy delta - m_yz b * vz v)
                       (vz delta);
          ghost_frac = vec3_div ghost_width (getNearestPlaneDistance b)
      in vec3_div (vec3_mul delta (m_Linv b) + ghost_frac)
                  (make_scalar3 1 1 1 + scale_vec3 2 ghost_frac))"

text \<open>The default argument of \<open>makeFraction\<close> is a ghost layer of width zero.\<close>

definition makeFraction :: "BoxDim \<Rightarrow> Scalar3 \<Rightarrow> Scalar3" where
  "makeFraction b v = makeFraction_ghost b v (make_scalar3 0 0 0)"

definition makeCoordinates :: "BoxDim \<Rightarrow> Scalar3 \<Rightarrow> Scalar3" where
  "makeCoordinates b f =
     (let v = m_lo b + vec3_mul f (m_L b);
          v = Vec3 (vx v + (m_xy b * vy v + m_xz b * vz v)) (vy v) (vz v);
          v = Vec3 (vx v) (vy v + m_yz b * vz v) (vz v)
      in v)"

definition shift :: "BoxDim \<Rightarrow> Scalar3 \<Rightarrow> int3 \<Rightarrow> Scalar3" where
  "shift b v s =
     v + makeCoordinates b (make_scalar3 (1/2) (1/2) (1/2)
                            + make_scalar3 (of_int (tx s)) (of_int (ty s)) (of_int (tz s)))"

definition getImage :: "BoxDim \<Rightarrow> Scalar3 \<Rightarrow> int3" where
  "getImage b v =
     (let f = makeFraction b v - make_scalar3 (1/2) (1/2) (1/2)
      in Tri (cast_int32 (if vx f \<ge> 0 then vx f + 1/2 else vx f - 1/2))
             (cast_int32 (if vy f \<ge> 0 then vy f + 1/2 else vy f - 1/2))
             (cast_int32 (if vz f \<ge> 0 then vz f + 1/2 else vz f - 1/2)))"

definition getVolume :: "BoxDim \<Rightarrow> bool \<Rightarrow> real" where
  "getVolume b twod = (if twod then vx (m_L b) * vy (m_L b)
                       else vx (m_L b) * vy (m_L b) * vz (m_L b))"

definition getLatticeVector :: "BoxDim \<Rightarrow> nat \<Rightarrow> Scalar3" where
  "getLatticeVector b i =
     (if i = 0 then make_scalar3 (vx (m_L b)) 0 0
      else if i = 1 then make_scalar3 (vy (m_L b) * m_xy b) (vy (m_L b)) 0
      else if i = 2 then make_scalar3 (vz (m_L b) * m_xz b) (vz (m_L b) * m_yz b) (vz (m_L b))
      else make_scalar3 0 0 0)"

section \<open>Minimum image\<close>

text \<open>The host branch, direction by direction in the order of the source: \<open>z\<close>, \<open>y\<close>, \<open>x\<close>. The
  \<open>z\<close> direction moves by at most one box length, the others by \<open>(int)\<close> of the quotient.\<close>

definition minImage_z :: "BoxDim \<Rightarrow> Scalar3 \<Rightarrow> Scalar3" where
  "minImage_z b w =
     (let L = m_L b in
      if tz (m_periodic b) then
        if vz w \<ge> vz (m_hi b) then
          Vec3 (vx w - vz L * m_xz b) (vy w - vz L * m_yz b) (vz w - vz L)
        else if vz w < vz (m_lo b) then
          Vec3 (vx w + vz L * m_xz b) (vy w + vz L * m_yz b) (vz w + vz L)
        else w
      else w)"

definition minImage_y :: "BoxDim \<Rightarrow> Scalar3 \<Rightarrow> Scalar3" where
  "minImage_y b w =
     (let L = m_L b in
      if ty (m_periodic b) then
        if vy w \<ge> vy (m_hi b) then
          let i = of_int (cast_int32 (vy w * vy (m_Linv b) + 1/2))
          in Vec3 (vx w - i * vy L * m_xy b) (vy w - i * vy L) (vz w)
        else if vy w < vy (m_lo b) then
          let i = of_int (cast_int32 (- vy w * vy (m_Linv b) + 1/2))
          in Vec3 (vx w + i * vy L * m_xy b) (vy w + i * vy L) (vz w)
        else w
      else w)"

definition minImage_x :: "BoxDim \<Rightarrow> Scalar3 \<Rightarrow> Scalar3" where
  "minImage_x b w =
     (let L = m_L b in
      if tx (m_periodic b) then
        if vx w \<ge> vx (m_hi b) then
          let i = of_int (cast_int32 (vx w * vx (m_Linv b) + 1/2))
          in Vec3 (vx w - i * vx L) (vy w) (vz w)
        else if vx w < vx (m_lo b) then
          let i = of_int (cast_int32 (- vx w * vx (m_Linv b) + 1/2))
          in Vec3 (vx w + i * vx L) (vy w) (vz w)
        else w
      else w)"

definition minImage :: "BoxDim \<Rightarrow> Scalar3 \<Rightarrow> Scalar3" where
  "minImage b v = minImage_x b (minImage_y b (minImage_z b v))"

text \<open>\<open>rintf\<close>: rounding to the nearest integer, ties to the even one.\<close>

definition rint :: "real \<Rightarrow> int" where
  "rint x = (let n = \<lfloor>x\<rfloor>; d = x - of_int n
             in if d < 1/2 then n else if d > 1/2 then n + 1 else if even n then n else n + 1)"

text \<open>The \<open>NVCC\<close> branch.\<close>

definition minImage_nvcc :: "BoxDim \<Rightarrow> Scalar3 \<Rightarrow> Scalar3" where
  "minImage_nvcc b v =
     (let L = m_L b;
          w = (if tz (m_periodic b) then
                 let img = of_int (rint (vz v * vz (m_Linv b)))
                 in Vec3 (vx v - vz L * m_xz b * img) (vy v - vz L * m_yz b * img) (vz v - vz L * img)
               else v);
          w = (if ty (m_periodic b) then
                 let img = of_int (rint (vy w * vy (m_Linv b)))
                 in Vec3 (vx w - vy L * m_xy b * img) (vy w - vy L * img) (vz w)
               else w);
          w = (if tx (m_periodic b) then
                 Vec3 (vx w - vx L * of_int (rint (vx w * vx (m_Linv b)))) (vy w) (vz w)
               else w)
      in w)"

section \<open>Wrapping\<close>

definition wrap_origin :: "BoxDim \<Rightarrow> Scalar3" where
  "wrap_origin b =
     (let c = scalar3_divs (m_hi b + m_lo b) 2
      in Vec3 (vx c) (if \<not> ty (m_periodic b) then 0 else vy c) (if \<not> tz (m_periodic b) then 0 else vz c))"

definition wrap_x :: "BoxDim \<Rightarrow> char3 \<Rightarrow> Scalar3 \<times> int3 \<Rightarrow> Scalar3 \<times> int3" where
  "wrap_x b flags = (\<lambda>(w, img).
     if tx (m_periodic b) then
       let L = m_L b; origin = wrap_origin b;
           tilt_x = (m_xz b - m_xy b * m_yz b) * (vz w - vz origin) + m_xy b * (vy w - vy origin)
       in if (vx w \<ge> vx (m_hi b) + tilt_x \<and> tx flags = 0) \<or> tx flags = 1 then
            (Vec3 (vx w - vx L) (vy w) (vz w), Tri (tx img + 1) (ty img) (tz img))
          else if (vx w < vx (m_lo b) + tilt_x \<and> tx flags = 0) \<or> tx flags = - 1 then
            (Vec3 (vx w + vx L) (vy w) (vz w), Tri (tx img - 1) (ty img) (tz img))
          else (w, img)
     else (w, img))"

definition wrap_y :: "BoxDim \<Rightarrow> char3 \<Rightarrow> Scalar3 \<times> int3 \<Rightarrow> Scalar3 \<times> int3" where
  "wrap_y b flags = (\<lambda>(w, img).
     if ty (m_periodic b) then
       let L = m_L b; origin = wrap_origin b;
           tilt_y = m_yz b * (vz w - vz origin)
       in if (vy w \<ge> vy (m_hi b) + tilt_y \<and> ty flags = 0) \<or> ty flags = 1 then
            (Vec3 (vx w - vy L * m_xy b) (vy w - vy L) (vz w), Tri (tx img) (ty img + 1) (tz img))
          else if (vy w < vy (m_lo b) + tilt_y \<and> ty flags = 0) \<or> ty flags = - 1 then
            (Vec3 (vx w + vy L * m_xy b) (vy w + vy L) (vz w), Tri (tx img) (ty img - 1) (tz img))
          else (w, img)
     else (w, img))"

definition wrap_z :: "BoxDim \<Rightarrow> char3 \<Rightarrow> Scalar3 \<times> int3 \<Rightarrow> Scalar3 \<times> int3" where
  "wrap_z b flags = (\<lambda>(w, img).
     if tz (m_periodic b) then
       let L = m_L b
       in if (vz w \<ge> vz (m_hi b) \<and> tz flags = 0) \<or> tz flags = 1 then
            (Vec3 (vx w - vz L * m_xz b) (vy w - vz L * m_yz b) (vz w - vz L),
             Tri (tx img) (ty img) (tz img + 1))
          else if (vz w < vz (m_lo b) \<and> tz flags = 0) \<or> tz flags = - 1 then
            (Vec3 (vx w + vz L * m_xz b) (vy w + vz L * m_yz b) (vz w + vz L),
             Tri (tx img) (ty img) (tz img - 1))
          else (w, img)
     else (w, img))"

definition wrap :: "BoxDim \<Rightarrow> Scalar3 \<Rightarrow> int3 \<Rightarrow> char3 \<Rightarrow> Scalar3 \<times> int3" where
  "wrap b w img flags = wrap_z b flags (wrap_y b flags (wrap_x b flags (w, img)))"

text \<open>The overload on \<open>Scalar4\<close> leaves the fourth component alone.\<close>

definition wrap4 :: "BoxDim \<Rightarrow> Scalar4 \<Rightarrow> int3 \<Rightarrow> char3 \<Rightarrow> Scalar4 \<times> int3" where
  "wrap4 b w img flags =
     (let v = make_scalar3 (sx w) (sy w) (sz w); (v', img') = wrap b v img flags
      in (Scalar4 (vx v') (vy v') (vz v') (sw w), img'))"

section \<open>Well-formed boxes\<close>

text \<open>The cached members agree with the corners and every length is positive. Every box made
  by a constructor or a setter from positive lengths is well formed.\<close>

definition box_ok :: "BoxDim \<Rightarrow> bool" where
  "box_ok b \<longleftrightarrow> m_L b = m_hi b - m_lo b \<and> m_Linv b = divs_scalar3 1 (m_L b)
     \<and> 0 < vx (m_L b) \<and> 0 < vy (m_L b) \<and> 0 < vz (m_L b)"

text \<open>The requirement the class comment states: the box is symmetric about the origin in every
  periodic direction.\<close>

definition box_centred :: "BoxDim \<Rightarrow> bool" where
  "box_centred b \<longleftrightarrow>
     (tx (m_periodic b) \<longrightarrow> vx (m_lo b) = - vx (m_hi b)) \<and>
     (ty (m_periodic b) \<longrightarrow> vy (m_lo b) = - vy (m_hi b)) \<and>
     (tz (m_periodic b) \<longrightarrow> vz (m_lo b) = - vz (m_hi b))"

lemmas box_constructor_defs =
  BoxDim_cube_def BoxDim_xyz_def BoxDim_len3_def BoxDim_tilted_def BoxDim_lohi_def BoxDim_null_def
  setL_def setLoHi_def setTiltFactors_def setPeriodic_def make_scalar3_def scalar3_divs_def
  divs_scalar3_def

lemma box_ok_setL:
  "0 < vx L \<Longrightarrow> 0 < vy L \<Longrightarrow> 0 < vz L \<Longrightarrow> box_ok (setL b L) \<and> box_centred (setL b L)"
  by (simp add: box_ok_def box_centred_def setL_def scalar3_divs_def divs_scalar3_def make_scalar3_def
      Let_def vec3_eq_iff)

lemma box_ok_setLoHi:
  "vx lo < vx hi \<Longrightarrow> vy lo < vy hi \<Longrightarrow> vz lo < vz hi \<Longrightarrow> box_ok (setLoHi b lo hi)"
  by (simp add: box_ok_def setLoHi_def)

lemma box_ok_setTiltFactors [simp]:
  "box_ok (setTiltFactors b xy xz yz) = box_ok b" "box_centred (setTiltFactors b xy xz yz) = box_centred b"
  "box_ok (setPeriodic b p) = box_ok b"
  by (simp_all add: box_ok_def box_centred_def setTiltFactors_def setPeriodic_def)

lemma box_ok_tilted:
  "0 < Len \<Longrightarrow> box_ok (BoxDim_tilted Len xy xz yz) \<and> box_centred (BoxDim_tilted Len xy xz yz)"
  by (simp add: box_ok_def box_centred_def box_constructor_defs Let_def vec3_eq_iff)

lemma box_ok_xyz:
  "0 < X \<Longrightarrow> 0 < Y \<Longrightarrow> 0 < Z \<Longrightarrow> box_ok (BoxDim_xyz X Y Z) \<and> box_centred (BoxDim_xyz X Y Z)"
  by (simp add: box_ok_def box_centred_def box_constructor_defs Let_def vec3_eq_iff)

section \<open>Lattice translations\<close>

definition lattice_point :: "BoxDim \<Rightarrow> int3 \<Rightarrow> Scalar3" where
  "lattice_point b n =
     scale_vec3 (of_int (tx n)) (getLatticeVector b 0) + scale_vec3 (of_int (ty n)) (getLatticeVector b 1)
     + scale_vec3 (of_int (tz n)) (getLatticeVector b 2)"

lemma lattice_point_components [simp]:
  "vx (lattice_point b n) = of_int (tx n) * vx (m_L b) + of_int (ty n) * (vy (m_L b) * m_xy b)
     + of_int (tz n) * (vz (m_L b) * m_xz b)"
  "vy (lattice_point b n) = of_int (ty n) * vy (m_L b) + of_int (tz n) * (vz (m_L b) * m_yz b)"
  "vz (lattice_point b n) = of_int (tz n) * vz (m_L b)"
  by (simp_all add: lattice_point_def getLatticeVector_def make_scalar3_def)

text \<open>The fractional coordinates in closed form.\<close>

lemma makeFraction_components:
  assumes "box_ok b"
  shows "vx (makeFraction b v) =
      (vx v - vx (m_lo b) - ((m_xz b - m_yz b * m_xy b) * vz v + m_xy b * vy v)) / vx (m_L b)"
    and "vy (makeFraction b v) = (vy v - vy (m_lo b) - m_yz b * vz v) / vy (m_L b)"
    and "vz (makeFraction b v) = (vz v - vz (m_lo b)) / vz (m_L b)"
  using assms
  by (simp_all add: makeFraction_def makeFraction_ghost_def box_ok_def divs_scalar3_def make_scalar3_def
      vec3_div_def vec3_mul_def Let_def)

lemma makeCoordinates_components:
  "vx (makeCoordinates b f) =
     vx (m_lo b) + vx f * vx (m_L b) + (m_xy b * (vy (m_lo b) + vy f * vy (m_L b))
       + m_xz b * (vz (m_lo b) + vz f * vz (m_L b)))"
  "vy (makeCoordinates b f) =
     vy (m_lo b) + vy f * vy (m_L b) + m_yz b * (vz (m_lo b) + vz f * vz (m_L b))"
  "vz (makeCoordinates b f) = vz (m_lo b) + vz f * vz (m_L b)"
  by (simp_all add: makeCoordinates_def vec3_mul_def Let_def)

lemma box_okD:
  assumes "box_ok b"
  shows "0 < vx (m_L b)" "0 < vy (m_L b)" "0 < vz (m_L b)"
    and "vx (m_hi b) = vx (m_lo b) + vx (m_L b)" "vy (m_hi b) = vy (m_lo b) + vy (m_L b)"
      "vz (m_hi b) = vz (m_lo b) + vz (m_L b)"
    and "vx (m_Linv b) = 1 / vx (m_L b)" "vy (m_Linv b) = 1 / vy (m_L b)" "vz (m_Linv b) = 1 / vz (m_L b)"
  using assms by (auto simp: box_ok_def divs_scalar3_def make_scalar3_def)

text \<open>A lattice translation moves the fractional coordinates by whole numbers.\<close>

lemma makeFraction_lattice:
  assumes "box_ok b"
  shows "makeFraction b (v + lattice_point b n) =
    makeFraction b v + Vec3 (of_int (tx n)) (of_int (ty n)) (of_int (tz n))"
  using box_okD [OF assms]
  by (simp add: vec3_eq_iff makeFraction_components [OF assms] field_simps)

lemma makeFraction_lattice_diff:
  assumes "box_ok b" "w + lattice_point b m = v + lattice_point b n"
  shows "makeFraction b w = makeFraction b v
    + Vec3 (of_int (tx n - tx m)) (of_int (ty n - ty m)) (of_int (tz n - tz m))"
proof -
  have "makeFraction b w + Vec3 (of_int (tx m)) (of_int (ty m)) (of_int (tz m)) =
      makeFraction b v + Vec3 (of_int (tx n)) (of_int (ty n)) (of_int (tz n))"
    using makeFraction_lattice [OF assms(1), of w m] makeFraction_lattice [OF assms(1), of v n] assms(2)
    by simp
  then show ?thesis by (simp add: vec3_eq_iff)
qed

lemma makeFraction_inj:
  assumes "box_ok b" "makeFraction b v = makeFraction b w"
  shows "v = w"
proof -
  note c = makeFraction_components [OF assms(1)] and L = box_okD(1-3) [OF assms(1)]
  have "vz v = vz w" using c(3) [of v] c(3) [of w] L(3) assms(2) by simp
  moreover from this have "vy v = vy w" using c(2) [of v] c(2) [of w] L(2) assms(2) by simp
  ultimately show ?thesis using c(1) [of v] c(1) [of w] L(1) assms(2) by (simp add: vec3_eq_iff)
qed

section \<open>Wrapping is a lattice translation recorded in the image\<close>

lemma wrap_step_position:
  "wrap_x b fl (w, img) = (w', img') \<Longrightarrow> w' + lattice_point b img' = w + lattice_point b img"
  "wrap_y b fl (w, img) = (w', img') \<Longrightarrow> w' + lattice_point b img' = w + lattice_point b img"
  "wrap_z b fl (w, img) = (w', img') \<Longrightarrow> w' + lattice_point b img' = w + lattice_point b img"
  by (auto simp: wrap_x_def wrap_y_def wrap_z_def Let_def vec3_eq_iff algebra_simps split: if_splits)

lemma wrap_position:
  assumes "wrap b w img fl = (w', img')"
  shows "w' + lattice_point b img' = w + lattice_point b img"
proof -
  obtain w1 img1 where 1: "wrap_x b fl (w, img) = (w1, img1)" by (cases "wrap_x b fl (w, img)")
  obtain w2 img2 where 2: "wrap_y b fl (w1, img1) = (w2, img2)" by (cases "wrap_y b fl (w1, img1)")
  have 3: "wrap_z b fl (w2, img2) = (w', img')" using assms 1 2 by (simp add: wrap_def)
  from wrap_step_position(3) [OF 3] wrap_step_position(2) [OF 2] wrap_step_position(1) [OF 1]
  show ?thesis by simp
qed

text \<open>What each step does to the fractional coordinates: it brings its own direction into the
  unit interval and leaves the other two alone.\<close>

definition into_unit :: "bool \<Rightarrow> real \<Rightarrow> real" where
  "into_unit periodic f = (if periodic then if f \<ge> 1 then f - 1 else if f < 0 then f + 1 else f else f)"

lemma into_unit_range: "- 1 \<le> f \<Longrightarrow> f < 2 \<Longrightarrow> 0 \<le> into_unit True f \<and> into_unit True f < 1"
  by (simp add: into_unit_def)

lemma wrap_origin_centred:
  assumes "box_centred b"
  shows "vy (wrap_origin b) = 0" "vz (wrap_origin b) = 0"
  using assms by (simp_all add: wrap_origin_def box_centred_def scalar3_divs_def make_scalar3_def Let_def)

lemma wrap_x_fraction:
  assumes "box_ok b" "box_centred b"
  shows "makeFraction b (fst (wrap_x b no_flags (w, img))) =
    (let f = makeFraction b w in Vec3 (into_unit (tx (m_periodic b)) (vx f)) (vy f) (vz f))"
  using box_okD [OF assms(1)] wrap_origin_centred [OF assms(2)]
  by (auto simp: wrap_x_def Let_def vec3_eq_iff into_unit_def makeFraction_components [OF assms(1)]
      field_simps)

lemma wrap_y_fraction:
  assumes "box_ok b" "box_centred b"
  shows "makeFraction b (fst (wrap_y b no_flags (w, img))) =
    (let f = makeFraction b w in Vec3 (vx f) (into_unit (ty (m_periodic b)) (vy f)) (vz f))"
  using box_okD [OF assms(1)] wrap_origin_centred [OF assms(2)]
  by (auto simp: wrap_y_def Let_def vec3_eq_iff into_unit_def makeFraction_components [OF assms(1)]
      field_simps)

lemma wrap_z_fraction:
  assumes "box_ok b"
  shows "makeFraction b (fst (wrap_z b no_flags (w, img))) =
    (let f = makeFraction b w in Vec3 (vx f) (vy f) (into_unit (tz (m_periodic b)) (vz f)))"
  using box_okD [OF assms(1)]
  by (auto simp: wrap_z_def Let_def vec3_eq_iff into_unit_def makeFraction_components [OF assms(1)]
      field_simps)

lemma wrap_fraction:
  assumes "box_ok b" "box_centred b"
  shows "makeFraction b (fst (wrap b w img no_flags)) =
    (let f = makeFraction b w in Vec3 (into_unit (tx (m_periodic b)) (vx f))
       (into_unit (ty (m_periodic b)) (vy f)) (into_unit (tz (m_periodic b)) (vz f)))"
proof -
  obtain w1 img1 where 1: "wrap_x b no_flags (w, img) = (w1, img1)" by (cases "wrap_x b no_flags (w, img)")
  obtain w2 img2 where 2: "wrap_y b no_flags (w1, img1) = (w2, img2)" by (cases "wrap_y b no_flags (w1, img1)")
  show ?thesis
    using wrap_x_fraction [OF assms, of w img] wrap_y_fraction [OF assms, of w1 img1]
      wrap_z_fraction [OF assms(1), of w2 img2] 1 2
    by (simp add: wrap_def Let_def)
qed

section \<open>Minimum images are lattice translations into the half box\<close>

lemma centred_hi:
  assumes "box_ok b" "box_centred b"
  shows "tx (m_periodic b) \<Longrightarrow> vx (m_hi b) = vx (m_L b) / 2 \<and> vx (m_lo b) = - vx (m_L b) / 2"
    and "ty (m_periodic b) \<Longrightarrow> vy (m_hi b) = vy (m_L b) / 2 \<and> vy (m_lo b) = - vy (m_L b) / 2"
    and "tz (m_periodic b) \<Longrightarrow> vz (m_hi b) = vz (m_L b) / 2 \<and> vz (m_lo b) = - vz (m_L b) / 2"
  using box_okD [OF assms(1)] assms(2) by (simp_all add: box_centred_def)

text \<open>Subtracting \<open>(int)(w / L + 1/2)\<close> lengths brings a value above the half box back into it,
  and the mirrored step does it from below, as long as the number of lengths is an \<open>int\<close>.\<close>

lemma cast_count:
  assumes "0 < L" "L / 2 \<le> w" "w \<le> 2 ^ 30 * L"
  shows "cast_int32 (w * (1 / L) + 1/2) = cast_int (w * (1 / L) + 1/2)"
proof -
  define q where "q = w * (1 / L)"
  have "0 \<le> q" "q \<le> 2 ^ 30" using assms by (simp_all add: q_def divide_le_eq)
  then have "- (2 ^ 31) \<le> q + 1/2" "q + 1/2 < 2 ^ 31" by simp_all
  then show ?thesis unfolding q_def by (rule cast_int32_eq)
qed

lemma reduce_above:
  assumes "0 < L" "L / 2 \<le> w" "w \<le> 2 ^ 30 * L"
  shows "- L / 2 \<le> w - of_int (cast_int32 (w * (1 / L) + 1/2)) * L
    \<and> w - of_int (cast_int32 (w * (1 / L) + 1/2)) * L < L / 2"
proof -
  define q where "q = w * (1 / L) + 1/2"
  have w: "w = (q - 1/2) * L" using assms(1) by (simp add: q_def)
  have "0 \<le> q" using assms by (simp add: q_def)
  note b = cast_int_bounds_nonneg [OF this]
  have "w - of_int (cast_int q) * L = (q - of_int (cast_int q) - 1/2) * L"
    by (simp add: w algebra_simps)
  moreover have "(- 1/2) * L \<le> (q - of_int (cast_int q) - 1/2) * L"
    using b assms(1) by (intro mult_right_mono) auto
  moreover have "(q - of_int (cast_int q) - 1/2) * L < (1/2) * L"
    using b assms(1) by (intro mult_strict_right_mono) auto
  ultimately show ?thesis unfolding cast_count [OF assms] by (simp add: q_def)
qed

lemma reduce_below:
  assumes "0 < L" "w < - L / 2" "- w \<le> 2 ^ 30 * L"
  shows "- L / 2 < w + of_int (cast_int32 (- w * (1 / L) + 1/2)) * L
    \<and> w + of_int (cast_int32 (- w * (1 / L) + 1/2)) * L \<le> L / 2"
proof -
  have "L / 2 \<le> - w" using assms by simp
  from reduce_above [OF assms(1) this assms(3)] show ?thesis by simp
qed

definition reduce :: "real \<Rightarrow> real \<Rightarrow> real" where
  "reduce L w = (if w \<ge> L / 2 then w - of_int (cast_int32 (w * (1 / L) + 1/2)) * L
     else if w < - L / 2 then w + of_int (cast_int32 (- w * (1 / L) + 1/2)) * L else w)"

lemma reduce_range:
  assumes "0 < L" "\<bar>w\<bar> \<le> 2 ^ 30 * L"
  shows "\<bar>reduce L w\<bar> \<le> L / 2"
proof (cases "w \<ge> L / 2")
  case True
  have "w \<le> 2 ^ 30 * L" using assms(2) by linarith
  from reduce_above [OF assms(1) True this] True show ?thesis by (simp only: reduce_def if_True) linarith
next
  case False
  show ?thesis
  proof (cases "w < - L / 2")
    case True
    have "reduce L w = w + of_int (cast_int32 (- w * (1 / L) + 1/2)) * L"
      using False True by (simp add: reduce_def)
    moreover have "- w \<le> 2 ^ 30 * L" using assms(2) by linarith
    ultimately show ?thesis using reduce_below [OF assms(1) True] by linarith
  next
    case below: False
    have "reduce L w = w" using False below by (simp add: reduce_def)
    with False below show ?thesis by linarith
  qed
qed

lemma minImage_steps_lattice:
  "\<exists>n. minImage_z b w = w + lattice_point b (Tri 0 0 n)"
  "\<exists>n. minImage_y b w = w + lattice_point b (Tri 0 n 0)"
  "\<exists>n. minImage_x b w = w + lattice_point b (Tri n 0 0)"
proof -
  show "\<exists>n. minImage_z b w = w + lattice_point b (Tri 0 0 n)"
    by (rule exI [of _ "if \<not> tz (m_periodic b) then 0 else if vz w \<ge> vz (m_hi b) then - 1
        else if vz w < vz (m_lo b) then 1 else 0"])
      (simp add: minImage_z_def Let_def vec3_eq_iff)
  show "\<exists>n. minImage_y b w = w + lattice_point b (Tri 0 n 0)"
    by (rule exI [of _ "if \<not> ty (m_periodic b) then 0
        else if vy w \<ge> vy (m_hi b) then - cast_int32 (vy w * vy (m_Linv b) + 1/2)
        else if vy w < vy (m_lo b) then cast_int32 (- vy w * vy (m_Linv b) + 1/2) else 0"])
      (simp add: minImage_y_def Let_def vec3_eq_iff)
  show "\<exists>n. minImage_x b w = w + lattice_point b (Tri n 0 0)"
    by (rule exI [of _ "if \<not> tx (m_periodic b) then 0
        else if vx w \<ge> vx (m_hi b) then - cast_int32 (vx w * vx (m_Linv b) + 1/2)
        else if vx w < vx (m_lo b) then cast_int32 (- vx w * vx (m_Linv b) + 1/2) else 0"])
      (simp add: minImage_x_def Let_def vec3_eq_iff)
qed

lemma lattice_point_add:
  "lattice_point b (Tri l m n) =
     lattice_point b (Tri l 0 0) + (lattice_point b (Tri 0 m 0) + lattice_point b (Tri 0 0 n))"
  by (simp add: vec3_eq_iff algebra_simps)

lemma minImage_lattice: "\<exists>n. minImage b v = v + lattice_point b n"
proof -
  obtain l where l: "minImage_z b v = v + lattice_point b (Tri 0 0 l)"
    using minImage_steps_lattice(1) by blast
  obtain m where m: "minImage_y b (minImage_z b v) = minImage_z b v + lattice_point b (Tri 0 m 0)"
    using minImage_steps_lattice(2) by blast
  obtain k where k: "minImage b v = minImage_y b (minImage_z b v) + lattice_point b (Tri k 0 0)"
    using minImage_steps_lattice(3) minImage_def by metis
  have "minImage b v = v + lattice_point b (Tri k m l)"
    unfolding k m lattice_point_add [of b k m l] using l by (simp add: ac_simps)
  then show ?thesis by blast
qed

lemma minImage_frame [simp]:
  "vy (minImage_x b w) = vy w" "vz (minImage_x b w) = vz w" "vz (minImage_y b w) = vz w"
  by (simp_all add: minImage_x_def minImage_y_def Let_def)

lemma minImage_x_range:
  assumes "box_ok b" "box_centred b" "tx (m_periodic b)" "\<bar>vx w\<bar> \<le> 2 ^ 30 * vx (m_L b)"
  shows "\<bar>vx (minImage_x b w)\<bar> \<le> vx (m_L b) / 2"
proof -
  have "vx (minImage_x b w) = reduce (vx (m_L b)) (vx w)"
    using centred_hi(1) [OF assms(1-3)] assms(3) box_okD(7) [OF assms(1)]
    by (simp add: minImage_x_def reduce_def Let_def)
  with reduce_range [OF box_okD(1) [OF assms(1)] assms(4)] show ?thesis by simp
qed

lemma minImage_y_range:
  assumes "box_ok b" "box_centred b" "ty (m_periodic b)" "\<bar>vy w\<bar> \<le> 2 ^ 30 * vy (m_L b)"
  shows "\<bar>vy (minImage_y b w)\<bar> \<le> vy (m_L b) / 2"
proof -
  have "vy (minImage_y b w) = reduce (vy (m_L b)) (vy w)"
    using centred_hi(2) [OF assms(1-3)] assms(3) box_okD(8) [OF assms(1)]
    by (simp add: minImage_y_def reduce_def Let_def)
  with reduce_range [OF box_okD(2) [OF assms(1)] assms(4)] show ?thesis by simp
qed

lemma minImage_z_range:
  assumes "box_ok b" "box_centred b" "tz (m_periodic b)" "\<bar>vz w\<bar> \<le> 3 / 2 * vz (m_L b)"
  shows "\<bar>vz (minImage_z b w)\<bar> \<le> vz (m_L b) / 2"
  using centred_hi(3) [OF assms(1-3)] assms(3,4) box_okD(3) [OF assms(1)]
  by (auto simp: minImage_z_def Let_def abs_if split: if_splits)

lemma rint_error: "\<bar>x - of_int (rint x)\<bar> \<le> 1/2"
proof -
  have "of_int \<lfloor>x\<rfloor> \<le> x" "x < of_int \<lfloor>x\<rfloor> + 1" by simp_all
  then show ?thesis by (simp add: rint_def Let_def abs_le_iff)
qed

lemma rint_reduce:
  assumes "0 < L"
  shows "\<bar>w - L * of_int (rint (w * (1 / L)))\<bar> \<le> L / 2"
proof -
  have "w - L * of_int (rint (w * (1 / L))) = L * (w * (1 / L) - of_int (rint (w * (1 / L))))"
    using assms by (simp add: algebra_simps)
  also have "\<bar>\<dots>\<bar> = L * \<bar>w * (1 / L) - of_int (rint (w * (1 / L)))\<bar>"
    using assms by (simp add: abs_mult)
  also have "\<dots> \<le> L * (1/2)" using assms by (intro mult_left_mono rint_error) simp
  finally show ?thesis by simp
qed

lemma minImage_nvcc_steps:
  fixes b :: BoxDim and v :: Scalar3
  defines "k \<equiv> if tz (m_periodic b) then - rint (vz v * vz (m_Linv b)) else 0"
  defines "w \<equiv> v + lattice_point b (Tri 0 0 k)"
  defines "m \<equiv> if ty (m_periodic b) then - rint (vy w * vy (m_Linv b)) else 0"
  defines "u \<equiv> w + lattice_point b (Tri 0 m 0)"
  defines "l \<equiv> if tx (m_periodic b) then - rint (vx u * vx (m_Linv b)) else 0"
  shows "minImage_nvcc b v = u + lattice_point b (Tri l 0 0)"
proof -
  define w' where "w' = (if tz (m_periodic b) then
      let img = of_int (rint (vz v * vz (m_Linv b)))
      in Vec3 (vx v - vz (m_L b) * m_xz b * img) (vy v - vz (m_L b) * m_yz b * img) (vz v - vz (m_L b) * img)
    else v)"
  define u' where "u' = (if ty (m_periodic b) then
      let img = of_int (rint (vy w' * vy (m_Linv b)))
      in Vec3 (vx w' - vy (m_L b) * m_xy b * img) (vy w' - vy (m_L b) * img) (vz w')
    else w')"
  have w: "w' = w" by (simp add: w'_def w_def k_def vec3_eq_iff Let_def)
  have u: "u' = u" by (simp add: u'_def u_def m_def vec3_eq_iff Let_def w)
  have "minImage_nvcc b v = (if tx (m_periodic b) then
      Vec3 (vx u' - vx (m_L b) * of_int (rint (vx u' * vx (m_Linv b)))) (vy u') (vz u') else u')"
    unfolding minImage_nvcc_def Let_def [of "m_L b"] u'_def w'_def by (simp only: Let_def)
  also have "\<dots> = u + lattice_point b (Tri l 0 0)"
    by (simp add: u l_def vec3_eq_iff)
  finally show ?thesis .
qed

section \<open>Properties of the box\<close>

text \<open>C30: in a well-formed box \<open>makeFraction\<close> and \<open>makeCoordinates\<close> are inverse to each
  other, for every tilt, so fractional and Cartesian coordinates carry the same information.\<close>

theorem fraction_roundtrip:
  assumes "box_ok b"
  shows "makeCoordinates b (makeFraction b v) = v \<and> makeFraction b (makeCoordinates b f) = f"
  using box_okD [OF assms]
  by (simp add: vec3_eq_iff makeFraction_components [OF assms] makeCoordinates_components field_simps)

theorem fraction_roundtrip_witness:
  "makeCoordinates (BoxDim_tilted 4 1 2 3) (makeFraction (BoxDim_tilted 4 1 2 3) (Vec3 5 6 7)) = Vec3 5 6 7
   \<and> makeFraction (BoxDim_tilted 4 1 2 3) (makeCoordinates (BoxDim_tilted 4 1 2 3) (Vec3 0 1 2)) = Vec3 0 1 2"
  using box_ok_tilted [of 4 1 2 3] by (intro fraction_roundtrip) simp

text \<open>C13: \<open>wrap\<close> never loses a particle: whatever the forcing flags, the periodicity, the tilt
  and the position, the unwrapped position (position plus image counters times lattice vectors)
  is the same before and after. The overload on \<open>Scalar4\<close> keeps it too, and the fourth
  component with it.\<close>

theorem wrap_unwrapped_position:
  "(let (w', img') = wrap b w img fl in w' + lattice_point b img' = w + lattice_point b img)
   \<and> (let (p', img') = wrap4 b p img fl in
        make_scalar3 (sx p') (sy p') (sz p') + lattice_point b img'
          = make_scalar3 (sx p) (sy p) (sz p) + lattice_point b img
        \<and> sw p' = sw p)"
  using wrap_position [of b _ img fl]
  by (auto simp: wrap4_def make_scalar3_def Let_def split: prod.splits)

text \<open>C29: for a well-formed box centred in its periodic directions, \<open>wrap\<close> without forcing
  flags brings every position that is less than one box length outside back in: the fractional
  coordinates end in \<open>[0, 1)\<close> in the periodic directions and are untouched in the others, so
  a second \<open>wrap\<close> changes nothing.\<close>

theorem wrap_into_box:
  assumes "box_ok b" "box_centred b"
    and "\<forall>c \<in> {vx (makeFraction b w), vy (makeFraction b w), vz (makeFraction b w)}. - 1 \<le> c \<and> c < 2"
    and "wrap b w img no_flags = (w', img')"
  shows "(if tx (m_periodic b) then 0 \<le> vx (makeFraction b w') \<and> vx (makeFraction b w') < 1
          else vx (makeFraction b w') = vx (makeFraction b w))
    \<and> (if ty (m_periodic b) then 0 \<le> vy (makeFraction b w') \<and> vy (makeFraction b w') < 1
          else vy (makeFraction b w') = vy (makeFraction b w))
    \<and> (if tz (m_periodic b) then 0 \<le> vz (makeFraction b w') \<and> vz (makeFraction b w') < 1
          else vz (makeFraction b w') = vz (makeFraction b w))
    \<and> fst (wrap b w' img' no_flags) = w'"
proof -
  define f where "f = makeFraction b w"
  have f': "makeFraction b w' = Vec3 (into_unit (tx (m_periodic b)) (vx f))
      (into_unit (ty (m_periodic b)) (vy f)) (into_unit (tz (m_periodic b)) (vz f))"
    using wrap_fraction [OF assms(1,2), of w img] assms(4) by (simp add: f_def Let_def)
  have range: "\<And>c. c \<in> {vx f, vy f, vz f} \<Longrightarrow> - 1 \<le> c \<and> c < 2" using assms(3) by (auto simp: f_def)
  have idem: "into_unit p (into_unit p c) = into_unit p c" if "c \<in> {vx f, vy f, vz f}" for p c
    using range [OF that] by (simp add: into_unit_def)
  have "makeFraction b (fst (wrap b w' img' no_flags)) = makeFraction b w'"
    using wrap_fraction [OF assms(1,2), of w' img'] f' idem by (simp add: Let_def)
  then have "fst (wrap b w' img' no_flags) = w'" by (rule makeFraction_inj [OF assms(1)])
  moreover have "0 \<le> into_unit True c \<and> into_unit True c < 1" if "c \<in> {vx f, vy f, vz f}" for c
    using into_unit_range range [OF that] by blast
  ultimately show ?thesis unfolding f' f_def [symmetric] by (simp add: into_unit_def)
qed

theorem wrap_into_box_witness:
  "let (w', img') = wrap (BoxDim_cube 4) (Vec3 3 (- 3) 1) (Tri 0 0 0) no_flags
   in w' = Vec3 (- 1) 1 1 \<and> img' = Tri 1 (- 1) 0
    \<and> 0 \<le> vx (makeFraction (BoxDim_cube 4) w') \<and> vx (makeFraction (BoxDim_cube 4) w') < 1"
proof -
  have ok: "box_ok (BoxDim_cube 4)" "box_centred (BoxDim_cube 4)" and p: "tx (m_periodic (BoxDim_cube 4))"
    by (simp_all add: box_ok_def box_centred_def box_constructor_defs Let_def vec3_eq_iff)
  have w: "wrap (BoxDim_cube 4) (Vec3 3 (- 3) 1) (Tri 0 0 0) no_flags = (Vec3 (- 1) 1 1, Tri 1 (- 1) 0)"
    by (simp add: wrap_def wrap_x_def wrap_y_def wrap_z_def wrap_origin_def box_constructor_defs Let_def)
  have "\<forall>c \<in> {vx (makeFraction (BoxDim_cube 4) (Vec3 3 (- 3) 1)), vy (makeFraction (BoxDim_cube 4) (Vec3 3 (- 3) 1)),
      vz (makeFraction (BoxDim_cube 4) (Vec3 3 (- 3) 1))}. - 1 \<le> c \<and> c < 2"
    by (simp add: makeFraction_components [OF ok(1)]) (simp add: box_constructor_defs Let_def)
  from wrap_into_box [OF ok this w] p w show ?thesis by simp
qed

text \<open>The vectors whose number of box lengths the host branch can hold: at most one and a half in \<open>z\<close>, where
  it moves by one, and \<open>2\<^sup>3\<^sup>0\<close> in \<open>y\<close> and \<open>x\<close>, tilts included, so that the casts stay in the range of \<open>int\<close>.\<close>

definition count_fits :: "BoxDim \<Rightarrow> Scalar3 \<Rightarrow> bool" where
  "count_fits b v \<longleftrightarrow>
     (let L = m_L b; y = \<bar>vy v\<bar> + vz L * \<bar>m_yz b\<bar>
      in \<bar>vz v\<bar> \<le> 3 / 2 * vz L \<and> y \<le> 2 ^ 30 * vy L
         \<and> \<bar>vx v\<bar> + vz L * \<bar>m_xz b\<bar> + (y + vy L / 2) * \<bar>m_xy b\<bar> \<le> 2 ^ 30 * vx L)"

lemma minImage_z_bound:
  assumes "box_ok b"
  shows "\<bar>vy (minImage_z b v)\<bar> \<le> \<bar>vy v\<bar> + vz (m_L b) * \<bar>m_yz b\<bar>"
    "\<bar>vx (minImage_z b v)\<bar> \<le> \<bar>vx v\<bar> + vz (m_L b) * \<bar>m_xz b\<bar>"
proof -
  have "\<bar>vz (m_L b) * m\<bar> = vz (m_L b) * \<bar>m\<bar>" for m using box_okD(3) [OF assms] by (simp add: abs_mult)
  then have "\<bar>a - vz (m_L b) * m\<bar> \<le> \<bar>a\<bar> + vz (m_L b) * \<bar>m\<bar>" "\<bar>a + vz (m_L b) * m\<bar> \<le> \<bar>a\<bar> + vz (m_L b) * \<bar>m\<bar>"
    "\<bar>a\<bar> \<le> \<bar>a\<bar> + vz (m_L b) * \<bar>m\<bar>" for a m
    using abs_triangle_ineq4 [of a "vz (m_L b) * m"] abs_triangle_ineq [of a "vz (m_L b) * m"] box_okD(3) [OF assms] by simp_all
  then show "\<bar>vy (minImage_z b v)\<bar> \<le> \<bar>vy v\<bar> + vz (m_L b) * \<bar>m_yz b\<bar>"
    "\<bar>vx (minImage_z b v)\<bar> \<le> \<bar>vx v\<bar> + vz (m_L b) * \<bar>m_xz b\<bar>"
    by (simp_all add: minImage_z_def Let_def)
qed

text \<open>The \<open>y\<close> step moves by at most the \<open>y\<close> component and half a box length.\<close>

lemma minImage_y_bound:
  assumes ok: "box_ok b" "box_centred b" and r: "\<bar>vy w\<bar> \<le> 2 ^ 30 * vy (m_L b)"
  shows "\<bar>vx (minImage_y b w)\<bar> \<le> \<bar>vx w\<bar> + (\<bar>vy w\<bar> + vy (m_L b) / 2) * \<bar>m_xy b\<bar>"
proof -
  obtain n where n: "minImage_y b w = w + lattice_point b (Tri 0 n 0)" using minImage_steps_lattice(2) by blast
  let ?s = "of_int n * vy (m_L b)"
  have x: "vx (minImage_y b w) = vx w + ?s * m_xy b" "vy (minImage_y b w) = vy w + ?s" unfolding n by simp_all
  have "\<bar>?s\<bar> \<le> \<bar>vy w\<bar> + vy (m_L b) / 2"
  proof (cases "ty (m_periodic b)")
    case True
    show ?thesis using minImage_y_range [OF ok True r] x(2) by linarith
  next
    case False
    then have "minImage_y b w = w" by (simp add: minImage_y_def Let_def)
    then show ?thesis using x(2) box_okD(2) [OF ok(1)] by simp
  qed
  then have "\<bar>?s * m_xy b\<bar> \<le> (\<bar>vy w\<bar> + vy (m_L b) / 2) * \<bar>m_xy b\<bar>"
    unfolding abs_mult [of ?s] by (intro mult_right_mono) simp_all
  then show ?thesis unfolding x(1) by linarith
qed

lemma count_fits_steps:
  assumes "box_ok b" "box_centred b" "count_fits b v"
  shows "\<bar>vy (minImage_z b v)\<bar> \<le> 2 ^ 30 * vy (m_L b)" "\<bar>vx (minImage_y b (minImage_z b v))\<bar> \<le> 2 ^ 30 * vx (m_L b)"
proof -
  let ?w = "minImage_z b v" and ?y = "\<bar>vy v\<bar> + vz (m_L b) * \<bar>m_yz b\<bar>"
  note z = minImage_z_bound [OF assms(1), of v]
  have c: "?y \<le> 2 ^ 30 * vy (m_L b)"
    "\<bar>vx v\<bar> + vz (m_L b) * \<bar>m_xz b\<bar> + (?y + vy (m_L b) / 2) * \<bar>m_xy b\<bar> \<le> 2 ^ 30 * vx (m_L b)"
    using assms(3) by (simp_all add: count_fits_def Let_def)
  show y: "\<bar>vy ?w\<bar> \<le> 2 ^ 30 * vy (m_L b)" using z(1) c(1) by linarith
  have "(\<bar>vy ?w\<bar> + vy (m_L b) / 2) * \<bar>m_xy b\<bar> \<le> (?y + vy (m_L b) / 2) * \<bar>m_xy b\<bar>"
    using z(1) by (intro mult_right_mono) simp_all
  then show "\<bar>vx (minImage_y b ?w)\<bar> \<le> 2 ^ 30 * vx (m_L b)"
    using minImage_y_bound [OF assms(1,2) y] z(2) c(2) by linarith
qed

text \<open>C27: in a box centred in its periodic directions the host branch of \<open>minImage\<close> returns a lattice
  translate of the given vector whose component lies within half a box length of zero in every periodic
  direction, for vectors of at most one and a half box lengths in \<open>z\<close> and
  \<open>2\<^sup>3\<^sup>0\<close> in \<open>y\<close> and \<open>x\<close>, tilts included, which keeps the
  casts of the image counts in the range of \<open>int\<close>.\<close>

theorem minImage_minimum:
  assumes "box_ok b" "box_centred b" "count_fits b v"
  shows "(\<exists>n. minImage b v = v + lattice_point b n)
    \<and> (tx (m_periodic b) \<longrightarrow> \<bar>vx (minImage b v)\<bar> \<le> vx (m_L b) / 2)
    \<and> (ty (m_periodic b) \<longrightarrow> \<bar>vy (minImage b v)\<bar> \<le> vy (m_L b) / 2)
    \<and> (tz (m_periodic b) \<longrightarrow> \<bar>vz (minImage b v)\<bar> \<le> vz (m_L b) / 2)"
  using minImage_lattice [of b v] count_fits_steps [OF assms] assms(3)
    minImage_x_range [OF assms(1,2)] minImage_y_range [OF assms(1,2)] minImage_z_range [OF assms(1,2)]
  by (simp add: minImage_def count_fits_def Let_def)

theorem minImage_minimum_witness:
  "\<bar>vx (minImage (BoxDim_tilted 4 1 0 0) (Vec3 17 9 5))\<bar> \<le> 2
   \<and> (\<exists>n. minImage (BoxDim_tilted 4 1 0 0) (Vec3 17 9 5) = Vec3 17 9 5 + lattice_point (BoxDim_tilted 4 1 0 0) n)"
proof -
  have "count_fits (BoxDim_tilted 4 1 0 0) (Vec3 17 9 5)"
    and *: "tx (m_periodic (BoxDim_tilted 4 1 0 0))" "vx (m_L (BoxDim_tilted 4 1 0 0)) = 4"
    by (simp_all add: count_fits_def box_constructor_defs Let_def)
  from minImage_minimum [OF conjunct1 [OF box_ok_tilted] conjunct2 [OF box_ok_tilted] this(1)] *
  show ?thesis by simp
qed

text \<open>The branch compiled for the device rounds to the nearest image and so needs no bound on
  the vector: the result is a lattice translate within half a box length in every periodic
  direction, for vectors of any length.\<close>

theorem minImage_nvcc_minimum:
  assumes "box_ok b"
  shows "(\<exists>n. minImage_nvcc b v = v + lattice_point b n)
    \<and> (tx (m_periodic b) \<longrightarrow> \<bar>vx (minImage_nvcc b v)\<bar> \<le> vx (m_L b) / 2)
    \<and> (ty (m_periodic b) \<longrightarrow> \<bar>vy (minImage_nvcc b v)\<bar> \<le> vy (m_L b) / 2)
    \<and> (tz (m_periodic b) \<longrightarrow> \<bar>vz (minImage_nvcc b v)\<bar> \<le> vz (m_L b) / 2)"
proof -
  obtain k w m u l where k: "k = (if tz (m_periodic b) then - rint (vz v * vz (m_Linv b)) else 0)"
    and w: "w = v + lattice_point b (Tri 0 0 k)"
    and m: "m = (if ty (m_periodic b) then - rint (vy w * vy (m_Linv b)) else 0)"
    and u: "u = w + lattice_point b (Tri 0 m 0)"
    and l: "l = (if tx (m_periodic b) then - rint (vx u * vx (m_Linv b)) else 0)"
    by blast
  have e: "minImage_nvcc b v = u + lattice_point b (Tri l 0 0)"
    using minImage_nvcc_steps [of b v] by (simp add: k w m u l)
  have "minImage_nvcc b v = v + lattice_point b (Tri l m k)"
    unfolding e u w lattice_point_add [of b l m k] by (simp add: ac_simps)
  moreover have "tx (m_periodic b) \<longrightarrow> \<bar>vx (u + lattice_point b (Tri l 0 0))\<bar> \<le> vx (m_L b) / 2"
    using rint_reduce [OF box_okD(1) [OF assms], of "vx u"] box_okD(7) [OF assms]
    by (simp add: l mult.commute)
  moreover have "ty (m_periodic b) \<longrightarrow> \<bar>vy (u + lattice_point b (Tri l 0 0))\<bar> \<le> vy (m_L b) / 2"
    using rint_reduce [OF box_okD(2) [OF assms], of "vy w"] box_okD(8) [OF assms]
    by (simp add: u m mult.commute)
  moreover have "tz (m_periodic b) \<longrightarrow> \<bar>vz (u + lattice_point b (Tri l 0 0))\<bar> \<le> vz (m_L b) / 2"
    using rint_reduce [OF box_okD(3) [OF assms], of "vz v"] box_okD(9) [OF assms]
    by (simp add: u w k mult.commute)
  ultimately show ?thesis unfolding e by blast
qed

theorem minImage_nvcc_minimum_witness:
  "\<bar>vz (minImage_nvcc (BoxDim_tilted 4 1 0 0) (Vec3 17 9 50))\<bar> \<le> 2"
  using minImage_nvcc_minimum [OF conjunct1 [OF box_ok_tilted [of 4 1 0 0]], of "Vec3 17 9 50"]
  by (simp add: box_constructor_defs Let_def)

text \<open>The area vectors of the three pairs of faces.\<close>

definition face_area2 :: "BoxDim \<Rightarrow> nat \<Rightarrow> nat \<Rightarrow> real" where
  "face_area2 b i j = dot (cross (getLatticeVector b i) (getLatticeVector b j))
     (cross (getLatticeVector b i) (getLatticeVector b j))"

lemma rsqrt_square_cancel: "0 < x \<Longrightarrow> (a * rsqrt x)\<^sup>2 * (c\<^sup>2 * x) = (a * c)\<^sup>2"
  using rsqrt_power2 [of x] by (simp add: power2_eq_square) (simp add: algebra_simps)

text \<open>The geometry the box reports is that of the parallelepiped its lattice vectors span: the
  volume is their triple product, and the distance between two opposite faces times the area of
  the face is the volume, for any tilt.\<close>

theorem box_geometry:
  assumes "box_ok b"
  shows "getVolume b False = dot (getLatticeVector b 0) (cross (getLatticeVector b 1) (getLatticeVector b 2))
    \<and> (vx (getNearestPlaneDistance b))\<^sup>2 * face_area2 b 1 2 = (getVolume b False)\<^sup>2
    \<and> (vy (getNearestPlaneDistance b))\<^sup>2 * face_area2 b 2 0 = (getVolume b False)\<^sup>2
    \<and> (vz (getNearestPlaneDistance b))\<^sup>2 * face_area2 b 0 1 = (getVolume b False)\<^sup>2
    \<and> 0 < vx (getNearestPlaneDistance b) \<and> 0 < vy (getNearestPlaneDistance b)
    \<and> 0 < vz (getNearestPlaneDistance b)"
proof -
  define Lx Ly Lz where "Lx = vx (m_L b)" and "Ly = vy (m_L b)" and "Lz = vz (m_L b)"
  define X where "X = 1 + m_xy b * m_xy b + (m_xy b * m_yz b - m_xz b) * (m_xy b * m_yz b - m_xz b)"
  define Y where "Y = 1 + m_yz b * m_yz b"
  have pos: "0 < X" "0 < Y" "0 < Lx" "0 < Ly" "0 < Lz"
    using box_okD [OF assms] by (auto simp: X_def Y_def Lx_def Ly_def Lz_def intro!: add_pos_nonneg)
  have area: "face_area2 b 1 2 = (Ly * Lz)\<^sup>2 * X" "face_area2 b 2 0 = (Lz * Lx)\<^sup>2 * Y"
    "face_area2 b 0 1 = (Lx * Ly)\<^sup>2"
    by (simp_all add: face_area2_def getLatticeVector_def make_scalar3_def cross_def dot_def X_def Y_def
        Lx_def Ly_def Lz_def algebra_simps power2_eq_square)
  have dist: "vx (getNearestPlaneDistance b) = Lx * rsqrt X" "vy (getNearestPlaneDistance b) = Ly * rsqrt Y"
    "vz (getNearestPlaneDistance b) = Lz"
    by (simp_all add: getNearestPlaneDistance_def X_def Y_def Lx_def Ly_def Lz_def)
  have vol: "getVolume b False = Lx * Ly * Lz" by (simp add: getVolume_def Lx_def Ly_def Lz_def)
  have triple: "dot (getLatticeVector b 0) (cross (getLatticeVector b 1) (getLatticeVector b 2)) = Lx * Ly * Lz"
    by (simp add: getLatticeVector_def make_scalar3_def cross_def dot_def Lx_def Ly_def Lz_def algebra_simps)
  have "(Lx * rsqrt X)\<^sup>2 * ((Ly * Lz)\<^sup>2 * X) = (Lx * (Ly * Lz))\<^sup>2"
    "(Ly * rsqrt Y)\<^sup>2 * ((Lz * Lx)\<^sup>2 * Y) = (Ly * (Lz * Lx))\<^sup>2"
    by (rule rsqrt_square_cancel [OF pos(1)], rule rsqrt_square_cancel [OF pos(2)])
  moreover have "0 < Lx * rsqrt X" "0 < Ly * rsqrt Y"
    using pos by (simp_all add: rsqrt_pos)
  ultimately show ?thesis using pos
    unfolding area dist vol triple by (simp add: power_mult_distrib ac_simps)
qed

theorem box_geometry_witness:
  "(vx (getNearestPlaneDistance (BoxDim_tilted 4 1 2 3)))\<^sup>2 * face_area2 (BoxDim_tilted 4 1 2 3) 1 2 = 4096"
  using box_geometry [OF conjunct1 [OF box_ok_tilted [of 4 1 2 3]]]
  by (simp add: getVolume_def box_constructor_defs Let_def)

lemma shift_lattice:
  assumes "box_ok b" "m_lo b = - m_hi b"
  shows "shift b v s = v + lattice_point b s"
proof -
  have "vx (m_lo b) = - (vx (m_L b) / 2)" "vy (m_lo b) = - (vy (m_L b) / 2)" "vz (m_lo b) = - (vz (m_L b) / 2)"
    using box_okD(4-6) [OF assms(1)] assms(2) by simp_all
  then show ?thesis
    by (simp add: shift_def vec3_eq_iff makeCoordinates_components make_scalar3_def algebra_simps)
qed

lemma cast_int_image:
  assumes "0 < c" "c < 1" "\<bar>n\<bar> < 2 ^ 31"
  shows "cast_int32 (if c + of_int n - 1/2 \<ge> 0 then c + of_int n - 1/2 + 1/2 else c + of_int n - 1/2 - 1/2) = n"
proof (cases "c + of_int n - 1/2 \<ge> 0")
  case True
  then have "of_int n > (- 1 :: real)" using assms by linarith
  then have "0 \<le> n" by linarith
  then have i: "cast_int (c + of_int n) = n" using assms by (simp add: cast_int_def) linarith
  then have "cast_int32 (c + of_int n) = n" using assms(3) unfolding cast_int32_def i Let_def by auto
  then show ?thesis using True by simp
next
  case False
  then have "of_int n < (1 :: real)" using assms by linarith
  then have "n \<le> 0" by linarith
  then have "c + of_int n - 1 < 0" using assms by linarith
  then have i: "cast_int (c + of_int n - 1) = n" using assms by (simp add: cast_int_def) linarith
  then have "cast_int32 (c + of_int n - 1) = n" using assms(3) unfolding cast_int32_def i Let_def by auto
  then show ?thesis using False by simp
qed

text \<open>\<open>shift\<close> in a box centred in all three directions moves a vector by the given number of
  lattice vectors, and \<open>getImage\<close> counts them: the image of a shifted position that lies strictly
  inside the box is the shift. On the lower faces, which belong to the box, it is not: there
  \<open>getImage\<close> returns the neighbouring image \<open>- 1\<close> in each direction.\<close>

theorem shift_getImage:
  assumes "box_ok b" "m_lo b = - m_hi b"
    and "\<forall>c \<in> {vx (makeFraction b v), vy (makeFraction b v), vz (makeFraction b v)}. 0 < c \<and> c < 1"
    and "\<forall>n \<in> {tx s, ty s, tz s}. \<bar>n\<bar> < 2 ^ 31"
  shows "shift b v s = v + lattice_point b s \<and> getImage b (shift b v s) = s
    \<and> getImage b (makeCoordinates b (Vec3 0 0 0)) = Tri (- 1) (- 1) (- 1)"
proof -
  have f: "makeFraction b (shift b v s) = makeFraction b v + Vec3 (of_int (tx s)) (of_int (ty s)) (of_int (tz s))"
    by (simp add: shift_lattice [OF assms(1,2)] makeFraction_lattice [OF assms(1)])
  have range: "0 < vx (makeFraction b v)" "vx (makeFraction b v) < 1" "0 < vy (makeFraction b v)"
    "vy (makeFraction b v) < 1" "0 < vz (makeFraction b v)" "vz (makeFraction b v) < 1"
    and small: "\<bar>tx s\<bar> < 2 ^ 31" "\<bar>ty s\<bar> < 2 ^ 31" "\<bar>tz s\<bar> < 2 ^ 31"
    using assms(3,4) by auto
  have "getImage b (shift b v s) = s"
    by (simp only: getImage_def f Let_def make_scalar3_def vec3_components
        vec3.sel cast_int_image range small tri.collapse)
  moreover have "makeFraction b (makeCoordinates b (Vec3 0 0 0)) = Vec3 0 0 0"
    by (simp add: vec3_eq_iff makeFraction_components [OF assms(1)] makeCoordinates_components algebra_simps)
  then have "getImage b (makeCoordinates b (Vec3 0 0 0)) = Tri (- 1) (- 1) (- 1)"
    using cast_int32_of_int [of "- 1"] by (simp add: getImage_def make_scalar3_def)
  ultimately show ?thesis using shift_lattice [OF assms(1,2)] by simp
qed

theorem shift_getImage_witness:
  "getImage (BoxDim_tilted 4 1 0 0) (shift (BoxDim_tilted 4 1 0 0) (Vec3 1 1 1) (Tri 2 (- 3) 0)) = Tri 2 (- 3) 0"
proof -
  have ok: "box_ok (BoxDim_tilted 4 1 0 0)" using box_ok_tilted by simp
  have "m_lo (BoxDim_tilted 4 1 0 0) = - m_hi (BoxDim_tilted 4 1 0 0)"
    by (simp add: box_constructor_defs Let_def)
  moreover have "\<forall>c \<in> {vx (makeFraction (BoxDim_tilted 4 1 0 0) (Vec3 1 1 1)),
      vy (makeFraction (BoxDim_tilted 4 1 0 0) (Vec3 1 1 1)), vz (makeFraction (BoxDim_tilted 4 1 0 0) (Vec3 1 1 1))}.
      0 < c \<and> c < 1"
    by (simp add: makeFraction_components [OF ok]) (simp add: box_constructor_defs Let_def)
  moreover have "\<forall>n \<in> {tx (Tri 2 (- 3) 0), ty (Tri 2 (- 3) 0), tz (Tri 2 (- 3) (0::int))}. \<bar>n\<bar> < 2 ^ 31" by simp
  ultimately show ?thesis using shift_getImage [OF ok] by blast
qed

end
