(* ===== verification/AABB_Box.thy ===== *)
theory AABB_Box
  imports Vector_Math
begin

text \<open>
  Axis aligned bounding boxes, \<open>utils/AABB.h\<close>. The branch without vector instructions is
  modelled; the SSE and AVX branches compute the same comparisons, minima and maxima on four
  lanes. The three-component comparison of boxes is set against the points they hold.
\<close>

section \<open>The box and its operations\<close>

record AABB =
  lower :: vec3
  upper :: vec3
  tag :: uint

definition AABB_default :: AABB where
  "AABB_default = \<lparr>lower = vec3_zero, upper = vec3_zero, tag = 0\<rparr>"

definition AABB_corners :: "vec3 \<Rightarrow> vec3 \<Rightarrow> AABB" where
  "AABB_corners lo hi = \<lparr>lower = lo, upper = hi, tag = 0\<rparr>"

definition AABB_sphere :: "vec3 \<Rightarrow> Scalar \<Rightarrow> AABB" where
  "AABB_sphere position radius =
     \<lparr>lower = Vec3 (vx position - radius) (vy position - radius) (vz position - radius),
      upper = Vec3 (vx position + radius) (vy position + radius) (vz position + radius), tag = 0\<rparr>"

definition AABB_point :: "vec3 \<Rightarrow> uint \<Rightarrow> AABB" where
  "AABB_point position t = \<lparr>lower = position, upper = position, tag = t\<rparr>"

definition getPosition :: "AABB \<Rightarrow> vec3" where
  "getPosition a = vec3_divs (vec3_add (lower a) (upper a)) 2"

definition getLower :: "AABB \<Rightarrow> vec3" where
  "getLower a = lower a"

definition getUpper :: "AABB \<Rightarrow> vec3" where
  "getUpper a = upper a"

definition translate :: "AABB \<Rightarrow> vec3 \<Rightarrow> AABB" where
  "translate a v = a\<lparr>upper := vec3_add_assign (upper a) v, lower := vec3_add_assign (lower a) v\<rparr>"

definition overlap :: "AABB \<Rightarrow> AABB \<Rightarrow> bool" where
  "overlap a b \<longleftrightarrow> \<not> (vx (upper b) < vx (lower a)
     \<or> vx (lower b) > vx (upper a)
     \<or> vy (upper b) < vy (lower a)
     \<or> vy (lower b) > vy (upper a)
     \<or> vz (upper b) < vz (lower a)
     \<or> vz (lower b) > vz (upper a))"

definition contains :: "AABB \<Rightarrow> AABB \<Rightarrow> bool" where
  "contains a b \<longleftrightarrow> vx (lower b) \<ge> vx (lower a) \<and> vx (upper b) \<le> vx (upper a)
     \<and> vy (lower b) \<ge> vy (lower a) \<and> vy (upper b) \<le> vy (upper a)
     \<and> vz (lower b) \<ge> vz (lower a) \<and> vz (upper b) \<le> vz (upper a)"

definition merge :: "AABB \<Rightarrow> AABB \<Rightarrow> AABB" where
  "merge a b = AABB_default
     \<lparr>lower := Vec3 (min (vx (lower a)) (vx (lower b))) (min (vy (lower a)) (vy (lower b)))
                 (min (vz (lower a)) (vz (lower b))),
      upper := Vec3 (max (vx (upper a)) (vx (upper b))) (max (vy (upper a)) (vy (upper b)))
                 (max (vz (upper a)) (vz (upper b)))\<rparr>"

section \<open>The points of a box\<close>

text \<open>The closed region a box stands for, and the boxes whose corners are in order.\<close>

definition region :: "AABB \<Rightarrow> vec3 set" where
  "region a = {p. vx (lower a) \<le> vx p \<and> vx p \<le> vx (upper a) \<and> vy (lower a) \<le> vy p \<and> vy p \<le> vy (upper a)
     \<and> vz (lower a) \<le> vz p \<and> vz p \<le> vz (upper a)}"

definition aabb_ok :: "AABB \<Rightarrow> bool" where
  "aabb_ok a \<longleftrightarrow> vx (lower a) \<le> vx (upper a) \<and> vy (lower a) \<le> vy (upper a) \<and> vz (lower a) \<le> vz (upper a)"

lemma contains_refl [simp]: "contains a a"
  by (simp add: contains_def)

lemma contains_trans: "contains a b \<Longrightarrow> contains b c \<Longrightarrow> contains a c"
  by (auto simp: contains_def)

lemma contains_merge [simp]: "contains (merge a b) a" "contains (merge a b) b"
  by (simp_all add: contains_def merge_def)

lemma contains_mergeI: "contains c a \<Longrightarrow> contains c b \<Longrightarrow> contains c (merge a b)"
  by (simp add: contains_def merge_def)

lemma contains_mergeD: "contains a c \<Longrightarrow> contains (merge a b) c" "contains b c \<Longrightarrow> contains (merge a b) c"
  by (auto intro: contains_trans [OF contains_merge(1)] contains_trans [OF contains_merge(2)])

text \<open>A box that meets a part of another one meets the other one: what makes it sound to skip
  a whole subtree whose bounding box does not overlap.\<close>

lemma overlap_contains: "contains a b \<Longrightarrow> overlap b c \<Longrightarrow> overlap a c"
  by (auto simp: contains_def overlap_def)

lemma overlap_sym: "overlap a b = overlap b a"
  by (auto simp: overlap_def)

lemma aabb_ok_merge: "aabb_ok a \<Longrightarrow> aabb_ok (merge a b)"
  by (auto simp: aabb_ok_def merge_def intro: min.coboundedI1 max.coboundedI1)

lemma overlap_region:
  assumes "aabb_ok a" "aabb_ok b"
  shows "overlap a b \<longleftrightarrow> region a \<inter> region b \<noteq> {}"
proof
  assume o: "overlap a b"
  define p where "p = Vec3 (max (vx (lower a)) (vx (lower b))) (max (vy (lower a)) (vy (lower b)))
    (max (vz (lower a)) (vz (lower b)))"
  have "p \<in> region a \<inter> region b" using o assms by (auto simp: p_def region_def overlap_def aabb_ok_def)
  then show "region a \<inter> region b \<noteq> {}" by blast
next
  assume "region a \<inter> region b \<noteq> {}"
  then show "overlap a b" by (auto simp: region_def overlap_def)
qed

lemma contains_region:
  assumes "aabb_ok b"
  shows "contains a b \<longleftrightarrow> region b \<subseteq> region a"
proof
  assume "contains a b" then show "region b \<subseteq> region a" by (auto simp: region_def contains_def)
next
  assume s: "region b \<subseteq> region a"
  have "lower b \<in> region b" "upper b \<in> region b" using assms by (simp_all add: region_def aabb_ok_def)
  with s have "lower b \<in> region a" "upper b \<in> region a" by blast+
  then show "contains a b" by (simp add: region_def contains_def)
qed

text \<open>Two spheres closer than the sum of their radii have overlapping boxes, so testing boxes
  never misses a contact.\<close>

lemma sphere_overlap:
  assumes "0 \<le> r" "0 \<le> s" "dot (p - q) (p - q) \<le> (r + s)\<^sup>2"
  shows "overlap (AABB_sphere p r) (AABB_sphere q s)"
proof -
  have c: "\<bar>d\<bar> \<le> r + s" if "d * d \<le> (r + s)\<^sup>2" for d :: real
    using that assms(1,2) abs_le_square_iff [of d "r + s"] by (simp add: power2_eq_square)
  have "vx (p - q) * vx (p - q) \<le> (r + s)\<^sup>2" "vy (p - q) * vy (p - q) \<le> (r + s)\<^sup>2"
    "vz (p - q) * vz (p - q) \<le> (r + s)\<^sup>2"
    using assms(3) zero_le_square [of "vx (p - q)"] zero_le_square [of "vy (p - q)"]
      zero_le_square [of "vz (p - q)"]
    unfolding dot_def by linarith+
  from c [OF this(1)] c [OF this(2)] c [OF this(3)] show ?thesis
    by (simp add: overlap_def AABB_sphere_def abs_le_iff)
qed

lemma translate_relations [simp]:
  "overlap (translate a v) (translate b v) = overlap a b"
  "contains (translate a v) (translate b v) = contains a b"
  by (simp_all add: overlap_def contains_def translate_def)

text \<open>The comparisons decide the geometry: two boxes with ordered corners overlap exactly when
  they share a point, one contains another exactly when it holds all its points, \<open>merge\<close> is the
  smallest box that holds both, and moving both boxes by one vector changes none of this.\<close>

theorem AABB_regions:
  assumes "aabb_ok a" "aabb_ok b"
  shows "(overlap a b \<longleftrightarrow> region a \<inter> region b \<noteq> {})
    \<and> (contains a b \<longleftrightarrow> region b \<subseteq> region a)
    \<and> region a \<union> region b \<subseteq> region (merge a b)
    \<and> (\<forall>c. region a \<union> region b \<subseteq> region c \<longrightarrow> region (merge a b) \<subseteq> region c)
    \<and> overlap (translate a v) (translate b v) = overlap a b
    \<and> contains (translate a v) (translate b v) = contains a b"
proof -
  have c: "contains c x \<longleftrightarrow> region x \<subseteq> region c" if "x \<in> {a, b, merge a b}" for c x
    using that contains_region assms aabb_ok_merge by blast
  have "region a \<union> region b \<subseteq> region (merge a b)"
    using c [of a "merge a b"] c [of b "merge a b"] by simp
  moreover have "region (merge a b) \<subseteq> region x" if "region a \<union> region b \<subseteq> region x" for x
    using that contains_mergeI [of x a b] c [of _ x] by simp
  ultimately show ?thesis using overlap_region [OF assms] c [of b a] by simp
qed

theorem AABB_regions_witness:
  "region (AABB_sphere (Vec3 0 0 0) 2) \<inter> region (AABB_sphere (Vec3 3 0 0) 2) \<noteq> {}
   \<and> region (AABB_sphere (Vec3 0 0 0) 1) \<inter> region (AABB_sphere (Vec3 3 0 0) 1) = {}"
  using AABB_regions [of "AABB_sphere (Vec3 0 0 0) 2" "AABB_sphere (Vec3 3 0 0) 2"]
    AABB_regions [of "AABB_sphere (Vec3 0 0 0) 1" "AABB_sphere (Vec3 3 0 0) 1"]
  by (simp add: aabb_ok_def AABB_sphere_def overlap_def)

end
