(* ===== verification/AABB_Tree.thy ===== *)
theory AABB_Tree
  imports AABB_Box "HOL-Library.Monad_Syntax" "HOL-Library.Multiset"
begin

text \<open>
  The bounding volume tree of \<open>utils/AABBTree.h\<close>: nodes in a flat array in the order in which
  \<open>buildNode\<close> allocates them, child, parent and \<open>skip\<close> links as array indices, a reverse mapping
  from particles to leaves, a stackless \<open>query\<close> and an \<open>update\<close> that grows boxes towards the root.

  Indices are natural numbers; the sentinel \<open>INVALID_NODE\<close> is \<open>2\<^sup>3\<^sup>2 - 1\<close> and the invariant keeps
  every index below it, so the 32-bit counters of the code do not wrap. \<open>m_nodes\<close> holds the
  \<open>m_num_nodes\<close> initialised entries of the allocated array; entries of the two arrays in a node
  that have not been written are zero. Memory allocation is taken to succeed.
\<close>

section \<open>Nodes and the tree\<close>

definition NODE_CAPACITY :: nat where
  "NODE_CAPACITY = 16"

definition INVALID_NODE :: nat where
  "INVALID_NODE = 0xffffffff"

record AABBNode =
  aabb :: AABB
  left :: nat
  right :: nat
  parent :: nat
  skip :: nat
  particles :: "nat list"
  particle_tags :: "uint list"
  num_particles :: nat

definition AABBNode_default :: AABBNode where
  "AABBNode_default = \<lparr>aabb = AABB_default, left = INVALID_NODE, right = INVALID_NODE, parent = INVALID_NODE,
     skip = 0, particles = replicate NODE_CAPACITY 0, particle_tags = replicate NODE_CAPACITY 0,
     num_particles = 0\<rparr>"

record AABBTree =
  m_nodes :: "AABBNode list"
  m_node_capacity :: nat
  m_root :: nat
  m_mapping :: "nat list"

definition AABBTree_new :: AABBTree where
  "AABBTree_new = \<lparr>m_nodes = [], m_node_capacity = 0, m_root = 0, m_mapping = []\<rparr>"

definition getNumNodes :: "AABBTree \<Rightarrow> nat" where
  "getNumNodes t = length (m_nodes t)"

definition isNodeLeaf :: "AABBTree \<Rightarrow> nat \<Rightarrow> bool" where
  "isNodeLeaf t node \<longleftrightarrow> left (m_nodes t ! node) = INVALID_NODE"

definition getNode :: "AABBTree \<Rightarrow> nat \<Rightarrow> AABBNode" where
  "getNode t node = m_nodes t ! node"

definition getNodeAABB :: "AABBTree \<Rightarrow> nat \<Rightarrow> AABB" where
  "getNodeAABB t node = aabb (m_nodes t ! node)"

definition getNodeSkip :: "AABBTree \<Rightarrow> nat \<Rightarrow> nat" where
  "getNodeSkip t node = skip (m_nodes t ! node)"

definition getNodeLeft :: "AABBTree \<Rightarrow> nat \<Rightarrow> nat" where
  "getNodeLeft t node = left (m_nodes t ! node)"

definition getNodeNumParticles :: "AABBTree \<Rightarrow> nat \<Rightarrow> nat" where
  "getNodeNumParticles t node = num_particles (m_nodes t ! node)"

definition getNodeParticle :: "AABBTree \<Rightarrow> nat \<Rightarrow> nat \<Rightarrow> nat" where
  "getNodeParticle t node j = particles (m_nodes t ! node) ! j"

definition getNodeParticleTag :: "AABBTree \<Rightarrow> nat \<Rightarrow> nat \<Rightarrow> uint" where
  "getNodeParticleTag t node j = particle_tags (m_nodes t ! node) ! j"

definition set_node :: "AABBTree \<Rightarrow> nat \<Rightarrow> (AABBNode \<Rightarrow> AABBNode) \<Rightarrow> AABBTree" where
  "set_node t i f = t\<lparr>m_nodes := (m_nodes t)[i := f (m_nodes t ! i)]\<rparr>"

definition init :: "AABBTree \<Rightarrow> nat \<Rightarrow> AABBTree" where
  "init t N = t\<lparr>m_nodes := [], m_root := INVALID_NODE, m_mapping := replicate N INVALID_NODE\<rparr>"

definition allocateNode :: "AABBTree \<Rightarrow> AABBTree \<times> nat" where
  "allocateNode t =
     (let capacity = (if length (m_nodes t) \<ge> m_node_capacity t
            then let new_capacity = m_node_capacity t * 2 in if new_capacity = 0 then 16 else new_capacity
            else m_node_capacity t);
          t = t\<lparr>m_node_capacity := capacity, m_nodes := m_nodes t @ [AABBNode_default]\<rparr>
      in (t, length (m_nodes t) - 1))"

section \<open>Queries\<close>

text \<open>The loop of \<open>query\<close>: each round looks at one node; the result is the list of hits and the
  number of overlap checks.\<close>

function query_loop :: "AABBNode list \<Rightarrow> AABB \<Rightarrow> nat \<Rightarrow> nat list \<Rightarrow> nat \<Rightarrow> nat list \<times> nat" where
  "query_loop nodes q i hits counts =
     (if i < length nodes then
        let node = nodes ! i in
        if overlap (aabb node) q then
          if left node = INVALID_NODE
          then query_loop nodes q (i + 1) (hits @ take (num_particles node) (particles node)) (counts + 1)
          else query_loop nodes q (i + 1) hits (counts + 1)
        else query_loop nodes q (i + skip node + 1) hits (counts + 1)
      else (hits, counts))"
  by pat_completeness auto
termination by (relation "measure (\<lambda>(nodes, q, i, hits, counts). length nodes - i)") auto

declare query_loop.simps [simp del]

definition query :: "AABBTree \<Rightarrow> nat list \<Rightarrow> AABB \<Rightarrow> nat list \<times> nat" where
  "query t hits q = query_loop (m_nodes t) q 0 hits 0"

section \<open>Updates and heights\<close>

text \<open>The loops follow parent links, which only a well-formed tree makes finite.\<close>

partial_function (option) update_parents :: "AABBTree \<Rightarrow> nat \<Rightarrow> AABBTree option" where
  "update_parents t current_node =
     (if current_node \<noteq> INVALID_NODE then
        let left_idx = left (m_nodes t ! current_node);
            right_idx = right (m_nodes t ! current_node);
            t = set_node t current_node
                  (\<lambda>n. n\<lparr>aabb := merge (aabb (m_nodes t ! left_idx)) (aabb (m_nodes t ! right_idx))\<rparr>)
        in update_parents t (parent (m_nodes t ! current_node))
      else Some t)"

definition update :: "AABBTree \<Rightarrow> nat \<Rightarrow> AABB \<Rightarrow> AABBTree option" where
  "update t idx box =
     (if idx < length (m_mapping t) then
        let node_idx = m_mapping t ! idx in
        if node_idx \<noteq> INVALID_NODE then
          if \<not> contains (aabb (m_nodes t ! node_idx)) box then
            let t = set_node t node_idx (\<lambda>n. n\<lparr>aabb := merge (aabb n) box\<rparr>)
            in update_parents t (parent (m_nodes t ! node_idx))
          else Some t
        else None
      else None)"

partial_function (option) height_loop :: "AABBTree \<Rightarrow> nat \<Rightarrow> nat \<Rightarrow> nat option" where
  "height_loop t current_node h =
     (if current_node \<noteq> INVALID_NODE
      then height_loop t (parent (m_nodes t ! current_node)) (h + 1) else Some h)"

definition height :: "AABBTree \<Rightarrow> nat \<Rightarrow> nat option" where
  "height t idx =
     (if idx < length (m_mapping t) then
        let node_idx = m_mapping t ! idx in
        if node_idx = INVALID_NODE then Some 0 else height_loop t (parent (m_nodes t ! node_idx)) 1
      else None)"

section \<open>Building\<close>

definition swap_at :: "'a list \<Rightarrow> nat \<Rightarrow> nat \<Rightarrow> 'a list" where
  "swap_at xs i j = xs[i := xs ! j, j := xs ! i]"

text \<open>The three partition loops differ in the coordinate \<open>c\<close> only. On the right side the counter
  steps back and forward again, so it stays where it is.\<close>

function split_loop :: "(vec3 \<Rightarrow> Scalar) \<Rightarrow> Scalar \<Rightarrow> nat \<Rightarrow> nat \<Rightarrow> nat \<Rightarrow> AABB list \<Rightarrow> nat list
    \<Rightarrow> AABB list \<times> nat list \<times> nat" where
  "split_loop c mid start i start_right aabbs idx =
     (if i < start_right then
        if c (getPosition (aabbs ! (start + i))) < mid
        then split_loop c mid start (i + 1) start_right aabbs idx
        else split_loop c mid start i (start_right - 1)
               (swap_at aabbs (start + i) (start + start_right - 1))
               (swap_at idx (start + i) (start + start_right - 1))
      else (aabbs, idx, start_right))"
  by pat_completeness auto
termination by (relation "measure (\<lambda>(c, mid, start, i, start_right, aabbs, idx). start_right - i)") auto

declare split_loop.simps [simp del]

definition merge_range :: "AABB list \<Rightarrow> nat \<Rightarrow> nat \<Rightarrow> AABB" where
  "merge_range aabbs start len = fold (\<lambda>i b. merge b (aabbs ! (start + i))) [1..<len] (aabbs ! start)"

definition split_axis :: "AABB \<Rightarrow> vec3 \<Rightarrow> Scalar" where
  "split_axis my_aabb =
     (let my_radius = vec3_sub (getUpper my_aabb) (getLower my_aabb) in
      if vx my_radius > vy my_radius \<and> vx my_radius > vz my_radius then vx
      else if vy my_radius > vz my_radius then vy
      else vz)"

definition split_range :: "AABB \<Rightarrow> nat \<Rightarrow> nat \<Rightarrow> AABB list \<Rightarrow> nat list \<Rightarrow> AABB list \<times> nat list \<times> nat" where
  "split_range my_aabb start len aabbs idx =
     (let (aabbs, idx, start_right) =
            (if len = 2 then (aabbs, idx, len)
             else let c = split_axis my_aabb in split_loop c (c (getPosition my_aabb)) start 0 len aabbs idx);
          start_right = (if start_right = len then len - 1 else start_right);
          start_right = (if start_right = 0 then 1 else start_right)
      in (aabbs, idx, start_right))"

definition fill_leaf :: "nat \<Rightarrow> nat \<Rightarrow> nat \<Rightarrow> AABB list \<Rightarrow> nat list \<Rightarrow> AABBTree \<Rightarrow> AABBTree" where
  "fill_leaf new_node start len aabbs idx =
     fold (\<lambda>i t. (set_node t new_node
                   (\<lambda>n. n\<lparr>particles := (particles n)[i := idx ! (start + i)],
                          particle_tags := (particle_tags n)[i := tag (aabbs ! (start + i))]\<rparr>))
                  \<lparr>m_mapping := (m_mapping t)[idx ! (start + i) := new_node]\<rparr>) [0..<len]"

lemma split_loop_le: "split_loop c mid start i sr aabbs idx = (aabbs', idx', sr') \<Longrightarrow> sr' \<le> sr"
proof (induction c mid start i sr aabbs idx rule: split_loop.induct)
  case (1 c mid start i sr aabbs idx)
  then show ?case by (subst (asm) split_loop.simps) (fastforce split: if_splits)
qed

lemma split_range_proper:
  assumes "2 \<le> len" "split_range b start len aabbs idx = (aabbs', idx', sr)"
  shows "0 < sr" "sr < len"
  using assms by (auto simp: split_range_def Let_def dest: split_loop_le split: if_splits prod.splits)

text \<open>The tree and both arrays are threaded through the two recursive calls.\<close>

function buildNode :: "nat \<Rightarrow> nat \<Rightarrow> nat \<Rightarrow> AABB list \<times> nat list \<times> AABBTree
    \<Rightarrow> (AABB list \<times> nat list \<times> AABBTree) \<times> nat" where
  "buildNode start len par (aabbs, idx, t) =
     (let my_aabb = merge_range aabbs start len in
      if len \<le> NODE_CAPACITY then
        let (t, new_node) = allocateNode t;
            t = set_node t new_node (\<lambda>n. n\<lparr>aabb := my_aabb, parent := par, num_particles := len\<rparr>);
            t = fill_leaf new_node start len aabbs idx t
        in ((aabbs, idx, t), new_node)
      else
        let (t, my_idx) = allocateNode t;
            (aabbs, idx, start_right) = split_range my_aabb start len aabbs idx;
            (s, new_left) = buildNode start start_right my_idx (aabbs, idx, t);
            ((aabbs, idx, t), new_right) = buildNode (start + start_right) (len - start_right) my_idx s;
            t = set_node t my_idx (\<lambda>n. n\<lparr>aabb := my_aabb, parent := par, left := new_left, right := new_right\<rparr>)
        in ((aabbs, idx, t), my_idx))"
  by pat_completeness auto
termination
proof (relation "measure (\<lambda>(start, len, par, s). len)", goal_cases)
  case (2 start len par aabbs idx t b x t' my_idx y aabbs' z idx' sr)
  then show ?case using split_range_proper(2) [of len b start aabbs idx aabbs' idx' sr]
    by (simp add: NODE_CAPACITY_def)
next
  case (3 start len par aabbs idx t b x t' my_idx y aabbs' z idx' sr)
  then show ?case using split_range_proper(1) [of len b start aabbs idx aabbs' idx' sr]
    by (simp add: NODE_CAPACITY_def)
qed simp

declare buildNode.simps [simp del]

partial_function (option) updateSkip :: "AABBTree \<Rightarrow> nat \<Rightarrow> (AABBTree \<times> nat) option" where
  "updateSkip t idx =
     (if isNodeLeaf t idx then Some (t, 1)
      else let left_idx = left (m_nodes t ! idx); right_idx = right (m_nodes t ! idx) in do {
        (t, a) \<leftarrow> updateSkip t left_idx;
        (t, b) \<leftarrow> updateSkip t right_idx;
        let skp = a + b;
        Some (set_node t idx (\<lambda>n. n\<lparr>skip := skp\<rparr>), skp + 1)
      })"

definition buildTree :: "AABBTree \<Rightarrow> AABB list \<Rightarrow> AABBTree option" where
  "buildTree t aabbs =
     (let N = length aabbs;
          t = init t N;
          ((aabbs, idx, t), root) = buildNode 0 N INVALID_NODE (aabbs, [0..<N], t);
          t = t\<lparr>m_root := root\<rparr>
      in do { (t, n) \<leftarrow> updateSkip t (m_root t); Some t })"

section \<open>The shape of a tree\<close>

text \<open>A binary tree laid out in preorder from index \<open>b\<close> on: the left subtree follows its root, the
  right one follows the left one. \<open>laid\<close> speaks of links and particles only, so that growing a box
  or setting a \<open>skip\<close> keeps it.\<close>

datatype shape = Lf "nat list" | Nd shape shape

fun nodes_of :: "shape \<Rightarrow> nat" where
  "nodes_of (Lf ps) = 1"
| "nodes_of (Nd l r) = 1 + nodes_of l + nodes_of r"

fun members :: "shape \<Rightarrow> nat list" where
  "members (Lf ps) = ps"
| "members (Nd l r) = members l @ members r"

fun laid :: "AABBNode list \<Rightarrow> nat list \<Rightarrow> nat \<Rightarrow> nat \<Rightarrow> shape \<Rightarrow> bool" where
  "laid nodes mp par b (Lf ps) \<longleftrightarrow> b < length nodes \<and> parent (nodes ! b) = par
     \<and> left (nodes ! b) = INVALID_NODE \<and> take (num_particles (nodes ! b)) (particles (nodes ! b)) = ps
     \<and> ps \<noteq> [] \<and> (\<forall>p \<in> set ps. p < length mp \<and> mp ! p = b)"
| "laid nodes mp par b (Nd l r) \<longleftrightarrow> b < length nodes \<and> parent (nodes ! b) = par
     \<and> left (nodes ! b) = b + 1 \<and> right (nodes ! b) = b + 1 + nodes_of l
     \<and> laid nodes mp b (b + 1) l \<and> laid nodes mp b (b + 1 + nodes_of l) r"

lemma nodes_of_pos [simp]: "0 < nodes_of s"
  by (cases s) simp_all

lemma laid_bound: "laid nodes mp par b s \<Longrightarrow> b + nodes_of s \<le> length nodes"
  by (induction s arbitrary: par b) fastforce+

lemma laid_internal:
  assumes "laid nodes mp par b (Nd l r)" "b + nodes_of (Nd l r) \<le> INVALID_NODE"
  shows "left (nodes ! b) \<noteq> INVALID_NODE"
proof -
  have "b + 1 < b + nodes_of (Nd l r)" using nodes_of_pos [of l] unfolding nodes_of.simps by linarith
  then have "b + 1 \<noteq> INVALID_NODE" using assms(2) by linarith
  then show ?thesis using assms(1) by simp
qed

lemma laid_nodes_members: "laid nodes mp par b s \<Longrightarrow> nodes_of s + 1 \<le> 2 * length (members s)"
proof (induction s arbitrary: par b)
  case (Lf ps)
  then show ?case by (cases ps) simp_all
next
  case (Nd l r)
  then show ?case using Nd.IH(1) [of b "b + 1"] Nd.IH(2) [of b "b + 1 + nodes_of l"] by simp
qed

text \<open>Only the nodes of the segment and the mapping of its particles matter.\<close>

definition same_links :: "AABBNode \<Rightarrow> AABBNode \<Rightarrow> bool" where
  "same_links n m \<longleftrightarrow> parent n = parent m \<and> left n = left m \<and> right n = right m
     \<and> take (num_particles n) (particles n) = take (num_particles m) (particles m)"

lemma laid_cong:
  assumes "laid nodes mp par b s" "b + nodes_of s \<le> length nodes'"
    and "\<And>i. b \<le> i \<Longrightarrow> i < b + nodes_of s \<Longrightarrow> same_links (nodes' ! i) (nodes ! i)"
    and "\<And>p. p \<in> set (members s) \<Longrightarrow> p < length mp' \<and> mp' ! p = mp ! p"
  shows "laid nodes' mp' par b s"
  using assms
proof (induction s arbitrary: par b)
  case (Lf ps)
  then show ?case by (auto simp: same_links_def)
next
  case (Nd l r)
  from Nd.prems have "laid nodes' mp' b (b + 1) l" by (intro Nd.IH(1)) auto
  moreover from Nd.prems have "laid nodes' mp' b (b + 1 + nodes_of l) r" by (intro Nd.IH(2)) auto
  ultimately show ?case using Nd.prems(1,2) Nd.prems(3) [of b] by (auto simp: same_links_def)
qed

text \<open>Children lie behind their parent within the segment and point back to it; a node other than
  the root of the segment is a child of its parent.\<close>

lemma laid_parent_root: "laid nodes mp par b s \<Longrightarrow> parent (nodes ! b) = par"
  by (cases s) auto

lemma laid_children:
  assumes "laid nodes mp par b s" "b \<le> i" "i < b + nodes_of s" "left (nodes ! i) \<noteq> INVALID_NODE"
  shows "i < left (nodes ! i) \<and> left (nodes ! i) < b + nodes_of s \<and> parent (nodes ! left (nodes ! i)) = i
    \<and> i < right (nodes ! i) \<and> right (nodes ! i) < b + nodes_of s \<and> parent (nodes ! right (nodes ! i)) = i"
  using assms
proof (induction s arbitrary: par b)
  case (Lf ps)
  then have "i = b" by simp
  then show ?case using Lf by simp
next
  case (Nd l r)
  consider "i = b" | "b + 1 \<le> i" "i < b + 1 + nodes_of l" | "b + 1 + nodes_of l \<le> i" "i < b + 1 + nodes_of l + nodes_of r"
    using Nd.prems(2,3) by fastforce
  then show ?case
  proof cases
    case 1
    then show ?thesis using Nd.prems(1) by (auto dest: laid_parent_root)
  next
    case 2
    then show ?thesis using Nd.IH(1) [of b "b + 1"] Nd.prems by fastforce
  next
    case 3
    then show ?thesis using Nd.IH(2) [of b "b + 1 + nodes_of l"] Nd.prems by fastforce
  qed
qed

lemma laid_parent:
  assumes "laid nodes mp par b s" "b < i" "i < b + nodes_of s"
  shows "b \<le> parent (nodes ! i) \<and> parent (nodes ! i) < i \<and> left (nodes ! parent (nodes ! i)) = parent (nodes ! i) + 1"
  using assms
proof (induction s arbitrary: par b)
  case (Nd l r)
  consider "i = b + 1" | "b + 1 < i" "i < b + 1 + nodes_of l" | "i = b + 1 + nodes_of l"
    | "b + 1 + nodes_of l < i" "i < b + 1 + nodes_of l + nodes_of r"
    using Nd.prems(2,3) by fastforce
  then show ?case
  proof cases
    case 2
    then show ?thesis using Nd.IH(1) [of b "b + 1"] Nd.prems by fastforce
  next
    case 4
    then show ?thesis using Nd.IH(2) [of b "b + 1 + nodes_of l"] Nd.prems by fastforce
  qed (use Nd.prems(1) in \<open>auto dest: laid_parent_root\<close>)
qed simp

lemma laid_member:
  "laid nodes mp par b s \<Longrightarrow> p \<in> set (members s) \<Longrightarrow> p < length mp \<and> b \<le> mp ! p \<and> mp ! p < b + nodes_of s
     \<and> left (nodes ! (mp ! p)) = INVALID_NODE
     \<and> p \<in> set (take (num_particles (nodes ! (mp ! p))) (particles (nodes ! (mp ! p))))"
  by (induction s arbitrary: par b) fastforce+

section \<open>The partition\<close>

lemma length_swap_at [simp]: "length (swap_at xs i j) = length xs"
  by (simp add: swap_at_def)

lemma map_swap_at: "i < length xs \<Longrightarrow> j < length xs \<Longrightarrow> map f (swap_at xs i j) = swap_at (map f xs) i j"
  by (simp add: swap_at_def map_update)

lemma swap_at_outside: "k \<noteq> i \<Longrightarrow> k \<noteq> j \<Longrightarrow> swap_at xs i j ! k = xs ! k"
  by (simp add: swap_at_def)

lemma mset_swap_at: "i < length xs \<Longrightarrow> j < length xs \<Longrightarrow> mset (swap_at xs i j) = mset xs"
  by (simp add: swap_at_def mset_swap)

text \<open>Two lists of one length that differ within a range only, and there by a permutation.\<close>

definition perm_range :: "nat \<Rightarrow> nat \<Rightarrow> nat list \<Rightarrow> nat list \<Rightarrow> bool" where
  "perm_range start len xs ys \<longleftrightarrow> length ys = length xs \<and> mset ys = mset xs
     \<and> (\<forall>k. k < start \<or> start + len \<le> k \<longrightarrow> ys ! k = xs ! k)"

abbreviation window :: "nat \<Rightarrow> nat \<Rightarrow> 'a list \<Rightarrow> 'a list" where
  "window start len xs \<equiv> take len (drop start xs)"

lemma perm_range_refl [simp]: "perm_range start len xs xs"
  by (simp add: perm_range_def)

lemma perm_range_trans: "perm_range s l xs ys \<Longrightarrow> perm_range s l ys zs \<Longrightarrow> perm_range s l xs zs"
  by (auto simp: perm_range_def)

lemma perm_range_mono:
  "perm_range s l xs ys \<Longrightarrow> s' \<le> s \<Longrightarrow> s + l \<le> s' + l' \<Longrightarrow> perm_range s' l' xs ys"
  by (auto simp: perm_range_def)

lemma perm_range_window_other:
  assumes "perm_range s l xs ys" "s' + l' \<le> s \<or> s + l \<le> s'"
  shows "window s' l' ys = window s' l' xs"
  using assms by (intro nth_equalityI) (auto simp: perm_range_def)

lemma perm_range_window:
  assumes "perm_range s l xs ys" "s + l \<le> length xs"
  shows "mset (window s l ys) = mset (window s l xs)"
proof -
  have parts: "zs = take s zs @ window s l zs @ drop (s + l) zs" for zs :: "nat list"
    by (metis append.assoc append_take_drop_id take_add)
  have "take s ys = take s xs" "drop (s + l) ys = drop (s + l) xs"
    using assms by (auto simp: perm_range_def intro!: nth_equalityI)
  moreover have "mset ys = mset xs" using assms(1) by (simp add: perm_range_def)
  ultimately show ?thesis using parts [of xs] parts [of ys] by (metis add_left_cancel add_right_cancel mset_append)
qed

lemma split_loop_perm:
  assumes "split_loop c mid start i sr (map f idx) idx = (aabbs', idx', sr')" "start + sr \<le> length idx"
  shows "aabbs' = map f idx' \<and> perm_range start sr idx idx'"
  using assms
proof (induction c mid start i sr "map f idx" idx arbitrary: idx rule: split_loop.induct)
  case (1 c mid start i sr idx)
  show ?case
  proof (cases "i < sr \<and> \<not> c (getPosition (map f idx ! (start + i))) < mid")
    case True
    let ?idx = "swap_at idx (start + i) (start + sr - 1)"
    have m: "swap_at (map f idx) (start + i) (start + sr - 1) = map f ?idx"
      using True 1(4) by (intro map_swap_at [symmetric]) auto
    have "split_loop c mid start i (sr - 1) (map f ?idx) ?idx = (aabbs', idx', sr')"
      using True 1(3) m by (subst (asm) split_loop.simps) simp
    then have "aabbs' = map f idx' \<and> perm_range start (sr - 1) ?idx idx'"
      using True 1(4) m by (intro 1(2)) auto
    moreover have "perm_range start sr idx ?idx"
      using True 1(4) by (auto simp: perm_range_def mset_swap_at intro!: swap_at_outside)
    ultimately show ?thesis using perm_range_mono [of start "sr - 1" ?idx idx' start sr]
      by (auto intro: perm_range_trans)
  next
    case False
    then show ?thesis using 1 by (subst (asm) (2) split_loop.simps) (auto split: if_splits)
  qed
qed

lemma split_range_perm:
  assumes "split_range b start len (map f idx) idx = (aabbs', idx', sr)" "start + len \<le> length idx"
  shows "aabbs' = map f idx' \<and> perm_range start len idx idx'"
  using assms split_loop_perm [of _ _ start 0 len f idx]
  by (auto simp: split_range_def Let_def split: if_splits prod.splits)

section \<open>The boxes of a range\<close>

lemma set_slice: "start + len \<le> length xs \<Longrightarrow> set (window start len xs) = (\<lambda>k. xs ! (start + k)) ` {..<len}"
  by (force simp: in_set_conv_nth)

lemma merge_range_Suc:
  "0 < len \<Longrightarrow> merge_range aabbs start (Suc len) = merge (merge_range aabbs start len) (aabbs ! (start + len))"
  by (simp add: merge_range_def)

lemma merge_range_contains:
  "k < len \<Longrightarrow> contains (merge_range aabbs start len) (aabbs ! (start + k))"
proof (induction len)
  case (Suc len)
  show ?case
  proof (cases "len = 0")
    case True
    then show ?thesis using Suc.prems by (simp add: merge_range_def)
  next
    case False
    then show ?thesis using Suc by (cases "k = len") (auto simp: merge_range_Suc intro: contains_mergeD)
  qed
qed simp

lemma merge_range_least:
  "0 < len \<Longrightarrow> (\<And>k. k < len \<Longrightarrow> contains c (aabbs ! (start + k))) \<Longrightarrow> contains c (merge_range aabbs start len)"
proof (induction len)
  case (Suc len)
  show ?case
  proof (cases "len = 0")
    case True
    then show ?thesis using Suc.prems(2) [of 0] by (simp add: merge_range_def)
  next
    case False
    then show ?thesis using Suc by (auto simp: merge_range_Suc intro!: contains_mergeI)
  qed
qed simp

lemma merge_range_slice:
  assumes "start + len \<le> length idx" "0 < len"
  shows "p \<in> set (window start len idx) \<Longrightarrow> contains (merge_range (map f idx) start len) (f p)"
    and "(\<And>p. p \<in> set (window start len idx) \<Longrightarrow> contains c (f p)) \<Longrightarrow> contains c (merge_range (map f idx) start len)"
  using assms merge_range_contains [of _ len "map f idx" start] merge_range_least [of len c "map f idx" start]
  by (auto simp: set_slice [OF assms(1)])

section \<open>What building a node establishes\<close>

lemma m_nodes_set_node [simp]:
  "m_nodes (set_node t i g) = (m_nodes t)[i := g (m_nodes t ! i)]" "m_mapping (set_node t i g) = m_mapping t"
  "m_root (set_node t i g) = m_root t"
  by (simp_all add: set_node_def)

lemma allocateNode_result:
  "\<exists>cap. allocateNode t = (t\<lparr>m_node_capacity := cap, m_nodes := m_nodes t @ [AABBNode_default]\<rparr>, length (m_nodes t))"
  by (rule exI [of _ "if length (m_nodes t) \<ge> m_node_capacity t then if m_node_capacity t = 0 then 16
      else m_node_capacity t * 2 else m_node_capacity t"]) (cases t, simp add: allocateNode_def Let_def)

lemma fill_leaf_nodes:
  assumes "n < length (m_nodes t)" "len \<le> length (particles (m_nodes t ! n))" "start + len \<le> length idx"
  shows "\<exists>ps ts. m_nodes (fill_leaf n start len aabbs idx t)
      = (m_nodes t)[n := (m_nodes t ! n)\<lparr>particles := ps, particle_tags := ts\<rparr>]
    \<and> length ps = length (particles (m_nodes t ! n)) \<and> take len ps = window start len idx"
  using assms(2,3)
proof (induction len)
  case 0
  show ?case using assms(1)
    by (intro exI [of _ "particles (m_nodes t ! n)"] exI [of _ "particle_tags (m_nodes t ! n)"])
      (simp add: fill_leaf_def list_update_same_conv)
next
  case (Suc len)
  then obtain ps ts where IH: "m_nodes (fill_leaf n start len aabbs idx t)
      = (m_nodes t)[n := (m_nodes t ! n)\<lparr>particles := ps, particle_tags := ts\<rparr>]"
    "length ps = length (particles (m_nodes t ! n))" "take len ps = window start len idx" by auto
  have "m_nodes (fill_leaf n start (Suc len) aabbs idx t) = (m_nodes t)[n := (m_nodes t ! n)
      \<lparr>particles := ps[len := idx ! (start + len)], particle_tags := ts[len := tag (aabbs ! (start + len))]\<rparr>]"
    using IH(1) assms(1) by (simp add: fill_leaf_def)
  moreover have "take (Suc len) (ps[len := idx ! (start + len)]) = window start (Suc len) idx"
    using IH(2,3) Suc.prems by (simp add: take_Suc_conv_app_nth)
  ultimately show ?case using IH(2) by (metis length_list_update)
qed

lemma fill_leaf_mapping:
  "start + len \<le> length idx \<Longrightarrow> length (m_mapping (fill_leaf n start len aabbs idx t)) = length (m_mapping t)
    \<and> (\<forall>p < length (m_mapping t). m_mapping (fill_leaf n start len aabbs idx t) ! p
         = (if p \<in> set (window start len idx) then n else m_mapping t ! p))"
proof (induction len)
  case (Suc len)
  have "m_mapping (fill_leaf n start (Suc len) aabbs idx t)
      = (m_mapping (fill_leaf n start len aabbs idx t))[idx ! (start + len) := n]"
    by (simp add: fill_leaf_def)
  moreover have "set (window start (Suc len) idx) = insert (idx ! (start + len)) (set (window start len idx))"
    using Suc.prems by (simp add: take_Suc_conv_app_nth)
  moreover have "xs[j := n] ! p = (if p = j then n else xs ! p)" if "p < length xs" for xs :: "nat list" and j p
    using that by (simp add: nth_list_update eq_commute)
  ultimately show ?case using Suc by simp
qed (simp add: fill_leaf_def)

text \<open>Every box of an internal node holds the boxes of its children.\<close>

definition tight :: "AABBNode list \<Rightarrow> nat \<Rightarrow> bool" where
  "tight nodes i \<longleftrightarrow> (left (nodes ! i) \<noteq> INVALID_NODE \<longrightarrow>
     contains (aabb (nodes ! i)) (aabb (nodes ! left (nodes ! i)))
     \<and> contains (aabb (nodes ! i)) (aabb (nodes ! right (nodes ! i))))"

text \<open>\<open>built f par ps t t'\<close>: from tree \<open>t\<close> a subtree with the particles \<open>ps\<close> has been appended
  that gave \<open>t'\<close>, particle \<open>p\<close> having the box \<open>f p\<close>.\<close>

definition built :: "(nat \<Rightarrow> AABB) \<Rightarrow> nat \<Rightarrow> nat list \<Rightarrow> AABBTree \<Rightarrow> AABBTree \<Rightarrow> bool" where
  "built f par ps t t' \<longleftrightarrow> (let n = length (m_nodes t) in
     (\<exists>s. laid (m_nodes t') (m_mapping t') par n s \<and> length (m_nodes t') = n + nodes_of s \<and> mset (members s) = mset ps)
     \<and> take n (m_nodes t') = m_nodes t
     \<and> length (m_mapping t') = length (m_mapping t)
     \<and> (\<forall>p < length (m_mapping t). p \<notin> set ps \<longrightarrow> m_mapping t' ! p = m_mapping t ! p)
     \<and> (\<forall>i. n \<le> i \<longrightarrow> i < length (m_nodes t') \<longrightarrow> skip (m_nodes t' ! i) = 0 \<and> tight (m_nodes t') i)
     \<and> (\<forall>p \<in> set ps. m_mapping t' ! p < length (m_nodes t')
           \<and> contains (aabb (m_nodes t' ! (m_mapping t' ! p))) (f p))
     \<and> (\<forall>c. (\<forall>p \<in> set ps. contains c (f p)) \<longrightarrow> contains c (aabb (m_nodes t' ! n))))"

lemma tight_cong:
  assumes "tight nodes i" "nodes' ! i = nodes ! i"
    and "left (nodes ! i) \<noteq> INVALID_NODE \<Longrightarrow> nodes' ! left (nodes ! i) = nodes ! left (nodes ! i)
      \<and> nodes' ! right (nodes ! i) = nodes ! right (nodes ! i)"
  shows "tight nodes' i"
  using assms by (simp add: tight_def)

lemma built_mset: "mset ps = mset rs \<Longrightarrow> built f par ps t t' = built f par rs t t'"
  using mset_eq_setD [of ps rs] by (simp add: built_def)

lemma built_leaf:
  assumes "0 < len" "len \<le> NODE_CAPACITY" "start + len \<le> length idx" "set idx \<subseteq> {..<length (m_mapping t)}"
    and "buildNode start len par (map f idx, idx, t) = ((aabbs', idx', t'), n)"
  shows "n = length (m_nodes t) \<and> aabbs' = map f idx \<and> idx' = idx \<and> built f par (window start len idx) t t'"
proof -
  let ?b = "merge_range (map f idx) start len" and ?n = "length (m_nodes t)" and ?ps = "window start len idx"
  obtain cap where a: "allocateNode t = (t\<lparr>m_node_capacity := cap, m_nodes := m_nodes t @ [AABBNode_default]\<rparr>, ?n)"
    using allocateNode_result by blast
  define t1 where "t1 = set_node (t\<lparr>m_node_capacity := cap, m_nodes := m_nodes t @ [AABBNode_default]\<rparr>) ?n
      (\<lambda>n. n\<lparr>aabb := ?b, parent := par, num_particles := len\<rparr>)"
  have r: "n = ?n" "aabbs' = map f idx" "idx' = idx" "t' = fill_leaf ?n start len (map f idx) idx t1"
    using assms(2,5) a by (auto simp: buildNode.simps t1_def Let_def)
  have n1: "m_nodes t1 = m_nodes t @ [AABBNode_default\<lparr>aabb := ?b, parent := par, num_particles := len\<rparr>]"
    and m1: "m_mapping t1 = m_mapping t"
    by (simp_all add: t1_def)
  obtain ps ts where nodes: "m_nodes t' = m_nodes t @ [AABBNode_default\<lparr>aabb := ?b, parent := par,
      num_particles := len, particles := ps, particle_tags := ts\<rparr>]" and ps: "take len ps = ?ps"
    using fill_leaf_nodes [of ?n t1 len start idx "map f idx"] assms(2,3) unfolding r(4)
    by (auto simp: n1 AABBNode_default_def)
  note map = fill_leaf_mapping [OF assms(3), of ?n "map f idx" t1, folded r(4), unfolded m1]
  have sub: "set ?ps \<subseteq> {..<length (m_mapping t)}" using assms(4) set_take_subset set_drop_subset by fast
  have "laid (m_nodes t') (m_mapping t') par ?n (Lf ?ps)"
    using map sub assms(1,3) by (auto simp: nodes ps AABBNode_default_def)
  moreover have "\<And>p. p \<in> set ?ps \<Longrightarrow> m_mapping t' ! p = ?n" using map sub by auto
  moreover have "contains ?b (f p)" if "p \<in> set ?ps" for p
    using that merge_range_slice(1) [OF assms(3,1)] by blast
  moreover have "contains c ?b" if "\<forall>p \<in> set ?ps. contains c (f p)" for c
    using that merge_range_slice(2) [OF assms(3,1)] by blast
  moreover have "skip (m_nodes t' ! i) = 0 \<and> tight (m_nodes t') i" if "?n \<le> i" "i < length (m_nodes t')" for i
  proof -
    have "i = ?n" using that by (simp add: nodes)
    then show ?thesis by (simp add: nodes tight_def AABBNode_default_def)
  qed
  ultimately have "built f par ?ps t t'"
    using map unfolding built_def Let_def
    by (intro conjI exI [of _ "Lf ?ps"]) (auto simp: nodes AABBNode_default_def)
  then show ?thesis using r by simp
qed

lemma built_prefix: "built f par ps t t' \<Longrightarrow> i < length (m_nodes t) \<Longrightarrow> m_nodes t' ! i = m_nodes t ! i"
  unfolding built_def Let_def by (metis nth_take)

lemma built_length: "built f par ps t t' \<Longrightarrow> length (m_nodes t) < length (m_nodes t')"
  unfolding built_def Let_def by auto

text \<open>Two subtrees under a new root: \<open>t1\<close> is \<open>t\<close> with the root allocated, \<open>t2\<close> and \<open>t3\<close> have the
  left and the right subtree appended.\<close>

lemma built_node:
  assumes t1: "m_nodes t1 = m_nodes t @ [AABBNode_default]" "m_mapping t1 = m_mapping t"
    and l: "built f n ps t1 t2" and r: "built f n rs t2 t3"
    and n: "n = length (m_nodes t)" and dist: "set ps \<inter> set rs = {}"
    and sub: "set ps \<union> set rs \<subseteq> {..<length (m_mapping t)}"
    and b: "\<And>p. p \<in> set ps \<union> set rs \<Longrightarrow> contains b (f p)"
    and least: "\<And>c. (\<And>p. p \<in> set ps \<union> set rs \<Longrightarrow> contains c (f p)) \<Longrightarrow> contains c b"
    and t': "t' = set_node t3 n (\<lambda>x. x\<lparr>aabb := b, parent := par, left := length (m_nodes t1),
                right := length (m_nodes t2)\<rparr>)"
  shows "built f par (ps @ rs) t t'"
proof -
  obtain sl where sl: "laid (m_nodes t2) (m_mapping t2) n (n + 1) sl" "length (m_nodes t2) = n + 1 + nodes_of sl"
    "mset (members sl) = mset ps" using l t1 n by (auto simp: built_def Let_def)
  obtain sr where sr: "laid (m_nodes t3) (m_mapping t3) n (n + 1 + nodes_of sl) sr"
    "length (m_nodes t3) = n + 1 + nodes_of sl + nodes_of sr" "mset (members sr) = mset rs"
    using r sl(2) by (auto simp: built_def Let_def)
  have nodes': "m_nodes t' = (m_nodes t3)[n := (AABBNode_default\<lparr>aabb := b, parent := par, left := n + 1,
      right := n + 1 + nodes_of sl\<rparr>)]" "m_mapping t' = m_mapping t3"
    using built_prefix [OF r, of n] built_prefix [OF l, of n] t1 n sl(2) by (simp_all add: t')
  have len: "length (m_nodes t') = n + nodes_of (Nd sl sr)" by (simp add: nodes' sr(2))
  have map3: "length (m_mapping t3) = length (m_mapping t)"
    "\<And>p. p < length (m_mapping t) \<Longrightarrow> p \<notin> set rs \<Longrightarrow> m_mapping t3 ! p = m_mapping t2 ! p"
    "\<And>p. p < length (m_mapping t) \<Longrightarrow> p \<notin> set ps \<Longrightarrow> m_mapping t2 ! p = m_mapping t ! p"
    using l r t1(2) by (auto simp: built_def Let_def)
  have old: "m_nodes t' ! i = m_nodes t2 ! i" if "n < i" "i < n + 1 + nodes_of sl" for i
    using that built_prefix [OF r, of i] sl(2) by (simp add: nodes')
  have new: "m_nodes t' ! i = m_nodes t3 ! i" if "n < i" for i using that by (simp add: nodes')
  have "set (members sl) = set ps" "set (members sr) = set rs" using sl(3) sr(3) by (metis set_mset_mset)+
  note mem = this
  have keep: "p < length (m_mapping t3) \<and> m_mapping t3 ! p = m_mapping t2 ! p" if "p \<in> set ps" for p
    using that map3(1,2) dist sub by (metis disjoint_iff lessThan_iff subsetD UnI1)
  have "laid (m_nodes t') (m_mapping t') n (n + 1) sl"
    using sl(1)
    by (rule laid_cong) (use len old keep mem in \<open>auto simp: nodes'(2) same_links_def\<close>)
  moreover have "laid (m_nodes t') (m_mapping t') n (n + 1 + nodes_of sl) sr"
    using sr(1)
    by (rule laid_cong) (use len new map3 sub mem in \<open>auto simp: nodes'(2) same_links_def\<close>)
  ultimately have laid: "laid (m_nodes t') (m_mapping t') par n (Nd sl sr)"
    using sr(2) by (simp add: nodes'(1))
  have tight: "skip (m_nodes t' ! i) = 0 \<and> tight (m_nodes t') i" if "n \<le> i" "i < length (m_nodes t')" for i
  proof (cases "i = n")
    case True
    have "contains b (aabb (m_nodes t2 ! (n + 1)))" "contains b (aabb (m_nodes t3 ! (n + 1 + nodes_of sl)))"
      using l r b t1 n sl(2) by (auto simp: built_def Let_def)
    then show ?thesis using True len old [of "n + 1"] new [of "n + 1 + nodes_of sl"]
      by (auto simp: tight_def nodes' AABBNode_default_def)
  next
    case False
    show ?thesis
    proof (cases "i < n + 1 + nodes_of sl")
      case True
      then have t2: "skip (m_nodes t2 ! i) = 0" "tight (m_nodes t2) i"
        using l t1(1) n sl(2) that False by (auto simp: built_def Let_def)
      have "left (m_nodes t2 ! i) \<noteq> INVALID_NODE \<Longrightarrow>
          m_nodes t' ! left (m_nodes t2 ! i) = m_nodes t2 ! left (m_nodes t2 ! i)
          \<and> m_nodes t' ! right (m_nodes t2 ! i) = m_nodes t2 ! right (m_nodes t2 ! i)"
        using laid_children [OF sl(1), of i] True that False by (auto intro!: old)
      then have "tight (m_nodes t') i" using True that False by (intro tight_cong [OF t2(2)] old) auto
      then show ?thesis using t2(1) old [of i] True that False by simp
    next
      case right: False
      then have t3: "skip (m_nodes t3 ! i) = 0" "tight (m_nodes t3) i"
        using r sr(2) sl(2) that len by (auto simp: built_def Let_def)
      have "left (m_nodes t3 ! i) \<noteq> INVALID_NODE \<Longrightarrow>
          m_nodes t' ! left (m_nodes t3 ! i) = m_nodes t3 ! left (m_nodes t3 ! i)
          \<and> m_nodes t' ! right (m_nodes t3 ! i) = m_nodes t3 ! right (m_nodes t3 ! i)"
        using laid_children [OF sr(1), of i] right that len by (auto intro!: new)
      then have "tight (m_nodes t') i" using that False by (intro tight_cong [OF t3(2)] new) auto
      then show ?thesis using t3(1) new [of i] that False by simp
    qed
  qed
  have holds: "m_mapping t' ! p < length (m_nodes t') \<and> contains (aabb (m_nodes t' ! (m_mapping t' ! p))) (f p)"
    if "p \<in> set (ps @ rs)" for p
  proof (cases "p \<in> set ps")
    case True
    have "contains (aabb (m_nodes t2 ! (m_mapping t2 ! p))) (f p)" using l True by (simp add: built_def Let_def)
    then show ?thesis using laid_member [OF sl(1), of p] True mem(1) keep [OF True] old [of "m_mapping t2 ! p"] len
      by (auto simp: nodes'(2))
  next
    case False
    then have "p \<in> set rs" using that by simp
    moreover from this have "contains (aabb (m_nodes t3 ! (m_mapping t3 ! p))) (f p)"
      using r by (simp add: built_def Let_def)
    ultimately show ?thesis using laid_member [OF sr(1), of p] mem(2) new [of "m_mapping t3 ! p"] len by (auto simp: nodes'(2))
  qed
  have other: "m_mapping t' ! p = m_mapping t ! p" if "p < length (m_mapping t)" "p \<notin> set (ps @ rs)" for p
    using that map3 by (simp add: nodes'(2))
  have pre: "take n (m_nodes t') = m_nodes t"
    using built_prefix [OF r] built_prefix [OF l] t1(1) n sl(2) sr(2)
    by (intro nth_equalityI) (auto simp: nodes'(1) nth_append)
  have root: "aabb (m_nodes t' ! n) = b" using sr(2) by (simp add: nodes'(1))
  have "mset (members (Nd sl sr)) = mset (ps @ rs)" using sl(3) sr(3) by simp
  then show ?thesis
    unfolding built_def Let_def n [symmetric]
    using laid len pre map3(1) other tight holds least root by (intro conjI exI [of _ "Nd sl sr"]) (auto simp: nodes'(2))
qed

lemma window_split: "a \<le> l \<Longrightarrow> window s l xs = window s a xs @ window (s + a) (l - a) xs"
  by (metis add.commute drop_drop le_add_diff_inverse take_add)

lemma window_disjoint:
  assumes "distinct xs" "s + a \<le> u"
  shows "set (window s a xs) \<inter> set (window u c xs) = {}"
proof -
  have "distinct (take u xs @ drop u xs)" using assms(1) by simp
  moreover have "set (window s a xs) \<subseteq> set (take u xs)"
    using set_drop_subset [of s "take (a + s) xs"] set_take_subset_set_take [of "a + s" u xs] assms(2)
    by (simp add: take_drop)
  ultimately show ?thesis using set_take_subset [of c "drop u xs"] unfolding distinct_append by blast
qed

lemma perm_range_distinct: "perm_range s l xs ys \<Longrightarrow> distinct xs \<Longrightarrow> distinct ys \<and> set ys = set xs"
  unfolding perm_range_def by (metis mset_eq_setD mset_eq_imp_distinct_iff)

text \<open>The recursion builds its range, whatever it holds, and only permutes it.\<close>

lemma buildNode_built:
  assumes "buildNode start len par (map f idx, idx, t) = ((aabbs', idx', t'), n)" "0 < len"
    and "start + len \<le> length idx" "distinct idx" "set idx \<subseteq> {..<length (m_mapping t)}"
  shows "n = length (m_nodes t) \<and> aabbs' = map f idx' \<and> perm_range start len idx idx'
    \<and> built f par (window start len idx) t t'"
  using assms
proof (induction len arbitrary: start par idx t aabbs' idx' t' n rule: less_induct)
  case (less len)
  show ?case
  proof (cases "len \<le> NODE_CAPACITY")
    case True
    then show ?thesis using built_leaf [OF less.prems(2) True less.prems(3,5,1)] by simp
  next
    case False
    let ?b = "merge_range (map f idx) start len" and ?n = "length (m_nodes t)"
    obtain cap where a: "allocateNode t = (t\<lparr>m_node_capacity := cap, m_nodes := m_nodes t @ [AABBNode_default]\<rparr>, ?n)"
      using allocateNode_result by blast
    define t1 where "t1 = t\<lparr>m_node_capacity := cap, m_nodes := m_nodes t @ [AABBNode_default]\<rparr>"
    have t1: "m_nodes t1 = m_nodes t @ [AABBNode_default]" "m_mapping t1 = m_mapping t" by (simp_all add: t1_def)
    obtain aabbs1 idx1 sr where s: "split_range ?b start len (map f idx) idx = (aabbs1, idx1, sr)"
      by (metis prod_cases3)
    have p1: "aabbs1 = map f idx1" "perm_range start len idx idx1" using split_range_perm [OF s less.prems(3)] by auto
    have sr: "0 < sr" "sr < len" using split_range_proper [OF _ s] False by (auto simp: NODE_CAPACITY_def)
    obtain aabbs2 idx2 t2 nl where l: "buildNode start sr ?n (aabbs1, idx1, t1) = ((aabbs2, idx2, t2), nl)"
      by (metis prod.collapse)
    obtain aabbs3 idx3 t3 nr where r: "buildNode (start + sr) (len - sr) ?n (aabbs2, idx2, t2) = ((aabbs3, idx3, t3), nr)"
      by (metis prod.collapse)
    have res: "aabbs' = aabbs3" "idx' = idx3" "n = ?n"
      "t' = set_node t3 ?n (\<lambda>x. x\<lparr>aabb := ?b, parent := par, left := nl, right := nr\<rparr>)"
      using less.prems(1) False a s l r by (auto simp: buildNode.simps [of start len] t1_def Let_def)
    have d1: "distinct idx1" "set idx1 = set idx" "length idx1 = length idx"
      using perm_range_distinct [OF p1(2) less.prems(4)] p1(2) by (auto simp: perm_range_def)
    have IHl: "nl = length (m_nodes t1)" "aabbs2 = map f idx2" "perm_range start sr idx1 idx2"
      "built f ?n (window start sr idx1) t1 t2"
      using less.IH [OF sr(2) l [unfolded p1(1)] sr(1)] less.prems(3,5) d1 sr t1(2) by auto
    have d2: "distinct idx2" "set idx2 = set idx" "length idx2 = length idx"
      using perm_range_distinct [OF IHl(3) d1(1)] IHl(3) d1 by (auto simp: perm_range_def)
    have m2: "length (m_mapping t2) = length (m_mapping t)" using IHl(4) t1(2) by (simp add: built_def Let_def)
    have IHr: "nr = length (m_nodes t2)" "aabbs3 = map f idx3" "perm_range (start + sr) (len - sr) idx2 idx3"
      "built f ?n (window (start + sr) (len - sr) idx2) t2 t3"
      using less.IH [OF _ r [unfolded IHl(2)]] less.prems(3,5) d2 sr m2 by auto
    have w2: "window (start + sr) (len - sr) idx2 = window (start + sr) (len - sr) idx1"
      using perm_range_window_other [OF IHl(3)] by simp
    let ?ps = "window start sr idx1" and ?rs = "window (start + sr) (len - sr) idx1"
    have all: "?ps @ ?rs = window start len idx1" using window_split [of sr len start idx1] sr by simp
    have same: "mset (window start len idx1) = mset (window start len idx)"
      by (rule perm_range_window [OF p1(2) less.prems(3)])
    have set: "set ?ps \<union> set ?rs = set (window start len idx)"
      using arg_cong [OF all, of set] mset_eq_setD [OF same] by simp
    have sub: "set (window start len idx) \<subseteq> {..<length (m_mapping t)}"
      using less.prems(5) set_take_subset set_drop_subset by fast
    have "built f par (?ps @ ?rs) t t'"
    proof (rule built_node [OF t1 IHl(4) IHr(4) [unfolded w2] refl])
      show "set ?ps \<inter> set ?rs = {}" by (rule window_disjoint [OF d1(1)]) simp
      show "t' = set_node t3 ?n (\<lambda>x. x\<lparr>aabb := ?b, parent := par, left := length (m_nodes t1), right := length (m_nodes t2)\<rparr>)"
        by (simp add: res(4) IHl(1) IHr(1))
    qed (use set sub merge_range_slice [OF less.prems(3,2)] in auto)
    moreover have "perm_range start len idx idx3"
      using p1(2) perm_range_mono [OF IHl(3), of start len] perm_range_mono [OF IHr(3), of start len] sr
      by (auto intro: perm_range_trans)
    ultimately show ?thesis using res IHr(2) all built_mset [OF same] by simp
  qed
qed

section \<open>Skips\<close>

text \<open>A node skips the nodes below it.\<close>

fun skips :: "AABBNode list \<Rightarrow> nat \<Rightarrow> shape \<Rightarrow> bool" where
  "skips nodes b (Lf ps) \<longleftrightarrow> skip (nodes ! b) = 0"
| "skips nodes b (Nd l r) \<longleftrightarrow> skip (nodes ! b) = nodes_of l + nodes_of r
     \<and> skips nodes (b + 1) l \<and> skips nodes (b + 1 + nodes_of l) r"

lemma skips_cong:
  "skips nodes b s \<Longrightarrow> (\<And>i. b \<le> i \<Longrightarrow> i < b + nodes_of s \<Longrightarrow> skip (nodes' ! i) = skip (nodes ! i))
    \<Longrightarrow> skips nodes' b s"
proof (induction s arbitrary: b)
  case (Nd l r)
  from Nd.prems have "skips nodes' (b + 1) l" by (intro Nd.IH(1)) auto
  moreover from Nd.prems have "skips nodes' (b + 1 + nodes_of l) r" by (intro Nd.IH(2)) auto
  ultimately show ?case using Nd.prems(1) Nd.prems(2) [of b] by simp
qed simp

text \<open>\<open>updateSkip\<close> returns, changes \<open>skip\<close> fields of the segment only and sets all of them.\<close>

definition same_but_skip :: "AABBTree \<Rightarrow> AABBTree \<Rightarrow> bool" where
  "same_but_skip t t' \<longleftrightarrow> m_mapping t' = m_mapping t \<and> m_root t' = m_root t
     \<and> map (skip_update (\<lambda>_. 0)) (m_nodes t') = map (skip_update (\<lambda>_. 0)) (m_nodes t)"

lemma same_but_skip_nth:
  assumes "same_but_skip t t'"
  shows "length (m_nodes t') = length (m_nodes t)"
    and "i < length (m_nodes t) \<Longrightarrow> (m_nodes t' ! i)\<lparr>skip := 0\<rparr> = (m_nodes t ! i)\<lparr>skip := 0\<rparr>"
  using assms unfolding same_but_skip_def by (metis length_map, metis length_map nth_map)

lemma same_but_skip_fields:
  assumes "same_but_skip t t'" "i < length (m_nodes t)"
  shows "left (m_nodes t' ! i) = left (m_nodes t ! i)" "right (m_nodes t' ! i) = right (m_nodes t ! i)"
    "parent (m_nodes t' ! i) = parent (m_nodes t ! i)" "aabb (m_nodes t' ! i) = aabb (m_nodes t ! i)"
    "particles (m_nodes t' ! i) = particles (m_nodes t ! i)"
    "num_particles (m_nodes t' ! i) = num_particles (m_nodes t ! i)"
  using same_but_skip_nth(2) [OF assms] by (cases "m_nodes t' ! i"; cases "m_nodes t ! i"; simp)+

lemma laid_same_but_skip:
  assumes "laid (m_nodes t) (m_mapping t) par b s" "same_but_skip t t'"
  shows "laid (m_nodes t') (m_mapping t') par b s"
  using assms(1)
proof (rule laid_cong)
  show len: "b + nodes_of s \<le> length (m_nodes t')"
    using laid_bound [OF assms(1)] same_but_skip_nth(1) [OF assms(2)] by simp
  show "same_links (m_nodes t' ! i) (m_nodes t ! i)" if "i < b + nodes_of s" for i
    using that same_but_skip_fields [OF assms(2), of i] len same_but_skip_nth(1) [OF assms(2)]
    by (simp add: same_links_def)
  show "p < length (m_mapping t') \<and> m_mapping t' ! p = m_mapping t ! p" if "p \<in> set (members s)" for p
    using laid_member [OF assms(1) that] assms(2) by (simp add: same_but_skip_def)
qed

lemma updateSkip_correct:
  assumes "laid (m_nodes t) (m_mapping t) par b s" "b + nodes_of s \<le> INVALID_NODE"
    and "\<forall>i. b \<le> i \<longrightarrow> i < b + nodes_of s \<longrightarrow> skip (m_nodes t ! i) = 0"
  shows "\<exists>t'. updateSkip t b = Some (t', nodes_of s) \<and> same_but_skip t t' \<and> skips (m_nodes t') b s
    \<and> (\<forall>i. i < b \<or> b + nodes_of s \<le> i \<longrightarrow> m_nodes t' ! i = m_nodes t ! i)"
  using assms
proof (induction s arbitrary: t par b)
  case (Lf ps)
  then show ?case by (subst updateSkip.simps) (simp add: isNodeLeaf_def same_but_skip_def)
next
  case (Nd l r)
  have links: "left (m_nodes t ! b) = b + 1" "right (m_nodes t ! b) = b + 1 + nodes_of l" "b < length (m_nodes t)"
    using Nd.prems(1) by auto
  obtain t1 where t1: "updateSkip t (b + 1) = Some (t1, nodes_of l)" "same_but_skip t t1"
    "skips (m_nodes t1) (b + 1) l" "\<forall>i. i < b + 1 \<or> b + 1 + nodes_of l \<le> i \<longrightarrow> m_nodes t1 ! i = m_nodes t ! i"
    using Nd.IH(1) [of t b "b + 1"] Nd.prems by auto
  have "laid (m_nodes t1) (m_mapping t1) b (b + 1 + nodes_of l) r"
    using laid_same_but_skip [OF _ t1(2)] Nd.prems(1) by simp
  then obtain t2 where t2: "updateSkip t1 (b + 1 + nodes_of l) = Some (t2, nodes_of r)" "same_but_skip t1 t2"
    "skips (m_nodes t2) (b + 1 + nodes_of l) r"
    "\<forall>i. i < b + 1 + nodes_of l \<or> b + 1 + nodes_of l + nodes_of r \<le> i \<longrightarrow> m_nodes t2 ! i = m_nodes t1 ! i"
    using Nd.IH(2) [of t1 b "b + 1 + nodes_of l"] Nd.prems(2,3) t1(4) by auto
  define t3 where "t3 = set_node t2 b (\<lambda>n. n\<lparr>skip := nodes_of l + nodes_of r\<rparr>)"
  have "\<not> isNodeLeaf t b" using laid_internal [OF Nd.prems(1,2)] by (simp add: isNodeLeaf_def)
  then have "updateSkip t b = Some (t3, nodes_of (Nd l r))"
    using t1(1) t2(1) by (subst updateSkip.simps) (simp add: links t3_def Let_def)
  moreover have len: "b < length (m_nodes t2)"
    using links(3) same_but_skip_nth(1) [OF t1(2)] same_but_skip_nth(1) [OF t2(2)] by simp
  have "same_but_skip t t3"
    using t1(2) t2(2) len
    by (simp add: same_but_skip_def t3_def map_update list_update_same_conv) (simp add: list_update_same_conv nth_map [symmetric] del: nth_map)
  moreover have "skips (m_nodes t3) b (Nd l r)"
    using len skips_cong [OF t1(3), of "m_nodes t3"] skips_cong [OF t2(3), of "m_nodes t3"] t2(4)
    by (simp add: t3_def)
  moreover have "\<forall>i. i < b \<or> b + nodes_of (Nd l r) \<le> i \<longrightarrow> m_nodes t3 ! i = m_nodes t ! i"
    using t1(4) t2(4) by (auto simp: t3_def)
  ultimately show ?case by blast
qed

section \<open>The invariant of a tree\<close>

text \<open>\<open>represents t f N\<close>: the tree holds the particles \<open>0, \<dots>, N - 1\<close>, each in one leaf, the boxes of
  the leaves hold the boxes \<open>f p\<close> of their particles and the box of a node those of its children.\<close>

definition laid_tree :: "AABBTree \<Rightarrow> shape \<Rightarrow> nat \<Rightarrow> bool" where
  "laid_tree t s N \<longleftrightarrow> laid (m_nodes t) (m_mapping t) INVALID_NODE 0 s \<and> skips (m_nodes t) 0 s
     \<and> length (m_nodes t) = nodes_of s \<and> nodes_of s < 2 * N \<and> 2 * N \<le> 2 ^ 32
     \<and> mset (members s) = mset [0..<N] \<and> length (m_mapping t) = N \<and> m_root t = 0"

definition boxes_ok :: "AABBTree \<Rightarrow> (nat \<Rightarrow> AABB) \<Rightarrow> bool" where
  "boxes_ok t f \<longleftrightarrow> (\<forall>i < length (m_nodes t). tight (m_nodes t) i)
     \<and> (\<forall>p < length (m_mapping t). contains (aabb (m_nodes t ! (m_mapping t ! p))) (f p))"

definition represents :: "AABBTree \<Rightarrow> (nat \<Rightarrow> AABB) \<Rightarrow> nat \<Rightarrow> bool" where
  "represents t f N \<longleftrightarrow> (\<exists>s. laid_tree t s N) \<and> boxes_ok t f"

lemma laid_treeD:
  assumes "laid_tree t s N"
  shows "laid (m_nodes t) (m_mapping t) INVALID_NODE 0 s" "skips (m_nodes t) 0 s"
    "length (m_nodes t) = nodes_of s" "nodes_of s \<le> INVALID_NODE" "length (m_mapping t) = N"
    "set (members s) = {..<N}" "distinct (members s)"
proof -
  have m: "mset (members s) = mset [0..<N]" using assms by (simp add: laid_tree_def)
  show "set (members s) = {..<N}" using mset_eq_setD [OF m] by (simp add: lessThan_atLeast0)
  show "distinct (members s)" using mset_eq_imp_distinct_iff [OF m] by simp
qed (use assms in \<open>auto simp: laid_tree_def INVALID_NODE_def\<close>)

section \<open>Queries\<close>

text \<open>The recursive search that the loop unrolls.\<close>

fun search :: "AABBNode list \<Rightarrow> AABB \<Rightarrow> nat \<Rightarrow> shape \<Rightarrow> nat list" where
  "search nodes q b (Lf ps) = (if overlap (aabb (nodes ! b)) q then ps else [])"
| "search nodes q b (Nd l r) =
     (if overlap (aabb (nodes ! b)) q
      then search nodes q (b + 1) l @ search nodes q (b + 1 + nodes_of l) r else [])"

lemma query_loop_segment:
  assumes "laid nodes mp par b s" "skips nodes b s" "b + nodes_of s \<le> INVALID_NODE"
  shows "\<exists>k. k \<le> nodes_of s \<and> query_loop nodes q b hits c
    = query_loop nodes q (b + nodes_of s) (hits @ search nodes q b s) (c + k)"
  using assms
proof (induction s arbitrary: par b hits c)
  case (Lf ps)
  then show ?case by (subst query_loop.simps) (auto simp: Let_def intro: exI [of _ 1])
next
  case (Nd l r)
  note links = Nd.prems(1) [simplified]
  show ?case
  proof (cases "overlap (aabb (nodes ! b)) q")
    case True
    obtain k where k: "k \<le> nodes_of l" "query_loop nodes q (b + 1) hits (c + 1)
        = query_loop nodes q (b + 1 + nodes_of l) (hits @ search nodes q (b + 1) l) (c + 1 + k)"
      using Nd.IH(1) [of b "b + 1" hits "c + 1"] Nd.prems by auto
    obtain m where m: "m \<le> nodes_of r" "query_loop nodes q (b + 1 + nodes_of l) (hits @ search nodes q (b + 1) l) (c + 1 + k)
        = query_loop nodes q (b + 1 + nodes_of l + nodes_of r)
            ((hits @ search nodes q (b + 1) l) @ search nodes q (b + 1 + nodes_of l) r) (c + 1 + k + m)"
      using Nd.IH(2) [of b "b + 1 + nodes_of l" "hits @ search nodes q (b + 1) l" "c + 1 + k"] Nd.prems by auto
    have "left (nodes ! b) \<noteq> INVALID_NODE" using laid_internal [OF Nd.prems(1,3)] .
    then have "query_loop nodes q b hits c = query_loop nodes q (b + 1) hits (c + 1)"
      using True links by (subst query_loop.simps) (simp add: Let_def)
    then show ?thesis using k m True by (intro exI [of _ "1 + k + m"]) (simp add: ac_simps)
  next
    case False
    then have "query_loop nodes q b hits c = query_loop nodes q (b + nodes_of (Nd l r)) hits (c + 1)"
      using links Nd.prems(2) by (subst query_loop.simps) (simp add: Let_def ac_simps)
    then show ?thesis using False by (intro exI [of _ 1]) simp
  qed
qed

lemma tight_root_contains:
  assumes "laid nodes mp par b s" "b + nodes_of s \<le> INVALID_NODE"
    and "\<And>i. b \<le> i \<Longrightarrow> i < b + nodes_of s \<Longrightarrow> tight nodes i" "p \<in> set (members s)"
  shows "contains (aabb (nodes ! b)) (aabb (nodes ! (mp ! p)))"
  using assms
proof (induction s arbitrary: par b)
  case (Nd l r)
  have t: "contains (aabb (nodes ! b)) (aabb (nodes ! (b + 1)))"
    "contains (aabb (nodes ! b)) (aabb (nodes ! (b + 1 + nodes_of l)))"
    using Nd.prems(1) Nd.prems(3) [of b] laid_internal [OF Nd.prems(1,2)] by (auto simp: tight_def)
  show ?case
  proof (cases "p \<in> set (members l)")
    case True
    then have "contains (aabb (nodes ! (b + 1))) (aabb (nodes ! (mp ! p)))"
      using Nd.prems by (intro Nd.IH(1)) auto
    then show ?thesis by (rule contains_trans [OF t(1)])
  next
    case False
    then have "contains (aabb (nodes ! (b + 1 + nodes_of l))) (aabb (nodes ! (mp ! p)))"
      using Nd.prems by (intro Nd.IH(2)) auto
    then show ?thesis by (rule contains_trans [OF t(2)])
  qed
qed auto

text \<open>Pruning loses nothing: the search finds the particles of all leaves that overlap.\<close>

lemma search_filter:
  assumes "laid nodes mp par b s" "b + nodes_of s \<le> INVALID_NODE"
    and "\<And>i. b \<le> i \<Longrightarrow> i < b + nodes_of s \<Longrightarrow> tight nodes i"
  shows "search nodes q b s = filter (\<lambda>p. overlap (aabb (nodes ! (mp ! p))) q) (members s)"
proof (cases "overlap (aabb (nodes ! b)) q")
  case False
  have "\<not> overlap (aabb (nodes ! (mp ! p))) q" if "p \<in> set (members s)" for p
    using tight_root_contains [OF assms that] False overlap_contains by blast
  then show ?thesis using False by (cases s) (auto simp: filter_empty_conv)
next
  case True
  from assms True show ?thesis
  proof (induction s arbitrary: par b)
    case (Lf ps)
    then show ?case by (auto simp: filter_id_conv)
  next
    case (Nd l r)
    have sub: "search nodes q c u = filter (\<lambda>p. overlap (aabb (nodes ! (mp ! p))) q) (members u)"
      if "(c, u) \<in> {(b + 1, l), (b + 1 + nodes_of l, r)}" for c u
    proof (cases "overlap (aabb (nodes ! c)) q")
      case True
      then show ?thesis using that Nd.IH(1) [of b c] Nd.IH(2) [of b c] Nd.prems by auto
    next
      case False
      have "\<not> overlap (aabb (nodes ! (mp ! p))) q" if "p \<in> set (members u)" for p
        using tight_root_contains [of nodes mp b c u p] that \<open>(c, u) \<in> _\<close> False overlap_contains Nd.prems(1-3) by fastforce
      then show ?thesis using False by (cases u) (auto simp: filter_empty_conv)
    qed
    then show ?case using Nd.prems(4) by simp
  qed
qed

lemma query_result:
  assumes "represents t f N"
  shows "\<exists>found k. query t hits q = (hits @ found, k) \<and> k \<le> getNumNodes t \<and> distinct found
    \<and> set found = {p. p < N \<and> overlap (getNodeAABB t (m_mapping t ! p)) q}"
proof -
  obtain s where s: "laid_tree t s N" and b: "boxes_ok t f" using assms by (auto simp: represents_def)
  note d = laid_treeD [OF s]
  obtain k where k: "k \<le> nodes_of s" "query t hits q
      = query_loop (m_nodes t) q (nodes_of s) (hits @ search (m_nodes t) q 0 s) k"
    using query_loop_segment [OF d(1,2), of q hits 0] d(4) by (auto simp: query_def)
  have "query t hits q = (hits @ search (m_nodes t) q 0 s, k)"
    unfolding k(2) using d(3) by (subst query_loop.simps) simp
  moreover have "search (m_nodes t) q 0 s = filter (\<lambda>p. overlap (aabb (m_nodes t ! (m_mapping t ! p))) q) (members s)"
    using d b by (intro search_filter) (auto simp: boxes_ok_def)
  ultimately show ?thesis using d k(1) by (auto simp: getNumNodes_def getNodeAABB_def)
qed

section \<open>Updates\<close>

text \<open>Changing boxes keeps the layout.\<close>

lemma laid_set_aabb:
  assumes "laid nodes mp par b s"
  shows "laid (nodes[i := (nodes ! i)\<lparr>aabb := x\<rparr>]) mp par b s"
  using assms
  by (rule laid_cong) (use laid_bound [OF assms] laid_member [OF assms] in \<open>auto simp: same_links_def nth_list_update_in\<close>)

lemma laid_tree_set_aabb:
  assumes "laid_tree t s N"
  shows "laid_tree (set_node t i (\<lambda>n. n\<lparr>aabb := g n\<rparr>)) s N"
proof -
  have "skips ((m_nodes t)[i := (m_nodes t ! i)\<lparr>aabb := g (m_nodes t ! i)\<rparr>]) 0 s"
    using laid_treeD(2) [OF assms] by (rule skips_cong) (use laid_treeD(3) [OF assms] in \<open>auto simp: nth_list_update_in\<close>)
  then show ?thesis using assms laid_set_aabb by (simp add: laid_tree_def)
qed

text \<open>While the loop climbs, only the node it is about to visit may have a child whose box it does
  not hold; giving it the merged box of its children moves the gap to its parent.\<close>

lemma tight_set_aabb:
  assumes lt: "laid_tree t s N" and "i < length (m_nodes t)"
    and others: "\<forall>j < length (m_nodes t). j \<noteq> i \<longrightarrow> tight (m_nodes t) j"
    and x: "left (m_nodes t ! i) \<noteq> INVALID_NODE \<Longrightarrow>
        contains x (aabb (m_nodes t ! left (m_nodes t ! i))) \<and> contains x (aabb (m_nodes t ! right (m_nodes t ! i)))"
    and j: "j < length (m_nodes t)" "j \<noteq> parent (m_nodes t ! i)"
  shows "tight ((m_nodes t)[i := (m_nodes t ! i)\<lparr>aabb := x\<rparr>]) j"
proof -
  note ch = laid_children [OF laid_treeD(1) [OF lt], simplified, folded laid_treeD(3) [OF lt]]
  show ?thesis
  proof (cases "j = i")
    case True
    have "left (m_nodes t ! i) \<noteq> i" "right (m_nodes t ! i) \<noteq> i" if "left (m_nodes t ! i) \<noteq> INVALID_NODE"
      using ch [OF assms(2) that] by linarith+
    then show ?thesis using True assms(2) x
      by (cases "left (m_nodes t ! i) = INVALID_NODE") (simp_all add: tight_def)
  next
    case False
    then have "tight (m_nodes t) j" using others j(1) by blast
    then show ?thesis
    proof (rule tight_cong)
      show "(m_nodes t)[i := (m_nodes t ! i)\<lparr>aabb := x\<rparr>] ! j = m_nodes t ! j" using False by simp
      assume "left (m_nodes t ! j) \<noteq> INVALID_NODE"
      then have "left (m_nodes t ! j) \<noteq> i \<and> right (m_nodes t ! j) \<noteq> i" using ch [OF j(1)] j(2) by metis
      then show "(m_nodes t)[i := (m_nodes t ! i)\<lparr>aabb := x\<rparr>] ! left (m_nodes t ! j) = m_nodes t ! left (m_nodes t ! j)
          \<and> (m_nodes t)[i := (m_nodes t ! i)\<lparr>aabb := x\<rparr>] ! right (m_nodes t ! j) = m_nodes t ! right (m_nodes t ! j)"
        by simp
    qed
  qed
qed

lemma parent_less:
  assumes "laid_tree t s N" "i < length (m_nodes t)" "parent (m_nodes t ! i) \<noteq> INVALID_NODE"
  shows "parent (m_nodes t ! i) < i \<and> left (m_nodes t ! parent (m_nodes t ! i)) \<noteq> INVALID_NODE"
  using laid_parent [OF laid_treeD(1) [OF assms(1)], of i] laid_parent_root [OF laid_treeD(1) [OF assms(1)]]
    assms(2,3) laid_treeD(3,4) [OF assms(1)]
  by (cases "i = 0") auto

lemma mapped_leaf:
  assumes "laid_tree t s N" "p < length (m_mapping t)"
  shows "m_mapping t ! p < length (m_nodes t)" "left (m_nodes t ! (m_mapping t ! p)) = INVALID_NODE"
  using laid_member [OF laid_treeD(1) [OF assms(1)], of p] laid_treeD(3,5,6) [OF assms(1)] assms(2) by auto

lemma update_parents_correct:
  assumes "laid_tree t s N" "c = INVALID_NODE \<or> c < length (m_nodes t)"
    and "\<forall>j < length (m_nodes t). j \<noteq> c \<longrightarrow> tight (m_nodes t) j"
    and "\<forall>p < length (m_mapping t). contains (aabb (m_nodes t ! (m_mapping t ! p))) (f p)"
    and "c = INVALID_NODE \<or> left (m_nodes t ! c) \<noteq> INVALID_NODE"
  shows "\<exists>t'. update_parents t c = Some t' \<and> laid_tree t' s N \<and> boxes_ok t' f"
  using assms
proof (induction c arbitrary: t rule: less_induct)
  case (less c)
  note len = laid_treeD(3,4) [OF less.prems(1)]
  show ?case
  proof (cases "c = INVALID_NODE")
    case True
    have "boxes_ok t f" using less.prems(3,4) True len by (auto simp: boxes_ok_def)
    then show ?thesis using True less.prems(1) by (subst update_parents.simps) simp
  next
    case False
    then have c: "c < length (m_nodes t)" using less.prems(2) by blast
    let ?x = "merge (aabb (m_nodes t ! left (m_nodes t ! c))) (aabb (m_nodes t ! right (m_nodes t ! c)))"
      and ?p = "parent (m_nodes t ! c)"
    have leaf: "m_mapping t ! p < length (m_nodes t) \<and> m_mapping t ! p \<noteq> c" if "p < length (m_mapping t)" for p
      using mapped_leaf [OF less.prems(1)] that less.prems(5) False by auto
    define t1 where "t1 = set_node t c (\<lambda>n. n\<lparr>aabb := ?x\<rparr>)"
    have n1: "m_nodes t1 = (m_nodes t)[c := (m_nodes t ! c)\<lparr>aabb := ?x\<rparr>]" "m_mapping t1 = m_mapping t"
      by (simp_all add: t1_def)
    have held: "\<forall>p < length (m_mapping t1). contains (aabb (m_nodes t1 ! (m_mapping t1 ! p))) (f p)"
      using less.prems(4) leaf by (simp add: n1 nth_list_update_in)
    have "update_parents t c = update_parents t1 ?p"
      using False c by (subst update_parents.simps) (simp add: t1_def Let_def)
    moreover have "\<exists>t'. update_parents t1 ?p = Some t' \<and> laid_tree t' s N \<and> boxes_ok t' f"
    proof (cases "?p = INVALID_NODE")
      case True
      have "boxes_ok t1 f"
        using tight_set_aabb [OF less.prems(1) c less.prems(3), of ?x] held True len
        by (auto simp: boxes_ok_def n1)
      then show ?thesis using True laid_tree_set_aabb [OF less.prems(1)]
        by (subst update_parents.simps) (simp add: t1_def)
    next
      case p: False
      show ?thesis
      proof (rule less.IH)
        show "?p < c" using parent_less [OF less.prems(1) c p] by simp
        then show "?p = INVALID_NODE \<or> ?p < length (m_nodes t1)" using c by (simp add: n1)
        show "laid_tree t1 s N" unfolding t1_def by (rule laid_tree_set_aabb [OF less.prems(1)])
        show "\<forall>j < length (m_nodes t1). j \<noteq> ?p \<longrightarrow> tight (m_nodes t1) j"
          using tight_set_aabb [OF less.prems(1) c less.prems(3), of ?x] by (simp add: n1)
        show "?p = INVALID_NODE \<or> left (m_nodes t1 ! ?p) \<noteq> INVALID_NODE"
          using parent_less [OF less.prems(1) c p] c by (simp add: n1 nth_list_update_in)
      qed (rule held)
    qed
    ultimately show ?thesis by simp
  qed
qed

lemma update_correct:
  assumes "represents t f N" "idx < N"
  shows "\<exists>t'. update t idx box = Some t' \<and> represents t' (f(idx := box)) N"
proof -
  obtain s where s: "laid_tree t s N" and b: "boxes_ok t f" using assms(1) by (auto simp: represents_def)
  let ?n = "m_mapping t ! idx"
  have i: "idx < length (m_mapping t)" using laid_treeD(5) [OF s] assms(2) by simp
  note leaf = mapped_leaf [OF s i] and len = laid_treeD(3,4) [OF s]
  show ?thesis
  proof (cases "contains (aabb (m_nodes t ! ?n)) box")
    case True
    then have "boxes_ok t (f(idx := box))" using b by (simp add: boxes_ok_def)
    then show ?thesis using True i leaf len s by (auto simp: update_def Let_def represents_def)
  next
    case False
    define t1 where "t1 = set_node t ?n (\<lambda>n. n\<lparr>aabb := merge (aabb n) box\<rparr>)"
    have n1: "m_nodes t1 = (m_nodes t)[?n := (m_nodes t ! ?n)\<lparr>aabb := merge (aabb (m_nodes t ! ?n)) box\<rparr>]"
      "m_mapping t1 = m_mapping t" by (simp_all add: t1_def)
    have u: "update t idx box = update_parents t1 (parent (m_nodes t ! ?n))"
      using False i leaf len by (simp add: update_def Let_def t1_def)
    have "\<exists>t'. update_parents t1 (parent (m_nodes t ! ?n)) = Some t' \<and> laid_tree t' s N \<and> boxes_ok t' (f(idx := box))"
    proof (rule update_parents_correct)
      show "laid_tree t1 s N" unfolding t1_def by (rule laid_tree_set_aabb [OF s])
      show "parent (m_nodes t ! ?n) = INVALID_NODE \<or> parent (m_nodes t ! ?n) < length (m_nodes t1)"
        using parent_less [OF s leaf(1)] leaf(1)
        by (cases "parent (m_nodes t ! ?n) = INVALID_NODE") (auto simp: n1)
      show "parent (m_nodes t ! ?n) = INVALID_NODE \<or> left (m_nodes t1 ! parent (m_nodes t ! ?n)) \<noteq> INVALID_NODE"
        using parent_less [OF s leaf(1)] leaf(1) by (auto simp: n1 nth_list_update_in)
      show "\<forall>j < length (m_nodes t1). j \<noteq> parent (m_nodes t ! ?n) \<longrightarrow> tight (m_nodes t1) j"
        using tight_set_aabb [OF s leaf(1), of "merge (aabb (m_nodes t ! ?n)) box"] b leaf(2)
        by (simp add: n1 boxes_ok_def)
      show "\<forall>p < length (m_mapping t1). contains (aabb (m_nodes t1 ! (m_mapping t1 ! p))) ((f(idx := box)) p)"
      proof (intro allI impI)
        fix p assume "p < length (m_mapping t1)"
        then have p: "m_mapping t ! p < length (m_nodes t)" "contains (aabb (m_nodes t ! (m_mapping t ! p))) (f p)"
          using mapped_leaf(1) [OF s] b by (simp_all add: n1 boxes_ok_def)
        then show "contains (aabb (m_nodes t1 ! (m_mapping t1 ! p))) ((f(idx := box)) p)"
          by (cases "m_mapping t ! p = ?n") (auto simp: n1 nth_list_update_in contains_mergeD)
      qed
    qed
    then show ?thesis unfolding u by (auto simp: represents_def)
  qed
qed

lemma height_loop_returns:
  assumes "laid_tree t s N" "c = INVALID_NODE \<or> c < length (m_nodes t)"
  shows "\<exists>d. height_loop t c h = Some (h + d) \<and> d \<le> (if c = INVALID_NODE then 0 else c + 1)"
  using assms(2)
proof (induction c arbitrary: h rule: less_induct)
  case (less c)
  show ?case
  proof (cases "c = INVALID_NODE")
    case True
    then show ?thesis by (subst height_loop.simps) simp
  next
    case False
    let ?p = "parent (m_nodes t ! c)"
    have c: "c < length (m_nodes t)" using False less.prems by blast
    have "\<exists>d. height_loop t ?p (h + 1) = Some (h + 1 + d) \<and> d \<le> c"
    proof (cases "?p = INVALID_NODE")
      case True
      then show ?thesis by (subst height_loop.simps) simp
    next
      case p: False
      then have "?p < c" using parent_less [OF assms(1) c] by blast
      then show ?thesis using less.IH [of ?p "h + 1"] c p by auto
    qed
    then obtain d where "height_loop t ?p (h + 1) = Some (h + 1 + d)" "d \<le> c" by blast
    then show ?thesis using False by (subst height_loop.simps) (auto intro!: exI [of _ "d + 1"])
  qed
qed

section \<open>Building\<close>

lemma buildTree_correct:
  assumes "0 < length boxes" "2 * length boxes \<le> 2 ^ 32"
  shows "\<exists>t'. buildTree t boxes = Some t' \<and> represents t' (nth boxes) (length boxes)"
proof -
  let ?N = "length boxes"
  obtain boxes' idx' t1 n where b: "buildNode 0 ?N INVALID_NODE (boxes, [0..<?N], init t ?N) = ((boxes', idx', t1), n)"
    by (metis prod.collapse)
  have m: "boxes = map (nth boxes) [0..<?N]" by (simp add: map_nth)
  have n: "n = 0" and bt: "built (nth boxes) INVALID_NODE [0..<?N] (init t ?N) t1"
    using buildNode_built [of 0 ?N INVALID_NODE "nth boxes" "[0..<?N]" "init t ?N" boxes' idx' t1 n]
      b assms(1) m by (auto simp: init_def atLeast0LessThan)
  from bt obtain s where s: "laid (m_nodes t1) (m_mapping t1) INVALID_NODE 0 s" "length (m_nodes t1) = nodes_of s"
    "mset (members s) = mset [0..<?N]" "length (m_mapping t1) = ?N"
    and boxes: "\<forall>i < length (m_nodes t1). skip (m_nodes t1 ! i) = 0 \<and> tight (m_nodes t1) i"
      "\<forall>p < ?N. m_mapping t1 ! p < length (m_nodes t1) \<and> contains (aabb (m_nodes t1 ! (m_mapping t1 ! p))) (boxes ! p)"
    unfolding built_def Let_def init_def by auto
  have "length (members s) = ?N" using s(3) by (metis length_upt minus_nat.diff_0 size_mset)
  then have size: "nodes_of s < 2 * ?N" using laid_nodes_members [OF s(1)] by simp
  define t2 where "t2 = t1\<lparr>m_root := 0\<rparr>"
  obtain t' where t': "updateSkip t2 0 = Some (t', nodes_of s)" "same_but_skip t2 t'" "skips (m_nodes t') 0 s"
    using updateSkip_correct [of t2 INVALID_NODE 0 s] s boxes(1) size assms(2)
    by (auto simp: t2_def INVALID_NODE_def)
  have "buildTree t boxes = Some t'" using b n t'(1) by (simp add: buildTree_def Let_def t2_def)
  moreover have "laid_tree t' s ?N"
    using laid_same_but_skip [of t2 INVALID_NODE 0 s t'] same_but_skip_nth(1) [OF t'(2)] s size t'(2,3) assms(2)
    by (simp add: laid_tree_def t2_def same_but_skip_def)
  moreover from this have "boxes_ok t' (nth boxes)"
    using same_but_skip_fields [OF t'(2)] same_but_skip_nth(1) [OF t'(2)] boxes s(1,2,4) t'(2)
      laid_children [OF s(1)]
    by (auto simp: boxes_ok_def tight_def t2_def same_but_skip_def)
  ultimately show ?thesis by (auto simp: represents_def)
qed

section \<open>The tree as a spatial index\<close>

text \<open>A run of updates, one after the other, stopping at the first that fails.\<close>

primrec updates :: "('t \<Rightarrow> nat \<Rightarrow> AABB \<Rightarrow> 't option) \<Rightarrow> 't \<Rightarrow> (nat \<times> AABB) list \<Rightarrow> 't option" where
  "updates upd t [] = Some t"
| "updates upd t (u # us) = Option.bind (upd t (fst u) (snd u)) (\<lambda>t. updates upd t us)"

abbreviation moved :: "(nat \<times> AABB) list \<Rightarrow> (nat \<Rightarrow> AABB) \<Rightarrow> nat \<Rightarrow> AABB" where
  "moved us f \<equiv> fold (\<lambda>u g. g(fst u := snd u)) us f"

text \<open>What the neighbour searches rely on: an index is built from one box per particle, follows
  the particles by \<open>update\<close>, and a query returns every particle whose current box overlaps. Searching
  with the box of a sphere then finds every contact.\<close>

locale spatial_index =
  fixes represents :: "'t \<Rightarrow> (nat \<Rightarrow> AABB) \<Rightarrow> nat \<Rightarrow> bool"
    and build :: "'t \<Rightarrow> AABB list \<Rightarrow> 't option"
    and update :: "'t \<Rightarrow> nat \<Rightarrow> AABB \<Rightarrow> 't option"
    and query :: "'t \<Rightarrow> nat list \<Rightarrow> AABB \<Rightarrow> nat list \<times> nat"
    and max_particles :: nat
  assumes build_represents:
      "0 < length boxes \<Longrightarrow> length boxes \<le> max_particles
        \<Longrightarrow> \<exists>t'. build t boxes = Some t' \<and> represents t' (nth boxes) (length boxes)"
    and update_represents:
      "represents t f N \<Longrightarrow> p < N \<Longrightarrow> \<exists>t'. update t p b = Some t' \<and> represents t' (f(p := b)) N"
    and query_complete:
      "represents t f N \<Longrightarrow> query t hits q = (out, k) \<Longrightarrow> p < N \<Longrightarrow> overlap (f p) q \<Longrightarrow> p \<in> set out"
    and query_sound:
      "represents t f N \<Longrightarrow> query t hits q = (out, k)
        \<Longrightarrow> \<exists>found. out = hits @ found \<and> distinct found \<and> set found \<subseteq> {..<N}"
begin

lemma updates_represents:
  "represents t f N \<Longrightarrow> \<forall>u \<in> set us. fst u < N
    \<Longrightarrow> \<exists>t'. updates update t us = Some t' \<and> represents t' (moved us f) N"
proof (induction us arbitrary: t f)
  case (Cons u us)
  then obtain t1 where t1: "update t (fst u) (snd u) = Some t1" "represents t1 (f(fst u := snd u)) N"
    using update_represents [OF Cons.prems(1), of "fst u" "snd u"] by auto
  from Cons.IH [OF this(2)] Cons.prems(2) obtain t' where
    "updates update t1 us = Some t'" "represents t' (moved us (f(fst u := snd u))) N"
    by (auto simp del: fun_upd_apply)
  then show ?case using t1(1) by (auto simp del: fun_upd_apply)
qed simp

lemma contacts_found:
  assumes "represents t f N" "p < N" "f p = AABB_sphere x r" "0 \<le> r" "0 \<le> s"
    and "dot (x - y) (x - y) \<le> (r + s)\<^sup>2"
  shows "p \<in> set (fst (query t hits (AABB_sphere y s)))"
  using query_complete [OF assms(1) _ assms(2)] sphere_overlap [OF assms(4-6)] assms(3)
  by (metis prod.collapse)

end

lemma query_complete_tree:
  assumes "represents t f N" "query t hits q = (out, k)" "p < N" "overlap (f p) q"
  shows "p \<in> set out"
proof -
  obtain s where s: "laid_tree t s N" and b: "boxes_ok t f" using assms(1) by (auto simp: represents_def)
  have "contains (getNodeAABB t (m_mapping t ! p)) (f p)"
    using b assms(3) laid_treeD(5) [OF s] by (simp add: boxes_ok_def getNodeAABB_def)
  from overlap_contains [OF this assms(4)]
  have "p \<in> {p. p < N \<and> overlap (getNodeAABB t (m_mapping t ! p)) q}" using assms(3) by simp
  moreover obtain found where "out = hits @ found" "set found = {p. p < N \<and> overlap (getNodeAABB t (m_mapping t ! p)) q}"
    using query_result [OF assms(1), of hits q] assms(2) by (auto simp only: prod.inject)
  ultimately show ?thesis by simp
qed

lemma query_sound_tree:
  assumes "represents t f N" "query t hits q = (out, k)"
  shows "\<exists>found. out = hits @ found \<and> distinct found \<and> set found \<subseteq> {..<N}"
  using query_result [OF assms(1), of hits q] assms(2) by auto

interpretation aabb_tree: spatial_index represents buildTree update query "2 ^ 31"
  by unfold_locales
    (erule buildTree_correct, simp, erule (1) update_correct, erule (3) query_complete_tree,
     erule (1) query_sound_tree)

lemma represents_nodes: "represents t f N \<Longrightarrow> getNumNodes t < 2 * N"
  by (auto simp: represents_def laid_tree_def getNumNodes_def)

lemma query_loop_append:
  "query_loop nodes q i (pre @ hits) c = (pre @ fst (query_loop nodes q i hits c), snd (query_loop nodes q i hits c))"
proof (induction nodes q i hits c rule: query_loop.induct)
  case (1 nodes q i hits c)
  then show ?case by (simp add: query_loop.simps [of nodes q i] Let_def)
qed

lemma query_append: "query t hits q = (hits @ fst (query t [] q), snd (query t [] q))"
  using query_loop_append [of "m_nodes t" q 0 hits "[]" 0] by (simp add: query_def)

section \<open>Properties of the tree\<close>

text \<open>C4: building, updating and querying never lose a particle. For up to \<open>2\<^sup>3\<^sup>1\<close> boxes,
  \<open>buildTree\<close> returns (its recursion, the partition loops and \<open>updateSkip\<close> end), any sequence of
  \<open>update\<close> calls on existing particles returns, and every later \<open>query\<close> appends to the given hits
  each particle whose current box overlaps the query box, no particle twice, and only particles of
  the tree; it checks each node at most once, and there are fewer than \<open>2 N\<close> nodes.\<close>

theorem AABBTree_lifecycle:
  assumes "0 < length boxes" "length boxes \<le> 2 ^ 31" "\<forall>u \<in> set us. fst u < length boxes"
  shows "\<exists>t1 t2. buildTree t boxes = Some t1 \<and> updates update t1 us = Some t2
    \<and> getNumNodes t2 < 2 * length boxes
    \<and> (\<forall>hits q. \<exists>found k. query t2 hits q = (hits @ found, k) \<and> k \<le> getNumNodes t2 \<and> distinct found
         \<and> {p. p < length boxes \<and> overlap (moved us (nth boxes) p) q} \<subseteq> set found
         \<and> set found \<subseteq> {..<length boxes})"
proof -
  obtain t1 where t1: "buildTree t boxes = Some t1" "represents t1 (nth boxes) (length boxes)"
    using aabb_tree.build_represents [OF assms(1,2)] by blast
  obtain t2 where t2: "updates update t1 us = Some t2" "represents t2 (moved us (nth boxes)) (length boxes)"
    using aabb_tree.updates_represents [OF t1(2) assms(3)] by blast
  have "\<exists>found k. query t2 hits q = (hits @ found, k) \<and> k \<le> getNumNodes t2 \<and> distinct found
      \<and> {p. p < length boxes \<and> overlap (moved us (nth boxes) p) q} \<subseteq> set found
      \<and> set found \<subseteq> {..<length boxes}" for hits q
  proof -
    obtain found k where q: "query t2 hits q = (hits @ found, k)" "k \<le> getNumNodes t2" "distinct found"
      "set found \<subseteq> {..<length boxes}" using query_result [OF t2(2), of hits q] by auto
    have "query t2 [] q = (found, k)" using query_append [of t2 hits q] q(1) by (auto simp: prod_eq_iff)
    then show ?thesis using q aabb_tree.query_complete [OF t2(2)] by blast
  qed
  then show ?thesis using t1(1) t2 represents_nodes [OF t2(2)] by blast
qed

theorem AABBTree_lifecycle_witness:
  "\<exists>t1 t2. buildTree AABBTree_new [AABB_sphere (Vec3 0 0 0) 1, AABB_sphere (Vec3 5 0 0) 1] = Some t1
    \<and> updates update t1 [(1, AABB_sphere (Vec3 6 0 0) 1)] = Some t2
    \<and> 1 \<in> set (fst (query t2 [] (AABB_sphere (Vec3 8 0 0) 1)))"
proof -
  let ?boxes = "[AABB_sphere (Vec3 0 0 0) 1, AABB_sphere (Vec3 5 0 0) 1]" and ?us = "[(1, AABB_sphere (Vec3 6 0 0) 1)]"
    and ?q = "AABB_sphere (Vec3 8 0 0) 1"
  obtain t1 t2 where t: "buildTree AABBTree_new ?boxes = Some t1" "updates update t1 ?us = Some t2"
    "\<exists>found k. query t2 [] ?q = ([] @ found, k)
       \<and> {p. p < length ?boxes \<and> overlap (moved ?us (nth ?boxes) p) ?q} \<subseteq> set found"
    using AABBTree_lifecycle [of ?boxes ?us AABBTree_new] by force
  have "1 \<in> {p. p < length ?boxes \<and> overlap (moved ?us (nth ?boxes) p) ?q}"
    by (simp add: overlap_def AABB_sphere_def)
  then have "1 \<in> set (fst (query t2 [] ?q))" using t(3) by auto
  then show ?thesis using t by blast
qed

text \<open>C20: the stackless loop of \<open>query\<close> is exact: skipping a node whose box does not overlap jumps over
  its whole subtree and nothing else, so the particles found are those of the leaves whose box
  overlaps, no more and no fewer.\<close>

theorem query_exact:
  assumes "represents t f N"
  shows "\<exists>found k. query t hits q = (hits @ found, k) \<and> k \<le> getNumNodes t \<and> distinct found
    \<and> set found = {p. p < N \<and> overlap (getNodeAABB t (m_mapping t ! p)) q}"
  by (rule query_result [OF assms])

theorem query_exact_witness:
  "\<exists>t found k. buildTree AABBTree_new [AABB_sphere (Vec3 0 0 0) 1] = Some t
    \<and> query t [7] (AABB_sphere (Vec3 9 0 0) 1) = ([7] @ found, k)
    \<and> set found = {p. p < 1 \<and> overlap (getNodeAABB t (m_mapping t ! p)) (AABB_sphere (Vec3 9 0 0) 1)}"
  using buildTree_correct [of "[AABB_sphere (Vec3 0 0 0) 1]" AABBTree_new] query_exact [of _ _ 1 "[7]"] by fastforce

text \<open>\<open>height\<close> returns for every particle of a tree: following the parent links from its leaf
  ends at the root, after at most one step per node. A particle index out of range is
  rejected.\<close>

theorem height_returns:
  assumes "represents t f N"
  shows "(p < N \<longrightarrow> (\<exists>h. height t p = Some h \<and> 1 \<le> h \<and> h \<le> getNumNodes t)) \<and> (N \<le> p \<longrightarrow> height t p = None)"
proof -
  obtain s where s: "laid_tree t s N" using assms by (auto simp: represents_def)
  note N = laid_treeD(5) [OF s]
  have "\<exists>h. height t p = Some h \<and> 1 \<le> h \<and> h \<le> getNumNodes t" if "p < N"
  proof -
    let ?n = "m_mapping t ! p"
    let ?c = "parent (m_nodes t ! ?n)"
    have n: "?n < length (m_nodes t)" using mapped_leaf(1) [OF s, of p] N that by simp
    have c: "?c = INVALID_NODE \<or> ?c < ?n" using parent_less [OF s n] by blast
    obtain d where d: "height_loop t ?c 1 = Some (1 + d)" "d \<le> (if ?c = INVALID_NODE then 0 else ?c + 1)"
      using height_loop_returns [OF s, of ?c 1] c n by fastforce
    have "height t p = Some (1 + d)"
      using d(1) N that n laid_treeD(3,4) [OF s] by (simp add: height_def Let_def)
    moreover have "1 + d \<le> getNumNodes t" using d(2) c n by (auto simp: getNumNodes_def split: if_splits)
    ultimately show ?thesis by auto
  qed
  then show ?thesis using N by (simp add: height_def)
qed

theorem height_returns_witness:
  "\<exists>t h. buildTree AABBTree_new [AABB_sphere (Vec3 0 0 0) 1] = Some t \<and> height t 0 = Some h \<and> height t 1 = None"
  using buildTree_correct [of "[AABB_sphere (Vec3 0 0 0) 1]" AABBTree_new] height_returns [of _ _ 1] by fastforce

end
