(* ===== verification/GPU_Array.thy ===== *)
theory GPU_Array
  imports Hoomd_Prelude
begin

text \<open>
  The mirrored arrays of \<open>data_structures/GPUArray.h\<close>, built with CUDA: one array kept in host and
  device memory, of which \<open>aquire\<close> hands out one side at a time and copies the data over when the
  side asked for is out of date.

  Memory is a list of elements per side. The allocators and the CUDA copy and clear calls are not
  part of the sources: they are the parameter \<open>api\<close>, and \<open>api_ok\<close> names what their documentation
  promises. Sizes are natural numbers; the two products and sums on \<open>unsigned int\<close> are reduced
  modulo \<open>2\<^sup>3\<^sup>2\<close>. Messages and CUDA error checks have no effect on the state and are left out, and
  an asynchronous copy is taken at the moment it is issued.
\<close>

section \<open>Memory interface\<close>

record 'a memory_api =
  sizeof_T :: nat
  posix_memalign :: "nat \<Rightarrow> 'a list"
  cudaMalloc :: "nat \<Rightarrow> 'a list"
  cudaMemset0 :: "'a list \<Rightarrow> nat \<Rightarrow> nat \<Rightarrow> 'a list"
  cudaMemcpy :: "'a list \<Rightarrow> nat \<Rightarrow> 'a list \<Rightarrow> nat \<Rightarrow> nat \<Rightarrow> 'a list"

text \<open>Memory is asked for and cleared in elements of \<open>sizeof_T\<close> bytes. Fresh memory has the size asked for and unspecified contents; \<open>cudaMemset\<close> and \<open>cudaMemcpy\<close> act
  as their host counterparts within the bounds of the buffers.\<close>

definition api_ok :: "'a::zero memory_api \<Rightarrow> bool" where
  "api_ok api \<longleftrightarrow> 0 < sizeof_T api \<and> (\<forall>n. length (posix_memalign api n) = n) \<and> (\<forall>n. length (cudaMalloc api n) = n)
     \<and> (\<forall>buf i n. i + n \<le> length buf \<longrightarrow> cudaMemset0 api buf i n = memset0 buf i n)
     \<and> (\<forall>dst i src j n. i + n \<le> length dst \<longrightarrow> j + n \<le> length src
          \<longrightarrow> cudaMemcpy api dst i src j n = memcpy dst i src j n)"

record ExecConf =
  isCUDAEnabled :: bool
  canMapHostMemory :: bool

section \<open>The array\<close>

datatype access_location = ALhost | ALdevice

datatype data_location = DLhost | DLdevice | DLhostdevice

datatype access_mode = read | readwrite | overwrite

text \<open>The device pointer is null, an own allocation, or the mapped host memory.\<close>

datatype 'a devptr = DNull | DMapped | DMem (dmem: "'a list")

record 'a GPUArray =
  m_num_elements :: nat
  m_pitch :: nat
  m_height :: nat
  m_acquired :: bool
  m_data_location :: data_location
  m_mapped :: bool
  d_data :: "'a devptr"
  h_data :: "'a list option"
  m_exec_conf :: "ExecConf option"

definition cuda_on :: "'a GPUArray \<Rightarrow> bool" where
  "cuda_on a = (case m_exec_conf a of None \<Rightarrow> False | Some e \<Rightarrow> isCUDAEnabled e)"

definition GPUArray_null :: "'a GPUArray" where
  "GPUArray_null = \<lparr>m_num_elements = 0, m_pitch = 0, m_height = 0, m_acquired = False,
     m_data_location = DLhost, m_mapped = False, d_data = DNull, h_data = None, m_exec_conf = None\<rparr>"

definition getNumElements :: "'a GPUArray \<Rightarrow> nat" where
  "getNumElements a = m_num_elements a"

definition isNull :: "'a GPUArray \<Rightarrow> bool" where
  "isNull a \<longleftrightarrow> h_data a = None"

definition getPitch :: "'a GPUArray \<Rightarrow> nat" where
  "getPitch a = m_pitch a"

definition getHeight :: "'a GPUArray \<Rightarrow> nat" where
  "getHeight a = m_height a"

definition release :: "'a GPUArray \<Rightarrow> 'a GPUArray" where
  "release a = a\<lparr>m_acquired := False\<rparr>"

definition allocate :: "'a memory_api \<Rightarrow> 'a GPUArray \<Rightarrow> 'a GPUArray result" where
  "allocate api a =
     (if m_num_elements a = 0 then Inr a
      else if m_mapped a \<and> (case m_exec_conf a of None \<Rightarrow> False | Some e \<Rightarrow> \<not> canMapHostMemory e)
      then Inl Runtime_error
      else bindr (check (h_data a = None) Assertion_failed) (\<lambda>_.
        let a = a\<lparr>h_data := Some (posix_memalign api (m_num_elements a))\<rparr>
        in bindr (check (d_data a = DNull) Assertion_failed) (\<lambda>_.
          Inr (if cuda_on a
               then if m_mapped a then a\<lparr>d_data := DMapped\<rparr>
                    else a\<lparr>d_data := DMem (cudaMalloc api (m_num_elements a))\<rparr>
               else a))))"

definition deallocate :: "'a GPUArray \<Rightarrow> 'a GPUArray result" where
  "deallocate a =
     (if m_num_elements a = 0 then Inr a
      else bindr (check (\<not> m_acquired a) Assertion_failed) (\<lambda>_.
        bindr (check (h_data a \<noteq> None) Assertion_failed) (\<lambda>_.
        bindr (check (cuda_on a \<longrightarrow> d_data a \<noteq> DNull) Assertion_failed) (\<lambda>_.
          Inr (a\<lparr>h_data := None, d_data := DNull\<rparr>)))))"

definition memclear :: "'a::zero memory_api \<Rightarrow> nat \<Rightarrow> 'a GPUArray \<Rightarrow> 'a GPUArray result" where
  "memclear api first a =
     (if m_num_elements a = 0 then Inr a
      else case h_data a of None \<Rightarrow> Inl Assertion_failed
      | Some h \<Rightarrow> bindr (check (first < m_num_elements a) Assertion_failed) (\<lambda>_.
          let a = a\<lparr>h_data := Some (memset0 h first (m_num_elements a - first))\<rparr>
          in if cuda_on a then
               bindr (check (d_data a \<noteq> DNull) Assertion_failed) (\<lambda>_.
                 Inr (if \<not> m_mapped a
                      then a\<lparr>d_data := DMem (cudaMemset0 api (dmem (d_data a)) first (m_num_elements a - first))\<rparr>
                      else a))
             else Inr a))"

text \<open>\<open>(width + (16 - (width & 15)))\<close> on \<open>unsigned int\<close>.\<close>

definition padded_pitch :: "nat \<Rightarrow> nat" where
  "padded_pitch width = (width + (16 - width mod 16)) mod 2 ^ 32"

text \<open>The constructors without the argument \<open>mapped\<close> are those with \<open>mapped = False\<close>.\<close>

definition GPUArray_1d :: "'a::zero memory_api \<Rightarrow> nat \<Rightarrow> ExecConf option \<Rightarrow> bool \<Rightarrow> 'a GPUArray result" where
  "GPUArray_1d api num_elements exec_conf mapped =
     bindr (allocate api \<lparr>m_num_elements = num_elements, m_pitch = num_elements, m_height = 1,
       m_acquired = False, m_data_location = DLhost, m_mapped = mapped, d_data = DNull, h_data = None,
       m_exec_conf = exec_conf\<rparr>) (memclear api 0)"

definition GPUArray_2d :: "'a::zero memory_api \<Rightarrow> nat \<Rightarrow> nat \<Rightarrow> ExecConf option \<Rightarrow> bool \<Rightarrow> 'a GPUArray result" where
  "GPUArray_2d api width height exec_conf mapped =
     (let pitch = padded_pitch width
      in bindr (allocate api \<lparr>m_num_elements = (pitch * height) mod 2 ^ 32, m_pitch = pitch, m_height = height,
           m_acquired = False, m_data_location = DLhost, m_mapped = mapped, d_data = DNull, h_data = None,
           m_exec_conf = exec_conf\<rparr>) (memclear api 0))"

section \<open>Acquiring the data\<close>

definition memcpyDeviceToHost :: "'a memory_api \<Rightarrow> 'a GPUArray \<Rightarrow> 'a GPUArray" where
  "memcpyDeviceToHost api a =
     (if m_num_elements a = 0 then a
      else if m_mapped a then a
      else a\<lparr>h_data := map_option (\<lambda>h. cudaMemcpy api h 0 (dmem (d_data a)) 0 (m_num_elements a)) (h_data a)\<rparr>)"

definition memcpyHostToDevice :: "'a memory_api \<Rightarrow> 'a GPUArray \<Rightarrow> 'a GPUArray" where
  "memcpyHostToDevice api a =
     (if m_num_elements a = 0 then a
      else if m_mapped a then a
      else a\<lparr>d_data := DMem (cudaMemcpy api (dmem (d_data a)) 0 (the (h_data a)) 0 (m_num_elements a))\<rparr>)"

text \<open>The pointer handed out.\<close>

datatype ptr = PNull | PHost | PDevice

definition aquire :: "'a memory_api \<Rightarrow> access_location \<Rightarrow> access_mode \<Rightarrow> 'a GPUArray \<Rightarrow> ('a GPUArray \<times> ptr) result" where
  "aquire api location mode a =
     bindr (check (\<not> m_acquired a) Assertion_failed) (\<lambda>_.
      let a = a\<lparr>m_acquired := True\<rparr> in
      if isNull a then Inr (a, PNull)
      else case location of
        ALhost \<Rightarrow>
          (case m_data_location a of
             DLhost \<Rightarrow> Inr (a, PHost)
           | DLhostdevice \<Rightarrow>
               (case mode of read \<Rightarrow> Inr (a\<lparr>m_data_location := DLhostdevice\<rparr>, PHost)
                | readwrite \<Rightarrow> Inr (a\<lparr>m_data_location := DLhost\<rparr>, PHost)
                | overwrite \<Rightarrow> Inr (a\<lparr>m_data_location := DLhost\<rparr>, PHost))
           | DLdevice \<Rightarrow>
               (case mode of read \<Rightarrow> Inr ((memcpyDeviceToHost api a)\<lparr>m_data_location := DLhostdevice\<rparr>, PHost)
                | readwrite \<Rightarrow> Inr ((memcpyDeviceToHost api a)\<lparr>m_data_location := DLhost\<rparr>, PHost)
                | overwrite \<Rightarrow> Inr (a\<lparr>m_data_location := DLhost\<rparr>, PHost)))
      | ALdevice \<Rightarrow>
          if m_exec_conf a = None then Inl Runtime_error
          else if \<not> isCUDAEnabled (the (m_exec_conf a)) then Inl Runtime_error
          else (case m_data_location a of
             DLhost \<Rightarrow>
               (case mode of read \<Rightarrow> Inr ((memcpyHostToDevice api a)\<lparr>m_data_location := DLhostdevice\<rparr>, PDevice)
                | readwrite \<Rightarrow> Inr ((memcpyHostToDevice api a)\<lparr>m_data_location := DLdevice\<rparr>, PDevice)
                | overwrite \<Rightarrow> Inr (a\<lparr>m_data_location := DLdevice\<rparr>, PDevice))
           | DLhostdevice \<Rightarrow>
               (case mode of read \<Rightarrow> Inr (a\<lparr>m_data_location := DLhostdevice\<rparr>, PDevice)
                | readwrite \<Rightarrow> Inr (a\<lparr>m_data_location := DLdevice\<rparr>, PDevice)
                | overwrite \<Rightarrow> Inr (a\<lparr>m_data_location := DLdevice\<rparr>, PDevice))
           | DLdevice \<Rightarrow> Inr (a, PDevice)))"

text \<open>\<open>ArrayHandle\<close>: the constructor acquires, the destructor asserts that the array is still
  acquired and releases it.\<close>

definition ArrayHandle_open :: "'a memory_api \<Rightarrow> 'a GPUArray \<Rightarrow> access_location \<Rightarrow> access_mode \<Rightarrow> ('a GPUArray \<times> ptr) result" where
  "ArrayHandle_open api a location mode = aquire api location mode a"

definition ArrayHandle_close :: "'a GPUArray \<Rightarrow> 'a GPUArray result" where
  "ArrayHandle_close a = bindr (check (m_acquired a) Assertion_failed) (\<lambda>_. Inr (a\<lparr>m_acquired := False\<rparr>))"

text \<open>What a client reads through the pointer it holds, and the effect of writing there.\<close>

definition deref :: "'a GPUArray \<Rightarrow> ptr \<Rightarrow> 'a list" where
  "deref a p = (case p of PNull \<Rightarrow> [] | PHost \<Rightarrow> the (h_data a)
     | PDevice \<Rightarrow> (case d_data a of DMem d \<Rightarrow> d | _ \<Rightarrow> the (h_data a)))"

definition store :: "'a GPUArray \<Rightarrow> ptr \<Rightarrow> 'a list \<Rightarrow> 'a GPUArray" where
  "store a p xs = (case p of PNull \<Rightarrow> a | PHost \<Rightarrow> a\<lparr>h_data := Some xs\<rparr>
     | PDevice \<Rightarrow> (case d_data a of DMem d \<Rightarrow> a\<lparr>d_data := DMem xs\<rparr> | _ \<Rightarrow> a\<lparr>h_data := Some xs\<rparr>))"

section \<open>Copies\<close>

text \<open>The copy constructor and the assignment read the source through a handle, so the source changes
  too: its data may move to the host.\<close>

definition copy_data :: "'a memory_api \<Rightarrow> 'a GPUArray \<Rightarrow> 'a GPUArray \<Rightarrow> ('a GPUArray \<times> 'a GPUArray) result" where
  "copy_data api a from =
     (if m_num_elements a > 0 then
        bindr (ArrayHandle_open api from ALhost read) (\<lambda>(from, p).
          let a = a\<lparr>h_data := map_option (\<lambda>h. memcpy h 0 (deref from p) 0 (m_num_elements a)) (h_data a)\<rparr>
          in bindr (ArrayHandle_close from) (\<lambda>from. Inr (a, from)))
      else Inr (a, from))"

definition GPUArray_copy :: "'a::zero memory_api \<Rightarrow> 'a GPUArray \<Rightarrow> ('a GPUArray \<times> 'a GPUArray) result" where
  "GPUArray_copy api from =
     bindr (allocate api \<lparr>m_num_elements = m_num_elements from, m_pitch = m_pitch from, m_height = m_height from,
         m_acquired = False, m_data_location = DLhost, m_mapped = m_mapped from, d_data = DNull, h_data = None,
         m_exec_conf = m_exec_conf from\<rparr>) (\<lambda>a.
       bindr (memclear api 0 a) (\<lambda>a. copy_data api a from))"

text \<open>Assignment between two distinct arrays; assigning an array to itself does nothing.\<close>

definition GPUArray_assign :: "'a::zero memory_api \<Rightarrow> 'a GPUArray \<Rightarrow> 'a GPUArray \<Rightarrow> ('a GPUArray \<times> 'a GPUArray) result" where
  "GPUArray_assign api a rhs =
     bindr (check (\<not> m_acquired a \<and> \<not> m_acquired rhs) Assertion_failed) (\<lambda>_.
      bindr (deallocate a) (\<lambda>a.
      bindr (allocate api (a\<lparr>m_num_elements := m_num_elements rhs, m_pitch := m_pitch rhs, m_height := m_height rhs,
               m_exec_conf := m_exec_conf rhs, m_mapped := m_mapped rhs, m_data_location := DLhost\<rparr>)) (\<lambda>a.
      bindr (memclear api 0 a) (\<lambda>a. copy_data api a rhs))))"

definition GPUArray_swap :: "'a GPUArray \<Rightarrow> 'a GPUArray \<Rightarrow> ('a GPUArray \<times> 'a GPUArray) result" where
  "GPUArray_swap a from =
     bindr (check (\<not> m_acquired a \<and> \<not> m_acquired from) Assertion_failed) (\<lambda>_.
       Inr (a\<lparr>m_num_elements := m_num_elements from, m_pitch := m_pitch from, m_height := m_height from,
              m_acquired := m_acquired from, m_data_location := m_data_location from,
              m_exec_conf := m_exec_conf from, d_data := d_data from, m_mapped := m_mapped from,
              h_data := h_data from\<rparr>,
            from\<lparr>m_num_elements := m_num_elements a, m_pitch := m_pitch a, m_height := m_height a,
              m_acquired := m_acquired a, m_data_location := m_data_location a,
              m_exec_conf := m_exec_conf a, d_data := d_data a, m_mapped := m_mapped a,
              h_data := h_data a\<rparr>))"

section \<open>Resizing\<close>

definition resizeHostArray :: "'a::zero memory_api \<Rightarrow> nat \<Rightarrow> 'a GPUArray \<Rightarrow> 'a GPUArray" where
  "resizeHostArray api num_elements a =
     (case h_data a of None \<Rightarrow> a
      | Some h \<Rightarrow>
          let h_tmp = memset0 (posix_memalign api num_elements) 0 num_elements;
              num_copy_elements = (if m_num_elements a > num_elements then num_elements else m_num_elements a);
              a = a\<lparr>h_data := Some (memcpy h_tmp 0 h 0 num_copy_elements)\<rparr>
          in if m_mapped a then a\<lparr>d_data := DMapped\<rparr> else a)"

definition copy_rows :: "('a list \<Rightarrow> nat \<Rightarrow> 'a list \<Rightarrow> nat \<Rightarrow> nat \<Rightarrow> 'a list) \<Rightarrow> nat \<Rightarrow> nat \<Rightarrow> nat \<Rightarrow> nat
    \<Rightarrow> 'a list \<Rightarrow> 'a list \<Rightarrow> 'a list" where
  "copy_rows cpy pitch new_pitch height new_height old tmp =
     (let num_copy_rows = (if height > new_height then new_height else height);
          num_copy_columns = (if pitch > new_pitch then new_pitch else pitch)
      in fold (\<lambda>i tmp. cpy tmp (i * new_pitch) old (i * pitch) num_copy_columns) [0..<num_copy_rows] tmp)"

text \<open>The host buffer is allocated with a number of bytes kept in \<open>unsigned int\<close>, but cleared in full; the device
  buffer with a product of elements reduced to 32 bits. The theorems require that nothing is lost.\<close>

definition resize2DHostArray :: "'a::zero memory_api \<Rightarrow> nat \<Rightarrow> nat \<Rightarrow> nat \<Rightarrow> nat \<Rightarrow> 'a GPUArray \<Rightarrow> 'a GPUArray" where
  "resize2DHostArray api pitch new_pitch height new_height a =
     (let room = ((new_pitch * new_height * sizeof_T api) mod 2 ^ 32) div sizeof_T api;
          h_tmp = memset0 (posix_memalign api room) 0 (new_pitch * new_height);
          a = a\<lparr>h_data := Some (copy_rows memcpy pitch new_pitch height new_height (the (h_data a)) h_tmp)\<rparr>
      in if m_mapped a then a\<lparr>d_data := DMapped\<rparr> else a)"

definition resizeDeviceArray :: "'a memory_api \<Rightarrow> nat \<Rightarrow> 'a GPUArray \<Rightarrow> 'a GPUArray" where
  "resizeDeviceArray api num_elements a =
     (if m_mapped a then a
      else let d_tmp = cudaMemset0 api (cudaMalloc api num_elements) 0 num_elements;
               num_copy_elements = (if m_num_elements a > num_elements then num_elements else m_num_elements a)
           in a\<lparr>d_data := DMem (cudaMemcpy api d_tmp 0 (dmem (d_data a)) 0 num_copy_elements)\<rparr>)"

definition resize2DDeviceArray :: "'a memory_api \<Rightarrow> nat \<Rightarrow> nat \<Rightarrow> nat \<Rightarrow> nat \<Rightarrow> 'a GPUArray \<Rightarrow> 'a GPUArray" where
  "resize2DDeviceArray api pitch new_pitch height new_height a =
     (if m_mapped a then a
      else let size = (new_pitch * new_height) mod 2 ^ 32;
               d_tmp = cudaMemset0 api (cudaMalloc api size) 0 size
           in a\<lparr>d_data := DMem (copy_rows (cudaMemcpy api) pitch new_pitch height new_height (dmem (d_data a)) d_tmp)\<rparr>)"

definition GPUArray_resize :: "'a::zero memory_api \<Rightarrow> nat \<Rightarrow> 'a GPUArray \<Rightarrow> 'a GPUArray result" where
  "GPUArray_resize api num_elements a =
     bindr (check (\<not> m_acquired a) Assertion_failed) (\<lambda>_.
      bindr (check (num_elements > 0) Assertion_failed) (\<lambda>_.
       if isNull a then allocate api (a\<lparr>m_num_elements := num_elements\<rparr>)
       else let a = resizeHostArray api num_elements a;
                a = (if cuda_on a then resizeDeviceArray api num_elements a else a)
            in Inr (a\<lparr>m_num_elements := num_elements, m_pitch := num_elements\<rparr>)))"

definition GPUArray_resize2D :: "'a::zero memory_api \<Rightarrow> nat \<Rightarrow> nat \<Rightarrow> 'a GPUArray \<Rightarrow> 'a GPUArray result" where
  "GPUArray_resize2D api width height a =
     bindr (check (\<not> m_acquired a) Assertion_failed) (\<lambda>_.
      let new_pitch = padded_pitch width;
          num_elements = (new_pitch * height) mod 2 ^ 32
      in bindr (check (num_elements > 0) Assertion_failed) (\<lambda>_.
         if isNull a then
           bindr (allocate api (a\<lparr>m_num_elements := num_elements\<rparr>)) (\<lambda>a.
             Inr (a\<lparr>m_pitch := new_pitch, m_height := height\<rparr>))
         else let a1 = resize2DHostArray api (m_pitch a) new_pitch (m_height a) height a;
                  a2 = (if cuda_on a1 then resize2DDeviceArray api (m_pitch a1) new_pitch (m_height a1) height a1 else a1)
              in Inr (a2\<lparr>m_num_elements := (new_pitch * height) mod 2 ^ 32, m_height := height, m_pitch := new_pitch\<rparr>)))"

section \<open>Invariant and contents\<close>

text \<open>A null array has no elements. Otherwise the host side is allocated; with CUDA the device side is
  either the mapped host memory or an own allocation of the same size, equal to the host side when
  the data is marked current on both.\<close>

definition gpu_ok :: "'a GPUArray \<Rightarrow> bool" where
  "gpu_ok a = (case h_data a of
     None \<Rightarrow> m_num_elements a = 0 \<and> d_data a = DNull \<and> m_data_location a = DLhost
   | Some h \<Rightarrow> 0 < m_num_elements a \<and> length h = m_num_elements a
       \<and> (if cuda_on a
          then if m_mapped a then d_data a = DMapped
               else \<exists>d. d_data a = DMem d \<and> length d = m_num_elements a
                      \<and> (m_data_location a = DLhostdevice \<longrightarrow> d = h)
          else d_data a = DNull \<and> m_data_location a = DLhost \<and> \<not> m_mapped a))"

text \<open>The array as its clients see it: the side that is current.\<close>

definition contents :: "'a GPUArray \<Rightarrow> 'a list" where
  "contents a = (case h_data a of None \<Rightarrow> []
     | Some h \<Rightarrow> if m_data_location a = DLdevice then case d_data a of DMem d \<Rightarrow> d | _ \<Rightarrow> h else h)"

lemma api_okD:
  assumes "api_ok api"
  shows "length (posix_memalign api n) = n" "length (cudaMalloc api n) = n"
    "i + n \<le> length buf \<Longrightarrow> cudaMemset0 api buf i n = memset0 buf i n"
    "i + n \<le> length dst \<Longrightarrow> j + n \<le> length src \<Longrightarrow> cudaMemcpy api dst i src j n = memcpy dst i src j n"
    "0 < sizeof_T api"
  using assms by (auto simp: api_ok_def)

lemma cuda_on_acquired [simp]: "cuda_on (a\<lparr>m_acquired := b\<rparr>) = cuda_on a"
  by (simp add: cuda_on_def)

lemma acquired_frame [simp]:
  "gpu_ok (a\<lparr>m_acquired := b\<rparr>) = gpu_ok a"
  "contents (a\<lparr>m_acquired := b\<rparr>) = contents a" "isNull (a\<lparr>m_acquired := b\<rparr>) = isNull a"
  by (cases "h_data a"; simp add: gpu_ok_def contents_def isNull_def)+

lemma length_contents: "gpu_ok a \<Longrightarrow> length (contents a) = m_num_elements a"
  by (auto simp: gpu_ok_def contents_def split: option.splits if_splits devptr.splits)

lemma contents_null: "gpu_ok a \<Longrightarrow> isNull a \<longleftrightarrow> contents a = []"
  using length_contents [of a] by (auto simp: gpu_ok_def isNull_def contents_def split: option.splits)

lemmas gpu_splits = option.splits access_location.splits data_location.splits access_mode.splits
  devptr.splits ptr.splits if_splits

lemmas gpu_defs = gpu_ok_def contents_def isNull_def cuda_on_def Let_def

text \<open>What \<open>aquire\<close> promises: the pointer it returns shows the contents, which it keeps unless they
  are to be overwritten; after an acquisition for writing the side of the pointer is the current one.\<close>

definition acquired_ok :: "access_mode \<Rightarrow> 'a GPUArray \<Rightarrow> 'a GPUArray \<Rightarrow> ptr \<Rightarrow> bool" where
  "acquired_ok mode a a' p \<longleftrightarrow> gpu_ok a' \<and> m_acquired a' \<and> m_num_elements a' = m_num_elements a
     \<and> deref a' p = contents a' \<and> (mode \<noteq> overwrite \<longrightarrow> contents a' = contents a) \<and> (p = PNull \<longleftrightarrow> isNull a)
     \<and> isNull a' = isNull a \<and> m_mapped a' = m_mapped a \<and> m_exec_conf a' = m_exec_conf a
     \<and> (mode \<noteq> read \<longrightarrow> m_data_location a' = (if p = PDevice then DLdevice else DLhost))"

lemmas aquire_unfold = aquire_def Let_def isNull_def acquired_ok_def gpu_ok_def cuda_on_def contents_def deref_def
  memcpyDeviceToHost_def memcpyHostToDevice_def

lemma aquire_null:
  assumes "gpu_ok a" "\<not> m_acquired a" "isNull a"
  shows "\<exists>a' p. aquire api loc mode a = Inr (a', p) \<and> acquired_ok mode a a' p"
  using assms by (auto simp: aquire_unfold)

lemma aquire_host_only:
  assumes "gpu_ok a" "\<not> m_acquired a" "\<not> isNull a" "\<not> cuda_on a"
  shows "if loc = ALdevice then aquire api loc mode a = Inl Runtime_error
    else \<exists>a' p. aquire api loc mode a = Inr (a', p) \<and> acquired_ok mode a a' p"
proof -
  obtain h where h: "h_data a = Some h" using assms(3) by (auto simp: isNull_def)
  then have "d_data a = DNull" "m_data_location a = DLhost" "\<not> m_mapped a" "length h = m_num_elements a"
    "0 < m_num_elements a"
    using assms(1,4) by (simp_all add: gpu_ok_def)
  then show ?thesis using h assms(2,4) by (cases loc; cases "m_exec_conf a") (simp_all add: aquire_unfold)
qed

lemma aquire_mapped:
  assumes "gpu_ok a" "\<not> m_acquired a" "h_data a = Some h" "m_exec_conf a = Some e" "isCUDAEnabled e" "m_mapped a"
  shows "\<exists>a' p. aquire api loc mode a = Inr (a', p) \<and> acquired_ok mode a a' p"
proof -
  have "d_data a = DMapped" "length h = m_num_elements a" "0 < m_num_elements a"
    using assms by (simp_all add: gpu_ok_def cuda_on_def)
  then show ?thesis using assms(2-)
    by (cases loc; cases mode; cases "m_data_location a") (simp_all add: aquire_unfold)
qed

lemma aquire_mirrored:
  assumes "api_ok api" "gpu_ok a" "\<not> m_acquired a" "h_data a = Some h" "m_exec_conf a = Some e" "isCUDAEnabled e"
    "\<not> m_mapped a"
  shows "\<exists>a' p. aquire api loc mode a = Inr (a', p) \<and> acquired_ok mode a a' p"
proof -
  obtain d where d: "d_data a = DMem d" "length d = m_num_elements a" "length h = m_num_elements a"
    "0 < m_num_elements a" "m_data_location a = DLhostdevice \<Longrightarrow> d = h"
    using assms by (auto simp: gpu_ok_def cuda_on_def)
  have cp: "cudaMemcpy api h 0 d 0 (m_num_elements a) = d" "cudaMemcpy api d 0 h 0 (m_num_elements a) = h"
    using d by (simp_all add: api_okD(4) [OF assms(1)])
  show ?thesis using assms(3-) d cp
    by (cases loc; cases mode; cases "m_data_location a") (simp_all add: aquire_unfold)
qed

text \<open>All cases together: acquiring fails exactly when the array is already acquired or when the device
  side of an allocated array is asked for and there is no GPU.\<close>

lemma aquire_acquired: "m_acquired a \<Longrightarrow> aquire api loc mode a = Inl Assertion_failed"
  by (simp add: aquire_def)

abbreviation no_device :: "access_location \<Rightarrow> 'a GPUArray \<Rightarrow> bool" where
  "no_device loc a \<equiv> loc = ALdevice \<and> \<not> isNull a \<and> \<not> cuda_on a"

lemma aquire_succeeds:
  assumes "api_ok api" "gpu_ok a" and na: "\<not> m_acquired a" and g: "\<not> no_device loc a"
  shows "\<exists>a' p. aquire api loc mode a = Inr (a', p) \<and> acquired_ok mode a a' p"
proof (cases "isNull a")
  case True
  then show ?thesis by (rule aquire_null [OF assms(2) na])
next
  case False
  then obtain h where h: "h_data a = Some h" by (auto simp: isNull_def)
  show ?thesis
  proof (cases "cuda_on a")
    case True
    then obtain e where "m_exec_conf a = Some e" "isCUDAEnabled e" by (auto simp: cuda_on_def split: option.splits)
    then show ?thesis
      using aquire_mapped [OF assms(2) na h] aquire_mirrored [OF assms(1,2) na h] by (cases "m_mapped a") blast+
  next
    case no: False
    then show ?thesis using aquire_host_only [OF assms(2) na False no, of loc api mode] g False by (simp split: if_splits)
  qed
qed

lemma aquire_correct:
  assumes "api_ok api" "gpu_ok a" "aquire api loc mode a = Inr (a', p)"
  shows "acquired_ok mode a a' p" "\<not> m_acquired a"
proof -
  show na: "\<not> m_acquired a" using assms(3) aquire_acquired by (metis Inl_not_Inr)
  have "\<not> no_device loc a"
  proof
    assume "no_device loc a"
    then show False using aquire_host_only [OF assms(2) na, of loc api mode] assms(3) by simp
  qed
  from aquire_succeeds [OF assms(1,2) na this, of mode] assms(3)
  show "acquired_ok mode a a' p" by auto
qed

text \<open>A writable pointer: its side is the current one.\<close>

definition writable :: "'a GPUArray \<Rightarrow> ptr \<Rightarrow> bool" where
  "writable a p \<longleftrightarrow> gpu_ok a \<and> \<not> isNull a \<and> deref a p = contents a
     \<and> (p = PHost \<and> m_data_location a = DLhost \<or> p = PDevice \<and> m_data_location a = DLdevice)"

lemma acquired_writable: "acquired_ok mode a a' p \<Longrightarrow> mode \<noteq> read \<Longrightarrow> p \<noteq> PNull \<Longrightarrow> writable a' p"
  by (cases p) (auto simp: acquired_ok_def writable_def)

lemma store_correct:
  assumes "writable a p" "length xs = m_num_elements a"
  shows "writable (store a p xs) p" "contents (store a p xs) = xs"
    "m_acquired (store a p xs) = m_acquired a" "m_num_elements (store a p xs) = m_num_elements a"
proof -
  obtain h where h: "h_data a = Some h" using assms(1) by (auto simp: writable_def isNull_def)
  have ok: "gpu_ok a" and side: "p = PHost \<and> m_data_location a = DLhost \<or> p = PDevice \<and> m_data_location a = DLdevice"
    using assms(1) by (simp_all add: writable_def)
  consider (host) "p = PHost" "m_data_location a = DLhost" | (mapped) "p = PDevice" "m_data_location a = DLdevice" "d_data a = DMapped"
    | (device) d where "p = PDevice" "m_data_location a = DLdevice" "d_data a = DMem d"
    using side ok h by (auto simp: gpu_ok_def split: if_splits)
  then have "writable (store a p xs) p \<and> contents (store a p xs) = xs
    \<and> m_acquired (store a p xs) = m_acquired a \<and> m_num_elements (store a p xs) = m_num_elements a"
    using h ok assms(2)
    by cases (simp_all add: writable_def store_def gpu_ok_def contents_def deref_def cuda_on_def isNull_def
        split: if_splits option.splits)
  then show "writable (store a p xs) p" "contents (store a p xs) = xs"
    "m_acquired (store a p xs) = m_acquired a" "m_num_elements (store a p xs) = m_num_elements a" by simp_all
qed

section \<open>Resizing\<close>

lemma resize_copy:
  assumes "length old = n" "length buf = m"
  shows "memcpy (memset0 buf 0 m) 0 old 0 (if n > m then m else n) = take m old @ replicate (m - n) (0::'a::zero)"
  using assms by (simp add: memset0_all memcpy_def)

abbreviation resized :: "nat \<Rightarrow> 'a::zero list \<Rightarrow> 'a list" where
  "resized n xs \<equiv> take n xs @ replicate (n - length xs) 0"

lemma resizeHost_data:
  assumes "api_ok api" "h_data a = Some h" "length h = m_num_elements a"
  shows "resizeHostArray api n a =
    a\<lparr>h_data := Some (resized n h), d_data := if m_mapped a then DMapped else d_data a\<rparr>"
  using assms resize_copy [of h "m_num_elements a" "posix_memalign api n" n]
  by (simp add: resizeHostArray_def Let_def api_okD)

lemma resizeDevice_data:
  assumes "api_ok api" "\<not> m_mapped a" "d_data a = DMem d" "length d = m_num_elements a"
  shows "resizeDeviceArray api n a = a\<lparr>d_data := DMem (resized n d)\<rparr>"
  using assms resize_copy [of d "m_num_elements a" "cudaMalloc api n" n]
  by (simp add: resizeDeviceArray_def Let_def api_okD)

lemma resize_correct:
  assumes "api_ok api" "gpu_ok a" "\<not> isNull a" "\<not> m_acquired a" "0 < n"
  shows "\<exists>a'. GPUArray_resize api n a = Inr a' \<and> gpu_ok a' \<and> contents a' = resized n (contents a)
    \<and> m_num_elements a' = n \<and> \<not> m_acquired a' \<and> m_mapped a' = m_mapped a \<and> m_exec_conf a' = m_exec_conf a"
proof -
  obtain h where h: "h_data a = Some h" "length h = m_num_elements a" using assms(2,3) by (auto simp: gpu_ok_def isNull_def)
  note host = resizeHost_data [OF assms(1) h]
  consider (off) "\<not> cuda_on a" "d_data a = DNull" "m_data_location a = DLhost" "\<not> m_mapped a"
    | (mapped) "cuda_on a" "m_mapped a" "d_data a = DMapped"
    | (on) d where "cuda_on a" "\<not> m_mapped a" "d_data a = DMem d" "length d = m_num_elements a"
      "m_data_location a = DLhostdevice \<longrightarrow> d = h"
    using assms(2) h by (auto simp: gpu_ok_def split: if_splits)
  then show ?thesis
  proof cases
    case off
    then show ?thesis using h host assms
      by (simp add: GPUArray_resize_def isNull_def Let_def cuda_on_def gpu_ok_def contents_def)
  next
    case mapped
    then show ?thesis using h host assms
      by (simp add: GPUArray_resize_def isNull_def Let_def cuda_on_def gpu_ok_def contents_def resizeDeviceArray_def)
  next
    case on
    let ?a = "a\<lparr>h_data := Some (resized n h), d_data := DMem d\<rparr>"
    have "resizeDeviceArray api n ?a = ?a\<lparr>d_data := DMem (resized n d)\<rparr>"
      using on by (intro resizeDevice_data [OF assms(1)]) auto
    then show ?thesis using on h host assms
      by (simp add: GPUArray_resize_def isNull_def Let_def cuda_on_def gpu_ok_def contents_def)
  qed
qed

text \<open>Rows are copied one by one to their place under the new pitch.\<close>

lemma row_index_less: "i < (h::nat) \<Longrightarrow> j < p \<Longrightarrow> i * p + j < p * h"
proof -
  assume "i < h" "j < p"
  then have "i * p + j < (i + 1) * p" by simp
  also have "\<dots> \<le> h * p" using \<open>i < h\<close> by (intro mult_right_mono) auto
  finally show ?thesis by (simp add: mult.commute)
qed

lemma row_index_eq:
  assumes "j < p" "i * p \<le> k * p + j" "k * p + j < i * p + c" "c \<le> (p::nat)"
  shows "k = i"
proof -
  have "i * p < (k + 1) * p" "k * p < (i + 1) * p" using assms by (simp_all add: algebra_simps)
  then show ?thesis by (simp only: mult_less_cancel2) linarith
qed

lemma copy_rows_step:
  assumes "length old = pitch * height" "length tmp = new_pitch * new_height"
    and "c \<le> pitch" "c \<le> new_pitch" "r \<le> height" "r \<le> new_height"
  defines "res \<equiv> fold (\<lambda>i tmp. memcpy tmp (i * new_pitch) old (i * pitch) c) [0..<r] tmp"
  shows "length res = new_pitch * new_height
    \<and> (\<forall>i < new_height. \<forall>j < new_pitch. res ! (i * new_pitch + j)
         = (if i < r \<and> j < c then old ! (i * pitch + j) else tmp ! (i * new_pitch + j)))"
  using assms(5,6) unfolding res_def
proof (induction r)
  case (Suc r)
  let ?f = "\<lambda>r. fold (\<lambda>i tmp. memcpy tmp (i * new_pitch) old (i * pitch) c) [0..<r] tmp"
  have IH: "length (?f r) = new_pitch * new_height"
    "\<And>i j. i < new_height \<Longrightarrow> j < new_pitch \<Longrightarrow> ?f r ! (i * new_pitch + j)
        = (if i < r \<and> j < c then old ! (i * pitch + j) else tmp ! (i * new_pitch + j))"
    using Suc by auto
  have step: "?f (Suc r) = memcpy (?f r) (r * new_pitch) old (r * pitch) c" by simp
  have "(r + 1) * new_pitch \<le> new_height * new_pitch" "(r + 1) * pitch \<le> height * pitch"
    using Suc.prems by (intro mult_right_mono; simp)+
  then have b: "r * new_pitch + c \<le> length (?f r)" "r * pitch + c \<le> length old"
    using assms(1,3,4) IH(1) by (simp_all add: algebra_simps)
  have "?f (Suc r) ! (i * new_pitch + j)
      = (if i < Suc r \<and> j < c then old ! (i * pitch + j) else tmp ! (i * new_pitch + j))"
    if ij: "i < new_height" "j < new_pitch" for i j
  proof -
    have k: "i * new_pitch + j < length (?f r)" using IH(1) row_index_less [OF ij] by simp
    have "r * new_pitch \<le> i * new_pitch + j \<and> i * new_pitch + j < r * new_pitch + c \<longleftrightarrow> i = r \<and> j < c"
      using row_index_eq [OF ij(2), of r i c] assms(4) by auto
    then show ?thesis unfolding step using nth_memcpy [OF b k] IH(2) [OF ij] by (auto simp: less_Suc_eq)
  qed
  then show ?case using b IH(1) by (simp add: step)
qed (simp add: assms(2))

lemma copy_rows_nth:
  assumes "length old = pitch * height"
    and res_def: "res = copy_rows memcpy pitch new_pitch height new_height old (replicate (new_pitch * new_height) (0::'a::zero))"
  shows "length res = new_pitch * new_height"
    and "i < new_height \<Longrightarrow> j < new_pitch \<Longrightarrow> res ! (i * new_pitch + j)
        = (if i < height \<and> j < pitch then old ! (i * pitch + j) else 0)"
proof -
  note step = copy_rows_step [OF assms(1), of "replicate (new_pitch * new_height) 0" new_pitch new_height
      "if pitch > new_pitch then new_pitch else pitch" "if height > new_height then new_height else height"]
  show "length res = new_pitch * new_height" using step by (simp add: res_def copy_rows_def Let_def)
  show "res ! (i * new_pitch + j) = (if i < height \<and> j < pitch then old ! (i * pitch + j) else 0)"
    if "i < new_height" "j < new_pitch"
    using step that row_index_less [OF that] by (auto simp: res_def copy_rows_def Let_def split: if_splits)
qed

lemma copy_rows_api:
  assumes "api_ok api" "length old = pitch * height" "length tmp = new_pitch * new_height"
  shows "copy_rows (cudaMemcpy api) pitch new_pitch height new_height old tmp
    = copy_rows memcpy pitch new_pitch height new_height old tmp"
proof -
  define c where "c = (if pitch > new_pitch then new_pitch else pitch)"
  have c: "c \<le> pitch" "c \<le> new_pitch" by (simp_all add: c_def)
  have "fold (\<lambda>i tmp. cudaMemcpy api tmp (i * new_pitch) old (i * pitch) c) [0..<r] tmp
      = fold (\<lambda>i tmp. memcpy tmp (i * new_pitch) old (i * pitch) c) [0..<r] tmp"
    if "r \<le> height" "r \<le> new_height" for r
    using that
  proof (induction r)
    case (Suc r)
    have len: "length (fold (\<lambda>i tmp. memcpy tmp (i * new_pitch) old (i * pitch) c) [0..<r] tmp) = new_pitch * new_height"
      using copy_rows_step [OF assms(2,3) c] Suc.prems by simp
    have "(r + 1) * new_pitch \<le> new_height * new_pitch" "(r + 1) * pitch \<le> height * pitch"
      using Suc.prems by (intro mult_right_mono; simp)+
    then show ?case using Suc len assms(2) c api_okD(4) [OF assms(1)] by (simp add: algebra_simps)
  qed simp
  then show ?thesis by (simp add: copy_rows_def Let_def c_def [symmetric])
qed

text \<open>The matrix with its rows moved.\<close>

definition rows_moved :: "nat \<Rightarrow> nat \<Rightarrow> nat \<Rightarrow> nat \<Rightarrow> 'a::zero list \<Rightarrow> 'a list" where
  "rows_moved pitch new_pitch height new_height xs =
     copy_rows memcpy pitch new_pitch height new_height xs (replicate (new_pitch * new_height) 0)"

lemma resize2D_correct:
  assumes "api_ok api" "gpu_ok a" "\<not> isNull a" "\<not> m_acquired a" "m_num_elements a = m_pitch a * m_height a"
    and "padded_pitch width * height * sizeof_T api < 2 ^ 32" "0 < padded_pitch width * height"
  shows "\<exists>a'. GPUArray_resize2D api width height a = Inr a' \<and> gpu_ok a' \<and> \<not> m_acquired a'
    \<and> contents a' = rows_moved (m_pitch a) (padded_pitch width) (m_height a) height (contents a)
    \<and> m_pitch a' = padded_pitch width \<and> m_height a' = height \<and> m_num_elements a' = m_pitch a' * m_height a'"
proof -
  let ?p = "padded_pitch width"
  let ?rows = "rows_moved (m_pitch a) ?p (m_height a) height"
  obtain h where h: "h_data a = Some h" "length h = m_pitch a * m_height a"
    using assms(2,3,5) by (auto simp: gpu_ok_def isNull_def)
  have "?p * height * 1 \<le> ?p * height * sizeof_T api"
    by (rule mult_le_mono2) (use api_okD(5) [OF assms(1)] in linarith)
  then have less: "?p * height < 2 ^ 32" using assms(6) by linarith
  have nz: "sizeof_T api \<noteq> 0" using api_okD(5) [OF assms(1)] by simp
  have fits: "(?p * height) mod 2 ^ 32 = ?p * height"
    "((?p * height * sizeof_T api) mod 2 ^ 32) div sizeof_T api = ?p * height"
    using less assms(6) nz by simp_all
  have new: "memset0 (posix_memalign api (?p * height)) 0 (?p * height) = replicate (?p * height) 0"
    "cudaMemset0 api (cudaMalloc api (?p * height)) 0 (?p * height) = replicate (?p * height) 0"
    using api_okD [OF assms(1)] by (simp_all add: memset0_all)
  have len: "length (?rows xs) = ?p * height" if "length xs = m_pitch a * m_height a" for xs
    using copy_rows_nth(1) [OF that] by (simp add: rows_moved_def)
  have api: "copy_rows (cudaMemcpy api) (m_pitch a) ?p (m_height a) height xs (replicate (?p * height) 0) = ?rows xs"
    if "length xs = m_pitch a * m_height a" for xs
    using copy_rows_api [OF assms(1) that] by (simp add: rows_moved_def)
  note simps = GPUArray_resize2D_def isNull_def Let_def cuda_on_def gpu_ok_def contents_def resize2DHostArray_def
    resize2DDeviceArray_def nz fits [simplified] new rows_moved_def [symmetric]
  consider (off) "\<not> cuda_on a" "d_data a = DNull" "m_data_location a = DLhost" "\<not> m_mapped a"
    | (mapped) "cuda_on a" "m_mapped a" "d_data a = DMapped"
    | (on) d where "cuda_on a" "\<not> m_mapped a" "d_data a = DMem d" "length d = m_pitch a * m_height a"
      "m_data_location a = DLhostdevice \<longrightarrow> d = h"
    using assms(2,5) h by (auto simp: gpu_ok_def split: if_splits)
  then show ?thesis
  proof cases
    case off
    then show ?thesis using h len assms by (simp add: simps)
  next
    case mapped
    then show ?thesis using h len assms by (simp add: simps)
  next
    case on
    then show ?thesis using h len [OF h(2)] len [OF on(4)] api [OF on(4)] assms by (simp add: simps)
  qed
qed

section \<open>Allocation and copies\<close>

text \<open>Mapped memory is only asked for with a GPU that supports it.\<close>

definition mapped_ok :: "'a GPUArray \<Rightarrow> bool" where
  "mapped_ok a \<longleftrightarrow> (m_mapped a \<longrightarrow> (\<exists>e. m_exec_conf a = Some e \<and> isCUDAEnabled e \<and> canMapHostMemory e))"

lemma alloc_clear:
  fixes a :: "'a::zero GPUArray"
  assumes "api_ok api" "h_data a = None" "d_data a = DNull" "m_data_location a = DLhost" "mapped_ok a"
  shows "\<exists>h d. bindr (allocate api a) (memclear api 0) = Inr (a\<lparr>h_data := h, d_data := d\<rparr>)
    \<and> gpu_ok (a\<lparr>h_data := h, d_data := d\<rparr>)
    \<and> contents (a\<lparr>h_data := h, d_data := d\<rparr>) = replicate (m_num_elements a) 0"
proof (cases "m_num_elements a = 0")
  case True
  then show ?thesis using assms
    by (intro exI [of _ None] exI [of _ DNull]) (cases a, simp add: allocate_def memclear_def gpu_ok_def contents_def)
next
  case False
  let ?n = "m_num_elements a"
  define d where "d = (if cuda_on a then if m_mapped a then DMapped else DMem (replicate ?n (0::'a)) else DNull)"
  note api = api_okD [OF assms(1)]
  have "bindr (allocate api a) (memclear api 0) = Inr (a\<lparr>h_data := Some (replicate ?n 0), d_data := d\<rparr>)"
    using assms(2-5) False api
    by (cases "m_exec_conf a")
      (auto simp: allocate_def memclear_def mapped_ok_def d_def cuda_on_def Let_def memset0_all)
  moreover have "gpu_ok (a\<lparr>h_data := Some (replicate ?n 0), d_data := d\<rparr>)"
    using assms(4,5) False by (cases "m_exec_conf a") (auto simp: gpu_ok_def d_def cuda_on_def mapped_ok_def)
  ultimately show ?thesis using assms(4) by (intro exI) (auto simp: contents_def)
qed

lemma copy_data_correct:
  assumes "api_ok api" "gpu_ok a" "m_data_location a = DLhost" "gpu_ok from" "\<not> m_acquired from"
    and "m_num_elements a = m_num_elements from"
  shows "\<exists>from' h. copy_data api a from = Inr (a\<lparr>h_data := h\<rparr>, from') \<and> gpu_ok (a\<lparr>h_data := h\<rparr>)
    \<and> contents (a\<lparr>h_data := h\<rparr>) = contents from \<and> gpu_ok from' \<and> contents from' = contents from
    \<and> \<not> m_acquired from' \<and> m_num_elements from' = m_num_elements from"
proof (cases "m_num_elements a = 0")
  case True
  then have "contents a = []" "contents from = []"
    using length_contents [OF assms(2)] length_contents [OF assms(4)] assms(6) by simp_all
  then show ?thesis using True assms
    by (intro exI [of _ "from"] exI [of _ "h_data a"]) (simp add: copy_data_def)
next
  case False
  obtain from1 p where p: "aquire api ALhost read from = Inr (from1, p)" "acquired_ok read from from1 p"
    using aquire_succeeds [OF assms(1,4,5), of ALhost read] by auto
  then have f1: "gpu_ok from1" "m_acquired from1" "deref from1 p = contents from" "contents from1 = contents from"
    "m_num_elements from1 = m_num_elements from"
    by (auto simp: acquired_ok_def)
  obtain h where h: "h_data a = Some h" "length h = m_num_elements a" using assms(2) False by (auto simp: gpu_ok_def split: option.splits)
  have cp: "memcpy h 0 (contents from) 0 (m_num_elements a) = contents from"
    using h length_contents [OF assms(4)] assms(6) by simp
  have "copy_data api a from = Inr (a\<lparr>h_data := Some (contents from)\<rparr>, from1\<lparr>m_acquired := False\<rparr>)"
    using False h p(1) f1(2,3) cp by (simp add: copy_data_def ArrayHandle_open_def ArrayHandle_close_def)
  moreover have "gpu_ok (a\<lparr>h_data := Some (contents from)\<rparr>)"
    using assms(2,3,6) h length_contents [OF assms(4)] by (auto simp: gpu_ok_def cuda_on_def)
  moreover have "contents (a\<lparr>h_data := Some (contents from)\<rparr>) = contents from" using assms(3) by (simp add: contents_def)
  moreover have "gpu_ok (from1\<lparr>m_acquired := False\<rparr>)" "contents (from1\<lparr>m_acquired := False\<rparr>) = contents from"
    using f1 by simp_all
  ultimately show ?thesis using f1(5) by fastforce
qed

lemma deallocate_correct:
  assumes "gpu_ok a" "\<not> m_acquired a"
  shows "deallocate a = Inr (a\<lparr>h_data := None, d_data := DNull\<rparr>)"
  using assms by (cases a) (auto simp: deallocate_def gpu_ok_def cuda_on_def split: option.splits if_splits)

section \<open>Runs of an array\<close>

text \<open>What clients can do with one array: acquire it (with the pointer and mode they hold from then on),
  read and write through the pointer, close the handle, and resize it while no handle is open.\<close>

datatype 'a event = Acquire access_location access_mode | Read "'a list" | Write "'a list" | Close | Resize nat

type_synonym 'a gstate = "'a GPUArray \<times> (ptr \<times> access_mode) option"

inductive gstep :: "'a::zero memory_api \<Rightarrow> 'a gstate \<Rightarrow> 'a event \<Rightarrow> 'a gstate \<Rightarrow> bool" for api where
  g_acquire: "aquire api loc mode a = Inr (a', p) \<Longrightarrow> gstep api (a, None) (Acquire loc mode) (a', Some (p, mode))"
| g_read: "gstep api (a, Some (p, mode)) (Read (deref a p)) (a, Some (p, mode))"
| g_write: "mode \<noteq> read \<Longrightarrow> p \<noteq> PNull \<Longrightarrow> length xs = m_num_elements a
    \<Longrightarrow> gstep api (a, Some (p, mode)) (Write xs) (store a p xs, Some (p, mode))"
| g_close: "ArrayHandle_close a = Inr a' \<Longrightarrow> gstep api (a, Some (p, mode)) Close (a', None)"
| g_resize: "GPUArray_resize api n a = Inr a' \<Longrightarrow> gstep api (a, None) (Resize n) (a', None)"

text \<open>The abstract array: one list and the mode of the open handle. Opening a handle keeps the list, or
  leaves it unspecified when it is to be overwritten; reading returns it; resizing keeps the common
  prefix and fills with zeros, except that the first allocation of a null array leaves it
  unspecified.\<close>

inductive astep :: "'a::zero list \<times> access_mode option \<Rightarrow> 'a event \<Rightarrow> 'a list \<times> access_mode option \<Rightarrow> bool" where
  "mode \<noteq> overwrite \<Longrightarrow> astep (xs, None) (Acquire loc mode) (xs, Some mode)"
| "length ys = length xs \<Longrightarrow> astep (xs, None) (Acquire loc overwrite) (ys, Some overwrite)"
| "astep (xs, Some mode) (Read xs) (xs, Some mode)"
| "mode \<noteq> read \<Longrightarrow> length ys = length xs \<Longrightarrow> astep (xs, Some mode) (Write ys) (ys, Some mode)"
| "astep (xs, Some mode) Close (xs, None)"
| "xs \<noteq> [] \<Longrightarrow> 0 < n \<Longrightarrow> astep (xs, None) (Resize n) (resized n xs, None)"
| "length ys = n \<Longrightarrow> 0 < n \<Longrightarrow> astep ([], None) (Resize n) (ys, None)"

inductive_cases gstepE: "gstep api (a, h) e s"

definition ginv :: "'a gstate \<Rightarrow> bool" where
  "ginv = (\<lambda>(a, held). gpu_ok a \<and> mapped_ok a \<and> (case held of None \<Rightarrow> \<not> m_acquired a
     | Some (p, mode) \<Rightarrow> m_acquired a \<and> deref a p = contents a \<and> (p = PNull \<longleftrightarrow> isNull a)
         \<and> (mode \<noteq> read \<longrightarrow> p \<noteq> PNull \<longrightarrow> writable a p)))"

definition gabs :: "'a gstate \<Rightarrow> 'a list \<times> access_mode option" where
  "gabs = (\<lambda>(a, held). (contents a, map_option snd held))"

lemma mapped_ok_cong: "m_mapped a' = m_mapped a \<Longrightarrow> m_exec_conf a' = m_exec_conf a \<Longrightarrow> mapped_ok a' = mapped_ok a"
  by (simp add: mapped_ok_def)

lemma mapped_ok_store [simp]: "mapped_ok (store a p xs) = mapped_ok a"
  by (simp add: mapped_ok_def store_def split: ptr.split devptr.split)

lemma resize_null:
  assumes "api_ok api" "gpu_ok a" "isNull a" "\<not> m_acquired a" "0 < n" "mapped_ok a"
  shows "\<exists>a'. GPUArray_resize api n a = Inr a' \<and> gpu_ok a' \<and> length (contents a') = n
    \<and> \<not> m_acquired a' \<and> mapped_ok a'"
proof -
  have a: "h_data a = None" "d_data a = DNull" "m_data_location a = DLhost"
    using assms(2,3) by (simp_all add: gpu_ok_def isNull_def)
  define d where "d = (if cuda_on a then if m_mapped a then DMapped else DMem (cudaMalloc api n) else DNull)"
  let ?a = "a\<lparr>m_num_elements := n, h_data := Some (posix_memalign api n), d_data := d\<rparr>"
  have "GPUArray_resize api n a = Inr ?a"
    using a assms(3-) by (cases "m_exec_conf a")
      (auto simp: GPUArray_resize_def allocate_def mapped_ok_def d_def cuda_on_def Let_def)
  moreover have "gpu_ok ?a"
    using a(3) assms(5,6) api_okD [OF assms(1)]
    by (cases "m_exec_conf a") (auto simp: gpu_ok_def d_def cuda_on_def mapped_ok_def)
  moreover from this have "length (contents ?a) = n" by (simp add: length_contents)
  ultimately show ?thesis using assms(4,6) by (auto simp: mapped_ok_def)
qed

lemma resize_fails: "GPUArray_resize api n a = Inr a' \<Longrightarrow> \<not> m_acquired a \<and> 0 < n"
  by (auto simp: GPUArray_resize_def bindr_Inr)

text \<open>Every step of the implementation is one of the abstract array.\<close>

lemma sim_acquire:
  assumes "api_ok api" "ginv (a, None)" "aquire api loc mode a = Inr (a', p)"
  shows "ginv (a', Some (p, mode))" "astep (gabs (a, None)) (Acquire loc mode) (gabs (a', Some (p, mode)))"
proof -
  have inv: "gpu_ok a" "mapped_ok a" using assms(2) by (simp_all add: ginv_def)
  have ok: "acquired_ok mode a a' p" by (rule aquire_correct(1) [OF assms(1) inv(1) assms(3)])
  have "mapped_ok a'" using ok inv(2) mapped_ok_cong [of a' a] by (simp add: acquired_ok_def)
  then show "ginv (a', Some (p, mode))"
    using ok acquired_writable [OF ok] by (simp add: ginv_def acquired_ok_def)
  show "astep (gabs (a, None)) (Acquire loc mode) (gabs (a', Some (p, mode)))"
  proof (cases "mode = overwrite")
    case True
    have "length (contents a') = length (contents a)"
      using ok inv(1) length_contents [of a] length_contents [of a'] by (simp add: acquired_ok_def)
    then show ?thesis unfolding True by (simp add: gabs_def astep.intros(2))
  next
    case False
    then show ?thesis using ok astep.intros(1) [OF False] by (simp add: gabs_def acquired_ok_def)
  qed
qed

lemma sim_write:
  assumes "ginv (a, Some (p, mode))" "mode \<noteq> read" "p \<noteq> PNull" "length xs = m_num_elements a"
  shows "ginv (store a p xs, Some (p, mode))"
    "astep (gabs (a, Some (p, mode))) (Write xs) (gabs (store a p xs, Some (p, mode)))"
proof -
  have inv: "gpu_ok a" "mapped_ok a" "m_acquired a" "writable a p" using assms(1-3) by (simp_all add: ginv_def)
  note st = store_correct [OF inv(4) assms(4)]
  show "ginv (store a p xs, Some (p, mode))"
    using st(1,3) inv(2,3) assms(3) by (simp add: ginv_def) (simp add: writable_def)
  show "astep (gabs (a, Some (p, mode))) (Write xs) (gabs (store a p xs, Some (p, mode)))"
    using st(2) astep.intros(4) [OF assms(2), of xs "contents a"] assms(4) length_contents [OF inv(1)]
    by (simp add: gabs_def)
qed

lemma sim_resize:
  assumes "api_ok api" "ginv (a, None)" "GPUArray_resize api n a = Inr a'"
  shows "ginv (a', None) \<and> astep (gabs (a, None)) (Resize n) (gabs (a', None))"
proof -
  have inv: "gpu_ok a" "mapped_ok a" "\<not> m_acquired a" "0 < n"
    using assms(2) resize_fails [OF assms(3)] by (simp_all add: ginv_def)
  show ?thesis
  proof (cases "isNull a")
    case True
    then have "contents a = []" using contents_null [OF inv(1)] by simp
    moreover have "gpu_ok a'" "length (contents a') = n" "\<not> m_acquired a'" "mapped_ok a'"
      using resize_null [OF assms(1) inv(1) True inv(3,4,2)] assms(3) by auto
    ultimately show ?thesis using astep.intros(7) [of "contents a'" n] inv(4) by (simp add: ginv_def gabs_def)
  next
    case False
    then have "contents a \<noteq> []" using contents_null [OF inv(1)] by simp
    moreover have r: "gpu_ok a'" "contents a' = resized n (contents a)" "\<not> m_acquired a'"
      "m_mapped a' = m_mapped a" "m_exec_conf a' = m_exec_conf a"
      using resize_correct [OF assms(1) inv(1) False inv(3,4)] assms(3) by auto
    ultimately show ?thesis
      using astep.intros(6) [of "contents a" n] inv(2,4) mapped_ok_cong [OF r(4,5)] by (simp add: ginv_def gabs_def)
  qed
qed

lemma gstep_simulated:
  assumes "api_ok api" "ginv s" "gstep api s e t"
  shows "ginv t \<and> astep (gabs s) e (gabs t)"
  using assms(3)
proof cases
  case (g_acquire loc mode a a' p)
  then show ?thesis using sim_acquire [OF assms(1)] assms(2) by blast
next
  case (g_read a p mode)
  then have "deref a p = contents a" using assms(2) by (simp add: ginv_def)
  then show ?thesis using g_read assms(2) astep.intros(3) [of "contents a" mode] by (simp add: gabs_def)
next
  case (g_write mode p xs a)
  then show ?thesis using sim_write assms(2) by blast
next
  case (g_close a a' p mode)
  then have "a' = a\<lparr>m_acquired := False\<rparr>" by (auto simp: ArrayHandle_close_def bindr_Inr)
  then show ?thesis using g_close assms(2) astep.intros(5) [of "contents a" mode]
    by (simp add: ginv_def gabs_def mapped_ok_def)
next
  case (g_resize n a a')
  then show ?thesis using sim_resize [OF assms(1)] assms(2) by blast
qed

text \<open>The CUDA calls as a concrete instance: fresh memory holds zeros.\<close>

definition plain_api :: "'a::zero memory_api" where
  "plain_api = \<lparr>sizeof_T = 8, posix_memalign = (\<lambda>n. replicate n 0), cudaMalloc = (\<lambda>n. replicate n 0),
     cudaMemset0 = memset0, cudaMemcpy = memcpy\<rparr>"

lemma plain_api_ok [simp]: "api_ok plain_api"
  by (simp add: api_ok_def plain_api_def)

text \<open>The implementation simulates the abstract array for every memory interface that keeps its
  promises; one that does not allows no step.\<close>

interpretation gpu_array: simulation "\<lambda>s e t. api_ok api \<and> gstep api s e t" astep ginv gabs for api
  by unfold_locales (use gstep_simulated in blast)

section \<open>Properties of the array\<close>

lemma padded_pitch_bounds:
  assumes "width < 2 ^ 32 - 16"
  shows "padded_pitch width mod 16 = 0" "width < padded_pitch width" "padded_pitch width \<le> width + 16"
proof -
  have "padded_pitch width = width + (16 - width mod 16)" using assms by (simp add: padded_pitch_def)
  moreover obtain q r where "width mod 16 = r" "r < 16" "16 * q + r = width"
    by (metis mod_less_divisor mult_div_mod_eq zero_less_numeral)
  ultimately have e: "padded_pitch width = 16 * q + r + (16 - r)" "r < 16" "16 * q + r = width" by simp_all
  then have f: "padded_pitch width = 16 * (q + 1)" by simp
  show "padded_pitch width mod 16 = 0" unfolding f by simp
  show "width < padded_pitch width" using f e(2,3) by simp
  show "padded_pitch width \<le> width + 16" using f e(2,3) by simp
qed

lemma GPUArray_1d_inv:
  assumes "api_ok api" "mapped \<longrightarrow> (\<exists>e. exec_conf = Some e \<and> isCUDAEnabled e \<and> canMapHostMemory e)"
    and "GPUArray_1d api n exec_conf mapped = Inr a"
  shows "ginv (a, None)" "contents a = replicate n 0"
  using alloc_clear [OF assms(1), of "\<lparr>m_num_elements = n, m_pitch = n, m_height = 1, m_acquired = False,
      m_data_location = DLhost, m_mapped = mapped, d_data = DNull, h_data = None, m_exec_conf = exec_conf\<rparr>"] assms(2,3)
  by (auto simp: GPUArray_1d_def mapped_ok_def ginv_def)

text \<open>C5: coherence. Whatever handles are opened on host or device, in whatever order and mode, and
  however the array is resized in between, the mirrored array behaves as one list: each read returns
  what was last written, or kept by a resize, no matter on which side. Formally, every run of the
  implementation from a fresh array is a run of the abstract array with the same events.\<close>

theorem GPUArray_coherent:
  assumes "api_ok api" "mapped \<longrightarrow> (\<exists>e. exec_conf = Some e \<and> isCUDAEnabled e \<and> canMapHostMemory e)"
    and "GPUArray_1d api n exec_conf mapped = Inr a"
    and "trace (gstep api) (a, None) es (b, held)"
  shows "trace astep (replicate n 0, None) es (contents b, map_option snd held) \<and> gpu_ok b"
proof -
  have "trace (\<lambda>s e t. api_ok api \<and> gstep api s e t) (a, None) es (b, held)" using assms(1,4) by simp
  from gpu_array.trace_simulated [OF this GPUArray_1d_inv(1) [OF assms(1-3)]]
  show ?thesis using GPUArray_1d_inv(2) [OF assms(1-3)] by (simp add: gabs_def ginv_def)
qed

abbreviation gpu :: ExecConf where
  "gpu \<equiv> \<lparr>isCUDAEnabled = True, canMapHostMemory = True\<rparr>"

theorem GPUArray_coherent_witness:
  "\<exists>a b. GPUArray_1d plain_api 2 (Some gpu) False = Inr (a :: int GPUArray)
    \<and> trace (gstep plain_api) (a, None)
        [Acquire ALdevice overwrite, Write [3, 4], Close, Acquire ALhost read, Read [3, 4]] (b, Some (PHost, read))
    \<and> contents b = [3, 4] \<and> gpu_ok b"
proof -
  define a :: "int GPUArray" where "a = \<lparr>m_num_elements = 2, m_pitch = 2, m_height = 1, m_acquired = False,
    m_data_location = DLhost, m_mapped = False, d_data = DMem [0, 0], h_data = Some [0, 0], m_exec_conf = Some gpu\<rparr>"
  have new: "GPUArray_1d plain_api 2 (Some gpu) False = Inr a"
    by (simp add: a_def GPUArray_1d_def allocate_def memclear_def cuda_on_def plain_api_def memset0_def Let_def
        numeral_2_eq_2)
  let ?w = "a\<lparr>m_acquired := True, m_data_location := DLdevice\<rparr>"
  let ?c = "a\<lparr>m_data_location := DLdevice, d_data := DMem [3, 4]\<rparr>"
  let ?b = "a\<lparr>m_acquired := True, m_data_location := DLhostdevice, d_data := DMem [3, 4], h_data := Some [3, 4]\<rparr>"
  have s1: "gstep plain_api (a, None) (Acquire ALdevice overwrite) (?w, Some (PDevice, overwrite))"
    by (rule g_acquire) (simp add: a_def aquire_def isNull_def)
  have "store ?w PDevice [3, 4] = ?c\<lparr>m_acquired := True\<rparr>" by (simp add: a_def store_def)
  then have s2: "gstep plain_api (?w, Some (PDevice, overwrite)) (Write [3, 4]) (?c\<lparr>m_acquired := True\<rparr>, Some (PDevice, overwrite))"
    using g_write [of overwrite PDevice "[3, 4]" ?w plain_api] by (simp add: a_def)
  have s3: "gstep plain_api (?c\<lparr>m_acquired := True\<rparr>, Some (PDevice, overwrite)) Close (?c, None)"
    by (rule g_close) (simp add: a_def ArrayHandle_close_def)
  have s4: "gstep plain_api (?c, None) (Acquire ALhost read) (?b, Some (PHost, read))"
    by (rule g_acquire) (simp add: a_def aquire_def isNull_def memcpyDeviceToHost_def plain_api_def)
  have s5: "gstep plain_api (?b, Some (PHost, read)) (Read [3, 4]) (?b, Some (PHost, read))"
    using g_read [of plain_api ?b PHost read] by (simp add: deref_def)
  have tr: "trace (gstep plain_api) (a, None)
      [Acquire ALdevice overwrite, Write [3, 4], Close, Acquire ALhost read, Read [3, 4]] (?b, Some (PHost, read))"
    using s1 s2 s3 s4 s5 by blast
  from GPUArray_coherent [OF plain_api_ok _ new tr] have "gpu_ok ?b" by simp
  moreover have "contents ?b = [3, 4]" by (simp add: contents_def)
  ultimately show ?thesis using new tr by blast
qed

text \<open>C32: \<open>aquire\<close> on a well-formed array fails in two cases only: an array already acquired fails the
  assertion, and the device side of an allocated array without a GPU throws. In all other cases, those
  of a null array included, it returns, the array is acquired and well formed, the pointer shows the
  contents, and unless the caller asked to overwrite they are the contents before the call. The
  pointer is null, and shows no elements, exactly for a null array.\<close>

theorem aquire_exact:
  assumes "api_ok api" "gpu_ok a"
  shows "if m_acquired a then aquire api loc mode a = Inl Assertion_failed
    else if loc = ALdevice \<and> \<not> isNull a \<and> \<not> cuda_on a then aquire api loc mode a = Inl Runtime_error
    else \<exists>a' p. aquire api loc mode a = Inr (a', p) \<and> m_acquired a' \<and> gpu_ok a' \<and> deref a' p = contents a'
      \<and> length (contents a') = length (contents a) \<and> (mode \<noteq> overwrite \<longrightarrow> contents a' = contents a)
      \<and> (p = PNull \<longleftrightarrow> isNull a) \<and> (isNull a \<longrightarrow> contents a' = [])"
proof (cases "m_acquired a \<or> no_device loc a")
  case True
  then show ?thesis using aquire_host_only [OF assms(2), of loc api mode] by (auto simp: aquire_acquired)
next
  case False
  then obtain a' p where r: "aquire api loc mode a = Inr (a', p)" "acquired_ok mode a a' p"
    using aquire_succeeds [OF assms, of loc mode] by blast
  moreover have "contents a' = []" if "isNull a" using that r(2) by (simp add: acquired_ok_def isNull_def contents_def)
  ultimately show ?thesis using False length_contents [OF assms(2)] length_contents [of a'] by (auto simp: acquired_ok_def)
qed

theorem aquire_exact_witness:
  "(\<exists>a' p. aquire plain_api ALdevice read (GPUArray_null :: int GPUArray) = Inr (a', p) \<and> p = PNull \<and> contents a' = [])
   \<and> aquire plain_api ALdevice read ((GPUArray_null :: int GPUArray)\<lparr>m_acquired := True\<rparr>) = Inl Assertion_failed"
proof -
  have ok: "gpu_ok (GPUArray_null :: int GPUArray)" "gpu_ok ((GPUArray_null :: int GPUArray)\<lparr>m_acquired := True\<rparr>)"
    by (simp_all add: gpu_ok_def GPUArray_null_def)
  show ?thesis
    using aquire_exact [OF plain_api_ok ok(1), of ALdevice read] aquire_exact [OF plain_api_ok ok(2), of ALdevice read]
    by (auto simp: GPUArray_null_def isNull_def)
qed

lemma GPUArray_copy_correct:
  assumes "api_ok api" "gpu_ok from" "mapped_ok from" "\<not> m_acquired from"
  shows "\<exists>a from'. GPUArray_copy api from = Inr (a, from') \<and> gpu_ok a \<and> contents a = contents from
    \<and> \<not> m_acquired a \<and> gpu_ok from' \<and> contents from' = contents from \<and> \<not> m_acquired from'"
proof -
  let ?a = "\<lparr>m_num_elements = m_num_elements from, m_pitch = m_pitch from, m_height = m_height from,
         m_acquired = False, m_data_location = DLhost, m_mapped = m_mapped from, d_data = DNull, h_data = None,
         m_exec_conf = m_exec_conf from\<rparr>"
  obtain h d where hd: "bindr (allocate api ?a) (memclear api 0) = Inr (?a\<lparr>h_data := h, d_data := d\<rparr>)"
    "gpu_ok (?a\<lparr>h_data := h, d_data := d\<rparr>)"
    using alloc_clear [OF assms(1), of ?a] assms(3) by (auto simp: mapped_ok_def)
  then have "GPUArray_copy api from = copy_data api (?a\<lparr>h_data := h, d_data := d\<rparr>) from"
    by (cases "allocate api ?a") (simp_all add: GPUArray_copy_def)
  moreover obtain from' h' where "copy_data api (?a\<lparr>h_data := h, d_data := d\<rparr>) from
      = Inr (?a\<lparr>h_data := h, d_data := d\<rparr>\<lparr>h_data := h'\<rparr>, from')"
    "gpu_ok (?a\<lparr>h_data := h, d_data := d\<rparr>\<lparr>h_data := h'\<rparr>)"
    "contents (?a\<lparr>h_data := h, d_data := d\<rparr>\<lparr>h_data := h'\<rparr>) = contents from"
    "gpu_ok from'" "contents from' = contents from" "\<not> m_acquired from'"
    using copy_data_correct [OF assms(1) hd(2) _ assms(2,4)] by auto
  ultimately show ?thesis by auto
qed

lemma GPUArray_assign_correct:
  assumes "api_ok api" "gpu_ok a" "\<not> m_acquired a" "gpu_ok rhs" "mapped_ok rhs" "\<not> m_acquired rhs"
  shows "\<exists>a' rhs'. GPUArray_assign api a rhs = Inr (a', rhs') \<and> gpu_ok a' \<and> contents a' = contents rhs
    \<and> \<not> m_acquired a' \<and> gpu_ok rhs' \<and> contents rhs' = contents rhs \<and> \<not> m_acquired rhs'"
proof -
  let ?a = "a\<lparr>h_data := None, d_data := DNull, m_num_elements := m_num_elements rhs, m_pitch := m_pitch rhs,
      m_height := m_height rhs, m_exec_conf := m_exec_conf rhs, m_mapped := m_mapped rhs, m_data_location := DLhost\<rparr>"
  obtain h d where hd: "bindr (allocate api ?a) (memclear api 0) = Inr (?a\<lparr>h_data := h, d_data := d\<rparr>)"
    "gpu_ok (?a\<lparr>h_data := h, d_data := d\<rparr>)"
    using alloc_clear [OF assms(1), of ?a] assms(5) by (auto simp: mapped_ok_def)
  have "GPUArray_assign api a rhs = copy_data api (?a\<lparr>h_data := h, d_data := d\<rparr>) rhs"
    using hd(1) deallocate_correct [OF assms(2,3)] assms(3,6)
    by (cases "allocate api ?a") (simp_all add: GPUArray_assign_def)
  moreover obtain rhs' h' where "copy_data api (?a\<lparr>h_data := h, d_data := d\<rparr>) rhs
      = Inr (?a\<lparr>h_data := h, d_data := d\<rparr>\<lparr>h_data := h'\<rparr>, rhs')"
    "gpu_ok (?a\<lparr>h_data := h, d_data := d\<rparr>\<lparr>h_data := h'\<rparr>)"
    "contents (?a\<lparr>h_data := h, d_data := d\<rparr>\<lparr>h_data := h'\<rparr>) = contents rhs"
    "gpu_ok rhs'" "contents rhs' = contents rhs" "\<not> m_acquired rhs'"
    using copy_data_correct [OF assms(1) hd(2) _ assms(4,6)] by auto
  ultimately show ?thesis using assms(3) by auto
qed

text \<open>C33: copying. The copy constructor and the assignment return, leave source and target well formed
  and not acquired, give the target the contents of the source and keep those of the source, even
  when the data of the source was on the device and had to be fetched.\<close>

theorem GPUArray_copies:
  assumes "api_ok api" "gpu_ok a" "\<not> m_acquired a" "gpu_ok rhs" "mapped_ok rhs" "\<not> m_acquired rhs"
  shows "(\<exists>a' rhs'. GPUArray_assign api a rhs = Inr (a', rhs') \<and> gpu_ok a' \<and> contents a' = contents rhs
      \<and> \<not> m_acquired a' \<and> gpu_ok rhs' \<and> contents rhs' = contents rhs \<and> \<not> m_acquired rhs')
    \<and> (\<exists>c rhs'. GPUArray_copy api rhs = Inr (c, rhs') \<and> gpu_ok c \<and> contents c = contents rhs
      \<and> \<not> m_acquired c \<and> gpu_ok rhs' \<and> contents rhs' = contents rhs \<and> \<not> m_acquired rhs')
    \<and> GPUArray_swap a rhs = Inr (rhs, a)"
proof -
  have "GPUArray_swap a rhs = Inr (rhs, a)" using assms(3,6) by (cases a; cases rhs) (simp add: GPUArray_swap_def)
  then show ?thesis using GPUArray_assign_correct [OF assms] GPUArray_copy_correct [OF assms(1,4,5,6)] by blast
qed

theorem GPUArray_copies_witness:
  "\<exists>a' rhs'. GPUArray_assign plain_api GPUArray_null \<lparr>m_num_elements = 1, m_pitch = 1, m_height = 1, m_acquired = False,
      m_data_location = DLdevice, m_mapped = False, d_data = DMem [7 :: int], h_data = Some [0], m_exec_conf = Some gpu\<rparr>
    = Inr (a', rhs') \<and> contents a' = [7]"
proof -
  let ?rhs = "\<lparr>m_num_elements = 1, m_pitch = 1, m_height = 1, m_acquired = False,
      m_data_location = DLdevice, m_mapped = False, d_data = DMem [7 :: int], h_data = Some [0], m_exec_conf = Some gpu\<rparr>"
  have "gpu_ok ?rhs" "mapped_ok ?rhs" "gpu_ok (GPUArray_null :: int GPUArray)" "contents ?rhs = [7]"
    by (simp_all add: gpu_ok_def mapped_ok_def cuda_on_def GPUArray_null_def contents_def)
  with GPUArray_copies [OF plain_api_ok, of GPUArray_null ?rhs] show ?thesis by (auto simp: GPUArray_null_def)
qed

text \<open>Resizing a matrix keeps its elements in place. When the padded size in bytes fits into 32 bits, \<open>resize(width,
  height)\<close> returns a well-formed array whose pitch is a multiple of 16 above the width, in which
  every element of the common rows and columns is where the new pitch puts it and all others are
  zero, on whichever side the data was. (A width that is itself a multiple of 16 is padded by 16
  more.)\<close>

theorem GPUArray_resize2D_elements:
  assumes "api_ok api" "gpu_ok a" "\<not> isNull a" "\<not> m_acquired a" "m_num_elements a = m_pitch a * m_height a"
    and "width < 2 ^ 32 - 16" "padded_pitch width * height * sizeof_T api < 2 ^ 32" "0 < height"
  shows "\<exists>a'. GPUArray_resize2D api width height a = Inr a' \<and> gpu_ok a'
    \<and> m_pitch a' mod 16 = 0 \<and> width < m_pitch a' \<and> m_pitch a' \<le> width + 16 \<and> m_height a' = height
    \<and> length (contents a') = m_pitch a' * m_height a'
    \<and> (\<forall>i < height. \<forall>j < m_pitch a'. contents a' ! (i * m_pitch a' + j)
         = (if i < m_height a \<and> j < m_pitch a then contents a ! (i * m_pitch a + j) else 0))"
proof -
  note pitch = padded_pitch_bounds [OF assms(6)]
  have "0 < padded_pitch width * height" using pitch(2) assms(8) by (intro mult_pos_pos) simp_all
  from resize2D_correct [OF assms(1-5) assms(7) this] obtain a' where a': "GPUArray_resize2D api width height a = Inr a'" "gpu_ok a'"
    "contents a' = rows_moved (m_pitch a) (padded_pitch width) (m_height a) height (contents a)"
    "m_pitch a' = padded_pitch width" "m_height a' = height" "m_num_elements a' = m_pitch a' * m_height a'"
    by blast
  have len: "length (contents a) = m_pitch a * m_height a" using length_contents [OF assms(2)] assms(5) by simp
  have "contents a' ! (i * m_pitch a' + j)
      = (if i < m_height a \<and> j < m_pitch a then contents a ! (i * m_pitch a + j) else 0)"
    if "i < height" "j < m_pitch a'" for i j
    using copy_rows_nth(2) [OF len refl that(1), of j "padded_pitch width"] that(2)
    unfolding a'(3,4) rows_moved_def by blast
  moreover have "length (contents a') = m_pitch a' * m_height a'" using length_contents [OF a'(2)] a'(6) by simp
  moreover have "m_pitch a' mod 16 = 0 \<and> width < m_pitch a' \<and> m_pitch a' \<le> width + 16"
    unfolding a'(4) using pitch by blast
  ultimately show ?thesis using a'(1,2,5) by (intro exI [of _ a'] conjI allI impI) simp_all
qed

theorem GPUArray_resize2D_elements_witness:
  "\<exists>a a'. GPUArray_2d plain_api 1 2 None False = Inr (a :: int GPUArray) \<and> GPUArray_resize2D plain_api 16 3 a = Inr a'
    \<and> m_pitch a = 16 \<and> m_pitch a' mod 16 = 0 \<and> 16 < m_pitch a' \<and> m_pitch a' \<le> 32"
proof -
  define a :: "int GPUArray" where "a = \<lparr>m_num_elements = 32, m_pitch = 16, m_height = 2, m_acquired = False,
    m_data_location = DLhost, m_mapped = False, d_data = DNull, h_data = Some (replicate 32 0), m_exec_conf = None\<rparr>"
  have new: "GPUArray_2d plain_api 1 2 None False = Inr a"
    by (simp add: a_def GPUArray_2d_def padded_pitch_def allocate_def memclear_def cuda_on_def plain_api_def
        memset0_all Let_def)
  have ok: "gpu_ok a" "\<not> isNull a" "\<not> m_acquired a" "m_num_elements a = m_pitch a * m_height a"
    by (simp_all add: a_def gpu_ok_def isNull_def cuda_on_def)
  have "(16::nat) < 2 ^ 32 - 16" "padded_pitch 16 * 3 * sizeof_T (plain_api :: int memory_api) < 2 ^ 32" "(0::nat) < 3"
    by (simp_all add: padded_pitch_def plain_api_def)
  from GPUArray_resize2D_elements [OF plain_api_ok ok this] show ?thesis using new by (auto simp: a_def)
qed

end
