(* ===== verification/GPU_Vector.thy ===== *)
theory GPU_Vector
  imports GPU_Array
begin

text \<open>
  The growing vector \<open>data_structures/GPUVector.h\<close> on top of a mirrored array. A vector is an array
  with the number of elements in use; the array grows by a factor 9/8 computed in single precision,
  which is modelled by its rounding to 24 significant bits. Sizes are natural numbers and the theorems
  bound them so that neither the conversion to \<open>unsigned int\<close> nor \<open>m_size + 1\<close> overflows.
\<close>

section \<open>The growth of the allocation\<close>

text \<open>Single precision keeps 24 significant bits: a number of more bits is rounded to the nearest
  multiple of \<open>2\<^sup>k\<close>, ties to the even one.\<close>

fun excess_bits :: "nat \<Rightarrow> nat" where
  "excess_bits n = (if n < 2 ^ 24 then 0 else Suc (excess_bits (n div 2)))"

declare excess_bits.simps [simp del]

definition float_of_nat :: "nat \<Rightarrow> nat" where
  "float_of_nat n =
     (let k = excess_bits n; q = n div 2 ^ k; r = n mod 2 ^ k
      in if 2 * r < 2 ^ k then q * 2 ^ k
         else if 2 * r > 2 ^ k then (q + 1) * 2 ^ k
         else if even q then q * 2 ^ k else (q + 1) * 2 ^ k)"

text \<open>\<open>RESIZE_FACTOR\<close> is the text \<open>9.f/8.f\<close>, so the product is rounded before the exact division by 8.\<close>

definition grow :: "nat \<Rightarrow> nat" where
  "grow n = float_of_nat (float_of_nat n * 9) div 8 + 1"

lemma excess_bits_bound: "excess_bits n = 0 \<or> 2 ^ (excess_bits n + 23) \<le> n"
proof (induction n rule: excess_bits.induct)
  case (1 n)
  show ?case
  proof (cases "n < 2 ^ 24")
    case True
    then show ?thesis by (simp add: excess_bits.simps [of n])
  next
    case False
    then have e: "excess_bits n = Suc (excess_bits (n div 2))" by (simp add: excess_bits.simps [of n])
    from 1 [OF False] have "2 ^ (excess_bits (n div 2) + 23) \<le> n div 2"
    proof
      assume "excess_bits (n div 2) = 0"
      then show ?thesis using False by simp
    qed
    then have "2 * 2 ^ (excess_bits (n div 2) + 23) \<le> n" by linarith
    then show ?thesis unfolding e by (simp only: add_Suc power_Suc simp_thms)
  qed
qed

lemma float_of_nat_error:
  "31 * n \<le> 32 * float_of_nat n \<and> 32 * float_of_nat n \<le> 33 * n"
proof -
  define k where "k = excess_bits n"
  define p where "p = (2::nat) ^ k"
  define q r where "q = n div p" and "r = n mod p"
  have "0 < p" by (simp add: p_def)
  then have n: "n = q * p + r" and r: "r < p" by (simp_all add: q_def r_def)
  have small: "k = 0 \<or> 8388608 * p \<le> n"
    using excess_bits_bound [of n] by (auto simp: k_def p_def power_add mult.commute)
  have f: "float_of_nat n = q * p \<and> 2 * r \<le> p \<or> float_of_nat n = q * p + p \<and> p \<le> 2 * r"
    by (auto simp: float_of_nat_def Let_def k_def [symmetric] p_def [symmetric] q_def [symmetric]
        r_def [symmetric] algebra_simps)
  show ?thesis
  proof (cases "k = 0")
    case True
    then have "p = 1" by (simp add: p_def)
    then have "r = 0" "n = q" using n r by simp_all
    then show ?thesis using f \<open>p = 1\<close> by simp
  next
    case False
    then have "8388608 * p \<le> n" using small by blast
    then show ?thesis using f n r by linarith
  qed
qed

lemma grow_greater: "n < grow n"
proof -
  let ?m = "float_of_nat (float_of_nat n * 9)"
  have "31 * n \<le> 32 * float_of_nat n" "31 * (float_of_nat n * 9) \<le> 32 * ?m"
    using float_of_nat_error [of n] float_of_nat_error [of "float_of_nat n * 9"] by simp_all
  then have "8 * n \<le> ?m" by linarith
  then show ?thesis by (simp add: grow_def)
qed

lemma grow_bound: "n < 2 ^ 31 \<Longrightarrow> grow n < 2 ^ 32"
proof -
  assume "n < 2 ^ 31"
  let ?m = "float_of_nat (float_of_nat n * 9)"
  have "32 * float_of_nat n \<le> 33 * n" "32 * ?m \<le> 33 * (float_of_nat n * 9)"
    using float_of_nat_error [of n] float_of_nat_error [of "float_of_nat n * 9"] by simp_all
  then have "1024 * ?m \<le> 9801 * n" by linarith
  then have "?m div 8 + 1 < 2 ^ 32" using \<open>n < 2 ^ 31\<close> by simp
  then show ?thesis by (simp add: grow_def)
qed

function grow_until :: "nat \<Rightarrow> nat \<Rightarrow> nat" where
  "grow_until sz n = (if sz > n then grow_until sz (grow n) else n)"
  by pat_completeness auto
termination
proof (relation "measure (\<lambda>(sz, n). sz - n)", goal_cases)
  case (2 sz n)
  then show ?case using grow_greater [of n] by simp
qed simp

declare grow_until.simps [simp del]

lemma grow_until_bounds:
  "sz \<le> grow_until sz n" "sz < 2 ^ 31 \<Longrightarrow> n < 2 ^ 32 \<Longrightarrow> grow_until sz n < 2 ^ 32"
proof (induction sz n rule: grow_until.induct)
  case (1 sz n)
  { case 1 show ?case using "1.IH"(1) by (cases "sz > n") (simp_all add: grow_until.simps [of sz n]) }
  { case 2
    show ?case
    proof (cases "sz > n")
      case True
      then have "grow n < 2 ^ 32" using grow_bound [of n] 2(1) by simp
      then show ?thesis using "1.IH"(2) [OF True 2(1)] True by (simp add: grow_until.simps [of sz n])
    next
      case False
      then show ?thesis using 2 by (simp add: grow_until.simps [of sz n])
    qed }
qed

section \<open>The vector\<close>

record 'a GPUVector =
  arr :: "'a GPUArray"
  m_size :: nat

definition GPUVector_null :: "'a GPUVector" where
  "GPUVector_null = \<lparr>arr = GPUArray_null, m_size = 0\<rparr>"

text \<open>The constructors without a size pass 0, those without \<open>mapped\<close> pass \<open>False\<close>.\<close>

definition GPUVector_new :: "'a::zero memory_api \<Rightarrow> nat \<Rightarrow> ExecConf option \<Rightarrow> bool \<Rightarrow> 'a GPUVector result" where
  "GPUVector_new api sz exec_conf mapped =
     bindr (GPUArray_1d api sz exec_conf mapped) (\<lambda>a. Inr \<lparr>arr = a, m_size = sz\<rparr>)"

definition GPUVector_copy :: "'a::zero memory_api \<Rightarrow> 'a GPUVector \<Rightarrow> ('a GPUVector \<times> 'a GPUVector) result" where
  "GPUVector_copy api from =
     bindr (GPUArray_copy api (arr from)) (\<lambda>(a, from_arr).
       Inr (\<lparr>arr = a, m_size = m_size from\<rparr>, from\<lparr>arr := from_arr\<rparr>))"

text \<open>The cast \<open>(GPUArray<T>) *this\<close> makes a temporary copy of the array, and it is the temporary that
  the base class operator assigns to.\<close>

definition GPUVector_assign :: "'a::zero memory_api \<Rightarrow> 'a GPUVector \<Rightarrow> 'a GPUVector \<Rightarrow> ('a GPUVector \<times> 'a GPUVector) result" where
  "GPUVector_assign api v rhs =
     (let v = v\<lparr>m_size := m_size rhs\<rparr>
      in bindr (GPUArray_copy api (arr v)) (\<lambda>(temp, this_arr).
         bindr (GPUArray_assign api temp (arr rhs)) (\<lambda>(temp, rhs_arr).
           Inr (v\<lparr>arr := this_arr\<rparr>, rhs\<lparr>arr := rhs_arr\<rparr>))))"

definition GPUVector_swap :: "'a GPUVector \<Rightarrow> 'a GPUVector \<Rightarrow> ('a GPUVector \<times> 'a GPUVector) result" where
  "GPUVector_swap v from =
     bindr (GPUArray_swap (arr v) (arr from)) (\<lambda>(a, b).
       Inr (v\<lparr>m_size := m_size from, arr := a\<rparr>, from\<lparr>m_size := m_size v, arr := b\<rparr>))"

definition reallocate :: "'a::zero memory_api \<Rightarrow> nat \<Rightarrow> 'a GPUArray \<Rightarrow> 'a GPUArray result" where
  "reallocate api sz a =
     (if sz > getNumElements a then
        let new_allocated_size = (if getNumElements a \<noteq> 0 then getNumElements a else 1)
        in GPUArray_resize api (grow_until sz new_allocated_size) a
      else Inr a)"

definition GPUVector_resize :: "'a::zero memory_api \<Rightarrow> nat \<Rightarrow> 'a GPUVector \<Rightarrow> 'a GPUVector result" where
  "GPUVector_resize api new_size v =
     bindr (if new_size > 0 then reallocate api new_size (arr v) else reallocate api 1 (arr v)) (\<lambda>a.
       Inr (v\<lparr>arr := a, m_size := new_size\<rparr>))"

text \<open>\<open>acquireHost\<close> asks for \<open>readwrite\<close> whatever mode it is given.\<close>

definition acquireHost :: "'a memory_api \<Rightarrow> access_mode \<Rightarrow> 'a GPUArray \<Rightarrow> ('a GPUArray \<times> ptr) result" where
  "acquireHost api mode a = aquire api ALhost readwrite a"

text \<open>Acquire on the host, apply \<open>f\<close> to the data, release.\<close>

definition modifyHost :: "'a memory_api \<Rightarrow> access_mode \<Rightarrow> ('a list \<Rightarrow> 'a list) \<Rightarrow> 'a GPUArray \<Rightarrow> 'a GPUArray result" where
  "modifyHost api mode f a =
     bindr (acquireHost api mode a) (\<lambda>(a, p). Inr (release (store a p (f (deref a p)))))"

definition vector_get :: "'a memory_api \<Rightarrow> nat \<Rightarrow> 'a GPUVector \<Rightarrow> ('a \<times> 'a GPUVector) result" where
  "vector_get api n v =
     bindr (check (n < m_size v) Assertion_failed) (\<lambda>_.
      bindr (acquireHost api read (arr v)) (\<lambda>(a, p).
        let val = deref a p ! n in Inr (val, v\<lparr>arr := release a\<rparr>)))"

definition vector_set :: "'a memory_api \<Rightarrow> nat \<Rightarrow> 'a \<Rightarrow> 'a GPUVector \<Rightarrow> 'a GPUVector result" where
  "vector_set api n rhs v =
     bindr (check (n < m_size v) Assertion_failed) (\<lambda>_.
      bindr (modifyHost api readwrite (\<lambda>data. data[n := rhs]) (arr v)) (\<lambda>a. Inr (v\<lparr>arr := a\<rparr>)))"

definition push_back :: "'a::zero memory_api \<Rightarrow> 'a \<Rightarrow> 'a GPUVector \<Rightarrow> 'a GPUVector result" where
  "push_back api val v =
     bindr (reallocate api (m_size v + 1) (arr v)) (\<lambda>a.
      bindr (modifyHost api readwrite (\<lambda>data. data[m_size v := val]) a) (\<lambda>a.
        Inr (v\<lparr>arr := a, m_size := m_size v + 1\<rparr>)))"

definition pop_back :: "'a GPUVector \<Rightarrow> 'a GPUVector result" where
  "pop_back v = bindr (check (m_size v \<noteq> 0) Assertion_failed) (\<lambda>_. Inr (v\<lparr>m_size := m_size v - 1\<rparr>))"

text \<open>The loop of \<open>erase\<close>: \<open>data\<close> advances in each round, \<open>res\<close> in all rounds but the \<open>i\<close>-th.\<close>

definition erase_loop :: "nat \<Rightarrow> nat \<Rightarrow> 'a list \<Rightarrow> 'a list" where
  "erase_loop i sz xs =
     fst (fold (\<lambda>n (xs, res). if n \<noteq> i then (xs[res := xs ! n], res + 1) else (xs, res)) [0..<sz] (xs, 0))"

definition erase :: "'a memory_api \<Rightarrow> nat \<Rightarrow> 'a GPUVector \<Rightarrow> 'a GPUVector result" where
  "erase api i v =
     bindr (check (i < m_size v) Assertion_failed) (\<lambda>_.
      bindr (modifyHost api readwrite (erase_loop i (m_size v)) (arr v)) (\<lambda>a.
        Inr (v\<lparr>arr := a, m_size := m_size v - 1\<rparr>)))"

definition clear :: "'a GPUVector \<Rightarrow> 'a GPUVector" where
  "clear v = v\<lparr>m_size := 0\<rparr>"

section \<open>The storage a vector needs\<close>

text \<open>A vector relies on three promises of its storage: growing keeps the elements, host access applies the
  change that is made through the pointer, and both leave the storage usable. They are stated for
  any storage and proved for the mirrored array.\<close>

locale growable_storage =
  fixes ok :: "'s \<Rightarrow> bool" and elements :: "'s \<Rightarrow> 'a list"
    and regrow :: "nat \<Rightarrow> 's \<Rightarrow> 's result"
    and modify :: "('a list \<Rightarrow> 'a list) \<Rightarrow> 's \<Rightarrow> 's result"
  assumes regrow_ok: "ok s \<Longrightarrow> n < 2 ^ 31 \<Longrightarrow> \<exists>s' ys. regrow n s = Inr s' \<and> ok s'
      \<and> elements s' = elements s @ ys \<and> n \<le> length (elements s')"
    and modify_ok: "ok s \<Longrightarrow> (\<And>xs. length (f xs) = length xs) \<Longrightarrow> \<exists>s'. modify f s = Inr s' \<and> ok s'
      \<and> elements s' = f (elements s)"
begin

text \<open>The sequence a storage holds when the first \<open>n\<close> elements are in use.\<close>

lemma append_refines:
  assumes "ok s" "n \<le> length (elements s)" "n + 1 < 2 ^ 31"
  shows "\<exists>s1 s2. regrow (n + 1) s = Inr s1 \<and> modify (\<lambda>xs. xs[n := x]) s1 = Inr s2 \<and> ok s2
    \<and> n + 1 \<le> length (elements s2) \<and> take (n + 1) (elements s2) = take n (elements s) @ [x]"
proof -
  obtain s1 ys where 1: "regrow (n + 1) s = Inr s1" "ok s1" "elements s1 = elements s @ ys" "n + 1 \<le> length (elements s1)"
    using regrow_ok [OF assms(1,3)] by blast
  obtain s2 where 2: "modify (\<lambda>xs. xs[n := x]) s1 = Inr s2" "ok s2" "elements s2 = (elements s1)[n := x]"
    using modify_ok [OF 1(2), of "\<lambda>xs. xs[n := x]"] by auto
  have "take (n + 1) (elements s2) = take n (elements s) @ [x]"
    using 1(3,4) assms(2) by (simp add: 2(3) take_Suc_conv_app_nth)
  then show ?thesis using 1 2 by (intro exI [of _ s1] exI [of _ s2] conjI) simp_all
qed

lemma modify_refines:
  assumes "ok s" "\<And>xs. length (f xs) = length xs"
  shows "\<exists>s'. modify f s = Inr s' \<and> ok s' \<and> length (elements s') = length (elements s)
    \<and> elements s' = f (elements s)"
  using modify_ok [OF assms] assms(2) by auto

end

text \<open>A usable array: well formed, not acquired, below the size at which growth could overflow.\<close>

definition idle :: "'a GPUArray \<Rightarrow> bool" where
  "idle a \<longleftrightarrow> ginv (a, None) \<and> m_num_elements a < 2 ^ 32"

lemma idleD: "idle a \<Longrightarrow> gpu_ok a" "idle a \<Longrightarrow> mapped_ok a" "idle a \<Longrightarrow> \<not> m_acquired a"
  "idle a \<Longrightarrow> length (contents a) = m_num_elements a"
  by (auto simp: idle_def ginv_def length_contents)

lemma GPUArray_resize_idle:
  assumes "api_ok api" "idle a" "0 < n"
  shows "\<exists>a'. GPUArray_resize api n a = Inr a' \<and> ginv (a', None) \<and> m_num_elements a' = n
    \<and> (\<not> isNull a \<longrightarrow> contents a' = resized n (contents a))"
proof (cases "isNull a")
  case True
  obtain a' where a': "GPUArray_resize api n a = Inr a'" "gpu_ok a'" "length (contents a') = n" "\<not> m_acquired a'"
    "mapped_ok a'"
    using resize_null [OF assms(1) idleD(1) [OF assms(2)] True idleD(3) [OF assms(2)] assms(3) idleD(2) [OF assms(2)]] by blast
  then have "m_num_elements a' = n" using length_contents [OF a'(2)] by simp
  then show ?thesis using a' True by (simp add: ginv_def)
next
  case False
  obtain a' where a': "GPUArray_resize api n a = Inr a'" "gpu_ok a'" "contents a' = resized n (contents a)"
    "m_num_elements a' = n" "\<not> m_acquired a'" "m_mapped a' = m_mapped a" "m_exec_conf a' = m_exec_conf a"
    using resize_correct [OF assms(1) idleD(1) [OF assms(2)] False idleD(3) [OF assms(2)] assms(3)] by blast
  then show ?thesis using mapped_ok_cong [OF a'(6,7)] idleD(2) [OF assms(2)] by (simp add: ginv_def)
qed

lemma reallocate_storage:
  assumes "api_ok api" "idle a" "n < 2 ^ 31"
  shows "\<exists>a' ys. reallocate api n a = Inr a' \<and> idle a' \<and> contents a' = contents a @ ys \<and> n \<le> length (contents a')"
proof (cases "n > m_num_elements a")
  case False
  then show ?thesis using assms idleD(4) [OF assms(2)]
    by (intro exI [of _ a] exI [of _ "[]"]) (simp add: reallocate_def getNumElements_def)
next
  case True
  let ?n = "grow_until n (if m_num_elements a \<noteq> 0 then m_num_elements a else 1)"
  have "(if m_num_elements a \<noteq> 0 then m_num_elements a else 1) < 2 ^ 32" using assms(2) by (simp add: idle_def)
  then have b: "n \<le> ?n" "?n < 2 ^ 32" using grow_until_bounds [of n] assms(3) by blast+
  then have b': "0 < ?n" using True by linarith
  obtain a' where a': "GPUArray_resize api ?n a = Inr a'" "ginv (a', None)" "m_num_elements a' = ?n"
    "\<not> isNull a \<longrightarrow> contents a' = resized ?n (contents a)"
    using GPUArray_resize_idle [OF assms(1,2) b'] by blast
  have idle: "idle a'" using a'(2,3) b(2) by (simp add: idle_def)
  have "reallocate api n a = Inr a'"
    unfolding reallocate_def getNumElements_def Let_def using a'(1) True by (simp only: if_True)
  moreover have "\<exists>ys. contents a' = contents a @ ys"
  proof (cases "isNull a")
    case null: True
    then show ?thesis using contents_null [OF idleD(1) [OF assms(2)]] by simp
  next
    case False
    then show ?thesis using a'(4) idleD(4) [OF assms(2)] True b(1) by simp
  qed
  ultimately show ?thesis using idle idleD(4) [OF idle] a'(3) b(1) by auto
qed

lemma modifyHost_storage:
  assumes "api_ok api" "idle a" "\<And>xs. length (f xs) = length xs"
  shows "\<exists>a'. modifyHost api mode f a = Inr a' \<and> idle a' \<and> contents a' = f (contents a)"
proof -
  note d = idleD [OF assms(2)]
  obtain a1 p where a1: "aquire api ALhost readwrite a = Inr (a1, p)" "acquired_ok readwrite a a1 p"
    using aquire_succeeds [OF assms(1) d(1,3), of ALhost readwrite] by auto
  then have f1: "deref a1 p = contents a" "contents a1 = contents a" "gpu_ok a1" "m_num_elements a1 = m_num_elements a"
    "mapped_ok a1" "isNull a1 = isNull a" "p = PNull \<longleftrightarrow> isNull a"
    using d(2) mapped_ok_cong [of a1 a] by (auto simp: acquired_ok_def)
  have m: "modifyHost api mode f a = Inr (release (store a1 p (f (contents a))))"
    using a1(1) f1(1) by (simp add: modifyHost_def acquireHost_def)
  show ?thesis
  proof (cases "p = PNull")
    case True
    then have e: "contents a = []" using f1(7) contents_null [OF d(1)] by simp
    then have "f (contents a) = contents a1" using assms(3) [of "[]"] f1(2) by simp
    moreover have "store a1 p (f (contents a)) = a1" by (simp add: True store_def)
    ultimately show ?thesis using m f1 assms(2) e
      by (intro exI [of _ "release a1"]) (simp add: release_def idle_def ginv_def mapped_ok_def)
  next
    case False
    have w: "writable a1 p" by (rule acquired_writable [OF a1(2)]) (use False in simp_all)
    have len: "length (f (contents a)) = m_num_elements a1" using assms(3) d(4) f1(4) by simp
    note st = store_correct [OF w len]
    have "idle (release (store a1 p (f (contents a))))" "contents (release (store a1 p (f (contents a)))) = f (contents a)"
      using st f1(4,5) assms(2) by (auto simp: release_def idle_def ginv_def writable_def mapped_ok_def store_def
          split: ptr.splits devptr.splits)
    then show ?thesis using m by blast
  qed
qed

interpretation vector_storage: growable_storage "\<lambda>a. api_ok api \<and> idle a" contents "reallocate api" "modifyHost api mode"
  for api :: "'a::zero memory_api" and mode
  by unfold_locales (use reallocate_storage modifyHost_storage in blast)+

section \<open>Erasing\<close>

lemma erase_loop_state:
  fixes i k :: nat
  assumes "k \<le> sz" "sz \<le> length xs"
  defines "st \<equiv> fold (\<lambda>n (xs, res). if n \<noteq> i then (xs[res := xs ! n], res + 1) else (xs, res)) [0..<k] (xs, 0)"
  shows "length (fst st) = length xs \<and> snd st = (if k \<le> i then k else k - 1)
    \<and> (\<forall>j < snd st. fst st ! j = xs ! (if j < i then j else j + 1)) \<and> (\<forall>j \<ge> snd st. fst st ! j = xs ! j)"
  using assms(1) unfolding st_def
proof (induction k)
  case (Suc k)
  let ?g = "\<lambda>n (xs, res). if n \<noteq> i then (xs[res := xs ! n], res + 1) else (xs, res)"
  obtain ys res where st: "fold ?g [0..<k] (xs, 0) = (ys, res)" by fastforce
  have IH: "length ys = length xs" "res = (if k \<le> i then k else k - 1)"
    "\<And>j. j < res \<Longrightarrow> ys ! j = xs ! (if j < i then j else j + 1)" "\<And>j. res \<le> j \<Longrightarrow> ys ! j = xs ! j"
    using Suc st by auto
  show ?case
  proof (cases "k = i")
    case True
    then show ?thesis using st IH by auto
  next
    case False
    have "res \<le> k" using IH(2) by auto
    then have k: "ys ! k = xs ! k" "res < length ys" using IH(1,4) Suc.prems assms(2) by auto
    have src: "k = (if res < i then res else res + 1)" using IH(2) False by auto
    have "fold ?g [0..<Suc k] (xs, 0) = (ys[res := xs ! k], res + 1)" using st False k(1) by simp
    moreover have "res + 1 = (if Suc k \<le> i then Suc k else Suc k - 1)" using IH(2) False by auto
    moreover have "ys[res := xs ! k] ! j = xs ! (if j < i then j else j + 1)" if "j < res + 1" for j
      using that IH(3) [of j] k(2) src by (cases "j = res") simp_all
    moreover have "ys[res := xs ! k] ! j = xs ! j" if "res + 1 \<le> j" for j using that IH(4) [of j] by simp
    ultimately show ?thesis using IH(1) by simp
  qed
qed simp

lemma length_erase_loop [simp]: "length (erase_loop i sz xs) = length xs"
proof -
  have "length (fst (fold (\<lambda>n (xs, res). if n \<noteq> i then (xs[res := xs ! n], res + 1) else (xs, res)) ns (xs, r))) = length xs"
    for ns r and xs :: "'a list"
    by (induction ns arbitrary: xs r) auto
  then show ?thesis by (simp add: erase_loop_def)
qed

lemma erase_loop_removes:
  assumes "i < sz" "sz \<le> length xs"
  shows "take (sz - 1) (erase_loop i sz xs) = take i xs @ drop (i + 1) (take sz xs)"
proof (rule nth_equalityI)
  show "length (take (sz - 1) (erase_loop i sz xs)) = length (take i xs @ drop (i + 1) (take sz xs))"
    using assms by simp
  fix j assume "j < length (take (sz - 1) (erase_loop i sz xs))"
  then have j: "j < sz - 1" by simp
  have "erase_loop i sz xs ! j = xs ! (if j < i then j else j + 1)"
    using erase_loop_state [of sz sz xs i] assms j by (simp add: erase_loop_def)
  then show "take (sz - 1) (erase_loop i sz xs) ! j = (take i xs @ drop (i + 1) (take sz xs)) ! j"
    using j assms by (simp add: nth_append)
qed

section \<open>Properties of the vector\<close>

definition vec_ok :: "'a GPUVector \<Rightarrow> bool" where
  "vec_ok v \<longleftrightarrow> idle (arr v) \<and> m_size v \<le> length (contents (arr v)) \<and> m_size v < 2 ^ 31"

definition elems :: "'a GPUVector \<Rightarrow> 'a list" where
  "elems v = take (m_size v) (contents (arr v))"

lemma length_elems: "vec_ok v \<Longrightarrow> length (elems v) = m_size v"
  by (simp add: vec_ok_def elems_def)

lemma vec_modify:
  assumes "api_ok api" "vec_ok v" "\<And>xs. length (f xs) = length xs"
  shows "\<exists>a. modifyHost api mode f (arr v) = Inr a \<and> idle a \<and> length (contents a) = length (contents (arr v))
    \<and> contents a = f (contents (arr v))"
  using vector_storage.modify_refines [of api "arr v" f mode] assms by (auto simp: vec_ok_def)

lemma push_back_refines:
  assumes "api_ok api" "vec_ok v" "m_size v + 1 < 2 ^ 31"
  shows "\<exists>v'. push_back api x v = Inr v' \<and> vec_ok v' \<and> elems v' = elems v @ [x]"
proof -
  obtain a b where "reallocate api (m_size v + 1) (arr v) = Inr a" "modifyHost api readwrite (\<lambda>xs. xs[m_size v := x]) a = Inr b"
    "idle b" "m_size v + 1 \<le> length (contents b)" "take (m_size v + 1) (contents b) = take (m_size v) (contents (arr v)) @ [x]"
    using vector_storage.append_refines [of api "arr v" "m_size v" readwrite x] assms by (auto simp: vec_ok_def)
  then show ?thesis using assms(3) by (simp add: push_back_def vec_ok_def elems_def)
qed

lemma pop_back_refines:
  assumes "vec_ok v" "m_size v \<noteq> 0"
  shows "\<exists>v'. pop_back v = Inr v' \<and> vec_ok v' \<and> elems v' = butlast (elems v)"
  using assms by (auto simp: pop_back_def vec_ok_def elems_def butlast_take)

lemma erase_refines:
  assumes "api_ok api" "vec_ok v" "i < m_size v"
  shows "\<exists>v'. erase api i v = Inr v' \<and> vec_ok v' \<and> elems v' = take i (elems v) @ drop (i + 1) (elems v)"
proof -
  obtain a where "modifyHost api readwrite (erase_loop i (m_size v)) (arr v) = Inr a" "idle a"
    "length (contents a) = length (contents (arr v))" "contents a = erase_loop i (m_size v) (contents (arr v))"
    using vec_modify [OF assms(1,2), of "erase_loop i (m_size v)" readwrite] by auto
  then show ?thesis using assms erase_loop_removes [OF assms(3), of "contents (arr v)"]
    by (auto simp: erase_def vec_ok_def elems_def min_def)
qed

lemma vector_set_refines:
  assumes "api_ok api" "vec_ok v" "i < m_size v"
  shows "\<exists>v'. vector_set api i x v = Inr v' \<and> vec_ok v' \<and> elems v' = (elems v)[i := x]"
proof -
  obtain a where "modifyHost api readwrite (\<lambda>data. data[i := x]) (arr v) = Inr a" "idle a"
    "length (contents a) = length (contents (arr v))" "contents a = (contents (arr v))[i := x]"
    using vec_modify [OF assms(1,2), of "\<lambda>data. data[i := x]" readwrite] by auto
  then show ?thesis using assms by (simp add: vector_set_def vec_ok_def elems_def take_update_swap)
qed

lemma vector_get_refines:
  assumes "api_ok api" "vec_ok v" "i < m_size v"
  shows "\<exists>v'. vector_get api i v = Inr (elems v ! i, v') \<and> vec_ok v' \<and> elems v' = elems v"
proof -
  have id: "idle (arr v)" using assms(2) by (simp add: vec_ok_def)
  obtain a p where a: "aquire api ALhost readwrite (arr v) = Inr (a, p)" "acquired_ok readwrite (arr v) a p"
    using aquire_succeeds [OF assms(1) idleD(1,3) [OF id], of ALhost readwrite] by auto
  then have "deref a p = contents (arr v)" "contents (release a) = contents (arr v)" "idle (release a)"
    using id mapped_ok_cong [of a "arr v"] by (auto simp: acquired_ok_def release_def idle_def ginv_def mapped_ok_def)
  then show ?thesis using a(1) assms by (simp add: vector_get_def acquireHost_def vec_ok_def elems_def)
qed

lemma vector_resize_refines:
  assumes "api_ok api" "vec_ok v" "n < 2 ^ 31"
  shows "\<exists>v' ys. GPUVector_resize api n v = Inr v' \<and> vec_ok v' \<and> elems v' = take n (elems v @ ys) \<and> length (elems v') = n"
proof -
  let ?n = "if n > 0 then n else 1"
  have n: "?n < 2 ^ 31" using assms(3) by simp
  obtain a ys where a: "reallocate api ?n (arr v) = Inr a" "idle a" "contents a = contents (arr v) @ ys" "?n \<le> length (contents a)"
    using vector_storage.regrow_ok [OF _ n, of api "arr v"] assms(1,2) unfolding vec_ok_def by blast
  have "contents a = elems v @ (drop (m_size v) (contents (arr v)) @ ys)" by (simp add: elems_def a(3))
  moreover have "GPUVector_resize api n v = Inr (v\<lparr>arr := a, m_size := n\<rparr>)" 
    using a(1) by (cases "n > 0") (simp_all add: GPUVector_resize_def)
  moreover have n': "n \<le> length (contents a)" using a(4) by (simp split: if_splits)
  then have "vec_ok (v\<lparr>arr := a, m_size := n\<rparr>)" "length (elems (v\<lparr>arr := a, m_size := n\<rparr>)) = n"
    using a(2) assms(3) by (simp_all add: vec_ok_def elems_def)
  moreover have "elems (v\<lparr>arr := a, m_size := n\<rparr>) = take n (contents a)" by (simp add: elems_def)
  ultimately show ?thesis by metis
qed

text \<open>C14: the vector is a list. On a well-formed vector of fewer than \<open>2\<^sup>3\<^sup>1 - 1\<close> elements
  \<open>push_back\<close>, \<open>pop_back\<close>, \<open>erase\<close>, \<open>clear\<close>, element
  assignment and \<open>resize\<close> return (the growth loop ends although it computes in single precision)
  and do to the elements what their names say; they keep the vector well formed. \<open>resize\<close> keeps the
  common prefix, and out-of-range accesses fail the assertion.\<close>

theorem GPUVector_refines_list:
  assumes "api_ok api" "vec_ok v" "m_size v + 1 < 2 ^ 31" "n < 2 ^ 31"
  shows "(\<exists>v'. push_back api x v = Inr v' \<and> vec_ok v' \<and> elems v' = elems v @ [x])
    \<and> (if elems v = [] then pop_back v = Inl Assertion_failed
       else \<exists>v'. pop_back v = Inr v' \<and> vec_ok v' \<and> elems v' = butlast (elems v))
    \<and> (if i < length (elems v)
       then (\<exists>v'. erase api i v = Inr v' \<and> vec_ok v' \<and> elems v' = take i (elems v) @ drop (i + 1) (elems v))
          \<and> (\<exists>v'. vector_set api i x v = Inr v' \<and> vec_ok v' \<and> elems v' = (elems v)[i := x])
          \<and> (\<exists>v'. vector_get api i v = Inr (elems v ! i, v') \<and> vec_ok v' \<and> elems v' = elems v)
       else erase api i v = Inl Assertion_failed \<and> vector_set api i x v = Inl Assertion_failed
          \<and> vector_get api i v = Inl Assertion_failed)
    \<and> vec_ok (clear v) \<and> elems (clear v) = []
    \<and> (\<exists>v' ys. GPUVector_resize api n v = Inr v' \<and> vec_ok v' \<and> elems v' = take n (elems v @ ys) \<and> length (elems v') = n)"
proof -
  note len = length_elems [OF assms(2)]
  have "elems v = [] \<longleftrightarrow> m_size v = 0" using len by auto
  then have "if elems v = [] then pop_back v = Inl Assertion_failed
      else \<exists>v'. pop_back v = Inr v' \<and> vec_ok v' \<and> elems v' = butlast (elems v)"
    using pop_back_refines [OF assms(2)] by (simp add: pop_back_def)
  moreover have "erase api i v = Inl Assertion_failed \<and> vector_set api i x v = Inl Assertion_failed
      \<and> vector_get api i v = Inl Assertion_failed" if "\<not> i < m_size v"
    using that by (simp add: erase_def vector_set_def vector_get_def)
  moreover have "vec_ok (clear v)" "elems (clear v) = []" using assms(2) by (simp_all add: clear_def vec_ok_def elems_def)
  ultimately show ?thesis
    using push_back_refines [OF assms(1-3), of x] erase_refines [OF assms(1,2), of i]
      vector_set_refines [OF assms(1,2), of i x] vector_get_refines [OF assms(1,2), of i]
      vector_resize_refines [OF assms(1,2,4)] len by simp
qed

theorem GPUVector_refines_list_witness:
  "\<exists>v. push_back plain_api (5 :: int) GPUVector_null = Inr v \<and> elems v = [5]"
proof -
  have "vec_ok (GPUVector_null :: int GPUVector)" "m_size (GPUVector_null :: int GPUVector) + 1 < 2 ^ 31"
    "elems (GPUVector_null :: int GPUVector) = []" "(0::nat) < 2 ^ 31"
    by (simp_all add: vec_ok_def GPUVector_null_def idle_def ginv_def gpu_ok_def GPUArray_null_def mapped_ok_def elems_def)
  from GPUVector_refines_list [OF plain_api_ok this(1,2,4), of 5] this(3) show ?thesis by auto
qed

text \<open>Assignment does not assign. \<open>operator=\<close> takes over the size of the right-hand side but copies its
  data into a temporary: the elements of the target are those it had before, cut or extended to the
  new size. The right-hand side keeps its elements.\<close>

theorem GPUVector_assign_keeps_data:
  assumes "api_ok api" "vec_ok v" "vec_ok rhs"
  shows "\<exists>v' rhs'. GPUVector_assign api v rhs = Inr (v', rhs') \<and> m_size v' = m_size rhs
    \<and> contents (arr v') = contents (arr v) \<and> elems rhs' = elems rhs"
proof -
  have v: "idle (arr v)" "idle (arr rhs)" using assms(2,3) by (simp_all add: vec_ok_def)
  obtain temp this_arr where c: "GPUArray_copy api (arr v) = Inr (temp, this_arr)" "gpu_ok temp" "\<not> m_acquired temp"
    "contents this_arr = contents (arr v)"
    using GPUArray_copy_correct [OF assms(1) idleD(1,2,3) [OF v(1)]] by blast
  obtain temp' rhs_arr where "GPUArray_assign api temp (arr rhs) = Inr (temp', rhs_arr)"
    "contents rhs_arr = contents (arr rhs)"
    using GPUArray_assign_correct [OF assms(1) c(2,3) idleD(1,2,3) [OF v(2)]] by blast
  then show ?thesis using c by (simp add: GPUVector_assign_def elems_def)
qed

theorem GPUVector_assign_keeps_data_witness:
  "\<exists>v rhs v' rhs'. GPUVector_new plain_api 1 None False = Inr v \<and> vector_set plain_api 0 (9 :: int) v = Inr rhs
    \<and> GPUVector_assign plain_api v rhs = Inr (v', rhs') \<and> elems rhs = [9] \<and> elems v' = [0]"
proof -
  define v :: "int GPUVector" where "v = \<lparr>arr = \<lparr>m_num_elements = 1, m_pitch = 1, m_height = 1, m_acquired = False,
    m_data_location = DLhost, m_mapped = False, d_data = DNull, h_data = Some [0], m_exec_conf = None\<rparr>, m_size = 1\<rparr>"
  have new: "GPUVector_new plain_api 1 None False = Inr v"
    by (simp add: v_def GPUVector_new_def GPUArray_1d_def allocate_def memclear_def cuda_on_def plain_api_def memset0_def)
  have ok: "vec_ok v" "elems v = [0]" "m_size v = 1"
    by (simp_all add: v_def vec_ok_def idle_def ginv_def gpu_ok_def cuda_on_def mapped_ok_def contents_def elems_def)
  obtain rhs where r: "vector_set plain_api 0 9 v = Inr rhs" "vec_ok rhs" "elems rhs = [9]"
    using vector_set_refines [OF plain_api_ok ok(1), of 0 9] ok(2,3) by auto
  then have "m_size rhs = 1" using length_elems [OF r(2)] by simp
  then show ?thesis using GPUVector_assign_keeps_data [OF plain_api_ok ok(1) r(2)] new r(1,3) ok(2,3)
    by (auto simp: elems_def)
qed

end
