(* ===== verification/GPU_Flags.thy ===== *)
theory GPU_Flags
  imports GPU_Array
begin

text \<open>
  The flag word shared between host and device, \<open>data_structures/GPUFlags.h\<close>: kernels set it on the
  device, the host reads and resets it. Memory is that of \<^theory_text>\<open>GPU_Array\<close>, one element per side. The
  copy constructor and the assignment cannot be instantiated (one passes the member function
  \<open>readFlags\<close> instead of its value, the other calls it on a constant) and have no model.
\<close>

section \<open>Flags\<close>

record 'a GPUFlags =
  f_exec_conf :: "ExecConf option"
  f_mapped :: bool
  fd_data :: "'a devptr"
  fh_data :: "'a list option"

definition f_cuda :: "'a GPUFlags \<Rightarrow> bool" where
  "f_cuda f = (case f_exec_conf f of None \<Rightarrow> False | Some e \<Rightarrow> isCUDAEnabled e)"

definition GPUFlags_null :: "'a GPUFlags" where
  "GPUFlags_null = \<lparr>f_exec_conf = None, f_mapped = False, fd_data = DNull, fh_data = None\<rparr>"

definition flags_isNull :: "'a GPUFlags \<Rightarrow> bool" where
  "flags_isNull f \<longleftrightarrow> fh_data f = None"

definition flags_allocate :: "'a memory_api \<Rightarrow> 'a GPUFlags \<Rightarrow> 'a GPUFlags result" where
  "flags_allocate api f =
     bindr (check (fh_data f = None) Assertion_failed) (\<lambda>_.
      bindr (check (fd_data f = DNull) Assertion_failed) (\<lambda>_.
       if f_cuda f then
         if f_mapped f then Inr (f\<lparr>fh_data := Some (posix_memalign api 1), fd_data := DMapped\<rparr>)
         else Inr (f\<lparr>fh_data := Some (posix_memalign api 1), fd_data := DMem (cudaMalloc api 1)\<rparr>)
       else Inr (f\<lparr>fh_data := Some (posix_memalign api 1)\<rparr>)))"

definition flags_deallocate :: "'a GPUFlags \<Rightarrow> 'a GPUFlags result" where
  "flags_deallocate f =
     (if fh_data f = None then Inr f
      else bindr (check (f_cuda f \<longrightarrow> fd_data f \<noteq> DNull) Assertion_failed) (\<lambda>_.
        Inr (f\<lparr>fh_data := None, fd_data := DNull\<rparr>)))"

definition flags_memclear :: "'a::zero memory_api \<Rightarrow> 'a GPUFlags \<Rightarrow> 'a GPUFlags result" where
  "flags_memclear api f =
     (case fh_data f of None \<Rightarrow> Inr f
      | Some h \<Rightarrow>
          let f = f\<lparr>fh_data := Some (memset0 h 0 1)\<rparr>
          in if f_cuda f \<and> \<not> f_mapped f then
               bindr (check (fd_data f \<noteq> DNull) Assertion_failed) (\<lambda>_.
                 Inr (f\<lparr>fd_data := DMem (cudaMemset0 api (dmem (fd_data f)) 0 1)\<rparr>))
             else Inr f)"

definition GPUFlags_new :: "'a::zero memory_api \<Rightarrow> ExecConf \<Rightarrow> 'a GPUFlags result" where
  "GPUFlags_new api exec_conf =
     (let mapped = (if isCUDAEnabled exec_conf \<and> canMapHostMemory exec_conf then True else False)
      in bindr (flags_allocate api \<lparr>f_exec_conf = Some exec_conf, f_mapped = mapped, fd_data = DNull, fh_data = None\<rparr>)
           (flags_memclear api))"

definition flags_swap :: "'a GPUFlags \<Rightarrow> 'a GPUFlags \<Rightarrow> 'a GPUFlags \<times> 'a GPUFlags" where
  "flags_swap f g =
     (f\<lparr>f_mapped := f_mapped g, f_exec_conf := f_exec_conf g, fd_data := fd_data g, fh_data := fh_data g\<rparr>,
      g\<lparr>f_mapped := f_mapped f, f_exec_conf := f_exec_conf f, fd_data := fd_data f, fh_data := fh_data f\<rparr>)"

definition readFlags :: "'a memory_api \<Rightarrow> 'a GPUFlags \<Rightarrow> ('a GPUFlags \<times> 'a) result" where
  "readFlags api f =
     bindr (if f_mapped f then Inr f
            else case f_exec_conf f of None \<Rightarrow> Inl Null_dereference
            | Some e \<Rightarrow> if isCUDAEnabled e
                then Inr (f\<lparr>fh_data := map_option (\<lambda>h. cudaMemcpy api h 0 (dmem (fd_data f)) 0 1) (fh_data f)\<rparr>)
                else Inr f) (\<lambda>f.
       case fh_data f of None \<Rightarrow> Inl Null_dereference | Some h \<Rightarrow> Inr (f, h ! 0))"

definition resetFlags :: "'a memory_api \<Rightarrow> 'a \<Rightarrow> 'a GPUFlags \<Rightarrow> 'a GPUFlags result" where
  "resetFlags api flags f =
     (case fh_data f of None \<Rightarrow> Inl Null_dereference
      | Some h \<Rightarrow>
          let f = f\<lparr>fh_data := Some (h[0 := flags])\<rparr>
          in if f_mapped f then Inr f
             else case f_exec_conf f of None \<Rightarrow> Inl Null_dereference
             | Some e \<Rightarrow> if isCUDAEnabled e
                 then Inr (f\<lparr>fd_data := DMem (cudaMemcpy api (dmem (fd_data f)) 0 (h[0 := flags]) 0 1)\<rparr>)
                 else Inr f)"

text \<open>A kernel writes through the pointer \<open>getDeviceFlags\<close> returned.\<close>

definition kernel_store :: "'a \<Rightarrow> 'a GPUFlags \<Rightarrow> 'a GPUFlags" where
  "kernel_store x f = (case fd_data f of DMem d \<Rightarrow> f\<lparr>fd_data := DMem (d[0 := x])\<rparr>
     | DMapped \<Rightarrow> f\<lparr>fh_data := map_option (\<lambda>h. h[0 := x]) (fh_data f)\<rparr> | DNull \<Rightarrow> f)"

section \<open>The value of the flags\<close>

definition flags_ok :: "'a GPUFlags \<Rightarrow> bool" where
  "flags_ok f \<longleftrightarrow> f_exec_conf f \<noteq> None \<and> (\<exists>h. fh_data f = Some [h])
     \<and> (if f_cuda f then if f_mapped f then fd_data f = DMapped else \<exists>d. fd_data f = DMem [d]
        else fd_data f = DNull \<and> \<not> f_mapped f)"

text \<open>The device side is the current one when there is a device.\<close>

definition flag_value :: "'a GPUFlags \<Rightarrow> 'a" where
  "flag_value f = (case fd_data f of DMem d \<Rightarrow> d ! 0 | _ \<Rightarrow> the (fh_data f) ! 0)"

lemma flags_okE:
  assumes "flags_ok f"
  obtains (host) e h where "f_exec_conf f = Some e" "\<not> isCUDAEnabled e" "fh_data f = Some [h]" "fd_data f = DNull" "\<not> f_mapped f"
  | (mapped) e h where "f_exec_conf f = Some e" "isCUDAEnabled e" "fh_data f = Some [h]" "fd_data f = DMapped" "f_mapped f"
  | (device) e h d where "f_exec_conf f = Some e" "isCUDAEnabled e" "fh_data f = Some [h]" "fd_data f = DMem [d]" "\<not> f_mapped f"
  using assms by (auto simp: flags_ok_def f_cuda_def split: if_splits)

lemma single_copy: "api_ok api \<Longrightarrow> cudaMemcpy api [x] 0 [y] 0 (Suc 0) = [y]"
  by (simp add: api_okD)

text \<open>A flag is one value on both sides. A new flag is zero; \<open>readFlags\<close> returns what the host last reset
  or a kernel last stored, in mapped and in copied memory and without a GPU (where no kernel can
  store), and keeps it; all operations keep the flag well formed.\<close>

theorem GPUFlags_coherent:
  fixes f :: "'a::zero GPUFlags"
  assumes "api_ok api" "flags_ok f"
  shows "(\<exists>g :: 'a GPUFlags. GPUFlags_new api e = Inr g \<and> flags_ok g \<and> flag_value g = 0)
    \<and> (\<exists>g. resetFlags api x f = Inr g \<and> flags_ok g \<and> flag_value g = x)
    \<and> (\<exists>g. readFlags api f = Inr (g, flag_value f) \<and> flags_ok g \<and> flag_value g = flag_value f)
    \<and> flags_ok (kernel_store x f) \<and> (f_cuda f \<longrightarrow> flag_value (kernel_store x f) = x)"
proof -
  have n: "memset0 (posix_memalign api 1) 0 1 = [0]" "cudaMemset0 api (cudaMalloc api 1) 0 1 = [0]"
    using api_okD [OF assms(1)] by (simp_all add: memset0_all)
  have new: "\<exists>g :: 'a GPUFlags. GPUFlags_new api e = Inr g \<and> flags_ok g \<and> flag_value g = 0"
    using n by (cases "isCUDAEnabled e"; cases "canMapHostMemory e")
      (simp_all add: GPUFlags_new_def flags_allocate_def flags_memclear_def f_cuda_def flags_ok_def flag_value_def)
  note simps = resetFlags_def readFlags_def kernel_store_def flags_ok_def flag_value_def f_cuda_def Let_def single_copy [OF assms(1)]
  from assms(2) have "(\<exists>g. resetFlags api x f = Inr g \<and> flags_ok g \<and> flag_value g = x)
      \<and> (\<exists>g. readFlags api f = Inr (g, flag_value f) \<and> flags_ok g \<and> flag_value g = flag_value f)
      \<and> flags_ok (kernel_store x f) \<and> (f_cuda f \<longrightarrow> flag_value (kernel_store x f) = x)"
    by (cases rule: flags_okE) (simp_all add: simps)
  with new show ?thesis by blast
qed

theorem GPUFlags_coherent_witness:
  "\<exists>f :: nat GPUFlags. GPUFlags_new plain_api gpu = Inr f \<and> flags_ok f
    \<and> readFlags plain_api (kernel_store 4 f) = Inr (kernel_store 4 f, 4)"
proof -
  let ?f = "\<lparr>f_exec_conf = Some gpu, f_mapped = True, fd_data = DMapped, fh_data = Some [0 :: nat]\<rparr>"
  have "flags_ok ?f" by (simp add: flags_ok_def f_cuda_def)
  moreover have "GPUFlags_new plain_api gpu = Inr ?f"
    by (simp add: GPUFlags_new_def flags_allocate_def flags_memclear_def f_cuda_def plain_api_def memset0_def)
  moreover have "readFlags plain_api (kernel_store 4 ?f) = Inr (kernel_store 4 ?f, 4)"
    by (simp add: readFlags_def kernel_store_def)
  ultimately show ?thesis using GPUFlags_coherent [OF plain_api_ok, of ?f gpu 4] by blast
qed

end
