(* ===== verification/Cached_Allocator.thy ===== *)
theory Cached_Allocator
  imports Hoomd_Prelude "HOL-Library.Multiset"
begin

text \<open>
  The cache of device allocations, \<open>utils/CachedAllocator.h\<close>: blocks returned by clients stay in a
  multimap ordered by size and are handed out again when they fit within a tolerance; when the total
  exceeds a limit, the largest cached blocks are freed.

  The device heap is explicit: a map from the pointers of live blocks to their sizes. \<open>cudaMalloc\<close> and
  \<open>cudaFree\<close> are not part of the sources; they are the parameter \<open>cu\<close>, and \<open>cuda_heap_ok\<close> names what
  their documentation promises, which says nothing about freeing a pointer that is not live. The null
  pointer is 0. The tolerance \<open>(unsigned int)((float)num_bytes * m_cache_reltol)\<close> is a function of the
  request that the state carries; no property depends on it.
\<close>

section \<open>State\<close>

type_synonym heap = "nat \<rightharpoonup> nat"

record cuda_heap =
  cuda_malloc :: "heap \<Rightarrow> nat \<Rightarrow> heap \<times> nat"
  cuda_free :: "heap \<Rightarrow> nat \<Rightarrow> heap"

definition cuda_heap_ok :: "cuda_heap \<Rightarrow> bool" where
  "cuda_heap_ok cu \<longleftrightarrow>
     (\<forall>h n h' p. finite (dom h) \<longrightarrow> cuda_malloc cu h n = (h', p) \<longrightarrow> p \<noteq> 0 \<and> p \<notin> dom h \<and> h' = h(p \<mapsto> n))
     \<and> (\<forall>h p. p \<in> dom h \<longrightarrow> cuda_free cu h p = h(p := None))"

record CachedAllocator =
  num_bytes_tot :: nat
  max_cached_bytes :: nat
  cache_tol :: "nat \<Rightarrow> nat"
  free_blocks :: "(nat \<times> nat) list"
  allocated_blocks :: "nat \<rightharpoonup> nat"

definition CachedAllocator_new :: "nat \<Rightarrow> (nat \<Rightarrow> nat) \<Rightarrow> CachedAllocator" where
  "CachedAllocator_new max_bytes tol = \<lparr>num_bytes_tot = 0, max_cached_bytes = max_bytes, cache_tol = tol,
     free_blocks = [], allocated_blocks = Map.empty\<rparr>"

definition setMaxCachedBytes :: "CachedAllocator \<Rightarrow> nat \<Rightarrow> CachedAllocator" where
  "setMaxCachedBytes c n = c\<lparr>max_cached_bytes := n\<rparr>"

text \<open>\<open>std::multimap::insert\<close> puts a pair behind those of equal key; \<open>lower_bound\<close> finds the first pair whose
  key is at least the given one, which the split below erases.\<close>

fun insert_block :: "nat \<times> nat \<Rightarrow> (nat \<times> nat) list \<Rightarrow> (nat \<times> nat) list" where
  "insert_block b [] = [b]"
| "insert_block b (c # cs) = (if fst b < fst c then b # c # cs else c # insert_block b cs)"

fun split_lower_bound :: "nat \<Rightarrow> (nat \<times> nat) list \<Rightarrow> (nat \<times> nat) list \<times> (nat \<times> nat) list" where
  "split_lower_bound n [] = ([], [])"
| "split_lower_bound n (c # cs) =
     (if n \<le> fst c then ([], c # cs) else case split_lower_bound n cs of (xs, ys) \<Rightarrow> (c # xs, ys))"

section \<open>Operations\<close>

definition deallocate_block :: "CachedAllocator \<Rightarrow> nat \<Rightarrow> CachedAllocator result" where
  "deallocate_block c p =
     (if p = 0 then Inr c
      else case allocated_blocks c p of None \<Rightarrow> Inl Assertion_failed
      | Some num_bytes \<Rightarrow>
          Inr (c\<lparr>allocated_blocks := (allocated_blocks c)(p := None),
                 free_blocks := insert_block (num_bytes, p) (free_blocks c)\<rparr>))"

text \<open>The loop that removes the largest cached blocks; the list of free blocks gets shorter.\<close>

function evict :: "cuda_heap \<Rightarrow> heap \<times> CachedAllocator \<Rightarrow> heap \<times> CachedAllocator" where
  "evict cu (h, c) =
     (if num_bytes_tot c > max_cached_bytes c \<and> free_blocks c \<noteq> [] then
        let i = last (free_blocks c)
        in evict cu (cuda_free cu h (snd i),
             c\<lparr>num_bytes_tot := (num_bytes_tot c + 2 ^ 32 - fst i mod 2 ^ 32) mod 2 ^ 32,
               free_blocks := butlast (free_blocks c)\<rparr>)
      else (h, c))"
  by pat_completeness auto
termination by (relation "measure (\<lambda>(cu, h, c). length (free_blocks c))") auto

declare evict.simps [simp del]

definition getTemporaryBuffer :: "cuda_heap \<Rightarrow> nat \<Rightarrow> heap \<times> CachedAllocator \<Rightarrow> (heap \<times> CachedAllocator) \<times> nat" where
  "getTemporaryBuffer cu num_bytes = (\<lambda>(h, c).
     if num_bytes = 0 then ((h, c), 0)
     else case split_lower_bound num_bytes (free_blocks c) of
       (xs, b # ys) \<Rightarrow>
         if fst b \<le> num_bytes + cache_tol c num_bytes then
           ((h, c\<lparr>free_blocks := xs @ ys, allocated_blocks := (allocated_blocks c)(snd b \<mapsto> fst b mod 2 ^ 32)\<rparr>), snd b)
         else let (h, p) = cuda_malloc cu h num_bytes;
                  (h, c) = evict cu (h, c\<lparr>num_bytes_tot := (num_bytes_tot c + num_bytes) mod 2 ^ 32\<rparr>)
              in ((h, c\<lparr>allocated_blocks := (allocated_blocks c)(p \<mapsto> num_bytes mod 2 ^ 32)\<rparr>), p)
     | (xs, []) \<Rightarrow>
         let (h, p) = cuda_malloc cu h num_bytes;
             (h, c) = evict cu (h, c\<lparr>num_bytes_tot := (num_bytes_tot c + num_bytes) mod 2 ^ 32\<rparr>)
         in ((h, c\<lparr>allocated_blocks := (allocated_blocks c)(p \<mapsto> num_bytes mod 2 ^ 32)\<rparr>), p))"

text \<open>The pointers of the allocated blocks in increasing order, as iterating over the \<open>std::map\<close> gives them.\<close>

definition free_all :: "cuda_heap \<Rightarrow> heap \<times> CachedAllocator \<Rightarrow> heap" where
  "free_all cu = (\<lambda>(h, c).
     fold (\<lambda>p h. cuda_free cu h p) (map snd (free_blocks c) @ sorted_list_of_set (dom (allocated_blocks c))) h)"

text \<open>\<open>ScopedAllocation\<close> takes a buffer in its constructor and returns it in its destructor.\<close>

definition ScopedAllocation_new :: "cuda_heap \<Rightarrow> nat \<Rightarrow> nat \<Rightarrow> heap \<times> CachedAllocator \<Rightarrow> (heap \<times> CachedAllocator) \<times> nat" where
  "ScopedAllocation_new cu sizeof num_elements s = getTemporaryBuffer cu (sizeof * num_elements) s"

definition ScopedAllocation_delete :: "heap \<times> CachedAllocator \<Rightarrow> nat \<Rightarrow> (heap \<times> CachedAllocator) result" where
  "ScopedAllocation_delete = (\<lambda>(h, c) data. bindr (deallocate_block c data) (\<lambda>c. Inr (h, c)))"

section \<open>Invariant\<close>

text \<open>The live blocks of the heap are the cached and the handed-out blocks, which are disjoint; sizes agree
  with the heap, cached blocks are ordered by size and the byte count is the total modulo \<open>2\<^sup>3\<^sup>2\<close>.\<close>

definition alloc_inv :: "heap \<times> CachedAllocator \<Rightarrow> bool" where
  "alloc_inv = (\<lambda>(h, c).
     finite (dom h) \<and> 0 \<notin> dom h \<and> distinct (map snd (free_blocks c)) \<and> sorted (map fst (free_blocks c))
     \<and> dom h = snd ` set (free_blocks c) \<union> dom (allocated_blocks c)
     \<and> snd ` set (free_blocks c) \<inter> dom (allocated_blocks c) = {}
     \<and> (\<forall>(n, p) \<in> set (free_blocks c). h p = Some n) \<and> (\<forall>p \<in> dom (allocated_blocks c). h p = allocated_blocks c p)
     \<and> (\<forall>n \<in> ran h. n < 2 ^ 32)
     \<and> num_bytes_tot c = (\<Sum>p \<in> dom h. the (h p)) mod 2 ^ 32)"

lemma set_insert_block [simp]: "set (insert_block b cs) = insert b (set cs)"
  by (induction cs) auto

lemma mset_insert_block: "mset (insert_block b cs) = add_mset b (mset cs)"
  by (induction cs) auto

lemma sorted_insert_block: "sorted (map fst cs) \<Longrightarrow> sorted (map fst (insert_block b cs))"
  by (induction cs) (auto simp: less_imp_le)

lemma split_lower_bound_append: "split_lower_bound n cs = (xs, ys) \<Longrightarrow> cs = xs @ ys \<and> (\<forall>y ys'. ys = y # ys' \<longrightarrow> n \<le> fst y)"
  by (induction cs arbitrary: xs) (auto split: if_splits prod.splits)

lemma distinct_insert_block:
  "distinct (map snd cs) \<Longrightarrow> snd b \<notin> snd ` set cs \<Longrightarrow> distinct (map snd (insert_block b cs))"
proof -
  assume "distinct (map snd cs)" "snd b \<notin> snd ` set cs"
  moreover have "mset (map snd (insert_block b cs)) = mset (map snd (b # cs))" by (simp add: mset_insert_block)
  ultimately show ?thesis by (metis (no_types, lifting) distinct.simps(2) list.set_map list.simps(9) mset_eq_imp_distinct_iff)
qed

lemma alloc_invD:
  assumes "alloc_inv (h, c)"
  shows "finite (dom h)" "0 \<notin> dom h" "distinct (map snd (free_blocks c))" "sorted (map fst (free_blocks c))"
    "dom h = snd ` set (free_blocks c) \<union> dom (allocated_blocks c)"
    "snd ` set (free_blocks c) \<inter> dom (allocated_blocks c) = {}"
    "\<And>n p. (n, p) \<in> set (free_blocks c) \<Longrightarrow> h p = Some n"
    "\<And>p. p \<in> dom (allocated_blocks c) \<Longrightarrow> h p = allocated_blocks c p"
    "\<And>p n. h p = Some n \<Longrightarrow> n < 2 ^ 32"
    "num_bytes_tot c = (\<Sum>p \<in> dom h. the (h p)) mod 2 ^ 32"
  using assms unfolding alloc_inv_def by (auto simp: ran_def)

lemma alloc_invI:
  assumes "finite (dom h)" "0 \<notin> dom h" "distinct (map snd (free_blocks c))" "sorted (map fst (free_blocks c))"
    "dom h = snd ` set (free_blocks c) \<union> dom (allocated_blocks c)"
    "snd ` set (free_blocks c) \<inter> dom (allocated_blocks c) = {}"
    "\<And>n p. (n, p) \<in> set (free_blocks c) \<Longrightarrow> h p = Some n"
    "\<And>p. p \<in> dom (allocated_blocks c) \<Longrightarrow> h p = allocated_blocks c p"
    "\<And>p n. h p = Some n \<Longrightarrow> n < 2 ^ 32"
    "num_bytes_tot c = (\<Sum>p \<in> dom h. the (h p)) mod 2 ^ 32"
  shows "alloc_inv (h, c)"
  unfolding alloc_inv_def split using assms by (auto simp: ran_def)

lemma cuda_heap_okD:
  assumes "cuda_heap_ok cu"
  shows "finite (dom h) \<Longrightarrow> cuda_malloc cu h n = (h', p) \<Longrightarrow> p \<noteq> 0 \<and> p \<notin> dom h \<and> h' = h(p \<mapsto> n)"
    and "p \<in> dom h \<Longrightarrow> cuda_free cu h p = h(p := None)"
  using assms unfolding cuda_heap_ok_def by blast+

lemma subtract_mod: "(n::nat) \<le> s \<Longrightarrow> n < m \<Longrightarrow> (s mod m + m - n mod m) mod m = (s - n) mod m"
proof -
  assume "n \<le> s" "n < m"
  have "(s mod m + m - n) mod m = (s mod m + (m - n)) mod m" using \<open>n < m\<close> by simp
  also have "\<dots> = (s + (m - n)) mod m" by (simp add: mod_add_left_eq)
  also have "s + (m - n) = s - n + m" using \<open>n \<le> s\<close> \<open>n < m\<close> by simp
  finally show ?thesis using \<open>n < m\<close> by simp
qed

text \<open>Freeing a cached block, the step of the eviction loop.\<close>

lemma drop_block_inv:
  assumes "alloc_inv (h, c)" "free_blocks c = bs @ [(n, p)]"
  shows "alloc_inv (h(p := None), c\<lparr>num_bytes_tot := (num_bytes_tot c + 2 ^ 32 - n mod 2 ^ 32) mod 2 ^ 32,
      free_blocks := bs\<rparr>)" and "p \<in> dom h"
proof -
  note d = alloc_invD [OF assms(1), unfolded assms(2)]
  have hp: "h p = Some n" using d(7) by simp
  then show p: "p \<in> dom h" by blast
  have fresh: "p \<notin> snd ` set bs" "p \<notin> dom (allocated_blocks c)" using d(3,6) by auto
  have n: "n < 2 ^ 32" "n \<le> (\<Sum>q \<in> dom h. the (h q))"
    using d(9) [OF hp] sum.remove [OF d(1) p, of "\<lambda>q. the (h q)"] hp by simp_all
  have "(\<Sum>q \<in> dom (h(p := None)). the ((h(p := None)) q)) = (\<Sum>q \<in> dom h - {p}. the (h q))"
    by (rule sum.cong) auto
  also have "\<dots> = (\<Sum>q \<in> dom h. the (h q)) - n" using sum.remove [OF d(1) p, of "\<lambda>q. the (h q)"] hp by simp
  finally have tot: "(num_bytes_tot c + 2 ^ 32 - n mod 2 ^ 32) mod 2 ^ 32
      = (\<Sum>q \<in> dom (h(p := None)). the ((h(p := None)) q)) mod 2 ^ 32"
    using subtract_mod [OF n(2,1)] d(10) by simp
  show "alloc_inv (h(p := None), c\<lparr>num_bytes_tot := (num_bytes_tot c + 2 ^ 32 - n mod 2 ^ 32) mod 2 ^ 32,
      free_blocks := bs\<rparr>)" (is "alloc_inv (_, ?c)")
  proof (rule alloc_invI)
    have f: "free_blocks ?c = bs" "allocated_blocks ?c = allocated_blocks c" by simp_all
    show "finite (dom (h(p := None)))" "0 \<notin> dom (h(p := None))" using d(1,2) by simp_all
    show "distinct (map snd (free_blocks ?c))" "sorted (map fst (free_blocks ?c))"
      using d(3,4) unfolding f by (simp_all add: sorted_append)
    show "dom (h(p := None)) = snd ` set (free_blocks ?c) \<union> dom (allocated_blocks ?c)"
      unfolding f using d(5) fresh by auto
    show "snd ` set (free_blocks ?c) \<inter> dom (allocated_blocks ?c) = {}" unfolding f using d(6) by auto
    show "(h(p := None)) q = Some m" if "(m, q) \<in> set (free_blocks ?c)" for m q
      using that d(7) [of m q] fresh(1) unfolding f by force
    show "(h(p := None)) q = allocated_blocks ?c q" if "q \<in> dom (allocated_blocks ?c)" for q
      using that d(8) [of q] fresh(2) unfolding f by auto
    show "m < 2 ^ 32" if "(h(p := None)) q = Some m" for q m
      using that d(9) [of q m] by (cases "q = p") simp_all
    show "num_bytes_tot ?c = (\<Sum>q \<in> dom (h(p := None)). the ((h(p := None)) q)) mod 2 ^ 32" using tot by simp
  qed
qed

lemma evict_inv:
  assumes "cuda_heap_ok cu" "alloc_inv (h, c)"
  shows "alloc_inv (evict cu (h, c)) \<and> allocated_blocks (snd (evict cu (h, c))) = allocated_blocks c
    \<and> max_cached_bytes (snd (evict cu (h, c))) = max_cached_bytes c
    \<and> (num_bytes_tot (snd (evict cu (h, c))) \<le> max_cached_bytes c \<or> free_blocks (snd (evict cu (h, c))) = [])"
  using assms
proof (induction cu "(h, c)" arbitrary: h c rule: evict.induct)
  case (1 cu h c)
  show ?case
  proof (cases "num_bytes_tot c > max_cached_bytes c \<and> free_blocks c \<noteq> []")
    case False
    then show ?thesis using 1(3) by (auto simp: evict.simps [of cu h c])
  next
    case True
    obtain bs n p where b: "free_blocks c = bs @ [(n, p)]" using True by (metis rev_exhaust surj_pair)
    note step = drop_block_inv [OF 1(3) b]
    have "cuda_free cu h p = h(p := None)" by (rule cuda_heap_okD(2) [OF 1(2) step(2)])
    then show ?thesis using 1(1) [OF True refl 1(2)] step(1) True b by (simp add: evict.simps [of cu h c] Let_def)
  qed
qed

lemma evict_allocated:
  "evict cu (h, c\<lparr>allocated_blocks := A\<rparr>) = (case evict cu (h, c) of (h', c') \<Rightarrow> (h', c'\<lparr>allocated_blocks := A\<rparr>))"
proof (induction cu "(h, c)" arbitrary: h c rule: evict.induct)
  case (1 cu h c)
  show ?case
  proof (cases "num_bytes_tot c > max_cached_bytes c \<and> free_blocks c \<noteq> []")
    case True
    then show ?thesis using 1 [OF True refl] by (cases c) (simp add: evict.simps [of cu h] Let_def)
  next
    case False
    then show ?thesis by (auto simp: evict.simps [of cu h])
  qed
qed

text \<open>Moving a block between the two maps keeps the heap as it is.\<close>

lemma deallocate_inv:
  assumes "alloc_inv (h, c)" "allocated_blocks c p = Some n"
  shows "alloc_inv (h, c\<lparr>allocated_blocks := (allocated_blocks c)(p := None),
      free_blocks := insert_block (n, p) (free_blocks c)\<rparr>)" (is "alloc_inv (_, ?c)")
proof (rule alloc_invI)
  note d = alloc_invD [OF assms(1)]
  have p: "p \<in> dom (allocated_blocks c)" "p \<notin> snd ` set (free_blocks c)" "h p = Some n"
    using assms(2) d(6) d(8) [of p] by auto
  have f: "free_blocks ?c = insert_block (n, p) (free_blocks c)" "allocated_blocks ?c = (allocated_blocks c)(p := None)"
    by simp_all
  show "finite (dom h)" "0 \<notin> dom h" by (fact d(1,2))+
  show "distinct (map snd (free_blocks ?c))" unfolding f using distinct_insert_block [OF d(3), of "(n, p)"] p(2) by simp
  show "sorted (map fst (free_blocks ?c))" unfolding f by (rule sorted_insert_block [OF d(4)])
  show "dom h = snd ` set (free_blocks ?c) \<union> dom (allocated_blocks ?c)" unfolding f using d(5) p(1) by auto
  show "snd ` set (free_blocks ?c) \<inter> dom (allocated_blocks ?c) = {}" unfolding f using d(6) by auto
  show "h q = Some m" if "(m, q) \<in> set (free_blocks ?c)" for m q
    using that d(7) [of m q] p(3) unfolding f by auto
  show "h q = allocated_blocks ?c q" if "q \<in> dom (allocated_blocks ?c)" for q
    using that d(8) [of q] unfolding f by (auto split: if_splits)
  show "m < 2 ^ 32" if "h q = Some m" for q m by (rule d(9) [OF that])
  show "num_bytes_tot ?c = (\<Sum>q \<in> dom h. the (h q)) mod 2 ^ 32" using d(10) by simp
qed

lemma reuse_inv:
  assumes "alloc_inv (h, c)" "free_blocks c = xs @ (n, p) # ys"
  shows "alloc_inv (h, c\<lparr>free_blocks := xs @ ys, allocated_blocks := (allocated_blocks c)(p \<mapsto> n)\<rparr>)"
    (is "alloc_inv (_, ?c)")
proof (rule alloc_invI)
  note d = alloc_invD [OF assms(1), unfolded assms(2)]
  have p: "p \<notin> dom (allocated_blocks c)" "p \<notin> snd ` set (xs @ ys)" "h p = Some n"
    using d(3) d(6) d(7) [of n p] by auto
  have f: "free_blocks ?c = xs @ ys" "allocated_blocks ?c = (allocated_blocks c)(p \<mapsto> n)" by simp_all
  show "finite (dom h)" "0 \<notin> dom h" by (fact d(1,2))+
  show "distinct (map snd (free_blocks ?c))" unfolding f using d(3) by auto
  show "sorted (map fst (free_blocks ?c))" unfolding f using d(4) by (auto simp: sorted_append)
  show "dom h = snd ` set (free_blocks ?c) \<union> dom (allocated_blocks ?c)" unfolding f using d(5) by auto
  show "snd ` set (free_blocks ?c) \<inter> dom (allocated_blocks ?c) = {}" unfolding f using d(6) p(2) by auto
  show "h q = Some m" if "(m, q) \<in> set (free_blocks ?c)" for m q using that d(7) [of m q] unfolding f by auto
  show "h q = allocated_blocks ?c q" if "q \<in> dom (allocated_blocks ?c)" for q
    using that d(8) [of q] p(3) unfolding f by (auto split: if_splits)
  show "m < 2 ^ 32" if "h q = Some m" for q m by (rule d(9) [OF that])
  show "num_bytes_tot ?c = (\<Sum>q \<in> dom h. the (h q)) mod 2 ^ 32" using d(10) by simp
qed

lemma malloc_inv:
  assumes "alloc_inv (h, c)" "p \<noteq> 0" "p \<notin> dom h" "n < 2 ^ 32"
  shows "alloc_inv (h(p \<mapsto> n), c\<lparr>num_bytes_tot := (num_bytes_tot c + n) mod 2 ^ 32,
      allocated_blocks := (allocated_blocks c)(p \<mapsto> n)\<rparr>)" (is "alloc_inv (?h, ?c)")
proof (rule alloc_invI)
  note d = alloc_invD [OF assms(1)]
  have f: "free_blocks ?c = free_blocks c" "allocated_blocks ?c = (allocated_blocks c)(p \<mapsto> n)" by simp_all
  have new: "p \<notin> snd ` set (free_blocks c)" "p \<notin> dom (allocated_blocks c)" using assms(3) d(5) by auto
  show "finite (dom ?h)" "0 \<notin> dom ?h" using d(1,2) assms(2) by auto
  show "distinct (map snd (free_blocks ?c))" "sorted (map fst (free_blocks ?c))" unfolding f by (fact d(3,4))+
  show "dom ?h = snd ` set (free_blocks ?c) \<union> dom (allocated_blocks ?c)" unfolding f using d(5) by auto
  show "snd ` set (free_blocks ?c) \<inter> dom (allocated_blocks ?c) = {}" unfolding f using d(6) new by auto
  show "?h q = Some m" if "(m, q) \<in> set (free_blocks ?c)" for m q
    using that d(7) [of m q] new(1) unfolding f by force
  show "?h q = allocated_blocks ?c q" if "q \<in> dom (allocated_blocks ?c)" for q
    using that d(8) [of q] unfolding f by (auto split: if_splits)
  show "m < 2 ^ 32" if "?h q = Some m" for q m using that d(9) [of q m] assms(4) by (auto split: if_splits)
  have "(\<Sum>q \<in> dom ?h. the (?h q)) = n + (\<Sum>q \<in> dom h. the (?h q))" using d(1) assms(3) by simp
  also have "(\<Sum>q \<in> dom h. the (?h q)) = (\<Sum>q \<in> dom h. the (h q))" using assms(3) by (intro sum.cong) auto
  finally have e: "(\<Sum>q \<in> dom ?h. the (?h q)) = n + (\<Sum>q \<in> dom h. the (h q))" .
  show "num_bytes_tot ?c = (\<Sum>q \<in> dom ?h. the (?h q)) mod 2 ^ 32"
    unfolding e using d(10) by (simp add: mod_add_left_eq mod_add_right_eq add.commute)
qed

text \<open>What a client gets: a block that was not handed out, at least as large as requested, live on the heap.\<close>

lemma getTemporaryBuffer_correct:
  assumes "cuda_heap_ok cu" "alloc_inv (h, c)" "0 < n" "n < 2 ^ 32" "getTemporaryBuffer cu n (h, c) = ((h', c'), p)"
  shows "alloc_inv (h', c') \<and> p \<noteq> 0 \<and> p \<notin> dom (allocated_blocks c)
    \<and> (\<exists>m \<ge> n. allocated_blocks c' = (allocated_blocks c)(p \<mapsto> m) \<and> h' p = Some m)
    \<and> (num_bytes_tot c' \<le> max_cached_bytes c \<or> free_blocks c' = [] \<or> h' = h \<and> num_bytes_tot c' = num_bytes_tot c)"
proof -
  note d = alloc_invD [OF assms(2)]
  obtain xs ys where s: "split_lower_bound n (free_blocks c) = (xs, ys)" by fastforce
  note app = split_lower_bound_append [OF s]
  show ?thesis
  proof (cases "\<exists>m q zs. ys = (m, q) # zs \<and> m \<le> n + cache_tol c n")
    case True
    then obtain m zs q where y: "ys = (m, q) # zs" "m \<le> n + cache_tol c n" by blast
    then have fb: "free_blocks c = xs @ (m, q) # zs" "n \<le> m" using app by auto
    have hq: "h q = Some m" using d(7) fb(1) by simp
    have "m mod 2 ^ 32 = m" using d(9) [OF hq] by simp
    then have r: "p = q" "h' = h" "c' = c\<lparr>free_blocks := xs @ zs, allocated_blocks := (allocated_blocks c)(q \<mapsto> m)\<rparr>"
      using assms(3,5) s y by (auto simp: getTemporaryBuffer_def)
    have "q \<notin> dom (allocated_blocks c)" using d(6) fb(1) by auto
    moreover have "q \<noteq> 0" using hq d(2) by (metis domI)
    ultimately show ?thesis using r reuse_inv [OF assms(2) fb(1)] fb(2) hq by auto
  next
    case False
    obtain h1 q where q: "cuda_malloc cu h n = (h1, q)" by fastforce
    note fresh = cuda_heap_okD(1) [OF assms(1) d(1) q]
    let ?c1 = "c\<lparr>num_bytes_tot := (num_bytes_tot c + n) mod 2 ^ 32\<rparr>"
    obtain h2 c2 where e: "evict cu (h1, ?c1) = (h2, c2)" by fastforce
    have nm: "n mod 2 ^ 32 = n" using assms(4) by simp
    have r: "p = q" "h' = h2" "c' = c2\<lparr>allocated_blocks := (allocated_blocks c2)(q \<mapsto> n)\<rparr>"
      using assms(3,5) s q e False nm
      by (auto simp: getTemporaryBuffer_def Let_def split: list.splits if_splits)
    let ?A = "(allocated_blocks c)(q \<mapsto> n)"
    have inv: "alloc_inv (h1, ?c1\<lparr>allocated_blocks := ?A\<rparr>)"
      using malloc_inv [OF assms(2), of q n] fresh assms(4) by simp
    have e': "evict cu (h1, ?c1\<lparr>allocated_blocks := ?A\<rparr>) = (h2, c2\<lparr>allocated_blocks := ?A\<rparr>)"
      using evict_allocated [of cu h1 ?A ?c1] e by simp
    have "allocated_blocks c2 = allocated_blocks c"
    proof -
      have "allocated_blocks (snd (evict cu (h1, ?c1))) = allocated_blocks (snd (evict cu (h1, ?c1\<lparr>allocated_blocks := allocated_blocks c\<rparr>)))"
        by simp
      also have "\<dots> = allocated_blocks c" unfolding evict_allocated by (simp split: prod.split)
      finally show ?thesis using e by simp
    qed
    then have c': "c' = c2\<lparr>allocated_blocks := ?A\<rparr>" using r(3) by simp
    have post: "alloc_inv (h2, c')" "num_bytes_tot c' \<le> max_cached_bytes c \<or> free_blocks c' = []"
      using evict_inv [OF assms(1) inv] e' by (simp_all add: c')
    have "h2 q = Some n" using alloc_invD(8) [OF post(1), of q] by (simp add: c')
    moreover have "q \<notin> dom (allocated_blocks c)" using fresh d(5) by blast
    ultimately show ?thesis using post r(1,2) fresh by (auto simp: c')
  qed
qed

section \<open>Runs of the allocator\<close>

text \<open>Requests below 4 GB, returns of blocks that are handed out and changes of the limit, in any order.\<close>

datatype alloc_event = Get nat nat | Return nat | SetMax nat

inductive alloc_step :: "cuda_heap \<Rightarrow> heap \<times> CachedAllocator \<Rightarrow> alloc_event \<Rightarrow> heap \<times> CachedAllocator \<Rightarrow> bool" for cu where
  get: "n < 2 ^ 32 \<Longrightarrow> getTemporaryBuffer cu n s = (s', p) \<Longrightarrow> alloc_step cu s (Get n p) s'"
| return: "deallocate_block c p = Inr c' \<Longrightarrow> alloc_step cu (h, c) (Return p) (h, c')"
| setmax: "alloc_step cu (h, c) (SetMax n) (h, setMaxCachedBytes c n)"

inductive_cases alloc_stepE: "alloc_step cu s (Get n p) s'" "alloc_step cu s (Return p) s'" "alloc_step cu s (SetMax n) s'"

text \<open>What a client may count on: a map from the buffers it holds to their sizes. A request adds a buffer
  it does not hold yet, of at least the size asked for; a return removes one.\<close>

inductive client_step :: "(nat \<rightharpoonup> nat) \<Rightarrow> alloc_event \<Rightarrow> (nat \<rightharpoonup> nat) \<Rightarrow> bool" where
  "client_step held (Get 0 0) held"
| "p \<notin> dom held \<Longrightarrow> p \<noteq> 0 \<Longrightarrow> 0 < n \<Longrightarrow> n \<le> m \<Longrightarrow> client_step held (Get n p) (held(p \<mapsto> m))"
| "client_step held (Return 0) held"
| "p \<in> dom held \<Longrightarrow> client_step held (Return p) (held(p := None))"
| "client_step held (SetMax n) held"

lemma alloc_step_simulated:
  assumes "cuda_heap_ok cu" "alloc_inv s" "alloc_step cu s e t"
  shows "alloc_inv t \<and> client_step (allocated_blocks (snd s)) e (allocated_blocks (snd t))"
  using assms(3)
proof cases
  case (get n p)
  obtain h c h' c' where st: "s = (h, c)" "t = (h', c')" by fastforce
  show ?thesis
  proof (cases "n = 0")
    case True
    then show ?thesis using get assms(2) st by (auto simp: getTemporaryBuffer_def intro: client_step.intros)
  next
    case False
    have g: "getTemporaryBuffer cu n (h, c) = ((h', c'), p)" "n < 2 ^ 32" "0 < n" "alloc_inv (h, c)"
      using get st False assms(2) by auto
    obtain m where "alloc_inv (h', c')" "p \<noteq> 0" "p \<notin> dom (allocated_blocks c)" "n \<le> m"
      "allocated_blocks c' = (allocated_blocks c)(p \<mapsto> m)"
      using getTemporaryBuffer_correct [OF assms(1) g(4,3,2,1)] by blast
    then show ?thesis using client_step.intros(2) [of p "allocated_blocks c" n m] g(3) st get(1) by simp
  qed
next
  case (return c p c' h)
  show ?thesis
  proof (cases "p = 0")
    case True
    then show ?thesis using return assms(2) by (auto simp: deallocate_block_def intro: client_step.intros)
  next
    case False
    then obtain n where n: "allocated_blocks c p = Some n" using return(4) by (auto simp: deallocate_block_def split: option.splits)
    then have c': "c' = c\<lparr>allocated_blocks := (allocated_blocks c)(p := None), free_blocks := insert_block (n, p) (free_blocks c)\<rparr>"
      using return(4) False by (simp add: deallocate_block_def)
    have "client_step (allocated_blocks c) (Return p) ((allocated_blocks c)(p := None))"
      using n by (intro client_step.intros) auto
    then show ?thesis using deallocate_inv [OF _ n] assms(2) return(1,2) c' by (simp add: return)
  qed
next
  case (setmax h c n)
  moreover have "alloc_inv (h, setMaxCachedBytes c n)"
    using alloc_invD [of h c] assms(2) setmax(1) by (intro alloc_invI) (simp_all add: setMaxCachedBytes_def)
  ultimately show ?thesis using client_step.intros(5) by (simp add: setMaxCachedBytes_def)
qed

interpretation cached_allocator: simulation "\<lambda>s e t. cuda_heap_ok cu \<and> alloc_step cu s e t" client_step alloc_inv
  "\<lambda>s. allocated_blocks (snd s)" for cu
  by unfold_locales (use alloc_step_simulated in blast)

lemma alloc_inv_new: "alloc_inv (Map.empty, CachedAllocator_new m tol)"
  by (simp add: alloc_inv_def CachedAllocator_new_def)

lemma free_fold:
  assumes "cuda_heap_ok cu" "distinct ps" "set ps \<subseteq> dom h"
  shows "fold (\<lambda>p h. cuda_free cu h p) ps h = h |` (- set ps)"
  using assms(2,3)
proof (induction ps arbitrary: h)
  case (Cons p ps)
  then have "cuda_free cu h p = h(p := None)" using cuda_heap_okD(2) [OF assms(1), of p h] by simp
  moreover have "fold (\<lambda>p h. cuda_free cu h p) ps (h(p := None)) = (h(p := None)) |` (- set ps)"
    using Cons by (intro Cons.IH) auto
  moreover have "(h(p := None)) |` (- set ps) = h |` (- set (p # ps))" by (auto simp: restrict_map_def fun_eq_iff)
  ultimately show ?case by simp
qed (simp add: restrict_map_def)

lemma free_all_empties:
  assumes "cuda_heap_ok cu" "alloc_inv (h, c)"
  shows "free_all cu (h, c) = Map.empty"
proof -
  note d = alloc_invD [OF assms(2)]
  let ?ps = "map snd (free_blocks c) @ sorted_list_of_set (dom (allocated_blocks c))"
  have fin: "finite (dom (allocated_blocks c))" using d(1,5) by (metis finite_Un)
  have "distinct ?ps" using d(3,6) fin by auto
  moreover have all: "set ?ps = dom h" using d(5) fin by auto
  ultimately have "free_all cu (h, c) = h |` (- dom h)" using free_fold [OF assms(1), of ?ps h] by (simp add: free_all_def)
  then show ?thesis by (auto simp: restrict_map_def fun_eq_iff)
qed

section \<open>Properties of the allocator\<close>

text \<open>C10: buffers never overlap and nothing leaks. In every run from an empty cache, each request returns a
  buffer that no client holds, at least as large as asked for, whether it is reused or new; the
  invariant holds throughout (each live block is cached or handed out, never both, and evicting
  frees cached blocks only), and the destructor frees every block once.\<close>

theorem CachedAllocator_safe:
  assumes "cuda_heap_ok cu" "trace (alloc_step cu) (Map.empty, CachedAllocator_new m tol) es (h, c)"
  shows "trace client_step Map.empty es (allocated_blocks c) \<and> alloc_inv (h, c) \<and> free_all cu (h, c) = Map.empty"
proof -
  have "trace (\<lambda>s e t. cuda_heap_ok cu \<and> alloc_step cu s e t) (Map.empty, CachedAllocator_new m tol) es (h, c)"
    using assms by simp
  from cached_allocator.trace_simulated [OF this alloc_inv_new] have "alloc_inv (h, c)"
    "trace client_step Map.empty es (allocated_blocks c)" by (simp_all add: CachedAllocator_new_def)
  then show ?thesis using free_all_empties [OF assms(1)] by blast
qed

text \<open>A heap that numbers its blocks upwards.\<close>

definition counting_heap :: cuda_heap where
  "counting_heap = \<lparr>cuda_malloc = (\<lambda>h n. let p = Suc (Max (insert 0 (dom h))) in (h(p \<mapsto> n), p)),
     cuda_free = (\<lambda>h p. h(p := None))\<rparr>"

lemma counting_heap_ok: "cuda_heap_ok counting_heap"
proof -
  have "Suc (Max (insert 0 (dom h))) \<notin> dom h" if "finite (dom h)" for h :: heap
    using that Max_ge [of "insert 0 (dom h)"] by (metis finite_insert insertI2 not_less_eq_eq order_refl)
  then show ?thesis by (auto simp: cuda_heap_ok_def counting_heap_def Let_def)
qed

theorem CachedAllocator_safe_witness:
  "\<exists>c. trace (alloc_step counting_heap) (Map.empty, CachedAllocator_new 1000 (\<lambda>n. n div 10)) [Get 100 1, Return 1, Get 95 1] ([1 \<mapsto> 100], c)
    \<and> allocated_blocks c = [1 \<mapsto> 100] \<and> free_all counting_heap ([1 \<mapsto> 100], c) = Map.empty"
proof -
  let ?c = "\<lambda>f a. \<lparr>num_bytes_tot = 100, max_cached_bytes = 1000, cache_tol = (\<lambda>n. n div 10), free_blocks = f, allocated_blocks = a\<rparr>"
  have s1: "alloc_step counting_heap (Map.empty, CachedAllocator_new 1000 (\<lambda>n. n div 10)) (Get 100 1) ([1 \<mapsto> 100], ?c [] [1 \<mapsto> 100])"
    by (rule get) (simp_all add: getTemporaryBuffer_def CachedAllocator_new_def counting_heap_def evict.simps)
  have s2: "alloc_step counting_heap ([1 \<mapsto> 100], ?c [] [1 \<mapsto> 100]) (Return 1) ([1 \<mapsto> 100], ?c [(100, 1)] Map.empty)"
    by (rule return) (simp add: deallocate_block_def)
  have s3: "alloc_step counting_heap ([1 \<mapsto> 100], ?c [(100, 1)] Map.empty) (Get 95 1) ([1 \<mapsto> 100], ?c [] [1 \<mapsto> 100])"
    by (rule get) (simp_all add: getTemporaryBuffer_def)
  have tr: "trace (alloc_step counting_heap) (Map.empty, CachedAllocator_new 1000 (\<lambda>n. n div 10)) [Get 100 1, Return 1, Get 95 1]
      ([1 \<mapsto> 100], ?c [] [1 \<mapsto> 100])"
    using s1 s2 s3 by blast
  from CachedAllocator_safe [OF counting_heap_ok this] tr show ?thesis by (intro exI [of _ "?c [] [1 \<mapsto> 100]"]) simp
qed

end
