(* ===== verification/Wall_Data.thy ===== *)
theory Wall_Data
  imports Vector_Math
begin

text \<open>
  The wall geometries of \<open>data_structures/WallData.h\<close>: spheres, cylinders and planes, the vector from a
  point to the wall with the flag telling on which side the point is, and the signed distance.
\<close>

section \<open>Walls\<close>

record SphereWall =
  sphere_r :: Scalar
  sphere_origin :: vec3
  sphere_inside :: bool

definition SphereWall_new :: "Scalar \<Rightarrow> Scalar3 \<Rightarrow> bool \<Rightarrow> SphereWall" where
  "SphereWall_new rad orig ins = \<lparr>sphere_r = rad, sphere_origin = orig, sphere_inside = ins\<rparr>"

record CylinderWall =
  cyl_r :: Scalar
  cyl_origin :: vec3
  cyl_axis :: vec3
  quatAxisToZRot :: quat
  cyl_inside :: bool

definition CylinderWall_new :: "Scalar \<Rightarrow> Scalar3 \<Rightarrow> Scalar3 \<Rightarrow> bool \<Rightarrow> CylinderWall" where
  "CylinderWall_new rad orig zorient ins =
     (let zVec = zorient; zNorm = Vec3 0 0 1;
          normVec = sqrt (dot zVec zVec);
          realPart = normVec + dot zNorm zVec;
          (realPart, w) = (if realPart < 1 / 10 ^ 6 * normVec then (0, Vec3 0 (- 1) 0)
                           else (realPart, cross zNorm zVec));
          q = Quat realPart w;
          norm = rsqrt (norm2 q)
      in \<lparr>cyl_r = rad, cyl_origin = orig, cyl_axis = zorient, quatAxisToZRot = scale_quat norm q,
          cyl_inside = ins\<rparr>)"

record PlaneWall =
  plane_normal :: vec3
  plane_origin :: vec3
  plane_inside :: bool

definition PlaneWall_new :: "Scalar3 \<Rightarrow> Scalar3 \<Rightarrow> bool \<Rightarrow> PlaneWall" where
  "PlaneWall_new orig nrm ins =
     (let nVec = nrm;
          invNormLength = rsqrt (vx nVec * vx nVec + vy nVec * vy nVec + vz nVec * vz nVec)
      in \<lparr>plane_normal = vec3_scale nVec invNormLength, plane_origin = orig, plane_inside = ins\<rparr>)"

section \<open>Vector and distance to the wall\<close>

definition vecPtToWall_sphere :: "SphereWall \<Rightarrow> vec3 \<Rightarrow> vec3 \<times> bool" where
  "vecPtToWall_sphere wall position =
     (let t = vec3_sub_assign position (sphere_origin wall);
          shiftedPos = t;
          rxyz = sqrt (dot shiftedPos shiftedPos)
      in if rxyz > 0 then
           let inside = ((rxyz \<le> sphere_r wall \<and> sphere_inside wall) \<or> (rxyz > sphere_r wall \<and> \<not> sphere_inside wall));
               t = vec3_scale_assign t (sphere_r wall / rxyz);
               dx = t - shiftedPos
           in (dx, inside)
         else (Vec3 0 0 0, sphere_inside wall))"

definition vecPtToWall_cylinder :: "CylinderWall \<Rightarrow> vec3 \<Rightarrow> vec3 \<times> bool" where
  "vecPtToWall_cylinder wall position =
     (let t = vec3_sub_assign position (cyl_origin wall);
          s = rotate3 (quatAxisToZRot wall) t;
          shiftedPos = Vec3 (vx s) (vy s) 0;
          rxy = sqrt (dot shiftedPos shiftedPos)
      in if rxy > 0 then
           let inside = ((rxy \<le> cyl_r wall \<and> cyl_inside wall) \<or> (rxy > cyl_r wall \<and> \<not> cyl_inside wall));
               t = scale_vec3 (cyl_r wall / rxy) shiftedPos;
               dx = t - shiftedPos;
               dx = rotate3 (quat_conj (quatAxisToZRot wall)) dx
           in (dx, inside)
         else (Vec3 0 0 0, cyl_inside wall))"

definition vecPtToWall_plane :: "PlaneWall \<Rightarrow> vec3 \<Rightarrow> vec3 \<times> bool" where
  "vecPtToWall_plane wall position =
     (let t = position;
          d = dot (plane_normal wall) t - dot (plane_normal wall) (plane_origin wall);
          inside = ((d \<ge> 0 \<and> plane_inside wall) \<or> (d < 0 \<and> \<not> plane_inside wall));
          dx = scale_vec3 (- d) (plane_normal wall)
      in (dx, inside))"

definition distWall_sphere :: "SphereWall \<Rightarrow> vec3 \<Rightarrow> Scalar" where
  "distWall_sphere wall position =
     (let t = vec3_sub_assign position (sphere_origin wall);
          shiftedPos = t;
          rxyz2 = vx shiftedPos * vx shiftedPos + vy shiftedPos * vy shiftedPos + vz shiftedPos * vz shiftedPos;
          d = sphere_r wall - sqrt rxyz2
      in if sphere_inside wall then d else - d)"

definition distWall_cylinder :: "CylinderWall \<Rightarrow> vec3 \<Rightarrow> Scalar" where
  "distWall_cylinder wall position =
     (let t = vec3_sub_assign position (cyl_origin wall);
          shiftedPos = rotate3 (quatAxisToZRot wall) t;
          rxy2 = vx shiftedPos * vx shiftedPos + vy shiftedPos * vy shiftedPos;
          d = cyl_r wall - sqrt rxy2
      in if cyl_inside wall then d else - d)"

definition distWall_plane :: "PlaneWall \<Rightarrow> vec3 \<Rightarrow> Scalar" where
  "distWall_plane wall position =
     (let t = position;
          d = dot (plane_normal wall) t - dot (plane_normal wall) (plane_origin wall)
      in if plane_inside wall then d else - d)"

section \<open>What a wall promises\<close>

text \<open>The interface the wall forces use: where the geometry is regular, the vector leads to a point of the
  wall, its length is the distance, and the flag tells the sign of the distance.\<close>

locale wall =
  fixes vec_to :: "'w \<Rightarrow> vec3 \<Rightarrow> vec3 \<times> bool" and dist_to :: "'w \<Rightarrow> vec3 \<Rightarrow> Scalar" and regular :: "'w \<Rightarrow> vec3 \<Rightarrow> bool"
  assumes reaches: "regular w p \<Longrightarrow> dist_to w (p + fst (vec_to w p)) = 0"
    and distance: "regular w p \<Longrightarrow> dot (fst (vec_to w p)) (fst (vec_to w p)) = (dist_to w p)\<^sup>2"
    and side: "regular w p \<Longrightarrow> 0 < dist_to w p \<Longrightarrow> snd (vec_to w p)"
      "regular w p \<Longrightarrow> dist_to w p < 0 \<Longrightarrow> \<not> snd (vec_to w p)"
begin

lemma on_wall: "regular w p \<Longrightarrow> fst (vec_to w p) = 0 \<longleftrightarrow> dist_to w p = 0"
  using distance [of w p] by (metis dot_self_eq_0 zero_eq_power2)

lemma contract:
  "regular w p \<Longrightarrow> dist_to w (p + fst (vec_to w p)) = 0
    \<and> sqrt (dot (fst (vec_to w p)) (fst (vec_to w p))) = \<bar>dist_to w p\<bar>
    \<and> (0 < dist_to w p \<longrightarrow> snd (vec_to w p)) \<and> (dist_to w p < 0 \<longrightarrow> \<not> snd (vec_to w p))
    \<and> (fst (vec_to w p) = 0 \<longleftrightarrow> dist_to w p = 0)"
  using reaches distance side on_wall by simp

end

lemma sqrt_dot_scale: "0 \<le> k \<Longrightarrow> sqrt (dot (scale_vec3 k v) (scale_vec3 k v)) = k * sqrt (dot v v)"
  by (simp add: real_sqrt_mult)

lemma dot_pos: "v \<noteq> 0 \<Longrightarrow> 0 < dot v v"
  by (metis dot_self_eq_0 dot_self_nonneg order_less_le)

lemma radial_step:
  assumes "0 < \<rho>" "dot t t = \<rho>\<^sup>2"
  shows "dot (scale_vec3 (r / \<rho>) t - t) (scale_vec3 (r / \<rho>) t - t) = (r - \<rho>)\<^sup>2"
proof -
  have "scale_vec3 (r / \<rho>) t - t = scale_vec3 (r / \<rho> - 1) t" by (simp add: vec3_eq_iff algebra_simps)
  then have "dot (scale_vec3 (r / \<rho>) t - t) (scale_vec3 (r / \<rho>) t - t) = (r / \<rho> - 1)\<^sup>2 * \<rho>\<^sup>2"
    using assms(2) by (simp add: power2_eq_square)
  also have "\<dots> = ((r / \<rho> - 1) * \<rho>)\<^sup>2" by (simp add: power_mult_distrib)
  also have "(r / \<rho> - 1) * \<rho> = r - \<rho>" using assms(1) by (simp add: field_simps)
  finally show ?thesis .
qed

interpretation sphere: wall vecPtToWall_sphere distWall_sphere
  "\<lambda>w p. 0 \<le> sphere_r w \<and> p \<noteq> sphere_origin w"
proof
  fix w :: SphereWall and p :: vec3
  assume reg: "0 \<le> sphere_r w \<and> p \<noteq> sphere_origin w"
  define t where "t = p - sphere_origin w"
  define \<rho> where "\<rho> = sqrt (dot t t)"
  have "t \<noteq> 0" using reg by (simp add: t_def)
  then have pos: "0 < dot t t" by (rule dot_pos)
  then have \<rho>: "0 < \<rho>" "dot t t = \<rho>\<^sup>2" by (simp_all add: \<rho>_def)
  have v: "vecPtToWall_sphere w p = (scale_vec3 (sphere_r w / \<rho>) t - t,
      (\<rho> \<le> sphere_r w \<and> sphere_inside w) \<or> (\<rho> > sphere_r w \<and> \<not> sphere_inside w))"
    using \<rho>(1) unfolding vecPtToWall_sphere_def Let_def by (simp add: t_def [symmetric] \<rho>_def [symmetric])
  have d: "distWall_sphere w q = (let d = sphere_r w - sqrt (dot (q - sphere_origin w) (q - sphere_origin w))
      in if sphere_inside w then d else - d)" for q
    by (simp add: distWall_sphere_def Let_def dot_def)
  have dp: "distWall_sphere w p = (if sphere_inside w then sphere_r w - \<rho> else \<rho> - sphere_r w)"
    by (simp add: d t_def [symmetric] \<rho>_def [symmetric] Let_def)
  have "p + fst (vecPtToWall_sphere w p) - sphere_origin w = scale_vec3 (sphere_r w / \<rho>) t"
    by (simp add: v t_def)
  then have "sqrt (dot (p + fst (vecPtToWall_sphere w p) - sphere_origin w) (p + fst (vecPtToWall_sphere w p) - sphere_origin w))
      = sphere_r w / \<rho> * \<rho>"
    using reg \<rho>(1) sqrt_dot_scale [of "sphere_r w / \<rho>" t] by (simp add: \<rho>_def [symmetric] del: dot_linear)
  then show "distWall_sphere w (p + fst (vecPtToWall_sphere w p)) = 0" using \<rho>(1) by (simp add: d Let_def)
  show "dot (fst (vecPtToWall_sphere w p)) (fst (vecPtToWall_sphere w p)) = (distWall_sphere w p)\<^sup>2"
    unfolding v dp using radial_step [OF \<rho>, of "sphere_r w"] by (simp add: power2_commute)
  show "0 < distWall_sphere w p \<Longrightarrow> snd (vecPtToWall_sphere w p)" unfolding v dp by (simp split: if_splits)
  show "distWall_sphere w p < 0 \<Longrightarrow> \<not> snd (vecPtToWall_sphere w p)" unfolding v dp by (simp split: if_splits)
qed

interpretation plane: wall vecPtToWall_plane distWall_plane "\<lambda>w p. dot (plane_normal w) (plane_normal w) = 1"
proof
  fix w :: PlaneWall and p :: vec3
  assume n: "dot (plane_normal w) (plane_normal w) = 1"
  define d where "d = dot (plane_normal w) p - dot (plane_normal w) (plane_origin w)"
  have v: "vecPtToWall_plane w p = (scale_vec3 (- d) (plane_normal w),
      (d \<ge> 0 \<and> plane_inside w) \<or> (d < 0 \<and> \<not> plane_inside w))"
    unfolding vecPtToWall_plane_def Let_def d_def [symmetric] ..
  have dp: "distWall_plane w p = (if plane_inside w then d else - d)" by (simp add: distWall_plane_def Let_def d_def)
  show "distWall_plane w (p + fst (vecPtToWall_plane w p)) = 0"
    unfolding v by (simp add: distWall_plane_def Let_def d_def n)
  show "dot (fst (vecPtToWall_plane w p)) (fst (vecPtToWall_plane w p)) = (distWall_plane w p)\<^sup>2"
    unfolding v dp by (simp add: n power2_eq_square)
  show "0 < distWall_plane w p \<Longrightarrow> snd (vecPtToWall_plane w p)" unfolding v dp by (simp split: if_splits)
  show "distWall_plane w p < 0 \<Longrightarrow> \<not> snd (vecPtToWall_plane w p)" unfolding v dp by (auto split: if_splits)
qed

lemma quat_conj_conj [simp]: "quat_conj (quat_conj q) = q"
  by (simp add: quat_eq_iff vec3_eq_iff)

lemma rotate_rotate_conj: "norm2 q = 1 \<Longrightarrow> rotate3 q (rotate3 (quat_conj q) b) = b"
  using rotate_conj_rotate [of "quat_conj q" b] by simp

text \<open>The radius of a point about the rotated third axis.\<close>

abbreviation flat :: "vec3 \<Rightarrow> vec3" where
  "flat s \<equiv> Vec3 (vx s) (vy s) 0"

interpretation cylinder: wall vecPtToWall_cylinder distWall_cylinder
  "\<lambda>w p. 0 \<le> cyl_r w \<and> norm2 (quatAxisToZRot w) = 1 \<and> flat (rotate3 (quatAxisToZRot w) (p - cyl_origin w)) \<noteq> 0"
proof
  fix w :: CylinderWall and p :: vec3
  let ?q = "quatAxisToZRot w"
  assume reg: "0 \<le> cyl_r w \<and> norm2 ?q = 1 \<and> flat (rotate3 ?q (p - cyl_origin w)) \<noteq> 0"
  define s where "s = rotate3 ?q (p - cyl_origin w)"
  define t where "t = flat s"
  define \<rho> where "\<rho> = sqrt (dot t t)"
  have "t \<noteq> 0" using reg by (simp add: s_def t_def)
  then have pos: "0 < dot t t" by (rule dot_pos)
  then have \<rho>: "0 < \<rho>" "dot t t = \<rho>\<^sup>2" by (simp_all add: \<rho>_def)
  let ?dx = "scale_vec3 (cyl_r w / \<rho>) t - t"
  have v: "vecPtToWall_cylinder w p = (rotate3 (quat_conj ?q) ?dx,
      (\<rho> \<le> cyl_r w \<and> cyl_inside w) \<or> (\<rho> > cyl_r w \<and> \<not> cyl_inside w))"
    using \<rho>(1) unfolding vecPtToWall_cylinder_def Let_def compound_assignments
      s_def [symmetric] t_def [symmetric] \<rho>_def [symmetric] by simp
  have d: "distWall_cylinder w q = (let d = cyl_r w - sqrt (dot (flat (rotate3 ?q (q - cyl_origin w))) (flat (rotate3 ?q (q - cyl_origin w))))
      in if cyl_inside w then d else - d)" for q
    by (simp add: distWall_cylinder_def Let_def dot_def)
  have dp: "distWall_cylinder w p = (if cyl_inside w then cyl_r w - \<rho> else \<rho> - cyl_r w)"
    unfolding d s_def [symmetric] t_def [symmetric] \<rho>_def [symmetric] by (simp add: Let_def)
  have "rotate3 ?q (p + rotate3 (quat_conj ?q) ?dx - cyl_origin w) = s + ?dx"
    using rotate_rotate_conj [of ?q ?dx] reg unfolding s_def by (simp only: rotate_linear) simp
  then have "flat (rotate3 ?q (p + rotate3 (quat_conj ?q) ?dx - cyl_origin w)) = scale_vec3 (cyl_r w / \<rho>) t"
    by (simp add: t_def vec3_eq_iff)
  then show "distWall_cylinder w (p + fst (vecPtToWall_cylinder w p)) = 0"
    unfolding v d using sqrt_dot_scale [of "cyl_r w / \<rho>" t] \<rho>(1) reg
    by (simp add: Let_def \<rho>_def [symmetric] del: dot_linear)
  show "dot (fst (vecPtToWall_cylinder w p)) (fst (vecPtToWall_cylinder w p)) = (distWall_cylinder w p)\<^sup>2"
    unfolding v dp fst_conv dot_rotate using radial_step [OF \<rho>, of "cyl_r w"] reg by (simp add: power2_commute del: dot_linear)
  show "0 < distWall_cylinder w p \<Longrightarrow> snd (vecPtToWall_cylinder w p)" unfolding v dp by (simp split: if_splits)
  show "distWall_cylinder w p < 0 \<Longrightarrow> \<not> snd (vecPtToWall_cylinder w p)" unfolding v dp by (simp split: if_splits)
qed

section \<open>The constructors\<close>

lemma rsqrt_scale_unit: "0 < x \<Longrightarrow> rsqrt x * rsqrt x * x = 1"
  by (simp add: rsqrt_power2)

lemma PlaneWall_unit: "n \<noteq> 0 \<Longrightarrow> dot (plane_normal (PlaneWall_new o' n ins)) (plane_normal (PlaneWall_new o' n ins)) = 1"
proof -
  assume "n \<noteq> 0"
  then have "0 < dot n n" by (rule dot_pos)
  then show ?thesis using rsqrt_scale_unit [of "dot n n"] by (simp add: PlaneWall_new_def Let_def dot_def [symmetric])
qed

lemma CylinderWall_unit: "axis \<noteq> 0 \<Longrightarrow> norm2 (quatAxisToZRot (CylinderWall_new r o' axis ins)) = 1"
proof -
  assume "axis \<noteq> 0"
  then have "0 < dot axis axis" by (rule dot_pos)
  then have n: "0 < sqrt (dot axis axis)" by simp
  define a where "a = sqrt (dot axis axis) + dot (Vec3 0 0 1) axis"
  define q where "q = (if a < 1 / 10 ^ 6 * sqrt (dot axis axis) then Quat 0 (Vec3 0 (- 1) 0) else Quat a (cross (Vec3 0 0 1) axis))"
  have "0 < norm2 q"
  proof (cases "a < 1 / 10 ^ 6 * sqrt (dot axis axis)")
    case True
    then show ?thesis by (simp add: q_def norm2_def dot_def)
  next
    case False
    have "0 < 1 / 10 ^ 6 * sqrt (dot axis axis)" using n by (intro mult_pos_pos) simp_all
    then have "0 < a" using False by linarith
    then show ?thesis using False dot_self_nonneg [of "cross (Vec3 0 0 1) axis"]
      by (simp add: q_def norm2_def add_pos_nonneg)
  qed
  moreover have "quatAxisToZRot (CylinderWall_new r o' axis ins) = scale_quat (rsqrt (norm2 q)) q"
    by (simp add: CylinderWall_new_def Let_def q_def a_def)
  ultimately show ?thesis by (simp add: norm2_scale rsqrt_scale_unit)
qed

section \<open>The axis of a cylinder wall\<close>

abbreviation vlen :: "vec3 \<Rightarrow> real" where
  "vlen v \<equiv> sqrt (dot v v)"

text \<open>The distance from the line through the origin along \<open>u\<close>.\<close>

definition line_dist :: "vec3 \<Rightarrow> vec3 \<Rightarrow> real" where
  "line_dist t u = vlen (cross t u) / vlen u"

text \<open>The axis about which a cylinder wall is evaluated. It is the mirror image of the axis given, in the third
  coordinate axis, because the quaternion turns the third axis to the axis given and not back; an axis
  nearly opposite to the third one is replaced by that.\<close>

definition wall_axis :: "vec3 \<Rightarrow> vec3" where
  "wall_axis a = (if vlen a + vz a < 1 / 10 ^ 6 * vlen a then Vec3 0 0 (- 1) else Vec3 (- vx a) (- vy a) (vz a))"

lemma line_dist_scale:
  assumes "0 < k"
  shows "line_dist t (scale_vec3 k u) = line_dist t u"
proof -
  have "cross t (scale_vec3 k u) = scale_vec3 k (cross t u)" by (simp add: cross_def vec3_eq_iff algebra_simps)
  then have "line_dist t (scale_vec3 k u) = (k * vlen (cross t u)) / (k * vlen u)"
    unfolding line_dist_def using sqrt_dot_scale [of k] assms by (simp del: dot_linear)
  then show ?thesis using assms by (simp add: line_dist_def)
qed

lemma wall_axis_documented:
  assumes "a \<noteq> 0"
  shows "line_dist a (wall_axis a) = 0 \<longleftrightarrow> (vx a = 0 \<and> vy a = 0) \<or> vz a = 0"
proof -
  obtain x y z where a: "a = Vec3 x y z" by (cases a)
  have n: "0 < vlen a" using dot_pos [OF assms] by simp
  have u: "wall_axis a \<noteq> 0" using assms by (auto simp: wall_axis_def a vec3_eq_iff)
  then have "vlen (wall_axis a) \<noteq> 0" using dot_pos [OF u] by simp
  then have "line_dist a (wall_axis a) = 0 \<longleftrightarrow> cross a (wall_axis a) = 0" by (simp add: line_dist_def dot_self_eq_0)
  moreover have "z \<noteq> 0" if "vlen a + vz a < 1 / 10 ^ 6 * vlen a" using that n by (auto simp: a)
  ultimately show ?thesis by (auto simp: wall_axis_def cross_def a vec3_eq_iff)
qed

lemma rotate_third_axis:
  assumes n: "n * n = x * x + y * y + z * z" "0 < n" and pos: "0 < n + z"
  defines "q \<equiv> Quat (n + z) (Vec3 (- y) x 0)"
  shows "rotate3 (scale_quat (rsqrt (norm2 q)) q) (Vec3 0 0 1) = scale_vec3 (1 / n) (Vec3 x y z)"
proof -
  have norm: "norm2 q = 2 * n * (n + z)" using n(1) by (simp add: q_def norm2_def dot_def algebra_simps)
  have rot: "rotate3 q (Vec3 0 0 1) = scale_vec3 (2 * (n + z)) (Vec3 x y z)"
    using n(1) by (simp add: q_def rotate3_def dot_def cross_def vec3_eq_iff algebra_simps)
  have "rsqrt (norm2 q) * rsqrt (norm2 q) = 1 / (2 * n * (n + z))" using n(2) pos by (simp add: rsqrt_power2 norm)
  then have "rotate3 (scale_quat (rsqrt (norm2 q)) q) (Vec3 0 0 1)
      = scale_vec3 (1 / (2 * n * (n + z)) * (2 * (n + z))) (Vec3 x y z)"
    by (simp only: rotate_scale_quat rot) (simp add: vec3_eq_iff)
  also have "1 / (2 * n * (n + z)) * (2 * (n + z)) = 1 / n" using n(2) pos by (simp add: divide_simps)
  finally show ?thesis .
qed

lemma CylinderWall_axis:
  assumes "axis \<noteq> 0"
  shows "\<exists>k > 0. rotate3 (quat_conj (quatAxisToZRot (CylinderWall_new r orig axis ins))) (Vec3 0 0 1) = scale_vec3 k (wall_axis axis)"
proof -
  obtain x y z where axis: "axis = Vec3 x y z" by (cases axis)
  define n where "n = vlen axis"
  have n: "0 < n" "n * n = x * x + y * y + z * z"
    using dot_pos [OF assms] by (simp_all add: n_def axis dot_def)
  show ?thesis
  proof (cases "n + z < 1 / 10 ^ 6 * n")
    case True
    then have "quatAxisToZRot (CylinderWall_new r orig axis ins) = Quat 0 (Vec3 0 (- 1) 0)"
      by (simp add: CylinderWall_new_def Let_def n_def axis dot_def norm2_def rsqrt_def scale_quat_def quat_eq_iff vec3_eq_iff)
    then have "rotate3 (quat_conj (quatAxisToZRot (CylinderWall_new r orig axis ins))) (Vec3 0 0 1) = Vec3 0 0 (- 1)"
      by (simp add: rotate3_def dot_def cross_def vec3_eq_iff)
    moreover have "wall_axis axis = Vec3 0 0 (- 1)" using True by (simp add: wall_axis_def n_def axis)
    ultimately show ?thesis by (intro exI [of _ 1]) (simp add: vec3_eq_iff)
  next
    case False
    have "0 < 1 / 10 ^ 6 * n" using n(1) by (intro mult_pos_pos) simp_all
    then have pos: "0 < n + z" using False by linarith
    let ?q = "Quat (n + z) (Vec3 (- (- y)) (- x) 0)"
    have "quatAxisToZRot (CylinderWall_new r orig axis ins)
        = scale_quat (rsqrt (norm2 (Quat (n + z) (Vec3 (- y) x 0)))) (Quat (n + z) (Vec3 (- y) x 0))"
      using False by (simp add: CylinderWall_new_def Let_def n_def axis dot_def cross_def not_less)
    moreover have "quat_conj (scale_quat k (Quat a (Vec3 b c 0))) = scale_quat k (Quat a (Vec3 (- b) (- c) 0))" for k a b c
      by (simp add: quat_eq_iff vec3_eq_iff scale_quat_def)
    moreover have "norm2 (Quat (n + z) (Vec3 (- y) x 0)) = norm2 ?q" by (simp add: norm2_def dot_def)
    ultimately have "quat_conj (quatAxisToZRot (CylinderWall_new r orig axis ins)) = scale_quat (rsqrt (norm2 ?q)) ?q" by simp
    moreover have "n * n = (- x) * (- x) + (- y) * (- y) + z * z" using n(2) by simp
    note rotate_third_axis [OF this n(1) pos]
    moreover have "wall_axis axis = Vec3 (- x) (- y) z" using False by (simp add: wall_axis_def n_def axis)
    ultimately show ?thesis using n(1) by (intro exI [of _ "1 / n"]) simp
  qed
qed

lemma cross_square: "dot (cross t u) (cross t u) = dot t t * dot u u - (dot t u)\<^sup>2"
  by (simp add: dot_def cross_def power2_eq_square algebra_simps)

text \<open>The radius that the functions compute is the distance from that axis.\<close>

lemma CylinderWall_radius:
  assumes "axis \<noteq> 0"
  shows "vlen (flat (rotate3 (quatAxisToZRot (CylinderWall_new r orig axis ins)) t)) = line_dist t (wall_axis axis)"
proof -
  let ?q = "quatAxisToZRot (CylinderWall_new r orig axis ins)"
  define s where "s = rotate3 ?q t"
  define u where "u = rotate3 (quat_conj ?q) (Vec3 0 0 1)"
  have q: "norm2 ?q = 1" by (rule CylinderWall_unit [OF assms])
  have t: "t = rotate3 (quat_conj ?q) s" using rotate_conj_rotate [of ?q t] q by (simp add: s_def)
  have r: "dot (rotate3 (quat_conj ?q) v) (rotate3 (quat_conj ?q) w) = dot v w" for v w by (simp add: dot_rotate q)
  have "dot t t = dot s s" by (metis t r)
  moreover have "dot t u = dot s (Vec3 0 0 1)" unfolding u_def by (metis t r)
  then have "dot t u = vz s" by (simp add: dot_def)
  moreover have unit: "dot u u = 1" unfolding u_def r by (simp add: dot_def)
  ultimately have "dot (cross t u) (cross t u) = dot (flat s) (flat s)"
    unfolding cross_square by (simp add: dot_def power2_eq_square)
  then have "vlen (flat s) = line_dist t u" using unit by (simp add: line_dist_def)
  moreover obtain k where "0 < k" "u = scale_vec3 k (wall_axis axis)"
    using CylinderWall_axis [OF assms] unfolding u_def by blast
  ultimately show ?thesis using line_dist_scale by (simp add: s_def)
qed

section \<open>Properties of the walls\<close>

text \<open>C39: the walls the constructors make, as geometry. Adding the vector of \<open>vecPtToWall\<close> to the point
  leads to the sphere of the radius about the origin, to the plane through the origin perpendicular to the
  normal, and to the cylinder of the radius about \<open>wall_axis\<close>; \<open>distWall\<close> is the
  radius minus the distance from the centre or axis, or the signed distance from the plane, negated for a wall
  whose outside is used; it is the length of the vector up to sign, and the flag says inside exactly for
  positive distances (on the wall it may say either). The axis of the cylinder is the one given exactly when
  that is along the third coordinate axis or perpendicular to it: other cylinders are evaluated about another
  axis than the documentation says. The centre of a sphere and the axis of a cylinder are excepted.\<close>

theorem walls_consistent:
  fixes ins :: bool
  assumes "0 \<le> r" "p \<noteq> orig" "axis \<noteq> 0" "n \<noteq> 0" "line_dist (p - orig) (wall_axis axis) \<noteq> 0"
  defines "s \<equiv> SphereWall_new r orig ins" and "c \<equiv> CylinderWall_new r orig axis ins" and "l \<equiv> PlaneWall_new orig n ins"
  defines "sv \<equiv> fst (vecPtToWall_sphere s p)" and "cv \<equiv> fst (vecPtToWall_cylinder c p)" and "lv \<equiv> fst (vecPtToWall_plane l p)"
  shows "vlen (p + sv - orig) = r
    \<and> distWall_sphere s p = (if ins then r - vlen (p - orig) else vlen (p - orig) - r) \<and> vlen sv = \<bar>distWall_sphere s p\<bar>
    \<and> (0 < distWall_sphere s p \<longrightarrow> snd (vecPtToWall_sphere s p)) \<and> (distWall_sphere s p < 0 \<longrightarrow> \<not> snd (vecPtToWall_sphere s p))
    \<and> line_dist (p + cv - orig) (wall_axis axis) = r
    \<and> distWall_cylinder c p = (if ins then r - line_dist (p - orig) (wall_axis axis) else line_dist (p - orig) (wall_axis axis) - r)
    \<and> vlen cv = \<bar>distWall_cylinder c p\<bar>
    \<and> (0 < distWall_cylinder c p \<longrightarrow> snd (vecPtToWall_cylinder c p)) \<and> (distWall_cylinder c p < 0 \<longrightarrow> \<not> snd (vecPtToWall_cylinder c p))
    \<and> (line_dist axis (wall_axis axis) = 0 \<longleftrightarrow> (vx axis = 0 \<and> vy axis = 0) \<or> vz axis = 0)
    \<and> dot n (p + lv - orig) = 0
    \<and> distWall_plane l p = (if ins then dot n (p - orig) / vlen n else - dot n (p - orig) / vlen n) \<and> vlen lv = \<bar>distWall_plane l p\<bar>
    \<and> (0 < distWall_plane l p \<longrightarrow> snd (vecPtToWall_plane l p)) \<and> (distWall_plane l p < 0 \<longrightarrow> \<not> snd (vecPtToWall_plane l p))"
proof -
  have c: "cyl_r c = r" "cyl_origin c = orig" "cyl_inside c = ins"
    by (simp_all add: c_def CylinderWall_new_def Let_def split: prod.split)
  have ds: "distWall_sphere s x = (if ins then r - vlen (x - orig) else vlen (x - orig) - r)" for x
    by (simp add: distWall_sphere_def s_def SphereWall_new_def Let_def dot_def)
  have rad: "vlen (flat (rotate3 (quatAxisToZRot c) t)) = line_dist t (wall_axis axis)" for t
    unfolding c_def by (rule CylinderWall_radius [OF assms(3)])
  have dc: "distWall_cylinder c x = (if ins then r - line_dist (x - orig) (wall_axis axis) else line_dist (x - orig) (wall_axis axis) - r)" for x
    unfolding rad [symmetric] by (simp add: distWall_cylinder_def Let_def c dot_def)
  have vn: "0 < vlen n" using dot_pos [OF assms(4)] by simp
  have pn: "plane_normal l = scale_vec3 (1 / vlen n) n" "plane_origin l = orig" "plane_inside l = ins"
    by (simp_all add: l_def PlaneWall_new_def Let_def dot_def rsqrt_def vec3_eq_iff)
  have dl: "distWall_plane l x = (if ins then dot n (x - orig) / vlen n else - dot n (x - orig) / vlen n)" for x
    by (simp add: distWall_plane_def Let_def pn diff_divide_distrib minus_divide_left)
  have "0 \<le> sphere_r s \<and> p \<noteq> sphere_origin s" using assms(1,2) by (simp add: s_def SphereWall_new_def)
  note S = sphere.contract [OF this, folded sv_def]
  have "dot (plane_normal l) (plane_normal l) = 1" unfolding l_def by (rule PlaneWall_unit [OF assms(4)])
  note L = plane.contract [OF this, of p, folded lv_def]
  have "flat (rotate3 (quatAxisToZRot c) (p - orig)) \<noteq> 0" using assms(5) rad [of "p - orig"] by auto
  then have "0 \<le> cyl_r c \<and> norm2 (quatAxisToZRot c) = 1 \<and> flat (rotate3 (quatAxisToZRot c) (p - cyl_origin c)) \<noteq> 0"
    using assms(1) CylinderWall_unit [OF assms(3)] c by (simp add: c_def)
  note C = cylinder.contract [OF this, folded cv_def]
  have "vlen (p + sv - orig) = r" using S ds [of "p + sv"] by (simp split: if_splits)
  moreover have "line_dist (p + cv - orig) (wall_axis axis) = r" using C dc [of "p + cv"] by (simp split: if_splits)
  moreover have "dot n (p + lv - orig) = 0" using L dl [of "p + lv"] vn assms(4) by (auto split: if_splits simp del: dot_linear)
  ultimately show ?thesis using S C L ds [of p] dc [of p] dl [of p] wall_axis_documented [OF assms(3)] by blast
qed

text \<open>The unit sphere seen from a point at distance 3; the cylinder along the third axis and the plane
  perpendicular to it.\<close>

theorem walls_consistent_witness:
  "\<exists>v. v = fst (vecPtToWall_sphere (SphereWall_new 1 (Vec3 0 0 0) True) (Vec3 3 0 0)) \<and> vlen (Vec3 3 0 0 + v) = 1
    \<and> distWall_cylinder (CylinderWall_new 1 (Vec3 0 0 0) (Vec3 0 0 1) True) (Vec3 3 0 0) = - 2"
proof -
  have a: "wall_axis (Vec3 0 0 1) = Vec3 0 0 1" by (simp add: wall_axis_def dot_def)
  have d: "line_dist (Vec3 3 0 0) (Vec3 0 0 1) = 3" by (simp add: line_dist_def cross_def dot_def)
  have z: "Vec3 3 0 0 - Vec3 0 0 0 = Vec3 3 0 0" "x - Vec3 0 0 0 = x" for x by (simp_all add: vec3_eq_iff)
  have o: "Vec3 3 0 0 \<noteq> Vec3 0 0 0" "Vec3 0 0 1 \<noteq> 0" "(0::real) \<le> 1" "(3::real) \<noteq> 0" by (simp_all add: vec3_eq_iff)
  show ?thesis
    using walls_consistent [OF o(3,1,2,2), where ins = True, unfolded a z d, OF o(4)] by simp
qed

text \<open>The quaternion of a cylinder wall rotates the third axis onto the axis of the cylinder, the inverse of
  what its description says. Rotating by it therefore does not turn an oblique axis to the third
  axis, and points on the axis of the cylinder do not have the distance of the radius from its
  wall.\<close>

theorem cylinder_quaternion_direction:
  assumes "1 / 10 ^ 6 * sqrt (dot axis axis) \<le> sqrt (dot axis axis) + vz axis" "axis \<noteq> 0"
  shows "scale_vec3 (sqrt (dot axis axis)) (rotate3 (quatAxisToZRot (CylinderWall_new r orig axis ins)) (Vec3 0 0 1)) = axis
    \<and> distWall_cylinder (CylinderWall_new r (Vec3 0 0 0) (Vec3 3 0 4) True) (Vec3 3 0 4) = r - 24 / 5"
proof
  define n where "n = sqrt (dot axis axis)"
  obtain x y z where axis: "axis = Vec3 x y z" by (cases axis)
  have nn: "n * n = x * x + y * y + z * z" using dot_self_nonneg [of axis] by (simp add: n_def axis dot_def)
  have "0 < n" using dot_pos [OF assms(2)] by (simp add: n_def)
  then have "0 < 1 / 10 ^ 6 * n" by (intro mult_pos_pos) simp_all
  moreover have "1 / 10 ^ 6 * n \<le> n + z" using assms(1) by (simp only: n_def axis vec3.sel)
  ultimately have pos: "0 < n + z" by linarith
  define q where "q = Quat (n + z) (Vec3 (- y) x 0)"
  have "quatAxisToZRot (CylinderWall_new r orig axis ins) = scale_quat (rsqrt (norm2 q)) q"
    using assms(1) by (simp add: CylinderWall_new_def Let_def n_def q_def axis dot_def cross_def not_less)
  moreover have norm: "norm2 q = 2 * n * (n + z)" using nn by (simp add: q_def norm2_def dot_def algebra_simps)
  moreover have "rotate3 q (Vec3 0 0 1) = scale_vec3 (2 * (n + z)) axis"
    by (simp add: q_def rotate3_def dot_def axis vec3_eq_iff algebra_simps nn)
  moreover have "rsqrt (norm2 q) * rsqrt (norm2 q) = 1 / (2 * n * (n + z))"
    using \<open>0 < n\<close> pos by (simp add: rsqrt_power2 norm)
  ultimately have "scale_vec3 n (rotate3 (quatAxisToZRot (CylinderWall_new r orig axis ins)) (Vec3 0 0 1))
      = scale_vec3 n (scale_vec3 (1 / (2 * n * (n + z))) (scale_vec3 (2 * (n + z)) axis))"
    by (simp only: rotate_scale_quat)
  also have "\<dots> = scale_vec3 (n * (1 / (2 * n * (n + z)) * (2 * (n + z)))) axis" by (simp add: vec3_eq_iff)
  also have "n * (1 / (2 * n * (n + z)) * (2 * (n + z))) = 1" using \<open>0 < n\<close> pos by simp
  finally have "scale_vec3 n (rotate3 (quatAxisToZRot (CylinderWall_new r orig axis ins)) (Vec3 0 0 1)) = axis"
    by (simp add: vec3_eq_iff)
  then show "scale_vec3 (sqrt (dot axis axis)) (rotate3 (quatAxisToZRot (CylinderWall_new r orig axis ins)) (Vec3 0 0 1)) = axis"
    by (simp only: n_def)
  show "distWall_cylinder (CylinderWall_new r (Vec3 0 0 0) (Vec3 3 0 4) True) (Vec3 3 0 4) = r - 24 / 5"
  proof -
    let ?q = "Quat 9 (Vec3 0 3 0)"
    have five: "sqrt 25 = (5 :: real)" by (rule real_sqrt_unique) simp_all
    have "quatAxisToZRot (CylinderWall_new r (Vec3 0 0 0) (Vec3 3 0 4) True) = scale_quat (rsqrt (norm2 ?q)) ?q"
      by (simp add: CylinderWall_new_def Let_def dot_def cross_def five)
    moreover have "rsqrt (norm2 ?q) * rsqrt (norm2 ?q) = 1 / 90" by (simp add: norm2_def dot_def rsqrt_power2)
    moreover have "rotate3 ?q (Vec3 3 0 4) = Vec3 432 0 126" by (simp add: rotate3_def dot_def cross_def vec3_eq_iff)
    ultimately have "rotate3 (quatAxisToZRot (CylinderWall_new r (Vec3 0 0 0) (Vec3 3 0 4) True)) (Vec3 3 0 4) = Vec3 (24 / 5) 0 (7 / 5)"
      by (simp add: rotate_scale_quat vec3_eq_iff)
    moreover have "cyl_origin (CylinderWall_new r (Vec3 0 0 0) (Vec3 3 0 4) True) = Vec3 0 0 0"
      "cyl_r (CylinderWall_new r (Vec3 0 0 0) (Vec3 3 0 4) True) = r" "cyl_inside (CylinderWall_new r (Vec3 0 0 0) (Vec3 3 0 4) True)"
      by (simp_all add: CylinderWall_new_def Let_def)
    moreover have "vec3_sub_assign (Vec3 3 0 4) (Vec3 0 0 0) = Vec3 3 0 4" by (simp add: vec3_eq_iff)
    moreover have "sqrt (24 / 5 * (24 / 5)) = (24 / 5 :: real)" by (rule real_sqrt_unique) (simp_all add: power2_eq_square)
    ultimately show ?thesis by (simp add: distWall_cylinder_def Let_def del: rotate_linear compound_assignments)
  qed
qed

theorem cylinder_quaternion_direction_witness:
  "scale_vec3 5 (rotate3 (quatAxisToZRot (CylinderWall_new 1 (Vec3 0 0 0) (Vec3 3 0 4) True)) (Vec3 0 0 1)) = Vec3 3 0 4"
proof -
  have five: "sqrt 25 = (5 :: real)" by (rule real_sqrt_unique) simp_all
  show ?thesis using cylinder_quaternion_direction [of "Vec3 3 0 4" 1 "Vec3 0 0 0" True]
    by (simp add: dot_def five vec3_eq_iff)
qed

end
