(* ===== verification/Pair_Evaluators.thy ===== *)
theory Pair_Evaluators
  imports Vector_Math
begin

text \<open>
  The evaluator classes of \<open>potentials/EvaluatorPair*.h\<close>: what \<open>PotentialPair\<close> takes as its template
  parameter. Each class stores the squared distance, the squared cutoff and its parameters, takes
  diameters and charges where it says it needs them, and computes the force divided by the distance
  and the energy. A class is a record of its static members and methods; \<open>false\<close> as the result of
  \<open>evalForceAndEnergy\<close> is \<open>None\<close>, and members a constructor leaves unset are \<open>undefined\<close>.

  The locale \<open>pair_evaluator\<close> states the contract of the class documentation once, the force is the
  negative derivative of the energy and the shifted energy vanishes at the cutoff, and every
  evaluator interprets it.
\<close>

section \<open>The interface of an evaluator class\<close>

type_synonym Scalar2 = "Scalar \<times> Scalar"

record ('p, 'e) evaluator =
  getName :: string
  construct :: "Scalar \<Rightarrow> Scalar \<Rightarrow> 'p \<Rightarrow> 'e"
  needsDiameter :: bool
  setDiameter :: "Scalar \<Rightarrow> Scalar \<Rightarrow> 'e \<Rightarrow> 'e"
  needsCharge :: bool
  setCharge :: "Scalar \<Rightarrow> Scalar \<Rightarrow> 'e \<Rightarrow> 'e"
  evalForceAndEnergy :: "'e \<Rightarrow> bool \<Rightarrow> (Scalar \<times> Scalar) option"

text \<open>The way \<open>PotentialPair\<close> uses an evaluator: construct, pass diameters and charges if needed, evaluate.\<close>

definition evaluate :: "('p, 'e) evaluator \<Rightarrow> Scalar \<Rightarrow> Scalar \<Rightarrow> 'p \<Rightarrow> Scalar \<Rightarrow> Scalar \<Rightarrow> Scalar \<Rightarrow> Scalar \<Rightarrow> bool
    \<Rightarrow> (Scalar \<times> Scalar) option" where
  "evaluate ev rsq rcutsq param di dj qi qj energy_shift =
     (let e = construct ev rsq rcutsq param;
          e = (if needsDiameter ev then setDiameter ev di dj e else e);
          e = (if needsCharge ev then setCharge ev qi qj e else e)
      in evalForceAndEnergy ev e energy_shift)"

section \<open>Lennard-Jones\<close>

text \<open>The distances every evaluator stores.\<close>

record pair_distances =
  e_rsq :: Scalar
  e_rcutsq :: Scalar

record EvaluatorPairLJ = pair_distances +
  lj1 :: Scalar
  lj2 :: Scalar

definition EvaluatorPairLJ_new :: "Scalar \<Rightarrow> Scalar \<Rightarrow> Scalar2 \<Rightarrow> EvaluatorPairLJ" where
  "EvaluatorPairLJ_new r rc params = \<lparr>e_rsq = r, e_rcutsq = rc, lj1 = fst params, lj2 = snd params\<rparr>"

definition EvaluatorPairLJ_eval :: "EvaluatorPairLJ \<Rightarrow> bool \<Rightarrow> (Scalar \<times> Scalar) option" where
  "EvaluatorPairLJ_eval e energy_shift =
     (if e_rsq e < e_rcutsq e \<and> lj1 e \<noteq> 0 then
        let r2inv = 1 / e_rsq e;
            r6inv = r2inv * r2inv * r2inv;
            force_divr = r2inv * r6inv * (12 * lj1 e * r6inv - 6 * lj2 e);
            pair_eng = r6inv * (lj1 e * r6inv - lj2 e);
            pair_eng =
              (if energy_shift then
                 let rcut2inv = 1 / e_rcutsq e;
                     rcut6inv = rcut2inv * rcut2inv * rcut2inv
                 in pair_eng - rcut6inv * (lj1 e * rcut6inv - lj2 e)
               else pair_eng)
        in Some (force_divr, pair_eng)
      else None)"

definition LJ :: "(Scalar2, EvaluatorPairLJ) evaluator" where
  "LJ = \<lparr>getName = ''lj'', construct = EvaluatorPairLJ_new,
     needsDiameter = False, setDiameter = (\<lambda>di dj e. e),
     needsCharge = False, setCharge = (\<lambda>qi qj e. e),
     evalForceAndEnergy = EvaluatorPairLJ_eval\<rparr>"

section \<open>Lennard-Jones shifted by the diameters\<close>

record EvaluatorPairSLJ = EvaluatorPairLJ +
  delta :: Scalar

definition EvaluatorPairSLJ_new :: "Scalar \<Rightarrow> Scalar \<Rightarrow> Scalar2 \<Rightarrow> EvaluatorPairSLJ" where
  "EvaluatorPairSLJ_new r rc params = \<lparr>e_rsq = r, e_rcutsq = rc, lj1 = fst params, lj2 = snd params, delta = undefined\<rparr>"

definition EvaluatorPairSLJ_setDiameter :: "Scalar \<Rightarrow> Scalar \<Rightarrow> EvaluatorPairSLJ \<Rightarrow> EvaluatorPairSLJ" where
  "EvaluatorPairSLJ_setDiameter di dj e = e\<lparr>delta := (di + dj) / 2 - 1\<rparr>"

definition EvaluatorPairSLJ_eval :: "EvaluatorPairSLJ \<Rightarrow> bool \<Rightarrow> (Scalar \<times> Scalar) option" where
  "EvaluatorPairSLJ_eval e energy_shift =
     (let rinv = rsqrt (e_rsq e);
          r = 1 / rinv;
          rcutinv = rsqrt (e_rcutsq e);
          rcut = 1 / rcutinv
      in if r < rcut + delta e \<and> lj1 e \<noteq> 0 then
           let rmd = r - delta e;
               rmdinv = 1 / rmd;
               rmd2inv = rmdinv * rmdinv;
               rmd6inv = rmd2inv * rmd2inv * rmd2inv;
               force_divr = rinv * rmdinv * rmd6inv * (12 * lj1 e * rmd6inv - 6 * lj2 e);
               pair_eng = rmd6inv * (lj1 e * rmd6inv - lj2 e);
               pair_eng =
                 (if energy_shift then
                    let rcut2inv = rcutinv * rcutinv;
                        rcut6inv = rcut2inv * rcut2inv * rcut2inv
                    in pair_eng - rcut6inv * (lj1 e * rcut6inv - lj2 e)
                  else pair_eng)
           in Some (force_divr, pair_eng)
         else None)"

definition SLJ :: "(Scalar2, EvaluatorPairSLJ) evaluator" where
  "SLJ = \<lparr>getName = ''slj'', construct = EvaluatorPairSLJ_new,
     needsDiameter = True, setDiameter = EvaluatorPairSLJ_setDiameter,
     needsCharge = False, setCharge = (\<lambda>qi qj e. e),
     evalForceAndEnergy = EvaluatorPairSLJ_eval\<rparr>"

section \<open>Mie\<close>

record EvaluatorPairMie = pair_distances +
  mie1 :: Scalar
  mie2 :: Scalar
  mie3 :: Scalar
  mie4 :: Scalar

definition EvaluatorPairMie_new :: "Scalar \<Rightarrow> Scalar \<Rightarrow> Scalar4 \<Rightarrow> EvaluatorPairMie" where
  "EvaluatorPairMie_new r rc params =
     \<lparr>e_rsq = r, e_rcutsq = rc, mie1 = sx params, mie2 = sy params, mie3 = sz params, mie4 = sw params\<rparr>"

definition EvaluatorPairMie_eval :: "EvaluatorPairMie \<Rightarrow> bool \<Rightarrow> (Scalar \<times> Scalar) option" where
  "EvaluatorPairMie_eval e energy_shift =
     (if e_rsq e < e_rcutsq e \<and> mie1 e \<noteq> 0 then
        let r2inv = 1 / e_rsq e;
            rninv = r2inv powr (mie3 e / 2);
            rminv = r2inv powr (mie4 e / 2);
            force_divr = r2inv * (mie3 e * mie1 e * rninv - mie4 e * mie2 e * rminv);
            pair_eng = mie1 e * rninv - mie2 e * rminv;
            pair_eng =
              (if energy_shift then
                 let rcutninv = 1 / e_rcutsq e powr (mie3 e / 2);
                     rcutminv = 1 / e_rcutsq e powr (mie4 e / 2)
                 in pair_eng - (mie1 e * rcutninv - mie2 e * rcutminv)
               else pair_eng)
        in Some (force_divr, pair_eng)
      else None)"

definition Mie :: "(Scalar4, EvaluatorPairMie) evaluator" where
  "Mie = \<lparr>getName = ''mie'', construct = EvaluatorPairMie_new,
     needsDiameter = False, setDiameter = (\<lambda>di dj e. e),
     needsCharge = False, setCharge = (\<lambda>qi qj e. e),
     evalForceAndEnergy = EvaluatorPairMie_eval\<rparr>"

section \<open>Force shifted Lennard-Jones\<close>

text \<open>The class has the members of \<open>EvaluatorPairLJ\<close>.\<close>

type_synonym EvaluatorPairForceShiftedLJ = EvaluatorPairLJ

definition EvaluatorPairForceShiftedLJ_new :: "Scalar \<Rightarrow> Scalar \<Rightarrow> Scalar2 \<Rightarrow> EvaluatorPairForceShiftedLJ" where
  "EvaluatorPairForceShiftedLJ_new r rc params = \<lparr>e_rsq = r, e_rcutsq = rc, lj1 = fst params, lj2 = snd params\<rparr>"

definition EvaluatorPairForceShiftedLJ_eval :: "EvaluatorPairForceShiftedLJ \<Rightarrow> bool \<Rightarrow> (Scalar \<times> Scalar) option" where
  "EvaluatorPairForceShiftedLJ_eval e energy_shift =
     (if e_rsq e < e_rcutsq e \<and> lj1 e \<noteq> 0 then
        let r2inv = 1 / e_rsq e;
            r6inv = r2inv * r2inv * r2inv;
            force_divr = r2inv * r6inv * (12 * lj1 e * r6inv - 6 * lj2 e);
            pair_eng = r6inv * (lj1 e * r6inv - lj2 e);
            rcut2inv = 1 / e_rcutsq e;
            rcut6inv = rcut2inv * rcut2inv * rcut2inv;
            pair_eng = (if energy_shift then pair_eng - rcut6inv * (lj1 e * rcut6inv - lj2 e) else pair_eng);
            rcut_r_inv = rsqrt (e_rsq e * e_rcutsq e);
            force_rcut_at_rcut = rcut6inv * (12 * lj1 e * rcut6inv - 6 * lj2 e);
            force_divr = force_divr - rcut_r_inv * force_rcut_at_rcut;
            pair_eng = pair_eng + (e_rsq e * rcut_r_inv - 1) * force_rcut_at_rcut
        in Some (force_divr, pair_eng)
      else None)"

definition ForceShiftedLJ :: "(Scalar2, EvaluatorPairForceShiftedLJ) evaluator" where
  "ForceShiftedLJ = \<lparr>getName = ''force_shift_lj'', construct = EvaluatorPairForceShiftedLJ_new,
     needsDiameter = False, setDiameter = (\<lambda>di dj e. e),
     needsCharge = False, setCharge = (\<lambda>qi qj e. e),
     evalForceAndEnergy = EvaluatorPairForceShiftedLJ_eval\<rparr>"

section \<open>Yukawa, Morse and Gauss\<close>

record EvaluatorPairYukawa = pair_distances +
  yukawa_epsilon :: Scalar
  yukawa_kappa :: Scalar

definition EvaluatorPairYukawa_new :: "Scalar \<Rightarrow> Scalar \<Rightarrow> Scalar2 \<Rightarrow> EvaluatorPairYukawa" where
  "EvaluatorPairYukawa_new r rc params = \<lparr>e_rsq = r, e_rcutsq = rc, yukawa_epsilon = fst params, yukawa_kappa = snd params\<rparr>"

definition EvaluatorPairYukawa_eval :: "EvaluatorPairYukawa \<Rightarrow> bool \<Rightarrow> (Scalar \<times> Scalar) option" where
  "EvaluatorPairYukawa_eval e energy_shift =
     (if e_rsq e < e_rcutsq e \<and> yukawa_epsilon e \<noteq> 0 then
        let rinv = rsqrt (e_rsq e);
            r = 1 / rinv;
            r2inv = 1 / e_rsq e;
            exp_val = exp (- yukawa_kappa e * r);
            force_divr = yukawa_epsilon e * exp_val * r2inv * (rinv + yukawa_kappa e);
            pair_eng = yukawa_epsilon e * exp_val * rinv;
            pair_eng =
              (if energy_shift then
                 let rcutinv = rsqrt (e_rcutsq e);
                     rcut = 1 / rcutinv
                 in pair_eng - yukawa_epsilon e * exp (- yukawa_kappa e * rcut) * rcutinv
               else pair_eng)
        in Some (force_divr, pair_eng)
      else None)"

definition Yukawa :: "(Scalar2, EvaluatorPairYukawa) evaluator" where
  "Yukawa = \<lparr>getName = ''yukawa'', construct = EvaluatorPairYukawa_new,
     needsDiameter = False, setDiameter = (\<lambda>di dj e. e),
     needsCharge = False, setCharge = (\<lambda>qi qj e. e),
     evalForceAndEnergy = EvaluatorPairYukawa_eval\<rparr>"

record EvaluatorPairMorse = pair_distances +
  D0 :: Scalar
  morse_alpha :: Scalar
  morse_r0 :: Scalar

definition EvaluatorPairMorse_new :: "Scalar \<Rightarrow> Scalar \<Rightarrow> Scalar4 \<Rightarrow> EvaluatorPairMorse" where
  "EvaluatorPairMorse_new r rc params = \<lparr>e_rsq = r, e_rcutsq = rc, D0 = sx params, morse_alpha = sy params, morse_r0 = sz params\<rparr>"

definition EvaluatorPairMorse_eval :: "EvaluatorPairMorse \<Rightarrow> bool \<Rightarrow> (Scalar \<times> Scalar) option" where
  "EvaluatorPairMorse_eval e energy_shift =
     (if e_rsq e < e_rcutsq e then
        let r = sqrt (e_rsq e);
            Exp_factor = exp (- morse_alpha e * (r - morse_r0 e));
            pair_eng = D0 e * Exp_factor * (Exp_factor - 2);
            force_divr = 2 * D0 e * morse_alpha e * Exp_factor * (Exp_factor - 1) / r;
            pair_eng =
              (if energy_shift then
                 let rcut = sqrt (e_rcutsq e);
                     Exp_factor_cut = exp (- morse_alpha e * (rcut - morse_r0 e))
                 in pair_eng - D0 e * Exp_factor_cut * (Exp_factor_cut - 2)
               else pair_eng)
        in Some (force_divr, pair_eng)
      else None)"

definition Morse :: "(Scalar4, EvaluatorPairMorse) evaluator" where
  "Morse = \<lparr>getName = ''morse'', construct = EvaluatorPairMorse_new,
     needsDiameter = False, setDiameter = (\<lambda>di dj e. e),
     needsCharge = False, setCharge = (\<lambda>qi qj e. e),
     evalForceAndEnergy = EvaluatorPairMorse_eval\<rparr>"

record EvaluatorPairGauss = pair_distances +
  gauss_epsilon :: Scalar
  gauss_sigma :: Scalar

definition EvaluatorPairGauss_new :: "Scalar \<Rightarrow> Scalar \<Rightarrow> Scalar2 \<Rightarrow> EvaluatorPairGauss" where
  "EvaluatorPairGauss_new r rc params = \<lparr>e_rsq = r, e_rcutsq = rc, gauss_epsilon = fst params, gauss_sigma = snd params\<rparr>"

definition EvaluatorPairGauss_eval :: "EvaluatorPairGauss \<Rightarrow> bool \<Rightarrow> (Scalar \<times> Scalar) option" where
  "EvaluatorPairGauss_eval e energy_shift =
     (if e_rsq e < e_rcutsq e then
        let sigma_sq = gauss_sigma e * gauss_sigma e;
            r_over_sigma_sq = e_rsq e / sigma_sq;
            exp_val = exp (- 1 / 2 * r_over_sigma_sq);
            force_divr = gauss_epsilon e / sigma_sq * exp_val;
            pair_eng = gauss_epsilon e * exp_val;
            pair_eng = (if energy_shift then pair_eng - gauss_epsilon e * exp (- 1 / 2 * e_rcutsq e / sigma_sq) else pair_eng)
        in Some (force_divr, pair_eng)
      else None)"

definition Gauss :: "(Scalar2, EvaluatorPairGauss) evaluator" where
  "Gauss = \<lparr>getName = ''gauss'', construct = EvaluatorPairGauss_new,
     needsDiameter = False, setDiameter = (\<lambda>di dj e. e),
     needsCharge = False, setCharge = (\<lambda>qi qj e. e),
     evalForceAndEnergy = EvaluatorPairGauss_eval\<rparr>"

section \<open>Screened nuclear repulsion: ZBL and Moliere\<close>

record EvaluatorPairZBL = pair_distances +
  Zsq :: Scalar
  aF :: Scalar

definition EvaluatorPairZBL_new :: "Scalar \<Rightarrow> Scalar \<Rightarrow> Scalar2 \<Rightarrow> EvaluatorPairZBL" where
  "EvaluatorPairZBL_new r rc params = \<lparr>e_rsq = r, e_rcutsq = rc, Zsq = fst params, aF = snd params\<rparr>"

text \<open>The flag \<open>energy_shift\<close> is not read.\<close>

definition EvaluatorPairZBL_eval :: "EvaluatorPairZBL \<Rightarrow> bool \<Rightarrow> (Scalar \<times> Scalar) option" where
  "EvaluatorPairZBL_eval e energy_shift =
     (if e_rsq e < e_rcutsq e \<and> Zsq e \<noteq> 0 \<and> aF e \<noteq> 0 then
        let r2inv = 1 / e_rsq e;
            rinv = rsqrt (e_rsq e);
            exp1 = 0.1818 * exp (- 3.2 / aF e / rinv);
            exp2 = 0.5099 * exp (- 0.9423 / aF e / rinv);
            exp3 = 0.2802 * exp (- 0.4029 / aF e / rinv);
            exp4 = 0.02817 * exp (- 0.2016 / aF e / rinv);
            force_divr = rinv * (exp1 + exp2 + exp3 + exp4);
            force_divr = force_divr + 1 / aF e * (3.2 * exp1 + 0.9423 * exp2 + 0.4029 * exp3 + 0.2016 * exp4);
            force_divr = force_divr * (Zsq e * r2inv);
            pair_eng = Zsq e * rinv * (exp1 + exp2 + exp3 + exp4)
        in Some (force_divr, pair_eng)
      else None)"

definition ZBL :: "(Scalar2, EvaluatorPairZBL) evaluator" where
  "ZBL = \<lparr>getName = ''zbl'', construct = EvaluatorPairZBL_new,
     needsDiameter = False, setDiameter = (\<lambda>di dj e. e),
     needsCharge = False, setCharge = (\<lambda>qi qj e. e),
     evalForceAndEnergy = EvaluatorPairZBL_eval\<rparr>"

text \<open>The Moliere class has the members of \<open>EvaluatorPairZBL\<close>.\<close>

type_synonym EvaluatorPairMoliere = EvaluatorPairZBL

definition EvaluatorPairMoliere_new :: "Scalar \<Rightarrow> Scalar \<Rightarrow> Scalar2 \<Rightarrow> EvaluatorPairMoliere" where
  "EvaluatorPairMoliere_new r rc params = \<lparr>e_rsq = r, e_rcutsq = rc, Zsq = fst params, aF = snd params\<rparr>"

definition EvaluatorPairMoliere_eval :: "EvaluatorPairMoliere \<Rightarrow> bool \<Rightarrow> (Scalar \<times> Scalar) option" where
  "EvaluatorPairMoliere_eval e energy_shift =
     (if e_rsq e < e_rcutsq e \<and> Zsq e \<noteq> 0 \<and> aF e \<noteq> 0 then
        let r2inv = 1 / e_rsq e;
            rinv = rsqrt (e_rsq e);
            exp1 = 0.35 * exp (- 0.3 / aF e / rinv);
            exp2 = 0.55 * exp (- 1.2 / aF e / rinv);
            exp3 = 0.1 * exp (- 6 / aF e / rinv);
            force_divr = rinv * (exp1 + exp2 + exp3);
            force_divr = force_divr + 1 / aF e * (0.3 * exp1 + 1.2 * exp2 + 6 * exp3);
            force_divr = force_divr * (Zsq e * r2inv);
            pair_eng = Zsq e * rinv * (exp1 + exp2 + exp3);
            pair_eng =
              (if energy_shift then
                 let rcutinv = rsqrt (e_rcutsq e);
                     expcut1 = 0.35 * exp (- 0.3 / aF e / rcutinv);
                     expcut2 = 0.55 * exp (- 1.2 / aF e / rcutinv);
                     expcut3 = 0.1 * exp (- 6 / aF e / rcutinv)
                 in pair_eng - Zsq e * rcutinv * (expcut1 + expcut2 + expcut3)
               else pair_eng)
        in Some (force_divr, pair_eng)
      else None)"

definition Moliere :: "(Scalar2, EvaluatorPairMoliere) evaluator" where
  "Moliere = \<lparr>getName = ''moliere'', construct = EvaluatorPairMoliere_new,
     needsDiameter = False, setDiameter = (\<lambda>di dj e. e),
     needsCharge = False, setCharge = (\<lambda>qi qj e. e),
     evalForceAndEnergy = EvaluatorPairMoliere_eval\<rparr>"

section \<open>Ewald\<close>

text \<open>The complementary error function of the C library, by the power series of the error function.\<close>

definition erf_coeff :: "nat \<Rightarrow> real" where
  "erf_coeff n = (if odd n then (- 1) ^ (n div 2) / (fact (n div 2) * of_nat n) else 0)"

definition erfc :: "real \<Rightarrow> real" where
  "erfc x = 1 - 2 / sqrt pi * (\<Sum>n. erf_coeff n * x ^ n)"

record EvaluatorPairEwald = pair_distances +
  ewald_kappa :: Scalar
  qiqj :: Scalar

definition EvaluatorPairEwald_new :: "Scalar \<Rightarrow> Scalar \<Rightarrow> Scalar \<Rightarrow> EvaluatorPairEwald" where
  "EvaluatorPairEwald_new r rc params = \<lparr>e_rsq = r, e_rcutsq = rc, ewald_kappa = params, qiqj = undefined\<rparr>"

definition EvaluatorPairEwald_setCharge :: "Scalar \<Rightarrow> Scalar \<Rightarrow> EvaluatorPairEwald \<Rightarrow> EvaluatorPairEwald" where
  "EvaluatorPairEwald_setCharge qi qj e = e\<lparr>qiqj := qi * qj\<rparr>"

text \<open>The flag \<open>energy_shift\<close> is not read.\<close>

definition EvaluatorPairEwald_eval :: "EvaluatorPairEwald \<Rightarrow> bool \<Rightarrow> (Scalar \<times> Scalar) option" where
  "EvaluatorPairEwald_eval e energy_shift =
     (if e_rsq e < e_rcutsq e \<and> qiqj e \<noteq> 0 then
        let rinv = rsqrt (e_rsq e);
            r = 1 / rinv;
            r2inv = 1 / e_rsq e;
            erfc_by_r_val = erfc (ewald_kappa e * r) * rinv;
            force_divr = qiqj e * r2inv * (erfc_by_r_val
              + 2 * ewald_kappa e * rsqrt pi * exp (- ewald_kappa e * ewald_kappa e * e_rsq e));
            pair_eng = qiqj e * erfc_by_r_val
        in Some (force_divr, pair_eng)
      else None)"

definition Ewald :: "(Scalar, EvaluatorPairEwald) evaluator" where
  "Ewald = \<lparr>getName = ''ewald'', construct = EvaluatorPairEwald_new,
     needsDiameter = False, setDiameter = (\<lambda>di dj e. e),
     needsCharge = True, setCharge = EvaluatorPairEwald_setCharge,
     evalForceAndEnergy = EvaluatorPairEwald_eval\<rparr>"

section \<open>The derivative of the complementary error function\<close>

lemma erf_coeff_odd: "erf_coeff (2 * k + 1) = (- 1) ^ k / (fact k * of_nat (2 * k + 1))"
  by (simp add: erf_coeff_def)

lemma summable_erf: "summable (\<lambda>n. erf_coeff n * y ^ n)"
proof -
  have "summable (\<lambda>k. erf_coeff (2 * k + 1) * y ^ (2 * k + 1))"
  proof (rule summable_comparison_test [OF _ summable_mult [OF summable_exp]], intro exI allI impI)
    fix k :: nat
    have "\<bar>y\<bar> * (y\<^sup>2) ^ k / (fact k * (1 + 2 * real k)) \<le> \<bar>y\<bar> * (y\<^sup>2) ^ k / (fact k * 1)"
      by (intro divide_left_mono mult_left_mono mult_nonneg_nonneg mult_pos_pos) simp_all
    moreover have "(\<bar>y\<bar> ^ k)\<^sup>2 = (y\<^sup>2) ^ k" by (simp add: power_even_abs flip: power_mult)  (simp add: mult.commute)
    ultimately show "norm (erf_coeff (2 * k + 1) * y ^ (2 * k + 1)) \<le> \<bar>y\<bar> * (inverse (fact k) * (y\<^sup>2) ^ k)"
      unfolding erf_coeff_odd
      by (simp add: abs_mult power_abs power_mult power_mult_distrib field_simps)
  qed
  then have "(\<lambda>k. erf_coeff (2 * k + 1) * y ^ (2 * k + 1)) sums (\<Sum>k. erf_coeff (2 * k + 1) * y ^ (2 * k + 1))"
    by (rule summable_sums)
  then have "(\<lambda>n. erf_coeff n * y ^ n) sums (\<Sum>k. erf_coeff (2 * k + 1) * y ^ (2 * k + 1))"
    by (subst (asm) sums_mono_reindex [where g = "\<lambda>k. 2 * k + 1"])
      (auto simp: strict_mono_def erf_coeff_def elim!: oddE)
  then show ?thesis by (rule sums_summable)
qed

lemma diffs_erf: "diffs erf_coeff n = (if even n then (- 1) ^ (n div 2) / fact (n div 2) else 0)"
  by (simp add: diffs_def erf_coeff_def del: of_nat_Suc)

lemma sums_erf: "(\<lambda>n. diffs erf_coeff n * x ^ n) sums exp (- (x * x))"
proof -
  have "(\<lambda>k. diffs erf_coeff (2 * k) * x ^ (2 * k)) = (\<lambda>k. (- (x * x)) ^ k /\<^sub>R fact k)"
    by (rule ext) (simp add: diffs_erf power_mult power_minus [of "x * x"] power2_eq_square field_simps)
  then have "(\<lambda>k. diffs erf_coeff (2 * k) * x ^ (2 * k)) sums exp (- (x * x))" using exp_converges [of "- (x * x)"] by simp
  then show ?thesis
    by (subst (asm) sums_mono_reindex [where g = "\<lambda>k. 2 * k"]) (auto simp: strict_mono_def diffs_erf)
qed

lemma DERIV_erfc: "(erfc has_real_derivative - (2 * rsqrt pi * exp (- (x * x)))) (at x)"
proof -
  have "((\<lambda>x. \<Sum>n. erf_coeff n * x ^ n) has_real_derivative exp (- (x * x))) (at x)"
    using termdiffs_strong_converges_everywhere [OF summable_erf, of x] sums_unique [OF sums_erf [of x]] by simp
  then have "((\<lambda>x. 1 - 2 / sqrt pi * (\<Sum>n. erf_coeff n * x ^ n)) has_real_derivative 0 - 2 / sqrt pi * exp (- (x * x))) (at x)"
    by (intro DERIV_diff DERIV_cmult) simp_all
  then show ?thesis by (simp add: erfc_def [abs_def] rsqrt_def)
qed

section \<open>The contract\<close>

text \<open>What one call is about: parameters, cutoff, diameters and charges of the pair.\<close>

record 'p interaction =
  param :: 'p
  rcut :: Scalar
  d_i :: Scalar
  d_j :: Scalar
  q_i :: Scalar
  q_j :: Scalar

abbreviation eval_at :: "('p, 'e) evaluator \<Rightarrow> 'p interaction \<Rightarrow> Scalar \<Rightarrow> bool \<Rightarrow> (Scalar \<times> Scalar) option" where
  "eval_at ev x r shift \<equiv> evaluate ev (r * r) (rcut x * rcut x) (param x) (d_i x) (d_j x) (q_i x) (q_j x) shift"

text \<open>The energy the evaluator contributes at distance \<open>r\<close>: nothing when it returns \<open>false\<close>.\<close>

definition energy :: "('p, 'e) evaluator \<Rightarrow> 'p interaction \<Rightarrow> bool \<Rightarrow> Scalar \<Rightarrow> Scalar" where
  "energy ev x shift r = (case eval_at ev x r shift of None \<Rightarrow> 0 | Some (f, e) \<Rightarrow> e)"

text \<open>The contract of an evaluator for a potential \<open>V\<close>: below the cutoff \<open>cut\<close>, and unless the parameters
  switch the pair off, it returns a force law \<open>F\<close> and the energy, shifted on request where the class
  implements that; and \<open>F\<close> is the negative derivative of \<open>V\<close> divided by the distance.\<close>

locale pair_evaluator =
  fixes ev :: "('p, 'e) evaluator" and V F :: "'p interaction \<Rightarrow> Scalar \<Rightarrow> Scalar" and cut :: "'p interaction \<Rightarrow> Scalar"
    and active :: "'p interaction \<Rightarrow> bool" and regular :: "'p interaction \<Rightarrow> Scalar \<Rightarrow> bool" and shifts :: bool
  assumes evaluates: "0 < r \<Longrightarrow> 0 < rcut x \<Longrightarrow> eval_at ev x r shift =
      (if active x \<and> r < cut x then Some (F x r, V x r - (if shift \<and> shifts then V x (cut x) else 0)) else None)"
    and derivative: "0 < r \<Longrightarrow> 0 < rcut x \<Longrightarrow> regular x r \<Longrightarrow> (V x has_real_derivative - (F x r * r)) (at r)"
begin

lemma energy_eq: "0 < r \<Longrightarrow> 0 < rcut x \<Longrightarrow> energy ev x shift r =
    (if active x \<and> r < cut x then V x r - (if shift \<and> shifts then V x (cut x) else 0) else 0)"
  by (simp add: energy_def evaluates)

text \<open>The force returned is the negative derivative of the energy returned.\<close>

lemma conservative:
  assumes "0 < r" "0 < rcut x" "regular x r" "eval_at ev x r shift = Some (f, e)"
  shows "(energy ev x shift has_real_derivative - (f * r)) (at r)"
proof -
  have on: "active x" "r < cut x" "f = F x r" using assms by (auto simp: evaluates split: if_splits)
  have "((\<lambda>r. V x r - (if shift \<and> shifts then V x (cut x) else 0)) has_real_derivative - (F x r * r) - 0) (at r)"
    by (intro DERIV_diff derivative [OF assms(1-3)] DERIV_const)
  then have "(energy ev x shift has_real_derivative - (F x r * r) - 0) (at r)"
    by (rule has_field_derivative_transform_within_open [where S = "{0<..<cut x}"])
      (use on assms in \<open>auto simp: energy_eq\<close>)
  then show ?thesis by (simp add: on)
qed

text \<open>The shifted energy is continuous at the cutoff, where it vanishes.\<close>

lemma shifted_continuous:
  assumes "shifts" "0 < cut x" "0 < rcut x" "regular x (cut x)"
  shows "energy ev x True (cut x) = 0 \<and> isCont (energy ev x True) (cut x)"
proof
  show zero: "energy ev x True (cut x) = 0" using assms(2,3) by (simp add: energy_eq)
  have "isCont (V x) (cut x)" by (rule DERIV_isCont [OF derivative [OF assms(2-4)]])
  then have "((\<lambda>r. V x r - V x (cut x)) \<longlongrightarrow> V x (cut x) - V x (cut x)) (at (cut x))"
    unfolding isCont_def by (intro tendsto_diff tendsto_const)
  then have "((\<lambda>r. V x r - V x (cut x)) \<longlongrightarrow> 0) (at (cut x))" by simp
  moreover have "eventually (\<lambda>r. norm (energy ev x True r) \<le> norm (V x r - V x (cut x)) * 1) (at (cut x))"
    by (rule eventually_mono [OF eventually_at_in_open' [of "{0<..}"]]) (use assms in \<open>auto simp: energy_eq\<close>)
  ultimately have "(energy ev x True \<longlongrightarrow> 0) (at (cut x))" by (rule tendsto_0_le)
  then show "isCont (energy ev x True) (cut x)" by (simp add: isCont_def zero)
qed

end

section \<open>The evaluators meet the contract\<close>

lemma rsq_less: "0 < r \<Longrightarrow> 0 < s \<Longrightarrow> r * r < s * s \<longleftrightarrow> r < (s :: real)"
  by (auto simp flip: power2_eq_square intro: power2_less_imp_less power_strict_mono)

definition LJ_V :: "Scalar2 \<Rightarrow> Scalar \<Rightarrow> Scalar" where
  "LJ_V p r = fst p / r ^ 12 - snd p / r ^ 6"

definition LJ_F :: "Scalar2 \<Rightarrow> Scalar \<Rightarrow> Scalar" where
  "LJ_F p r = (12 * fst p / r ^ 12 - 6 * snd p / r ^ 6) / r ^ 2"

lemma LJ_DERIV: "r \<noteq> 0 \<Longrightarrow> (LJ_V p has_real_derivative - (LJ_F p r * r)) (at r)"
  unfolding LJ_V_def [abs_def] LJ_F_def
  by (auto intro!: derivative_eq_intros simp: field_simps eval_nat_numeral)

interpretation lj: pair_evaluator LJ "\<lambda>x. LJ_V (param x)" "\<lambda>x. LJ_F (param x)" rcut "\<lambda>x. fst (param x) \<noteq> 0" "\<lambda>x r. True" True
proof unfold_locales
  fix r :: real and x :: "Scalar2 interaction" and shift
  assume "0 < r" "0 < rcut x"
  then show "eval_at LJ x r shift = (if fst (param x) \<noteq> 0 \<and> r < rcut x
      then Some (LJ_F (param x) r, LJ_V (param x) r - (if shift \<and> True then LJ_V (param x) (rcut x) else 0)) else None)"
    by (simp add: evaluate_def LJ_def EvaluatorPairLJ_new_def EvaluatorPairLJ_eval_def Let_def rsq_less
        LJ_V_def LJ_F_def)
      (auto simp: field_simps eval_nat_numeral)
qed (simp add: LJ_DERIV)

definition delta_of :: "'p interaction \<Rightarrow> Scalar" where
  "delta_of x = (d_i x + d_j x) / 2 - 1"

lemma SLJ_DERIV:
  assumes "r \<noteq> d"
  shows "((\<lambda>r. LJ_V p (r - d)) has_real_derivative - (LJ_F p (r - d) * (r - d))) (at r)"
proof -
  have "((\<lambda>r. r - d) has_real_derivative 1) (at r)" by (auto intro!: derivative_eq_intros)
  from DERIV_chain2 [of "LJ_V p", OF LJ_DERIV this] assms show ?thesis by simp
qed

interpretation slj: pair_evaluator SLJ "\<lambda>x r. LJ_V (param x) (r - delta_of x)"
  "\<lambda>x r. LJ_F (param x) (r - delta_of x) * (r - delta_of x) / r"
  "\<lambda>x. rcut x + delta_of x" "\<lambda>x. fst (param x) \<noteq> 0" "\<lambda>x r. r \<noteq> delta_of x" True
proof unfold_locales
  fix r :: real and x :: "Scalar2 interaction" and shift
  assume "0 < r" "0 < rcut x"
  moreover define s where "s = r - delta_of x"
  then have d: "delta_of x = r - s" "(d_i x + d_j x) / 2 - 1 = r - s" by (simp_all add: delta_of_def)
  ultimately show "eval_at SLJ x r shift = (if fst (param x) \<noteq> 0 \<and> r < rcut x + delta_of x
      then Some (LJ_F (param x) (r - delta_of x) * (r - delta_of x) / r, LJ_V (param x) (r - delta_of x)
        - (if shift \<and> True then LJ_V (param x) (rcut x + delta_of x - delta_of x) else 0)) else None)"
    by (simp add: evaluate_def SLJ_def EvaluatorPairSLJ_new_def EvaluatorPairSLJ_setDiameter_def EvaluatorPairSLJ_eval_def
        Let_def rsqrt_square d LJ_V_def LJ_F_def) (auto simp: field_simps eval_nat_numeral)
qed (simp add: SLJ_DERIV)

definition Mie_V :: "Scalar4 \<Rightarrow> Scalar \<Rightarrow> Scalar" where
  "Mie_V p r = sx p * r powr - sz p - sy p * r powr - sw p"

definition Mie_F :: "Scalar4 \<Rightarrow> Scalar \<Rightarrow> Scalar" where
  "Mie_F p r = (sz p * sx p * r powr - sz p - sw p * sy p * r powr - sw p) / r ^ 2"

lemma Mie_DERIV: "0 < r \<Longrightarrow> (Mie_V p has_real_derivative - (Mie_F p r * r)) (at r)"
  unfolding Mie_V_def [abs_def] Mie_F_def
  by (auto intro!: derivative_eq_intros simp: field_simps power2_eq_square powr_diff powr_minus)

lemma half_powr:
  assumes "0 < (r :: real)"
  shows "(1 / (r * r)) powr (n / 2) = r powr - n" "1 / (r * r) powr (n / 2) = r powr - n"
proof -
  have "(r * r) powr (n / 2) = r powr n" using assms by (simp add: powr_mult flip: powr_add)
  then show "(1 / (r * r)) powr (n / 2) = r powr - n" "1 / (r * r) powr (n / 2) = r powr - n"
    using assms by (simp_all add: powr_divide powr_minus_divide)
qed

interpretation mie: pair_evaluator Mie "\<lambda>x. Mie_V (param x)" "\<lambda>x. Mie_F (param x)" rcut "\<lambda>x. sx (param x) \<noteq> 0" "\<lambda>x r. True" True
proof unfold_locales
  fix r :: real and x :: "Scalar4 interaction" and shift
  assume "0 < r" "0 < rcut x"
  then show "eval_at Mie x r shift = (if sx (param x) \<noteq> 0 \<and> r < rcut x
      then Some (Mie_F (param x) r, Mie_V (param x) r - (if shift \<and> True then Mie_V (param x) (rcut x) else 0)) else None)"
    by (simp add: evaluate_def Mie_def EvaluatorPairMie_new_def EvaluatorPairMie_eval_def Let_def rsq_less half_powr
        Mie_V_def Mie_F_def power2_eq_square)
qed (simp add: Mie_DERIV)

definition FSLJ_V :: "Scalar2 \<Rightarrow> Scalar \<Rightarrow> Scalar \<Rightarrow> Scalar" where
  "FSLJ_V p rc r = LJ_V p r + (r - rc) * (LJ_F p rc * rc)"

lemma FSLJ_DERIV:
  assumes "0 < r"
  shows "(FSLJ_V p rc has_real_derivative - ((LJ_F p r - LJ_F p rc * rc / r) * r)) (at r)"
  unfolding FSLJ_V_def [abs_def]
  by (rule derivative_eq_intros LJ_DERIV refl | use assms in \<open>simp add: field_simps\<close>)+

lemma FSLJ_code:
  assumes "0 < r" "0 < rc"
  shows "rsqrt (r * r * (rc * rc)) = 1 / (r * rc)"
  using assms rsqrt_square [of "r * rc"] by (simp add: ac_simps)

interpretation fslj: pair_evaluator ForceShiftedLJ "\<lambda>x. FSLJ_V (param x) (rcut x)"
  "\<lambda>x r. LJ_F (param x) r - LJ_F (param x) (rcut x) * rcut x / r" rcut "\<lambda>x. fst (param x) \<noteq> 0" "\<lambda>x r. True" True
proof unfold_locales
  fix r :: real and x :: "Scalar2 interaction" and shift
  assume "0 < r" "0 < rcut x"
  then show "eval_at ForceShiftedLJ x r shift = (if fst (param x) \<noteq> 0 \<and> r < rcut x
      then Some (LJ_F (param x) r - LJ_F (param x) (rcut x) * rcut x / r,
        FSLJ_V (param x) (rcut x) r - (if shift \<and> True then FSLJ_V (param x) (rcut x) (rcut x) else 0)) else None)"
    by (simp add: evaluate_def ForceShiftedLJ_def EvaluatorPairForceShiftedLJ_new_def EvaluatorPairForceShiftedLJ_eval_def
        Let_def rsq_less FSLJ_code FSLJ_V_def LJ_V_def LJ_F_def)
      (auto simp: field_simps eval_nat_numeral)
qed (simp add: FSLJ_DERIV)

text \<open>Yukawa, ZBL and Moliere are Coulomb potentials screened by a sum of exponentials \<open>c exp (- b r)\<close>.\<close>

definition screen :: "(Scalar \<times> Scalar) list \<Rightarrow> Scalar \<Rightarrow> Scalar" where
  "screen cs r = (\<Sum>(c, b) \<leftarrow> cs. c * exp (- (b * r)))"

definition screened_V :: "Scalar \<Rightarrow> (Scalar \<times> Scalar) list \<Rightarrow> Scalar \<Rightarrow> Scalar" where
  "screened_V k cs r = k * screen cs r / r"

definition screened_F :: "Scalar \<Rightarrow> (Scalar \<times> Scalar) list \<Rightarrow> Scalar \<Rightarrow> Scalar" where
  "screened_F k cs r = k * (screen cs r / r + screen (map (\<lambda>(c, b). (b * c, b)) cs) r) / r ^ 2"

lemma screen_DERIV: "(screen cs has_real_derivative - screen (map (\<lambda>(c, b). (b * c, b)) cs) r) (at r)"
proof (induction cs)
  case (Cons p cs)
  obtain c b where p: "p = (c, b)" by (cases p)
  have "((\<lambda>r. c * exp (- (b * r))) has_real_derivative - (b * c * exp (- (b * r)))) (at r)"
    by (auto intro!: derivative_eq_intros)
  from DERIV_add [OF this Cons.IH] show ?case by (simp add: screen_def [abs_def] p)
qed (simp add: screen_def [abs_def])

lemma screened_DERIV: "0 < r \<Longrightarrow> (screened_V k cs has_real_derivative - (screened_F k cs r * r)) (at r)"
  unfolding screened_V_def [abs_def] screened_F_def
  by (rule derivative_eq_intros screen_DERIV refl | simp add: field_simps power2_eq_square)+

definition ZBL_terms :: "Scalar \<Rightarrow> (Scalar \<times> Scalar) list" where
  "ZBL_terms a = [(0.1818, 3.2 / a), (0.5099, 0.9423 / a), (0.2802, 0.4029 / a), (0.02817, 0.2016 / a)]"

definition Moliere_terms :: "Scalar \<Rightarrow> (Scalar \<times> Scalar) list" where
  "Moliere_terms a = [(0.35, 0.3 / a), (0.55, 1.2 / a), (0.1, 6 / a)]"

interpretation yukawa: pair_evaluator Yukawa "\<lambda>x. screened_V (fst (param x)) [(1, snd (param x))]"
  "\<lambda>x. screened_F (fst (param x)) [(1, snd (param x))]" rcut "\<lambda>x. fst (param x) \<noteq> 0" "\<lambda>x r. True" True
proof unfold_locales
  fix r :: real and x :: "Scalar2 interaction" and shift
  assume "0 < r" "0 < rcut x"
  then show "eval_at Yukawa x r shift = (if fst (param x) \<noteq> 0 \<and> r < rcut x
      then Some (screened_F (fst (param x)) [(1, snd (param x))] r, screened_V (fst (param x)) [(1, snd (param x))] r
        - (if shift \<and> True then screened_V (fst (param x)) [(1, snd (param x))] (rcut x) else 0)) else None)"
    by (simp add: evaluate_def Yukawa_def EvaluatorPairYukawa_new_def EvaluatorPairYukawa_eval_def Let_def rsq_less rsqrt_square
        screened_V_def screened_F_def screen_def)
      (auto simp: field_simps power2_eq_square)
qed (simp add: screened_DERIV)

interpretation zbl: pair_evaluator ZBL "\<lambda>x. screened_V (fst (param x)) (ZBL_terms (snd (param x)))"
  "\<lambda>x. screened_F (fst (param x)) (ZBL_terms (snd (param x)))" rcut "\<lambda>x. fst (param x) \<noteq> 0 \<and> snd (param x) \<noteq> 0"
  "\<lambda>x r. True" False
proof unfold_locales
  fix r :: real and x :: "Scalar2 interaction" and shift
  assume "0 < r" "0 < rcut x"
  then show "eval_at ZBL x r shift = (if (fst (param x) \<noteq> 0 \<and> snd (param x) \<noteq> 0) \<and> r < rcut x
      then Some (screened_F (fst (param x)) (ZBL_terms (snd (param x))) r, screened_V (fst (param x)) (ZBL_terms (snd (param x))) r
        - (if shift \<and> False then screened_V (fst (param x)) (ZBL_terms (snd (param x))) (rcut x) else 0)) else None)"
    by (simp add: evaluate_def ZBL_def EvaluatorPairZBL_new_def EvaluatorPairZBL_eval_def Let_def rsq_less rsqrt_square
        screened_V_def screened_F_def screen_def ZBL_terms_def)
      (auto simp: field_simps power2_eq_square)
qed (simp add: screened_DERIV)

interpretation moliere: pair_evaluator Moliere "\<lambda>x. screened_V (fst (param x)) (Moliere_terms (snd (param x)))"
  "\<lambda>x. screened_F (fst (param x)) (Moliere_terms (snd (param x)))" rcut "\<lambda>x. fst (param x) \<noteq> 0 \<and> snd (param x) \<noteq> 0"
  "\<lambda>x r. True" True
proof unfold_locales
  fix r :: real and x :: "Scalar2 interaction" and shift
  assume "0 < r" "0 < rcut x"
  then show "eval_at Moliere x r shift = (if (fst (param x) \<noteq> 0 \<and> snd (param x) \<noteq> 0) \<and> r < rcut x
      then Some (screened_F (fst (param x)) (Moliere_terms (snd (param x))) r, screened_V (fst (param x)) (Moliere_terms (snd (param x))) r
        - (if shift \<and> True then screened_V (fst (param x)) (Moliere_terms (snd (param x))) (rcut x) else 0)) else None)"
    by (simp add: evaluate_def Moliere_def EvaluatorPairMoliere_new_def EvaluatorPairMoliere_eval_def Let_def rsq_less rsqrt_square
        screened_V_def screened_F_def screen_def Moliere_terms_def)
      (auto simp: field_simps power2_eq_square)
qed (simp add: screened_DERIV)

definition Morse_V :: "Scalar4 \<Rightarrow> Scalar \<Rightarrow> Scalar" where
  "Morse_V p r = sx p * (exp (- 2 * sy p * (r - sz p)) - 2 * exp (- sy p * (r - sz p)))"

definition Morse_F :: "Scalar4 \<Rightarrow> Scalar \<Rightarrow> Scalar" where
  "Morse_F p r = 2 * sx p * sy p * (exp (- 2 * sy p * (r - sz p)) - exp (- sy p * (r - sz p))) / r"

lemma Morse_DERIV: "0 < r \<Longrightarrow> (Morse_V p has_real_derivative - (Morse_F p r * r)) (at r)"
  unfolding Morse_V_def [abs_def] Morse_F_def
  by (auto intro!: derivative_eq_intros simp: field_simps)

lemma exp_squared: "exp (- 2 * a * b) = exp (- a * b) * exp (- a * b :: real)"
  by (simp flip: exp_add)

interpretation morse: pair_evaluator Morse "\<lambda>x. Morse_V (param x)" "\<lambda>x. Morse_F (param x)" rcut "\<lambda>x. True" "\<lambda>x r. True" True
proof unfold_locales
  fix r :: real and x :: "Scalar4 interaction" and shift
  assume "0 < r" "0 < rcut x"
  then show "eval_at Morse x r shift = (if True \<and> r < rcut x
      then Some (Morse_F (param x) r, Morse_V (param x) r - (if shift \<and> True then Morse_V (param x) (rcut x) else 0)) else None)"
    unfolding Morse_V_def Morse_F_def exp_squared
    by (simp add: evaluate_def Morse_def EvaluatorPairMorse_new_def EvaluatorPairMorse_eval_def Let_def rsq_less)
      (auto simp: field_simps)
qed (simp add: Morse_DERIV)

definition Gauss_V :: "Scalar2 \<Rightarrow> Scalar \<Rightarrow> Scalar" where
  "Gauss_V p r = fst p * exp (- 1 / 2 * (r / snd p) ^ 2)"

definition Gauss_F :: "Scalar2 \<Rightarrow> Scalar \<Rightarrow> Scalar" where
  "Gauss_F p r = fst p / (snd p) ^ 2 * exp (- 1 / 2 * (r / snd p) ^ 2)"

lemma Gauss_DERIV: "(Gauss_V p has_real_derivative - (Gauss_F p r * r)) (at r)"
  unfolding Gauss_V_def [abs_def] Gauss_F_def
  by (cases "snd p = 0") (auto intro!: derivative_eq_intros simp: field_simps power2_eq_square)

interpretation gauss: pair_evaluator Gauss "\<lambda>x. Gauss_V (param x)" "\<lambda>x. Gauss_F (param x)" rcut "\<lambda>x. True" "\<lambda>x r. True" True
proof unfold_locales
  fix r :: real and x :: "Scalar2 interaction" and shift
  assume "0 < r" "0 < rcut x"
  then show "eval_at Gauss x r shift = (if True \<and> r < rcut x
      then Some (Gauss_F (param x) r, Gauss_V (param x) r - (if shift \<and> True then Gauss_V (param x) (rcut x) else 0)) else None)"
    by (simp add: evaluate_def Gauss_def EvaluatorPairGauss_new_def EvaluatorPairGauss_eval_def Let_def rsq_less
        Gauss_V_def Gauss_F_def power2_eq_square power_divide)
qed (simp add: Gauss_DERIV)

definition Ewald_V :: "Scalar \<Rightarrow> Scalar \<Rightarrow> Scalar \<Rightarrow> Scalar" where
  "Ewald_V k q r = q * erfc (k * r) / r"

definition Ewald_F :: "Scalar \<Rightarrow> Scalar \<Rightarrow> Scalar \<Rightarrow> Scalar" where
  "Ewald_F k q r = q * (erfc (k * r) / r + 2 * k / sqrt pi * exp (- ((k * r) ^ 2))) / r ^ 2"

lemma erfc_scaled_DERIV: "((\<lambda>r. erfc (k * r)) has_real_derivative - (2 * rsqrt pi * exp (- (k * r * (k * r)))) * k) (at r)"
  by (rule DERIV_chain2 [OF DERIV_erfc]) (auto intro!: derivative_eq_intros)

lemma Ewald_DERIV: "0 < r \<Longrightarrow> (Ewald_V k q has_real_derivative - (Ewald_F k q r * r)) (at r)"
  unfolding Ewald_V_def [abs_def] Ewald_F_def
  by (rule derivative_eq_intros erfc_scaled_DERIV refl | simp add: rsqrt_def field_simps power2_eq_square)+

interpretation ewald: pair_evaluator Ewald "\<lambda>x. Ewald_V (param x) (q_i x * q_j x)" "\<lambda>x. Ewald_F (param x) (q_i x * q_j x)" rcut
  "\<lambda>x. q_i x * q_j x \<noteq> 0" "\<lambda>x r. True" False
proof unfold_locales
  fix r :: real and x :: "Scalar interaction" and shift
  assume "0 < r" "0 < rcut x"
  then show "eval_at Ewald x r shift = (if q_i x * q_j x \<noteq> 0 \<and> r < rcut x
      then Some (Ewald_F (param x) (q_i x * q_j x) r, Ewald_V (param x) (q_i x * q_j x) r
        - (if shift \<and> False then Ewald_V (param x) (q_i x * q_j x) (rcut x) else 0)) else None)"
    by (simp add: evaluate_def Ewald_def EvaluatorPairEwald_new_def EvaluatorPairEwald_setCharge_def EvaluatorPairEwald_eval_def
        Let_def rsq_less rsqrt_square Ewald_V_def Ewald_F_def rsqrt_def [of pi] power2_eq_square)
qed (simp add: Ewald_DERIV)

section \<open>Properties of the evaluators\<close>

lemmas evaluators_conservative = lj.conservative slj.conservative mie.conservative fslj.conservative yukawa.conservative
  morse.conservative gauss.conservative zbl.conservative moliere.conservative ewald.conservative

text \<open>C15: forces are conservative. Wherever an evaluator returns a force divided by the distance and an energy,
  that force is the negative derivative of its energy with respect to the distance, for all ten
  evaluators and with or without the energy shift (for the diameter-shifted potential away from its
  singularity at the contact distance).\<close>

theorem pair_forces_conservative:
  fixes x :: "Scalar2 interaction" and y :: "Scalar4 interaction" and z :: "Scalar interaction"
  assumes "0 < r" "0 < rcut x" "0 < rcut y" "0 < rcut z" "r \<noteq> (d_i x + d_j x) / 2 - 1"
  shows "(eval_at LJ x r shift = Some (f, e) \<longrightarrow> (energy LJ x shift has_real_derivative - (f * r)) (at r))
    \<and> (eval_at SLJ x r shift = Some (f, e) \<longrightarrow> (energy SLJ x shift has_real_derivative - (f * r)) (at r))
    \<and> (eval_at Mie y r shift = Some (f, e) \<longrightarrow> (energy Mie y shift has_real_derivative - (f * r)) (at r))
    \<and> (eval_at ForceShiftedLJ x r shift = Some (f, e) \<longrightarrow> (energy ForceShiftedLJ x shift has_real_derivative - (f * r)) (at r))
    \<and> (eval_at Yukawa x r shift = Some (f, e) \<longrightarrow> (energy Yukawa x shift has_real_derivative - (f * r)) (at r))
    \<and> (eval_at Morse y r shift = Some (f, e) \<longrightarrow> (energy Morse y shift has_real_derivative - (f * r)) (at r))
    \<and> (eval_at Gauss x r shift = Some (f, e) \<longrightarrow> (energy Gauss x shift has_real_derivative - (f * r)) (at r))
    \<and> (eval_at ZBL x r shift = Some (f, e) \<longrightarrow> (energy ZBL x shift has_real_derivative - (f * r)) (at r))
    \<and> (eval_at Moliere x r shift = Some (f, e) \<longrightarrow> (energy Moliere x shift has_real_derivative - (f * r)) (at r))
    \<and> (eval_at Ewald z r shift = Some (f, e) \<longrightarrow> (energy Ewald z shift has_real_derivative - (f * r)) (at r))"
  using assms by (intro conjI impI evaluators_conservative) (simp_all add: delta_of_def)

abbreviation lj_pair :: "Scalar2 interaction" where
  "lj_pair \<equiv> \<lparr>param = (4, 4), rcut = 3, d_i = 1, d_j = 1, q_i = 1, q_j = 1\<rparr>"

theorem pair_forces_conservative_witness:
  "eval_at LJ lj_pair 1 False = Some (24, 0) \<and> (energy LJ lj_pair False has_real_derivative - 24) (at 1)"
proof -
  have "eval_at LJ lj_pair 1 False = Some (24, 0)"
    by (simp add: evaluate_def LJ_def EvaluatorPairLJ_new_def EvaluatorPairLJ_eval_def)
  then show ?thesis
    using pair_forces_conservative [of 1 lj_pair "\<lparr>param = undefined, rcut = 3, d_i = 1, d_j = 1, q_i = 1, q_j = 1\<rparr>"
        "\<lparr>param = undefined, rcut = 3, d_i = 1, d_j = 1, q_i = 1, q_j = 1\<rparr>" False 24 0] by simp
qed

text \<open>C34: the evaluators compute the documented potentials. With the parameters set up as the class
  documentation says, each evaluator returns below its cutoff the energy of its formula, the cutoff of
  the diameter-shifted potential being shifted too, and nothing at or beyond it.\<close>

theorem pair_potentials_documented:
  fixes eps sigma alpha kappa r0 n m r rc di dj qi qj :: real
  defines "D \<equiv> (di + dj) / 2 - 1" and "mie \<equiv> eps * (n / (n - m)) * (n / m) powr (m / (n - m))"
  assumes "0 < r" "0 < rc" "eps \<noteq> 0" "0 < sigma" "0 < m" "m < n" "qi * qj \<noteq> 0"
  defines "call \<equiv> \<lambda>p. \<lparr>param = p, rcut = rc, d_i = di, d_j = dj, q_i = qi, q_j = qj\<rparr>"
  shows "energy LJ (call (4 * eps * sigma ^ 12, alpha * 4 * eps * sigma ^ 6)) False r =
      (if r < rc then 4 * eps * ((sigma / r) ^ 12 - alpha * (sigma / r) ^ 6) else 0)
    \<and> energy SLJ (call (4 * eps * sigma ^ 12, 4 * eps * sigma ^ 6)) False r =
      (if r < rc + D then 4 * eps * ((sigma / (r - D)) ^ 12 - (sigma / (r - D)) ^ 6) else 0)
    \<and> energy Mie (\<lparr>param = Scalar4 (mie * sigma powr n) (mie * sigma powr m) n m, rcut = rc, d_i = di, d_j = dj, q_i = qi, q_j = qj\<rparr>) False r =
      (if r < rc then mie * ((sigma / r) powr n - (sigma / r) powr m) else 0)
    \<and> energy Yukawa (call (eps, kappa)) False r = (if r < rc then eps * exp (- kappa * r) / r else 0)
    \<and> energy Morse (\<lparr>param = Scalar4 eps alpha r0 0, rcut = rc, d_i = di, d_j = dj, q_i = qi, q_j = qj\<rparr>) False r =
      (if r < rc then eps * (exp (- 2 * alpha * (r - r0)) - 2 * exp (- alpha * (r - r0))) else 0)
    \<and> energy Gauss (call (eps, sigma)) False r = (if r < rc then eps * exp (- 1 / 2 * (r / sigma) ^ 2) else 0)
    \<and> energy Ewald (\<lparr>param = kappa, rcut = rc, d_i = di, d_j = dj, q_i = qi, q_j = qj\<rparr>) False r =
      (if r < rc then qi * qj * erfc (kappa * r) / r else 0)"
proof (intro conjI)
  have "0 < n / (n - m)" "0 < (n / m) powr (m / (n - m))" using assms by simp_all
  then have mie: "mie * sigma powr n \<noteq> 0" using assms by (simp add: mie_def)
  show "energy LJ (call (4 * eps * sigma ^ 12, alpha * 4 * eps * sigma ^ 6)) False r =
      (if r < rc then 4 * eps * ((sigma / r) ^ 12 - alpha * (sigma / r) ^ 6) else 0)"
    using assms by (simp add: lj.energy_eq call_def LJ_V_def power_divide right_diff_distrib)
  show "energy SLJ (call (4 * eps * sigma ^ 12, 4 * eps * sigma ^ 6)) False r =
      (if r < rc + D then 4 * eps * ((sigma / (r - D)) ^ 12 - (sigma / (r - D)) ^ 6) else 0)"
    using assms by (simp add: slj.energy_eq call_def delta_of_def LJ_V_def power_divide right_diff_distrib)
  show "energy Mie (\<lparr>param = Scalar4 (mie * sigma powr n) (mie * sigma powr m) n m, rcut = rc, d_i = di, d_j = dj, q_i = qi, q_j = qj\<rparr>) False r =
      (if r < rc then mie * ((sigma / r) powr n - (sigma / r) powr m) else 0)"
    using assms(3-6) mie by (simp add: mie.energy_eq Mie_V_def powr_divide powr_minus_divide right_diff_distrib del: mult_eq_0_iff)
  show "energy Yukawa (call (eps, kappa)) False r = (if r < rc then eps * exp (- kappa * r) / r else 0)"
    using assms by (simp add: yukawa.energy_eq call_def screened_V_def screen_def)
  show "energy Morse (\<lparr>param = Scalar4 eps alpha r0 0, rcut = rc, d_i = di, d_j = dj, q_i = qi, q_j = qj\<rparr>) False r =
      (if r < rc then eps * (exp (- 2 * alpha * (r - r0)) - 2 * exp (- alpha * (r - r0))) else 0)"
    using assms by (simp add: morse.energy_eq Morse_V_def)
  show "energy Gauss (call (eps, sigma)) False r = (if r < rc then eps * exp (- 1 / 2 * (r / sigma) ^ 2) else 0)"
    using assms by (simp add: gauss.energy_eq call_def Gauss_V_def)
  show "energy Ewald (\<lparr>param = kappa, rcut = rc, d_i = di, d_j = dj, q_i = qi, q_j = qj\<rparr>) False r =
      (if r < rc then qi * qj * erfc (kappa * r) / r else 0)"
    using assms by (simp add: ewald.energy_eq Ewald_V_def)
qed

theorem pair_potentials_documented_witness:
  "energy LJ \<lparr>param = (4 * 1 * 1 ^ 12, 1 * 4 * 1 * 1 ^ 6), rcut = 3, d_i = 1, d_j = 1, q_i = 1, q_j = 1\<rparr> False 2 = - 63 / 1024"
  using pair_potentials_documented [of 2 3 1 1 1 2 1 1 1 1 1 1 0] by (simp add: power_divide)

text \<open>C35: the energy shift. For the eight evaluators that implement it, the shifted energy vanishes at the
  cutoff and is continuous there; ZBL and Ewald return the same values whether or not a shift is
  asked for.\<close>

theorem pair_energy_shift:
  fixes x :: "Scalar2 interaction" and y :: "Scalar4 interaction" and z :: "Scalar interaction"
  assumes "0 < rcut x" "0 < rcut y" "0 < rcut z" "0 < r"
  defines "slj_cut \<equiv> rcut x + ((d_i x + d_j x) / 2 - 1)"
  assumes "0 < slj_cut"
  shows "(energy LJ x True (rcut x) = 0 \<and> isCont (energy LJ x True) (rcut x))
    \<and> (energy SLJ x True slj_cut = 0 \<and> isCont (energy SLJ x True) slj_cut)
    \<and> (energy Mie y True (rcut y) = 0 \<and> isCont (energy Mie y True) (rcut y))
    \<and> (energy ForceShiftedLJ x True (rcut x) = 0 \<and> isCont (energy ForceShiftedLJ x True) (rcut x))
    \<and> (energy Yukawa x True (rcut x) = 0 \<and> isCont (energy Yukawa x True) (rcut x))
    \<and> (energy Morse y True (rcut y) = 0 \<and> isCont (energy Morse y True) (rcut y))
    \<and> (energy Gauss x True (rcut x) = 0 \<and> isCont (energy Gauss x True) (rcut x))
    \<and> (energy Moliere x True (rcut x) = 0 \<and> isCont (energy Moliere x True) (rcut x))
    \<and> eval_at ZBL x r True = eval_at ZBL x r False \<and> eval_at Ewald z r True = eval_at Ewald z r False"
proof (intro conjI)
  have cut: "slj_cut = rcut x + delta_of x" by (simp add: slj_cut_def delta_of_def)
  then show "energy SLJ x True slj_cut = 0" "isCont (energy SLJ x True) slj_cut"
    using slj.shifted_continuous [of x] assms by simp_all
qed (use assms lj.shifted_continuous [of x] mie.shifted_continuous [of y] fslj.shifted_continuous [of x]
    yukawa.shifted_continuous [of x] morse.shifted_continuous [of y] gauss.shifted_continuous [of x]
    moliere.shifted_continuous [of x] in \<open>simp_all add: zbl.evaluates ewald.evaluates\<close>)

theorem pair_energy_shift_witness:
  "energy LJ lj_pair True 3 = 0 \<and> isCont (energy LJ lj_pair True) 3"
  using pair_energy_shift [of lj_pair "\<lparr>param = undefined, rcut = 3, d_i = 1, d_j = 1, q_i = 1, q_j = 1\<rparr>"
        "\<lparr>param = undefined, rcut = 3, d_i = 1, d_j = 1, q_i = 1, q_j = 1\<rparr>" 1] by simp

text \<open>The force shift. With the shift on, the force shifted potential joins zero smoothly: at the cutoff
  its energy is differentiable with derivative zero, although the plain Lennard-Jones energy is not
  in general.\<close>

theorem force_shift_smooth:
  assumes "0 < rcut x" "fst (param x) \<noteq> 0"
  shows "(energy ForceShiftedLJ x True has_real_derivative 0) (at (rcut x))"
proof -
  define W where "W = (\<lambda>r. FSLJ_V (param x) (rcut x) r - FSLJ_V (param x) (rcut x) (rcut x))"
  have "(FSLJ_V (param x) (rcut x) has_real_derivative 0) (at (rcut x))"
    using FSLJ_DERIV [of "rcut x" "param x" "rcut x"] assms(1) by simp
  then have "((\<lambda>r. W r / (r - rcut x)) \<longlongrightarrow> 0) (at (rcut x))"
    by (simp add: has_field_derivative_iff W_def)
  moreover have "norm (energy ForceShiftedLJ x True r / (r - rcut x)) \<le> norm (W r / (r - rcut x)) * 1" if "0 < r" for r
    using that assms by (simp add: fslj.energy_eq W_def)
  then have "eventually (\<lambda>r. norm (energy ForceShiftedLJ x True r / (r - rcut x)) \<le> norm (W r / (r - rcut x)) * 1) (at (rcut x))"
    using eventually_mono [OF eventually_at_in_open' [of "{0<..}" "rcut x"]] assms(1) by simp
  ultimately have "((\<lambda>r. energy ForceShiftedLJ x True r / (r - rcut x)) \<longlongrightarrow> 0) (at (rcut x))" by (rule tendsto_0_le)
  then show ?thesis using assms by (simp add: has_field_derivative_iff fslj.energy_eq)
qed

theorem force_shift_smooth_witness: "(energy ForceShiftedLJ lj_pair True has_real_derivative 0) (at 3)"
  using force_shift_smooth [of lj_pair] by simp

end
