(* ===== verification/Potential_Pair.thy ===== *)
theory Potential_Pair
  imports Index_Maps Box_Dim Pair_Evaluators "HOL-Library.Multiset"
begin

text \<open>
  \<open>PotentialPair\<close> of \<open>potentials/PotentialPair.h\<close>: the per type pair coefficients, the three shift modes with
  XPLOR smoothing, the force loop over a half or full neighbor list and the energy between two sets
  of particles. The evaluator class is an argument, as it is a template parameter in the source; the
  neighbor list that \<open>NeighborList::compute\<close> left is an argument too. Arrays that the source accesses through
  host handles are their contents, and the particle type that \<open>h_pos.data[i].w\<close> carries in its bits is
  the second component of a position.
\<close>

section \<open>State\<close>

datatype energyShiftMode = no_shift | shift_mode | xplor

record 'p PotentialPair =
  m_shift_mode :: energyShiftMode
  m_typpair_idx :: Index2D
  m_rcutsq :: "Scalar list"
  m_ronsq :: "Scalar list"
  m_params :: "'p list"
  m_log_name :: string

text \<open>What the loops read of \<open>ParticleData\<close>; ghost particles follow the local ones.\<close>

record ParticleView =
  getN :: nat
  getNGhosts :: nat
  getNTypes :: uint
  h_pos :: "(Scalar3 \<times> uint) list"
  h_diameter :: "Scalar list"
  h_charge :: "Scalar list"
  getGlobalBox :: BoxDim

text \<open>What they read of \<open>NeighborList\<close>.\<close>

datatype storageMode = half | full

record NeighborView =
  getStorageMode :: storageMode
  h_n_neigh :: "nat list"
  h_nlist :: "nat list"
  h_head_list :: "nat list"

section \<open>Coefficients\<close>

definition coefficients_alloc :: "uint \<Rightarrow> 'p \<Rightarrow> 'p PotentialPair \<Rightarrow> 'p PotentialPair" where
  "coefficients_alloc ntypes zero pp =
     (let idx = Index2D_square ntypes; n = unat (Index2D_getNumElements idx)
      in pp\<lparr>m_typpair_idx := idx, m_rcutsq := replicate n 0, m_ronsq := replicate n 0, m_params := replicate n zero\<rparr>)"

text \<open>The constructor; \<open>zero\<close> is the cleared memory of the parameter type.\<close>

definition PotentialPair_new :: "('p, 'e) evaluator \<Rightarrow> uint \<Rightarrow> 'p \<Rightarrow> string \<Rightarrow> 'p PotentialPair" where
  "PotentialPair_new ev ntypes zero log_suffix =
     coefficients_alloc ntypes zero
       \<lparr>m_shift_mode = no_shift, m_typpair_idx = Index2D_square ntypes, m_rcutsq = [], m_ronsq = [], m_params = [],
        m_log_name = ''pair_'' @ getName ev @ ''_energy'' @ log_suffix\<rparr>"

definition setShiftMode :: "energyShiftMode \<Rightarrow> 'p PotentialPair \<Rightarrow> 'p PotentialPair" where
  "setShiftMode mode pp = pp\<lparr>m_shift_mode := mode\<rparr>"

definition slotNumTypesChange :: "uint \<Rightarrow> 'p \<Rightarrow> 'p PotentialPair \<Rightarrow> 'p PotentialPair" where
  "slotNumTypesChange ntypes zero pp =
     (if ntypes = Index2D_getW (m_typpair_idx pp) then pp else coefficients_alloc ntypes zero pp)"

abbreviation typpair :: "'p PotentialPair \<Rightarrow> uint \<Rightarrow> uint \<Rightarrow> nat" where
  "typpair pp a b \<equiv> unat (Index2D_idx (m_typpair_idx pp) a b)"

definition setParams :: "uint \<Rightarrow> uint \<Rightarrow> uint \<Rightarrow> 'p \<Rightarrow> 'p PotentialPair \<Rightarrow> 'p PotentialPair result" where
  "setParams ntypes typ1 typ2 p pp =
     (if typ1 \<ge> ntypes \<or> typ2 \<ge> ntypes then Inl Runtime_error
      else Inr (pp\<lparr>m_params := (m_params pp)[typpair pp typ1 typ2 := p, typpair pp typ2 typ1 := p]\<rparr>))"

definition setRcut :: "uint \<Rightarrow> uint \<Rightarrow> uint \<Rightarrow> Scalar \<Rightarrow> 'p PotentialPair \<Rightarrow> 'p PotentialPair result" where
  "setRcut ntypes typ1 typ2 rc pp =
     (if typ1 \<ge> ntypes \<or> typ2 \<ge> ntypes then Inl Runtime_error
      else Inr (pp\<lparr>m_rcutsq := (m_rcutsq pp)[typpair pp typ1 typ2 := rc * rc, typpair pp typ2 typ1 := rc * rc]\<rparr>))"

definition setRon :: "uint \<Rightarrow> uint \<Rightarrow> uint \<Rightarrow> Scalar \<Rightarrow> 'p PotentialPair \<Rightarrow> 'p PotentialPair result" where
  "setRon ntypes typ1 typ2 ron pp =
     (if typ1 \<ge> ntypes \<or> typ2 \<ge> ntypes then Inl Runtime_error
      else Inr (pp\<lparr>m_ronsq := (m_ronsq pp)[typpair pp typ1 typ2 := ron * ron, typpair pp typ2 typ1 := ron * ron]\<rparr>))"

definition getProvidedLogQuantities :: "'p PotentialPair \<Rightarrow> string list" where
  "getProvidedLogQuantities pp = [m_log_name pp]"

text \<open>\<open>calcEnergySum\<close> of the base class sums the energies of the last \<open>compute\<close>: an argument.\<close>

definition getLogValue :: "'p PotentialPair \<Rightarrow> Scalar result \<Rightarrow> string \<Rightarrow> Scalar result" where
  "getLogValue pp calcEnergySum quantity =
     (if quantity = m_log_name pp then calcEnergySum else Inl Runtime_error)"

text \<open>The ghost fields requested: (charge, diameter) besides those of the base class.\<close>

definition getRequestedCommFlags :: "('p, 'e) evaluator \<Rightarrow> bool \<times> bool \<Rightarrow> bool \<times> bool" where
  "getRequestedCommFlags ev base = (fst base \<or> needsCharge ev, snd base \<or> needsDiameter ev)"

section \<open>One pair\<close>

text \<open>XPLOR smoothing of a force and an energy.\<close>

definition xplor_smooth :: "Scalar \<Rightarrow> Scalar \<Rightarrow> Scalar \<Rightarrow> Scalar \<times> Scalar \<Rightarrow> Scalar \<times> Scalar" where
  "xplor_smooth rsq rcutsq ronsq = (\<lambda>(old_force_divr, old_pair_eng).
     let xplor_denom_inv = 1 / ((rcutsq - ronsq) * (rcutsq - ronsq) * (rcutsq - ronsq));
         rsq_minus_r_cut_sq = rsq - rcutsq;
         s = rsq_minus_r_cut_sq * rsq_minus_r_cut_sq * (rcutsq + 2 * rsq - 3 * ronsq) * xplor_denom_inv;
         ds_dr_divr = 12 * (rsq - ronsq) * rsq_minus_r_cut_sq * xplor_denom_inv;
         pair_eng = old_pair_eng * s;
         force_divr = s * old_force_divr - ds_dr_divr * old_pair_eng
     in (force_divr, pair_eng))"

text \<open>The shift rule and the evaluation for one squared distance.\<close>

definition shifted_evaluation :: "('p, 'e) evaluator \<Rightarrow> energyShiftMode \<Rightarrow> Scalar \<Rightarrow> Scalar \<Rightarrow> Scalar \<Rightarrow> 'p
    \<Rightarrow> Scalar \<Rightarrow> Scalar \<Rightarrow> Scalar \<Rightarrow> Scalar \<Rightarrow> (Scalar \<times> Scalar) option" where
  "shifted_evaluation ev mode rsq rcutsq ronsq0 prm di dj qi qj =
     (let ronsq = (if mode = xplor then ronsq0 else 0);
          energy_shift = (if mode = shift_mode then True
                          else if mode = xplor then ronsq > rcutsq
                          else False)
      in case evaluate ev rsq rcutsq prm di dj qi qj energy_shift of
           None \<Rightarrow> None
         | Some (force_divr, pair_eng) \<Rightarrow>
             Some (if mode = xplor \<and> rsq \<ge> ronsq \<and> rsq < rcutsq
                   then xplor_smooth rsq rcutsq ronsq (force_divr, pair_eng)
                   else (force_divr, pair_eng)))"

text \<open>The loop body up to the accumulation: the minimum image vector of the pair and, if the evaluator
  evaluated it, the force divided by the distance and the energy.\<close>

definition pair_term :: "('p, 'e) evaluator \<Rightarrow> 'p PotentialPair \<Rightarrow> ParticleView \<Rightarrow> nat \<Rightarrow> nat
    \<Rightarrow> (Scalar3 \<times> (Scalar \<times> Scalar) option) result" where
  "pair_term ev pp pd i j =
     (let (pi, typei) = h_pos pd ! i;
          di = (if needsDiameter ev then h_diameter pd ! i else 0);
          qi = (if needsCharge ev then h_charge pd ! i else 0)
      in bindr (check (j < getN pd + getNGhosts pd) Assertion_failed) (\<lambda>_.
         let (pj, typej) = h_pos pd ! j; dx = pi - pj
         in bindr (check (typej < getNTypes pd) Assertion_failed) (\<lambda>_.
            let dj = (if needsDiameter ev then h_diameter pd ! j else 0);
                qj = (if needsCharge ev then h_charge pd ! j else 0);
                dx = minImage (getGlobalBox pd) dx;
                rsq = dot dx dx;
                typpair_idx = typpair pp typei typej;
                param = m_params pp ! typpair_idx;
                rcutsq = m_rcutsq pp ! typpair_idx
            in Inr (dx, shifted_evaluation ev (m_shift_mode pp) rsq rcutsq (m_ronsq pp ! typpair_idx) param di dj qi qj))))"

section \<open>The force loop\<close>

text \<open>The output arrays \<open>m_force\<close> (force and energy) and \<open>m_virial\<close> (six rows of length \<open>m_virial_pitch\<close>).\<close>

record ForceArrays =
  h_force :: "Scalar4 list"
  h_virial :: "Scalar list"

text \<open>The accumulators of particle \<open>i\<close>; the virial has the components xx, xy, xz, yy, yz, zz.\<close>

record particle_sum =
  fi :: Scalar3
  pei :: Scalar
  viriali :: "Scalar list"

definition virial_of :: "Scalar \<Rightarrow> Scalar3 \<Rightarrow> Scalar list" where
  "virial_of force_div2r dx =
     [force_div2r * vx dx * vx dx, force_div2r * vx dx * vy dx, force_div2r * vx dx * vz dx,
      force_div2r * vy dx * vy dx, force_div2r * vy dx * vz dx, force_div2r * vz dx * vz dx]"

definition add_virial :: "nat \<Rightarrow> nat \<Rightarrow> Scalar list \<Rightarrow> Scalar list \<Rightarrow> Scalar list" where
  "add_virial pitch mem_idx w h =
     fold (\<lambda>k h. h[k * pitch + mem_idx := h ! (k * pitch + mem_idx) + w ! k]) [0..<6] h"

text \<open>Add a term to the accumulators and, under the third law, its reaction to a local neighbor.\<close>

definition accumulate :: "bool \<Rightarrow> bool \<Rightarrow> nat \<Rightarrow> nat \<Rightarrow> nat \<Rightarrow> Scalar3 \<Rightarrow> Scalar \<times> Scalar
    \<Rightarrow> particle_sum \<times> ForceArrays \<Rightarrow> particle_sum \<times> ForceArrays" where
  "accumulate third_law compute_virial pitch N j dx = (\<lambda>(force_divr, pair_eng) (acc, out).
     let force_div2r = force_divr * (1 / 2);
         acc = acc\<lparr>fi := fi acc + vec3_scale dx force_divr, pei := pei acc + pair_eng * (1 / 2)\<rparr>;
         acc = (if compute_virial then acc\<lparr>viriali := map2 (+) (viriali acc) (virial_of force_div2r dx)\<rparr> else acc);
         out = (if third_law \<and> j < N then
                  let f = h_force out ! j;
                      out = out\<lparr>h_force := (h_force out)[j := Scalar4 (sx f - vx dx * force_divr) (sy f - vy dx * force_divr)
                                (sz f - vz dx * force_divr) (sw f + pair_eng * (1 / 2))]\<rparr>
                  in if compute_virial then out\<lparr>h_virial := add_virial pitch j (virial_of force_div2r dx) (h_virial out)\<rparr> else out
                else out)
     in (acc, out))"

fun neighbor_loop :: "('p, 'e) evaluator \<Rightarrow> 'p PotentialPair \<Rightarrow> ParticleView \<Rightarrow> bool \<Rightarrow> bool \<Rightarrow> nat \<Rightarrow> nat
    \<Rightarrow> nat list \<Rightarrow> particle_sum \<times> ForceArrays \<Rightarrow> (particle_sum \<times> ForceArrays) result" where
  "neighbor_loop ev pp pd third_law compute_virial pitch i [] st = Inr st"
| "neighbor_loop ev pp pd third_law compute_virial pitch i (j # js) st =
     bindr (pair_term ev pp pd i j) (\<lambda>(dx, t).
       neighbor_loop ev pp pd third_law compute_virial pitch i js
         (case t of None \<Rightarrow> st | Some fe \<Rightarrow> accumulate third_law compute_virial pitch (getN pd) j dx fe st))"

definition neighbors :: "NeighborView \<Rightarrow> nat \<Rightarrow> nat list" where
  "neighbors nl i = map (\<lambda>k. h_nlist nl ! (h_head_list nl ! i + k)) [0..<h_n_neigh nl ! i]"

definition particle_step :: "('p, 'e) evaluator \<Rightarrow> 'p PotentialPair \<Rightarrow> ParticleView \<Rightarrow> NeighborView \<Rightarrow> bool \<Rightarrow> nat
    \<Rightarrow> nat \<Rightarrow> ForceArrays \<Rightarrow> ForceArrays result" where
  "particle_step ev pp pd nl compute_virial pitch i out =
     bindr (check (snd (h_pos pd ! i) < getNTypes pd) Assertion_failed) (\<lambda>_.
     bindr (neighbor_loop ev pp pd (getStorageMode nl = half) compute_virial pitch i (neighbors nl i)
              (\<lparr>fi = 0, pei = 0, viriali = replicate 6 0\<rparr>, out)) (\<lambda>(acc, out).
       let f = h_force out ! i;
           out = out\<lparr>h_force := (h_force out)[i := Scalar4 (sx f + vx (fi acc)) (sy f + vy (fi acc)) (sz f + vz (fi acc)) (sw f + pei acc)]\<rparr>
       in Inr (if compute_virial then out\<lparr>h_virial := add_virial pitch i (viriali acc) (h_virial out)\<rparr> else out)))"

fun particle_loop :: "('p, 'e) evaluator \<Rightarrow> 'p PotentialPair \<Rightarrow> ParticleView \<Rightarrow> NeighborView \<Rightarrow> bool \<Rightarrow> nat
    \<Rightarrow> nat list \<Rightarrow> ForceArrays \<Rightarrow> ForceArrays result" where
  "particle_loop ev pp pd nl compute_virial pitch [] out = Inr out"
| "particle_loop ev pp pd nl compute_virial pitch (i # is) out =
     bindr (particle_step ev pp pd nl compute_virial pitch i out) (particle_loop ev pp pd nl compute_virial pitch is)"

text \<open>\<open>num_force\<close> and \<open>num_virial\<close> are the sizes of the output arrays, which start from zero.\<close>

definition computeForces :: "('p, 'e) evaluator \<Rightarrow> 'p PotentialPair \<Rightarrow> ParticleView \<Rightarrow> NeighborView \<Rightarrow> bool \<Rightarrow> nat
    \<Rightarrow> nat \<Rightarrow> nat \<Rightarrow> ForceArrays result" where
  "computeForces ev pp pd nl compute_virial pitch num_force num_virial =
     particle_loop ev pp pd nl compute_virial pitch [0..<getN pd]
       \<lparr>h_force = replicate num_force (Scalar4 0 0 0 0), h_virial = replicate num_virial 0\<rparr>"

section \<open>The energy between two sets\<close>

text \<open>\<open>rtags\<close> maps a tag to the index of its particle. When either set is empty the source returns
  before it sets \<open>energy\<close>, which then keeps the caller's value \<open>energy0\<close>; the sum over the ranks of a domain decomposition
  (\<open>MPI_Allreduce\<close>) is the argument \<open>allreduce\<close>.\<close>

fun between_inner :: "('p, 'e) evaluator \<Rightarrow> 'p PotentialPair \<Rightarrow> ParticleView \<Rightarrow> (nat \<Rightarrow> nat) \<Rightarrow> nat \<Rightarrow> nat list \<Rightarrow> Scalar
    \<Rightarrow> Scalar result" where
  "between_inner ev pp pd rtags i [] eng = Inr eng"
| "between_inner ev pp pd rtags i (t # ts) eng =
     (if rtags t \<ge> getN pd + getNGhosts pd then between_inner ev pp pd rtags i ts eng
      else bindr (pair_term ev pp pd i (rtags t)) (\<lambda>(dx, r).
        between_inner ev pp pd rtags i ts (case r of None \<Rightarrow> eng | Some (f, e) \<Rightarrow> eng + e)))"

fun between_outer :: "('p, 'e) evaluator \<Rightarrow> 'p PotentialPair \<Rightarrow> ParticleView \<Rightarrow> (nat \<Rightarrow> nat) \<Rightarrow> nat list \<Rightarrow> nat list \<Rightarrow> Scalar
    \<Rightarrow> Scalar result" where
  "between_outer ev pp pd rtags [] ts2 eng = Inr eng"
| "between_outer ev pp pd rtags (t # ts) ts2 eng =
     (if rtags t \<ge> getN pd then between_outer ev pp pd rtags ts ts2 eng
      else bindr (check (snd (h_pos pd ! rtags t) < getNTypes pd) Assertion_failed) (\<lambda>_.
           bindr (between_inner ev pp pd rtags (rtags t) ts2 eng) (between_outer ev pp pd rtags ts ts2)))"

definition computeEnergyBetweenSets :: "('p, 'e) evaluator \<Rightarrow> 'p PotentialPair \<Rightarrow> ParticleView \<Rightarrow> (nat \<Rightarrow> nat) \<Rightarrow> (Scalar \<Rightarrow> Scalar)
    \<Rightarrow> nat list \<Rightarrow> nat list \<Rightarrow> Scalar \<Rightarrow> Scalar result" where
  "computeEnergyBetweenSets ev pp pd rtags allreduce tags1 tags2 energy0 =
     (if tags1 = [] \<or> tags2 = [] then Inr energy0
      else bindr (between_outer ev pp pd rtags tags1 tags2 0) (\<lambda>energy. Inr (allreduce energy)))"

section \<open>XPLOR smoothing\<close>

lemma DERIV_piecewise:
  fixes f g :: "real \<Rightarrow> real"
  assumes "(f has_real_derivative D) (at a)" "(g has_real_derivative D) (at a)" "f a = g a"
  shows "((\<lambda>x. if x < a then f x else g x) has_real_derivative D) (at a)"
proof -
  let ?h = "\<lambda>x. if x < a then f x else g x"
  have "((\<lambda>x. (f x - f a) / (x - a)) \<longlongrightarrow> D) (at_left a)" "((\<lambda>x. (g x - g a) / (x - a)) \<longlongrightarrow> D) (at_right a)"
    using assms(1,2) by (auto simp: has_field_derivative_iff filterlim_at_split)
  moreover have "eventually (\<lambda>x. (f x - f a) / (x - a) = (?h x - ?h a) / (x - a)) (at_left a)"
    unfolding eventually_at_filter by (simp add: assms(3))
  moreover have "eventually (\<lambda>x. (g x - g a) / (x - a) = (?h x - ?h a) / (x - a)) (at_right a)"
    unfolding eventually_at_filter by simp
  ultimately have "((\<lambda>x. (?h x - ?h a) / (x - a)) \<longlongrightarrow> D) (at_left a)" "((\<lambda>x. (?h x - ?h a) / (x - a)) \<longlongrightarrow> D) (at_right a)"
    by (auto elim: Lim_transform_eventually)
  then show ?thesis by (simp add: has_field_derivative_iff filterlim_split_at)
qed

lemma DERIV_if_less:
  fixes f g :: "real \<Rightarrow> real"
  assumes "r \<le> a \<Longrightarrow> (f has_real_derivative D) (at r)" "a \<le> r \<Longrightarrow> (g has_real_derivative D) (at r)" "r = a \<Longrightarrow> f a = g a"
  shows "((\<lambda>x. if x < a then f x else g x) has_real_derivative D) (at r)"
proof -
  consider "r < a" | "r = a" | "a < r" by linarith
  then show ?thesis
  proof cases
    case 1
    then have "(f has_real_derivative D) (at r)" using assms(1) by simp
    then show ?thesis by (rule has_field_derivative_transform_within_open [where S = "{..<a}"]) (use 1 in auto)
  next
    case 2
    then show ?thesis using assms DERIV_piecewise by simp
  next
    case 3
    then have "(g has_real_derivative D) (at r)" using assms(2) by simp
    then show ?thesis by (rule has_field_derivative_transform_within_open [where S = "{a<..}"]) (use 3 in auto)
  qed
qed

text \<open>Force and energy at distance \<open>r\<close> as the loop computes them; zero when nothing is evaluated.\<close>

abbreviation pair_at :: "('p, 'e) evaluator \<Rightarrow> energyShiftMode \<Rightarrow> Scalar \<Rightarrow> 'p interaction \<Rightarrow> Scalar \<Rightarrow> (Scalar \<times> Scalar) option" where
  "pair_at ev mode ron x r \<equiv> shifted_evaluation ev mode (r * r) (rcut x * rcut x) (ron * ron) (param x) (d_i x) (d_j x) (q_i x) (q_j x)"

definition mode_energy :: "('p, 'e) evaluator \<Rightarrow> energyShiftMode \<Rightarrow> Scalar \<Rightarrow> 'p interaction \<Rightarrow> Scalar \<Rightarrow> Scalar" where
  "mode_energy ev mode ron x r = (case pair_at ev mode ron x r of None \<Rightarrow> 0 | Some (f, e) \<Rightarrow> e)"

definition mode_force :: "('p, 'e) evaluator \<Rightarrow> energyShiftMode \<Rightarrow> Scalar \<Rightarrow> 'p interaction \<Rightarrow> Scalar \<Rightarrow> Scalar" where
  "mode_force ev mode ron x r = (case pair_at ev mode ron x r of None \<Rightarrow> 0 | Some (f, e) \<Rightarrow> f)"

definition xplor_s :: "Scalar \<Rightarrow> Scalar \<Rightarrow> Scalar \<Rightarrow> Scalar" where
  "xplor_s c ron r = (r * r - c * c) ^ 2 * (c * c + 2 * (r * r) - 3 * (ron * ron)) / (c * c - ron * ron) ^ 3"

definition xplor_ds :: "Scalar \<Rightarrow> Scalar \<Rightarrow> Scalar \<Rightarrow> Scalar" where
  "xplor_ds c ron r = 12 * (r * r - ron * ron) * (r * r - c * c) / (c * c - ron * ron) ^ 3"

lemma xplor_s_DERIV: "(xplor_s c ron has_real_derivative xplor_ds c ron r * r) (at r)"
proof -
  have "((\<lambda>r. (r * r - c * c) ^ 2 * (c * c + 2 * (r * r) - 3 * (ron * ron))) has_real_derivative
      12 * (r * r - ron * ron) * (r * r - c * c) * r) (at r)"
    by (auto intro!: derivative_eq_intros simp: algebra_simps power2_eq_square)
  from DERIV_cdivide [OF this, of "(c * c - ron * ron) ^ 3"] show ?thesis
    by (simp add: xplor_s_def [abs_def] xplor_ds_def)
qed

lemma xplor_s_on:
  assumes "0 < ron" "ron < c"
  shows "xplor_s c ron ron = 1"
proof -
  have "c * c - ron * ron \<noteq> 0" using assms rsq_less [of ron c] by simp
  moreover have "xplor_s c ron ron = (c * c - ron * ron) ^ 3 / (c * c - ron * ron) ^ 3"
    by (simp add: xplor_s_def power2_eq_square power3_eq_cube algebra_simps)
  ultimately show ?thesis by simp
qed

lemma xplor_ends [simp]: "xplor_ds c ron ron = 0" "xplor_s c ron c = 0" "xplor_ds c ron c = 0"
  by (simp_all add: xplor_s_def xplor_ds_def)

lemma xplor_smooth_eq:
  "xplor_smooth (r * r) (c * c) (ron * ron) (f, e) = (xplor_s c ron r * f - xplor_ds c ron r * e, e * xplor_s c ron r)"
  by (simp add: xplor_smooth_def Let_def xplor_s_def xplor_ds_def power2_eq_square power3_eq_cube)

context pair_evaluator
begin

lemma pair_at_xplor:
  assumes "0 < r" "0 < ron" "ron < rcut x" "cut x = rcut x"
  shows "pair_at ev xplor ron x r = (if active x \<and> r < rcut x then
      Some (if r < ron then (F x r, V x r)
            else (xplor_s (rcut x) ron r * F x r - xplor_ds (rcut x) ron r * V x r, V x r * xplor_s (rcut x) ron r)) else None)"
proof -
  have le: "ron * ron \<le> r * r \<longleftrightarrow> ron \<le> r" "\<not> rcut x * rcut x < ron * ron" "r * r < rcut x * rcut x \<longleftrightarrow> r < rcut x"
    using assms rsq_less [of r ron] rsq_less [of "rcut x" ron] rsq_less [of r "rcut x"] by linarith+
  show ?thesis using evaluates [of r x False] assms le
    by (simp add: shifted_evaluation_def xplor_smooth_eq not_le)
qed

text \<open>The force is the negative derivative of the energy everywhere, also where the smoothing sets in and at
  the cutoff.\<close>

lemma xplor_conservative:
  assumes "0 < r" "0 < ron" "ron < rcut x" "cut x = rcut x" "\<And>s. regular x s"
  shows "(mode_energy ev xplor ron x has_real_derivative - (mode_force ev xplor ron x r * r)) (at r)"
proof (cases "active x")
  case False
  have "((\<lambda>r. 0) has_real_derivative 0) (at r)" by simp
  then have "(mode_energy ev xplor ron x has_real_derivative 0) (at r)"
    by (rule has_field_derivative_transform_within_open [where S = "{0<..}"])
      (use assms False in \<open>auto simp: mode_energy_def pair_at_xplor\<close>)
  then show ?thesis using assms False by (simp add: mode_force_def pair_at_xplor)
next
  case True
  let ?s = "xplor_s (rcut x) ron" and ?ds = "xplor_ds (rcut x) ron"
  define G where "G = (\<lambda>r. if r < rcut x then V x r * ?s r else 0)"
  have pos: "0 < rcut x" using assms(2,3) by simp
  have V: "(V x has_real_derivative - (F x r * r)) (at r)" using derivative assms(1,5) pos by blast
  have VS: "((\<lambda>r. V x r * ?s r) has_real_derivative - (F x r * r) * ?s r + V x r * (?ds r * r)) (at r)"
    using DERIV_mult [OF V xplor_s_DERIV [of "rcut x" ron r]] by (simp add: ac_simps)
  have G: "(G has_real_derivative (if r < rcut x then - (F x r * r) * ?s r + V x r * (?ds r * r) else 0)) (at r)"
    unfolding G_def by (rule DERIV_if_less) (use VS in \<open>auto split: if_splits\<close>)
  have "((\<lambda>r. if r < ron then V x r else G r) has_real_derivative - (mode_force ev xplor ron x r * r)) (at r)"
  proof (rule DERIV_if_less)
    show "(V x has_real_derivative - (mode_force ev xplor ron x r * r)) (at r)" if "r \<le> ron"
      using V that assms True by (cases "r = ron") (simp_all add: mode_force_def pair_at_xplor xplor_s_on)
    show "(G has_real_derivative - (mode_force ev xplor ron x r * r)) (at r)" if "ron \<le> r"
      using G that assms True by (simp add: mode_force_def pair_at_xplor algebra_simps split: if_splits)
    show "V x ron = G ron" using assms by (simp add: G_def xplor_s_on)
  qed
  then show ?thesis
    by (rule has_field_derivative_transform_within_open [where S = "{0<..}"])
      (use assms True in \<open>auto simp: mode_energy_def pair_at_xplor G_def\<close>)
qed

end

section \<open>What the force loop accumulates\<close>

text \<open>The ten output entries of a particle: force (0, 1, 2), energy (3) and virial (4 to 9). A reaction has the
  opposite force and the same energy and virial.\<close>

definition term_entry :: "bool \<Rightarrow> nat \<Rightarrow> Scalar3 \<Rightarrow> Scalar \<times> Scalar \<Rightarrow> Scalar" where
  "term_entry compute_virial c dx = (\<lambda>(f, e).
     if c = 0 then vx dx * f else if c = 1 then vy dx * f else if c = 2 then vz dx * f else if c = 3 then e * (1 / 2)
     else if compute_virial then virial_of (f * (1 / 2)) dx ! (c - 4) else 0)"

definition reaction :: "nat \<Rightarrow> Scalar" where
  "reaction c = (if c < 3 then - 1 else 1)"

definition entry :: "nat \<Rightarrow> ForceArrays \<Rightarrow> nat \<Rightarrow> nat \<Rightarrow> Scalar" where
  "entry pitch out c m =
     (if c = 0 then sx (h_force out ! m) else if c = 1 then sy (h_force out ! m) else if c = 2 then sz (h_force out ! m)
      else if c = 3 then sw (h_force out ! m) else h_virial out ! ((c - 4) * pitch + m))"

definition sum_entry :: "particle_sum \<Rightarrow> nat \<Rightarrow> Scalar" where
  "sum_entry acc c = (if c = 0 then vx (fi acc) else if c = 1 then vy (fi acc) else if c = 2 then vz (fi acc)
     else if c = 3 then pei acc else viriali acc ! (c - 4))"

definition pair_entry :: "('p, 'e) evaluator \<Rightarrow> 'p PotentialPair \<Rightarrow> ParticleView \<Rightarrow> bool \<Rightarrow> nat \<Rightarrow> nat \<Rightarrow> nat \<Rightarrow> Scalar" where
  "pair_entry ev pp pd compute_virial c i j =
     (case pair_term ev pp pd i j of Inr (dx, Some t) \<Rightarrow> term_entry compute_virial c dx t | _ \<Rightarrow> 0)"

definition arrays_ok :: "nat \<Rightarrow> nat \<Rightarrow> ForceArrays \<Rightarrow> bool" where
  "arrays_ok N pitch out \<longleftrightarrow> N \<le> length (h_force out) \<and> N \<le> pitch \<and> 6 * pitch \<le> length (h_virial out)"

lemma row_eq:
  assumes "i < p" "j < (p :: nat)"
  shows "k * p + i = l * p + j \<longleftrightarrow> k = l \<and> i = j"
proof
  assume eq: "k * p + i = l * p + j"
  have "k = (k * p + i) div p" "l = (l * p + j) div p" using assms by simp_all
  then show "k = l \<and> i = j" using eq by simp
qed simp

lemma row_less: "i < p \<Longrightarrow> k < n \<Longrightarrow> n * p \<le> len \<Longrightarrow> k * p + i < (len :: nat)"
proof -
  assume "i < p" "k < n" "n * p \<le> len"
  then have "k * p + i < Suc k * p" "Suc k * p \<le> n * p" by (simp, intro mult_le_mono1) simp
  then show ?thesis using \<open>n * p \<le> len\<close> by linarith
qed

lemma length_add_virial [simp]: "length (add_virial pitch i w h) = length h"
proof -
  have "length (fold (\<lambda>k h. h[k * pitch + i := h ! (k * pitch + i) + w ! k]) ks h) = length h" for ks :: "nat list"
    by (induction ks arbitrary: h) simp_all
  then show ?thesis by (simp add: add_virial_def)
qed

lemma nth_add_virial:
  assumes "i < pitch" "m < pitch" "k < 6" "6 * pitch \<le> length h"
  shows "add_virial pitch i w h ! (k * pitch + m) = h ! (k * pitch + m) + (if m = i then w ! k else 0)"
proof -
  have "fold (\<lambda>k h. h[k * pitch + i := h ! (k * pitch + i) + w ! k]) [0..<n] h ! (k * pitch + m)
      = h ! (k * pitch + m) + (if m = i \<and> k < n then w ! k else 0)
      \<and> length (fold (\<lambda>k h. h[k * pitch + i := h ! (k * pitch + i) + w ! k]) [0..<n] h) = length h" if "n \<le> 6" for n
    using that
  proof (induction n)
    case (Suc n)
    have "n * pitch + i < length h" using assms(1,4) Suc.prems by (intro row_less [of _ _ _ 6]) simp_all
    then show ?case using Suc assms(1,2) by (auto simp: nth_list_update row_eq less_Suc_eq)
  qed simp
  from this [of 6] assms(3) show ?thesis by (simp add: add_virial_def)
qed

lemma accumulate_sum:
  assumes "length (viriali acc) = 6" "c < 10"
  shows "sum_entry (fst (accumulate law cv pitch N j dx t (acc, out))) c =
      sum_entry acc c + term_entry cv c dx t"
    and "length (viriali (fst (accumulate law cv pitch N j dx t (acc, out)))) = 6"
proof -
  obtain f e where t: "t = (f, e)" by (cases t)
  have l: "length (virial_of (f * (1 / 2)) dx) = 6" by (simp add: virial_of_def)
  show "length (viriali (fst (accumulate law cv pitch N j dx t (acc, out)))) = 6"
    using assms(1) l by (simp add: accumulate_def t Let_def)
  show "sum_entry (fst (accumulate law cv pitch N j dx t (acc, out))) c =
      sum_entry acc c + term_entry cv c dx t"
    using assms l by (simp add: accumulate_def t Let_def sum_entry_def term_entry_def)
qed

lemma accumulate_out:
  assumes "arrays_ok N pitch out" "c < 10" "m < N"
  shows "entry pitch (snd (accumulate law cv pitch N j dx t (acc, out))) c m =
      entry pitch out c m + (if law \<and> j = m then reaction c * term_entry cv c dx t else 0)"
    and "arrays_ok N pitch (snd (accumulate law cv pitch N j dx t (acc, out)))"
proof -
  obtain f e where t: "t = (f, e)" by (cases t)
  show "arrays_ok N pitch (snd (accumulate law cv pitch N j dx t (acc, out)))"
    using assms(1) by (simp add: accumulate_def t Let_def arrays_ok_def)
  have v: "add_virial pitch j w (h_virial out) ! ((c - 4) * pitch + m) =
      h_virial out ! ((c - 4) * pitch + m) + (if m = j then w ! (c - 4) else 0)" if "j < N" for w
    using assms that by (intro nth_add_virial) (auto simp: arrays_ok_def)
  show "entry pitch (snd (accumulate law cv pitch N j dx t (acc, out))) c m =
      entry pitch out c m + (if law \<and> j = m then reaction c * term_entry cv c dx t else 0)"
  proof (cases "law \<and> j < N")
    case True
    then have "j < length (h_force out)" "m < length (h_force out)" using assms by (auto simp: arrays_ok_def)
    then show ?thesis using True v
      by (cases "j = m") (simp_all add: accumulate_def t Let_def entry_def reaction_def term_entry_def nth_list_update_in)
  qed (use assms in \<open>auto simp: accumulate_def t Let_def\<close>)
qed

text \<open>The conditions the assertions of the loops check for the pair \<open>i\<close>, \<open>j\<close>.\<close>

definition neighbor_ok :: "ParticleView \<Rightarrow> nat \<Rightarrow> bool" where
  "neighbor_ok pd j \<longleftrightarrow> j < getN pd + getNGhosts pd \<and> snd (h_pos pd ! j) < getNTypes pd"

lemma pair_term_ok:
  assumes "neighbor_ok pd j"
  shows "\<exists>dx t. pair_term ev pp pd i j = Inr (dx, t)"
  using assms by (cases "h_pos pd ! i"; cases "h_pos pd ! j") (simp add: pair_term_def neighbor_ok_def Let_def)

lemma pair_term_fails: "\<not> neighbor_ok pd j \<Longrightarrow> pair_term ev pp pd i j = Inl Assertion_failed"
  by (auto simp: pair_term_def neighbor_ok_def Let_def check_def split: prod.split)

lemma pair_entry_no_virial: "\<not> cv \<Longrightarrow> 4 \<le> c \<Longrightarrow> pair_entry ev pp pd cv c i j = 0"
  by (auto simp: pair_entry_def term_entry_def split: sum.split option.split)

lemma neighbor_body:
  assumes "pair_term ev pp pd i j = Inr (dx, t)" "length (viriali acc) = 6" "arrays_ok (getN pd) pitch out"
  obtains acc' out' where "(case t of None \<Rightarrow> (acc, out) | Some fe \<Rightarrow> accumulate law cv pitch (getN pd) j dx fe (acc, out)) = (acc', out')"
    "length (viriali acc') = 6" "arrays_ok (getN pd) pitch out'"
    "\<And>c. c < 10 \<Longrightarrow> sum_entry acc' c = sum_entry acc c + pair_entry ev pp pd cv c i j"
    "\<And>c m. c < 10 \<Longrightarrow> m < getN pd \<Longrightarrow> entry pitch out' c m = entry pitch out c m
       + (if law then reaction c * (if j = m then pair_entry ev pp pd cv c i j else 0) else 0)"
proof (cases t)
  case None
  then have "pair_entry ev pp pd cv c i j = 0" for c using assms(1) by (simp add: pair_entry_def)
  then show thesis by (intro that [of acc out]) (use assms None in auto)
next
  case (Some fe)
  obtain acc1 out1 where a: "accumulate law cv pitch (getN pd) j dx fe (acc, out) = (acc1, out1)" by fastforce
  show thesis
  proof (rule that [of acc1 out1])
    show "length (viriali acc1) = 6" using accumulate_sum(2) [OF assms(2), of 0 law cv pitch "getN pd" j dx fe out] a by simp
    show "arrays_ok (getN pd) pitch out1"
      using assms(3) a by (cases fe) (auto simp: accumulate_def Let_def arrays_ok_def split: if_splits)
    show "sum_entry acc1 c = sum_entry acc c + pair_entry ev pp pd cv c i j" if "c < 10" for c
      using accumulate_sum(1) [OF assms(2) that, of law cv pitch "getN pd" j dx fe out] a assms(1) Some by (simp add: pair_entry_def)
    show "entry pitch out1 c m = entry pitch out c m + (if law then reaction c * (if j = m then pair_entry ev pp pd cv c i j else 0) else 0)"
      if "c < 10" "m < getN pd" for c m
      using accumulate_out(1) [OF assms(3) that, of law cv j dx fe acc] a assms(1) Some by (auto simp: pair_entry_def)
  qed (simp add: Some a)
qed

lemma neighbor_loop_sums:
  assumes "\<forall>j \<in> set js. neighbor_ok pd j" "length (viriali acc) = 6" "arrays_ok (getN pd) pitch out"
  shows "\<exists>acc' out'. neighbor_loop ev pp pd law cv pitch i js (acc, out) = Inr (acc', out')
    \<and> length (viriali acc') = 6 \<and> arrays_ok (getN pd) pitch out'
    \<and> (\<forall>c < 10. sum_entry acc' c = sum_entry acc c + (\<Sum>j\<leftarrow>js. pair_entry ev pp pd cv c i j))
    \<and> (\<forall>c < 10. \<forall>m < getN pd. entry pitch out' c m = entry pitch out c m
         + (if law then reaction c * (\<Sum>j\<leftarrow>js. if j = m then pair_entry ev pp pd cv c i j else 0) else 0))"
  using assms
proof (induction js arbitrary: acc out)
  case (Cons j js)
  obtain dx t where t: "pair_term ev pp pd i j = Inr (dx, t)" using Cons.prems(1) pair_term_ok [of pd j ev pp i] by auto
  obtain acc1 out1 where b: "(case t of None \<Rightarrow> (acc, out) | Some fe \<Rightarrow> accumulate law cv pitch (getN pd) j dx fe (acc, out)) = (acc1, out1)"
    and l: "length (viriali acc1) = 6" "arrays_ok (getN pd) pitch out1"
    and s: "\<And>c. c < 10 \<Longrightarrow> sum_entry acc1 c = sum_entry acc c + pair_entry ev pp pd cv c i j"
    and e: "\<And>c m. c < 10 \<Longrightarrow> m < getN pd \<Longrightarrow> entry pitch out1 c m = entry pitch out c m
       + (if law then reaction c * (if j = m then pair_entry ev pp pd cv c i j else 0) else 0)"
    using neighbor_body [OF t Cons.prems(2,3)] by metis
  have "\<forall>j \<in> set js. neighbor_ok pd j" using Cons.prems(1) by simp
  from Cons.IH [OF this l] obtain acc' out' where
    "neighbor_loop ev pp pd law cv pitch i js (acc1, out1) = Inr (acc', out')" "length (viriali acc') = 6" "arrays_ok (getN pd) pitch out'"
    "\<forall>c < 10. sum_entry acc' c = sum_entry acc1 c + (\<Sum>j\<leftarrow>js. pair_entry ev pp pd cv c i j)"
    "\<forall>c < 10. \<forall>m < getN pd. entry pitch out' c m = entry pitch out1 c m
       + (if law then reaction c * (\<Sum>j\<leftarrow>js. if j = m then pair_entry ev pp pd cv c i j else 0) else 0)" by blast
  then show ?case using t b s e by (intro exI [of _ acc'] exI [of _ out']) (simp add: distrib_left)
qed simp

lemma particle_step_sums:
  assumes "\<forall>j \<in> set (neighbors nl i). neighbor_ok pd j" "neighbor_ok pd i" "i < getN pd" "arrays_ok (getN pd) pitch out"
  shows "\<exists>out'. particle_step ev pp pd nl cv pitch i out = Inr out' \<and> arrays_ok (getN pd) pitch out'
    \<and> (\<forall>c < 10. \<forall>m < getN pd. entry pitch out' c m = entry pitch out c m
         + (if i = m then \<Sum>j\<leftarrow>neighbors nl i. pair_entry ev pp pd cv c i j else 0)
         + (if getStorageMode nl = half then reaction c * (\<Sum>j\<leftarrow>neighbors nl i. if j = m then pair_entry ev pp pd cv c i j else 0) else 0))"
proof -
  let ?zero = "\<lparr>fi = 0, pei = 0, viriali = replicate 6 0\<rparr> :: particle_sum"
  from neighbor_loop_sums [OF assms(1) _ assms(4), of ?zero ev pp "getStorageMode nl = half" cv i]
  obtain acc out1 where loop: "neighbor_loop ev pp pd (getStorageMode nl = half) cv pitch i (neighbors nl i) (?zero, out) = Inr (acc, out1)"
    and l: "length (viriali acc) = 6" and ok: "arrays_ok (getN pd) pitch out1"
    and s: "\<forall>c < 10. sum_entry acc c = sum_entry ?zero c + (\<Sum>j\<leftarrow>neighbors nl i. pair_entry ev pp pd cv c i j)"
    and e: "\<forall>c < 10. \<forall>m < getN pd. entry pitch out1 c m = entry pitch out c m + (if getStorageMode nl = half
         then reaction c * (\<Sum>j\<leftarrow>neighbors nl i. if j = m then pair_entry ev pp pd cv c i j else 0) else 0)"
    by auto
  define f where "f = h_force out1 ! i"
  define out2 where "out2 = out1\<lparr>h_force := (h_force out1)[i := Scalar4 (sx f + vx (fi acc)) (sy f + vy (fi acc)) (sz f + vz (fi acc)) (sw f + pei acc)]\<rparr>"
  define out3 where "out3 = (if cv then out2\<lparr>h_virial := add_virial pitch i (viriali acc) (h_virial out2)\<rparr> else out2)"
  have step: "particle_step ev pp pd nl cv pitch i out = Inr out3"
    using loop assms(2) by (simp add: particle_step_def neighbor_ok_def Let_def out3_def out2_def f_def)
  have zero: "sum_entry ?zero c = 0" if "c < 10" for c using that by (simp add: sum_entry_def)
  have ent: "entry pitch out3 c m = entry pitch out1 c m + (if i = m then sum_entry acc c else 0)" if "c < 10" "m < getN pd" for c m
  proof -
    have i: "i < length (h_force out1)" "m < length (h_force out1)" "i < pitch" "m < pitch" "6 * pitch \<le> length (h_virial out1)"
      using ok assms(3) that by (auto simp: arrays_ok_def)
    have v: "add_virial pitch i w (h_virial out1) ! ((c - 4) * pitch + m) = h_virial out1 ! ((c - 4) * pitch + m) + (if m = i then w ! (c - 4) else 0)" for w
      using i that by (intro nth_add_virial) auto
    have "\<not> cv \<Longrightarrow> 4 \<le> c \<Longrightarrow> sum_entry acc c = 0"
      using s that zero by (simp add: pair_entry_no_virial fun_eq_iff [of "pair_entry ev pp pd False c i" "\<lambda>_. 0"] cong: map_cong)
    then show ?thesis using i v
      by (cases "i = m"; cases "c < 4") (auto simp: out3_def out2_def f_def entry_def sum_entry_def nth_list_update_in)
  qed
  moreover have "arrays_ok (getN pd) pitch out3" using ok by (simp add: out3_def out2_def arrays_ok_def)
  ultimately show ?thesis using step s e zero by (intro exI [of _ out3]) auto
qed

definition loop_ok :: "ParticleView \<Rightarrow> NeighborView \<Rightarrow> nat list \<Rightarrow> bool" where
  "loop_ok pd nl is \<longleftrightarrow> (\<forall>i \<in> set is. i < getN pd \<and> neighbor_ok pd i \<and> (\<forall>j \<in> set (neighbors nl i). neighbor_ok pd j))"

lemma particle_loop_sums:
  assumes "loop_ok pd nl is" "arrays_ok (getN pd) pitch out"
  shows "\<exists>out'. particle_loop ev pp pd nl cv pitch is out = Inr out' \<and> arrays_ok (getN pd) pitch out'
    \<and> (\<forall>c < 10. \<forall>m < getN pd. entry pitch out' c m = entry pitch out c m
         + (\<Sum>i\<leftarrow>is. if i = m then \<Sum>j\<leftarrow>neighbors nl i. pair_entry ev pp pd cv c i j else 0)
         + (if getStorageMode nl = half then reaction c * (\<Sum>i\<leftarrow>is. \<Sum>j\<leftarrow>neighbors nl i. if j = m then pair_entry ev pp pd cv c i j else 0) else 0))"
  using assms
proof (induction "is" arbitrary: out)
  case (Cons i "is")
  have i: "\<forall>j \<in> set (neighbors nl i). neighbor_ok pd j" "neighbor_ok pd i" "i < getN pd" "loop_ok pd nl is"
    using Cons.prems(1) by (simp_all add: loop_ok_def)
  from particle_step_sums [OF i(1-3) Cons.prems(2)]
  obtain out1 where s: "particle_step ev pp pd nl cv pitch i out = Inr out1" "arrays_ok (getN pd) pitch out1"
    and e: "\<forall>c < 10. \<forall>m < getN pd. entry pitch out1 c m = entry pitch out c m
         + (if i = m then \<Sum>j\<leftarrow>neighbors nl i. pair_entry ev pp pd cv c i j else 0)
         + (if getStorageMode nl = half then reaction c * (\<Sum>j\<leftarrow>neighbors nl i. if j = m then pair_entry ev pp pd cv c i j else 0) else 0)"
    by blast
  from Cons.IH [OF i(4) s(2)] obtain out' where
    "particle_loop ev pp pd nl cv pitch is out1 = Inr out'" "arrays_ok (getN pd) pitch out'"
    "\<forall>c < 10. \<forall>m < getN pd. entry pitch out' c m = entry pitch out1 c m
         + (\<Sum>i\<leftarrow>is. if i = m then \<Sum>j\<leftarrow>neighbors nl i. pair_entry ev pp pd cv c i j else 0)
         + (if getStorageMode nl = half then reaction c * (\<Sum>i\<leftarrow>is. \<Sum>j\<leftarrow>neighbors nl i. if j = m then pair_entry ev pp pd cv c i j else 0) else 0)"
    by blast
  then show ?case using s(1) e by (intro exI [of _ out']) (simp add: distrib_left)
qed simp

lemma particle_loop_fails:
  "\<exists>i \<in> set is. \<not> snd (h_pos pd ! i) < getNTypes pd \<Longrightarrow> \<exists>e. particle_loop ev pp pd nl cv pitch is out = Inl e"
proof (induction "is" arbitrary: out)
  case (Cons i "is")
  show ?case
  proof (cases "particle_step ev pp pd nl cv pitch i out")
    case (Inr out1)
    then have "snd (h_pos pd ! i) < getNTypes pd" by (auto simp: particle_step_def check_def split: if_splits)
    then show ?thesis using Cons Inr by auto
  qed simp
qed simp

text \<open>Inputs the loop is meant for: valid particle types, neighbors that exist, output arrays large enough.\<close>

definition system_ok :: "ParticleView \<Rightarrow> NeighborView \<Rightarrow> nat \<Rightarrow> nat \<Rightarrow> nat \<Rightarrow> bool" where
  "system_ok pd nl pitch num_force num_virial \<longleftrightarrow>
     getN pd \<le> num_force \<and> getN pd \<le> pitch \<and> 6 * pitch \<le> num_virial \<and> loop_ok pd nl [0..<getN pd]"

abbreviation neighbor_sum :: "NeighborView \<Rightarrow> (nat \<Rightarrow> nat \<Rightarrow> Scalar) \<Rightarrow> nat \<Rightarrow> Scalar" where
  "neighbor_sum nl g i \<equiv> (\<Sum>j\<leftarrow>neighbors nl i. g i j)"

text \<open>The entries of particle \<open>m\<close>: its own terms and, with a half list, the reactions to the terms of its neighbors.\<close>

definition accumulated :: "('p, 'e) evaluator \<Rightarrow> 'p PotentialPair \<Rightarrow> ParticleView \<Rightarrow> NeighborView \<Rightarrow> bool \<Rightarrow> nat \<Rightarrow> nat \<Rightarrow> Scalar" where
  "accumulated ev pp pd nl cv c m = (\<Sum>j\<leftarrow>neighbors nl m. pair_entry ev pp pd cv c m j)
     + (if getStorageMode nl = half
        then reaction c * (\<Sum>i<getN pd. \<Sum>j\<leftarrow>neighbors nl i. if j = m then pair_entry ev pp pd cv c i j else 0) else 0)"

lemma computeForces_entries:
  assumes "system_ok pd nl pitch num_force num_virial"
  shows "\<exists>out. computeForces ev pp pd nl cv pitch num_force num_virial = Inr out
    \<and> (\<forall>c < 10. \<forall>m < getN pd. entry pitch out c m = accumulated ev pp pd nl cv c m)"
proof -
  let ?zero = "\<lparr>h_force = replicate num_force (Scalar4 0 0 0 0), h_virial = replicate num_virial 0\<rparr>"
  have ok: "loop_ok pd nl [0..<getN pd]" "arrays_ok (getN pd) pitch ?zero" using assms by (simp_all add: system_ok_def arrays_ok_def)
  have zero: "entry pitch ?zero c m = 0" if "c < 10" "m < getN pd" for c m
    using row_less [of m pitch "c - 4" 6 num_virial] that assms by (auto simp: entry_def system_ok_def)
  have sum: "(\<Sum>i\<leftarrow>[0..<getN pd]. g i) = (\<Sum>i<getN pd. g i)" for g :: "nat \<Rightarrow> real"
    by (simp add: interv_sum_list_conv_sum_set_nat lessThan_atLeast0)
  from particle_loop_sums [OF ok, of ev pp cv] zero show ?thesis
    unfolding computeForces_def accumulated_def sum by auto
qed

lemma sum_over_targets:
  fixes g :: "nat \<Rightarrow> real"
  assumes "\<forall>j \<in> set js. j < n"
  shows "(\<Sum>m<n. \<Sum>j\<leftarrow>js. if j = m then g j else 0) = (\<Sum>j\<leftarrow>js. g j)"
  using assms by (induction js) (simp_all add: sum.distrib)

lemma total_accumulated:
  assumes "getStorageMode nl = half" "\<forall>i < getN pd. \<forall>j \<in> set (neighbors nl i). j < getN pd"
  shows "(\<Sum>m<getN pd. accumulated ev pp pd nl cv c m) = (1 + reaction c) * (\<Sum>i<getN pd. \<Sum>j\<leftarrow>neighbors nl i. pair_entry ev pp pd cv c i j)"
proof -
  let ?g = "pair_entry ev pp pd cv c"
  have "(\<Sum>m<getN pd. \<Sum>i<getN pd. \<Sum>j\<leftarrow>neighbors nl i. if j = m then ?g i j else 0)
      = (\<Sum>i<getN pd. \<Sum>m<getN pd. \<Sum>j\<leftarrow>neighbors nl i. if j = m then ?g i j else 0)" by (rule sum.swap)
  also have "\<dots> = (\<Sum>i<getN pd. \<Sum>j\<leftarrow>neighbors nl i. ?g i j)"
    by (rule sum.cong) (use assms(2) in \<open>simp_all add: sum_over_targets\<close>)
  finally show ?thesis using assms(1) by (simp add: accumulated_def sum.distrib flip: sum_distrib_left) (simp add: distrib_right)
qed

section \<open>Half and full lists\<close>

definition symmetric_evaluator :: "('p, 'e) evaluator \<Rightarrow> bool" where
  "symmetric_evaluator ev \<longleftrightarrow> (\<forall>r rc p di dj qi qj s. evaluate ev r rc p di dj qi qj s = evaluate ev r rc p dj di qj qi s)"

lemma evaluators_symmetric:
  "symmetric_evaluator LJ" "symmetric_evaluator SLJ" "symmetric_evaluator Mie" "symmetric_evaluator ForceShiftedLJ"
  "symmetric_evaluator Yukawa" "symmetric_evaluator Morse" "symmetric_evaluator Gauss" "symmetric_evaluator ZBL"
  "symmetric_evaluator Moliere" "symmetric_evaluator Ewald"
  by (simp_all add: symmetric_evaluator_def evaluate_def LJ_def SLJ_def Mie_def ForceShiftedLJ_def Yukawa_def Morse_def Gauss_def
      ZBL_def Moliere_def Ewald_def EvaluatorPairSLJ_setDiameter_def EvaluatorPairEwald_setCharge_def ac_simps)

definition coefficients_symmetric :: "uint \<Rightarrow> 'p PotentialPair \<Rightarrow> bool" where
  "coefficients_symmetric ntypes pp \<longleftrightarrow> (\<forall>a < ntypes. \<forall>b < ntypes.
     m_params pp ! typpair pp a b = m_params pp ! typpair pp b a
     \<and> m_rcutsq pp ! typpair pp a b = m_rcutsq pp ! typpair pp b a
     \<and> m_ronsq pp ! typpair pp a b = m_ronsq pp ! typpair pp b a)"

text \<open>No component is exactly at half a box length when its direction is wrapped.\<close>

definition off_boundary :: "BoxDim \<Rightarrow> Scalar3 \<Rightarrow> bool" where
  "off_boundary b v \<longleftrightarrow>
     (let y = minImage_z b v; x = minImage_y b y
      in (tz (m_periodic b) \<longrightarrow> \<bar>vz v\<bar> \<noteq> vz (m_hi b)) \<and> (ty (m_periodic b) \<longrightarrow> \<bar>vy y\<bar> \<noteq> vy (m_hi b))
         \<and> (tx (m_periodic b) \<longrightarrow> \<bar>vx x\<bar> \<noteq> vx (m_hi b)))"

lemma minImage_odd:
  assumes "box_ok b" "box_centred b" "off_boundary b v"
  shows "minImage b (- v) = - minImage b v"
proof -
  have c: "tx (m_periodic b) \<longrightarrow> vx (m_lo b) = - vx (m_hi b) \<and> 0 < vx (m_hi b)"
    "ty (m_periodic b) \<longrightarrow> vy (m_lo b) = - vy (m_hi b) \<and> 0 < vy (m_hi b)"
    "tz (m_periodic b) \<longrightarrow> vz (m_lo b) = - vz (m_hi b) \<and> 0 < vz (m_hi b)"
    using assms(1,2) by (auto simp: box_ok_def box_centred_def)
  have z: "minImage_z b (- v) = - minImage_z b v"
    using assms(3) c by (auto simp: minImage_z_def off_boundary_def Let_def vec3_eq_iff abs_if split: if_splits)
  have y: "minImage_y b (- w) = - minImage_y b w" if "ty (m_periodic b) \<longrightarrow> \<bar>vy w\<bar> \<noteq> vy (m_hi b)" for w
    using that c by (auto simp: minImage_y_def Let_def vec3_eq_iff abs_if split: if_splits)
  have x: "minImage_x b (- w) = - minImage_x b w" if "tx (m_periodic b) \<longrightarrow> \<bar>vx w\<bar> \<noteq> vx (m_hi b)" for w
    using that c by (auto simp: minImage_x_def Let_def vec3_eq_iff abs_if split: if_splits)
  show ?thesis using assms(3) by (simp add: minImage_def z y x off_boundary_def Let_def)
qed

lemma term_entry_neg: "term_entry cv c (- dx) t = reaction c * term_entry cv c dx t" if "c < 10"
  by (cases t) (auto simp: term_entry_def reaction_def virial_of_def)

lemma pair_entry_symmetric:
  assumes "symmetric_evaluator ev" "coefficients_symmetric (getNTypes pd) pp" "box_ok (getGlobalBox pd)" "box_centred (getGlobalBox pd)"
    and "neighbor_ok pd i" "neighbor_ok pd j" "off_boundary (getGlobalBox pd) (fst (h_pos pd ! i) - fst (h_pos pd ! j))" "c < 10"
  shows "pair_entry ev pp pd cv c j i = reaction c * pair_entry ev pp pd cv c i j"
proof -
  obtain p a where i: "h_pos pd ! i = (p, a)" by fastforce
  obtain q b where j: "h_pos pd ! j = (q, b)" by fastforce
  have ab: "a < getNTypes pd" "b < getNTypes pd" "i < getN pd + getNGhosts pd" "j < getN pd + getNGhosts pd"
    using assms(5,6) i j by (simp_all add: neighbor_ok_def)
  have coeff: "m_params pp ! typpair pp b a = m_params pp ! typpair pp a b" "m_rcutsq pp ! typpair pp b a = m_rcutsq pp ! typpair pp a b"
    "m_ronsq pp ! typpair pp b a = m_ronsq pp ! typpair pp a b" using assms(2) ab by (simp_all add: coefficients_symmetric_def)
  define dx where "dx = minImage (getGlobalBox pd) (p - q)"
  have neg: "minImage (getGlobalBox pd) (q - p) = - dx" using minImage_odd [OF assms(3,4), of "p - q"] assms(7) i j by (simp add: dx_def)
  have dot: "dot (- dx) (- dx) = dot dx dx" by (simp add: dot_def)
  have ev: "shifted_evaluation ev md r rc ro prm di dj qi qj = shifted_evaluation ev md r rc ro prm dj di qj qi" for md r rc ro prm di dj qi qj
    using assms(1) by (simp add: shifted_evaluation_def symmetric_evaluator_def Let_def)
  define t where "t = shifted_evaluation ev (m_shift_mode pp) (dot dx dx) (m_rcutsq pp ! typpair pp a b) (m_ronsq pp ! typpair pp a b)
    (m_params pp ! typpair pp a b) (if needsDiameter ev then h_diameter pd ! i else 0) (if needsDiameter ev then h_diameter pd ! j else 0)
    (if needsCharge ev then h_charge pd ! i else 0) (if needsCharge ev then h_charge pd ! j else 0)"
  have "pair_term ev pp pd i j = Inr (dx, t)" using ab i j by (simp add: pair_term_def Let_def t_def dx_def)
  moreover have "pair_term ev pp pd j i = Inr (- dx, t)"
    using ab i j neg dot coeff unfolding pair_term_def Let_def t_def by (simp add: dx_def [symmetric]) (auto intro: ev)
  ultimately show ?thesis using term_entry_neg [OF assms(8)] by (cases t) (simp_all add: pair_entry_def)
qed

text \<open>The full list that belongs to a half list: each stored pair also appears at its second particle.\<close>

definition incoming :: "NeighborView \<Rightarrow> nat \<Rightarrow> nat \<Rightarrow> nat list" where
  "incoming nl N m = concat (map (\<lambda>i. map (\<lambda>_. i) (filter (\<lambda>j. j = m) (neighbors nl i))) [0..<N])"

definition full_list_of :: "NeighborView \<Rightarrow> NeighborView \<Rightarrow> nat \<Rightarrow> bool" where
  "full_list_of nlf nlh N \<longleftrightarrow> getStorageMode nlf = full \<and> getStorageMode nlh = half
     \<and> (\<forall>m < N. mset (neighbors nlf m) = mset (neighbors nlh m @ incoming nlh N m))"

lemma sum_list_mset_eq: "mset xs = mset ys \<Longrightarrow> (\<Sum>x\<leftarrow>xs. g x) = (\<Sum>x\<leftarrow>ys. g x :: real)"
  by (metis mset_map sum_mset_sum_list)

lemma sum_incoming:
  "(\<Sum>i\<leftarrow>incoming nl N m. g i) = (\<Sum>i<N. \<Sum>j\<leftarrow>neighbors nl i. if j = m then g i else (0 :: real))"
proof -
  have f: "(\<Sum>i\<leftarrow>map (\<lambda>_. k) (filter (\<lambda>j. j = m) js). g i) = (\<Sum>j\<leftarrow>js. if j = m then g k else 0)" for k js
    by (induction js) simp_all
  have "(\<Sum>i\<leftarrow>concat (map h is). g i) = (\<Sum>k\<leftarrow>is. \<Sum>i\<leftarrow>h k. g i)" for h and "is" :: "nat list"
    by (induction "is") simp_all
  then show ?thesis unfolding incoming_def by (simp only: f interv_sum_list_conv_sum_set_nat lessThan_atLeast0 atLeastLessThan_upt [symmetric])
qed

lemma accumulated_half_full:
  assumes "full_list_of nlf nlh (getN pd)" "m < getN pd" "c < 10"
    and sym: "\<And>i. i < getN pd \<Longrightarrow> m \<in> set (neighbors nlh i) \<Longrightarrow> pair_entry ev pp pd cv c m i = reaction c * pair_entry ev pp pd cv c i m"
  shows "accumulated ev pp pd nlf cv c m = accumulated ev pp pd nlh cv c m"
proof -
  let ?g = "pair_entry ev pp pd cv c"
  have "(\<Sum>j\<leftarrow>neighbors nlf m. ?g m j) = (\<Sum>j\<leftarrow>neighbors nlh m @ incoming nlh (getN pd) m. ?g m j)"
    using assms(1,2) by (intro sum_list_mset_eq) (simp add: full_list_of_def)
  also have "\<dots> = (\<Sum>j\<leftarrow>neighbors nlh m. ?g m j) + (\<Sum>i<getN pd. \<Sum>j\<leftarrow>neighbors nlh i. if j = m then ?g m i else 0)"
    by (simp add: sum_incoming)
  also have "(\<Sum>i<getN pd. \<Sum>j\<leftarrow>neighbors nlh i. if j = m then ?g m i else 0)
      = (\<Sum>i<getN pd. \<Sum>j\<leftarrow>neighbors nlh i. reaction c * (if j = m then ?g i j else 0))"
    by (intro sum.cong refl arg_cong [of _ _ sum_list] map_cong) (use sym in auto)
  also have "\<dots> = reaction c * (\<Sum>i<getN pd. \<Sum>j\<leftarrow>neighbors nlh i. if j = m then ?g i j else 0)"
    by (simp add: sum_list_const_mult sum_distrib_left)
  finally show ?thesis using assms(1) by (simp add: accumulated_def full_list_of_def)
qed

section \<open>The coefficient arrays\<close>

definition coefficients_ok :: "uint \<Rightarrow> 'p PotentialPair \<Rightarrow> bool" where
  "coefficients_ok ntypes pp \<longleftrightarrow> m_typpair_idx pp = Index2D_square ntypes
     \<and> length (m_params pp) = unat ntypes * unat ntypes \<and> length (m_rcutsq pp) = unat ntypes * unat ntypes
     \<and> length (m_ronsq pp) = unat ntypes * unat ntypes \<and> coefficients_symmetric ntypes pp"

lemma typpair_unat:
  assumes "m_typpair_idx pp = Index2D_square n" "unat n * unat n < 2 ^ 32" "a < n" "b < n"
  shows "typpair pp a b = unat b * unat n + unat a" "typpair pp a b < unat n * unat n"
proof -
  have "unat a < unat n" "unat b < unat n" using assms(3,4) by (simp_all add: word_less_nat_alt)
  then show "typpair pp a b = unat b * unat n + unat a" "typpair pp a b < unat n * unat n"
    using assms(1,2) row_less [of "unat a" "unat n" "unat b" "unat n" "unat n * unat n"]
    by (simp_all add: Index2D_idx_unat Index2D_square_def)
qed

lemma typpair_eq:
  assumes "m_typpair_idx pp = Index2D_square n" "unat n * unat n < 2 ^ 32" "a < n" "b < n" "c < n" "d < n"
  shows "typpair pp a b = typpair pp c d \<longleftrightarrow> a = c \<and> b = d"
proof -
  have "unat a < unat n" "unat c < unat n" using assms(3,5) by (simp_all add: word_less_nat_alt)
  then show ?thesis
    unfolding typpair_unat(1) [OF assms(1-4)] typpair_unat(1) [OF assms(1,2,5,6)] by (auto simp: row_eq word_unat_eq_iff)
qed

text \<open>Both entries of a type pair are set, and no other.\<close>

lemma nth_update_two:
  assumes "i < length xs" "j < length xs" "k < length xs"
  shows "xs[i := v, j := v] ! k = (if k = i \<or> k = j then v else xs ! k)"
  using assms by (auto simp: nth_list_update_in)

lemma set_both:
  assumes "m_typpair_idx pp = Index2D_square n" "unat n * unat n < 2 ^ 32" "a < n" "b < n" "c < n" "d < n"
    and "length xs = unat n * unat n"
  shows "xs[typpair pp a b := v, typpair pp b a := v] ! typpair pp c d
    = (if (c = a \<and> d = b) \<or> (c = b \<and> d = a) then v else xs ! typpair pp c d)"
  unfolding typpair_eq [OF assms(1,2,5,6,3,4), symmetric] typpair_eq [OF assms(1,2,5,6,4,3), symmetric]
  by (rule nth_update_two; unfold assms(7); rule typpair_unat(2) [OF assms(1,2)]) (fact assms)+

lemma coefficients_alloc_ok:
  assumes "unat n * unat n < 2 ^ 32"
  shows "coefficients_ok n (coefficients_alloc n z pp)"
proof -
  let ?pp = "coefficients_alloc n z pp"
  have idx: "m_typpair_idx ?pp = Index2D_square n" by (simp add: coefficients_alloc_def Let_def)
  have len: "unat (Index2D_getNumElements (Index2D_square n)) = unat n * unat n"
    using assms by (simp add: Index2D_getNumElements_def Index2D_square_def unat_mult_nowrap)
  have "typpair ?pp a b < unat n * unat n" if "a < n" "b < n" for a b using typpair_unat(2) [OF idx assms that] .
  then show ?thesis using idx len by (simp add: coefficients_ok_def coefficients_symmetric_def) (simp add: coefficients_alloc_def Let_def)
qed

lemma setters_ok:
  assumes "unat n * unat n < 2 ^ 32" "coefficients_ok n pp" "a < n" "b < n"
  shows "\<exists>p1. setParams n a b p pp = Inr p1 \<and> coefficients_ok n p1
      \<and> (\<forall>c < n. \<forall>d < n. m_params p1 ! typpair p1 c d = (if (c = a \<and> d = b) \<or> (c = b \<and> d = a) then p else m_params pp ! typpair pp c d))"
    and "\<exists>p2. setRcut n a b r pp = Inr p2 \<and> coefficients_ok n p2
      \<and> (\<forall>c < n. \<forall>d < n. m_rcutsq p2 ! typpair p2 c d = (if (c = a \<and> d = b) \<or> (c = b \<and> d = a) then r\<^sup>2 else m_rcutsq pp ! typpair pp c d))"
    and "\<exists>p3. setRon n a b r pp = Inr p3 \<and> coefficients_ok n p3
      \<and> (\<forall>c < n. \<forall>d < n. m_ronsq p3 ! typpair p3 c d = (if (c = a \<and> d = b) \<or> (c = b \<and> d = a) then r\<^sup>2 else m_ronsq pp ! typpair pp c d))"
proof -
  have ok: "m_typpair_idx pp = Index2D_square n" "length (m_params pp) = unat n * unat n" "length (m_rcutsq pp) = unat n * unat n"
    "length (m_ronsq pp) = unat n * unat n" "coefficients_symmetric n pp" using assms(2) by (simp_all add: coefficients_ok_def)
  note p = set_both [OF ok(1) assms(1,3,4) _ _ ok(2)] and rc = set_both [OF ok(1) assms(1,3,4) _ _ ok(3)]
    and ro = set_both [OF ok(1) assms(1,3,4) _ _ ok(4)]
  have "a \<ge> n \<or> b \<ge> n \<longleftrightarrow> False" using assms(3,4) by auto
  note simps = this setParams_def setRcut_def setRon_def coefficients_ok_def coefficients_symmetric_def power2_eq_square
  show "\<exists>p1. setParams n a b p pp = Inr p1 \<and> coefficients_ok n p1
      \<and> (\<forall>c < n. \<forall>d < n. m_params p1 ! typpair p1 c d = (if (c = a \<and> d = b) \<or> (c = b \<and> d = a) then p else m_params pp ! typpair pp c d))"
    using ok p [of _ _ p] by (auto simp: simps)
  show "\<exists>p2. setRcut n a b r pp = Inr p2 \<and> coefficients_ok n p2
      \<and> (\<forall>c < n. \<forall>d < n. m_rcutsq p2 ! typpair p2 c d = (if (c = a \<and> d = b) \<or> (c = b \<and> d = a) then r\<^sup>2 else m_rcutsq pp ! typpair pp c d))"
    using ok rc [of _ _ "r * r"] by (auto simp: simps)
  show "\<exists>p3. setRon n a b r pp = Inr p3 \<and> coefficients_ok n p3
      \<and> (\<forall>c < n. \<forall>d < n. m_ronsq p3 ! typpair p3 c d = (if (c = a \<and> d = b) \<or> (c = b \<and> d = a) then r\<^sup>2 else m_ronsq pp ! typpair pp c d))"
    using ok ro [of _ _ "r * r"] by (auto simp: simps)
qed

text \<open>C23: the coefficients of a type pair. The arrays always have one entry per ordered pair of types and are
  symmetric; the setters change the entries of the pair in both orders and no other, square the radii,
  and reject types that do not exist; a change of the number of types reallocates, an unchanged number
  keeps the coefficients.\<close>

theorem pair_coefficients:
  assumes "unat n * unat n < 2 ^ 32" "coefficients_ok n pp"
  shows "coefficients_ok n (PotentialPair_new ev n z suffix)
    \<and> (if a < n \<and> b < n then
         (\<exists>p1. setParams n a b p pp = Inr p1 \<and> coefficients_ok n p1
            \<and> (\<forall>c < n. \<forall>d < n. m_params p1 ! typpair p1 c d = (if (c = a \<and> d = b) \<or> (c = b \<and> d = a) then p else m_params pp ! typpair pp c d)))
         \<and> (\<exists>p2. setRcut n a b r pp = Inr p2 \<and> coefficients_ok n p2
            \<and> (\<forall>c < n. \<forall>d < n. m_rcutsq p2 ! typpair p2 c d = (if (c = a \<and> d = b) \<or> (c = b \<and> d = a) then r\<^sup>2 else m_rcutsq pp ! typpair pp c d)))
         \<and> (\<exists>p3. setRon n a b r pp = Inr p3 \<and> coefficients_ok n p3
            \<and> (\<forall>c < n. \<forall>d < n. m_ronsq p3 ! typpair p3 c d = (if (c = a \<and> d = b) \<or> (c = b \<and> d = a) then r\<^sup>2 else m_ronsq pp ! typpair pp c d)))
       else setParams n a b p pp = Inl Runtime_error \<and> setRcut n a b r pp = Inl Runtime_error \<and> setRon n a b r pp = Inl Runtime_error)
    \<and> slotNumTypesChange n z pp = pp
    \<and> (unat k * unat k < 2 ^ 32 \<longrightarrow> coefficients_ok k (slotNumTypesChange k z pp))"
proof -
  have idx: "m_typpair_idx pp = Index2D_square n" using assms(2) by (simp add: coefficients_ok_def)
  have "coefficients_ok n (PotentialPair_new ev n z suffix)" unfolding PotentialPair_new_def by (rule coefficients_alloc_ok [OF assms(1)])
  moreover have "slotNumTypesChange n z pp = pp" using idx by (simp add: slotNumTypesChange_def Index2D_getW_def Index2D_square_def)
  moreover have "coefficients_ok k (slotNumTypesChange k z pp)" if "unat k * unat k < 2 ^ 32"
    using assms(2) idx coefficients_alloc_ok [OF that, of z pp] by (simp add: slotNumTypesChange_def Index2D_getW_def Index2D_square_def)
  moreover have "setParams n a b p pp = Inl Runtime_error \<and> setRcut n a b r pp = Inl Runtime_error \<and> setRon n a b r pp = Inl Runtime_error"
    if "\<not> (a < n \<and> b < n)" using that by (auto simp: setParams_def setRcut_def setRon_def not_less)
  ultimately show ?thesis using setters_ok [OF assms, of a b] by (cases "a < n \<and> b < n") simp_all
qed

theorem pair_coefficients_witness:
  "\<exists>p1. setRcut 2 0 1 3 (PotentialPair_new LJ 2 (0, 0) []) = Inr p1 \<and> m_rcutsq p1 ! typpair p1 1 0 = 9"
proof -
  have "coefficients_ok 2 (PotentialPair_new LJ 2 (0, 0) [])" unfolding PotentialPair_new_def by (rule coefficients_alloc_ok) simp
  from pair_coefficients [OF _ this, of LJ "(0, 0)" "[]" 0 1 "(0, 0)" 3 2]
  obtain p2 where "setRcut 2 0 1 3 (PotentialPair_new LJ 2 (0, 0) []) = Inr p2"
    "\<forall>c < 2. \<forall>d < 2. m_rcutsq p2 ! typpair p2 c d = (if (c = 0 \<and> d = 1) \<or> (c = 1 \<and> d = 0) then 3\<^sup>2
       else m_rcutsq (PotentialPair_new LJ 2 (0, 0) []) ! typpair (PotentialPair_new LJ 2 (0, 0) []) c d)" by auto
  then show ?thesis by (intro exI [of _ p2]) simp
qed

section \<open>Properties of the pair forces\<close>

lemmas evaluators_xplor = lj.xplor_conservative mie.xplor_conservative fslj.xplor_conservative yukawa.xplor_conservative
  morse.xplor_conservative gauss.xplor_conservative zbl.xplor_conservative moliere.xplor_conservative ewald.xplor_conservative

text \<open>C22: XPLOR smoothing keeps the forces conservative. In the mode \<open>xplor\<close> with \<open>r_on <
  r_cut\<close> the force the loop applies is the negative derivative of the energy it adds at every distance,
  also at \<open>r_on\<close> and at the cutoff, where the energy joins zero with a continuous slope; the sign
  of the second term is the one in the code. This holds for the nine evaluators whose cutoff is
  \<open>r_cut\<close>.\<close>

theorem xplor_forces_conservative:
  fixes x :: "Scalar2 interaction" and y :: "Scalar4 interaction" and z :: "Scalar interaction"
  assumes "0 < r" "0 < ron" "ron < rcut x" "ron < rcut y" "ron < rcut z"
  shows "(mode_energy LJ xplor ron x has_real_derivative - (mode_force LJ xplor ron x r * r)) (at r)
    \<and> (mode_energy Mie xplor ron y has_real_derivative - (mode_force Mie xplor ron y r * r)) (at r)
    \<and> (mode_energy ForceShiftedLJ xplor ron x has_real_derivative - (mode_force ForceShiftedLJ xplor ron x r * r)) (at r)
    \<and> (mode_energy Yukawa xplor ron x has_real_derivative - (mode_force Yukawa xplor ron x r * r)) (at r)
    \<and> (mode_energy Morse xplor ron y has_real_derivative - (mode_force Morse xplor ron y r * r)) (at r)
    \<and> (mode_energy Gauss xplor ron x has_real_derivative - (mode_force Gauss xplor ron x r * r)) (at r)
    \<and> (mode_energy ZBL xplor ron x has_real_derivative - (mode_force ZBL xplor ron x r * r)) (at r)
    \<and> (mode_energy Moliere xplor ron x has_real_derivative - (mode_force Moliere xplor ron x r * r)) (at r)
    \<and> (mode_energy Ewald xplor ron z has_real_derivative - (mode_force Ewald xplor ron z r * r)) (at r)"
  using assms by (intro conjI evaluators_xplor) simp_all

theorem xplor_forces_conservative_witness:
  "(mode_energy LJ xplor 2 lj_pair has_real_derivative - (mode_force LJ xplor 2 lj_pair 3 * 3)) (at 3)"
  using xplor_forces_conservative [of 3 2 lj_pair "\<lparr>param = undefined, rcut = 3, d_i = 1, d_j = 1, q_i = 1, q_j = 1\<rparr>"
        "\<lparr>param = undefined, rcut = 3, d_i = 1, d_j = 1, q_i = 1, q_j = 1\<rparr>"] by simp

text \<open>Two particles in a cubic box, stored as one half list entry.\<close>

definition two_particles :: ParticleView where
  "two_particles = \<lparr>getN = 2, getNGhosts = 0, getNTypes = 1, h_pos = [(Vec3 0 0 0, 0), (Vec3 1 0 0, 0)], h_diameter = [1, 1],
     h_charge = [1, 1], getGlobalBox = BoxDim_cube 10\<rparr>"

definition two_half :: NeighborView where
  "two_half = \<lparr>getStorageMode = half, h_n_neigh = [1, 0], h_nlist = [1], h_head_list = [0, 1]\<rparr>"

definition two_full :: NeighborView where
  "two_full = \<lparr>getStorageMode = full, h_n_neigh = [1, 1], h_nlist = [1, 0], h_head_list = [0, 1]\<rparr>"

definition lj_potential :: "Scalar2 PotentialPair" where
  "lj_potential = \<lparr>m_shift_mode = xplor, m_typpair_idx = Index2D_square 1, m_rcutsq = [9], m_ronsq = [4], m_params = [(4, 4)],
     m_log_name = ''pair_lj_energy''\<rparr>"

lemma two_neighbors [simp]:
  "neighbors two_half 0 = [1]" "neighbors two_half (Suc 0) = []" "neighbors two_full 0 = [1]" "neighbors two_full (Suc 0) = [0]"
  by (simp_all add: neighbors_def two_half_def two_full_def)

lemma two_ok: "system_ok two_particles two_half 2 2 12" "system_ok two_particles two_full 2 2 12"
  by (auto simp: system_ok_def loop_ok_def neighbor_ok_def two_particles_def less_Suc_eq numeral_2_eq_2)

text \<open>C12: the force loop computes the pair sums. For valid input it returns, and each entry of each local
  particle (force, energy, virial) is the sum of the terms of its neighbors plus, with a half list, the
  reactions to the terms in which it is the neighbor. If some local particle has a type that does not
  exist, the call fails.\<close>

theorem computeForces_sums:
  assumes "system_ok pd nl pitch num_force num_virial"
  shows "(\<exists>out. computeForces ev pp pd nl cv pitch num_force num_virial = Inr out
      \<and> (\<forall>c < 10. \<forall>m < getN pd. entry pitch out c m = accumulated ev pp pd nl cv c m))
    \<and> ((\<exists>i < getN qd. \<not> snd (h_pos qd ! i) < getNTypes qd)
        \<longrightarrow> (\<exists>e. computeForces ev pp qd nl cv pitch num_force num_virial = Inl e))"
proof (intro conjI impI)
  assume "\<exists>i < getN qd. \<not> snd (h_pos qd ! i) < getNTypes qd"
  then show "\<exists>e. computeForces ev pp qd nl cv pitch num_force num_virial = Inl e"
    unfolding computeForces_def by (intro particle_loop_fails) auto
qed (rule computeForces_entries [OF assms])

theorem computeForces_sums_witness:
  "\<exists>out. computeForces LJ lj_potential two_particles two_half True 2 2 12 = Inr out
    \<and> entry 2 out 0 1 = accumulated LJ lj_potential two_particles two_half True 0 1"
proof -
  have "(1 :: nat) < getN two_particles" by (simp add: two_particles_def)
  then show ?thesis using computeForces_sums [OF two_ok(1), of LJ lj_potential True two_particles] by fastforce
qed

text \<open>C25: Newton's third law. With a half list and no ghosts the forces on all particles add up to zero,
  and the particle energies add up to the energies of the stored pairs, each counted once.\<close>

theorem newton_third_law:
  assumes "system_ok pd nl pitch num_force num_virial" "getStorageMode nl = half" "getNGhosts pd = 0"
  shows "\<exists>out. computeForces ev pp pd nl cv pitch num_force num_virial = Inr out
    \<and> (\<Sum>m<getN pd. sx (h_force out ! m)) = 0 \<and> (\<Sum>m<getN pd. sy (h_force out ! m)) = 0 \<and> (\<Sum>m<getN pd. sz (h_force out ! m)) = 0
    \<and> (\<Sum>m<getN pd. sw (h_force out ! m)) = (\<Sum>i<getN pd. \<Sum>j\<leftarrow>neighbors nl i.
         case pair_term ev pp pd i j of Inr (dx, Some (f, e)) \<Rightarrow> e | _ \<Rightarrow> 0)"
proof -
  obtain out where out: "computeForces ev pp pd nl cv pitch num_force num_virial = Inr out"
    "\<forall>c < 10. \<forall>m < getN pd. entry pitch out c m = accumulated ev pp pd nl cv c m"
    using computeForces_entries [OF assms(1)] by blast
  have "\<forall>i < getN pd. \<forall>j \<in> set (neighbors nl i). j < getN pd"
    using assms(1,3) by (simp add: system_ok_def loop_ok_def neighbor_ok_def)
  note total = total_accumulated [OF assms(2) this, of ev pp cv]
  have sum: "(\<Sum>m<getN pd. entry pitch out c m) = (1 + reaction c) * (\<Sum>i<getN pd. \<Sum>j\<leftarrow>neighbors nl i. pair_entry ev pp pd cv c i j)"
    if "c < 10" for c using out(2) that total [of c] by simp
  have "2 * pair_entry ev pp pd cv 3 i j = (case pair_term ev pp pd i j of Inr (dx, Some (f, e)) \<Rightarrow> e | _ \<Rightarrow> 0)" for i j
    by (auto simp: pair_entry_def term_entry_def split: sum.split option.split)
  then have "2 * (\<Sum>i<getN pd. \<Sum>j\<leftarrow>neighbors nl i. pair_entry ev pp pd cv 3 i j) = (\<Sum>i<getN pd. \<Sum>j\<leftarrow>neighbors nl i.
         case pair_term ev pp pd i j of Inr (dx, Some (f, e)) \<Rightarrow> e | _ \<Rightarrow> 0)"
    by (simp add: sum_distrib_left flip: sum_list_const_mult)
  then show ?thesis using out(1) sum [of 0] sum [of 1] sum [of 2] sum [of 3] by (simp add: entry_def reaction_def)
qed

theorem newton_third_law_witness:
  "\<exists>out. computeForces LJ lj_potential two_particles two_half True 2 2 12 = Inr out
    \<and> sx (h_force out ! 0) + sx (h_force out ! 1) = 0"
  using newton_third_law [OF two_ok(1), of LJ lj_potential True]
  by (auto simp: two_particles_def two_half_def numeral_2_eq_2)

text \<open>C6: half and full lists agree. For a symmetric evaluator and symmetric coefficients, a half list with the
  third law and the full list of the same pairs give the same forces, energies and virials, if no pair is
  separated by exactly half a box length.\<close>

theorem half_full_lists_agree:
  assumes "symmetric_evaluator ev" "coefficients_symmetric (getNTypes pd) pp" "box_ok (getGlobalBox pd)" "box_centred (getGlobalBox pd)"
    and "system_ok pd nlh pitch num_force num_virial" "system_ok pd nlf pitch num_force num_virial" "full_list_of nlf nlh (getN pd)"
    and "\<forall>i < getN pd. \<forall>j \<in> set (neighbors nlh i). off_boundary (getGlobalBox pd) (fst (h_pos pd ! i) - fst (h_pos pd ! j))"
  shows "\<exists>outh outf. computeForces ev pp pd nlh cv pitch num_force num_virial = Inr outh
    \<and> computeForces ev pp pd nlf cv pitch num_force num_virial = Inr outf
    \<and> (\<forall>c < 10. \<forall>m < getN pd. entry pitch outh c m = entry pitch outf c m)"
proof -
  obtain outh where h: "computeForces ev pp pd nlh cv pitch num_force num_virial = Inr outh"
    "\<forall>c < 10. \<forall>m < getN pd. entry pitch outh c m = accumulated ev pp pd nlh cv c m"
    using computeForces_entries [OF assms(5)] by blast
  obtain outf where f: "computeForces ev pp pd nlf cv pitch num_force num_virial = Inr outf"
    "\<forall>c < 10. \<forall>m < getN pd. entry pitch outf c m = accumulated ev pp pd nlf cv c m"
    using computeForces_entries [OF assms(6)] by blast
  have "accumulated ev pp pd nlf cv c m = accumulated ev pp pd nlh cv c m" if "c < 10" "m < getN pd" for c m
  proof (rule accumulated_half_full [OF assms(7) that(2,1)])
    fix i assume i: "i < getN pd" "m \<in> set (neighbors nlh i)"
    then have "neighbor_ok pd i" "neighbor_ok pd m" using assms(5) that(2) by (auto simp: system_ok_def loop_ok_def)
    then show "pair_entry ev pp pd cv c m i = reaction c * pair_entry ev pp pd cv c i m"
      using assms(8) i that(1) by (intro pair_entry_symmetric [OF assms(1-4)]) auto
  qed
  then show ?thesis using h f by auto
qed

theorem half_full_lists_agree_witness:
  "\<exists>outh outf. computeForces LJ lj_potential two_particles two_half True 2 2 12 = Inr outh
    \<and> computeForces LJ lj_potential two_particles two_full True 2 2 12 = Inr outf
    \<and> entry 2 outh 0 1 = entry 2 outf 0 1"
proof -
  have c: "coefficients_symmetric (getNTypes two_particles) lj_potential"
    by (simp add: coefficients_symmetric_def two_particles_def)
  have b: "box_ok (getGlobalBox two_particles)" "box_centred (getGlobalBox two_particles)"
    by (simp_all add: two_particles_def box_constructor_defs box_ok_def box_centred_def Let_def vec3_eq_iff)
  have "full_list_of two_full two_half (getN two_particles)"
    by (auto simp: full_list_of_def two_particles_def incoming_def less_Suc_eq numeral_2_eq_2) (simp_all add: two_half_def two_full_def)
  moreover have "\<forall>i < getN two_particles. \<forall>j \<in> set (neighbors two_half i).
      off_boundary (getGlobalBox two_particles) (fst (h_pos two_particles ! i) - fst (h_pos two_particles ! j))"
    by (auto simp: two_particles_def less_Suc_eq numeral_2_eq_2 off_boundary_def minImage_z_def minImage_y_def box_constructor_defs Let_def)
  ultimately show ?thesis
    using half_full_lists_agree [OF evaluators_symmetric(1) c b two_ok] by (fastforce simp: two_particles_def)
qed

definition pair_energy :: "('p, 'e) evaluator \<Rightarrow> 'p PotentialPair \<Rightarrow> ParticleView \<Rightarrow> nat \<Rightarrow> nat \<Rightarrow> Scalar" where
  "pair_energy ev pp pd i j = (case pair_term ev pp pd i j of Inr (dx, Some (f, e)) \<Rightarrow> e | _ \<Rightarrow> 0)"

definition types_ok :: "ParticleView \<Rightarrow> bool" where
  "types_ok pd \<longleftrightarrow> (\<forall>i < getN pd + getNGhosts pd. snd (h_pos pd ! i) < getNTypes pd)"

lemma between_inner_sum:
  assumes "types_ok pd"
  shows "between_inner ev pp pd rtags i ts eng =
    Inr (eng + (\<Sum>t\<leftarrow>filter (\<lambda>t. rtags t < getN pd + getNGhosts pd) ts. pair_energy ev pp pd i (rtags t)))"
proof (induction ts arbitrary: eng)
  case (Cons t ts)
  show ?case
  proof (cases "rtags t < getN pd + getNGhosts pd")
    case True
    then have "neighbor_ok pd (rtags t)" using assms by (simp add: neighbor_ok_def types_ok_def)
    then obtain dx r where "pair_term ev pp pd i (rtags t) = Inr (dx, r)" using pair_term_ok [of pd "rtags t" ev pp i] by blast
    then show ?thesis using Cons.IH True by (auto simp: pair_energy_def split: option.split)
  qed (simp add: Cons.IH)
qed simp

lemma between_outer_sum:
  assumes "types_ok pd"
  shows "between_outer ev pp pd rtags ts ts2 eng = Inr (eng + (\<Sum>s\<leftarrow>filter (\<lambda>s. rtags s < getN pd) ts.
    \<Sum>t\<leftarrow>filter (\<lambda>t. rtags t < getN pd + getNGhosts pd) ts2. pair_energy ev pp pd (rtags s) (rtags t)))"
proof (induction ts arbitrary: eng)
  case (Cons s ts)
  show ?case
  proof (cases "rtags s < getN pd")
    case True
    then have "snd (h_pos pd ! rtags s) < getNTypes pd" using assms by (simp add: types_ok_def)
    then show ?thesis using True by (simp add: between_inner_sum [OF assms] Cons.IH)
  qed (simp add: Cons.IH)
qed simp

text \<open>C38: the energy between two sets. When both sets have elements the result is the sum of the pair energies
  over all pairs whose first particle is local and whose second is known on this rank, reduced over
  the ranks; when a set is empty the caller's variable keeps its old value and is not set to zero.\<close>

theorem energy_between_sets:
  assumes "types_ok pd"
  shows "(tags1 \<noteq> [] \<and> tags2 \<noteq> [] \<longrightarrow> computeEnergyBetweenSets ev pp pd rtags allreduce tags1 tags2 energy0 =
      Inr (allreduce (\<Sum>s\<leftarrow>filter (\<lambda>s. rtags s < getN pd) tags1.
        \<Sum>t\<leftarrow>filter (\<lambda>t. rtags t < getN pd + getNGhosts pd) tags2. pair_energy ev pp pd (rtags s) (rtags t))))
    \<and> (tags1 = [] \<or> tags2 = [] \<longrightarrow> computeEnergyBetweenSets ev pp pd rtags allreduce tags1 tags2 energy0 = Inr energy0)"
  by (auto simp: computeEnergyBetweenSets_def between_outer_sum [OF assms])

theorem energy_between_sets_witness:
  "computeEnergyBetweenSets LJ lj_potential two_particles id id [0] [1] 7 = Inr (pair_energy LJ lj_potential two_particles 0 1)
    \<and> computeEnergyBetweenSets LJ lj_potential two_particles id id [] [1] 7 = Inr 7"
proof -
  have "types_ok two_particles" by (auto simp: types_ok_def two_particles_def less_Suc_eq numeral_2_eq_2)
  from energy_between_sets [OF this, of "[0]" "[1]" LJ lj_potential id id 7] energy_between_sets [OF this, of "[]" "[1]" LJ lj_potential id id 7]
  show ?thesis by (simp add: two_particles_def)
qed

end
