(* ===== verification/Potential_Bond.thy ===== *)
theory Potential_Bond
  imports Potential_Pair
begin

text \<open>
  Bond forces: the evaluator classes of \<open>potentials/EvaluatorBondHarmonic.h\<close> and \<open>potentials/EvaluatorBondFENE.h\<close>, and
  \<open>PotentialBond\<close> of \<open>potentials/PotentialBond.h\<close>, which loops over the bonds, looks up the members by tag and adds the
  forces to both ends. The bond list and the reverse tag lookup are arguments.
\<close>

section \<open>Bond evaluators\<close>

record ('p, 'e) bond_evaluator =
  bond_getName :: string
  bond_construct :: "Scalar \<Rightarrow> 'p \<Rightarrow> 'e"
  bond_needsDiameter :: bool
  bond_setDiameter :: "Scalar \<Rightarrow> Scalar \<Rightarrow> 'e \<Rightarrow> 'e"
  bond_needsCharge :: bool
  bond_setCharge :: "Scalar \<Rightarrow> Scalar \<Rightarrow> 'e \<Rightarrow> 'e"
  bond_evalForceAndEnergy :: "'e \<Rightarrow> (Scalar \<times> Scalar) option"

definition bond_evaluate :: "('p, 'e) bond_evaluator \<Rightarrow> Scalar \<Rightarrow> 'p \<Rightarrow> Scalar \<Rightarrow> Scalar \<Rightarrow> Scalar \<Rightarrow> Scalar
    \<Rightarrow> (Scalar \<times> Scalar) option" where
  "bond_evaluate ev rsq prm da db qa qb =
     (let e = bond_construct ev rsq prm;
          e = (if bond_needsDiameter ev then bond_setDiameter ev da db e else e);
          e = (if bond_needsCharge ev then bond_setCharge ev qa qb e else e)
      in bond_evalForceAndEnergy ev e)"

record EvaluatorBondHarmonic =
  b_rsq :: Scalar
  b_K :: Scalar
  b_r_0 :: Scalar

definition EvaluatorBondHarmonic_new :: "Scalar \<Rightarrow> Scalar2 \<Rightarrow> EvaluatorBondHarmonic" where
  "EvaluatorBondHarmonic_new r params = \<lparr>b_rsq = r, b_K = fst params, b_r_0 = snd params\<rparr>"

text \<open>At distance zero the quotient is not finite and the force is set to zero.\<close>

definition EvaluatorBondHarmonic_eval :: "EvaluatorBondHarmonic \<Rightarrow> (Scalar \<times> Scalar) option" where
  "EvaluatorBondHarmonic_eval e =
     (let r = sqrt (b_rsq e);
          force_divr = (if r = 0 then 0 else b_K e * (b_r_0 e / r - 1));
          bond_eng = 1 / 2 * b_K e * (b_r_0 e - r) * (b_r_0 e - r)
      in Some (force_divr, bond_eng))"

definition Harmonic :: "(Scalar2, EvaluatorBondHarmonic) bond_evaluator" where
  "Harmonic = \<lparr>bond_getName = ''harmonic'', bond_construct = EvaluatorBondHarmonic_new,
     bond_needsDiameter = False, bond_setDiameter = (\<lambda>da db e. e),
     bond_needsCharge = False, bond_setCharge = (\<lambda>qa qb e. e),
     bond_evalForceAndEnergy = EvaluatorBondHarmonic_eval\<rparr>"

record EvaluatorBondFENE = EvaluatorBondHarmonic +
  b_lj1 :: Scalar
  b_lj2 :: Scalar
  diameter_a :: Scalar
  diameter_b :: Scalar

definition EvaluatorBondFENE_new :: "Scalar \<Rightarrow> Scalar4 \<Rightarrow> EvaluatorBondFENE" where
  "EvaluatorBondFENE_new r params =
     \<lparr>b_rsq = r, b_K = sx params, b_r_0 = sy params, b_lj1 = sz params, b_lj2 = sw params, diameter_a = undefined, diameter_b = undefined\<rparr>"

definition EvaluatorBondFENE_setDiameter :: "Scalar \<Rightarrow> Scalar \<Rightarrow> EvaluatorBondFENE \<Rightarrow> EvaluatorBondFENE" where
  "EvaluatorBondFENE_setDiameter da db e = e\<lparr>diameter_a := da, diameter_b := db\<rparr>"

text \<open>With \<open>lj1 = 0\<close> the ratio \<open>lj2 / lj1\<close> is not finite and the comparison with it is false.\<close>

definition EvaluatorBondFENE_eval :: "EvaluatorBondFENE \<Rightarrow> (Scalar \<times> Scalar) option" where
  "EvaluatorBondFENE_eval e =
     (let rtemp = sqrt (b_rsq e) - diameter_a e / 2 - diameter_b e / 2 + 1;
          rmdoverr = rtemp / sqrt (b_rsq e);
          rsq = rtemp * rtemp;
          r2inv = 1 / rsq;
          r6inv = r2inv * r2inv * r2inv;
          sigma6inv = b_lj2 e / b_lj1 e;
          epsilon = b_lj2 e * b_lj2 e / 4 / b_lj1 e;
          (WCAforcemag_divr, pair_eng) =
            (if b_lj1 e \<noteq> 0 \<and> r6inv > sigma6inv / 2
             then (r2inv * r6inv * (12 * b_lj1 e * r6inv - 6 * b_lj2 e), r6inv * (b_lj1 e * r6inv - b_lj2 e) + epsilon)
             else (0, 0));
          force_divr = WCAforcemag_divr * rmdoverr;
          bond_eng = pair_eng
      in if b_K e \<noteq> 0 then
           if rsq \<ge> b_r_0 e * b_r_0 e then None
           else Some (force_divr + - b_K e / (1 - rsq / (b_r_0 e * b_r_0 e)) * rmdoverr,
                      bond_eng + - (1 / 2) * b_K e * (b_r_0 e * b_r_0 e) * ln (1 - rsq / (b_r_0 e * b_r_0 e)))
         else Some (force_divr, bond_eng))"

definition FENE :: "(Scalar4, EvaluatorBondFENE) bond_evaluator" where
  "FENE = \<lparr>bond_getName = ''fene'', bond_construct = EvaluatorBondFENE_new,
     bond_needsDiameter = True, bond_setDiameter = EvaluatorBondFENE_setDiameter,
     bond_needsCharge = False, bond_setCharge = (\<lambda>qa qb e. e),
     bond_evalForceAndEnergy = EvaluatorBondFENE_eval\<rparr>"

section \<open>The bond forces\<close>

record 'p PotentialBond =
  b_params :: "'p list"
  b_log_name :: string

text \<open>Bonds as \<open>BondData\<close> stores them: the tags of the two members and the type.\<close>

type_synonym bonds = "((nat \<times> nat) \<times> nat) list"

definition PotentialBond_new :: "('p, 'e) bond_evaluator \<Rightarrow> nat \<Rightarrow> 'p \<Rightarrow> string \<Rightarrow> 'p PotentialBond" where
  "PotentialBond_new ev ntypes zero log_suffix =
     \<lparr>b_params = replicate ntypes zero, b_log_name = ''bond_'' @ bond_getName ev @ ''_energy'' @ log_suffix\<rparr>"

definition bond_setParams :: "nat \<Rightarrow> nat \<Rightarrow> 'p \<Rightarrow> 'p PotentialBond \<Rightarrow> 'p PotentialBond result" where
  "bond_setParams ntypes type p pb =
     (if type \<ge> ntypes then Inl Runtime_error else Inr (pb\<lparr>b_params := (b_params pb)[type := p]\<rparr>))"

definition bond_getProvidedLogQuantities :: "'p PotentialBond \<Rightarrow> string list" where
  "bond_getProvidedLogQuantities pb = [b_log_name pb]"

definition bond_getLogValue :: "'p PotentialBond \<Rightarrow> Scalar result \<Rightarrow> string \<Rightarrow> Scalar result" where
  "bond_getLogValue pb calcEnergySum quantity =
     (if quantity = b_log_name pb then calcEnergySum else Inl Runtime_error)"

text \<open>The ghost fields requested: (tag, charge, diameter).\<close>

definition bond_getRequestedCommFlags :: "('p, 'e) bond_evaluator \<Rightarrow> bool \<times> bool \<times> bool \<Rightarrow> bool \<times> bool \<times> bool" where
  "bond_getRequestedCommFlags ev = (\<lambda>(t, q, d). (True, q \<or> bond_needsCharge ev, d \<or> bond_needsDiameter ev))"

definition bond_virial_of :: "Scalar \<Rightarrow> Scalar3 \<Rightarrow> Scalar list" where
  "bond_virial_of force_divr dx =
     (let force_div2r = 1 / 2 * force_divr
      in [vx dx * vx dx * force_div2r, vx dx * vy dx * force_div2r, vx dx * vz dx * force_div2r,
          vy dx * vy dx * force_div2r, vy dx * vz dx * force_div2r, vz dx * vz dx * force_div2r])"

text \<open>Add \<open>s\<close> times the force, the energy and the virial to a local particle.\<close>

definition add_end :: "bool \<Rightarrow> nat \<Rightarrow> nat \<Rightarrow> nat \<Rightarrow> Scalar \<Rightarrow> Scalar \<Rightarrow> Scalar3 \<Rightarrow> Scalar \<Rightarrow> Scalar list \<Rightarrow> ForceArrays \<Rightarrow> ForceArrays" where
  "add_end compute_virial pitch N idx s force_divr dx bond_eng bond_virial out =
     (if idx < N then
        let f = h_force out ! idx;
            out = out\<lparr>h_force := (h_force out)[idx := Scalar4 (sx f + s * (force_divr * vx dx)) (sy f + s * (force_divr * vy dx))
                      (sz f + s * (force_divr * vz dx)) (sw f + bond_eng)]\<rparr>
        in if compute_virial then out\<lparr>h_virial := add_virial pitch idx bond_virial (h_virial out)\<rparr> else out
      else out)"

definition bond_step :: "('p, 'e) bond_evaluator \<Rightarrow> 'p PotentialBond \<Rightarrow> ParticleView \<Rightarrow> nat \<Rightarrow> (nat \<Rightarrow> nat) \<Rightarrow> bool \<Rightarrow> nat
    \<Rightarrow> (nat \<times> nat) \<times> nat \<Rightarrow> ForceArrays \<Rightarrow> ForceArrays result" where
  "bond_step ev pb pd maximum_tag h_rtag compute_virial pitch = (\<lambda>((tag0, tag1), type) out.
     bindr (check (tag0 < maximum_tag + 1 \<and> tag1 < maximum_tag + 1) Assertion_failed) (\<lambda>_.
     let idx_a = h_rtag tag0; idx_b = h_rtag tag1; max_local = getN pd + getNGhosts pd
     in bindr (check (\<not> (idx_a \<ge> max_local \<or> idx_b \<ge> max_local)) Runtime_error) (\<lambda>_.
        let dx = fst (h_pos pd ! idx_b) - fst (h_pos pd ! idx_a);
            da = (if bond_needsDiameter ev then h_diameter pd ! idx_a else 0);
            db = (if bond_needsDiameter ev then h_diameter pd ! idx_b else 0);
            qa = (if bond_needsCharge ev then h_charge pd ! idx_a else 0);
            qb = (if bond_needsCharge ev then h_charge pd ! idx_b else 0);
            dx = minImage (getGlobalBox pd) dx;
            rsq = dot dx dx
        in case bond_evaluate ev rsq (b_params pb ! type) da db qa qb of
             None \<Rightarrow> Inl Runtime_error
           | Some (force_divr, bond_eng) \<Rightarrow>
               let bond_eng = bond_eng * (1 / 2);
                   bond_virial = bond_virial_of force_divr dx;
                   out = add_end compute_virial pitch (getN pd) idx_b 1 force_divr dx bond_eng bond_virial out
               in Inr (add_end compute_virial pitch (getN pd) idx_a (- 1) force_divr dx bond_eng bond_virial out))))"

fun bond_loop :: "('p, 'e) bond_evaluator \<Rightarrow> 'p PotentialBond \<Rightarrow> ParticleView \<Rightarrow> nat \<Rightarrow> (nat \<Rightarrow> nat) \<Rightarrow> bool \<Rightarrow> nat
    \<Rightarrow> bonds \<Rightarrow> ForceArrays \<Rightarrow> ForceArrays result" where
  "bond_loop ev pb pd maximum_tag h_rtag compute_virial pitch [] out = Inr out"
| "bond_loop ev pb pd maximum_tag h_rtag compute_virial pitch (b # bs) out =
     bindr (bond_step ev pb pd maximum_tag h_rtag compute_virial pitch b out)
       (bond_loop ev pb pd maximum_tag h_rtag compute_virial pitch bs)"

definition bond_computeForces :: "('p, 'e) bond_evaluator \<Rightarrow> 'p PotentialBond \<Rightarrow> ParticleView \<Rightarrow> nat \<Rightarrow> (nat \<Rightarrow> nat) \<Rightarrow> bool \<Rightarrow> nat
    \<Rightarrow> nat \<Rightarrow> nat \<Rightarrow> bonds \<Rightarrow> ForceArrays result" where
  "bond_computeForces ev pb pd maximum_tag h_rtag compute_virial pitch num_force num_virial bs =
     bond_loop ev pb pd maximum_tag h_rtag compute_virial pitch bs
       \<lparr>h_force = replicate num_force (Scalar4 0 0 0 0), h_virial = replicate num_virial 0\<rparr>"

section \<open>Bond forces are conservative\<close>

abbreviation bond_at :: "('p, 'e) bond_evaluator \<Rightarrow> 'p \<Rightarrow> Scalar \<Rightarrow> Scalar \<Rightarrow> Scalar \<Rightarrow> (Scalar \<times> Scalar) option" where
  "bond_at ev p da db r \<equiv> bond_evaluate ev (r * r) p da db 0 0"

definition bond_energy :: "('p, 'e) bond_evaluator \<Rightarrow> 'p \<Rightarrow> Scalar \<Rightarrow> Scalar \<Rightarrow> Scalar \<Rightarrow> Scalar" where
  "bond_energy ev p da db r = (case bond_at ev p da db r of None \<Rightarrow> 0 | Some (f, e) \<Rightarrow> e)"

lemma harmonic_at:
  assumes "0 < r"
  shows "bond_at Harmonic (k, r0) da db r = Some (k * (r0 / r - 1), 1 / 2 * k * (r0 - r) * (r0 - r))"
  using assms by (simp add: bond_evaluate_def Harmonic_def EvaluatorBondHarmonic_new_def EvaluatorBondHarmonic_eval_def Let_def)

lemma harmonic_conservative:
  assumes "0 < r"
  shows "(bond_energy Harmonic (k, r0) da db has_real_derivative - (k * (r0 / r - 1) * r)) (at r)"
proof -
  have "((\<lambda>r. 1 / 2 * k * (r0 - r) * (r0 - r)) has_real_derivative - (k * (r0 / r - 1) * r)) (at r)"
    using assms by (auto intro!: derivative_eq_intros simp: field_simps)
  then show ?thesis
    by (rule has_field_derivative_transform_within_open [where S = "{0<..}"]) (use assms in \<open>auto simp: bond_energy_def harmonic_at\<close>)
qed

text \<open>The repulsive part, cut at its minimum, and the spring.\<close>

definition wca :: "Scalar \<Rightarrow> Scalar \<Rightarrow> Scalar \<Rightarrow> Scalar" where
  "wca a b s = (if a \<noteq> 0 \<and> b / a / 2 < 1 / s ^ 6 then LJ_V (a, b) s + b * b / 4 / a else 0)"

definition wca_F :: "Scalar \<Rightarrow> Scalar \<Rightarrow> Scalar \<Rightarrow> Scalar" where
  "wca_F a b s = (if a \<noteq> 0 \<and> b / a / 2 < 1 / s ^ 6 then LJ_F (a, b) s else 0)"

definition spring :: "Scalar \<Rightarrow> Scalar \<Rightarrow> Scalar \<Rightarrow> Scalar" where
  "spring k r0 s = - (1 / 2) * k * (r0 * r0) * ln (1 - s * s / (r0 * r0))"

lemma wca_DERIV:
  assumes "0 < s" "(a = 0 \<and> b = 0) \<or> (0 < a \<and> 0 < b)"
  shows "(wca a b has_real_derivative - (wca_F a b s * s)) (at s)"
proof (cases "a = 0")
  case True
  then show ?thesis by (simp add: wca_def [abs_def] wca_F_def)
next
  case False
  then have ab: "0 < a" "0 < b" using assms(2) by auto
  define c where "c = root 6 (2 * a / b)"
  have c: "0 < c" "c ^ 6 = 2 * a / b" using ab by (simp_all add: c_def)
  have cut: "b / a / 2 < 1 / s ^ 6 \<longleftrightarrow> s < c" if "0 < s" for s
  proof -
    have "b / a / 2 < 1 / s ^ 6 \<longleftrightarrow> s ^ 6 < c ^ 6" using ab that by (simp add: c(2) field_simps)
    also have "\<dots> \<longleftrightarrow> s < c" using that c(1) by (meson less_imp_le not_less power_mono power_strict_mono zero_less_numeral)
    finally show ?thesis .
  qed
  have V: "((\<lambda>s. LJ_V (a, b) s + b * b / 4 / a) has_real_derivative - (LJ_F (a, b) s * s)) (at s)"
    using DERIV_add [OF LJ_DERIV [of s "(a, b)"] DERIV_const] assms(1) by simp
  have c12: "c ^ 12 = (2 * a / b) ^ 2" using power_mult [of c 6 2] c(2) by simp
  have zero: "LJ_V (a, b) c + b * b / 4 / a = 0" "LJ_F (a, b) c = 0"
    unfolding LJ_V_def LJ_F_def fst_conv snd_conv c12 c(2) using ab by (simp_all add: field_simps power2_eq_square)
  have "((\<lambda>s. if s < c then LJ_V (a, b) s + b * b / 4 / a else 0) has_real_derivative - (wca_F a b s * s)) (at s)"
    by (rule DERIV_if_less) (use V zero assms(1) cut False in \<open>auto simp: wca_F_def\<close>)
  then show ?thesis
    by (rule has_field_derivative_transform_within_open [where S = "{0<..}"]) (use assms(1) cut False in \<open>auto simp: wca_def\<close>)
qed

lemma spring_DERIV:
  assumes "0 < r0" "0 < s" "s < r0"
  shows "(spring k r0 has_real_derivative k * s / (1 - s * s / (r0 * r0))) (at s)"
proof -
  have "s * s < r0 * r0" using assms by (simp add: rsq_less)
  then have pos: "0 < 1 - s * s / (r0 * r0)" using assms(1) by simp
  then show ?thesis unfolding spring_def [abs_def] using assms(1)
    by (auto intro!: derivative_eq_intros simp: field_simps)
qed

lemma fene_at:
  assumes "0 < r" "s = r - da / 2 - db / 2 + 1" "0 < s" "0 < r0"
  shows "bond_at FENE (Scalar4 k r0 a b) da db r = (if k \<noteq> 0 \<and> r0 \<le> s then None
    else Some ((wca_F a b s - (if k = 0 then 0 else k / (1 - s * s / (r0 * r0)))) * s / r, wca a b s + (if k = 0 then 0 else spring k r0 s)))"
proof -
  have "r0 * r0 \<le> s * s \<longleftrightarrow> r0 \<le> s" using assms(3,4) rsq_less [of s r0] by linarith
  moreover have "1 / (s * s) * (1 / (s * s)) * (1 / (s * s)) = 1 / s ^ 6" by (simp add: eval_nat_numeral)
  moreover have "1 / (s * s) * (1 / s ^ 6) * (12 * a * (1 / s ^ 6) - 6 * b) = LJ_F (a, b) s"
    using assms(3) by (simp add: LJ_F_def field_simps eval_nat_numeral)
  moreover have "1 / s ^ 6 * (a * (1 / s ^ 6) - b) = LJ_V (a, b) s" using assms(3) by (simp add: LJ_V_def field_simps eval_nat_numeral)
  ultimately show ?thesis using assms(1)
    unfolding bond_evaluate_def FENE_def EvaluatorBondFENE_new_def EvaluatorBondFENE_setDiameter_def EvaluatorBondFENE_eval_def Let_def
    by (simp add: assms(2) [symmetric] wca_def wca_F_def spring_def) (auto simp: left_diff_distrib diff_divide_distrib)
qed

lemma fene_conservative:
  assumes "0 < r" "0 < r0" "(a = 0 \<and> b = 0) \<or> (0 < a \<and> 0 < b)" "0 < r - da / 2 - db / 2 + 1"
    and "bond_at FENE (Scalar4 k r0 a b) da db r = Some (f, e)"
  shows "(bond_energy FENE (Scalar4 k r0 a b) da db has_real_derivative - (f * r)) (at r)"
proof -
  define S where "S = (\<lambda>r. r - da / 2 - db / 2 + 1)"
  let ?E = "\<lambda>s. wca a b s + (if k = 0 then 0 else spring k r0 s)"
  have pos: "0 < S r" using assms(4) by (simp add: S_def)
  have on: "k = 0 \<or> S r < r0" and f: "f = (wca_F a b (S r) - (if k = 0 then 0 else k / (1 - S r * S r / (r0 * r0)))) * S r / r"
    using assms(5) fene_at [OF assms(1) fun_cong [OF S_def] pos assms(2), of k a b] by (auto split: if_splits)
  have "(?E has_real_derivative - (wca_F a b (S r) * S r) + (if k = 0 then 0 else k * S r / (1 - S r * S r / (r0 * r0)))) (at (S r))"
    using on by (intro DERIV_add wca_DERIV [OF pos assms(3)]) (auto intro: spring_DERIV [OF assms(2) pos])
  moreover have "(S has_real_derivative 1) (at r)" unfolding S_def by (auto intro!: derivative_eq_intros)
  ultimately have "((\<lambda>r. ?E (S r)) has_real_derivative (- (wca_F a b (S r) * S r) + (if k = 0 then 0 else k * S r / (1 - S r * S r / (r0 * r0)))) * 1) (at r)"
    by (rule DERIV_chain2)
  then have "((\<lambda>r. ?E (S r)) has_real_derivative - (f * r)) (at r)"
  proof (rule DERIV_cong)
    have "f * r = (wca_F a b (S r) - (if k = 0 then 0 else k / (1 - S r * S r / (r0 * r0)))) * S r" using assms(1) by (simp add: f)
    then show "(- (wca_F a b (S r) * S r) + (if k = 0 then 0 else k * S r / (1 - S r * S r / (r0 * r0)))) * 1 = - (f * r)"
      by (simp add: left_diff_distrib)
  qed
  moreover have "open {r. 0 < r \<and> 0 < S r \<and> (k = 0 \<or> S r < r0)}"
    unfolding S_def by (cases "k = 0") (simp_all add: open_Collect_conj open_Collect_less continuous_on_id continuous_on_const continuous_on_add continuous_on_diff)
  ultimately show ?thesis
  proof (rule has_field_derivative_transform_within_open)
    show "r \<in> {r. 0 < r \<and> 0 < S r \<and> (k = 0 \<or> S r < r0)}" using assms(1) pos on by simp
    show "?E (S q) = bond_energy FENE (Scalar4 k r0 a b) da db q" if "q \<in> {r. 0 < r \<and> 0 < S r \<and> (k = 0 \<or> S r < r0)}" for q
      using that fene_at [OF _ fun_cong [OF S_def] _ assms(2), of q k a b] by (auto simp: bond_energy_def)
  qed
qed

text \<open>C26: bond forces are conservative. For harmonic and FENE bonds of positive length the force is the negative
  derivative of the energy, for FENE with its repulsive part also where that part is cut off, for
  particles of any diameters whose surface distance stays positive; a FENE bond is refused exactly when it
  reaches its maximal extension.\<close>

theorem bond_forces_conservative:
  assumes "0 < r" "0 < r0" "(a = 0 \<and> b = 0) \<or> (0 < a \<and> 0 < b)" "0 < r - da / 2 - db / 2 + 1"
  shows "(\<exists>f e. bond_at Harmonic (k, q) da db r = Some (f, e) \<and> (bond_energy Harmonic (k, q) da db has_real_derivative - (f * r)) (at r))
    \<and> (if k \<noteq> 0 \<and> r0 \<le> r - da / 2 - db / 2 + 1 then bond_at FENE (Scalar4 k r0 a b) da db r = None
       else \<exists>f e. bond_at FENE (Scalar4 k r0 a b) da db r = Some (f, e)
              \<and> (bond_energy FENE (Scalar4 k r0 a b) da db has_real_derivative - (f * r)) (at r))"
proof
  show "\<exists>f e. bond_at Harmonic (k, q) da db r = Some (f, e) \<and> (bond_energy Harmonic (k, q) da db has_real_derivative - (f * r)) (at r)"
    using harmonic_at [OF assms(1), of k q da db] harmonic_conservative [OF assms(1), of k q da db] by blast
  show "if k \<noteq> 0 \<and> r0 \<le> r - da / 2 - db / 2 + 1 then bond_at FENE (Scalar4 k r0 a b) da db r = None
       else \<exists>f e. bond_at FENE (Scalar4 k r0 a b) da db r = Some (f, e)
              \<and> (bond_energy FENE (Scalar4 k r0 a b) da db has_real_derivative - (f * r)) (at r)"
    using fene_at [OF assms(1) refl assms(4,2), of k a b] fene_conservative [OF assms, of k] by (auto split: if_splits)
qed

theorem bond_forces_conservative_witness:
  "\<exists>f e. bond_at FENE (Scalar4 30 (3 / 2) 4 4) 1 1 1 = Some (f, e)
    \<and> (bond_energy FENE (Scalar4 30 (3 / 2) 4 4) 1 1 has_real_derivative - (f * 1)) (at 1)"
  using bond_forces_conservative [of 1 "3 / 2" 4 4 1 1 30 1] by simp

section \<open>What the bond loop accumulates\<close>

definition bond_vector :: "ParticleView \<Rightarrow> (nat \<Rightarrow> nat) \<Rightarrow> (nat \<times> nat) \<times> nat \<Rightarrow> Scalar3" where
  "bond_vector pd h_rtag = (\<lambda>((tag0, tag1), type).
     minImage (getGlobalBox pd) (fst (h_pos pd ! h_rtag tag1) - fst (h_pos pd ! h_rtag tag0)))"

definition bond_term :: "('p, 'e) bond_evaluator \<Rightarrow> 'p PotentialBond \<Rightarrow> ParticleView \<Rightarrow> (nat \<Rightarrow> nat) \<Rightarrow> (nat \<times> nat) \<times> nat \<Rightarrow> (Scalar \<times> Scalar) option" where
  "bond_term ev pb pd h_rtag b = (case b of ((tag0, tag1), type) \<Rightarrow>
     bond_evaluate ev (dot (bond_vector pd h_rtag b) (bond_vector pd h_rtag b)) (b_params pb ! type)
       (if bond_needsDiameter ev then h_diameter pd ! h_rtag tag0 else 0) (if bond_needsDiameter ev then h_diameter pd ! h_rtag tag1 else 0)
       (if bond_needsCharge ev then h_charge pd ! h_rtag tag0 else 0) (if bond_needsCharge ev then h_charge pd ! h_rtag tag1 else 0))"

definition tags_ok :: "nat \<Rightarrow> (nat \<times> nat) \<times> nat \<Rightarrow> bool" where
  "tags_ok maximum_tag b \<longleftrightarrow> fst (fst b) \<le> maximum_tag \<and> snd (fst b) \<le> maximum_tag"

text \<open>Both members are present, and the bond is within its bounds.\<close>

definition bond_ok :: "('p, 'e) bond_evaluator \<Rightarrow> 'p PotentialBond \<Rightarrow> ParticleView \<Rightarrow> (nat \<Rightarrow> nat) \<Rightarrow> (nat \<times> nat) \<times> nat \<Rightarrow> bool" where
  "bond_ok ev pb pd h_rtag b \<longleftrightarrow> h_rtag (fst (fst b)) < getN pd + getNGhosts pd \<and> h_rtag (snd (fst b)) < getN pd + getNGhosts pd
     \<and> bond_term ev pb pd h_rtag b \<noteq> None"

definition bond_entry :: "('p, 'e) bond_evaluator \<Rightarrow> 'p PotentialBond \<Rightarrow> ParticleView \<Rightarrow> (nat \<Rightarrow> nat) \<Rightarrow> bool \<Rightarrow> nat \<Rightarrow> (nat \<times> nat) \<times> nat \<Rightarrow> Scalar" where
  "bond_entry ev pb pd h_rtag cv c b = (case bond_term ev pb pd h_rtag b of None \<Rightarrow> 0 | Some t \<Rightarrow> term_entry cv c (bond_vector pd h_rtag b) t)"

lemma bond_virial_eq: "bond_virial_of f dx = virial_of (f * (1 / 2)) dx"
  by (simp add: bond_virial_of_def virial_of_def Let_def)

lemma add_end_entry:
  assumes "arrays_ok N pitch out" "c < 10" "m < N"
  shows "entry pitch (add_end cv pitch N idx s f dx (e * (1 / 2)) (bond_virial_of f dx) out) c m =
      entry pitch out c m + (if idx = m then (if c < 3 then s else 1) * term_entry cv c dx (f, e) else 0)"
    and "arrays_ok N pitch (add_end cv pitch N idx s f dx (e * (1 / 2)) (bond_virial_of f dx) out)"
proof -
  show "arrays_ok N pitch (add_end cv pitch N idx s f dx (e * (1 / 2)) (bond_virial_of f dx) out)"
    using assms(1) by (simp add: add_end_def Let_def arrays_ok_def)
  have v: "add_virial pitch idx w (h_virial out) ! ((c - 4) * pitch + m) =
      h_virial out ! ((c - 4) * pitch + m) + (if m = idx then w ! (c - 4) else 0)" if "idx < N" for w
    using assms that by (intro nth_add_virial) (auto simp: arrays_ok_def)
  show "entry pitch (add_end cv pitch N idx s f dx (e * (1 / 2)) (bond_virial_of f dx) out) c m =
      entry pitch out c m + (if idx = m then (if c < 3 then s else 1) * term_entry cv c dx (f, e) else 0)"
  proof (cases "idx < N")
    case True
    then have "idx < length (h_force out)" "m < length (h_force out)" using assms by (auto simp: arrays_ok_def)
    then show ?thesis using True v
      by (cases "idx = m") (auto simp: add_end_def Let_def entry_def term_entry_def bond_virial_eq nth_list_update_in)
  qed (use assms in \<open>auto simp: add_end_def\<close>)
qed

lemma bond_step_eq:
  "tags_ok mt b \<Longrightarrow> bond_step ev pb pd mt h_rtag cv pitch b out =
     (if h_rtag (fst (fst b)) < getN pd + getNGhosts pd \<and> h_rtag (snd (fst b)) < getN pd + getNGhosts pd then
        case bond_term ev pb pd h_rtag b of None \<Rightarrow> Inl Runtime_error
        | Some (f, e) \<Rightarrow> let dx = bond_vector pd h_rtag b
            in Inr (add_end cv pitch (getN pd) (h_rtag (fst (fst b))) (- 1) f dx (e * (1 / 2)) (bond_virial_of f dx)
                 (add_end cv pitch (getN pd) (h_rtag (snd (fst b))) 1 f dx (e * (1 / 2)) (bond_virial_of f dx) out))
      else Inl Runtime_error)"
  by (cases b) (auto simp: bond_step_def tags_ok_def bond_term_def bond_vector_def Let_def check_def less_Suc_eq_le split: prod.split option.split)

lemma bond_step_entry:
  assumes "arrays_ok (getN pd) pitch out" "tags_ok mt b" "bond_ok ev pb pd h_rtag b"
  obtains out' where "bond_step ev pb pd mt h_rtag cv pitch b out = Inr out'" "arrays_ok (getN pd) pitch out'"
    "\<And>c m. c < 10 \<Longrightarrow> m < getN pd \<Longrightarrow> entry pitch out' c m = entry pitch out c m
       + (if h_rtag (snd (fst b)) = m then bond_entry ev pb pd h_rtag cv c b else 0)
       + reaction c * (if h_rtag (fst (fst b)) = m then bond_entry ev pb pd h_rtag cv c b else 0)"
proof -
  obtain f e where t: "bond_term ev pb pd h_rtag b = Some (f, e)" using assms(3) by (auto simp: bond_ok_def)
  let ?dx = "bond_vector pd h_rtag b" and ?b = "h_rtag (snd (fst b))" and ?a = "h_rtag (fst (fst b))"
  define out1 where "out1 = add_end cv pitch (getN pd) ?b 1 f ?dx (e * (1 / 2)) (bond_virial_of f ?dx) out"
  define out2 where "out2 = add_end cv pitch (getN pd) ?a (- 1) f ?dx (e * (1 / 2)) (bond_virial_of f ?dx) out1"
  have "bond_step ev pb pd mt h_rtag cv pitch b out = Inr out2"
    using assms(3) t by (simp add: bond_step_eq [OF assms(2)] bond_ok_def out1_def out2_def Let_def)
  moreover have ok1: "arrays_ok (getN pd) pitch out1" using assms(1) by (simp add: out1_def add_end_def Let_def arrays_ok_def)
  moreover have "arrays_ok (getN pd) pitch out2" using ok1 by (simp add: out2_def add_end_def Let_def arrays_ok_def)
  moreover have "entry pitch out2 c m = entry pitch out c m
       + (if h_rtag (snd (fst b)) = m then bond_entry ev pb pd h_rtag cv c b else 0)
       + reaction c * (if h_rtag (fst (fst b)) = m then bond_entry ev pb pd h_rtag cv c b else 0)" if "c < 10" "m < getN pd" for c m
    using add_end_entry(1) [OF assms(1) that, of cv ?b 1 f ?dx e, folded out1_def]
      add_end_entry(1) [OF ok1 that, of cv ?a "- 1" f ?dx e, folded out2_def] t
    by (simp add: bond_entry_def reaction_def)
  ultimately show thesis using that by blast
qed

lemma bond_loop_sums:
  assumes "\<forall>b \<in> set bs. tags_ok mt b \<and> bond_ok ev pb pd h_rtag b" "arrays_ok (getN pd) pitch out"
  shows "\<exists>out'. bond_loop ev pb pd mt h_rtag cv pitch bs out = Inr out'
    \<and> (\<forall>c < 10. \<forall>m < getN pd. entry pitch out' c m = entry pitch out c m
         + (\<Sum>b\<leftarrow>bs. if h_rtag (snd (fst b)) = m then bond_entry ev pb pd h_rtag cv c b else 0)
         + reaction c * (\<Sum>b\<leftarrow>bs. if h_rtag (fst (fst b)) = m then bond_entry ev pb pd h_rtag cv c b else 0))"
  using assms
proof (induction bs arbitrary: out)
  case (Cons b bs)
  obtain out1 where s: "bond_step ev pb pd mt h_rtag cv pitch b out = Inr out1" "arrays_ok (getN pd) pitch out1"
    and e: "\<And>c m. c < 10 \<Longrightarrow> m < getN pd \<Longrightarrow> entry pitch out1 c m = entry pitch out c m
       + (if h_rtag (snd (fst b)) = m then bond_entry ev pb pd h_rtag cv c b else 0)
       + reaction c * (if h_rtag (fst (fst b)) = m then bond_entry ev pb pd h_rtag cv c b else 0)"
    using bond_step_entry [OF Cons.prems(2), of mt b ev pb h_rtag cv] Cons.prems(1) by (metis list.set_intros(1))
  have "\<forall>b \<in> set bs. tags_ok mt b \<and> bond_ok ev pb pd h_rtag b" using Cons.prems(1) by simp
  from Cons.IH [OF this s(2)] obtain out' where "bond_loop ev pb pd mt h_rtag cv pitch bs out1 = Inr out'"
    "\<forall>c < 10. \<forall>m < getN pd. entry pitch out' c m = entry pitch out1 c m
         + (\<Sum>b\<leftarrow>bs. if h_rtag (snd (fst b)) = m then bond_entry ev pb pd h_rtag cv c b else 0)
         + reaction c * (\<Sum>b\<leftarrow>bs. if h_rtag (fst (fst b)) = m then bond_entry ev pb pd h_rtag cv c b else 0)" by blast
  then show ?case using s(1) e by (intro exI [of _ out']) (simp add: distrib_left)
qed simp

lemma bond_loop_fails:
  assumes "\<forall>b \<in> set bs. tags_ok mt b" "\<exists>b \<in> set bs. \<not> bond_ok ev pb pd h_rtag b"
  shows "bond_loop ev pb pd mt h_rtag cv pitch bs out = Inl Runtime_error"
  using assms
proof (induction bs arbitrary: out)
  case (Cons b bs)
  have tags: "tags_ok mt b" using Cons.prems(1) by simp
  show ?case
  proof (cases "bond_ok ev pb pd h_rtag b")
    case True
    then obtain out1 where "bond_step ev pb pd mt h_rtag cv pitch b out = Inr out1"
      by (auto simp: bond_step_eq [OF tags] bond_ok_def Let_def)
    then show ?thesis using Cons True by simp
  next
    case False
    then have "bond_step ev pb pd mt h_rtag cv pitch b out = Inl Runtime_error" by (auto simp: bond_step_eq [OF tags] bond_ok_def split: option.split)
    then show ?thesis by simp
  qed
qed simp

text \<open>C16: the bond loop. If every bond has its members present and is within bounds, each local particle gets the
  sum of the forces of its bonds, half of their energies and virials, and without ghosts the forces add up
  to zero and the energies to the bond energies; a bond with a missing member or out of bounds makes the
  call fail.\<close>

theorem bond_forces_sums:
  assumes "\<forall>b \<in> set bs. tags_ok mt b" "getN pd \<le> num_force" "getN pd \<le> pitch" "6 * pitch \<le> num_virial"
  shows "if \<forall>b \<in> set bs. bond_ok ev pb pd h_rtag b then
      \<exists>out. bond_computeForces ev pb pd mt h_rtag cv pitch num_force num_virial bs = Inr out
        \<and> (\<forall>c < 10. \<forall>m < getN pd. entry pitch out c m =
             (\<Sum>b\<leftarrow>bs. if h_rtag (snd (fst b)) = m then bond_entry ev pb pd h_rtag cv c b else 0)
             + reaction c * (\<Sum>b\<leftarrow>bs. if h_rtag (fst (fst b)) = m then bond_entry ev pb pd h_rtag cv c b else 0))
        \<and> (getNGhosts pd = 0 \<longrightarrow> (\<forall>c < 3. (\<Sum>m<getN pd. entry pitch out c m) = 0)
             \<and> (\<Sum>m<getN pd. entry pitch out 3 m) = (\<Sum>b\<leftarrow>bs. snd (the (bond_term ev pb pd h_rtag b))))
    else bond_computeForces ev pb pd mt h_rtag cv pitch num_force num_virial bs = Inl Runtime_error"
proof (cases "\<forall>b \<in> set bs. bond_ok ev pb pd h_rtag b")
  case True
  let ?zero = "\<lparr>h_force = replicate num_force (Scalar4 0 0 0 0), h_virial = replicate num_virial 0\<rparr>"
  have zero: "entry pitch ?zero c m = 0" if "c < 10" "m < getN pd" for c m
    using row_less [of m pitch "c - 4" 6 num_virial] that assms by (auto simp: entry_def)
  have "arrays_ok (getN pd) pitch ?zero" "\<forall>b \<in> set bs. tags_ok mt b \<and> bond_ok ev pb pd h_rtag b" using assms True by (simp_all add: arrays_ok_def)
  from bond_loop_sums [OF this(2,1), of cv] zero obtain out where
    out: "bond_computeForces ev pb pd mt h_rtag cv pitch num_force num_virial bs = Inr out" and
    e: "\<forall>c < 10. \<forall>m < getN pd. entry pitch out c m =
             (\<Sum>b\<leftarrow>bs. if h_rtag (snd (fst b)) = m then bond_entry ev pb pd h_rtag cv c b else 0)
             + reaction c * (\<Sum>b\<leftarrow>bs. if h_rtag (fst (fst b)) = m then bond_entry ev pb pd h_rtag cv c b else 0)"
    by (auto simp: bond_computeForces_def)
  have total: "(\<Sum>m<getN pd. entry pitch out c m) = (1 + reaction c) * (\<Sum>b\<leftarrow>bs. bond_entry ev pb pd h_rtag cv c b)"
    if "getNGhosts pd = 0" "c < 10" for c
  proof -
    have sum: "(\<Sum>m<getN pd. \<Sum>b\<leftarrow>bs. if g b = m then bond_entry ev pb pd h_rtag cv c b else 0) = (\<Sum>b\<leftarrow>bs. bond_entry ev pb pd h_rtag cv c b)"
      if "\<forall>b \<in> set bs. g b < getN pd" for g using that by (induction bs) (simp_all add: sum.distrib)
    have "\<forall>b \<in> set bs. h_rtag (snd (fst b)) < getN pd" "\<forall>b \<in> set bs. h_rtag (fst (fst b)) < getN pd"
      using True \<open>getNGhosts pd = 0\<close> by (simp_all add: bond_ok_def)
    then show ?thesis using e \<open>c < 10\<close> by (simp add: sum.distrib sum distrib_right flip: sum_distrib_left)
  qed
  have eng: "2 * (\<Sum>b\<leftarrow>bs. bond_entry ev pb pd h_rtag cv 3 b) = (\<Sum>b\<leftarrow>bs. snd (the (bond_term ev pb pd h_rtag b)))"
    using True by (induction bs) (auto simp: bond_ok_def bond_entry_def term_entry_def distrib_left split: option.splits)
  have "(\<forall>c < 3. (\<Sum>m<getN pd. entry pitch out c m) = 0)
      \<and> (\<Sum>m<getN pd. entry pitch out 3 m) = (\<Sum>b\<leftarrow>bs. snd (the (bond_term ev pb pd h_rtag b)))" if "getNGhosts pd = 0"
    using total [OF that] eng by (simp add: reaction_def)
  then show ?thesis using True out e by simp
next
  case False
  then show ?thesis using bond_loop_fails [OF assms(1), of ev pb pd h_rtag] by (auto simp: bond_computeForces_def)
qed

theorem bond_forces_sums_witness:
  "\<exists>out. bond_computeForces Harmonic \<lparr>b_params = [(1, 1)], b_log_name = []\<rparr> two_particles 1 id True 2 2 12 [((0, 1), 0)] = Inr out
    \<and> (\<Sum>m<getN two_particles. entry 2 out 0 m) = 0"
proof -
  have "\<forall>b \<in> set [((0, 1), 0)]. tags_ok 1 b" by (simp add: tags_ok_def)
  moreover have "bond_ok Harmonic \<lparr>b_params = [(1, 1)], b_log_name = []\<rparr> two_particles id ((0, 1), 0)"
    by (simp add: bond_ok_def bond_term_def bond_evaluate_def Harmonic_def EvaluatorBondHarmonic_eval_def two_particles_def Let_def)
  ultimately show ?thesis
    using bond_forces_sums [of "[((0, 1), 0)]" 1 two_particles 2 2 12 Harmonic "\<lparr>b_params = [(1, 1)], b_log_name = []\<rparr>" id True]
    by (auto simp: two_particles_def)
qed

end
