(* ===== verification/Particle_Data.thy ===== *)
theory Particle_Data
  imports Box_Dim GPU_Vector
begin

text \<open>
  The particle data of a simulation, \<open>data_structures/ParticleData.h\<close> and \<open>ParticleData.cc\<close>, on one
  processor (no domain decomposition): the per-particle arrays with their stand-by copies, the tags
  and the reverse lookup from tags to indices, recycling of tags, ghosts, snapshots, types, and the
  accessors by tag.

  An array is modelled by its contents, which \<^verbatim>\<open>GPU_Array\<close> shows to be one list whichever side is
  accessed. An element of \<open>m_pos\<close> holds the position and, reinterpreted as a scalar, the type; the
  model makes it a pair. \<open>std::set\<close> is the ascending list of its elements, \<open>std::stack\<close> a list with
  the top first. Counts, indices and tags are natural numbers; where a sum or product of the code can
  exceed \<open>unsigned int\<close> the definitions reduce it, and the theorems bound the rest. The build modelled is
  the one without MPI, in double precision.
\<close>

section \<open>State\<close>

definition NOT_LOCAL :: nat where
  "NOT_LOCAL = 0xffffffff"

definition NO_BODY :: nat where
  "NO_BODY = 0xffffffff"

definition UINT_MAX :: nat where
  "UINT_MAX = 0xffffffff"

type_synonym postype = "Scalar3 \<times> uint"

record ParticleArrays =
  m_pos :: "postype list"
  m_vel :: "Scalar4 list"
  m_accel :: "Scalar3 list"
  m_charge :: "Scalar list"
  m_diameter :: "Scalar list"
  m_image :: "int3 list"
  m_tag :: "nat list"
  m_body :: "nat list"
  m_orientation :: "Scalar4 list"
  m_angmom :: "Scalar4 list"
  m_inertia :: "Scalar3 list"
  m_net_force :: "Scalar4 list"
  m_net_virial :: "Scalar list list"
  m_net_torque :: "Scalar4 list"

text \<open>The signals, as the events that subscribers see, with what they may read at that moment.\<close>

datatype signal = Sort | Box_change | Max_particle_num nat | Ghost_particles_removed nat
  | Global_particle_num nat | Num_types nat

record ParticleData =
  m_box :: BoxDim
  m_global_box :: BoxDim
  m_type_mapping :: "string list"
  m_nparticles :: nat
  m_nghosts :: nat
  m_max_nparticles :: nat
  m_nglobal :: nat
  m_arrays :: ParticleArrays
  m_alt :: ParticleArrays
  m_rtag :: "nat list"
  m_rtag_size :: nat
  m_recycled_tags :: "nat list"
  m_tag_set :: "nat list"
  m_cached_tag_set :: "nat list"
  m_invalid_cached_tags :: bool
  m_external_virial :: "Scalar list"
  m_flags :: uint
  m_origin :: Scalar3
  m_o_image :: int3
  m_signals :: "signal list"

definition emit :: "signal \<Rightarrow> ParticleData \<Rightarrow> ParticleData" where
  "emit s pd = pd\<lparr>m_signals := m_signals pd @ [s]\<rparr>"

text \<open>\<open>std::set::insert\<close> and \<open>erase\<close> on ascending lists.\<close>

definition set_insert :: "nat \<Rightarrow> nat list \<Rightarrow> nat list" where
  "set_insert x xs = (if x \<in> set xs then xs else insort x xs)"

definition set_erase :: "nat \<Rightarrow> nat list \<Rightarrow> nat list" where
  "set_erase x xs = filter (\<lambda>y. y \<noteq> x) xs"

section \<open>Snapshots\<close>

record SnapshotParticleData =
  s_pos :: "vec3 list"
  s_vel :: "vec3 list"
  s_accel :: "vec3 list"
  s_type :: "uint list"
  s_mass :: "Scalar list"
  s_charge :: "Scalar list"
  s_diameter :: "Scalar list"
  s_image :: "int3 list"
  s_body :: "nat list"
  s_orientation :: "quat list"
  s_angmom :: "quat list"
  s_inertia :: "vec3 list"
  s_size :: nat
  s_type_mapping :: "string list"

text \<open>\<open>std::vector::resize(n, v)\<close>, and \<open>GPUArray::resize(n)\<close> with \<open>v\<close> the cleared element.\<close>

definition array_resize :: "'a \<Rightarrow> nat \<Rightarrow> 'a list \<Rightarrow> 'a list" where
  "array_resize v n xs = take n xs @ replicate (n - length xs) v"

definition snapshot_resize :: "nat \<Rightarrow> SnapshotParticleData \<Rightarrow> SnapshotParticleData" where
  "snapshot_resize N s = s\<lparr>
     s_pos := array_resize (Vec3 0 0 0) N (s_pos s),
     s_vel := array_resize (Vec3 0 0 0) N (s_vel s),
     s_accel := array_resize (Vec3 0 0 0) N (s_accel s),
     s_type := array_resize 0 N (s_type s),
     s_mass := array_resize 1 N (s_mass s),
     s_charge := array_resize 0 N (s_charge s),
     s_diameter := array_resize 1 N (s_diameter s),
     s_image := array_resize (Tri 0 0 0) N (s_image s),
     s_body := array_resize NO_BODY N (s_body s),
     s_orientation := array_resize (Quat 1 (Vec3 0 0 0)) N (s_orientation s),
     s_angmom := array_resize (Quat 0 (Vec3 0 0 0)) N (s_angmom s),
     s_inertia := array_resize (Vec3 0 0 0) N (s_inertia s),
     s_size := N\<rparr>"

definition snapshot_empty :: SnapshotParticleData where
  "snapshot_empty = \<lparr>s_pos = [], s_vel = [], s_accel = [], s_type = [], s_mass = [], s_charge = [], s_diameter = [],
     s_image = [], s_body = [], s_orientation = [], s_angmom = [], s_inertia = [], s_size = 0, s_type_mapping = []\<rparr>"

definition snapshot_new :: "nat \<Rightarrow> SnapshotParticleData" where
  "snapshot_new N = snapshot_resize N (snapshot_empty\<lparr>s_size := N\<rparr>)"

definition validate :: "SnapshotParticleData \<Rightarrow> bool" where
  "validate s \<longleftrightarrow> s_type_mapping s \<noteq> []
     \<and> length (s_pos s) = s_size s \<and> length (s_vel s) = s_size s \<and> length (s_accel s) = s_size s
     \<and> length (s_type s) = s_size s \<and> length (s_mass s) = s_size s \<and> length (s_charge s) = s_size s
     \<and> length (s_diameter s) = s_size s \<and> length (s_image s) = s_size s \<and> length (s_body s) = s_size s
     \<and> length (s_orientation s) = s_size s \<and> length (s_angmom s) = s_size s \<and> length (s_inertia s) = s_size s"

section \<open>Allocation\<close>

text \<open>\<open>m_net_virial\<close> has six rows of \<open>N\<close> elements in one allocation of \<open>E\<close> elements, a pitch apart. \<open>E\<close> is
  computed in \<open>unsigned int\<close>, in elements by the constructor of \<open>GPUArray\<close> and in bytes by its
  \<open>resize\<close>, so it can be too small: a row holds the elements that lie inside the allocation.\<close>

definition virial_room :: "nat \<Rightarrow> nat \<Rightarrow> nat \<Rightarrow> nat" where
  "virial_room N E r = min N (E - r * padded_pitch N)"

text \<open>Freshly allocated and cleared arrays.\<close>

definition arrays_new :: "nat \<Rightarrow> ParticleArrays" where
  "arrays_new N = \<lparr>
     m_pos = replicate N (Vec3 0 0 0, 0),
     m_vel = replicate N (Scalar4 0 0 0 0),
     m_accel = replicate N (Vec3 0 0 0),
     m_charge = replicate N 0,
     m_diameter = replicate N 0,
     m_image = replicate N (Tri 0 0 0),
     m_tag = replicate N 0,
     m_body = replicate N 0,
     m_orientation = replicate N (Scalar4 0 0 0 0),
     m_angmom = replicate N (Scalar4 0 0 0 0),
     m_inertia = replicate N (Vec3 0 0 0),
     m_net_force = replicate N (Scalar4 0 0 0 0),
     m_net_virial = map (\<lambda>r. replicate (virial_room N ((padded_pitch N * 6) mod 2 ^ 32) r) 0) [0..<6],
     m_net_torque = replicate N (Scalar4 0 0 0 0)\<rparr>"

definition arrays_resize :: "nat \<Rightarrow> ParticleArrays \<Rightarrow> ParticleArrays" where
  "arrays_resize n a = \<lparr>
     m_pos = array_resize (Vec3 0 0 0, 0) n (m_pos a),
     m_vel = array_resize (Scalar4 0 0 0 0) n (m_vel a),
     m_accel = array_resize (Vec3 0 0 0) n (m_accel a),
     m_charge = array_resize 0 n (m_charge a),
     m_diameter = array_resize 0 n (m_diameter a),
     m_image = array_resize (Tri 0 0 0) n (m_image a),
     m_tag = array_resize 0 n (m_tag a),
     m_body = array_resize 0 n (m_body a),
     m_orientation = array_resize (Scalar4 0 0 0 0) n (m_orientation a),
     m_angmom = array_resize (Scalar4 0 0 0 0) n (m_angmom a),
     m_inertia = array_resize (Vec3 0 0 0) n (m_inertia a),
     m_net_force = array_resize (Scalar4 0 0 0 0) n (m_net_force a),
     m_net_virial = (let E = ((padded_pitch n * 6 * sizeof_Scalar) mod 2 ^ 32) div sizeof_Scalar
       in map (\<lambda>r. array_resize 0 (virial_room n E r) (m_net_virial a ! r)) [0..<6]),
     m_net_torque = array_resize (Scalar4 0 0 0 0) n (m_net_torque a)\<rparr>"

definition allocateAlternateArrays :: "nat \<Rightarrow> ParticleData \<Rightarrow> ParticleData result" where
  "allocateAlternateArrays N pd = bindr (check (N > 0) Assertion_failed) (\<lambda>_. Inr (pd\<lparr>m_alt := arrays_new N\<rparr>))"

definition allocate_pdata :: "nat \<Rightarrow> ParticleData \<Rightarrow> ParticleData result" where
  "allocate_pdata N pd =
     (if N = 0 then Inl Runtime_error
      else bindr (allocateAlternateArrays N (pd\<lparr>m_max_nparticles := N, m_arrays := arrays_new N\<rparr>)) (\<lambda>pd.
        Inr (emit (Max_particle_num (m_max_nparticles pd)) pd)))"

text \<open>The stand-by arrays are resized when they exist; after \<open>allocate\<close> they do.\<close>

definition reallocate_pdata :: "nat \<Rightarrow> ParticleData \<Rightarrow> ParticleData" where
  "reallocate_pdata max_n pd =
     (let pd = pd\<lparr>m_max_nparticles := max_n, m_arrays := arrays_resize max_n (m_arrays pd)\<rparr>;
          pd = (if m_pos (m_alt pd) \<noteq> [] then pd\<lparr>m_alt := arrays_resize max_n (m_alt pd)\<rparr> else pd)
      in emit (Max_particle_num (m_max_nparticles pd)) pd)"

text \<open>The growth loop is that of the growing vector: \<open>m_resize_factor\<close> is 9/8.\<close>

definition resize_pdata :: "nat \<Rightarrow> ParticleData \<Rightarrow> ParticleData" where
  "resize_pdata new_nparticles pd =
     (let max_nparticles = m_max_nparticles pd;
          pd = (if new_nparticles > max_nparticles
                then reallocate_pdata (grow_until new_nparticles max_nparticles) pd else pd)
      in pd\<lparr>m_nparticles := new_nparticles\<rparr>)"

text \<open>\<open>GPUVector::resize\<close> of the reverse lookup: the allocation grows but never shrinks.\<close>

definition rtag_resize :: "nat \<Rightarrow> ParticleData \<Rightarrow> ParticleData" where
  "rtag_resize n pd =
     (let k = (if n > 0 then n else 1); c = length (m_rtag pd);
          mem = (if k > c then array_resize 0 (grow_until k (if c \<noteq> 0 then c else 1)) (m_rtag pd) else m_rtag pd)
      in pd\<lparr>m_rtag := mem, m_rtag_size := n\<rparr>)"

section \<open>Small operations\<close>

definition getNTypes :: "ParticleData \<Rightarrow> nat" where
  "getNTypes pd = length (m_type_mapping pd)"

fun find_type :: "nat \<Rightarrow> string list \<Rightarrow> string \<Rightarrow> nat result" where
  "find_type i [] name = Inl Runtime_error"
| "find_type i (t # ts) name = (if t = name then Inr i else find_type (i + 1) ts name)"

definition getTypeByName :: "string \<Rightarrow> ParticleData \<Rightarrow> nat result" where
  "getTypeByName name pd = find_type 0 (m_type_mapping pd) name"

definition getNameByType :: "nat \<Rightarrow> ParticleData \<Rightarrow> string result" where
  "getNameByType typ pd = (if typ \<ge> getNTypes pd then Inl Runtime_error else Inr (m_type_mapping pd ! typ))"

definition setTypeName :: "nat \<Rightarrow> string \<Rightarrow> ParticleData \<Rightarrow> ParticleData result" where
  "setTypeName typ name pd =
     (if typ \<ge> getNTypes pd then Inl Runtime_error
      else Inr (pd\<lparr>m_type_mapping := (m_type_mapping pd)[typ := name]\<rparr>))"

definition addType :: "string \<Rightarrow> ParticleData \<Rightarrow> nat \<times> ParticleData" where
  "addType type_name pd =
     (let pd = pd\<lparr>m_type_mapping := m_type_mapping pd @ [type_name]\<rparr>
      in (length (m_type_mapping pd) - 1, emit (Num_types (length (m_type_mapping pd))) pd))"

definition setGlobalBox :: "BoxDim \<Rightarrow> ParticleData \<Rightarrow> ParticleData result" where
  "setGlobalBox b pd =
     bindr (check (tx (m_periodic b)) Assertion_failed) (\<lambda>_.
      bindr (check (ty (m_periodic b)) Assertion_failed) (\<lambda>_.
       bindr (check (tz (m_periodic b)) Assertion_failed) (\<lambda>_.
         Inr (emit Box_change (pd\<lparr>m_global_box := b, m_box := b\<rparr>)))))"

definition setNGlobal :: "nat \<Rightarrow> ParticleData \<Rightarrow> ParticleData result" where
  "setNGlobal nglobal pd =
     bindr (check (m_nparticles pd \<le> nglobal) Assertion_failed) (\<lambda>_.
       Inr (emit (Global_particle_num nglobal) (pd\<lparr>m_nglobal := nglobal\<rparr>)))"

definition notifyParticleSort :: "ParticleData \<Rightarrow> ParticleData" where
  "notifyParticleSort pd = emit Sort pd"

definition removeAllGhostParticles :: "ParticleData \<Rightarrow> ParticleData" where
  "removeAllGhostParticles pd = (emit (Ghost_particles_removed (m_nghosts pd)) pd)\<lparr>m_nghosts := 0\<rparr>"

definition addGhostParticles :: "nat \<Rightarrow> ParticleData \<Rightarrow> ParticleData" where
  "addGhostParticles nghosts pd =
     (let max_nparticles = m_max_nparticles pd; pd = pd\<lparr>m_nghosts := (m_nghosts pd + nghosts) mod 2 ^ 32\<rparr>;
          needed = (m_nparticles pd + m_nghosts pd) mod 2 ^ 32
      in if needed > max_nparticles then reallocate_pdata (grow_until needed max_nparticles) pd else pd)"

definition isTagActive :: "nat \<Rightarrow> ParticleData \<Rightarrow> bool" where
  "isTagActive tag pd \<longleftrightarrow> tag \<in> set (m_tag_set pd)"

definition getMaximumTag :: "ParticleData \<Rightarrow> nat" where
  "getMaximumTag pd = (if m_tag_set pd = [] then UINT_MAX else last (m_tag_set pd))"

definition isParticleLocal :: "nat \<Rightarrow> ParticleData \<Rightarrow> bool result" where
  "isParticleLocal tag pd =
     bindr (check (tag < m_rtag_size pd) Assertion_failed) (\<lambda>_. Inr (m_rtag pd ! tag < m_nparticles pd))"

text \<open>\<open>getRTag\<close> in a build with or without MPI; with MPI it asserts, on one processor, that the particle is
  there. The build modelled is the one without.\<close>

definition getRTag_in :: "bool \<Rightarrow> nat \<Rightarrow> ParticleData \<Rightarrow> nat result" where
  "getRTag_in enable_mpi tag pd =
     bindr (check (tag < m_rtag_size pd) Assertion_failed) (\<lambda>_.
      let idx = m_rtag pd ! tag
      in bindr (check (enable_mpi \<longrightarrow> idx < m_nparticles pd) Assertion_failed) (\<lambda>_.
         bindr (check (idx < (m_nparticles pd + m_nghosts pd) mod 2 ^ 32 \<or> idx = NOT_LOCAL) Assertion_failed) (\<lambda>_. Inr idx)))"

definition ENABLE_MPI :: bool where
  "ENABLE_MPI = False"

definition getRTag :: "nat \<Rightarrow> ParticleData \<Rightarrow> nat result" where
  "getRTag = getRTag_in ENABLE_MPI"

definition getMaxDiameter :: "ParticleData \<Rightarrow> Scalar" where
  "getMaxDiameter pd =
     foldl (\<lambda>maxdiam i. if m_diameter (m_arrays pd) ! i > maxdiam then m_diameter (m_arrays pd) ! i else maxdiam)
       0 [0..<m_nparticles pd]"

definition maybe_rebuild_tag_cache :: "ParticleData \<Rightarrow> ParticleData" where
  "maybe_rebuild_tag_cache pd =
     (if \<not> m_invalid_cached_tags pd then pd
      else pd\<lparr>m_cached_tag_set := m_tag_set pd, m_invalid_cached_tags := False\<rparr>)"

definition getNthTag :: "nat \<Rightarrow> ParticleData \<Rightarrow> (nat \<times> ParticleData) result" where
  "getNthTag n pd =
     (if n \<ge> m_nglobal pd then Inl Runtime_error
      else bindr (check (length (m_tag_set pd) = m_nglobal pd) Assertion_failed) (\<lambda>_.
        let pd = maybe_rebuild_tag_cache pd in Inr (m_cached_tag_set pd ! n, pd)))"

definition translateOrigin :: "Scalar3 \<Rightarrow> ParticleData \<Rightarrow> ParticleData" where
  "translateOrigin a pd =
     (let (orig, o_image) = wrap (m_global_box pd) (m_origin pd + a) (m_o_image pd) no_flags
      in pd\<lparr>m_origin := orig, m_o_image := o_image\<rparr>)"

definition resetOrigin :: "ParticleData \<Rightarrow> ParticleData" where
  "resetOrigin pd = pd\<lparr>m_origin := Vec3 0 0 0, m_o_image := Tri 0 0 0\<rparr>"

definition setExternalVirial :: "nat \<Rightarrow> Scalar \<Rightarrow> ParticleData \<Rightarrow> ParticleData result" where
  "setExternalVirial i v pd =
     bindr (check (i < 6) Assertion_failed) (\<lambda>_. Inr (pd\<lparr>m_external_virial := (m_external_virial pd)[i := v]\<rparr>))"

definition getExternalVirial :: "nat \<Rightarrow> ParticleData \<Rightarrow> Scalar result" where
  "getExternalVirial i pd = bindr (check (i < 6) Assertion_failed) (\<lambda>_. Inr (m_external_virial pd ! i))"

definition removeFlag :: "nat \<Rightarrow> ParticleData \<Rightarrow> ParticleData" where
  "removeFlag flag pd = pd\<lparr>m_flags := unset_bit flag (m_flags pd)\<rparr>"

section \<open>Initialization and snapshots\<close>

text \<open>\<open>img.x -= m_o_image.x\<close> and so on.\<close>

definition image_sub :: "int3 \<Rightarrow> int3 \<Rightarrow> int3" where
  "image_sub i j = Tri (tx i - tx j) (ty i - ty j) (tz i - tz j)"

definition image_add :: "int3 \<Rightarrow> int3 \<Rightarrow> int3" where
  "image_add i j = Tri (tx i + tx j) (ty i + ty j) (tz i + tz j)"

definition in_tolerance :: "Scalar3 \<Rightarrow> bool" where
  "in_tolerance f =
     (let tol = 1 / 100000 in
      \<not> (vx f < - tol \<or> vx f > 1 + tol \<or> vy f < - tol \<or> vy f > 1 + tol \<or> vz f < - tol \<or> vz f > 1 + tol))"

definition inBox :: "ParticleData \<Rightarrow> SnapshotParticleData \<Rightarrow> bool" where
  "inBox pd snap = list_all (\<lambda>i. in_tolerance (makeFraction (m_global_box pd) (s_pos snap ! i))) [0..<s_size snap]"

text \<open>The loop over the tags writes every element of the arrays \<open>allocate\<close> made.\<close>

definition load_snapshot :: "SnapshotParticleData \<Rightarrow> ParticleArrays \<Rightarrow> ParticleArrays" where
  "load_snapshot s a =
     (let tags = [0..<s_size s] in a\<lparr>
       m_pos := map (\<lambda>tag. (s_pos s ! tag, s_type s ! tag)) tags,
       m_vel := map (\<lambda>tag. Scalar4 (vx (s_vel s ! tag)) (vy (s_vel s ! tag)) (vz (s_vel s ! tag)) (s_mass s ! tag)) tags,
       m_accel := map (\<lambda>tag. vec_to_scalar3 (s_accel s ! tag)) tags,
       m_charge := map (\<lambda>tag. s_charge s ! tag) tags,
       m_diameter := map (\<lambda>tag. s_diameter s ! tag) tags,
       m_image := map (\<lambda>tag. s_image s ! tag) tags,
       m_tag := tags,
       m_body := map (\<lambda>tag. s_body s ! tag) tags,
       m_orientation := map (\<lambda>tag. quat_to_scalar4 (s_orientation s ! tag)) tags,
       m_angmom := map (\<lambda>tag. quat_to_scalar4 (s_angmom s ! tag)) tags,
       m_inertia := map (\<lambda>tag. vec_to_scalar3 (s_inertia s ! tag)) tags\<rparr>)"

definition clear_for_snapshot :: "SnapshotParticleData \<Rightarrow> ParticleData \<Rightarrow> ParticleData result" where
  "clear_for_snapshot s pd =
     (let pd = removeAllGhostParticles pd
      in if \<not> validate s then Inl Runtime_error else Inr (pd\<lparr>m_tag_set := [], m_recycled_tags := []\<rparr>))"

definition initializeFromSnapshot :: "SnapshotParticleData \<Rightarrow> ParticleData \<Rightarrow> ParticleData result" where
  "initializeFromSnapshot s pd =
     bindr (clear_for_snapshot s pd) (\<lambda>pd.
      if s_type_mapping s = [] then Inl Runtime_error
      else
        let pd = pd\<lparr>m_rtag := [0..<s_size s], m_rtag_size := s_size s, m_nparticles := s_size s\<rparr>;
            nglobal = m_nparticles pd;
            pd = pd\<lparr>m_tag_set := foldl (\<lambda>ts tag. set_insert tag ts) (m_tag_set pd) [0..<nglobal],
                    m_invalid_cached_tags := True\<rparr>
        in bindr (allocate_pdata (s_size s) pd) (\<lambda>pd.
          let pd = pd\<lparr>m_arrays := load_snapshot s (m_arrays pd), m_type_mapping := s_type_mapping s\<rparr>
          in bindr (setNGlobal nglobal pd) (\<lambda>pd.
            Inr (emit (Num_types (length (m_type_mapping pd))) (resetOrigin (notifyParticleSort pd))))))"

text \<open>The members before a constructor assigns them.\<close>

definition ParticleData_null :: ParticleData where
  "ParticleData_null = \<lparr>m_box = BoxDim_null, m_global_box = BoxDim_null, m_type_mapping = [], m_nparticles = 0, m_nghosts = 0,
     m_max_nparticles = 0, m_nglobal = 0, m_arrays = arrays_new 0, m_alt = arrays_new 0, m_rtag = [], m_rtag_size = 0,
     m_recycled_tags = [], m_tag_set = [], m_cached_tag_set = [], m_invalid_cached_tags = True,
     m_external_virial = replicate 6 0, m_flags = 0, m_origin = Vec3 0 0 0, m_o_image = Tri 0 0 0, m_signals = []\<rparr>"

definition ParticleData_new :: "nat \<Rightarrow> BoxDim \<Rightarrow> nat \<Rightarrow> ParticleData result" where
  "ParticleData_new N global_box n_types =
     (if n_types = 0 then Inl Runtime_error
      else
        let snap = (snapshot_new N)\<lparr>s_type_mapping := map (\<lambda>i. [char_of (65 + i)]) [0..<n_types]\<rparr>
        in bindr (setGlobalBox global_box ParticleData_null) (\<lambda>pd. initializeFromSnapshot snap pd))"

definition ParticleData_from_snapshot :: "SnapshotParticleData \<Rightarrow> BoxDim \<Rightarrow> ParticleData result" where
  "ParticleData_from_snapshot snapshot global_box =
     (let pd = ParticleData_null\<lparr>m_rtag := replicate (s_size snapshot) 0, m_rtag_size := s_size snapshot\<rparr>
      in bindr (setNGlobal (s_size snapshot) pd) (\<lambda>pd.
        bindr (setGlobalBox global_box pd) (\<lambda>pd.
          if \<not> inBox pd snapshot then Inl Runtime_error else initializeFromSnapshot snapshot pd)))"

text \<open>The position and image of the particle at \<open>idx\<close> as they go into a snapshot.\<close>

definition snapshot_place :: "ParticleData \<Rightarrow> nat \<Rightarrow> Scalar3 \<times> int3" where
  "snapshot_place pd idx =
     wrap (m_global_box pd) (fst (m_pos (m_arrays pd) ! idx) - m_origin pd)
       (image_sub (m_image (m_arrays pd) ! idx) (m_o_image pd)) no_flags"

definition takeSnapshot :: "ParticleData \<Rightarrow> SnapshotParticleData result" where
  "takeSnapshot pd =
     bindr (check (length (m_tag_set pd) = m_nparticles pd) Assertion_failed) (\<lambda>_.
      bindr (check (list_all (\<lambda>tag. tag \<le> getMaximumTag pd \<and> m_rtag pd ! tag < m_nparticles pd) (m_tag_set pd)) Assertion_failed) (\<lambda>_.
       let ids = map (\<lambda>tag. m_rtag pd ! tag) (m_tag_set pd); a = m_arrays pd
       in Inr \<lparr>
         s_pos = map (\<lambda>idx. fst (snapshot_place pd idx)) ids,
         s_vel = map (\<lambda>idx. vec3_of_scalar4 (m_vel a ! idx)) ids,
         s_accel = map (\<lambda>idx. m_accel a ! idx) ids,
         s_type = map (\<lambda>idx. snd (m_pos a ! idx)) ids,
         s_mass = map (\<lambda>idx. sw (m_vel a ! idx)) ids,
         s_charge = map (\<lambda>idx. m_charge a ! idx) ids,
         s_diameter = map (\<lambda>idx. m_diameter a ! idx) ids,
         s_image = map (\<lambda>idx. snd (snapshot_place pd idx)) ids,
         s_body = map (\<lambda>idx. m_body a ! idx) ids,
         s_orientation = map (\<lambda>idx. quat_of_scalar4 (m_orientation a ! idx)) ids,
         s_angmom = map (\<lambda>idx. quat_of_scalar4 (m_angmom a ! idx)) ids,
         s_inertia = map (\<lambda>idx. m_inertia a ! idx) ids,
         s_size = m_nglobal pd, s_type_mapping = m_type_mapping pd\<rparr>))"

section \<open>Access by tag\<close>

text \<open>The getters look the index up and assert that the particle is on this processor; the setters do
  nothing when it is not.\<close>

definition local_get :: "nat \<Rightarrow> (nat \<Rightarrow> 'a) \<Rightarrow> ParticleData \<Rightarrow> 'a result" where
  "local_get tag f pd =
     bindr (getRTag tag pd) (\<lambda>idx. bindr (check (idx < m_nparticles pd) Assertion_failed) (\<lambda>_. Inr (f idx)))"

definition local_set :: "nat \<Rightarrow> (nat \<Rightarrow> ParticleData \<Rightarrow> ParticleData) \<Rightarrow> ParticleData \<Rightarrow> ParticleData result" where
  "local_set tag f pd = bindr (getRTag tag pd) (\<lambda>idx. Inr (if idx < m_nparticles pd then f idx pd else pd))"

definition getPosition :: "nat \<Rightarrow> ParticleData \<Rightarrow> Scalar3 result" where
  "getPosition tag pd =
     local_get tag (\<lambda>idx.
       let res = fst (m_pos (m_arrays pd) ! idx) - m_origin pd;
           img = image_sub (m_image (m_arrays pd) ! idx) (m_o_image pd)
       in fst (wrap (m_global_box pd) res img no_flags)) pd"

definition getVelocity :: "nat \<Rightarrow> ParticleData \<Rightarrow> Scalar3 result" where
  "getVelocity tag pd = local_get tag (\<lambda>idx. let v = m_vel (m_arrays pd) ! idx in make_scalar3 (sx v) (sy v) (sz v)) pd"

definition getAcceleration :: "nat \<Rightarrow> ParticleData \<Rightarrow> Scalar3 result" where
  "getAcceleration tag pd =
     local_get tag (\<lambda>idx. let a = m_accel (m_arrays pd) ! idx in make_scalar3 (vx a) (vy a) (vz a)) pd"

definition getImage_pdata :: "nat \<Rightarrow> ParticleData \<Rightarrow> int3 result" where
  "getImage_pdata tag pd =
     local_get tag (\<lambda>idx.
       let res = m_image (m_arrays pd) ! idx;
           pos = fst (m_pos (m_arrays pd) ! idx) - m_origin pd
       in snd (wrap (m_global_box pd) pos (image_sub res (m_o_image pd)) no_flags)) pd"

definition getCharge :: "nat \<Rightarrow> ParticleData \<Rightarrow> Scalar result" where
  "getCharge tag pd = local_get tag (\<lambda>idx. m_charge (m_arrays pd) ! idx) pd"

definition getMass :: "nat \<Rightarrow> ParticleData \<Rightarrow> Scalar result" where
  "getMass tag pd = local_get tag (\<lambda>idx. sw (m_vel (m_arrays pd) ! idx)) pd"

definition getDiameter :: "nat \<Rightarrow> ParticleData \<Rightarrow> Scalar result" where
  "getDiameter tag pd = local_get tag (\<lambda>idx. m_diameter (m_arrays pd) ! idx) pd"

definition getBody :: "nat \<Rightarrow> ParticleData \<Rightarrow> nat result" where
  "getBody tag pd = local_get tag (\<lambda>idx. m_body (m_arrays pd) ! idx) pd"

definition getType :: "nat \<Rightarrow> ParticleData \<Rightarrow> uint result" where
  "getType tag pd = local_get tag (\<lambda>idx. snd (m_pos (m_arrays pd) ! idx)) pd"

definition getOrientation :: "nat \<Rightarrow> ParticleData \<Rightarrow> Scalar4 result" where
  "getOrientation tag pd = local_get tag (\<lambda>idx. m_orientation (m_arrays pd) ! idx) pd"

definition getAngularMomentum :: "nat \<Rightarrow> ParticleData \<Rightarrow> Scalar4 result" where
  "getAngularMomentum tag pd = local_get tag (\<lambda>idx. m_angmom (m_arrays pd) ! idx) pd"

definition getMomentsOfInertia :: "nat \<Rightarrow> ParticleData \<Rightarrow> Scalar3 result" where
  "getMomentsOfInertia tag pd = local_get tag (\<lambda>idx. m_inertia (m_arrays pd) ! idx) pd"

definition getPNetForce :: "nat \<Rightarrow> ParticleData \<Rightarrow> Scalar4 result" where
  "getPNetForce tag pd = local_get tag (\<lambda>idx. m_net_force (m_arrays pd) ! idx) pd"

definition getNetTorque :: "nat \<Rightarrow> ParticleData \<Rightarrow> Scalar4 result" where
  "getNetTorque tag pd = local_get tag (\<lambda>idx. m_net_torque (m_arrays pd) ! idx) pd"

abbreviation with_arrays :: "(ParticleArrays \<Rightarrow> ParticleArrays) \<Rightarrow> ParticleData \<Rightarrow> ParticleData" where
  "with_arrays f pd \<equiv> pd\<lparr>m_arrays := f (m_arrays pd)\<rparr>"

definition setPosition :: "nat \<Rightarrow> Scalar3 \<Rightarrow> ParticleData \<Rightarrow> ParticleData result" where
  "setPosition tag pos pd =
     (let tmp_pos = pos + m_origin pd
      in local_set tag (\<lambda>idx.
           let (tmp_pos, img) = wrap (m_global_box pd) tmp_pos (m_image (m_arrays pd) ! idx) no_flags
           in with_arrays (\<lambda>a. a\<lparr>m_pos := (m_pos a)[idx := (tmp_pos, snd (m_pos a ! idx))],
                                m_image := (m_image a)[idx := img]\<rparr>)) pd)"

definition setVelocity :: "nat \<Rightarrow> Scalar3 \<Rightarrow> ParticleData \<Rightarrow> ParticleData result" where
  "setVelocity tag v =
     local_set tag (\<lambda>idx. with_arrays (\<lambda>a. a\<lparr>m_vel := (m_vel a)[idx := Scalar4 (vx v) (vy v) (vz v) (sw (m_vel a ! idx))]\<rparr>))"

definition setImage :: "nat \<Rightarrow> int3 \<Rightarrow> ParticleData \<Rightarrow> ParticleData result" where
  "setImage tag img pd =
     local_set tag (\<lambda>idx. with_arrays (\<lambda>a. a\<lparr>m_image := (m_image a)[idx := image_add img (m_o_image pd)]\<rparr>)) pd"

definition setCharge :: "nat \<Rightarrow> Scalar \<Rightarrow> ParticleData \<Rightarrow> ParticleData result" where
  "setCharge tag c = local_set tag (\<lambda>idx. with_arrays (\<lambda>a. a\<lparr>m_charge := (m_charge a)[idx := c]\<rparr>))"

definition setMass :: "nat \<Rightarrow> Scalar \<Rightarrow> ParticleData \<Rightarrow> ParticleData result" where
  "setMass tag m =
     local_set tag (\<lambda>idx. with_arrays (\<lambda>a. a\<lparr>m_vel :=
       (let v = m_vel a ! idx in (m_vel a)[idx := Scalar4 (sx v) (sy v) (sz v) m])\<rparr>))"

definition setDiameter :: "nat \<Rightarrow> Scalar \<Rightarrow> ParticleData \<Rightarrow> ParticleData result" where
  "setDiameter tag d = local_set tag (\<lambda>idx. with_arrays (\<lambda>a. a\<lparr>m_diameter := (m_diameter a)[idx := d]\<rparr>))"

text \<open>The parameter is an \<open>int\<close>, stored as \<open>unsigned int\<close>.\<close>

definition setBody :: "nat \<Rightarrow> int \<Rightarrow> ParticleData \<Rightarrow> ParticleData result" where
  "setBody tag body = local_set tag (\<lambda>idx. with_arrays (\<lambda>a. a\<lparr>m_body := (m_body a)[idx := nat (body mod 2 ^ 32)]\<rparr>))"

definition setType :: "nat \<Rightarrow> uint \<Rightarrow> ParticleData \<Rightarrow> ParticleData result" where
  "setType tag typ pd =
     bindr (check (unat typ < getNTypes pd) Assertion_failed) (\<lambda>_.
       local_set tag (\<lambda>idx pd. notifyParticleSort
         (with_arrays (\<lambda>a. a\<lparr>m_pos := (m_pos a)[idx := (fst (m_pos a ! idx), typ)]\<rparr>) pd)) pd)"

definition setOrientation :: "nat \<Rightarrow> Scalar4 \<Rightarrow> ParticleData \<Rightarrow> ParticleData result" where
  "setOrientation tag q = local_set tag (\<lambda>idx. with_arrays (\<lambda>a. a\<lparr>m_orientation := (m_orientation a)[idx := q]\<rparr>))"

definition setAngularMomentum :: "nat \<Rightarrow> Scalar4 \<Rightarrow> ParticleData \<Rightarrow> ParticleData result" where
  "setAngularMomentum tag q = local_set tag (\<lambda>idx. with_arrays (\<lambda>a. a\<lparr>m_angmom := (m_angmom a)[idx := q]\<rparr>))"

definition setMomentsOfInertia :: "nat \<Rightarrow> Scalar3 \<Rightarrow> ParticleData \<Rightarrow> ParticleData result" where
  "setMomentsOfInertia tag v = local_set tag (\<lambda>idx. with_arrays (\<lambda>a. a\<lparr>m_inertia := (m_inertia a)[idx := v]\<rparr>))"

section \<open>Adding and removing particles\<close>

text \<open>The assertion \<open>h_rtag.data[tag] = NOT_LOCAL\<close> of \<open>addParticle\<close> is an assignment and always holds; its
  effect is overwritten at once. The arrays of angular momenta, moments of inertia and net forces are
  not written.\<close>

definition init_particle :: "nat \<Rightarrow> uint \<Rightarrow> nat \<Rightarrow> ParticleArrays \<Rightarrow> ParticleArrays" where
  "init_particle idx typ tag a = a\<lparr>
     m_pos := (m_pos a)[idx := (Vec3 0 0 0, typ)],
     m_vel := (m_vel a)[idx := Scalar4 0 0 0 1],
     m_accel := (m_accel a)[idx := Vec3 0 0 0],
     m_charge := (m_charge a)[idx := 0],
     m_diameter := (m_diameter a)[idx := 0],
     m_image := (m_image a)[idx := Tri 0 0 0],
     m_body := (m_body a)[idx := NO_BODY],
     m_orientation := (m_orientation a)[idx := Scalar4 1 0 0 0],
     m_tag := (m_tag a)[idx := tag]\<rparr>"

definition next_tag :: "ParticleData \<Rightarrow> (nat \<times> ParticleData) result" where
  "next_tag pd =
     (case m_recycled_tags pd of
        tag # rest \<Rightarrow> Inr (tag, pd\<lparr>m_recycled_tags := rest\<rparr>)
      | [] \<Rightarrow> bindr (check (m_rtag_size pd = m_nglobal pd) Assertion_failed) (\<lambda>_. Inr (m_nglobal pd, pd)))"

definition addParticle :: "uint \<Rightarrow> ParticleData \<Rightarrow> (nat \<times> ParticleData) result" where
  "addParticle typ pd =
     bindr (next_tag (removeAllGhostParticles pd)) (\<lambda>(tag, pd).
      let pd = pd\<lparr>m_tag_set := set_insert tag (m_tag_set pd), m_invalid_cached_tags := True\<rparr>;
          pd = rtag_resize ((getMaximumTag pd + 1) mod 2 ^ 32) pd;
          pd = pd\<lparr>m_rtag := (m_rtag pd)[tag := m_nparticles pd]\<rparr>
      in bindr (check (tag \<le> length (m_recycled_tags pd) + m_nglobal pd) Assertion_failed) (\<lambda>_.
        let old_nparticles = m_nparticles pd;
            pd = resize_pdata (old_nparticles + 1) pd;
            pd = with_arrays (init_particle old_nparticles typ tag) pd
        in bindr (setNGlobal (m_nglobal pd + 1) pd) (\<lambda>pd. Inr (tag, notifyParticleSort pd))))"

definition move_particle :: "nat \<Rightarrow> nat \<Rightarrow> ParticleArrays \<Rightarrow> ParticleArrays" where
  "move_particle idx j a = a\<lparr>
     m_pos := (m_pos a)[idx := m_pos a ! j],
     m_vel := (m_vel a)[idx := m_vel a ! j],
     m_accel := (m_accel a)[idx := m_accel a ! j],
     m_charge := (m_charge a)[idx := m_charge a ! j],
     m_diameter := (m_diameter a)[idx := m_diameter a ! j],
     m_image := (m_image a)[idx := m_image a ! j],
     m_body := (m_body a)[idx := m_body a ! j],
     m_orientation := (m_orientation a)[idx := m_orientation a ! j],
     m_tag := (m_tag a)[idx := m_tag a ! j]\<rparr>"

definition removeParticle :: "nat \<Rightarrow> ParticleData \<Rightarrow> ParticleData result" where
  "removeParticle tag pd =
     (if m_nglobal pd = 0 then Inl Runtime_error
      else
        let pd = removeAllGhostParticles pd in
        if tag \<ge> m_rtag_size pd then Inl Runtime_error
        else
          let idx = m_rtag pd ! tag; is_local = idx < m_nparticles pd
          in bindr (check (is_local \<or> idx = NOT_LOCAL) Assertion_failed) (\<lambda>_.
            if \<not> is_local then Inl Runtime_error
            else
              let pd = pd\<lparr>m_rtag := (m_rtag pd)[tag := NOT_LOCAL]\<rparr>;
                  sz = m_nparticles pd;
                  pd = (if idx < sz - 1 then
                          let pd = with_arrays (move_particle idx (sz - 1)) pd;
                              last_tag = m_tag (m_arrays pd) ! (sz - 1)
                          in pd\<lparr>m_rtag := (m_rtag pd)[last_tag := idx]\<rparr>
                        else pd);
                  pd = resize_pdata (m_nparticles pd - 1) pd;
                  pd = pd\<lparr>m_tag_set := set_erase tag (m_tag_set pd), m_recycled_tags := tag # m_recycled_tags pd,
                          m_invalid_cached_tags := True\<rparr>
              in bindr (setNGlobal (m_nglobal pd - 1) pd) (\<lambda>pd. Inr (notifyParticleSort pd))))"

section \<open>The tag tables\<close>

text \<open>\<open>N\<close> particles in use, \<open>tg\<close> the tags by index, \<open>rt\<close> the indices by tag, \<open>ts\<close> the active tags, \<open>rc\<close> the
  recycled ones: the two lookups are inverse to each other, a recycled tag is marked as absent, and no
  tag number is skipped.\<close>

definition tags_ok :: "nat \<Rightarrow> nat list \<Rightarrow> nat list \<Rightarrow> nat list \<Rightarrow> nat list \<Rightarrow> bool" where
  "tags_ok N tg rt ts rc \<longleftrightarrow>
     length ts = N \<and> sorted ts \<and> distinct ts \<and> distinct rc \<and> set ts \<inter> set rc = {}
     \<and> set ts \<union> set rc = {..<N + length rc} \<and> N \<le> length tg
     \<and> (\<forall>i<N. tg ! i \<in> set ts \<and> rt ! (tg ! i) = i)
     \<and> (\<forall>t\<in>set ts. t < length rt \<and> rt ! t < N \<and> tg ! (rt ! t) = t)
     \<and> (\<forall>t\<in>set rc. t < length rt \<and> rt ! t = NOT_LOCAL)"

text \<open>A list read through the first \<open>n\<close> elements.\<close>

definition same_prefix :: "nat \<Rightarrow> 'a list \<Rightarrow> 'a list \<Rightarrow> bool" where
  "same_prefix n xs ys \<longleftrightarrow> n \<le> length xs \<and> length xs \<le> length ys \<and> take n ys = take n xs"

lemma same_prefix_nth: "same_prefix n xs ys \<Longrightarrow> i < n \<Longrightarrow> ys ! i = xs ! i"
  unfolding same_prefix_def by (metis nth_take)

lemma same_prefix_array_resize: "n \<le> length xs \<Longrightarrow> length xs \<le> k \<Longrightarrow> same_prefix n xs (array_resize v k xs)"
  by (simp add: same_prefix_def array_resize_def)

lemma same_prefix_refl: "n \<le> length xs \<Longrightarrow> same_prefix n xs xs"
  by (simp add: same_prefix_def)

lemma same_prefix_le: "same_prefix n xs ys \<Longrightarrow> k \<le> n \<Longrightarrow> same_prefix k xs ys"
  unfolding same_prefix_def by (metis le_trans min.absorb1 take_take)

lemma length_array_resize [simp]: "length (array_resize v n xs) = n"
  by (simp add: array_resize_def)

lemma tags_ok_bound: "tags_ok N tg rt ts rc \<Longrightarrow> t \<in> set ts \<union> set rc \<Longrightarrow> t < N + length rc"
  by (auto simp: tags_ok_def)

lemma tags_ok_insert:
  assumes "tags_ok N tg rt ts rc" "t \<notin> set ts"
    and new: "rc = t # rc' \<or> rc = [] \<and> rc' = [] \<and> t = N"
    and tg: "same_prefix N tg tg'" "N < length tg'"
    and rt: "same_prefix (length rt) rt rt'" "t < length rt'"
  shows "tags_ok (N + 1) (tg'[N := t]) (rt'[t := N]) (set_insert t ts) rc'"
proof -
  have old: "length ts = N" "sorted ts" "distinct ts" "distinct rc" "set ts \<inter> set rc = {}"
    "set ts \<union> set rc = {..<N + length rc}"
    "\<And>i. i < N \<Longrightarrow> tg ! i \<in> set ts" "\<And>i. i < N \<Longrightarrow> rt ! (tg ! i) = i"
    "\<And>t. t \<in> set ts \<Longrightarrow> t < length rt \<and> rt ! t < N \<and> tg ! (rt ! t) = t"
    "\<And>t. t \<in> set rc \<Longrightarrow> t < length rt \<and> rt ! t = NOT_LOCAL"
    using assms(1) unfolding tags_ok_def by blast+
  have ins: "set_insert t ts = insort t ts" using assms(2) by (simp add: set_insert_def)
  have sub: "set rc' \<subseteq> set rc" "t \<notin> set rc'" "distinct rc'" using new old(4) by auto
  have all: "insert t (set ts) \<union> set rc' = {..<N + 1 + length rc'}"
    using new
  proof
    assume "rc = t # rc'"
    then show ?thesis using old(6) by simp
  next
    assume "rc = [] \<and> rc' = [] \<and> t = N"
    then show ?thesis using old(6) by (simp add: lessThan_Suc)
  qed
  have rt': "rt' ! u = rt ! u" if "u < length rt" for u using same_prefix_nth [OF rt(1) that] .
  have len: "length rt \<le> length rt'" using rt(1) by (simp add: same_prefix_def)
  have tg': "tg' ! i = tg ! i" if "i < N" for i using same_prefix_nth [OF tg(1) that] .
  show ?thesis
    unfolding tags_ok_def ins
  proof (intro conjI allI ballI impI)
    fix i assume i: "i < N + 1"
    show "tg'[N := t] ! i \<in> set (insort t ts)"
      using i tg(2) tg' old(7) by (cases "i = N") (auto simp: set_insort_key)
    show "rt'[t := N] ! (tg'[N := t] ! i) = i"
    proof (cases "i = N")
      case True
      then show ?thesis using tg(2) rt(2) by simp
    next
      case False
      then have "i < N" using i by simp
      then have "tg ! i \<noteq> t" "tg ! i < length rt" using old(7,9) assms(2) by auto
      then show ?thesis using \<open>i < N\<close> tg' rt' old(8) by simp
    qed
  next
    fix u assume u: "u \<in> set (insort t ts)"
    show "u < length (rt'[t := N])" using u rt(2) len old(9) by (auto simp: set_insort_key intro: less_le_trans)
    have c: "u \<noteq> t \<Longrightarrow> rt' ! u = rt ! u" using u old(9) rt' by (auto simp: set_insort_key)
    show "rt'[t := N] ! u < N + 1"
      using u rt(2) c old(9) [of u] by (cases "u = t") (auto simp: set_insort_key)
    show "tg'[N := t] ! (rt'[t := N] ! u) = u"
    proof (cases "u = t")
      case True
      then show ?thesis using rt(2) tg(2) by simp
    next
      case False
      then have "u \<in> set ts" using u by (simp add: set_insort_key)
      then show ?thesis using False c old(9) [of u] tg' by simp
    qed
  next
    fix u assume u: "u \<in> set rc'"
    then have "u \<in> set rc" "u \<noteq> t" using sub by auto
    then show "u < length (rt'[t := N])" "rt'[t := N] ! u = NOT_LOCAL"
      using old(10) [of u] rt' len by auto
  next
    show "length (insort t ts) = N + 1" using old(1) by simp
    show "sorted (insort t ts)" using old(2) by (simp add: sorted_insort)
    show "distinct (insort t ts)" using old(3) assms(2) by (simp add: distinct_insort)
    show "distinct rc'" by (rule sub(3))
    show "set (insort t ts) \<inter> set rc' = {}" using sub(1,2) old(5) by (auto simp: set_insort_key)
    show "set (insort t ts) \<union> set rc' = {..<N + 1 + length rc'}" using all by (simp add: set_insort_key)
    show "N + 1 \<le> length (tg'[N := t])" using tg(2) by simp
  qed
qed

lemma tags_ok_erase:
  assumes "tags_ok N tg rt ts rc" "t \<in> set ts" "N < NOT_LOCAL"
    and idx: "idx = rt ! t" and l: "l = tg ! (N - 1)"
  shows "tags_ok (N - 1) (if idx < N - 1 then tg[idx := l] else tg)
     (if idx < N - 1 then rt[t := NOT_LOCAL, l := idx] else rt[t := NOT_LOCAL]) (set_erase t ts) (t # rc)"
proof -
  have old: "length ts = N" "sorted ts" "distinct ts" "distinct rc" "set ts \<inter> set rc = {}"
    "set ts \<union> set rc = {..<N + length rc}" "N \<le> length tg"
    "\<And>i. i < N \<Longrightarrow> tg ! i \<in> set ts" "\<And>i. i < N \<Longrightarrow> rt ! (tg ! i) = i"
    "\<And>t. t \<in> set ts \<Longrightarrow> t < length rt" "\<And>t. t \<in> set ts \<Longrightarrow> rt ! t < N" "\<And>t. t \<in> set ts \<Longrightarrow> tg ! (rt ! t) = t"
    "\<And>t. t \<in> set rc \<Longrightarrow> t < length rt" "\<And>t. t \<in> set rc \<Longrightarrow> rt ! t = NOT_LOCAL"
    using assms(1) unfolding tags_ok_def by blast+
  have N: "0 < N" using length_pos_if_in_set [OF assms(2)] old(1) by simp
  have idx': "idx < N" "tg ! idx = t" using old(11,12) [OF assms(2)] idx by auto
  have l': "l \<in> set ts" "rt ! l = N - 1" using old(8,9) [of "N - 1"] N l by auto
  have le: "l = t \<longleftrightarrow> idx = N - 1" using l'(2) idx idx'(2) l by metis
  have len: "length (set_erase t ts) = N - 1"
  proof -
    have "set_erase t ts = removeAll t ts" unfolding set_erase_def removeAll_filter_not_eq by (intro filter_cong) auto
    then show ?thesis using distinct_remove1_removeAll [OF old(3), of t] length_remove1 [of t ts] assms(2) old(1) by simp
  qed
  have rc: "N - 1 + length (t # rc) = N + length rc" using N by simp
  define tg2 where "tg2 = (if idx < N - 1 then tg[idx := l] else tg)"
  define rt2 where "rt2 = (if idx < N - 1 then rt[t := NOT_LOCAL, l := idx] else rt[t := NOT_LOCAL])"
  have tg': "tg2 ! i = (if i = idx then l else tg ! i)" if "i < N - 1" for i
    using that old(7) idx'(1) by (simp add: tg2_def)
  have rt': "rt2 ! u = (if u = l then idx else rt ! u)" if "u \<noteq> t" "u \<in> set ts" for u
  proof (cases "idx < N - 1")
    case True
    then show ?thesis using that old(10) [OF l'(1)] old(10) [OF that(2)] by (simp add: rt2_def)
  next
    case False
    then have "idx = N - 1" using idx'(1) by linarith
    then have "u \<noteq> l" using le that(1) by blast
    then show ?thesis using that False by (simp add: rt2_def)
  qed
  have rt_t: "rt2 ! t = NOT_LOCAL" using le old(10) [OF assms(2)] by (simp add: rt2_def)
  have lrt: "length rt2 = length rt" and ltg: "length tg2 = length tg" by (simp_all add: rt2_def tg2_def)
  have rt_r: "rt2 ! u = NOT_LOCAL" if "u \<in> set rc" for u
  proof -
    have "u \<noteq> l" "u \<noteq> t" using that l'(1) assms(2) old(5) by blast+
    then show ?thesis using old(14) [OF that] by (simp add: rt2_def)
  qed
  have bwd: "tg2 ! i \<in> set ts \<and> tg2 ! i \<noteq> t \<and> rt2 ! (tg2 ! i) = i" if i: "i < N - 1" for i
  proof (cases "i = idx")
    case True
    then show ?thesis using tg' [OF i] l'(1) le i rt' [of l] by simp
  next
    case False
    have "i < N" using i by simp
    then have "tg ! i \<noteq> l" "tg ! i \<noteq> t" using old(9) [of i] l'(2) i False idx by auto
    then show ?thesis using tg' [OF i] rt' [of "tg ! i"] old(8,9) [OF \<open>i < N\<close>] False by simp
  qed
  have fwd: "rt2 ! u < N - 1 \<and> tg2 ! (rt2 ! u) = u" if u: "u \<noteq> t" "u \<in> set ts" for u
  proof (cases "u = l")
    case True
    then have "idx \<noteq> N - 1" using le u(1) by blast
    then have "idx < N - 1" using idx'(1) by linarith
    then show ?thesis using True rt' [OF u] tg' [of idx] by simp
  next
    case False
    have "rt ! u \<noteq> N - 1" "rt ! u \<noteq> idx" using old(12) [OF u(2)] False l idx'(2) u(1) by auto
    then show ?thesis using False rt' [OF u] tg' [of "rt ! u"] old(11,12) [OF u(2)] by simp
  qed
  have "tags_ok (N - 1) tg2 rt2 (set_erase t ts) (t # rc)"
    unfolding tags_ok_def
  proof (intro conjI allI ballI impI)
    fix i assume i: "i < N - 1"
    show "tg2 ! i \<in> set (set_erase t ts)" "rt2 ! (tg2 ! i) = i" using bwd [OF i] by (simp_all add: set_erase_def)
  next
    fix u assume "u \<in> set (set_erase t ts)"
    then have u: "u \<noteq> t" "u \<in> set ts" by (auto simp: set_erase_def)
    show "u < length rt2" using old(10) [OF u(2)] lrt by simp
    show "rt2 ! u < N - 1" "tg2 ! (rt2 ! u) = u" using fwd [OF u] by simp_all
  next
    fix u assume u: "u \<in> set (t # rc)"
    then show "u < length rt2" using lrt old(10) [OF assms(2)] old(13) by auto
    show "rt2 ! u = NOT_LOCAL" using u rt_t rt_r by auto
  next
    show "set (set_erase t ts) \<union> set (t # rc) = {..<N - 1 + length (t # rc)}"
      unfolding rc old(6) [symmetric] using assms(2) by (auto simp: set_erase_def)
    show "N - 1 \<le> length tg2" using old(7) ltg by simp
    show "sorted (set_erase t ts)" using old(2) by (simp add: set_erase_def sorted_wrt_filter)
    show "distinct (set_erase t ts)" using old(3) by (simp add: set_erase_def)
    show "distinct (t # rc)" using old(4,5) assms(2) by auto
    show "set (set_erase t ts) \<inter> set (t # rc) = {}" using old(5) by (auto simp: set_erase_def)
  qed (rule len)
  then show ?thesis by (simp only: tg2_def rt2_def)
qed

section \<open>Well-formed particle data\<close>

definition arrays_sized :: "nat \<Rightarrow> ParticleArrays \<Rightarrow> bool" where
  "arrays_sized n a \<longleftrightarrow>
     length (m_pos a) = n \<and> length (m_vel a) = n \<and> length (m_accel a) = n \<and> length (m_charge a) = n
     \<and> length (m_diameter a) = n \<and> length (m_image a) = n \<and> length (m_tag a) = n \<and> length (m_body a) = n
     \<and> length (m_orientation a) = n \<and> length (m_angmom a) = n \<and> length (m_inertia a) = n
     \<and> length (m_net_force a) = n \<and> length (m_net_virial a) = 6
     \<and> (\<forall>row\<in>set (m_net_virial a). length row \<le> n \<and> (n \<le> 2 ^ 26 \<longrightarrow> length row = n))
     \<and> length (m_net_torque a) = n"

definition pdata_ok :: "ParticleData \<Rightarrow> bool" where
  "pdata_ok pd \<longleftrightarrow>
     tags_ok (m_nparticles pd) (m_tag (m_arrays pd)) (m_rtag pd) (m_tag_set pd) (m_recycled_tags pd)
     \<and> m_nglobal pd = m_nparticles pd \<and> m_nparticles pd + m_nghosts pd \<le> m_max_nparticles pd \<and> m_nparticles pd < NOT_LOCAL
     \<and> m_nparticles pd + m_nghosts pd < 2 ^ 32
     \<and> 0 < m_max_nparticles pd \<and> arrays_sized (m_max_nparticles pd) (m_arrays pd) \<and> arrays_sized (m_max_nparticles pd) (m_alt pd)
     \<and> (\<forall>t\<in>set (m_tag_set pd). t < m_rtag_size pd) \<and> m_rtag_size pd \<le> length (m_rtag pd)
     \<and> m_rtag_size pd \<le> m_nparticles pd + length (m_recycled_tags pd)
     \<and> (m_recycled_tags pd = [] \<longrightarrow> m_rtag_size pd = m_nparticles pd)
     \<and> (\<not> m_invalid_cached_tags pd \<longrightarrow> m_cached_tag_set pd = m_tag_set pd)"

text \<open>The data of one particle, in the structure used to send it to another processor.\<close>

record pdata_element =
  el_pos :: postype
  el_vel :: Scalar4
  el_accel :: Scalar3
  el_charge :: Scalar
  el_diameter :: Scalar
  el_image :: int3
  el_body :: nat
  el_orientation :: Scalar4
  el_angmom :: Scalar4
  el_inertia :: Scalar3
  el_tag :: nat

definition element_at :: "ParticleArrays \<Rightarrow> nat \<Rightarrow> pdata_element" where
  "element_at a i = \<lparr>el_pos = m_pos a ! i, el_vel = m_vel a ! i, el_accel = m_accel a ! i, el_charge = m_charge a ! i,
     el_diameter = m_diameter a ! i, el_image = m_image a ! i, el_body = m_body a ! i,
     el_orientation = m_orientation a ! i, el_angmom = m_angmom a ! i, el_inertia = m_inertia a ! i, el_tag = m_tag a ! i\<rparr>"

text \<open>What the simulation knows of a particle: its data by tag.\<close>

definition particle :: "ParticleData \<Rightarrow> nat \<Rightarrow> pdata_element option" where
  "particle pd t = (if t \<in> set (m_tag_set pd) then Some (element_at (m_arrays pd) (m_rtag pd ! t)) else None)"

text \<open>The part of it that \<open>addParticle\<close> and \<open>removeParticle\<close> maintain.\<close>

definition unrotated :: "pdata_element \<Rightarrow> pdata_element" where
  "unrotated e = e\<lparr>el_angmom := Scalar4 0 0 0 0, el_inertia := Vec3 0 0 0\<rparr>"

definition particles :: "ParticleData \<Rightarrow> nat \<rightharpoonup> pdata_element" where
  "particles pd t = map_option unrotated (particle pd t)"

definition new_element :: "uint \<Rightarrow> nat \<Rightarrow> pdata_element" where
  "new_element typ t = \<lparr>el_pos = (Vec3 0 0 0, typ), el_vel = Scalar4 0 0 0 1, el_accel = Vec3 0 0 0, el_charge = 0,
     el_diameter = 0, el_image = Tri 0 0 0, el_body = NO_BODY, el_orientation = Scalar4 1 0 0 0,
     el_angmom = Scalar4 0 0 0 0, el_inertia = Vec3 0 0 0, el_tag = t\<rparr>"

text \<open>Up to \<open>2\<^sup>2\<^sup>6\<close> elements the six rows fit, whichever way the allocation is sized.\<close>

lemma virial_room_le: "virial_room n E r \<le> n"
  by (simp add: virial_room_def)

lemma virial_room_full:
  assumes "n \<le> 2 ^ 26" "r < 6"
  shows "virial_room n ((padded_pitch n * 6) mod 2 ^ 32) r = n"
    "virial_room n (((padded_pitch n * 6 * sizeof_Scalar) mod 2 ^ 32) div sizeof_Scalar) r = n"
proof -
  have p: "n < padded_pitch n" "padded_pitch n \<le> n + 16" using padded_pitch_bounds [of n] assms(1) by simp_all
  have "r * padded_pitch n \<le> 5 * padded_pitch n" using assms(2) by (intro mult_right_mono) simp_all
  then have f: "n \<le> padded_pitch n * 6 - r * padded_pitch n" using p(1) by linarith
  have e: "(padded_pitch n * 6) mod 2 ^ 32 = padded_pitch n * 6"
    "((padded_pitch n * 6 * sizeof_Scalar) mod 2 ^ 32) div sizeof_Scalar = padded_pitch n * 6"
    using p(2) assms(1) by (simp_all add: sizeof_Scalar_def)
  show "virial_room n ((padded_pitch n * 6) mod 2 ^ 32) r = n"
    "virial_room n (((padded_pitch n * 6 * sizeof_Scalar) mod 2 ^ 32) div sizeof_Scalar) r = n"
    unfolding e virial_room_def using f by simp_all
qed

lemma arrays_sized_resize: "arrays_sized k a \<Longrightarrow> arrays_sized n (arrays_resize n a)"
  by (auto simp: arrays_sized_def arrays_resize_def Let_def virial_room_le virial_room_full [simplified])

lemma arrays_sized_new [simp]: "arrays_sized n (arrays_new n)"
  by (auto simp: arrays_sized_def arrays_new_def virial_room_le virial_room_full [simplified])

lemma arrays_sized_init [simp]: "arrays_sized n (init_particle i typ t a) = arrays_sized n a"
  by (simp add: arrays_sized_def init_particle_def)

lemma arrays_sized_move [simp]: "arrays_sized n (move_particle i j a) = arrays_sized n a"
  by (simp add: arrays_sized_def move_particle_def)

lemma nth_array_resize: "i < length xs \<Longrightarrow> i < n \<Longrightarrow> array_resize v n xs ! i = xs ! i"
  by (simp add: array_resize_def nth_append)

lemma element_at_resize: "arrays_sized k a \<Longrightarrow> i < k \<Longrightarrow> i < n \<Longrightarrow> element_at (arrays_resize n a) i = element_at a i"
  by (simp add: element_at_def arrays_resize_def arrays_sized_def nth_array_resize)

lemma element_at_init:
  assumes "arrays_sized n a" "i < n"
  shows "unrotated (element_at (init_particle i typ t a) i) = new_element typ t"
    and "j \<noteq> i \<Longrightarrow> element_at (init_particle i typ t a) j = element_at a j"
  using assms by (simp_all add: element_at_def init_particle_def arrays_sized_def unrotated_def new_element_def)

lemma element_at_move:
  assumes "arrays_sized n a" "i < n"
  shows "unrotated (element_at (move_particle i j a) i) = unrotated (element_at a j)"
    and "k \<noteq> i \<Longrightarrow> element_at (move_particle i j a) k = element_at a k"
  using assms by (simp_all add: element_at_def move_particle_def arrays_sized_def unrotated_def)

lemma tag_init_move [simp]: "m_tag (init_particle i typ t a) = (m_tag a)[i := t]"
  "m_tag (move_particle i j a) = (m_tag a)[i := m_tag a ! j]" "m_tag (arrays_resize n a) = array_resize 0 n (m_tag a)"
  by (simp_all add: init_particle_def move_particle_def arrays_resize_def)

section \<open>Resizing\<close>

text \<open>\<open>resize\<close> and \<open>reallocate\<close> change the particle number, the arrays beyond it and their announced size.\<close>

lemma resize_pdata_fields [simp]:
  "m_nparticles (resize_pdata n pd) = n" "m_nglobal (resize_pdata n pd) = m_nglobal pd"
  "m_nghosts (resize_pdata n pd) = m_nghosts pd" "m_rtag (resize_pdata n pd) = m_rtag pd"
  "m_rtag_size (resize_pdata n pd) = m_rtag_size pd" "m_recycled_tags (resize_pdata n pd) = m_recycled_tags pd"
  "m_tag_set (resize_pdata n pd) = m_tag_set pd" "m_cached_tag_set (resize_pdata n pd) = m_cached_tag_set pd"
  "m_invalid_cached_tags (resize_pdata n pd) = m_invalid_cached_tags pd"
  by (simp_all add: resize_pdata_def reallocate_pdata_def emit_def Let_def)

lemma resize_pdata_arrays:
  fixes n :: nat and pd :: ParticleData
  assumes "arrays_sized (m_max_nparticles pd) (m_arrays pd)" "arrays_sized (m_max_nparticles pd) (m_alt pd)" "0 < m_max_nparticles pd"
  defines "pd' \<equiv> resize_pdata n pd"
  shows "arrays_sized (m_max_nparticles pd') (m_arrays pd')" "arrays_sized (m_max_nparticles pd') (m_alt pd')"
    "n \<le> m_max_nparticles pd'" "m_max_nparticles pd \<le> m_max_nparticles pd'"
    "i < m_max_nparticles pd \<Longrightarrow> element_at (m_arrays pd') i = element_at (m_arrays pd) i"
    "same_prefix (m_max_nparticles pd) (m_tag (m_arrays pd)) (m_tag (m_arrays pd'))"
proof -
  have alt: "m_pos (m_alt pd) \<noteq> []" using assms(2,3) unfolding arrays_sized_def by (metis length_0_conv less_irrefl)
  have tag: "length (m_tag (m_arrays pd)) = m_max_nparticles pd" using assms(1) by (simp add: arrays_sized_def)
  have g: "n \<le> grow_until n (m_max_nparticles pd)" by (rule grow_until_bounds)
  show "arrays_sized (m_max_nparticles pd') (m_arrays pd')" "arrays_sized (m_max_nparticles pd') (m_alt pd')"
    "n \<le> m_max_nparticles pd'" "m_max_nparticles pd \<le> m_max_nparticles pd'"
    using assms(1,2) alt g
    by (auto simp: pd'_def resize_pdata_def reallocate_pdata_def emit_def Let_def intro: arrays_sized_resize)
  show "i < m_max_nparticles pd \<Longrightarrow> element_at (m_arrays pd') i = element_at (m_arrays pd) i"
    using g by (simp add: pd'_def resize_pdata_def reallocate_pdata_def emit_def Let_def element_at_resize [OF assms(1)])
  show "same_prefix (m_max_nparticles pd) (m_tag (m_arrays pd)) (m_tag (m_arrays pd'))"
    using g tag by (simp add: pd'_def resize_pdata_def reallocate_pdata_def emit_def Let_def same_prefix_refl same_prefix_array_resize)
qed

lemma rtag_resize_fields [simp]:
  "m_nparticles (rtag_resize n pd) = m_nparticles pd" "m_nglobal (rtag_resize n pd) = m_nglobal pd"
  "m_nghosts (rtag_resize n pd) = m_nghosts pd" "m_max_nparticles (rtag_resize n pd) = m_max_nparticles pd"
  "m_arrays (rtag_resize n pd) = m_arrays pd" "m_alt (rtag_resize n pd) = m_alt pd"
  "m_rtag_size (rtag_resize n pd) = n" "m_recycled_tags (rtag_resize n pd) = m_recycled_tags pd"
  "m_tag_set (rtag_resize n pd) = m_tag_set pd" "m_cached_tag_set (rtag_resize n pd) = m_cached_tag_set pd"
  "m_invalid_cached_tags (rtag_resize n pd) = m_invalid_cached_tags pd"
  by (simp_all add: rtag_resize_def Let_def)

lemma rtag_resize_storage:
  "same_prefix (length (m_rtag pd)) (m_rtag pd) (m_rtag (rtag_resize n pd))" "n \<le> length (m_rtag (rtag_resize n pd))"
proof -
  let ?k = "if n > 0 then n else 1" and ?c = "if length (m_rtag pd) \<noteq> 0 then length (m_rtag pd) else 1"
  have g: "?k \<le> grow_until ?k ?c" by (rule grow_until_bounds)
  have "same_prefix (length (m_rtag pd)) (m_rtag pd) (array_resize 0 (grow_until ?k ?c) (m_rtag pd))"
    if "?k > length (m_rtag pd)" by (rule same_prefix_array_resize) (use g that in auto)
  then show "same_prefix (length (m_rtag pd)) (m_rtag pd) (m_rtag (rtag_resize n pd))"
    by (simp add: rtag_resize_def Let_def same_prefix_refl)
  show "n \<le> length (m_rtag (rtag_resize n pd))"
    using g by (auto simp: rtag_resize_def Let_def split: if_splits)
qed

lemma sorted_last: "sorted xs \<Longrightarrow> x \<in> set xs \<Longrightarrow> x \<le> last xs" for xs :: "nat list"
  by (induction xs) (auto split: if_splits)

section \<open>Adding and removing particles keep the data well formed\<close>

lemma pdata_okD:
  assumes "pdata_ok pd"
  shows "tags_ok (m_nparticles pd) (m_tag (m_arrays pd)) (m_rtag pd) (m_tag_set pd) (m_recycled_tags pd)"
    "m_nglobal pd = m_nparticles pd" "m_nparticles pd + m_nghosts pd \<le> m_max_nparticles pd" "m_nparticles pd < NOT_LOCAL"
    "0 < m_max_nparticles pd" "arrays_sized (m_max_nparticles pd) (m_arrays pd)" "arrays_sized (m_max_nparticles pd) (m_alt pd)"
    "m_rtag_size pd \<le> length (m_rtag pd)" "m_recycled_tags pd = [] \<Longrightarrow> m_rtag_size pd = m_nparticles pd"
    "t \<in> set (m_tag_set pd) \<Longrightarrow> t < m_rtag_size pd"
    "t \<in> set (m_tag_set pd) \<Longrightarrow> m_rtag pd ! t < m_nparticles pd"
    "t \<in> set (m_tag_set pd) \<Longrightarrow> m_tag (m_arrays pd) ! (m_rtag pd ! t) = t"
    "length (m_tag_set pd) = m_nparticles pd"
    "\<not> m_invalid_cached_tags pd \<Longrightarrow> m_cached_tag_set pd = m_tag_set pd"
    "t \<in> set (m_recycled_tags pd) \<Longrightarrow> m_rtag pd ! t = NOT_LOCAL"
    "m_rtag_size pd \<le> m_nparticles pd + length (m_recycled_tags pd)" "m_nparticles pd + m_nghosts pd < 2 ^ 32"
  using assms unfolding pdata_ok_def tags_ok_def by blast+

lemma tag_cases:
  assumes "pdata_ok pd"
  shows "t < m_rtag_size pd \<Longrightarrow> t \<in> set (m_tag_set pd) \<or> t \<in> set (m_recycled_tags pd)"
proof -
  have "set (m_tag_set pd) \<union> set (m_recycled_tags pd) = {..<m_nparticles pd + length (m_recycled_tags pd)}"
    using pdata_okD(1) [OF assms] unfolding tags_ok_def by blast
  moreover have "m_rtag_size pd \<le> m_nparticles pd + length (m_recycled_tags pd)" by (rule pdata_okD(16) [OF assms])
  ultimately show "t < m_rtag_size pd \<Longrightarrow> ?thesis" by (metis Un_iff lessThan_iff less_le_trans)
qed

lemma next_tag_spec:
  assumes ok: "pdata_ok pd"
  shows "\<exists>t rc'. next_tag (removeAllGhostParticles pd) = Inr (t, (removeAllGhostParticles pd)\<lparr>m_recycled_tags := rc'\<rparr>)
    \<and> t \<notin> set (m_tag_set pd)
    \<and> (m_recycled_tags pd = t # rc' \<or> m_recycled_tags pd = [] \<and> rc' = [] \<and> t = m_nparticles pd)"
proof (cases "m_recycled_tags pd")
  case Nil
  have "set (m_tag_set pd) = {..<m_nparticles pd}" using pdata_okD(1) [OF ok] Nil unfolding tags_ok_def by simp
  then show ?thesis using pdata_okD(2,9) [OF ok] Nil
    by (intro exI [of _ "m_nparticles pd"] exI [of _ "[]"]) (simp add: next_tag_def removeAllGhostParticles_def emit_def)
next
  case (Cons t rc')
  then have "t \<notin> set (m_tag_set pd)" using pdata_okD(1) [OF ok] unfolding tags_ok_def by auto
  then show ?thesis using Cons
    by (intro exI [of _ t] exI [of _ rc']) (simp add: next_tag_def removeAllGhostParticles_def emit_def)
qed

text \<open>The new size of the reverse lookup covers all active tags.\<close>

lemma maximum_tag_insert:
  assumes ok: "tags_ok N tg rt ts rc" and fresh: "t \<notin> set ts" and new: "rc = t # rc' \<or> rc = [] \<and> rc' = [] \<and> t = N"
    and bound: "N + length rc < 2 ^ 31" and k: "k = (last (set_insert t ts) + 1) mod 2 ^ 32"
  shows "set_insert t ts \<noteq> []" "\<And>u. u \<in> set (set_insert t ts) \<Longrightarrow> u < k" "rc' = [] \<Longrightarrow> k = N + 1" "t \<le> length rc' + N"
    "k \<le> N + 1 + length rc'"
proof -
  let ?ts = "set_insert t ts"
  have ts: "sorted ts" "set ts \<union> set rc = {..<N + length rc}" using ok unfolding tags_ok_def by blast+
  have s: "set ?ts = insert t (set ts)" "sorted ?ts" using fresh ts(1) by (simp_all add: set_insert_def set_insort_key sorted_insort)
  then show ne: "?ts \<noteq> []" by (metis insert_not_empty list.set(1))
  show tb: "t \<le> length rc' + N" using new tags_ok_bound [OF ok, of t] by auto
  have l: "last ?ts = t \<or> last ?ts \<in> set ts" using last_in_set [OF ne] s(1) by blast
  then have "last ?ts < N + length rc + 1" using tags_ok_bound [OF ok, of "last ?ts"] tb new by auto
  then have k: "k = last ?ts + 1" using bound k by simp
  have "last ?ts < N + 1 + length rc'" using l tags_ok_bound [OF ok, of "last ?ts"] tb new by auto
  then show "k \<le> N + 1 + length rc'" using k by simp
  show "\<And>u. u \<in> set ?ts \<Longrightarrow> u < k" using sorted_last [OF s(2)] by (simp add: k less_Suc_eq_le)
  show "k = N + 1" if e: "rc' = []"
  proof -
    have all: "insert t (set ts) = {..<N + 1}" using new
    proof
      assume "rc = t # rc'"
      then show ?thesis using e ts(2) by simp
    next
      assume "rc = [] \<and> rc' = [] \<and> t = N"
      then show ?thesis using ts(2) by (simp add: lessThan_Suc)
    qed
    have "last ?ts \<in> {..<N + 1}" using l all by blast
    moreover have "N \<le> last ?ts" using sorted_last [OF s(2), of N] s(1) all by simp
    ultimately show ?thesis using k by simp
  qed
qed

lemma addParticle_run:
  assumes t: "next_tag (removeAllGhostParticles pd) = Inr (t, (removeAllGhostParticles pd)\<lparr>m_recycled_tags := rc'\<rparr>)"
    and p1: "p1 = (removeAllGhostParticles pd)\<lparr>m_recycled_tags := rc', m_tag_set := set_insert t (m_tag_set pd), m_invalid_cached_tags := True\<rparr>"
    and k: "k = (getMaximumTag p1 + 1) mod 2 ^ 32"
    and p2: "p2 = rtag_resize k p1"
    and p4: "p4 = resize_pdata (m_nparticles pd + 1) (p2\<lparr>m_rtag := (m_rtag p2)[t := m_nparticles pd]\<rparr>)"
    and tb: "t \<le> length rc' + m_nglobal pd" and n: "m_nparticles pd \<le> m_nglobal pd"
  shows "addParticle typ pd = Inr (t, notifyParticleSort (emit (Global_particle_num (m_nglobal pd + 1))
      ((with_arrays (init_particle (m_nparticles pd) typ t) p4)\<lparr>m_nglobal := m_nglobal pd + 1\<rparr>)))"
proof -
  let ?g = "removeAllGhostParticles pd"
  have g: "m_nparticles ?g = m_nparticles pd" "m_nglobal ?g = m_nglobal pd" "m_tag_set ?g = m_tag_set pd"
    by (simp_all add: removeAllGhostParticles_def emit_def)
  have e1: "?g\<lparr>m_recycled_tags := rc', m_tag_set := set_insert t (m_tag_set (?g\<lparr>m_recycled_tags := rc'\<rparr>)), m_invalid_cached_tags := True\<rparr> = p1"
    by (simp add: p1 g)
  have f2: "m_nparticles p2 = m_nparticles pd" "m_nglobal p2 = m_nglobal pd" "m_recycled_tags p2 = rc'"
    by (simp_all add: p2 p1 g)
  have f4: "m_nparticles p4 = m_nparticles pd + 1" "m_nglobal p4 = m_nglobal pd" by (simp_all add: p4 f2)
  show ?thesis
    unfolding addParticle_def t bindr_simps prod.case Let_def e1 k [symmetric] p2 [symmetric]
    using tb n by (simp add: f2 p4 [symmetric, unfolded Suc_eq_plus1 [symmetric]] f4 setNGlobal_def)
qed

lemma notify_fields [simp]:
  "m_nparticles (notifyParticleSort pd) = m_nparticles pd" "m_nglobal (notifyParticleSort pd) = m_nglobal pd"
  "m_rtag (notifyParticleSort pd) = m_rtag pd" "m_rtag_size (notifyParticleSort pd) = m_rtag_size pd"
  "m_tag_set (notifyParticleSort pd) = m_tag_set pd" "m_recycled_tags (notifyParticleSort pd) = m_recycled_tags pd"
  "m_arrays (notifyParticleSort pd) = m_arrays pd" "m_origin (notifyParticleSort pd) = m_origin pd"
  "m_o_image (notifyParticleSort pd) = m_o_image pd" "m_global_box (notifyParticleSort pd) = m_global_box pd"
  "m_nparticles (emit s pd) = m_nparticles pd" "m_nglobal (emit s pd) = m_nglobal pd"
  "m_rtag (emit s pd) = m_rtag pd" "m_rtag_size (emit s pd) = m_rtag_size pd"
  "m_tag_set (emit s pd) = m_tag_set pd" "m_recycled_tags (emit s pd) = m_recycled_tags pd"
  "m_arrays (emit s pd) = m_arrays pd"  "m_origin (emit s pd) = m_origin pd"
  "m_o_image (emit s pd) = m_o_image pd" "m_global_box (emit s pd) = m_global_box pd"
  "m_alt (emit s pd) = m_alt pd" "m_max_nparticles (emit s pd) = m_max_nparticles pd"
  "m_nghosts (emit s pd) = m_nghosts pd" "m_invalid_cached_tags (emit s pd) = m_invalid_cached_tags pd"
  "m_cached_tag_set (emit s pd) = m_cached_tag_set pd" "m_type_mapping (emit s pd) = m_type_mapping pd"
  by (simp_all add: notifyParticleSort_def emit_def)

lemma pdata_ok_notify [simp]: "pdata_ok (notifyParticleSort pd) = pdata_ok pd" "pdata_ok (emit s pd) = pdata_ok pd"
  by (simp_all add: pdata_ok_def notifyParticleSort_def emit_def)

lemma particle_notify [simp]: "particle (notifyParticleSort pd) = particle pd" "particle (emit s pd) = particle pd"
  "particles (notifyParticleSort pd) = particles pd" "particles (emit s pd) = particles pd"
  by (simp_all add: fun_eq_iff particles_def particle_def)

lemma addParticle_spec:
  assumes ok: "pdata_ok pd" and bound: "m_nparticles pd + length (m_recycled_tags pd) < 2 ^ 31"
  shows "\<exists>t pd'. addParticle typ pd = Inr (t, pd') \<and> pdata_ok pd' \<and> t \<notin> set (m_tag_set pd)
    \<and> (m_recycled_tags pd = t # m_recycled_tags pd' \<or> m_recycled_tags pd = [] \<and> m_recycled_tags pd' = [] \<and> t = m_nparticles pd)
    \<and> m_nparticles pd' = m_nparticles pd + 1
    \<and> (\<forall>u. u \<noteq> t \<longrightarrow> particle pd' u = particle pd u) \<and> particles pd' t = Some (new_element typ t)"
proof -
  note d = pdata_okD [OF ok]
  let ?N = "m_nparticles pd"
  obtain t rc' where t: "next_tag (removeAllGhostParticles pd) = Inr (t, (removeAllGhostParticles pd)\<lparr>m_recycled_tags := rc'\<rparr>)"
    and fresh: "t \<notin> set (m_tag_set pd)"
    and new: "m_recycled_tags pd = t # rc' \<or> m_recycled_tags pd = [] \<and> rc' = [] \<and> t = ?N"
    using next_tag_spec [OF ok] by blast
  let ?ts = "set_insert t (m_tag_set pd)"
  define p1 where "p1 = (removeAllGhostParticles pd)\<lparr>m_recycled_tags := rc', m_tag_set := ?ts, m_invalid_cached_tags := True\<rparr>"
  define k where "k = (getMaximumTag p1 + 1) mod 2 ^ 32"
  define p2 where "p2 = rtag_resize k p1"
  define p3 where "p3 = p2\<lparr>m_rtag := (m_rtag p2)[t := ?N]\<rparr>"
  define p4 where "p4 = resize_pdata (?N + 1) p3"
  have f1: "m_rtag p1 = m_rtag pd" "m_tag_set p1 = ?ts" by (simp_all add: p1_def removeAllGhostParticles_def)
  have ne: "?ts \<noteq> []" using fresh by (metis insort_not_Nil set_insert_def)
  have "k = (last ?ts + 1) mod 2 ^ 32" using ne by (simp add: k_def getMaximumTag_def f1)
  note mt = maximum_tag_insert [OF d(1) fresh new bound this]
  have ts: "set ?ts = insert t (set (m_tag_set pd))" using fresh by (simp add: set_insert_def set_insort_key)
  have tk: "t < k" by (rule mt(2)) (simp add: ts)
  have f2: "same_prefix (length (m_rtag pd)) (m_rtag pd) (m_rtag p2)" "k \<le> length (m_rtag p2)"
    using rtag_resize_storage [where pd = p1 and n = k] by (simp_all add: p2_def f1)
  have f3: "m_max_nparticles p3 = m_max_nparticles pd" "m_arrays p3 = m_arrays pd" "m_alt p3 = m_alt pd"
    by (simp_all add: p3_def p2_def p1_def removeAllGhostParticles_def)
  note a4 = resize_pdata_arrays [where pd = p3 and n = "?N + 1", folded p4_def, unfolded f3, OF d(6,7,5)]
  have lt4: "length (m_tag (m_arrays p4)) = m_max_nparticles p4" using a4(1) by (simp add: arrays_sized_def)
  have prefix: "same_prefix ?N (m_tag (m_arrays pd)) (m_tag (m_arrays p4))"
    by (rule same_prefix_le [OF a4(6)]) (use d(3) in simp)
  have tags: "tags_ok (?N + 1) ((m_tag (m_arrays p4))[?N := t]) ((m_rtag p2)[t := ?N]) ?ts rc'"
    by (rule tags_ok_insert [OF d(1) fresh new prefix _ f2(1)]) (use a4(3) lt4 tk f2(2) in simp_all)
  let ?q = "(with_arrays (init_particle ?N typ t) p4)\<lparr>m_nglobal := ?N + 1\<rparr>"
  have add: "addParticle typ pd = Inr (t, notifyParticleSort (emit (Global_particle_num (?N + 1)) ?q))"
    using addParticle_run [OF t p1_def k_def p2_def p4_def [unfolded p3_def]] mt(4) d(2) by simp
  have f5: "m_nparticles ?q = ?N + 1" "m_rtag ?q = (m_rtag p2)[t := ?N]" "m_rtag_size ?q = k"
    "m_tag_set ?q = ?ts" "m_recycled_tags ?q = rc'" "m_nghosts ?q = 0" "m_invalid_cached_tags ?q"
    by (simp_all add: p4_def p3_def p2_def p1_def removeAllGhostParticles_def)
  have "pdata_ok ?q"
    unfolding pdata_ok_def f5(1-6) using tags a4(1-3) f2(2) mt(2,3,5) bound f5(7) by (simp add: NOT_LOCAL_def)
  moreover have "particle ?q u = particle pd u" if "u \<noteq> t" for u
  proof (cases "u \<in> set (m_tag_set pd)")
    case True
    have i: "m_rtag pd ! u < ?N" "u < length (m_rtag pd)" using d(8,10,11) True by (auto intro: less_le_trans)
    then have "m_rtag p2 ! u = m_rtag pd ! u" using same_prefix_nth [OF f2(1)] by simp
    then show ?thesis using that True i d(3) a4(3) a4(5) [of "m_rtag pd ! u"] element_at_init(2) [OF a4(1), of ?N]
      unfolding particle_def f5 ts by simp
  next
    case False
    then show ?thesis using that unfolding particle_def f5 ts by simp
  qed
  moreover have "particles ?q t = Some (new_element typ t)"
    using element_at_init(1) [OF a4(1), of ?N "typ" t] a4(3) tk f2(2)
    unfolding particles_def particle_def f5 ts by simp
  ultimately show ?thesis using add fresh new f5
    by (intro exI [of _ t] exI [of _ "notifyParticleSort (emit (Global_particle_num (?N + 1)) ?q)"])
       (auto simp only: pdata_ok_notify particle_notify notify_fields)
qed

lemma removeParticle_error:
  assumes ok: "pdata_ok pd" and t: "t \<notin> set (m_tag_set pd)"
  shows "removeParticle t pd = Inl Runtime_error"
proof (cases "t < m_rtag_size pd \<and> m_nglobal pd \<noteq> 0")
  case False
  then show ?thesis by (auto simp: removeParticle_def removeAllGhostParticles_def)
next
  case True
  then have "t \<in> set (m_recycled_tags pd)" using tag_cases [OF ok, of t] t by auto
  then have "m_rtag pd ! t = NOT_LOCAL" by (rule pdata_okD(15) [OF ok])
  then show ?thesis using True pdata_okD(4) [OF ok]
    by (simp add: removeParticle_def removeAllGhostParticles_def Let_def)
qed

lemma removeParticle_spec:
  assumes ok: "pdata_ok pd" and t: "t \<in> set (m_tag_set pd)"
  shows "\<exists>pd'. removeParticle t pd = Inr pd' \<and> pdata_ok pd' \<and> m_recycled_tags pd' = t # m_recycled_tags pd
    \<and> m_nparticles pd' + 1 = m_nparticles pd \<and> particles pd' = (particles pd)(t := None)
    \<and> (\<forall>u\<in>set (m_tag_set pd). u \<noteq> t \<longrightarrow> particle pd' u =
        (if m_rtag pd ! u = m_nparticles pd - 1
         then map_option (\<lambda>e. e\<lparr>el_angmom := m_angmom (m_arrays pd) ! (m_rtag pd ! t),
                               el_inertia := m_inertia (m_arrays pd) ! (m_rtag pd ! t)\<rparr>) (particle pd u)
         else particle pd u))"
proof -
  note d = pdata_okD [OF ok]
  let ?N = "m_nparticles pd" and ?a = "m_arrays pd"
  define idx where "idx = m_rtag pd ! t"
  define l where "l = m_tag ?a ! (?N - 1)"
  define a' where "a' = (if idx < ?N - 1 then move_particle idx (?N - 1) ?a else ?a)"
  define rt' where "rt' = (if idx < ?N - 1 then (m_rtag pd)[t := NOT_LOCAL, l := idx] else (m_rtag pd)[t := NOT_LOCAL])"
  have i: "idx < ?N" "t < m_rtag_size pd" using d(10,11) [OF t] by (simp_all add: idx_def)
  have N: "0 < ?N" "idx < m_max_nparticles pd" "?N - 1 \<le> m_max_nparticles pd" using i d(3) by linarith+
  have la: "length (m_tag ?a) = m_max_nparticles pd" using d(6) by (simp add: arrays_sized_def)
  let ?q = "pd\<lparr>m_nghosts := 0, m_rtag := rt', m_arrays := a', m_nparticles := ?N - 1, m_nglobal := ?N - 1,
     m_tag_set := set_erase t (m_tag_set pd), m_recycled_tags := t # m_recycled_tags pd, m_invalid_cached_tags := True\<rparr>"
  have run: "removeParticle t pd = Inr (?q\<lparr>m_signals := m_signals pd @
      [Ghost_particles_removed (m_nghosts pd), Global_particle_num (?N - 1), Sort]\<rparr>)"
  proof (cases "idx < ?N - 1")
    case True
    have e: "m_tag (move_particle idx (?N - 1) ?a) ! (?N - 1) = l" using True by (simp add: l_def)
    show ?thesis
      unfolding removeParticle_def removeAllGhostParticles_def emit_def Let_def a'_def rt'_def
      using True i d(2) e N(1,3)
      by (simp add: idx_def [symmetric] resize_pdata_def setNGlobal_def notifyParticleSort_def emit_def)
  next
    case False
    show ?thesis
      unfolding removeParticle_def removeAllGhostParticles_def emit_def Let_def a'_def rt'_def
      using False i d(2) N(1,3)
      by (simp add: idx_def [symmetric] resize_pdata_def setNGlobal_def notifyParticleSort_def emit_def)
  qed
  have tags: "tags_ok (?N - 1) (m_tag a') rt' (set_erase t (m_tag_set pd)) (t # m_recycled_tags pd)"
  proof -
    have mt: "m_tag a' = (if idx < ?N - 1 then (m_tag ?a)[idx := l] else m_tag ?a)" by (simp add: a'_def l_def)
    show ?thesis unfolding mt rt'_def by (rule tags_ok_erase [OF d(1) t d(4) idx_def l_def])
  qed
  have a: "arrays_sized (m_max_nparticles pd) a'" using d(6) by (simp add: a'_def)
  have okq: "pdata_ok (?q\<lparr>m_signals := sg\<rparr>)" for sg
  proof -
    have "?N - 1 < NOT_LOCAL" "?N - 1 < 2 ^ 32" using d(4,17) by linarith+
    then show ?thesis using tags a d(5-7,8,10,16) N(1,3) by (simp add: pdata_ok_def set_erase_def rt'_def)
  qed
  have l: "l \<in> set (m_tag_set pd)" "m_rtag pd ! l = ?N - 1"
    using d(1) N(1) unfolding tags_ok_def l_def by (metis diff_less zero_less_one)+
  have u': "rt' ! u = (if m_rtag pd ! u = ?N - 1 then idx else m_rtag pd ! u) \<and> (m_rtag pd ! u = ?N - 1 \<longrightarrow> idx < ?N - 1)
    \<and> m_rtag pd ! u \<noteq> idx"
    if u: "u \<in> set (m_tag_set pd)" "u \<noteq> t" for u
  proof -
    have inv: "m_tag ?a ! (m_rtag pd ! u) = u" "m_tag ?a ! idx = t" using d(12) u t by (simp_all add: idx_def)
    then have "m_rtag pd ! u \<noteq> idx" using u(2) by auto
    moreover have "u = l \<longleftrightarrow> m_rtag pd ! u = ?N - 1" using inv(1) l(2) l_def by auto
    moreover have "l < length (m_rtag pd)" using d(8) d(10) [OF l(1)] by linarith
    ultimately show ?thesis using u(2) i(1) by (cases "u = l") (auto simp: rt'_def)
  qed
  have part: "particle (?q\<lparr>m_signals := sg\<rparr>) u =
      (if m_rtag pd ! u = ?N - 1
       then map_option (\<lambda>e. e\<lparr>el_angmom := m_angmom ?a ! idx, el_inertia := m_inertia ?a ! idx\<rparr>) (particle pd u)
       else particle pd u)" if u: "u \<in> set (m_tag_set pd)" "u \<noteq> t" for u sg
    using u u' [OF u] element_at_move(2) [OF d(6) N(2), of "m_rtag pd ! u"] d(6) N(2)
    by (auto simp: particle_def set_erase_def a'_def element_at_def move_particle_def arrays_sized_def)
  have "particles (?q\<lparr>m_signals := sg\<rparr>) = (particles pd)(t := None)" for sg
  proof
    fix u
    show "particles (?q\<lparr>m_signals := sg\<rparr>) u = ((particles pd)(t := None)) u"
    proof (cases "u \<in> set (m_tag_set pd) \<and> u \<noteq> t")
      case True
      then show ?thesis using part [of u sg] by (auto simp: particles_def particle_def unrotated_def)
    next
      case False
      then show ?thesis by (auto simp: particles_def particle_def set_erase_def)
    qed
  qed
  then show ?thesis using run okq part N(1) unfolding idx_def by fastforce
qed

end
