(* ===== verification/Particle_Data_Correct.thy ===== *)
theory Particle_Data_Correct
  imports Particle_Data
begin

text \<open>
  What the particle data promise: access by tag, positions relative to the moving origin, snapshots, the
  invariant of every reachable state and the refinement of a map from tags to particles. \<^verbatim>\<open>Particle_Data\<close>
  holds the definitions and the effect of adding and removing a particle on the tag tables.
\<close>

section \<open>Accessors\<close>

text \<open>An operation that changes the data of one particle by \<open>h\<close> and of no other.\<close>

definition updates :: "ParticleData \<Rightarrow> nat \<Rightarrow> (pdata_element \<Rightarrow> pdata_element) \<Rightarrow> ParticleData result \<Rightarrow> bool" where
  "updates pd t h r \<longleftrightarrow> (\<exists>pd'. r = Inr pd' \<and> pdata_ok pd' \<and> m_tag_set pd' = m_tag_set pd
     \<and> (\<forall>u. particle pd' u = (if u = t then map_option h (particle pd u) else particle pd u)))"

lemma getRTag_active:
  assumes "pdata_ok pd" "t \<in> set (m_tag_set pd)"
  shows "getRTag t pd = Inr (m_rtag pd ! t)" "m_rtag pd ! t < m_nparticles pd"
  using pdata_okD(10,11,17) [OF assms(1)] assms(2)
  by (simp_all add: getRTag_def getRTag_in_def ENABLE_MPI_def Let_def trans_less_add1)

lemma getRTag_removed:
  assumes "pdata_ok pd" "t \<in> set (m_recycled_tags pd)"
  shows "getRTag t pd = (if t < m_rtag_size pd then Inr NOT_LOCAL else Inl Assertion_failed)"
    "getRTag_in True t pd = Inl Assertion_failed"
  using pdata_okD(15) [OF assms] pdata_okD(4) [OF assms(1)]
  by (simp_all add: getRTag_def getRTag_in_def ENABLE_MPI_def Let_def check_def)

lemma local_get_active:
  "pdata_ok pd \<Longrightarrow> t \<in> set (m_tag_set pd) \<Longrightarrow> local_get t f pd = Inr (f (m_rtag pd ! t))"
  by (simp add: local_get_def getRTag_active)

lemma local_get_removed:
  "pdata_ok pd \<Longrightarrow> t \<in> set (m_recycled_tags pd) \<Longrightarrow> local_get t f pd = Inl Assertion_failed"
  using pdata_okD(4) [of pd] by (simp add: local_get_def getRTag_removed)

lemma local_set_removed:
  "pdata_ok pd \<Longrightarrow> t \<in> set (m_recycled_tags pd)
    \<Longrightarrow> local_set t f pd = (if t < m_rtag_size pd then Inr pd else Inl Assertion_failed)"
  using pdata_okD(4) [of pd] by (simp add: local_set_def getRTag_removed)

text \<open>The setters with their arguments.\<close>

datatype pdata_setter = Set_position Scalar3 | Set_velocity Scalar3 | Set_image int3 | Set_charge Scalar | Set_mass Scalar
  | Set_diameter Scalar | Set_body int | Set_type uint | Set_orientation Scalar4 | Set_angular_momentum Scalar4
  | Set_moments_of_inertia Scalar3

fun apply_setter :: "pdata_setter \<Rightarrow> nat \<Rightarrow> ParticleData \<Rightarrow> ParticleData result" where
  "apply_setter (Set_position p) t pd = setPosition t p pd"
| "apply_setter (Set_velocity v) t pd = setVelocity t v pd"
| "apply_setter (Set_image i) t pd = setImage t i pd"
| "apply_setter (Set_charge x) t pd = setCharge t x pd"
| "apply_setter (Set_mass x) t pd = setMass t x pd"
| "apply_setter (Set_diameter x) t pd = setDiameter t x pd"
| "apply_setter (Set_body n) t pd = setBody t n pd"
| "apply_setter (Set_type k) t pd = setType t k pd"
| "apply_setter (Set_orientation q) t pd = setOrientation t q pd"
| "apply_setter (Set_angular_momentum q) t pd = setAngularMomentum t q pd"
| "apply_setter (Set_moments_of_inertia v) t pd = setMomentsOfInertia t v pd"

text \<open>A setter rejects a type that does not exist; its other arguments are not tested.\<close>

fun setter_type_ok :: "pdata_setter \<Rightarrow> ParticleData \<Rightarrow> bool" where
  "setter_type_ok (Set_type k) pd \<longleftrightarrow> unat k < getNTypes pd"
| "setter_type_ok _ pd \<longleftrightarrow> True"

lemma apply_setter_removed:
  assumes "pdata_ok pd" "t \<in> set (m_recycled_tags pd)"
  shows "apply_setter f t pd = (if setter_type_ok f pd \<and> t < m_rtag_size pd then Inr pd else Inl Assertion_failed)"
  by (cases f) (simp_all add: setPosition_def setVelocity_def setImage_def setCharge_def setMass_def setDiameter_def setBody_def
      setType_def setOrientation_def setAngularMomentum_def setMomentsOfInertia_def local_set_removed [OF assms] Let_def check_def)

lemma getters_removed:
  assumes "pdata_ok pd" "t \<in> set (m_recycled_tags pd)"
  shows "getPosition t pd = Inl Assertion_failed" "getVelocity t pd = Inl Assertion_failed"
    "getAcceleration t pd = Inl Assertion_failed" "getImage_pdata t pd = Inl Assertion_failed"
    "getCharge t pd = Inl Assertion_failed" "getMass t pd = Inl Assertion_failed" "getDiameter t pd = Inl Assertion_failed"
    "getBody t pd = Inl Assertion_failed" "getType t pd = Inl Assertion_failed" "getOrientation t pd = Inl Assertion_failed"
    "getAngularMomentum t pd = Inl Assertion_failed" "getMomentsOfInertia t pd = Inl Assertion_failed"
    "getPNetForce t pd = Inl Assertion_failed" "getNetTorque t pd = Inl Assertion_failed"
  by (simp_all add: getPosition_def getVelocity_def getAcceleration_def getImage_pdata_def getCharge_def getMass_def
      getDiameter_def getBody_def getType_def getOrientation_def getAngularMomentum_def getMomentsOfInertia_def
      getPNetForce_def getNetTorque_def local_get_removed [OF assms])

text \<open>Arrays \<open>a'\<close> that differ from \<open>a\<close> in element \<open>i\<close>, by \<open>h\<close>, and in nothing else the accessors see.\<close>

definition changes_one :: "nat \<Rightarrow> nat \<Rightarrow> ParticleArrays \<Rightarrow> ParticleArrays \<Rightarrow> (pdata_element \<Rightarrow> pdata_element) \<Rightarrow> bool" where
  "changes_one n i a a' h \<longleftrightarrow> arrays_sized n a' \<and> m_tag a' = m_tag a
     \<and> element_at a' i = h (element_at a i) \<and> (\<forall>j. j \<noteq> i \<longrightarrow> element_at a' j = element_at a j)"

lemma local_set_updates:
  assumes ok: "pdata_ok pd" and t: "t \<in> set (m_tag_set pd)"
    and f: "f (m_rtag pd ! t) pd = pd\<lparr>m_arrays := a'\<rparr> \<or> f (m_rtag pd ! t) pd = notifyParticleSort (pd\<lparr>m_arrays := a'\<rparr>)"
    and ch: "changes_one (m_max_nparticles pd) (m_rtag pd ! t) (m_arrays pd) a' h"
  shows "updates pd t h (local_set t f pd)"
proof -
  note d = pdata_okD [OF ok] and r = getRTag_active [OF ok t]
  have "pdata_ok (pd\<lparr>m_arrays := a'\<rparr>)" using ok ch unfolding pdata_ok_def changes_one_def by simp
  moreover have "m_rtag pd ! u \<noteq> m_rtag pd ! t" if "u \<noteq> t" "u \<in> set (m_tag_set pd)" for u
    using d(12) [OF that(2)] d(12) [OF t] that(1) by auto
  then have "particle (pd\<lparr>m_arrays := a'\<rparr>) u = (if u = t then map_option h (particle pd u) else particle pd u)" for u
    using t ch by (auto simp: particle_def changes_one_def)
  ultimately show ?thesis using f r by (auto simp: updates_def local_set_def)
qed

lemma active_index_sized:
  assumes "pdata_ok pd" "t \<in> set (m_tag_set pd)"
  shows "arrays_sized (m_max_nparticles pd) (m_arrays pd)" "m_rtag pd ! t < m_max_nparticles pd"
  using pdata_okD(3,6) [OF assms(1)] pdata_okD(11) [OF assms] by simp_all

lemma setter_updates:
  assumes ok: "pdata_ok pd" and act: "t \<in> set (m_tag_set pd)"
  shows "updates pd t (\<lambda>e. e\<lparr>el_vel := Scalar4 (vx v) (vy v) (vz v) (sw (el_vel e))\<rparr>) (setVelocity t v pd)"
    "updates pd t (\<lambda>e. e\<lparr>el_vel := Scalar4 (sx (el_vel e)) (sy (el_vel e)) (sz (el_vel e)) x\<rparr>) (setMass t x pd)"
    "updates pd t (\<lambda>e. e\<lparr>el_charge := x\<rparr>) (setCharge t x pd)"
    "updates pd t (\<lambda>e. e\<lparr>el_diameter := x\<rparr>) (setDiameter t x pd)"
    "updates pd t (\<lambda>e. e\<lparr>el_body := nat (n mod 2 ^ 32)\<rparr>) (setBody t n pd)"
    "updates pd t (\<lambda>e. e\<lparr>el_orientation := q\<rparr>) (setOrientation t q pd)"
    "updates pd t (\<lambda>e. e\<lparr>el_angmom := q\<rparr>) (setAngularMomentum t q pd)"
    "updates pd t (\<lambda>e. e\<lparr>el_inertia := v\<rparr>) (setMomentsOfInertia t v pd)"
    "updates pd t (\<lambda>e. e\<lparr>el_image := image_add img (m_o_image pd)\<rparr>) (setImage t img pd)"
    "unat typ < getNTypes pd \<Longrightarrow> updates pd t (\<lambda>e. e\<lparr>el_pos := (fst (el_pos e), typ)\<rparr>) (setType t typ pd)"
proof -
  note s = active_index_sized [OF ok act] and u = local_set_updates [OF ok act]
    and ev = changes_one_def element_at_def arrays_sized_def Let_def
  show "updates pd t (\<lambda>e. e\<lparr>el_vel := Scalar4 (vx v) (vy v) (vz v) (sw (el_vel e))\<rparr>) (setVelocity t v pd)"
    "updates pd t (\<lambda>e. e\<lparr>el_vel := Scalar4 (sx (el_vel e)) (sy (el_vel e)) (sz (el_vel e)) x\<rparr>) (setMass t x pd)"
    "updates pd t (\<lambda>e. e\<lparr>el_charge := x\<rparr>) (setCharge t x pd)" "updates pd t (\<lambda>e. e\<lparr>el_diameter := x\<rparr>) (setDiameter t x pd)"
    "updates pd t (\<lambda>e. e\<lparr>el_body := nat (n mod 2 ^ 32)\<rparr>) (setBody t n pd)"
    "updates pd t (\<lambda>e. e\<lparr>el_orientation := q\<rparr>) (setOrientation t q pd)"
    "updates pd t (\<lambda>e. e\<lparr>el_angmom := q\<rparr>) (setAngularMomentum t q pd)"
    "updates pd t (\<lambda>e. e\<lparr>el_inertia := v\<rparr>) (setMomentsOfInertia t v pd)"
    "updates pd t (\<lambda>e. e\<lparr>el_image := image_add img (m_o_image pd)\<rparr>) (setImage t img pd)"
    unfolding setVelocity_def setMass_def setCharge_def setDiameter_def setBody_def setOrientation_def
      setAngularMomentum_def setMomentsOfInertia_def setImage_def
    by (rule u, rule disjI1, rule refl, use s in \<open>simp add: ev\<close>)+
  show "updates pd t (\<lambda>e. e\<lparr>el_pos := (fst (el_pos e), typ)\<rparr>) (setType t typ pd)" if "unat typ < getNTypes pd"
    unfolding setType_def check_simps(1) [OF that] bindr_simps by (rule u, rule disjI2, rule refl, use s in \<open>simp add: ev\<close>)
qed

lemma setPosition_updates:
  assumes ok: "pdata_ok pd" and act: "t \<in> set (m_tag_set pd)"
  shows "\<exists>w img. updates pd t (\<lambda>e. e\<lparr>el_pos := (w, snd (el_pos e)), el_image := img\<rparr>) (setPosition t p pd)
    \<and> (w, img) = wrap (m_global_box pd) (p + m_origin pd) (m_image (m_arrays pd) ! (m_rtag pd ! t)) no_flags"
proof -
  let ?b = "m_global_box pd" and ?a = "m_arrays pd" and ?i = "m_rtag pd ! t"
  obtain w img where w: "wrap ?b (p + m_origin pd) (m_image ?a ! ?i) no_flags = (w, img)" by force
  have "updates pd t (\<lambda>e. e\<lparr>el_pos := (w, snd (el_pos e)), el_image := img\<rparr>) (setPosition t p pd)"
    unfolding setPosition_def Let_def
    by (rule local_set_updates [OF ok act, where a' = "?a\<lparr>m_pos := (m_pos ?a)[?i := (w, snd (m_pos ?a ! ?i))], m_image := (m_image ?a)[?i := img]\<rparr>"])
       (use active_index_sized [OF ok act] w in \<open>simp_all add: changes_one_def element_at_def arrays_sized_def\<close>)
  then show ?thesis using w by force
qed

lemma getPosition_active:
  assumes "pdata_ok pd" "t \<in> set (m_tag_set pd)"
  shows "getPosition t pd = Inr (fst (snapshot_place pd (m_rtag pd ! t)))"
    "getImage_pdata t pd = Inr (snd (snapshot_place pd (m_rtag pd ! t)))"
  by (simp_all add: getPosition_def getImage_pdata_def snapshot_place_def local_get_active [OF assms] Let_def)

text \<open>C24: access by tag. For the tag of a particle the getters return the fields of that particle, the position and
  image being wrapped into the box relative to the origin, and the net force and torque those stored at its
  index; every setter changes its field of that particle and of no other, and the data stay well formed;
  \<open>setType\<close> requires a type that exists. For a recycled tag every getter fails its assertion; every
  setter silently does nothing when the tag is below the size of the reverse lookup and fails the assertion of
  \<open>getRTag\<close> when adding a particle has shrunk it below the tag. With MPI the lookup itself fails
  for every recycled tag.\<close>

theorem tag_accessors:
  assumes ok: "pdata_ok pd" and t: "particle pd t = Some e"
  shows "getVelocity t pd = Inr (vec3_of_scalar4 (el_vel e)) \<and> getMass t pd = Inr (sw (el_vel e))
    \<and> getAcceleration t pd = Inr (el_accel e) \<and> getCharge t pd = Inr (el_charge e)
    \<and> getDiameter t pd = Inr (el_diameter e) \<and> getBody t pd = Inr (el_body e) \<and> getType t pd = Inr (snd (el_pos e))
    \<and> getOrientation t pd = Inr (el_orientation e) \<and> getAngularMomentum t pd = Inr (el_angmom e)
    \<and> getMomentsOfInertia t pd = Inr (el_inertia e)
    \<and> (let (w, img) = wrap (m_global_box pd) (fst (el_pos e) - m_origin pd) (image_sub (el_image e) (m_o_image pd)) no_flags
       in getPosition t pd = Inr w \<and> getImage_pdata t pd = Inr img)
    \<and> getPNetForce t pd = Inr (m_net_force (m_arrays pd) ! (m_rtag pd ! t))
    \<and> getNetTorque t pd = Inr (m_net_torque (m_arrays pd) ! (m_rtag pd ! t))
    \<and> updates pd t (\<lambda>e. e\<lparr>el_vel := Scalar4 (vx v) (vy v) (vz v) (sw (el_vel e))\<rparr>) (setVelocity t v pd)
    \<and> updates pd t (\<lambda>e. e\<lparr>el_vel := Scalar4 (sx (el_vel e)) (sy (el_vel e)) (sz (el_vel e)) x\<rparr>) (setMass t x pd)
    \<and> updates pd t (\<lambda>e. e\<lparr>el_charge := x\<rparr>) (setCharge t x pd)
    \<and> updates pd t (\<lambda>e. e\<lparr>el_diameter := x\<rparr>) (setDiameter t x pd)
    \<and> updates pd t (\<lambda>e. e\<lparr>el_body := nat (n mod 2 ^ 32)\<rparr>) (setBody t n pd)
    \<and> (if unat typ < getNTypes pd then updates pd t (\<lambda>e. e\<lparr>el_pos := (fst (el_pos e), typ)\<rparr>) (setType t typ pd)
       else setType t typ pd = Inl Assertion_failed)
    \<and> updates pd t (\<lambda>e. e\<lparr>el_orientation := q\<rparr>) (setOrientation t q pd)
    \<and> updates pd t (\<lambda>e. e\<lparr>el_angmom := q\<rparr>) (setAngularMomentum t q pd)
    \<and> updates pd t (\<lambda>e. e\<lparr>el_inertia := v\<rparr>) (setMomentsOfInertia t v pd)
    \<and> updates pd t (\<lambda>e. e\<lparr>el_image := image_add img (m_o_image pd)\<rparr>) (setImage t img pd)
    \<and> (\<exists>w img. updates pd t (\<lambda>e. e\<lparr>el_pos := (w, snd (el_pos e)), el_image := img\<rparr>) (setPosition t p pd)
         \<and> (w, img) = wrap (m_global_box pd) (p + m_origin pd) (el_image e) no_flags)
    \<and> (\<forall>r \<in> set (m_recycled_tags pd).
         getPosition r pd = Inl Assertion_failed \<and> getVelocity r pd = Inl Assertion_failed
         \<and> getAcceleration r pd = Inl Assertion_failed \<and> getImage_pdata r pd = Inl Assertion_failed
         \<and> getCharge r pd = Inl Assertion_failed \<and> getMass r pd = Inl Assertion_failed
         \<and> getDiameter r pd = Inl Assertion_failed \<and> getBody r pd = Inl Assertion_failed
         \<and> getType r pd = Inl Assertion_failed \<and> getOrientation r pd = Inl Assertion_failed
         \<and> getAngularMomentum r pd = Inl Assertion_failed \<and> getMomentsOfInertia r pd = Inl Assertion_failed
         \<and> getPNetForce r pd = Inl Assertion_failed \<and> getNetTorque r pd = Inl Assertion_failed
         \<and> apply_setter f r pd = (if setter_type_ok f pd \<and> r < m_rtag_size pd then Inr pd else Inl Assertion_failed)
         \<and> getRTag_in True r pd = Inl Assertion_failed)"
proof -
  have act: "t \<in> set (m_tag_set pd)" and e: "e = element_at (m_arrays pd) (m_rtag pd ! t)"
    using t by (auto simp: particle_def split: if_splits)
  note g = local_get_active [OF ok act]
  have gets: "getVelocity t pd = Inr (vec3_of_scalar4 (el_vel e))" "getMass t pd = Inr (sw (el_vel e))"
    "getAcceleration t pd = Inr (el_accel e)" "getCharge t pd = Inr (el_charge e)"
    "getDiameter t pd = Inr (el_diameter e)" "getBody t pd = Inr (el_body e)" "getType t pd = Inr (snd (el_pos e))"
    "getOrientation t pd = Inr (el_orientation e)" "getAngularMomentum t pd = Inr (el_angmom e)"
    "getMomentsOfInertia t pd = Inr (el_inertia e)"
    "getPNetForce t pd = Inr (m_net_force (m_arrays pd) ! (m_rtag pd ! t))"
    "getNetTorque t pd = Inr (m_net_torque (m_arrays pd) ! (m_rtag pd ! t))"
    by (simp_all add: e element_at_def getVelocity_def getMass_def getAcceleration_def getCharge_def getDiameter_def getBody_def
        getType_def getOrientation_def getAngularMomentum_def getMomentsOfInertia_def getPNetForce_def getNetTorque_def g
        Let_def make_scalar3_def vec3_of_scalar4_def)
  have place: "let (w, img) = wrap (m_global_box pd) (fst (el_pos e) - m_origin pd) (image_sub (el_image e) (m_o_image pd)) no_flags
      in getPosition t pd = Inr w \<and> getImage_pdata t pd = Inr img"
    by (simp add: getPosition_active [OF ok act] snapshot_place_def e element_at_def Let_def split: prod.split)
  have typed: "setType t typ pd = Inl Assertion_failed" if "\<not> unat typ < getNTypes pd" using that by (simp add: setType_def)
  have "\<exists>w img. updates pd t (\<lambda>e. e\<lparr>el_pos := (w, snd (el_pos e)), el_image := img\<rparr>) (setPosition t p pd)
      \<and> (w, img) = wrap (m_global_box pd) (p + m_origin pd) (el_image e) no_flags"
    using setPosition_updates [OF ok act, of p] by (simp add: e element_at_def)
  then show ?thesis using gets place setter_updates [OF ok act] typed getters_removed [OF ok] getRTag_removed(2) [OF ok]
    by (simp add: apply_setter_removed [OF ok])
qed

section \<open>Wrapping in a periodic box\<close>

definition periodic_box :: "BoxDim \<Rightarrow> bool" where
  "periodic_box b \<longleftrightarrow> box_ok b \<and> box_centred b \<and> m_periodic b = all_periodic"

definition unit_fraction :: "Scalar3 \<Rightarrow> bool" where
  "unit_fraction f \<longleftrightarrow> 0 \<le> vx f \<and> vx f < 1 \<and> 0 \<le> vy f \<and> vy f < 1 \<and> 0 \<le> vz f \<and> vz f < 1"

definition inside :: "BoxDim \<Rightarrow> Scalar3 \<Rightarrow> bool" where
  "inside b w \<longleftrightarrow> unit_fraction (makeFraction b w)"

lemma of_int_small: "- 1 < real_of_int k \<Longrightarrow> real_of_int k < 1 \<Longrightarrow> k = 0"
  by linarith

text \<open>A point of the crystal has one image inside the box.\<close>

lemma inside_unique:
  assumes "box_ok b" "inside b w" "inside b v" "w + lattice_point b m = v + lattice_point b n"
  shows "w = v \<and> m = n"
proof -
  have f: "makeFraction b w = makeFraction b v + Vec3 (of_int (tx n - tx m)) (of_int (ty n - ty m)) (of_int (tz n - tz m))"
    by (rule makeFraction_lattice_diff [OF assms(1,4)])
  have "tx n - tx m = 0" "ty n - ty m = 0" "tz n - tz m = 0"
    by (rule of_int_small; use assms(2,3) f in \<open>simp add: inside_def unit_fraction_def\<close>)+
  then have "m = n" by (simp add: tri.expand)
  moreover have "w = v" by (rule makeFraction_inj [OF assms(1)]) (simp add: f \<open>m = n\<close> vec3_eq_iff)
  ultimately show ?thesis by simp
qed

lemma wrap_periodic_fraction:
  assumes "periodic_box b"
  shows "makeFraction b (fst (wrap b w img no_flags)) =
    Vec3 (into_unit True (vx (makeFraction b w))) (into_unit True (vy (makeFraction b w))) (into_unit True (vz (makeFraction b w)))"
  using wrap_fraction [of b w img] assms by (simp add: periodic_box_def Let_def)

lemma wrap_lands_inside:
  assumes "periodic_box b" "\<And>c. c \<in> {vx (makeFraction b w), vy (makeFraction b w), vz (makeFraction b w)} \<Longrightarrow> - 1 \<le> c \<and> c < 2"
  shows "inside b (fst (wrap b w img no_flags))"
  using into_unit_range [of "vx (makeFraction b w)"] into_unit_range [of "vy (makeFraction b w)"]
    into_unit_range [of "vz (makeFraction b w)"] assms(2)
  by (simp add: inside_def unit_fraction_def wrap_periodic_fraction [OF assms(1)])

lemma wrap_inside:
  assumes "periodic_box b" "inside b w"
  shows "wrap b w img no_flags = (w, img)"
proof (cases "wrap b w img no_flags")
  case (Pair w' img')
  have "inside b w'"
    using wrap_lands_inside [OF assms(1), of w img] assms(2) Pair by (force simp: inside_def unit_fraction_def)
  then show ?thesis using inside_unique [of b w' w img' img] wrap_position [OF Pair] assms Pair
    by (simp add: periodic_box_def)
qed

lemma makeFraction_centre:
  assumes "periodic_box b"
  shows "makeFraction b (v + w) = makeFraction b v + makeFraction b w - Vec3 (1/2) (1/2) (1/2)"
    and "makeFraction b (v - w) = makeFraction b v - makeFraction b w + Vec3 (1/2) (1/2) (1/2)"
  using assms box_okD [of b]
  by (auto simp: periodic_box_def box_centred_def makeFraction_components vec3_eq_iff field_simps)

lemma wrap_sum_difference:
  assumes "periodic_box b" "inside b v" "inside b w"
  shows "inside b (fst (wrap b (v + w) img no_flags))" "inside b (fst (wrap b (v - w) img no_flags))"
  using assms(2,3)
  by (intro wrap_lands_inside [OF assms(1)]; force simp: makeFraction_centre [OF assms(1)] inside_def unit_fraction_def)+

lemma lattice_point_sub: "lattice_point b (image_sub m n) = lattice_point b m - lattice_point b n"
  by (simp add: vec3_eq_iff image_sub_def algebra_simps)

section \<open>Positions\<close>

text \<open>C21: positions. In a periodic box, with the origin anywhere in it, a position of the box that is set
  is the position read back, whatever the image flags and the shift of the origin, and the image read
  back is the old image relative to the origin; no other particle changes. The stored position is
  inside the box.\<close>

theorem set_position_get:
  assumes ok: "pdata_ok pd" and t: "particle pd t = Some e"
    and b: "periodic_box (m_global_box pd)" "inside (m_global_box pd) (m_origin pd)" and p: "inside (m_global_box pd) p"
  shows "\<exists>pd'. setPosition t p pd = Inr pd' \<and> pdata_ok pd' \<and> getPosition t pd' = Inr p
    \<and> getImage_pdata t pd' = Inr (image_sub (el_image e) (m_o_image pd))
    \<and> inside (m_global_box pd) (fst (m_pos (m_arrays pd') ! (m_rtag pd' ! t)))
    \<and> (\<forall>u. u \<noteq> t \<longrightarrow> particle pd' u = particle pd u)"
proof -
  let ?b = "m_global_box pd" and ?a = "m_arrays pd" and ?i = "m_rtag pd ! t"
  have act: "t \<in> set (m_tag_set pd)" and e: "e = element_at ?a ?i"
    using t by (auto simp: particle_def split: if_splits)
  note s = active_index_sized [OF ok act]
  obtain w img where w: "wrap ?b (p + m_origin pd) (m_image ?a ! ?i) no_flags = (w, img)" by force
  let ?a' = "?a\<lparr>m_pos := (m_pos ?a)[?i := (w, snd (m_pos ?a ! ?i))], m_image := (m_image ?a)[?i := img]\<rparr>"
  let ?pd = "pd\<lparr>m_arrays := ?a'\<rparr>"
  have "updates pd t (\<lambda>e. e\<lparr>el_pos := (w, snd (el_pos e)), el_image := img\<rparr>) (setPosition t p pd)"
    unfolding setPosition_def Let_def
    by (rule local_set_updates [OF ok act, where a' = ?a'])
       (use s w in \<open>simp_all add: changes_one_def element_at_def arrays_sized_def\<close>)
  moreover have set: "setPosition t p pd = Inr ?pd"
    using w by (simp add: setPosition_def local_set_def getRTag_active [OF ok act])
  ultimately have ok': "pdata_ok ?pd" and frame: "\<And>u. u \<noteq> t \<Longrightarrow> particle ?pd u = particle pd u"
    by (auto simp: updates_def)
  have w_in: "inside ?b w" using wrap_sum_difference(1) [OF b(1) p b(2), of "m_image ?a ! ?i"] w by simp
  have here: "m_pos ?a' ! ?i = (w, snd (m_pos ?a ! ?i))" "m_image ?a' ! ?i = img"
    using s by (simp_all add: arrays_sized_def)
  obtain r img' where r: "wrap ?b (w - m_origin pd) (image_sub img (m_o_image pd)) no_flags = (r, img')" by force
  have r_in: "inside ?b r" using wrap_sum_difference(2) [OF b(1) w_in b(2), of "image_sub img (m_o_image pd)"] r by simp
  have "r + lattice_point ?b img' = p + lattice_point ?b (image_sub (el_image e) (m_o_image pd))"
    using wrap_position [OF r] wrap_position [OF w] by (simp add: e element_at_def lattice_point_sub algebra_simps)
  then have "r = p \<and> img' = image_sub (el_image e) (m_o_image pd)"
    using inside_unique r_in p b(1) unfolding periodic_box_def by blast
  moreover have "snapshot_place ?pd ?i = (r, img')" using r here by (simp add: snapshot_place_def)
  ultimately show ?thesis
    using set ok' frame w_in here getPosition_active [OF ok', of t] act by (intro exI [of _ ?pd]) simp
qed


section \<open>Snapshots\<close>

lemma scalar4_quat_round_trip [simp]: "quat_to_scalar4 (quat_of_scalar4 x) = x"
  by (simp add: quat_to_scalar4_def quat_of_scalar4_def make_scalar4_def)

lemma insert_upt: "foldl (\<lambda>ts tag. set_insert tag ts) [] [0..<n] = [0..<n]"
proof (induction n)
  case (Suc n)
  have "insort n [0..<n] = [0..<n] @ [n]" by (rule sorted_insort_is_snoc) auto
  then show ?case using Suc by (simp add: set_insert_def)
qed simp

definition snapshot_element :: "SnapshotParticleData \<Rightarrow> nat \<Rightarrow> pdata_element" where
  "snapshot_element s t = \<lparr>el_pos = (s_pos s ! t, s_type s ! t),
     el_vel = Scalar4 (vx (s_vel s ! t)) (vy (s_vel s ! t)) (vz (s_vel s ! t)) (s_mass s ! t),
     el_accel = s_accel s ! t, el_charge = s_charge s ! t, el_diameter = s_diameter s ! t, el_image = s_image s ! t,
     el_body = s_body s ! t, el_orientation = quat_to_scalar4 (s_orientation s ! t),
     el_angmom = quat_to_scalar4 (s_angmom s ! t), el_inertia = s_inertia s ! t, el_tag = t\<rparr>"

lemma initializeFromSnapshot_spec:
  assumes v: "validate s" and n: "0 < s_size s" "s_size s < NOT_LOCAL"
  shows "\<exists>pd'. initializeFromSnapshot s pd = Inr pd' \<and> pdata_ok pd'
    \<and> m_tag_set pd' = [0..<s_size s] \<and> m_recycled_tags pd' = [] \<and> m_nparticles pd' = s_size s \<and> m_rtag pd' = [0..<s_size s]
    \<and> m_global_box pd' = m_global_box pd \<and> m_origin pd' = Vec3 0 0 0 \<and> m_o_image pd' = Tri 0 0 0
    \<and> m_type_mapping pd' = s_type_mapping s \<and> m_arrays pd' = load_snapshot s (arrays_new (s_size s))
    \<and> (\<forall>t < s_size s. particle pd' t = Some (snapshot_element s t))"
proof -
  let ?N = "s_size s" and ?a = "load_snapshot s (arrays_new (s_size s))"
  define q where "q = pd\<lparr>m_tag_set := [0..<?N], m_recycled_tags := [], m_rtag := [0..<?N], m_rtag_size := ?N, m_nparticles := ?N,
    m_nghosts := 0, m_invalid_cached_tags := True, m_max_nparticles := ?N, m_arrays := ?a, m_alt := arrays_new ?N,
    m_type_mapping := s_type_mapping s, m_nglobal := ?N, m_origin := Vec3 0 0 0, m_o_image := Tri 0 0 0,
    m_signals := m_signals pd @ [Ghost_particles_removed (m_nghosts pd), Max_particle_num ?N, Global_particle_num ?N, Sort,
      Num_types (length (s_type_mapping s))]\<rparr>"
  have "s_type_mapping s \<noteq> []" using v by (simp add: validate_def)
  then have "initializeFromSnapshot s pd = Inr q"
    using v n(1) by (simp add: initializeFromSnapshot_def clear_for_snapshot_def removeAllGhostParticles_def emit_def Let_def insert_upt
        allocate_pdata_def allocateAlternateArrays_def setNGlobal_def notifyParticleSort_def resetOrigin_def q_def)
  moreover have "arrays_sized ?N ?a" using arrays_sized_new [of ?N] by (simp add: arrays_sized_def load_snapshot_def Let_def)
  then have "pdata_ok q"
    using n by (auto simp: q_def pdata_ok_def tags_ok_def load_snapshot_def Let_def NOT_LOCAL_def)
  moreover have "particle q t = Some (snapshot_element s t)" if "t < ?N" for t
    using that by (simp add: q_def particle_def element_at_def snapshot_element_def load_snapshot_def Let_def)
  ultimately show ?thesis by (intro exI [of _ q]) (simp add: q_def)
qed

lemma takeSnapshot_runs:
  assumes "pdata_ok pd"
  shows "length (m_tag_set pd) = m_nparticles pd"
    "list_all (\<lambda>tag. tag \<le> getMaximumTag pd \<and> m_rtag pd ! tag < m_nparticles pd) (m_tag_set pd)"
proof -
  note d = pdata_okD [OF assms]
  show "length (m_tag_set pd) = m_nparticles pd" by (rule d)
  have "sorted (m_tag_set pd)" using d(1) unfolding tags_ok_def by blast
  then show "list_all (\<lambda>tag. tag \<le> getMaximumTag pd \<and> m_rtag pd ! tag < m_nparticles pd) (m_tag_set pd)"
    using d(11) by (auto simp: list_all_iff getMaximumTag_def intro: sorted_last)
qed

text \<open>Snapshots. A snapshot of well-formed particle data succeeds, is valid, and its entry \<open>k\<close> is the
  particle with the \<open>k\<close>-th active tag, at the position and image the accessors return, which is the
  stored position relative to the origin up to a lattice vector recorded in the image.\<close>

theorem takeSnapshot_entries:
  assumes ok: "pdata_ok pd" and types: "m_type_mapping pd \<noteq> []"
  shows "\<exists>s. takeSnapshot pd = Inr s \<and> validate s \<and> s_size s = m_nparticles pd \<and> s_type_mapping s = m_type_mapping pd
    \<and> (\<forall>k < m_nparticles pd. \<exists>e. particle pd (m_tag_set pd ! k) = Some e
        \<and> getPosition (m_tag_set pd ! k) pd = Inr (s_pos s ! k) \<and> getImage_pdata (m_tag_set pd ! k) pd = Inr (s_image s ! k)
        \<and> s_pos s ! k + lattice_point (m_global_box pd) (s_image s ! k)
          = fst (el_pos e) - m_origin pd + lattice_point (m_global_box pd) (image_sub (el_image e) (m_o_image pd))
        \<and> snapshot_element s k = e\<lparr>el_pos := (s_pos s ! k, snd (el_pos e)), el_image := s_image s ! k, el_tag := k\<rparr>)"
proof -
  let ?ids = "map (\<lambda>tag. m_rtag pd ! tag) (m_tag_set pd)"
  note len = takeSnapshot_runs [OF ok] and d = pdata_okD [OF ok]
  obtain s where s: "takeSnapshot pd = Inr s" using len by (simp add: takeSnapshot_def Let_def)
  then have sd: "s_pos s = map (\<lambda>idx. fst (snapshot_place pd idx)) ?ids" "s_image s = map (\<lambda>idx. snd (snapshot_place pd idx)) ?ids"
    "s_size s = m_nparticles pd" "s_type_mapping s = m_type_mapping pd"
    using len d(2) by (auto simp: takeSnapshot_def Let_def)
  have valid: "validate s" using s len d(2) types by (auto simp: takeSnapshot_def Let_def validate_def)
  have entry: "\<exists>e. particle pd (m_tag_set pd ! k) = Some e
        \<and> getPosition (m_tag_set pd ! k) pd = Inr (s_pos s ! k) \<and> getImage_pdata (m_tag_set pd ! k) pd = Inr (s_image s ! k)
        \<and> s_pos s ! k + lattice_point (m_global_box pd) (s_image s ! k)
          = fst (el_pos e) - m_origin pd + lattice_point (m_global_box pd) (image_sub (el_image e) (m_o_image pd))
        \<and> snapshot_element s k = e\<lparr>el_pos := (s_pos s ! k, snd (el_pos e)), el_image := s_image s ! k, el_tag := k\<rparr>"
    if k: "k < m_nparticles pd" for k
  proof -
    let ?t = "m_tag_set pd ! k" and ?i = "m_rtag pd ! (m_tag_set pd ! k)"
    have act: "?t \<in> set (m_tag_set pd)" using k len(1) by simp
    obtain w img where w: "snapshot_place pd ?i = (w, img)" by force
    have at: "s_pos s ! k = w" "s_image s ! k = img" using k len(1) w by (simp_all add: sd)
    have "snapshot_element s k = (element_at (m_arrays pd) ?i)\<lparr>el_pos := (w, snd (m_pos (m_arrays pd) ! ?i)), el_image := img, el_tag := k\<rparr>"
      using s len k w by (auto simp: takeSnapshot_def Let_def snapshot_element_def element_at_def vec3_of_scalar4_def)
    then show ?thesis using wrap_position [OF w [unfolded snapshot_place_def]] act w at getPosition_active [OF ok act]
      by (simp add: particle_def element_at_def)
  qed
  show ?thesis using s valid sd entry by blast
qed

text \<open>C18: a snapshot round trip. Loading a valid snapshot of a positive number of particles succeeds, whatever
  the data held before, into well-formed data that hold the particles of the snapshot by tag, wherever their positions
  are; when all of them lie in the periodic box, taking a snapshot again returns it unchanged. Only an
  empty or inconsistent snapshot is refused.\<close>

theorem snapshot_roundtrip:
  assumes "periodic_box (m_global_box pd)" "s_size s < NOT_LOCAL"
  shows "if validate s \<and> 0 < s_size s
    then \<exists>pd'. initializeFromSnapshot s pd = Inr pd' \<and> pdata_ok pd'
      \<and> (\<forall>t. particle pd' t = (if t < s_size s then Some (snapshot_element s t) else None))
      \<and> ((\<forall>i < s_size s. inside (m_global_box pd) (s_pos s ! i)) \<longrightarrow> takeSnapshot pd' = Inr s)
    else initializeFromSnapshot s pd = Inl Runtime_error"
proof (cases "validate s \<and> 0 < s_size s")
  case False
  then show ?thesis by (auto simp: initializeFromSnapshot_def clear_for_snapshot_def removeAllGhostParticles_def Let_def allocate_pdata_def)
next
  case True
  let ?N = "s_size s"
  obtain pd' where p: "initializeFromSnapshot s pd = Inr pd'" "pdata_ok pd'" "m_tag_set pd' = [0..<?N]" "m_nparticles pd' = ?N"
    "m_rtag pd' = [0..<?N]" "m_global_box pd' = m_global_box pd" "m_origin pd' = Vec3 0 0 0" "m_o_image pd' = Tri 0 0 0"
    "m_type_mapping pd' = s_type_mapping s" "m_arrays pd' = load_snapshot s (arrays_new ?N)"
    "\<forall>t < ?N. particle pd' t = Some (snapshot_element s t)"
    using initializeFromSnapshot_spec [OF conjunct1 [OF True] conjunct2 [OF True] assms(2), of pd] by (elim exE conjE) (rule that)
  have ids: "map (\<lambda>tag. m_rtag pd' ! tag) (m_tag_set pd') = [0..<?N]" by (auto simp: p intro: map_idI)
  have parts: "particle pd' t = (if t < ?N then Some (snapshot_element s t) else None)" for t
    using p(11) by (simp add: particle_def p(3))
  have place: "snapshot_place pd' i = (s_pos s ! i, s_image s ! i)"
    if "i < ?N" "inside (m_global_box pd) (s_pos s ! i)" for i
  proof -
    have z: "s_pos s ! i - Vec3 0 0 0 = s_pos s ! i" "image_sub (s_image s ! i) (Tri 0 0 0) = s_image s ! i"
      by (simp_all add: vec3_eq_iff image_sub_def)
    then show ?thesis using that(1) wrap_inside [OF assms(1) that(2)]
      by (simp add: snapshot_place_def p load_snapshot_def Let_def)
  qed
  have l: "length xs = ?N \<Longrightarrow> map (\<lambda>i. xs ! i) [0..<?N] = xs" for xs :: "'z list" using map_nth [of xs] by simp
  have v: "length (s_pos s) = ?N" "length (s_vel s) = ?N" "length (s_accel s) = ?N" "length (s_type s) = ?N" "length (s_mass s) = ?N"
    "length (s_charge s) = ?N" "length (s_diameter s) = ?N" "length (s_image s) = ?N" "length (s_body s) = ?N"
    "length (s_orientation s) = ?N" "length (s_angmom s) = ?N" "length (s_inertia s) = ?N"
    using True by (simp_all add: validate_def)
  have m: "map f [0..<?N] = xs" if "length xs = ?N" "\<And>i. i < ?N \<Longrightarrow> f i = xs ! i" for f and xs :: "'z list"
    using that by (simp add: list_eq_iff_nth_eq)
  have arr: "m_vel (m_arrays pd') ! i = Scalar4 (vx (s_vel s ! i)) (vy (s_vel s ! i)) (vz (s_vel s ! i)) (s_mass s ! i)"
    "m_accel (m_arrays pd') ! i = s_accel s ! i" "snd (m_pos (m_arrays pd') ! i) = s_type s ! i" "m_charge (m_arrays pd') ! i = s_charge s ! i"
    "m_diameter (m_arrays pd') ! i = s_diameter s ! i" "m_body (m_arrays pd') ! i = s_body s ! i"
    "quat_of_scalar4 (m_orientation (m_arrays pd') ! i) = s_orientation s ! i"
    "quat_of_scalar4 (m_angmom (m_arrays pd') ! i) = s_angmom s ! i" "m_inertia (m_arrays pd') ! i = s_inertia s ! i" if "i < ?N" for i
    using that by (simp_all add: p load_snapshot_def Let_def quat_scalar4_round_trip)
  have "takeSnapshot pd' = Inr s" if inside: "\<forall>i < ?N. inside (m_global_box pd) (s_pos s ! i)"
    unfolding takeSnapshot_def check_simps(1) [OF takeSnapshot_runs(1) [OF p(2)]] check_simps(1) [OF takeSnapshot_runs(2) [OF p(2)]]
      bindr_simps
    unfolding ids Let_def pdata_okD(2) [OF p(2)] p(4,9)
    by (intro arg_cong [of _ s Inr] SnapshotParticleData.equality)
       (simp_all, (rule m; simp add: v place inside [rule_format] arr vec3_of_scalar4_def)+)
  then show ?thesis using p(1,2) parts True by auto
qed

section \<open>All operations keep the data well formed\<close>

lemma reallocate_pdata_ok:
  assumes "pdata_ok pd" "m_max_nparticles pd < k" "m_nparticles pd + g \<le> k" "m_nparticles pd + g < 2 ^ 32"
  shows "pdata_ok (reallocate_pdata k (pd\<lparr>m_nghosts := g\<rparr>))" "m_max_nparticles (reallocate_pdata k (pd\<lparr>m_nghosts := g\<rparr>)) = k"
    "particle (reallocate_pdata k (pd\<lparr>m_nghosts := g\<rparr>)) = particle pd"
proof -
  note d = pdata_okD [OF assms(1)]
  let ?q = "reallocate_pdata k (pd\<lparr>m_nghosts := g\<rparr>)"
  have alt: "m_pos (m_alt pd) \<noteq> []" using d(5,7) by (auto simp: arrays_sized_def)
  have q: "m_arrays ?q = arrays_resize k (m_arrays pd)" "m_alt ?q = arrays_resize k (m_alt pd)" "m_max_nparticles ?q = k"
    "m_nparticles ?q = m_nparticles pd" "m_nghosts ?q = g" "m_nglobal ?q = m_nglobal pd" "m_rtag ?q = m_rtag pd"
    "m_rtag_size ?q = m_rtag_size pd" "m_tag_set ?q = m_tag_set pd" "m_recycled_tags ?q = m_recycled_tags pd"
    "m_invalid_cached_tags ?q = m_invalid_cached_tags pd" "m_cached_tag_set ?q = m_cached_tag_set pd"
    using alt by (simp_all add: reallocate_pdata_def Let_def)
  show "m_max_nparticles ?q = k" by (rule q)
  have el: "element_at (arrays_resize k (m_arrays pd)) i = element_at (m_arrays pd) i" if "i < m_nparticles pd" for i
    by (rule element_at_resize [OF d(6)]) (use that d(3) assms(2) in linarith)+
  have tag: "m_tag (arrays_resize k (m_arrays pd)) ! i = m_tag (m_arrays pd) ! i" if "i < m_nparticles pd" for i
    using el [OF that] by (simp add: element_at_def)
  have len: "length (m_tag (m_arrays pd)) = m_max_nparticles pd" using d(6) by (simp add: arrays_sized_def)
  have "tags_ok (m_nparticles pd) (m_tag (arrays_resize k (m_arrays pd))) (m_rtag pd) (m_tag_set pd) (m_recycled_tags pd)"
    using d(1) tag assms(2) len unfolding tags_ok_def by simp
  then show "pdata_ok ?q"
    unfolding pdata_ok_def q using d(2,4-8,10,14,16) d(9) assms(2-4) arrays_sized_resize by fastforce
  show "particle ?q = particle pd" by (auto simp: fun_eq_iff particle_def q el d(11))
qed

lemma addGhostParticles_ok:
  assumes "pdata_ok pd" and n: "m_nparticles pd + m_nghosts pd + n < 2 ^ 31"
  shows "pdata_ok (addGhostParticles n pd)" "particle (addGhostParticles n pd) = particle pd"
proof -
  note d = pdata_okD [OF assms(1)]
  let ?m = "m_nparticles pd + (m_nghosts pd + n)"
  have m: "(m_nghosts pd + n) mod 2 ^ 32 = m_nghosts pd + n" "?m mod 2 ^ 32 = ?m" using n by simp_all
  have g: "?m \<le> grow_until ?m (m_max_nparticles pd)" by (rule grow_until_bounds)
  have "pdata_ok (addGhostParticles n pd) \<and> particle (addGhostParticles n pd) = particle pd"
  proof (cases "?m > m_max_nparticles pd")
    case True
    then show ?thesis
      using reallocate_pdata_ok [OF assms(1), of "grow_until ?m (m_max_nparticles pd)" "m_nghosts pd + n"] g n
      by (simp add: addGhostParticles_def Let_def m)
  next
    case False
    then show ?thesis using assms by (simp add: addGhostParticles_def Let_def m pdata_ok_def particle_def fun_eq_iff)
  qed
  then show "pdata_ok (addGhostParticles n pd)" "particle (addGhostParticles n pd) = particle pd" by simp_all
qed

lemma local_set_ok:
  assumes ok: "pdata_ok pd" and l: "r = local_set t f pd" and r: "r = Inr pd'"
    and up: "t \<in> set (m_tag_set pd) \<Longrightarrow> updates pd t h r"
  shows "pdata_ok pd'"
proof (cases "t \<in> set (m_tag_set pd)")
  case True
  then show ?thesis using up r by (auto simp: updates_def)
next
  case False
  have "t < m_rtag_size pd" using l r by (cases "t < m_rtag_size pd") (simp_all add: local_set_def getRTag_def getRTag_in_def)
  then have "t \<in> set (m_recycled_tags pd)" using tag_cases [OF ok, of t] False by blast
  then show ?thesis using local_set_removed [OF ok, of t f] \<open>t < m_rtag_size pd\<close> l r ok by simp
qed

text \<open>Changes of the members that the invariant does not mention.\<close>

lemma pdata_ok_frame [simp]:
  "pdata_ok (pd\<lparr>m_type_mapping := x1\<rparr>) = pdata_ok pd" "pdata_ok (pd\<lparr>m_origin := x2, m_o_image := x3\<rparr>) = pdata_ok pd"
  "pdata_ok (pd\<lparr>m_external_virial := x4\<rparr>) = pdata_ok pd" "pdata_ok (pd\<lparr>m_flags := x5\<rparr>) = pdata_ok pd"
  "pdata_ok (pd\<lparr>m_global_box := x6, m_box := x7\<rparr>) = pdata_ok pd"
  by (simp_all add: pdata_ok_def)

lemma removeAllGhostParticles_ok: "pdata_ok pd \<Longrightarrow> pdata_ok (removeAllGhostParticles pd)"
  by (auto simp: pdata_ok_def removeAllGhostParticles_def)

lemma getNthTag_spec:
  assumes "pdata_ok pd"
  shows "if n < m_nparticles pd
    then \<exists>pd'. getNthTag n pd = Inr (m_tag_set pd ! n, pd') \<and> pdata_ok pd' \<and> particle pd' = particle pd
      \<and> m_tag_set pd' = m_tag_set pd \<and> \<not> m_invalid_cached_tags pd'
    else getNthTag n pd = Inl Runtime_error"
  using pdata_okD(2,13,14) [OF assms] assms
  by (auto simp: getNthTag_def maybe_rebuild_tag_cache_def Let_def pdata_ok_def particle_def fun_eq_iff)

text \<open>The states a client can bring the particle data into: from a constructor, by any sequence of the
  public operations that return, while particles, recycled tags and ghosts stay below \<open>2\<^sup>3\<^sup>1\<close>.\<close>

inductive pdata_reachable :: "ParticleData \<Rightarrow> bool" where
  Construct: "ParticleData_new N b ntypes = Inr pd \<Longrightarrow> N < NOT_LOCAL \<Longrightarrow> pdata_reachable pd"
| Construct_snapshot: "ParticleData_from_snapshot s b = Inr pd \<Longrightarrow> s_size s < NOT_LOCAL \<Longrightarrow> pdata_reachable pd"
| Load: "pdata_reachable pd \<Longrightarrow> initializeFromSnapshot s pd = Inr pd' \<Longrightarrow> s_size s < NOT_LOCAL \<Longrightarrow> pdata_reachable pd'"
| Add: "pdata_reachable pd \<Longrightarrow> m_nparticles pd + length (m_recycled_tags pd) < 2 ^ 31 \<Longrightarrow> addParticle typ pd = Inr (t, pd')
    \<Longrightarrow> pdata_reachable pd'"
| Remove: "pdata_reachable pd \<Longrightarrow> removeParticle t pd = Inr pd' \<Longrightarrow> pdata_reachable pd'"
| Set: "pdata_reachable pd \<Longrightarrow> apply_setter f t pd = Inr pd' \<Longrightarrow> pdata_reachable pd'"
| Nth: "pdata_reachable pd \<Longrightarrow> getNthTag n pd = Inr (t, pd') \<Longrightarrow> pdata_reachable pd'"
| Ghosts: "pdata_reachable pd \<Longrightarrow> m_nparticles pd + m_nghosts pd + n < 2 ^ 31 \<Longrightarrow> pdata_reachable (addGhostParticles n pd)"
| No_ghosts: "pdata_reachable pd \<Longrightarrow> pdata_reachable (removeAllGhostParticles pd)"
| Box: "pdata_reachable pd \<Longrightarrow> setGlobalBox b pd = Inr pd' \<Longrightarrow> pdata_reachable pd'"
| Origin: "pdata_reachable pd \<Longrightarrow> pdata_reachable (translateOrigin v pd)"
| Reset: "pdata_reachable pd \<Longrightarrow> pdata_reachable (resetOrigin pd)"
| Name: "pdata_reachable pd \<Longrightarrow> setTypeName n name pd = Inr pd' \<Longrightarrow> pdata_reachable pd'"
| Type: "pdata_reachable pd \<Longrightarrow> addType name pd = (n, pd') \<Longrightarrow> pdata_reachable pd'"
| Virial: "pdata_reachable pd \<Longrightarrow> setExternalVirial n v pd = Inr pd' \<Longrightarrow> pdata_reachable pd'"
| Flag: "pdata_reachable pd \<Longrightarrow> pdata_reachable (removeFlag n pd)"

lemma initialize_ok:
  assumes "initializeFromSnapshot s pd = Inr pd'" "s_size s < NOT_LOCAL"
  shows "pdata_ok pd'"
proof -
  have "validate s" "0 < s_size s"
    using assms(1) by (auto simp: initializeFromSnapshot_def clear_for_snapshot_def Let_def allocate_pdata_def removeAllGhostParticles_def split: if_splits)
  then show ?thesis using initializeFromSnapshot_spec [of s pd] assms by auto
qed

lemma apply_setter_ok:
  assumes ok: "pdata_ok pd" and r: "apply_setter f t pd = Inr pd'"
  shows "pdata_ok pd'"
proof -
  note u = setter_updates [OF ok, of t]
  show ?thesis
  proof (cases f)
    case (Set_position p)
    have l: "\<exists>g. setPosition t p pd = local_set t g pd" by (auto simp: setPosition_def Let_def)
    show ?thesis
    proof (cases "t \<in> set (m_tag_set pd)")
      case True
      then show ?thesis using setPosition_updates [OF ok True, of p] r Set_position by (auto simp: updates_def)
    next
      case False
      obtain g where g: "setPosition t p pd = local_set t g pd" using l by blast
      show ?thesis by (rule local_set_ok [OF ok g]) (use False r Set_position in simp_all)
    qed
  next
    case (Set_type k)
    then have k: "unat k < getNTypes pd" using r by (cases "unat k < getNTypes pd") (simp_all add: setType_def)
    have "\<exists>g. setType t k pd = local_set t g pd" using k by (auto simp: setType_def)
    then obtain g where g: "setType t k pd = local_set t g pd" by blast
    show ?thesis by (rule local_set_ok [OF ok g _ u(10) [OF _ k]]) (use r Set_type in simp_all)
  next
    case (Set_velocity x)
    then show ?thesis using r by (intro local_set_ok [OF ok setVelocity_def [THEN fun_cong, of _ _ pd] _ u(1)]) simp_all
  next
    case (Set_mass x)
    then show ?thesis using r by (intro local_set_ok [OF ok setMass_def [THEN fun_cong, of _ _ pd] _ u(2)]) simp_all
  next
    case (Set_charge x)
    then show ?thesis using r by (intro local_set_ok [OF ok setCharge_def [THEN fun_cong, of _ _ pd] _ u(3)]) simp_all
  next
    case (Set_diameter x)
    then show ?thesis using r by (intro local_set_ok [OF ok setDiameter_def [THEN fun_cong, of _ _ pd] _ u(4)]) simp_all
  next
    case (Set_body x)
    then show ?thesis using r by (intro local_set_ok [OF ok setBody_def [THEN fun_cong, of _ _ pd] _ u(5)]) simp_all
  next
    case (Set_orientation x)
    then show ?thesis using r by (intro local_set_ok [OF ok setOrientation_def [THEN fun_cong, of _ _ pd] _ u(6)]) simp_all
  next
    case (Set_angular_momentum x)
    then show ?thesis using r by (intro local_set_ok [OF ok setAngularMomentum_def [THEN fun_cong, of _ _ pd] _ u(7)]) simp_all
  next
    case (Set_moments_of_inertia x)
    then show ?thesis using r by (intro local_set_ok [OF ok setMomentsOfInertia_def [THEN fun_cong, of _ _ pd] _ u(8)]) simp_all
  next
    case (Set_image x)
    then show ?thesis using r by (intro local_set_ok [OF ok setImage_def _ u(9)]) simp_all
  qed
qed

text \<open>C3: the invariant. Whatever constructors and operations a client has called, in any order, as long as the
  particles of a constructor or snapshot are fewer than \<open>2\<^sup>3\<^sup>2 - 1\<close>, and particles and
  recycled tags before each \<open>addParticle\<close>, and particles and ghosts after each
  \<open>addGhostParticles\<close>, stay below \<open>2\<^sup>3\<^sup>1\<close>: tags and indices are inverse to
  each other, active and recycled tags partition an initial segment of the numbers, a recycled tag is marked as
  not local, all one-dimensional arrays have the allocated length, which covers particles and ghosts, the six
  rows of the net virial are no longer and have that length when it is at most \<open>2\<^sup>2\<^sup>6\<close>,
  and the cache of active tags is valid or marked invalid.\<close>

theorem pdata_reachable_ok:
  assumes "pdata_reachable pd"
  shows "pdata_ok pd"
  using assms
proof (induction rule: pdata_reachable.induct)
  case (Construct N b ntypes pd)
  then show ?case by (auto simp: ParticleData_new_def Let_def bindr_Inr snapshot_new_def snapshot_resize_def
        intro!: initialize_ok split: if_splits)
next
  case (Construct_snapshot s b pd)
  then show ?case by (auto simp: ParticleData_from_snapshot_def Let_def bindr_Inr intro!: initialize_ok split: if_splits)
next
  case (Load pd s pd')
  then show ?case using initialize_ok by blast
next
  case (Add pd "typ" t pd')
  then show ?case using addParticle_spec [OF Add.IH Add.hyps(2), of "typ"] by auto
next
  case (Remove pd t pd')
  then show ?case using removeParticle_spec [OF Remove.IH, of t] removeParticle_error [OF Remove.IH, of t]
    by (cases "t \<in> set (m_tag_set pd)") auto
next
  case (Set pd f t pd')
  then show ?case using apply_setter_ok by blast
next
  case (Nth pd n t pd')
  then show ?case using getNthTag_spec [OF Nth.IH, of n] by (auto split: if_splits)
next
  case (Box pd b pd')
  then show ?case by (auto simp: setGlobalBox_def bindr_Inr)
next
  case (Origin pd v)
  then show ?case by (simp add: translateOrigin_def Let_def split: prod.split)
next
  case (Name pd n name pd')
  then show ?case by (auto simp: setTypeName_def split: if_splits)
next
  case (Type pd name n pd')
  then show ?case by (auto simp: addType_def Let_def)
next
  case (Virial pd n v pd')
  then show ?case by (auto simp: setExternalVirial_def bindr_Inr)
qed (simp_all add: addGhostParticles_ok removeAllGhostParticles_ok resetOrigin_def removeFlag_def)

section \<open>The particles as a map from tags\<close>









text \<open>C36: the move forgets two fields. When a particle other than the last is removed, the last particle
  takes its index but not its angular momentum and moments of inertia, which are those of the removed
  particle afterwards; its velocity and orientation come along.\<close>

theorem removeParticle_rotation:
  assumes ok: "pdata_ok pd" and e: "particle pd t = Some e" and f: "particle pd u = Some f"
    and u: "u \<noteq> t" "m_rtag pd ! u = m_nparticles pd - 1"
  shows "\<exists>pd'. removeParticle t pd = Inr pd' \<and> getAngularMomentum u pd' = Inr (el_angmom e)
    \<and> getMomentsOfInertia u pd' = Inr (el_inertia e)
    \<and> getVelocity u pd' = getVelocity u pd \<and> getOrientation u pd' = getOrientation u pd"
proof -
  have act: "t \<in> set (m_tag_set pd)" "u \<in> set (m_tag_set pd)" and ee: "e = element_at (m_arrays pd) (m_rtag pd ! t)"
    using e f by (auto simp: particle_def split: if_splits)
  obtain pd' where r: "removeParticle t pd = Inr pd'" and ok': "pdata_ok pd'"
    and p: "particle pd' u = Some (f\<lparr>el_angmom := el_angmom e, el_inertia := el_inertia e\<rparr>)"
    using removeParticle_spec [OF ok act(1)] act(2) u f by (auto simp: ee element_at_def)
  have act': "u \<in> set (m_tag_set pd')" and "element_at (m_arrays pd') (m_rtag pd' ! u) = f\<lparr>el_angmom := el_angmom e, el_inertia := el_inertia e\<rparr>"
    "element_at (m_arrays pd) (m_rtag pd ! u) = f"
    using p f by (auto simp: particle_def split: if_splits)
  then show ?thesis using r
    by (auto simp: getAngularMomentum_def getMomentsOfInertia_def getVelocity_def getOrientation_def
        local_get_active [OF ok' act'] local_get_active [OF ok act(2)] element_at_def Let_def)
qed

section \<open>Examples\<close>

text \<open>Three particles in a cube, the first of which spins.\<close>

definition example_snapshot :: SnapshotParticleData where
  "example_snapshot = (snapshot_new 3)\<lparr>s_type_mapping := [''A''],
     s_pos := [Vec3 0 0 0, Vec3 1 0 0, Vec3 0 1 0],
     s_angmom := [Quat 5 (Vec3 0 0 0), Quat 0 (Vec3 0 0 0), Quat 0 (Vec3 0 0 0)]\<rparr>"

definition example_start :: ParticleData where
  "example_start = ParticleData_null\<lparr>m_global_box := BoxDim_cube 4, m_box := BoxDim_cube 4\<rparr>"

lemma example_snapshot_valid: "validate example_snapshot" "s_size example_snapshot = 3" "s_type_mapping example_snapshot = [''A'']"
  by (simp_all add: example_snapshot_def snapshot_new_def snapshot_resize_def snapshot_empty_def validate_def)

lemma example_box: "periodic_box (BoxDim_cube 4)" "inside (BoxDim_cube 4) (Vec3 0 0 0)" "inside (BoxDim_cube 4) (Vec3 1 0 0)"
  "inside (BoxDim_cube 4) (Vec3 0 1 0)"
proof -
  have ok: "box_ok (BoxDim_cube 4)" by (simp add: box_ok_def box_constructor_defs Let_def vec3_eq_iff)
  then show "periodic_box (BoxDim_cube 4)"
    by (simp add: periodic_box_def box_centred_def box_constructor_defs Let_def)
  show "inside (BoxDim_cube 4) (Vec3 0 0 0)" "inside (BoxDim_cube 4) (Vec3 1 0 0)" "inside (BoxDim_cube 4) (Vec3 0 1 0)"
    unfolding inside_def unit_fraction_def by (simp_all add: makeFraction_components [OF ok]) (simp_all add: box_constructor_defs Let_def)
qed

lemma example_state:
  obtains pd where "initializeFromSnapshot example_snapshot example_start = Inr pd" "pdata_ok pd" "m_tag_set pd = [0, 1, 2]"
    "m_nparticles pd = 3" "m_rtag pd = [0, 1, 2]" "m_recycled_tags pd = []" "m_global_box pd = BoxDim_cube 4" "m_origin pd = Vec3 0 0 0"
    "m_type_mapping pd = [''A'']" "\<And>t. t < 3 \<Longrightarrow> particle pd t = Some (snapshot_element example_snapshot t)"
proof -
  have n: "(0::nat) < s_size example_snapshot" "s_size example_snapshot < NOT_LOCAL"
    by (simp_all add: example_snapshot_valid NOT_LOCAL_def)
  have u: "[0..<3] = [0::nat, 1, 2]" by (simp add: upt_conv_Cons)
  show ?thesis
    using initializeFromSnapshot_spec [OF example_snapshot_valid(1) n, of example_start] that
    by (auto simp: example_snapshot_valid u example_start_def)
qed

theorem tag_accessors_witness:
  "\<exists>pd. initializeFromSnapshot example_snapshot example_start = Inr pd \<and> getMass 1 pd = Inr 1 \<and> getType 2 pd = Inr 0"
proof -
  obtain pd where pd: "initializeFromSnapshot example_snapshot example_start = Inr pd" "pdata_ok pd"
    "\<And>t. t < 3 \<Longrightarrow> particle pd t = Some (snapshot_element example_snapshot t)" by (rule example_state) blast
  have e: "sw (el_vel (snapshot_element example_snapshot 1)) = 1" "snd (el_pos (snapshot_element example_snapshot 2)) = 0"
    by (simp_all add: snapshot_element_def example_snapshot_def snapshot_new_def snapshot_resize_def snapshot_empty_def array_resize_def)
  show ?thesis
    using tag_accessors [OF pd(2) pd(3) [of 1]] tag_accessors [OF pd(2) pd(3) [of 2]] pd(1) e by auto
qed

theorem set_position_get_witness:
  "\<exists>pd pd'. initializeFromSnapshot example_snapshot example_start = Inr pd \<and> setPosition 1 (Vec3 0 1 0) pd = Inr pd'
    \<and> getPosition 1 pd' = Inr (Vec3 0 1 0)"
proof -
  obtain pd where pd: "initializeFromSnapshot example_snapshot example_start = Inr pd" "pdata_ok pd"
    "m_global_box pd = BoxDim_cube 4" "m_origin pd = Vec3 0 0 0"
    "\<And>t. t < 3 \<Longrightarrow> particle pd t = Some (snapshot_element example_snapshot t)" by (rule example_state) blast
  show ?thesis using set_position_get [OF pd(2) pd(5) [of 1], of "Vec3 0 1 0"] pd(1) by (auto simp: pd(3,4) example_box)
qed

theorem takeSnapshot_entries_witness:
  "\<exists>pd s. initializeFromSnapshot example_snapshot example_start = Inr pd \<and> takeSnapshot pd = Inr s \<and> s_size s = 3"
proof -
  obtain pd where pd: "initializeFromSnapshot example_snapshot example_start = Inr pd" "pdata_ok pd" "m_nparticles pd = 3"
    "m_type_mapping pd = [''A'']" by (rule example_state) blast
  show ?thesis using takeSnapshot_entries [OF pd(2)] pd by auto
qed

theorem snapshot_roundtrip_witness:
  "\<exists>pd. initializeFromSnapshot example_snapshot example_start = Inr pd \<and> takeSnapshot pd = Inr example_snapshot"
proof -
  have "inside (m_global_box example_start) (s_pos example_snapshot ! i)" if "i < s_size example_snapshot" for i
  proof -
    have "i = 0 \<or> i = 1 \<or> i = 2" using that by (auto simp: example_snapshot_valid)
    then show ?thesis using example_box by (auto simp: example_start_def example_snapshot_def)
  qed
  then show ?thesis
    using snapshot_roundtrip [of example_start example_snapshot] example_box
    by (simp add: example_snapshot_valid example_start_def NOT_LOCAL_def) blast
qed

theorem pdata_reachable_ok_witness:
  "\<exists>pd. ParticleData_new 3 (BoxDim_cube 4) 1 = Inr pd \<and> pdata_ok pd"
proof -
  let ?s = "(snapshot_new 3)\<lparr>s_type_mapping := map (\<lambda>i. [char_of (65 + i)]) [0..<1]\<rparr>"
  have v: "validate ?s" "s_size ?s = 3" by (simp_all add: snapshot_new_def snapshot_resize_def snapshot_empty_def validate_def)
  have b: "tx (m_periodic (BoxDim_cube 4))" "ty (m_periodic (BoxDim_cube 4))" "tz (m_periodic (BoxDim_cube 4))"
    using example_box(1) by (simp_all add: periodic_box_def)
  obtain pd where pd: "ParticleData_new 3 (BoxDim_cube 4) 1 = Inr pd"
    using initializeFromSnapshot_spec [of ?s] v b by (auto simp: ParticleData_new_def setGlobalBox_def NOT_LOCAL_def)
  then show ?thesis using pdata_reachable_ok [OF Construct [OF pd]] by (simp add: NOT_LOCAL_def)
qed


theorem removeParticle_rotation_witness:
  "\<exists>pd pd'. initializeFromSnapshot example_snapshot example_start = Inr pd \<and> removeParticle 0 pd = Inr pd'
    \<and> getAngularMomentum 2 pd = Inr (Scalar4 0 0 0 0) \<and> getAngularMomentum 2 pd' = Inr (Scalar4 5 0 0 0)"
proof -
  obtain pd where pd: "initializeFromSnapshot example_snapshot example_start = Inr pd" "pdata_ok pd" "m_nparticles pd = 3"
    "m_rtag pd = [0, 1, 2]" "m_tag_set pd = [0, 1, 2]"
    "\<And>t. t < 3 \<Longrightarrow> particle pd t = Some (snapshot_element example_snapshot t)" by (rule example_state) blast
  have a: "el_angmom (snapshot_element example_snapshot 0) = Scalar4 5 0 0 0" "el_angmom (snapshot_element example_snapshot 2) = Scalar4 0 0 0 0"
    by (simp_all add: snapshot_element_def example_snapshot_def quat_to_scalar4_def make_scalar4_def)
  have "element_at (m_arrays pd) 2 = snapshot_element example_snapshot 2" using pd(6) [of 2] by (simp add: particle_def pd(4,5))
  then have "getAngularMomentum 2 pd = Inr (Scalar4 0 0 0 0)"
    using a(2) by (simp add: getAngularMomentum_def local_get_active [OF pd(2)] pd(4,5) element_at_def snapshot_element_def)
  then show ?thesis
    using removeParticle_rotation [OF pd(2) pd(6) [of 0] pd(6) [of 2]] pd(1) a by (auto simp: pd(3,4))
qed

end
