(* ===== verification/SFC_Pack.thy ===== *)
theory SFC_Pack
  imports Particle_Data_Correct "HOL-Library.Product_Lexorder" "HOL-Library.Multiset"
begin

text \<open>
  The particle sort \<open>updaters/SFCPackUpdater.cc\<close>: particles are put into the cells of a grid and the
  particle data are reordered along a Hilbert curve through the cells (along the rows in two dimensions).
  The products of grid coordinates are reduced to 32 bits as in the code; the theorems bound the grid so
  that the reduction loses nothing, and say what happens beyond the bound.
\<close>

section \<open>The Hilbert curve\<close>

definition istep :: "nat list" where "istep = [0, 0, 0, 0, 1, 1, 1, 1]"
definition jstep :: "nat list" where "jstep = [0, 0, 1, 1, 1, 1, 0, 0]"
definition kstep :: "nat list" where "kstep = [0, 1, 1, 0, 0, 1, 1, 0]"

definition permute1 :: "nat list \<Rightarrow> nat list" where
  "permute1 xs = [xs ! 0, xs ! 3, xs ! 4, xs ! 7, xs ! 6, xs ! 5, xs ! 2, xs ! 1]"

definition permute2 :: "nat list \<Rightarrow> nat list" where
  "permute2 xs = [xs ! 0, xs ! 7, xs ! 6, xs ! 1, xs ! 2, xs ! 5, xs ! 4, xs ! 3]"

definition permute3 :: "nat list \<Rightarrow> nat list" where "permute3 xs = permute2 xs"

definition permute4 :: "nat list \<Rightarrow> nat list" where
  "permute4 xs = [xs ! 2, xs ! 3, xs ! 0, xs ! 1, xs ! 6, xs ! 7, xs ! 4, xs ! 5]"

definition permute5 :: "nat list \<Rightarrow> nat list" where "permute5 xs = permute4 xs"

definition permute6 :: "nat list \<Rightarrow> nat list" where
  "permute6 xs = [xs ! 4, xs ! 3, xs ! 2, xs ! 5, xs ! 6, xs ! 1, xs ! 0, xs ! 7]"

definition permute7 :: "nat list \<Rightarrow> nat list" where "permute7 xs = permute6 xs"

definition permute8 :: "nat list \<Rightarrow> nat list" where
  "permute8 xs = [xs ! 6, xs ! 5, xs ! 2, xs ! 1, xs ! 0, xs ! 3, xs ! 4, xs ! 7]"

text \<open>The switch has a case for every \<open>p\<close> below 8; the rest fails an assertion.\<close>

definition permute :: "nat list \<Rightarrow> nat \<Rightarrow> nat list" where
  "permute xs p =
     (if p = 0 then permute1 xs else if p = 1 then permute2 xs else if p = 2 then permute3 xs
      else if p = 3 then permute4 xs else if p = 4 then permute5 xs else if p = 5 then permute6 xs
      else if p = 6 then permute7 xs else permute8 xs)"

text \<open>\<open>None\<close> is a recursion that never ends: a width of 0 is halved forever. The coordinates are \<open>int\<close>, and
  \<open>/\<close> truncates; the index is stored as \<open>unsigned int\<close>.\<close>

definition half :: "int \<Rightarrow> int" where
  "half w = (if 0 \<le> w then w div 2 else - ((- w) div 2))"

function generateTraversalOrder :: "int \<Rightarrow> int \<Rightarrow> int \<Rightarrow> int \<Rightarrow> int \<Rightarrow> nat list \<Rightarrow> nat list \<Rightarrow> nat list option" where
  "generateTraversalOrder i j k w Mx cell_order traversal_order =
     (if w = 1 then Some (traversal_order @ [nat ((i * Mx * Mx + j * Mx + k) mod 2 ^ 32)])
      else if w = 0 then None
      else
        let w' = half w
        in foldl (\<lambda>acc m. case acc of None \<Rightarrow> None | Some tr \<Rightarrow>
             let cur_cell = cell_order ! m;
                 ic = i + w' * int (istep ! cur_cell);
                 jc = j + w' * int (jstep ! cur_cell);
                 kc = k + w' * int (kstep ! cur_cell)
             in generateTraversalOrder ic jc kc w' Mx (permute cell_order m) tr) (Some traversal_order) [0..<8])"
  by pat_completeness auto
termination by (relation "measure (\<lambda>(i, j, k, w, Mx, co, tr). nat \<bar>w\<bar>)") (auto simp: half_def)

declare generateTraversalOrder.simps [simp del]

section \<open>The updater\<close>

record SFCPackUpdater =
  m_grid :: nat
  m_last_grid :: nat
  m_last_dim :: nat
  m_traversal_order :: "nat list"
  m_sort_order :: "nat list"
  m_particle_bins :: "(nat \<times> nat) list"

definition SFCPackUpdater_new :: "nat \<Rightarrow> nat \<Rightarrow> SFCPackUpdater" where
  "SFCPackUpdater_new ndim max_n = \<lparr>m_grid = (if ndim = 2 then 4096 else 256), m_last_grid = 0, m_last_dim = 0,
     m_traversal_order = [], m_sort_order = replicate max_n 0, m_particle_bins = replicate max_n (0, 0)\<rparr>"

definition reallocate_sort :: "nat \<Rightarrow> SFCPackUpdater \<Rightarrow> SFCPackUpdater" where
  "reallocate_sort max_n u = u\<lparr>m_sort_order := array_resize 0 max_n (m_sort_order u),
     m_particle_bins := array_resize (0, 0) max_n (m_particle_bins u)\<rparr>"

text \<open>The logarithm of 0 is minus infinity, and 2 to that power is 0. For a grid above \<open>2\<^sup>3\<^sup>1\<close> the power is
  \<open>2\<^sup>3\<^sup>2\<close>, which the cast takes to 0.\<close>

definition setGrid :: "nat \<Rightarrow> SFCPackUpdater \<Rightarrow> SFCPackUpdater" where
  "setGrid grid u =
     u\<lparr>m_grid := (if grid = 0 then 0 else cast_uint32 (2 powr of_int \<lceil>ln (real grid) / ln 2\<rceil>))\<rparr>"

text \<open>The cast of a coordinate to \<open>unsigned int\<close>, and the remainder.\<close>

definition grid_cell :: "Scalar \<Rightarrow> nat \<Rightarrow> nat" where
  "grid_cell f grid = cast_uint32 (f * real grid) mod grid"

text \<open>\<open>std::sort\<close> on the first \<open>N\<close> bins and the translation into the sort order.\<close>

definition sort_bins :: "nat \<Rightarrow> SFCPackUpdater \<Rightarrow> SFCPackUpdater" where
  "sort_bins N u =
     (let bins = sort (take N (m_particle_bins u)) @ drop N (m_particle_bins u)
      in u\<lparr>m_particle_bins := bins, m_sort_order := map (\<lambda>j. snd (bins ! j)) [0..<N] @ drop N (m_sort_order u)\<rparr>)"

definition getSortedOrder2D :: "ParticleData \<Rightarrow> SFCPackUpdater \<Rightarrow> SFCPackUpdater result" where
  "getSortedOrder2D pd u =
     (let N = m_nparticles pd; grid = m_grid u in
      bindr (check (length (m_sort_order u) \<ge> N) Assertion_failed) (\<lambda>_.
      bindr (check (grid \<noteq> 0 \<or> N = 0) Division_by_zero) (\<lambda>_.
        let bin = (\<lambda>n. let f = makeFraction (m_box pd) (fst (m_pos (m_arrays pd) ! n));
                           ib = grid_cell (vx f) grid; jb = grid_cell (vy f) grid
                       in ((ib * grid + jb) mod 2 ^ 32, n))
        in Inr (sort_bins N (u\<lparr>m_particle_bins := map bin [0..<N] @ drop N (m_particle_bins u)\<rparr>)))))"

text \<open>The new traversal order when the grid changed: the position of every cell along the curve. The
  outcome \<open>None\<close> stands for not returning. The number of cells is an \<open>unsigned int\<close>, so from 2048 cells a
  side it is 0 and the table empty, and the lookup of a particle's cell reads outside it. The grid
  becomes an \<open>int\<close> in the call.\<close>

definition grid_cells :: "nat \<Rightarrow> nat" where
  "grid_cells grid = (grid * grid * grid) mod 2 ^ 32"

definition as_int :: "nat \<Rightarrow> int" where
  "as_int n = (if n < 2 ^ 31 then int n else int n - 2 ^ 32)"

definition update_traversal :: "nat \<Rightarrow> SFCPackUpdater \<Rightarrow> SFCPackUpdater option" where
  "update_traversal ndim u =
     (let grid = m_grid u in
      if m_last_grid u \<noteq> grid \<or> m_last_dim u \<noteq> 3 then
        case generateTraversalOrder 0 0 0 (as_int grid) (as_int grid) [0..<8] [] of None \<Rightarrow> None
        | Some reverse_order \<Rightarrow>
            Some (u\<lparr>m_traversal_order := foldl (\<lambda>t i. t[reverse_order ! i := i]) (replicate (grid_cells grid) 0) [0..<grid_cells grid],
                   m_last_grid := grid, m_last_dim := ndim\<rparr>)
      else Some u)"

definition getSortedOrder3D :: "nat \<Rightarrow> ParticleData \<Rightarrow> SFCPackUpdater \<Rightarrow> SFCPackUpdater result option" where
  "getSortedOrder3D ndim pd u =
     (let N = m_nparticles pd; grid = m_grid u in
      if \<not> length (m_sort_order u) \<ge> N then Some (Inl Assertion_failed)
      else case update_traversal ndim u of None \<Rightarrow> None
      | Some u \<Rightarrow> Some (
          bindr (check (length (m_particle_bins u) \<ge> N) Assertion_failed) (\<lambda>_.
          bindr (check (length (m_traversal_order u) = grid_cells grid) Assertion_failed) (\<lambda>_.
            let bin = (\<lambda>n. let f = makeFraction (m_box pd) (fst (m_pos (m_arrays pd) ! n));
                               ib = grid_cell (vx f) grid; jb = grid_cell (vy f) grid; kb = grid_cell (vz f) grid
                           in (m_traversal_order u ! ((ib * (grid * grid) + jb * grid + kb) mod 2 ^ 32), n))
            in Inr (sort_bins N (u\<lparr>m_particle_bins := map bin [0..<N] @ drop N (m_particle_bins u)\<rparr>))))))"

text \<open>Each array is copied in the new order to a temporary array and back.\<close>

definition reorder :: "nat list \<Rightarrow> nat \<Rightarrow> 'a list \<Rightarrow> 'a list" where
  "reorder order N xs = (let tmp = map (\<lambda>i. xs ! (order ! i)) [0..<N] in tmp @ drop N xs)"

definition applySortOrder :: "SFCPackUpdater \<Rightarrow> ParticleData \<Rightarrow> ParticleData result" where
  "applySortOrder u pd =
     bindr (check (length (m_sort_order u) \<ge> m_nparticles pd) Assertion_failed) (\<lambda>_.
      let N = m_nparticles pd; order = m_sort_order u; a = m_arrays pd;
          a = a\<lparr>m_pos := reorder order N (m_pos a)\<rparr>;
          a = a\<lparr>m_vel := reorder order N (m_vel a)\<rparr>;
          a = a\<lparr>m_accel := reorder order N (m_accel a)\<rparr>;
          a = a\<lparr>m_charge := reorder order N (m_charge a)\<rparr>;
          a = a\<lparr>m_diameter := reorder order N (m_diameter a)\<rparr>;
          a = a\<lparr>m_angmom := reorder order N (m_angmom a)\<rparr>;
          a = a\<lparr>m_inertia := reorder order N (m_inertia a)\<rparr>;
          a = a\<lparr>m_net_virial := map (reorder order N) (m_net_virial a)\<rparr>;
          a = a\<lparr>m_net_force := reorder order N (m_net_force a)\<rparr>;
          a = a\<lparr>m_net_torque := reorder order N (m_net_torque a)\<rparr>;
          a = a\<lparr>m_orientation := reorder order N (m_orientation a)\<rparr>;
          a = a\<lparr>m_image := reorder order N (m_image a)\<rparr>;
          a = a\<lparr>m_body := reorder order N (m_body a)\<rparr>;
          a = a\<lparr>m_tag := reorder order N (m_tag a)\<rparr>
      in Inr (pd\<lparr>m_arrays := a, m_rtag := foldl (\<lambda>rt i. rt[m_tag a ! i := i]) (m_rtag pd) [0..<N]\<rparr>))"

definition update_sort :: "nat \<Rightarrow> ParticleData \<Rightarrow> SFCPackUpdater \<Rightarrow> (ParticleData \<times> SFCPackUpdater) result option" where
  "update_sort ndim pd u =
     map_option (\<lambda>r. bindr r (\<lambda>u. bindr (applySortOrder u pd) (\<lambda>pd. Inr (notifyParticleSort pd, u))))
       (if ndim = 2 then Some (getSortedOrder2D pd u) else getSortedOrder3D ndim pd u)"


section \<open>The curve on cells\<close>

type_synonym cell = "nat \<times> nat \<times> nat"

definition cell_index :: "nat \<Rightarrow> cell \<Rightarrow> nat" where
  "cell_index Mx = (\<lambda>(i, j, k). i * Mx * Mx + j * Mx + k)"

text \<open>The corner of octant \<open>c\<close> in a cube at \<open>p\<close>, at distance \<open>w\<close>.\<close>

definition octant :: "cell \<Rightarrow> nat \<Rightarrow> nat \<Rightarrow> cell" where
  "octant = (\<lambda>(i, j, k) w c. (i + w * istep ! c, j + w * jstep ! c, k + w * kstep ! c))"

primrec hilbert :: "nat \<Rightarrow> cell \<Rightarrow> nat list \<Rightarrow> cell list" where
  "hilbert 0 p co = [p]"
| "hilbert (Suc n) p co = concat (map (\<lambda>m. hilbert n (octant p (2 ^ n) (co ! m)) (permute co m)) [0..<8])"

text \<open>Two cells that share a face.\<close>

definition adjacent :: "cell \<Rightarrow> cell \<Rightarrow> bool" where
  "adjacent = (\<lambda>(i, j, k) (i', j', k').
     (i' = i + 1 \<or> i = i' + 1) \<and> j = j' \<and> k = k' \<or> i = i' \<and> (j' = j + 1 \<or> j = j' + 1) \<and> k = k'
       \<or> i = i' \<and> j = j' \<and> (k' = k + 1 \<or> k = k' + 1))"

text \<open>The twelve orders of the octants that the rules reach from the seed.\<close>

definition orders :: "nat list list" where
  "orders = [[0,1,2,3,4,5,6,7], [0,3,4,7,6,5,2,1], [0,7,6,1,2,5,4,3], [2,3,0,1,6,7,4,5], [4,3,2,5,6,1,0,7],
     [6,5,2,1,0,3,4,7], [4,7,0,3,2,1,6,5], [6,7,4,5,2,3,0,1], [2,5,4,3,0,7,6,1], [6,1,0,7,4,3,2,5],
     [2,1,6,5,4,7,0,3], [4,5,6,7,0,1,2,3]]"

text \<open>Going from octant \<open>a\<close>, leaving it at its corner \<open>x\<close>, into octant \<open>b\<close> at its corner \<open>y\<close> crosses one face.\<close>

definition stays :: "nat \<Rightarrow> nat \<Rightarrow> nat \<Rightarrow> nat \<Rightarrow> bool" where
  "stays a b x y \<longleftrightarrow> a = b \<and> x = y"

definition crosses :: "nat \<Rightarrow> nat \<Rightarrow> nat \<Rightarrow> nat \<Rightarrow> bool" where
  "crosses a b x y \<longleftrightarrow> a = 0 \<and> b = 1 \<and> x = 1 \<and> y = 0 \<or> a = 1 \<and> b = 0 \<and> x = 0 \<and> y = 1"

definition linked :: "nat \<Rightarrow> nat \<Rightarrow> nat \<Rightarrow> nat \<Rightarrow> bool" where
  "linked a b x y \<longleftrightarrow>
     (let I = (\<lambda>c. c (istep ! a) (istep ! b) (istep ! x) (istep ! y));
          J = (\<lambda>c. c (jstep ! a) (jstep ! b) (jstep ! x) (jstep ! y));
          K = (\<lambda>c. c (kstep ! a) (kstep ! b) (kstep ! x) (kstep ! y))
      in I crosses \<and> J stays \<and> K stays \<or> I stays \<and> J crosses \<and> K stays \<or> I stays \<and> J stays \<and> K crosses)"

definition good_order :: "nat list \<Rightarrow> bool" where
  "good_order co \<longleftrightarrow> length co = 8 \<and> list_all (\<lambda>c. c \<in> set co) [0..<8] \<and> list_all (\<lambda>c. c < 8) co
     \<and> permute co 0 ! 0 = co ! 0 \<and> permute co 7 ! 7 = co ! 7
     \<and> list_all (\<lambda>m. linked (co ! m) (co ! Suc m) (permute co m ! 7) (permute co (Suc m) ! 0)) [0..<7]"

lemma orders_good: "list_all good_order orders"
  by code_simp

lemma orders_closed: "list_all (\<lambda>co. list_all (\<lambda>m. permute co m \<in> set orders) [0..<8]) orders"
  by code_simp

lemma order_facts:
  assumes "co \<in> set orders"
  shows "m < 8 \<Longrightarrow> permute co m \<in> set orders" "set co = {0..<8}" "length co = 8"
    "permute co 0 ! 0 = co ! 0" "permute co 7 ! 7 = co ! 7"
    "m < 7 \<Longrightarrow> linked (co ! m) (co ! Suc m) (permute co m ! 7) (permute co (Suc m) ! 0)"
proof -
  have g: "good_order co" using orders_good assms by (simp add: list_all_iff)
  show "m < 8 \<Longrightarrow> permute co m \<in> set orders" using orders_closed assms by (simp add: list_all_iff)
  show "set co = {0..<8}" using g by (auto simp: good_order_def list_all_iff)
  show "length co = 8" "permute co 0 ! 0 = co ! 0" "permute co 7 ! 7 = co ! 7" using g by (simp_all add: good_order_def)
  show "m < 7 \<Longrightarrow> linked (co ! m) (co ! Suc m) (permute co m ! 7) (permute co (Suc m) ! 0)"
    using g by (simp add: good_order_def list_all_iff)
qed

lemma upt_8: "[0..<8] = [0, 1, 2, 3, 4, 5, 6, 7::nat]"
  by (simp add: upt_conv_Cons)

lemma hilbert_not_empty [simp]: "hilbert n p co \<noteq> []"
  by (induction n arbitrary: p co) (simp_all add: upt_8)

lemma octant_octant: "octant (octant p (2 ^ n) c) (2 ^ n - 1) c = octant p (2 ^ Suc n - 1) c"
proof -
  have "(2::nat) ^ n + (2 ^ n - 1) = 2 ^ Suc n - 1" by simp
  then have "(2::nat) ^ n * x + (2 ^ n - 1) * x = (2 ^ Suc n - 1) * x" for x :: nat
    by (metis add_mult_distrib)
  then show ?thesis by (cases p) (simp add: octant_def add.assoc)
qed

lemma hilbert_ends:
  assumes "co \<in> set orders"
  shows "hd (hilbert n p co) = octant p (2 ^ n - 1) (co ! 0) \<and> last (hilbert n p co) = octant p (2 ^ n - 1) (co ! 7)"
  using assms
proof (induction n arbitrary: p co)
  case 0
  then show ?case by (cases p) (simp add: octant_def)
next
  case (Suc n)
  note f = order_facts [OF Suc.prems]
  have "hd (hilbert n (octant p (2 ^ n) (co ! 0)) (permute co 0)) = octant p (2 ^ Suc n - 1) (co ! 0)"
    "last (hilbert n (octant p (2 ^ n) (co ! 7)) (permute co 7)) = octant p (2 ^ Suc n - 1) (co ! 7)"
    using Suc.IH f(1) [of 0] f(1) [of 7] f(4,5) octant_octant by simp_all
  then show ?case by (simp add: upt_8)
qed

lemma adjacent_blocks:
  assumes "linked a b x y"
  shows "adjacent (octant (octant p (2 ^ n) a) (2 ^ n - 1) x) (octant (octant p (2 ^ n) b) (2 ^ n - 1) y)"
proof -
  have "(2::nat) ^ n = (2 ^ n - 1) + 1" by simp
  then obtain h where h: "(2::nat) ^ n = h + 1" by blast
  show ?thesis using assms unfolding h
    by (cases p) (auto simp: linked_def Let_def stays_def crosses_def octant_def adjacent_def)
qed

lemma hilbert_continuous: "co \<in> set orders \<Longrightarrow> successively adjacent (hilbert n p co)"
proof (induction n arbitrary: p co)
  case (Suc n)
  note f = order_facts [OF Suc.prems]
  let ?b = "\<lambda>m. hilbert n (octant p (2 ^ n) (co ! m)) (permute co m)"
  have s: "successively adjacent (?b m)" if "m < 8" for m using Suc.IH f(1) [OF that] by blast
  have link: "adjacent (last (?b m)) (hd (?b (Suc m)))" if "m < 7" for m
    using hilbert_ends [OF f(1) [of m]] hilbert_ends [OF f(1) [of "Suc m"]] adjacent_blocks [OF f(6) [OF that]] that by simp
  show ?case
    using s [of 0] s [of 1] s [of 2] s [of 3] s [of 4] s [of 5] s [of 6] s [of 7]
      link [of 0] link [of 1] link [of 2] link [of 3] link [of 4] link [of 5] link [of 6]
    by (simp add: upt_8 successively_append_iff numeral_eq_Suc)
qed simp

definition cube :: "cell \<Rightarrow> nat \<Rightarrow> cell set" where
  "cube = (\<lambda>(i, j, k) w. {i..<i + w} \<times> {j..<j + w} \<times> {k..<k + w})"

lemma half_interval: "{i..<i + w} \<union> {i + w..<i + w + w} = {i..<i + 2 * w}" for i w :: nat
  by auto

lemma Union_8: "(\<Union>c\<in>{0..<8::nat}. F c) = F 0 \<union> F 1 \<union> F 2 \<union> F 3 \<union> F 4 \<union> F 5 \<union> F 6 \<union> F 7"
proof -
  have "{0..<8} = set [0, 1, 2, 3, 4, 5, 6, 7::nat]" by (simp add: upt_8 flip: set_upt)
  then show ?thesis by (simp add: Un_assoc)
qed

lemma cube_halves: "(\<Union>c\<in>{0..<8}. cube (octant p w c) w) = cube p (2 * w)"
proof (cases p)
  case (fields i j k)
  have split: "A \<times> B \<times> C \<union> A \<times> B \<times> C' \<union> A \<times> B' \<times> C' \<union> A \<times> B' \<times> C \<union> A' \<times> B' \<times> C \<union> A' \<times> B' \<times> C' \<union> A' \<times> B \<times> C' \<union> A' \<times> B \<times> C
      = (A \<union> A') \<times> (B \<union> B') \<times> (C \<union> C')" for A A' B B' C C' :: "nat set"
    by blast
  have o: "cube (octant p w c) w = {i + w * istep ! c..<i + w * istep ! c + w} \<times> {j + w * jstep ! c..<j + w * jstep ! c + w}
      \<times> {k + w * kstep ! c..<k + w * kstep ! c + w}" for c
    by (simp add: fields cube_def octant_def)
  have "(\<Union>c\<in>{0..<8}. cube (octant p w c) w)
      = ({i..<i + w} \<union> {i + w..<i + w + w}) \<times> ({j..<j + w} \<union> {j + w..<j + w + w}) \<times> ({k..<k + w} \<union> {k + w..<k + w + w})"
    unfolding Union_8 o by (simp add: istep_def jstep_def kstep_def split)
  also have "\<dots> = cube p (2 * w)" by (simp only: fields cube_def half_interval prod.case)
  finally show ?thesis .
qed

lemma hilbert_fills: "co \<in> set orders \<Longrightarrow> set (hilbert n p co) = cube p (2 ^ n)"
proof (induction n arbitrary: p co)
  case 0
  then show ?case by (cases p) (auto simp: cube_def)
next
  case (Suc n)
  note f = order_facts [OF Suc.prems]
  have "set (hilbert (Suc n) p co) = (\<Union>m\<in>{0..<8}. cube (octant p (2 ^ n) (co ! m)) (2 ^ n))"
    using Suc.IH f(1) by simp
  also have "\<dots> = (\<Union>c\<in>set co. cube (octant p (2 ^ n) c) (2 ^ n))"
    using nth_image [of 8 co] f(3) by (simp flip: image_image [of "\<lambda>c. cube (octant p (2 ^ n) c) (2 ^ n)" "\<lambda>m. co ! m"])
  finally show ?case using cube_halves [of p "2 ^ n"] by (simp add: f(2))
qed

lemma length_hilbert: "length (hilbert n p co) = 8 ^ n"
  by (induction n arbitrary: p co) (simp_all add: upt_8)

lemma card_cube: "card (cube p w) = w * w * w"
  by (cases p) (simp add: cube_def card_cartesian_product)

lemma hilbert_distinct:
  assumes "co \<in> set orders"
  shows "distinct (hilbert n p co)"
proof (rule card_distinct)
  have "(8::nat) ^ n = 2 ^ n * 2 ^ n * 2 ^ n" by (simp flip: power_mult_distrib)
  then show "card (set (hilbert n p co)) = length (hilbert n p co)"
    by (simp add: hilbert_fills [OF assms] card_cube length_hilbert)
qed

section \<open>The traversal order\<close>

lemma foldl_option_append:
  "(\<And>m tr. m \<in> set ms \<Longrightarrow> F m tr = Some (tr @ g m)) \<Longrightarrow>
   foldl (\<lambda>acc m. case acc of None \<Rightarrow> None | Some tr \<Rightarrow> F m tr) (Some tr) ms = Some (tr @ concat (map g ms))"
  by (induction ms arbitrary: tr) simp_all

lemma half_power: "half (2 * 2 ^ n) = 2 ^ n"
  by (simp add: half_def)

lemma generateTraversalOrder_index:
  "generateTraversalOrder (int i) (int j) (int k) (2 ^ n) (int Mx) co tr
    = Some (tr @ map (\<lambda>p. cell_index Mx p mod 2 ^ 32) (hilbert n (i, j, k) co))"
proof (induction n arbitrary: i j k co tr)
  case 0
  have "int i * int Mx * int Mx + int j * int Mx + int k = int (cell_index Mx (i, j, k))" by (simp add: cell_index_def)
  moreover have "nat (int m mod 2 ^ 32) = m mod 2 ^ 32" for m by (simp add: nat_mod_distrib)
  ultimately show ?case by (simp add: generateTraversalOrder.simps [of "int i" "int j" "int k" 1])
next
  case (Suc n)
  let ?ix = "\<lambda>p. cell_index Mx p mod 2 ^ 32"
  have "foldl (\<lambda>acc m. case acc of None \<Rightarrow> None | Some tr \<Rightarrow>
      let cur_cell = co ! m; ic = int i + 2 ^ n * int (istep ! cur_cell); jc = int j + 2 ^ n * int (jstep ! cur_cell);
          kc = int k + 2 ^ n * int (kstep ! cur_cell)
      in generateTraversalOrder ic jc kc (2 ^ n) (int Mx) (permute co m) tr) (Some tr) [0..<8]
    = Some (tr @ concat (map (\<lambda>m. map ?ix (hilbert n (octant (i, j, k) (2 ^ n) (co ! m)) (permute co m))) [0..<8]))"
  proof (rule foldl_option_append)
    fix m tr
    let ?c = "co ! m"
    show "(let cur_cell = ?c; ic = int i + 2 ^ n * int (istep ! cur_cell); jc = int j + 2 ^ n * int (jstep ! cur_cell);
          kc = int k + 2 ^ n * int (kstep ! cur_cell)
      in generateTraversalOrder ic jc kc (2 ^ n) (int Mx) (permute co m) tr)
      = Some (tr @ map ?ix (hilbert n (octant (i, j, k) (2 ^ n) ?c) (permute co m)))"
      using Suc.IH [of "i + 2 ^ n * istep ! ?c" "j + 2 ^ n * jstep ! ?c" "k + 2 ^ n * kstep ! ?c"]
      by (simp add: octant_def Let_def)
  qed
  moreover have "2 * 2 ^ n \<noteq> (1::int)" by (metis dvd_triv_left odd_one)
  ultimately show ?case
    by (simp add: generateTraversalOrder.simps [of "int i" "int j" "int k" "2 * 2 ^ n"] half_power map_concat comp_def)
qed

text \<open>A width that is not positive is halved forever.\<close>

lemma generateTraversalOrder_diverges: "w \<le> 0 \<Longrightarrow> generateTraversalOrder i j k w Mx co tr = None"
proof (induction "nat \<bar>w\<bar>" arbitrary: i j k w co tr rule: less_induct)
  case less
  have none: "foldl (\<lambda>acc m. case acc of None \<Rightarrow> None | Some tr \<Rightarrow> F m tr) None ms = None" for F :: "nat \<Rightarrow> nat list \<Rightarrow> nat list option" and ms
    by (induction ms) simp_all
  show ?case
  proof (cases "w = 0")
    case True
    then show ?thesis by (simp add: generateTraversalOrder.simps [of i j k 0])
  next
    case False
    then have h: "nat \<bar>half w\<bar> < nat \<bar>w\<bar>" "half w \<le> 0" using less.prems by (auto simp: half_def)
    have "generateTraversalOrder i' j' k' (half w) Mx co' tr' = None" for i' j' k' co' tr'
      by (rule less.hyps [OF h])
    then show ?thesis using False less.prems none
      by (simp add: generateTraversalOrder.simps [of i j k w] upt_8 Let_def)
  qed
qed

lemma cell_index_cube: "bij_betw (cell_index M) (cube (0, 0, 0) M) {0..<M * M * M}"
proof -
  have lt: "i * M * M + j * M + k < M * M * M" if "i < M" "j < M" "k < M" for i j k
  proof -
    have "j * M + k < M * M" using that by (metis (no_types, opaque_lifting) add.commute add_less_cancel_left less_le_trans mult.commute mult_Suc mult_le_mono2 Suc_leI)
    then have "i * (M * M) + (j * M + k) < Suc i * (M * M)" by simp
    also have "\<dots> \<le> M * (M * M)" using that by (intro mult_le_mono1) simp
    finally show ?thesis by (simp add: algebra_simps)
  qed
  have inj: "inj_on (cell_index M) (cube (0, 0, 0) M)"
  proof (rule inj_onI)
    fix p q assume pq: "p \<in> cube (0, 0, 0) M" "q \<in> cube (0, 0, 0) M" "cell_index M p = cell_index M q"
    obtain i j k i' j' k' where e: "p = (i, j, k)" "q = (i', j', k')" by (metis surj_pair)
    have b: "i < M" "j < M" "k < M" "i' < M" "j' < M" "k' < M" using pq by (auto simp: e cube_def)
    have eq: "(i * M + j) * M + k = (i' * M + j') * M + k'" using pq(3) by (simp add: e cell_index_def algebra_simps)
    then have "i * M + j = i' * M + j' \<and> k = k'"
      using b by (metis div_mult_self3 div_less add.commute add_0 mod_mult_self3 mod_less mult.commute not_less_zero)
    moreover then have "i = i' \<and> j = j'"
      using b by (metis div_mult_self3 div_less add.commute add_0 mod_mult_self3 mod_less mult.commute not_less_zero)
    ultimately show "p = q" by (simp add: e)
  qed
  have sub: "cell_index M ` cube (0, 0, 0) M \<subseteq> {0..<M * M * M}"
    using lt by (auto simp: cell_index_def cube_def)
  have "card (cell_index M ` cube (0, 0, 0) M) = M * M * M" by (simp add: card_image [OF inj] card_cube)
  then have "cell_index M ` cube (0, 0, 0) M = {0..<M * M * M}" using sub by (intro card_subset_eq) auto
  then show ?thesis using inj by (simp add: bij_betw_def)
qed

text \<open>Up to 1024 cells a side the indices fit into 32 bits.\<close>

lemma small_grid:
  assumes "g \<le> 10"
  shows "(2::nat) ^ g * 2 ^ g * 2 ^ g < 2 ^ 32" "grid_cells (2 ^ g) = 2 ^ g * 2 ^ g * 2 ^ g" "as_int (2 ^ g) = 2 ^ g"
proof -
  have p: "(2::nat) ^ g \<le> 2 ^ 10" using assms by (intro power_increasing) simp_all
  then have "(2::nat) ^ g * 2 ^ g * 2 ^ g \<le> 2 ^ 10 * 2 ^ 10 * 2 ^ 10" by (intro mult_mono) simp_all
  then show l: "(2::nat) ^ g * 2 ^ g * 2 ^ g < 2 ^ 32" by simp
  show "grid_cells (2 ^ g) = 2 ^ g * 2 ^ g * 2 ^ g" using l unfolding grid_cells_def by (rule mod_less)
  show "as_int (2 ^ g) = 2 ^ g" using p by (simp add: as_int_def)
qed

lemma cell_index_less: "p \<in> cube (0, 0, 0) M \<Longrightarrow> cell_index M p < M * M * M"
  using cell_index_cube [of M] by (auto simp: bij_betw_def)

lemma generateTraversalOrder_hilbert:
  assumes "g \<le> 10"
  shows "generateTraversalOrder 0 0 0 (2 ^ g) (2 ^ g) [0..<8] [] = Some (map (cell_index (2 ^ g)) (hilbert g (0, 0, 0) [0..<8]))"
proof -
  have o: "[0..<8] \<in> set orders" by (simp add: orders_def upt_8)
  have "cell_index (2 ^ g) p mod 2 ^ 32 = cell_index (2 ^ g) p" if "p \<in> set (hilbert g (0, 0, 0) [0..<8])" for p
    using that cell_index_less [of p "2 ^ g"] small_grid(1) [OF assms] unfolding hilbert_fills [OF o] by (intro mod_less) linarith
  then have "map (\<lambda>p. cell_index (2 ^ g) p mod 2 ^ 32) (hilbert g (0, 0, 0) [0..<8])
      = map (cell_index (2 ^ g)) (hilbert g (0, 0, 0) [0..<8])" by (rule map_cong [OF refl])
  then show ?thesis
    using generateTraversalOrder_index [of 0 0 0 g "2 ^ g" "[0..<8]" "[]"]
    by (simp only: of_nat_0 [unfolded semiring_1_class.of_nat_0] int_ops(1) of_nat_power of_nat_numeral append_Nil)
qed

text \<open>C19: the traversal is a Hilbert curve. For a grid of \<open>2\<^sup>n\<close> cells a side, at most 1024, the
  recursion returns the indices of all cells, each exactly once, starting in the corner, and every cell shares a
  face with the next one. For a width that is not positive it never returns.\<close>

theorem hilbert_traversal:
  assumes "n \<le> 10"
  shows "(\<exists>r. generateTraversalOrder 0 0 0 (2 ^ n) (2 ^ n) [0..<8] [] = Some r
      \<and> length r = 2 ^ n * 2 ^ n * 2 ^ n \<and> distinct r \<and> set r = {0..<2 ^ n * 2 ^ n * 2 ^ n} \<and> hd r = 0
      \<and> successively (\<lambda>a b. \<exists>p \<in> cube (0, 0, 0) (2 ^ n). \<exists>q \<in> cube (0, 0, 0) (2 ^ n).
            a = cell_index (2 ^ n) p \<and> b = cell_index (2 ^ n) q \<and> adjacent p q) r)
   \<and> (w \<le> 0 \<longrightarrow> generateTraversalOrder i j k w Mx co tr = None)"
proof -
  let ?h = "hilbert n (0, 0, 0) [0..<8]" and ?M = "2 ^ n :: nat"
  have o: "[0..<8] \<in> set orders" by (simp add: orders_def upt_8)
  note fills = hilbert_fills [OF o, of n "(0, 0, 0)"] and bij = cell_index_cube [of ?M]
  have "inj_on (cell_index ?M) (set ?h)" using bij fills by (simp add: bij_betw_def)
  then have "distinct (map (cell_index ?M) ?h)" using hilbert_distinct [OF o] by (simp add: distinct_map)
  moreover have "set (map (cell_index ?M) ?h) = {0..<?M * ?M * ?M}" using bij fills by (simp add: bij_betw_def)
  moreover have "length (map (cell_index ?M) ?h) = ?M * ?M * ?M" by (simp add: length_hilbert flip: power_mult_distrib)
  moreover have "hd (map (cell_index ?M) ?h) = 0"
    using hilbert_ends [OF o, of n "(0, 0, 0)"]
    by (simp add: hd_map cell_index_def octant_def istep_def jstep_def kstep_def)
  moreover have "successively (\<lambda>p q. p \<in> set ?h \<and> q \<in> set ?h \<and> adjacent p q) ?h"
    using hilbert_continuous [OF o, of n "(0, 0, 0)"] by (simp add: successively_conv_nth)
  then have "successively (\<lambda>p q. \<exists>p' \<in> cube (0, 0, 0) ?M. \<exists>q' \<in> cube (0, 0, 0) ?M.
      cell_index ?M p = cell_index ?M p' \<and> cell_index ?M q = cell_index ?M q' \<and> adjacent p' q') ?h"
    unfolding fills by (rule successively_mono) blast
  then have "successively (\<lambda>a b. \<exists>p \<in> cube (0, 0, 0) ?M. \<exists>q \<in> cube (0, 0, 0) ?M.
            a = cell_index ?M p \<and> b = cell_index ?M q \<and> adjacent p q) (map (cell_index ?M) ?h)"
    by (simp add: successively_map)
  ultimately show ?thesis
    using generateTraversalOrder_hilbert [OF assms] generateTraversalOrder_diverges [of w] by simp
qed

section \<open>Reordering\<close>

lemma inverse_table:
  assumes "\<And>i. i < n \<Longrightarrow> f i < length t" "inj_on f {0..<n}"
  shows "length (foldl (\<lambda>t i. t[f i := i]) t [0..<n]) = length t"
    "i < n \<Longrightarrow> foldl (\<lambda>t i. t[f i := i]) t [0..<n] ! f i = i"
    "(\<And>i. i < n \<Longrightarrow> f i \<noteq> k) \<Longrightarrow> foldl (\<lambda>t i. t[f i := i]) t [0..<n] ! k = t ! k"
proof -
  have "length (foldl (\<lambda>t i. t[f i := i]) t [0..<m]) = length t \<and>
    (m \<le> n \<longrightarrow> (\<forall>i < m. foldl (\<lambda>t i. t[f i := i]) t [0..<m] ! f i = i)
      \<and> (\<forall>k. (\<forall>i < m. f i \<noteq> k) \<longrightarrow> foldl (\<lambda>t i. t[f i := i]) t [0..<m] ! k = t ! k))" for m
  proof (induction m)
    case (Suc m)
    show ?case
    proof (cases "Suc m \<le> n")
      case True
      have "f i \<noteq> f m \<and> f m \<noteq> f i" if "i < m" for i using assms(2) that True by (force simp: inj_on_def)
      then show ?thesis using Suc True assms(1) [of m] by (auto simp: nth_list_update less_Suc_eq)
    next
      case False
      then show ?thesis using Suc by simp
    qed
  qed simp
  then show "length (foldl (\<lambda>t i. t[f i := i]) t [0..<n]) = length t"
    "i < n \<Longrightarrow> foldl (\<lambda>t i. t[f i := i]) t [0..<n] ! f i = i"
    "(\<And>i. i < n \<Longrightarrow> f i \<noteq> k) \<Longrightarrow> foldl (\<lambda>t i. t[f i := i]) t [0..<n] ! k = t ! k"
    by auto
qed

lemma reorder_simps [simp]:
  "N \<le> length xs \<Longrightarrow> length (reorder order N xs) = length xs"
  "i < N \<Longrightarrow> reorder order N xs ! i = xs ! (order ! i)"
  by (simp_all add: reorder_def Let_def nth_append)

definition permutes :: "nat list \<Rightarrow> nat \<Rightarrow> bool" where
  "permutes order N \<longleftrightarrow> N \<le> length order \<and> distinct (take N order) \<and> set (take N order) = {0..<N}"

lemma permutesD:
  assumes "permutes order N"
  shows "i < N \<Longrightarrow> order ! i < N" "k < N \<Longrightarrow> \<exists>i < N. order ! i = k" "inj_on (\<lambda>i. order ! i) {0..<N}"
proof -
  have p: "N \<le> length order" "distinct (take N order)" "set (take N order) = {0..<N}" using assms by (simp_all add: permutes_def)
  show "order ! i < N" if "i < N"
  proof -
    have "take N order ! i \<in> set (take N order)" using that p(1) by (intro nth_mem) simp
    then show ?thesis using that p by simp
  qed
  show "\<exists>i < N. order ! i = k" if "k < N"
  proof -
    have "k \<in> set (take N order)" using that p(3) by simp
    then show ?thesis using p(1) by (auto simp: in_set_conv_nth)
  qed
  show "inj_on (\<lambda>i. order ! i) {0..<N}"
    using p(1,2) by (simp add: inj_on_def distinct_conv_nth) (metis atLeastLessThan_iff)
qed

lemma tags_ok_reorder:
  assumes ok: "tags_ok N tg rt ts rc" and p: "permutes order N"
  defines "tg' \<equiv> reorder order N tg"
  shows "tags_ok N tg' (foldl (\<lambda>rt i. rt[tg' ! i := i]) rt [0..<N]) ts rc"
    "t \<in> set ts \<Longrightarrow> foldl (\<lambda>rt i. rt[tg' ! i := i]) rt [0..<N] ! t < N
      \<and> order ! (foldl (\<lambda>rt i. rt[tg' ! i := i]) rt [0..<N] ! t) = rt ! t"
    "length (foldl (\<lambda>rt i. rt[tg' ! i := i]) rt [0..<N]) = length rt"
proof -
  have old: "N \<le> length tg" "\<And>i. i < N \<Longrightarrow> tg ! i \<in> set ts" "\<And>i. i < N \<Longrightarrow> rt ! (tg ! i) = i"
    "\<And>t. t \<in> set ts \<Longrightarrow> t < length rt" "\<And>t. t \<in> set ts \<Longrightarrow> rt ! t < N" "\<And>t. t \<in> set ts \<Longrightarrow> tg ! (rt ! t) = t"
    "\<And>t. t \<in> set rc \<Longrightarrow> t < length rt" "\<And>t. t \<in> set rc \<Longrightarrow> rt ! t = NOT_LOCAL" "set ts \<inter> set rc = {}"
    using ok unfolding tags_ok_def by blast+
  note o = permutesD [OF p]
  have tg': "tg' ! i = tg ! (order ! i)" if "i < N" for i using that by (simp add: tg'_def)
  have mem: "tg' ! i \<in> set ts" if "i < N" for i using tg' [OF that] old(2) o(1) [OF that] by simp
  have inj: "inj_on (\<lambda>i. tg' ! i) {0..<N}"
  proof (rule inj_onI)
    fix i j assume ij: "i \<in> {0..<N}" "j \<in> {0..<N}" "tg' ! i = tg' ! j"
    then have "tg ! (order ! i) = tg ! (order ! j)" "order ! i < N" "order ! j < N" using tg' o(1) by auto
    then have "order ! i = order ! j" using old(3) by metis
    then show "i = j" using o(3) ij(1,2) by (auto simp: inj_on_def)
  qed
  let ?rt = "foldl (\<lambda>rt i. rt[tg' ! i := i]) rt [0..<N]"
  have lt: "tg' ! i < length rt" if "i < N" for i using old(4) mem [OF that] by blast
  have rt: "length ?rt = length rt" "\<And>i. i < N \<Longrightarrow> ?rt ! (tg' ! i) = i" "\<And>k. (\<And>i. i < N \<Longrightarrow> tg' ! i \<noteq> k) \<Longrightarrow> ?rt ! k = rt ! k"
    using inverse_table [of N "\<lambda>i. tg' ! i" rt, OF lt inj] by blast+
  show "length ?rt = length rt" by (rule rt)
  show at: "?rt ! t < N \<and> order ! (?rt ! t) = rt ! t" if t: "t \<in> set ts" for t
  proof -
    obtain i where i: "i < N" "order ! i = rt ! t" using o(2) [OF old(5) [OF t]] by blast
    then have "tg' ! i = t" using tg' old(6) [OF t] by simp
    then show ?thesis using rt(2) [OF i(1)] i by simp
  qed
  have rec: "?rt ! u = NOT_LOCAL" if "u \<in> set rc" for u
  proof -
    have "tg' ! i \<noteq> u" if "i < N" for i using mem [OF that] old(9) \<open>u \<in> set rc\<close> by blast
    then show ?thesis using rt(3) old(8) [OF that] by simp
  qed
  have "tg' ! (?rt ! t) = t" if "t \<in> set ts" for t using at [OF that] tg' old(6) [OF that] by simp
  then show "tags_ok N tg' ?rt ts rc"
    using ok at rec rt(1,2) mem old(1) unfolding tags_ok_def by (simp add: tg'_def)
qed

text \<open>The traversal table: the position along the curve of every cell.\<close>

definition curve :: "nat \<Rightarrow> cell list" where "curve g = hilbert g (0, 0, 0) [0..<8]"

definition curve_table :: "nat \<Rightarrow> nat list \<Rightarrow> bool" where
  "curve_table M tbl \<longleftrightarrow> (\<exists>g. M = 2 ^ g \<and> length tbl = M * M * M \<and> (\<forall>i < M * M * M. tbl ! cell_index M (curve g ! i) = i))"

lemma curve_facts:
  shows "length (curve g) = 2 ^ g * 2 ^ g * 2 ^ g" "set (curve g) = cube (0, 0, 0) (2 ^ g)" "distinct (curve g)"
proof -
  have o: "[0..<8] \<in> set orders" by (simp add: orders_def upt_8)
  show "length (curve g) = 2 ^ g * 2 ^ g * 2 ^ g" by (simp add: curve_def length_hilbert flip: power_mult_distrib)
  show "set (curve g) = cube (0, 0, 0) (2 ^ g)" "distinct (curve g)"
    using hilbert_fills [OF o] hilbert_distinct [OF o] by (simp_all add: curve_def)
qed

lemma curve_table_lookup:
  assumes "curve_table (2 ^ g) tbl" "i < 2 ^ g" "j < 2 ^ g" "k < 2 ^ g"
  shows "tbl ! (i * (2 ^ g * 2 ^ g) + j * 2 ^ g + k) < length (curve g)
    \<and> curve g ! (tbl ! (i * (2 ^ g * 2 ^ g) + j * 2 ^ g + k)) = (i, j, k)"
proof -
  have t: "\<forall>n < 2 ^ g * 2 ^ g * 2 ^ g. tbl ! cell_index (2 ^ g) (curve g ! n) = n"
    using assms(1) by (auto simp: curve_table_def)
  have "(i, j, k) \<in> set (curve g)" using assms(2-4) by (simp add: curve_facts cube_def)
  then obtain n where n: "n < length (curve g)" "curve g ! n = (i, j, k)" by (auto simp: in_set_conv_nth)
  have "tbl ! (i * (2 ^ g * 2 ^ g) + j * 2 ^ g + k) = n"
    using t n curve_facts(1) [of g] by (auto simp: cell_index_def mult.assoc)
  then show ?thesis using n by simp
qed

lemma update_traversal_table:
  assumes "m_grid u = 2 ^ g" "m_last_dim u = 3 \<Longrightarrow> m_last_grid u = m_grid u \<Longrightarrow> curve_table (m_grid u) (m_traversal_order u)"
    "g \<le> 10"
  shows "\<exists>u'. update_traversal ndim u = Some u' \<and> curve_table (2 ^ g) (m_traversal_order u')
    \<and> m_sort_order u' = m_sort_order u \<and> m_particle_bins u' = m_particle_bins u \<and> m_grid u' = m_grid u
    \<and> (m_last_dim u' = 3 \<longrightarrow> m_last_grid u' = 2 ^ g)"
proof (cases "m_last_grid u \<noteq> m_grid u \<or> m_last_dim u \<noteq> 3")
  case False
  then show ?thesis using assms by (simp add: update_traversal_def)
next
  case True
  let ?M = "2 ^ g :: nat" and ?r = "map (cell_index (2 ^ g)) (curve g)"
  let ?n = "?M * ?M * ?M" and ?f = "\<lambda>i. ?r ! i"
  have gen: "generateTraversalOrder 0 0 0 (as_int ?M) (as_int ?M) [0..<8] [] = Some ?r"
    unfolding small_grid(3) [OF assms(3)] curve_def by (rule generateTraversalOrder_hilbert [OF assms(3)])
  have img: "?f i = cell_index ?M (curve g ! i)" "?f i < ?n" if "i < ?n" for i
  proof -
    show e: "?f i = cell_index ?M (curve g ! i)" using that by (simp add: curve_facts)
    have "curve g ! i \<in> cube (0, 0, 0) ?M" using that curve_facts(1,2) [of g] nth_mem [of i "curve g"] by simp
    then show "?f i < ?n" unfolding e using cell_index_cube [of ?M] by (auto simp: bij_betw_def)
  qed
  have inj: "inj_on ?f {0..<?n}"
  proof (rule inj_onI)
    fix i j assume ij: "i \<in> {0..<?n}" "j \<in> {0..<?n}" "?f i = ?f j"
    then have m: "curve g ! i \<in> cube (0, 0, 0) ?M" "curve g ! j \<in> cube (0, 0, 0) ?M"
      using curve_facts(1,2) [of g] nth_mem [of i "curve g"] nth_mem [of j "curve g"] by simp_all
    have "cell_index ?M (curve g ! i) = cell_index ?M (curve g ! j)" using ij img(1) by simp
    then have "curve g ! i = curve g ! j" using m cell_index_cube [of ?M] by (simp add: bij_betw_def inj_on_def)
    then show "i = j" using ij curve_facts(1,3) [of g] by (simp add: nth_eq_iff_index_eq)
  qed
  have lt: "?f i < length (replicate ?n (0::nat))" if "i < ?n" for i using img(2) [OF that] by simp
  let ?t = "foldl (\<lambda>t i. t[?f i := i]) (replicate ?n 0) [0..<?n]"
  have "length ?t = ?n" "\<forall>i < ?n. ?t ! cell_index ?M (curve g ! i) = i"
  proof -
    show "length ?t = ?n" using inverse_table(1) [of ?n ?f "replicate ?n 0", OF lt inj] by simp
    have "?t ! cell_index ?M (curve g ! i) = i" if "i < ?n" for i
      using inverse_table(2) [of ?n ?f "replicate ?n 0", OF lt inj that] unfolding img(1) [OF that] .
    then show "\<forall>i < ?n. ?t ! cell_index ?M (curve g ! i) = i" by blast
  qed
  then have "curve_table ?M ?t" unfolding curve_table_def by blast
  moreover have "update_traversal ndim u = Some (u\<lparr>m_traversal_order := ?t, m_last_grid := ?M, m_last_dim := ndim\<rparr>)"
    using True by (simp only: update_traversal_def assms(1) gen small_grid(2) [OF assms(3)] Let_def if_True option.case)
  ultimately show ?thesis by simp
qed

lemma sort_bins_permutes:
  fixes key :: "nat \<Rightarrow> nat" and rest :: "(nat \<times> nat) list"
  assumes "N \<le> length (m_sort_order u)"
  defines "u' \<equiv> sort_bins N (u\<lparr>m_particle_bins := map (\<lambda>n. (key n, n)) [0..<N] @ rest\<rparr>)"
  shows "permutes (m_sort_order u') N" "sorted (map (\<lambda>i. key (m_sort_order u' ! i)) [0..<N])"
    "length (m_sort_order u') = length (m_sort_order u)"
proof -
  let ?b = "sort (map (\<lambda>n. (key n, n)) [0..<N])"
  have so: "m_sort_order u' = map snd ?b @ drop N (m_sort_order u)"
    by (rule nth_equalityI) (simp_all add: u'_def sort_bins_def Let_def nth_append)
  have mem: "\<forall>x \<in> set ?b. fst x = key (snd x)" by auto
  have "mset (map snd ?b) = mset (map snd (map (\<lambda>n. (key n, n)) [0..<N]))" by (simp only: mset_map mset_sort)
  also have "map snd (map (\<lambda>n. (key n, n)) [0..<N]) = [0..<N]" by (simp add: comp_def)
  finally have m: "mset (map snd ?b) = mset [0..<N]" .
  have "distinct (map snd ?b)" "set (map snd ?b) = {0..<N}"
    using mset_eq_imp_distinct_iff [OF m] mset_eq_setD [OF m] by simp_all
  then show "permutes (m_sort_order u') N" using assms(1) by (simp add: permutes_def so)
  have "map (\<lambda>i. key (m_sort_order u' ! i)) [0..<N] = map (\<lambda>x. key (snd x)) ?b"
    by (rule nth_equalityI) (simp_all add: so nth_append)
  also have "\<dots> = map fst ?b" using mem by (intro map_cong) auto
  also have "sorted (map fst ?b)"
  proof -
    have "sorted ?b" by simp
    then show ?thesis unfolding sorted_map by (rule sorted_wrt_mono_rel [rotated]) (auto simp: less_eq_prod_def)
  qed
  finally show "sorted (map (\<lambda>i. key (m_sort_order u' ! i)) [0..<N])" .
  show "length (m_sort_order u') = length (m_sort_order u)" using assms(1) by (simp add: so)
qed

text \<open>The forces on a particle, which the particle data do not send along with it.\<close>

definition net_forces :: "ParticleData \<Rightarrow> nat \<Rightarrow> Scalar4 \<times> Scalar4 \<times> Scalar list" where
  "net_forces pd t = (let a = m_arrays pd; i = m_rtag pd ! t in (m_net_force a ! i, m_net_torque a ! i, map (\<lambda>row. row ! i) (m_net_virial a)))"

lemma applySortOrder_spec:
  assumes ok: "pdata_ok pd" and p: "permutes (m_sort_order u) (m_nparticles pd)"
  shows "\<exists>pd'. applySortOrder u pd = Inr pd' \<and> pdata_ok pd' \<and> m_nparticles pd' = m_nparticles pd \<and> m_box pd' = m_box pd
    \<and> m_tag_set pd' = m_tag_set pd
    \<and> (\<forall>i < m_nparticles pd. m_pos (m_arrays pd') ! i = m_pos (m_arrays pd) ! (m_sort_order u ! i))
    \<and> particle pd' = particle pd \<and> (\<forall>t \<in> set (m_tag_set pd). net_forces pd' t = net_forces pd t)"
proof -
  let ?N = "m_nparticles pd" and ?o = "m_sort_order u" and ?a = "m_arrays pd"
  let ?tg = "reorder ?o ?N (m_tag ?a)"
  let ?rt = "foldl (\<lambda>rt i. rt[?tg ! i := i]) (m_rtag pd) [0..<?N]"
  let ?a' = "?a\<lparr>m_pos := reorder ?o ?N (m_pos ?a), m_vel := reorder ?o ?N (m_vel ?a), m_accel := reorder ?o ?N (m_accel ?a),
    m_charge := reorder ?o ?N (m_charge ?a), m_diameter := reorder ?o ?N (m_diameter ?a), m_angmom := reorder ?o ?N (m_angmom ?a),
    m_inertia := reorder ?o ?N (m_inertia ?a), m_net_virial := map (reorder ?o ?N) (m_net_virial ?a),
    m_net_force := reorder ?o ?N (m_net_force ?a), m_net_torque := reorder ?o ?N (m_net_torque ?a),
    m_orientation := reorder ?o ?N (m_orientation ?a), m_image := reorder ?o ?N (m_image ?a),
    m_body := reorder ?o ?N (m_body ?a), m_tag := ?tg\<rparr>"
  let ?pd = "pd\<lparr>m_arrays := ?a', m_rtag := ?rt\<rparr>"
  have le: "?N \<le> length ?o" using p by (simp add: permutes_def)
  have r: "applySortOrder u pd = Inr ?pd" using le by (simp add: applySortOrder_def check_def Let_def)
  have t: "tags_ok ?N (m_tag ?a) (m_rtag pd) (m_tag_set pd) (m_recycled_tags pd)" using ok by (simp add: pdata_ok_def)
  note new = tags_ok_reorder [OF t p]
  have sz: "arrays_sized (m_max_nparticles pd) ?a" "?N \<le> m_max_nparticles pd" using ok by (simp_all add: pdata_ok_def)
  have virial: "length (reorder ?o ?N row) = max ?N (length row)" for row :: "Scalar list" by (simp add: reorder_def)
  have "arrays_sized (m_max_nparticles pd) ?a'" using sz by (auto simp: arrays_sized_def virial)
  then have ok': "pdata_ok ?pd" using ok new by (simp add: pdata_ok_def)
  have el: "element_at ?a' i = element_at ?a (?o ! i)" if "i < ?N" for i using that by (simp add: element_at_def)
  have "particle ?pd = particle pd" by (rule ext) (simp add: particle_def el new(2))
  moreover have "net_forces ?pd t = net_forces pd t" if "t \<in> set (m_tag_set pd)" for t
    using new(2) [OF that] by (simp add: net_forces_def Let_def comp_def)
  ultimately show ?thesis using r ok' by simp
qed

lemma notify_simps: "particle (notifyParticleSort pd) = particle pd" "net_forces (notifyParticleSort pd) t = net_forces pd t"
proof -
  show "particle (notifyParticleSort pd) = particle pd"
    by (rule ext) (simp add: particle_def notifyParticleSort_def emit_def)
  show "net_forces (notifyParticleSort pd) t = net_forces pd t"
    by (simp add: net_forces_def notifyParticleSort_def emit_def)
qed

definition cell_of :: "nat \<Rightarrow> BoxDim \<Rightarrow> Scalar3 \<Rightarrow> cell" where
  "cell_of grid box p = (let f = makeFraction box p in (grid_cell (vx f) grid, grid_cell (vy f) grid, grid_cell (vz f) grid))"

text \<open>Particles in the order of the cells: by rows in two dimensions, along the curve in three.\<close>

definition along_curve :: "nat \<Rightarrow> nat \<Rightarrow> ParticleData \<Rightarrow> bool" where
  "along_curve ndim g pd \<longleftrightarrow>
     (\<exists>key. sorted (map key [0..<m_nparticles pd])
        \<and> (\<forall>i < m_nparticles pd. let (ib, jb, kb) = cell_of (2 ^ g) (m_box pd) (fst (m_pos (m_arrays pd) ! i))
             in if ndim = 2 then key i = ib * 2 ^ g + jb else key i < length (curve g) \<and> curve g ! key i = (ib, jb, kb)))"

text \<open>The state between sorts.\<close>

definition sorter_ok :: "SFCPackUpdater \<Rightarrow> bool" where
  "sorter_ok u \<longleftrightarrow> (m_last_dim u = 3 \<longrightarrow> m_last_grid u \<noteq> 0
     \<and> (m_last_grid u \<le> 2 ^ 10 \<longrightarrow> curve_table (m_last_grid u) (m_traversal_order u)))"

lemma grid_cell_less: "grid \<noteq> 0 \<Longrightarrow> grid_cell f grid < grid"
  by (simp add: grid_cell_def)

lemma bin_row_less:
  fixes i j grid :: nat
  assumes "i < grid" "j < grid" "grid \<le> 2 ^ 16"
  shows "(i * grid + j) mod 2 ^ 32 = i * grid + j"
proof (rule mod_less)
  have "i * grid + j < Suc i * grid" using assms(2) by simp
  also have "\<dots> \<le> grid * grid" using assms(1) by (intro mult_le_mono1) simp
  also have "\<dots> \<le> 2 ^ 16 * 2 ^ 16" using assms(3) by (intro mult_mono) simp_all
  finally show "i * grid + j < 2 ^ 32" by simp
qed

lemma getSortedOrder2D_spec:
  assumes "m_nparticles pd \<le> length (m_sort_order u)" "m_grid u \<noteq> 0" "m_grid u \<le> 2 ^ 16" "sorter_ok u"
  shows "\<exists>u'. getSortedOrder2D pd u = Inr u' \<and> permutes (m_sort_order u') (m_nparticles pd) \<and> sorter_ok u'
    \<and> sorted (map (\<lambda>i. case cell_of (m_grid u) (m_box pd) (fst (m_pos (m_arrays pd) ! (m_sort_order u' ! i))) of (ib, jb, kb) \<Rightarrow> ib * m_grid u + jb)
        [0..<m_nparticles pd])"
proof -
  let ?N = "m_nparticles pd" and ?g = "m_grid u"
  let ?key = "\<lambda>n. case cell_of ?g (m_box pd) (fst (m_pos (m_arrays pd) ! n)) of (ib, jb, kb) \<Rightarrow> ib * ?g + jb"
  let ?u = "sort_bins ?N (u\<lparr>m_particle_bins := map (\<lambda>n. (?key n, n)) [0..<?N] @ drop ?N (m_particle_bins u)\<rparr>)"
  have bin: "(grid_cell x ?g * ?g + grid_cell y ?g) mod 2 ^ 32 = grid_cell x ?g * ?g + grid_cell y ?g" for x y
    by (rule bin_row_less [OF grid_cell_less grid_cell_less assms(3)]) (use assms(2) in simp_all)
  have "getSortedOrder2D pd u = Inr ?u"
    using assms(1,2) by (simp add: getSortedOrder2D_def check_def bin [simplified] cell_of_def Let_def)
  moreover have "sorter_ok ?u" using assms(4) by (simp add: sorter_ok_def sort_bins_def Let_def)
  moreover note sort_bins_permutes(1,2) [OF assms(1), of ?key "drop ?N (m_particle_bins u)"]
  ultimately show ?thesis by (intro exI [of _ ?u]) simp
qed

lemma getSortedOrder3D_spec:
  assumes "m_nparticles pd \<le> length (m_sort_order u)" "m_nparticles pd \<le> length (m_particle_bins u)" "m_grid u = 2 ^ g" "sorter_ok u" "g \<le> 10"
  shows "\<exists>u' key. getSortedOrder3D ndim pd u = Some (Inr u') \<and> permutes (m_sort_order u') (m_nparticles pd) \<and> sorter_ok u'
    \<and> sorted (map (\<lambda>i. key (m_sort_order u' ! i)) [0..<m_nparticles pd])
    \<and> (\<forall>n. key n < length (curve g) \<and> curve g ! key n = cell_of (2 ^ g) (m_box pd) (fst (m_pos (m_arrays pd) ! n)))"
proof -
  let ?N = "m_nparticles pd" and ?g = "2 ^ g :: nat"
  have "m_last_dim u = 3 \<Longrightarrow> m_last_grid u = m_grid u \<Longrightarrow> curve_table (m_grid u) (m_traversal_order u)"
    using assms(3-5) power_increasing [of g 10 "2::nat"] by (simp add: sorter_ok_def)
  then obtain v where v: "update_traversal ndim u = Some v" "curve_table ?g (m_traversal_order v)" "m_sort_order v = m_sort_order u"
    "m_particle_bins v = m_particle_bins u" "m_grid v = m_grid u" "m_last_dim v = 3 \<longrightarrow> m_last_grid v = ?g"
    using update_traversal_table [OF assms(3) _ assms(5)] by metis
  define key where "key n = (case cell_of ?g (m_box pd) (fst (m_pos (m_arrays pd) ! n)) of (ib, jb, kb) \<Rightarrow>
    m_traversal_order v ! ((ib * (?g * ?g) + jb * ?g + kb) mod 2 ^ 32))" for n
  let ?u = "sort_bins ?N (v\<lparr>m_particle_bins := map (\<lambda>n. (key n, n)) [0..<?N] @ drop ?N (m_particle_bins v)\<rparr>)"
  have len: "length (m_traversal_order v) = ?g * ?g * ?g" using v(2) unfolding curve_table_def by blast
  have fits: "(i * (?g * ?g) + j * ?g + k) mod 2 ^ 32 = i * (?g * ?g) + j * ?g + k" if "i < ?g" "j < ?g" "k < ?g" for i j k
    using cell_index_less [of "(i, j, k)" ?g] small_grid(1) [OF assms(5)] that
    by (intro mod_less) (simp add: cell_index_def cube_def mult.assoc)
  have "getSortedOrder3D ndim pd u = Some (Inr ?u)"
    using assms(1,2) by (simp add: getSortedOrder3D_def check_def key_def cell_of_def Let_def v(1,3,4) assms(3) len small_grid(2) [OF assms(5)])
  moreover have "sorter_ok ?u" using v(2,6) by (simp add: sorter_ok_def sort_bins_def Let_def)
  moreover have "key n < length (curve g) \<and> curve g ! key n = cell_of ?g (m_box pd) (fst (m_pos (m_arrays pd) ! n))" for n
    using curve_table_lookup [OF v(2) grid_cell_less grid_cell_less grid_cell_less] fits [OF grid_cell_less grid_cell_less grid_cell_less]
    by (simp add: key_def cell_of_def Let_def)
  moreover have "?N \<le> length (m_sort_order v)" using assms(1) v(3) by simp
  note sort_bins_permutes(1,2) [OF this, of key "drop ?N (m_particle_bins v)"]
  ultimately show ?thesis by (intro exI [of _ ?u] exI [of _ key]) simp
qed

lemma ceiling_log_power:
  assumes "0 < grid"
  shows "\<exists>g. (2::real) powr of_int \<lceil>ln (real grid) / ln 2\<rceil> = 2 ^ g \<and> grid \<le> 2 ^ g \<and> (2::nat) ^ g < 2 * grid"
proof -
  define g where "g = nat \<lceil>log 2 (real grid)\<rceil>"
  have l: "ln (real grid) / ln 2 = log 2 (real grid)" by (simp add: log_def)
  have "0 \<le> log 2 (real grid)" using assms by simp
  then have g: "\<lceil>log 2 (real grid)\<rceil> = int g" by (simp add: g_def)
  have ge: "log 2 (real grid) \<le> real g" using le_of_int_ceiling [of "log 2 (real grid)"] by (simp add: g)
  have lt: "real g < log 2 (real grid) + 1" using ceiling_correct [of "log 2 (real grid)"] by (simp add: g)
  have "real grid = 2 powr log 2 (real grid)" using assms by simp
  also have "\<dots> \<le> 2 powr real g" using ge by simp
  also have "\<dots> = real (2 ^ g)" by (simp add: powr_realpow)
  finally have a: "grid \<le> 2 ^ g" by (simp only: of_nat_le_iff)
  have "real (2 ^ g) = 2 powr real g" by (simp add: powr_realpow)
  also have "\<dots> < 2 powr (log 2 (real grid) + 1)" using lt by simp
  also have "\<dots> = real (2 * grid)" using assms by (simp add: powr_add)
  finally have b: "(2::nat) ^ g < 2 * grid" by (simp only: of_nat_less_iff)
  have "(2::real) powr of_int \<lceil>ln (real grid) / ln 2\<rceil> = 2 ^ g" by (simp add: l g powr_realpow)
  then show ?thesis using a b by blast
qed

lemma cast_uint32_power: "cast_uint32 (2 ^ g) = (if g < 32 then 2 ^ g else 0)"
proof -
  have "cast_uint32 (2 ^ g) = nat (2 ^ g mod 2 ^ 32)" using cast_int_of_int [of "2 ^ g"] by (simp add: cast_uint32_def)
  also have "(2::int) ^ g mod 2 ^ 32 = (if g < 32 then 2 ^ g else 0)"
  proof (cases "g < 32")
    case True
    then have "(2::int) ^ g < 2 ^ 32" by (intro power_strict_increasing) simp_all
    then show ?thesis using True by simp
  next
    case False
    then have "(2::int) ^ 32 dvd 2 ^ g" by (intro le_imp_power_dvd) simp
    then show ?thesis using False by (simp add: mod_eq_0_iff_dvd)
  qed
  finally show ?thesis by (simp add: nat_power_eq)
qed

lemma setGrid_power:
  "0 < grid \<Longrightarrow> grid \<le> 2 ^ 31 \<Longrightarrow> \<exists>g. m_grid (setGrid grid u) = 2 ^ g \<and> grid \<le> 2 ^ g \<and> 2 ^ g < 2 * grid"
  "2 ^ 31 < grid \<Longrightarrow> m_grid (setGrid grid u) = 0"
  "m_grid (setGrid grid u) = 0 \<or> (\<exists>g. m_grid (setGrid grid u) = 2 ^ g)"
proof -
  obtain g where g: "m_grid (setGrid grid u) = (if g < 32 then 2 ^ g else 0)" "grid \<le> 2 ^ g" "(2::nat) ^ g < 2 * grid" if "0 < grid"
    using ceiling_log_power [of grid] by (cases "0 < grid") (auto simp: setGrid_def cast_uint32_power)
  show "\<exists>g. m_grid (setGrid grid u) = 2 ^ g \<and> grid \<le> 2 ^ g \<and> 2 ^ g < 2 * grid" if "0 < grid" "grid \<le> 2 ^ 31"
  proof -
    have "(2::nat) ^ g < 2 ^ 32" using g(3) [OF that(1)] that(2) by simp
    then have "g < 32" by (rule power_less_imp_less_exp [rotated]) simp
    then show ?thesis using g [OF that(1)] by auto
  qed
  show "m_grid (setGrid grid u) = 0" if "2 ^ 31 < grid"
  proof -
    have "(2::nat) ^ 31 < 2 ^ g" using g(2) that by linarith
    then have "31 < g" by (rule power_less_imp_less_exp [rotated]) simp
    then show ?thesis using g(1) that by auto
  qed
  show "m_grid (setGrid grid u) = 0 \<or> (\<exists>g. m_grid (setGrid grid u) = 2 ^ g)"
    using g(1) by (cases "grid = 0") (auto simp: setGrid_def)
qed

text \<open>The states of a sorter for a system of \<open>ndim\<close> dimensions and arrays of size \<open>n\<close>.\<close>

inductive sorter_reachable :: "nat \<Rightarrow> nat \<Rightarrow> SFCPackUpdater \<Rightarrow> bool" where
  Construct_sorter: "sorter_reachable ndim n (SFCPackUpdater_new ndim n)"
| Reallocate_sorter: "sorter_reachable ndim n u \<Longrightarrow> sorter_reachable ndim m (reallocate_sort m u)"
| Set_grid: "sorter_reachable ndim n u \<Longrightarrow> sorter_reachable ndim n (setGrid grid u)"
| Sort_particles: "sorter_reachable ndim n u \<Longrightarrow> pdata_ok pd \<Longrightarrow> m_max_nparticles pd = n \<Longrightarrow> update_sort ndim pd u = Some (Inr (pd', u'))
    \<Longrightarrow> sorter_reachable ndim n u'"

lemma sort_bins_fields [simp]:
  "N \<le> length (m_particle_bins u) \<Longrightarrow> length (m_particle_bins (sort_bins N u)) = length (m_particle_bins u)"
  "N \<le> length (m_sort_order u) \<Longrightarrow> length (m_sort_order (sort_bins N u)) = length (m_sort_order u)"
  "m_grid (sort_bins N u) = m_grid u"
  by (simp_all add: sort_bins_def Let_def)

definition sorter_sized :: "nat \<Rightarrow> SFCPackUpdater \<Rightarrow> bool" where
  "sorter_sized n u \<longleftrightarrow> length (m_sort_order u) = n \<and> length (m_particle_bins u) = n \<and> (m_grid u = 0 \<or> (\<exists>g. m_grid u = 2 ^ g))"

lemma getSortedOrder2D_sized:
  assumes "sorter_sized n u" "m_nparticles pd \<le> n" "getSortedOrder2D pd u = Inr u'"
  shows "sorter_sized n u'"
proof -
  have s: "length (m_sort_order u) = n" "length (m_particle_bins u) = n" using assms(1) by (simp_all add: sorter_sized_def)
  show ?thesis using assms s by (auto simp: getSortedOrder2D_def check_def Let_def sorter_sized_def split: if_splits)
qed

lemma getSortedOrder3D_sized:
  assumes "sorter_sized n u" "m_nparticles pd \<le> n" "getSortedOrder3D ndim pd u = Some (Inr u')"
  shows "sorter_sized n u'"
proof -
  obtain v where v: "update_traversal ndim u = Some v" using assms(3) by (auto simp: getSortedOrder3D_def Let_def split: if_splits option.splits)
  then have f: "m_sort_order v = m_sort_order u" "m_particle_bins v = m_particle_bins u" "m_grid v = m_grid u"
    by (auto simp: update_traversal_def Let_def split: if_splits option.splits)
  have s: "length (m_sort_order u) = n" "length (m_particle_bins u) = n" using assms(1) by (simp_all add: sorter_sized_def)
  show ?thesis using assms s f by (auto simp: getSortedOrder3D_def v check_def Let_def sorter_sized_def split: if_splits)
qed

lemma zero_grid_never_returns:
  "m_grid u = 0 \<Longrightarrow> sorter_ok u \<Longrightarrow> update_traversal ndim u = None"
  by (auto simp: update_traversal_def Let_def sorter_ok_def as_int_def generateTraversalOrder_diverges)

lemma update_traversal_sorter_ok:
  assumes u: "sorter_ok u" "m_grid u = 0 \<or> (\<exists>g. m_grid u = 2 ^ g)" and v: "update_traversal ndim u = Some v"
  shows "sorter_ok v"
proof (cases "m_grid u \<le> 2 ^ 10")
  case False
  then show ?thesis using u(1) v by (auto simp: update_traversal_def Let_def sorter_ok_def split: if_splits option.splits)
next
  case True
  obtain g where g: "m_grid u = 2 ^ g" using u v zero_grid_never_returns [of u ndim] by auto
  then have g10: "g \<le> 10" using True power_increasing_iff [of "2::nat" g 10] by simp
  have "m_last_dim u = 3 \<Longrightarrow> m_last_grid u = m_grid u \<Longrightarrow> curve_table (m_grid u) (m_traversal_order u)"
    using u(1) True by (auto simp: sorter_ok_def)
  then show ?thesis using update_traversal_table [OF g _ g10, of ndim] v by (auto simp: sorter_ok_def)
qed

lemma sorter_reachable_ok: "sorter_reachable ndim n u \<Longrightarrow> sorter_sized n u \<and> sorter_ok u"
proof (induction rule: sorter_reachable.induct)
  case (Construct_sorter ndim n)
  have "(2::nat) ^ 12 = 4096" "(2::nat) ^ 8 = 256" by simp_all
  then have "\<exists>g. (4096::nat) = 2 ^ g" "\<exists>g. (256::nat) = 2 ^ g" by metis+
  then show ?case unfolding sorter_sized_def SFCPackUpdater_new_def sorter_ok_def by simp
next
  case (Reallocate_sorter ndim n u m)
  then show ?case by (simp add: sorter_sized_def sorter_ok_def reallocate_sort_def)
next
  case (Set_grid ndim n u grid)
  then show ?case using setGrid_power(3) [of grid u] by (auto simp: sorter_sized_def sorter_ok_def setGrid_def)
next
  case (Sort_particles ndim n u pd pd' u')
  have N: "m_nparticles pd \<le> n" using Sort_particles by (auto simp: pdata_ok_def)
  have sz: "m_nparticles pd \<le> length (m_sort_order u)" "m_nparticles pd \<le> length (m_particle_bins u)"
    using Sort_particles N by (simp_all add: sorter_sized_def)
  show ?case
  proof (cases "ndim = 2")
    case True
    then have g: "getSortedOrder2D pd u = Inr u'"
      using Sort_particles(4) by (auto simp: update_sort_def bindr_def split: sum.splits)
    have "sorter_ok u'" using g Sort_particles by (auto simp: getSortedOrder2D_def check_def Let_def sorter_ok_def sort_bins_def split: if_splits)
    then show ?thesis using getSortedOrder2D_sized [OF _ N g] Sort_particles by blast
  next
    case False
    obtain r where "getSortedOrder3D ndim pd u = Some r" using False Sort_particles(4) by (auto simp: update_sort_def)
    then have g: "getSortedOrder3D ndim pd u = Some (Inr u')"
      using False Sort_particles(4) by (cases r) (auto simp: update_sort_def bindr_def split: sum.splits)
    then obtain v where v: "update_traversal ndim u = Some v"
      by (cases "update_traversal ndim u") (auto simp: getSortedOrder3D_def Let_def split: if_splits)
    have "sorter_ok v" using Sort_particles by (intro update_traversal_sorter_ok [OF _ _ v]) (auto simp: sorter_sized_def)
    then have "sorter_ok u'"
      using g by (auto simp: getSortedOrder3D_def v check_def Let_def sorter_ok_def sort_bins_def split: if_splits)
    then show ?thesis using getSortedOrder3D_sized [OF _ N g] Sort_particles by blast
  qed
qed

text \<open>C7: sorting changes where particles are stored and nothing else. Whatever calls the sorter has seen before, with
  particle data in a well-formed state whose arrays hold at most \<open>2\<^sup>2\<^sup>6\<close> particles, so
  that the rows of the net virial cover all of them, and with a grid of \<open>2\<^sup>g\<close> cells a side,
  \<open>g\<close> at most 16 in two dimensions and 10 in three, \<open>update\<close> returns without an error;
  afterwards the data and the forces of every tag are the same, the tags and the reverse lookup fit, and the
  particles are in the order of their cells, along rows in two dimensions and along the Hilbert curve in three.
  For a grid of 0 or larger grids this does not hold.\<close>

theorem update_sort_correct:
  assumes ok: "pdata_ok pd" and reach: "sorter_reachable ndim (m_max_nparticles pd) u"
    and grid: "m_grid u = 2 ^ g" and dim: "ndim = 2 \<and> g \<le> 16 \<or> ndim = 3 \<and> g \<le> 10"
    and small: "m_max_nparticles pd \<le> 2 ^ 26"
  shows "\<exists>pd' u'. update_sort ndim pd u = Some (Inr (pd', u')) \<and> pdata_ok pd' \<and> sorter_reachable ndim (m_max_nparticles pd) u'
    \<and> particle pd' = particle pd \<and> (\<forall>t \<in> set (m_tag_set pd). net_forces pd' t = net_forces pd t)
    \<and> along_curve ndim g pd' \<and> (\<forall>row \<in> set (m_net_virial (m_arrays pd)). m_nparticles pd \<le> length row)"
proof -
  let ?N = "m_nparticles pd"
  have s: "sorter_ok u" "?N \<le> length (m_sort_order u)" "?N \<le> length (m_particle_bins u)"
    using sorter_reachable_ok [OF reach] ok by (simp_all add: sorter_sized_def pdata_ok_def)
  have "\<exists>u' key. (if ndim = 2 then Some (getSortedOrder2D pd u) else getSortedOrder3D ndim pd u) = Some (Inr u')
      \<and> permutes (m_sort_order u') ?N \<and> sorter_ok u' \<and> sorted (map (\<lambda>i. key (m_sort_order u' ! i)) [0..<?N])
      \<and> (\<forall>n. case cell_of (2 ^ g) (m_box pd) (fst (m_pos (m_arrays pd) ! n)) of (ib, jb, kb) \<Rightarrow>
           if ndim = 2 then key n = ib * 2 ^ g + jb else key n < length (curve g) \<and> curve g ! key n = (ib, jb, kb))"
  proof (cases "ndim = 2")
    case True
    have m: "m_grid u \<noteq> 0" "m_grid u \<le> 2 ^ 16" using dim True unfolding grid by (simp, intro power_increasing) simp_all
    show ?thesis
      using getSortedOrder2D_spec [OF s(2) m s(1)]
      by (auto simp: True grid split: prod.splits
          intro!: exI [of _ "\<lambda>n. case cell_of (2 ^ g) (m_box pd) (fst (m_pos (m_arrays pd) ! n)) of (ib, jb, kb) \<Rightarrow> ib * 2 ^ g + jb"])
  next
    case False
    have g10: "g \<le> 10" using dim False by simp
    show ?thesis using getSortedOrder3D_spec [OF s(2,3) grid s(1) g10, of ndim] False by (fastforce split: prod.splits)
  qed
  then obtain u' key where u: "(if ndim = 2 then Some (getSortedOrder2D pd u) else getSortedOrder3D ndim pd u) = Some (Inr u')"
    "permutes (m_sort_order u') ?N" "sorter_ok u'" "sorted (map (\<lambda>i. key (m_sort_order u' ! i)) [0..<?N])"
    "\<And>n. case cell_of (2 ^ g) (m_box pd) (fst (m_pos (m_arrays pd) ! n)) of (ib, jb, kb) \<Rightarrow>
           if ndim = 2 then key n = ib * 2 ^ g + jb else key n < length (curve g) \<and> curve g ! key n = (ib, jb, kb)"
    by blast
  obtain pd' where p: "applySortOrder u' pd = Inr pd'" "pdata_ok pd'" "m_nparticles pd' = ?N" "m_box pd' = m_box pd"
    "\<And>i. i < ?N \<Longrightarrow> m_pos (m_arrays pd') ! i = m_pos (m_arrays pd) ! (m_sort_order u' ! i)"
    "particle pd' = particle pd" "\<forall>t \<in> set (m_tag_set pd). net_forces pd' t = net_forces pd t"
    using applySortOrder_spec [OF ok u(2)] by blast
  let ?pd = "notifyParticleSort pd'"
  have "along_curve ndim g ?pd" unfolding along_curve_def
    by (rule exI [of _ "\<lambda>i. key (m_sort_order u' ! i)"])
      (use u(4,5) p(3-5) in \<open>simp add: notifyParticleSort_def emit_def Let_def\<close>)
  moreover have "particle ?pd = particle pd" "\<forall>t \<in> set (m_tag_set pd). net_forces ?pd t = net_forces pd t"
    using p(6,7) by (simp_all add: notify_simps)
  moreover have r: "update_sort ndim pd u = Some (Inr (?pd, u'))" by (simp add: update_sort_def u(1) p(1))
  moreover have "sorter_reachable ndim (m_max_nparticles pd) u'" by (rule Sort_particles [OF reach ok refl r])
  moreover have "\<forall>row \<in> set (m_net_virial (m_arrays pd)). ?N \<le> length row"
  proof
    fix row assume row: "row \<in> set (m_net_virial (m_arrays pd))"
    have "arrays_sized (m_max_nparticles pd) (m_arrays pd)" "?N \<le> m_max_nparticles pd" using ok by (simp_all add: pdata_ok_def)
    then show "?N \<le> length row" using row small unfolding arrays_sized_def by metis
  qed
  moreover have "pdata_ok ?pd" using p(2) by simp
  ultimately show ?thesis by blast
qed


section \<open>Examples\<close>

theorem hilbert_traversal_witness:
  "(\<exists>r. generateTraversalOrder 0 0 0 4 4 [0..<8] [] = Some r \<and> length r = 64 \<and> distinct r \<and> hd r = 0)
    \<and> generateTraversalOrder 0 0 0 (- 3) 4 [0..<8] [] = None"
  using hilbert_traversal [of 2 "- 3" 0 0 0 4 "[0..<8]" "[]"] by auto

theorem update_sort_correct_witness:
  "\<exists>pd pd' u'. initializeFromSnapshot example_snapshot example_start = Inr pd
    \<and> update_sort 3 pd (setGrid 3 (SFCPackUpdater_new 3 (m_max_nparticles pd))) = Some (Inr (pd', u')) \<and> particle pd' = particle pd
    \<and> along_curve 3 2 pd'"
proof -
  obtain pd where pd: "initializeFromSnapshot example_snapshot example_start = Inr pd" "pdata_ok pd" by (rule example_state) blast
  let ?u = "setGrid 3 (SFCPackUpdater_new 3 (m_max_nparticles pd))"
  obtain g where g: "m_grid ?u = 2 ^ g" "3 \<le> (2::nat) ^ g" "(2::nat) ^ g < 2 * 3" using setGrid_power(1) [of 3 "SFCPackUpdater_new 3 (m_max_nparticles pd)"] by auto
  have "g = 2"
  proof (rule ccontr)
    assume "g \<noteq> 2"
    then have "g \<le> 1 \<or> 3 \<le> g" by linarith
    then have "(2::nat) ^ g \<le> 2 ^ 1 \<or> (2::nat) ^ 3 \<le> 2 ^ g" using power_increasing [of _ _ "2::nat"] by (metis one_le_numeral)
    then show False using g(2,3) by simp
  qed
  moreover have "m_max_nparticles pd = 3"
  proof -
    have "m_arrays pd = load_snapshot example_snapshot (arrays_new 3)"
      using initializeFromSnapshot_spec [OF example_snapshot_valid(1), of example_start] pd(1)
      by (auto simp: example_snapshot_valid NOT_LOCAL_def)
    moreover have "length (m_tag (m_arrays pd)) = m_max_nparticles pd" using pd(2) by (simp add: pdata_ok_def arrays_sized_def)
    ultimately show ?thesis by (simp add: load_snapshot_def example_snapshot_valid Let_def)
  qed
  ultimately show ?thesis
    using update_sort_correct [OF pd(2) Set_grid [OF Construct_sorter] g(1)] pd(1) by auto
qed


end
