(* ===== verification/Cell_List.thy ===== *)
theory Cell_List
  imports Particle_Data Index_Maps
begin

text \<open>
  The cell list \<open>computes/CellList.cc\<close> with its base class \<open>computes/Compute.cc\<close>, on one processor (no
  communicator, so no ghost width): particles are put into the cells of a grid whose width is at least a
  nominal width, with a list of the adjacent cells of every cell. A list that is too short for a cell is
  allocated again with the length found. \<open>ndim\<close> is the dimension of the system. Positions are real
  numbers, so that the branch for NaN does not occur.
\<close>

section \<open>Computes\<close>

record Compute =
  m_force_compute :: bool
  m_last_computed :: nat
  m_first_compute :: bool

definition Compute_new :: Compute where
  "Compute_new = \<lparr>m_force_compute = False, m_last_computed = 0, m_first_compute = True\<rparr>"

definition shouldCompute :: "nat \<Rightarrow> Compute \<Rightarrow> bool \<times> Compute" where
  "shouldCompute timestep c =
     (if m_first_compute c then (True, c\<lparr>m_first_compute := False, m_last_computed := timestep\<rparr>)
      else if m_force_compute c then (True, c\<lparr>m_force_compute := False\<rparr>)
      else if m_last_computed c \<noteq> timestep then (True, c\<lparr>m_last_computed := timestep\<rparr>)
      else (False, c))"

section \<open>State\<close>

type_synonym uint3 = "nat tri"

text \<open>The fourth component of a cell entry.\<close>

datatype cell_flag = Flag_charge Scalar | Flag_type uint | Flag_index nat

record CellList =
  c_compute :: Compute
  m_nominal_width :: Scalar
  m_radius :: nat
  m_compute_tdb :: bool
  m_compute_orientation :: bool
  m_compute_idx :: bool
  m_flag_charge :: bool
  m_flag_type :: bool
  m_params_changed :: bool
  m_particles_sorted :: bool
  m_box_changed :: bool
  m_multiple :: nat
  m_dim :: uint3
  m_cell_indexer :: Index3D
  m_cell_list_indexer :: Index2D
  m_cell_adj_indexer :: Index2D
  c_Nmax :: nat
  m_actual_width :: Scalar3
  m_ghost_width :: Scalar3
  m_cell_size :: "nat list"
  m_cell_adj :: "nat list"
  m_xyzf :: "(Scalar3 \<times> cell_flag) list"
  m_tdb :: "(uint \<times> Scalar \<times> nat) list"
  c_orientation :: "Scalar4 list"
  m_idx :: "nat list"
  c_conditions :: uint3
  m_sort_cell_list :: bool

definition CellList_new :: CellList where
  "CellList_new = \<lparr>c_compute = Compute_new, m_nominal_width = 1, m_radius = 1, m_compute_tdb = False,
     m_compute_orientation = False, m_compute_idx = False, m_flag_charge = False, m_flag_type = False,
     m_params_changed = True, m_particles_sorted = False, m_box_changed = False, m_multiple = 1,
     m_dim = Tri 0 0 0, m_cell_indexer = Index3D_cube 0, m_cell_list_indexer = Index2D_square 0,
     m_cell_adj_indexer = Index2D_square 0, c_Nmax = 0, m_actual_width = make_scalar3 0 0 0,
     m_ghost_width = make_scalar3 0 0 0, m_cell_size = [], m_cell_adj = [], m_xyzf = [], m_tdb = [],
     c_orientation = [], m_idx = [], c_conditions = Tri 0 0 0, m_sort_cell_list = False\<rparr>"

section \<open>Parameters\<close>

definition setNominalWidth :: "Scalar \<Rightarrow> CellList \<Rightarrow> CellList" where
  "setNominalWidth width cl = cl\<lparr>m_nominal_width := width, m_params_changed := True\<rparr>"

definition setRadius :: "nat \<Rightarrow> CellList \<Rightarrow> CellList" where
  "setRadius radius cl = cl\<lparr>m_radius := radius, m_params_changed := True\<rparr>"

definition setComputeTDB :: "bool \<Rightarrow> CellList \<Rightarrow> CellList" where
  "setComputeTDB b cl = cl\<lparr>m_compute_tdb := b, m_params_changed := True\<rparr>"

definition setComputeOrientation :: "bool \<Rightarrow> CellList \<Rightarrow> CellList" where
  "setComputeOrientation b cl = cl\<lparr>m_compute_orientation := b, m_params_changed := True\<rparr>"

definition setComputeIdx :: "bool \<Rightarrow> CellList \<Rightarrow> CellList" where
  "setComputeIdx b cl = cl\<lparr>m_compute_idx := b, m_params_changed := True\<rparr>"

definition setFlagCharge :: "CellList \<Rightarrow> CellList" where
  "setFlagCharge cl = cl\<lparr>m_flag_charge := True, m_flag_type := False, m_params_changed := True\<rparr>"

definition setFlagType :: "CellList \<Rightarrow> CellList" where
  "setFlagType cl = cl\<lparr>m_flag_charge := False, m_flag_type := True, m_params_changed := True\<rparr>"

definition setFlagIndex :: "CellList \<Rightarrow> CellList" where
  "setFlagIndex cl = cl\<lparr>m_flag_charge := False, m_flag_type := False, m_params_changed := True\<rparr>"

definition slotParticlesSorted :: "CellList \<Rightarrow> CellList" where
  "slotParticlesSorted cl = cl\<lparr>m_particles_sorted := True\<rparr>"

definition slotBoxChanged :: "CellList \<Rightarrow> CellList" where
  "slotBoxChanged cl = cl\<lparr>m_box_changed := True\<rparr>"

definition setMultiple :: "nat \<Rightarrow> CellList \<Rightarrow> CellList" where
  "setMultiple multiple cl = cl\<lparr>m_multiple := (if multiple \<noteq> 0 then multiple else 1)\<rparr>"

definition setSortCellList :: "bool \<Rightarrow> CellList \<Rightarrow> CellList" where
  "setSortCellList b cl = cl\<lparr>m_sort_cell_list := b, m_params_changed := True\<rparr>"

section \<open>Dimensions and memory\<close>

definition roundDown :: "nat \<Rightarrow> nat \<Rightarrow> nat" where
  "roundDown v m = (let d = v div m in d * m)"

definition computeDimensions :: "nat \<Rightarrow> ParticleData \<Rightarrow> CellList \<Rightarrow> uint3" where
  "computeDimensions ndim pd cl =
     (let L = getNearestPlaneDistance (m_box pd);
          d = (\<lambda>l. roundDown (nat (cast_int (l / m_nominal_width cl))) (m_multiple cl));
          dim = Tri (d (vx L)) (d (vy L)) (if ndim = 3 then d (vz L) else 1)
      in Tri (if tx dim = 0 then 1 else tx dim) (if ty dim = 0 then 1 else ty dim) (if tz dim = 0 then 1 else tz dim))"

definition initializeWidth :: "nat \<Rightarrow> ParticleData \<Rightarrow> CellList \<Rightarrow> CellList" where
  "initializeWidth ndim pd cl =
     (let cl = cl\<lparr>m_ghost_width := make_scalar3 0 0 0\<rparr>;
          cl = cl\<lparr>m_dim := computeDimensions ndim pd cl\<rparr>;
          L = getNearestPlaneDistance (m_box pd); g = m_ghost_width cl; d = m_dim cl
      in cl\<lparr>m_actual_width := make_scalar3 ((vx L + 2 * vx g) / real (tx d)) ((vy L + 2 * vy g) / real (ty d))
              ((vz L + 2 * vz g) / real (tz d))\<rparr>)"

text \<open>The cells in the order of the three loops, and the remainder of C++.\<close>

definition cell_loop :: "uint3 \<Rightarrow> (nat \<times> nat \<times> nat) list" where
  "cell_loop d = concat (map (\<lambda>k. concat (map (\<lambda>j. map (\<lambda>i. (i, j, k)) [0..<tx d]) [0..<ty d])) [0..<tz d])"

definition crem :: "int \<Rightarrow> int \<Rightarrow> int" where
  "crem n m = (if 0 \<le> n then n mod m else - (- n mod m))"

definition wrap_cell :: "int \<Rightarrow> int \<Rightarrow> int" where
  "wrap_cell n m = (let w = crem n m in if w < 0 then w + m else w)"

definition cell_at :: "CellList \<Rightarrow> int \<Rightarrow> int \<Rightarrow> int \<Rightarrow> nat" where
  "cell_at cl i j k = unat (Index3D_idx (m_cell_indexer cl) (of_int i) (of_int j) (of_int k))"

definition adjacent_cells :: "nat \<Rightarrow> CellList \<Rightarrow> nat \<times> nat \<times> nat \<Rightarrow> nat list" where
  "adjacent_cells ndim cl = (\<lambda>(i, j, k).
     (let r = int (m_radius cl); rk = (if ndim = 2 then 0 else r);
          mx = int (tx (m_dim cl)); my = int (ty (m_dim cl)); mz = int (tz (m_dim cl));
          adj = concat (map (\<lambda>nk. concat (map (\<lambda>nj. map (\<lambda>ni. cell_at cl (wrap_cell ni mx) (wrap_cell nj my) (wrap_cell nk mz))
                  [int i - r..int i + r]) [int j - r..int j + r])) [int k - rk..int k + rk])
      in remdups_adj (sort adj)))"

definition initializeCellAdj :: "nat \<Rightarrow> CellList \<Rightarrow> CellList" where
  "initializeCellAdj ndim cl = cl\<lparr>m_cell_adj := foldl (\<lambda>a (i, j, k).
       let adj = adjacent_cells ndim cl (i, j, k);
           cur_cell = Index3D_idx (m_cell_indexer cl) (of_nat i) (of_nat j) (of_nat k)
       in memcpy a (unat (Index2D_idx (m_cell_adj_indexer cl) 0 cur_cell)) adj 0 (length adj))
     (m_cell_adj cl) (cell_loop (m_dim cl))\<rparr>"

definition initializeMemory :: "nat \<Rightarrow> ParticleData \<Rightarrow> CellList \<Rightarrow> CellList" where
  "initializeMemory ndim pd cl =
     (let d = m_dim cl;
          nmax = (if c_Nmax cl = 0
                  then let e = nat \<lceil>real (m_nparticles pd + m_nghosts pd) / real (tx d * ty d * tz d mod 2 ^ 32)\<rceil>
                       in if e = 0 then 1 else e
                  else c_Nmax cl);
          ci = Index3D_rect (of_nat (tx d)) (of_nat (ty d)) (of_nat (tz d));
          cli = Index2D_rect (of_nat nmax) (Index3D_getNumElements ci);
          u = (\<lambda>n. if n > m_radius cl * 2 + 1 then m_radius cl * 2 + 1 else n);
          n_adj = (if ndim = 2 then u (tx d) * u (ty d) else u (tx d) * u (ty d) * u (tz d));
          cadji = Index2D_rect (of_nat n_adj) (Index3D_getNumElements ci);
          n = unat (Index2D_getNumElements cli)
      in initializeCellAdj ndim (cl\<lparr>c_Nmax := nmax, m_cell_indexer := ci, m_cell_list_indexer := cli, m_cell_adj_indexer := cadji,
           m_cell_size := replicate (unat (Index3D_getNumElements ci)) 0,
           m_cell_adj := replicate (unat (Index2D_getNumElements cadji)) 0,
           m_xyzf := replicate n (Vec3 0 0 0, Flag_index 0),
           m_tdb := (if m_compute_tdb cl then replicate n (0, 0, 0) else []),
           c_orientation := (if m_compute_orientation cl then replicate n (Scalar4 0 0 0 0) else []),
           m_idx := (if m_compute_idx cl \<or> m_sort_cell_list cl then replicate n 0 else [])\<rparr>))"

definition initializeAll :: "nat \<Rightarrow> ParticleData \<Rightarrow> CellList \<Rightarrow> CellList" where
  "initializeAll ndim pd cl = initializeMemory ndim pd (initializeWidth ndim pd cl)"

section \<open>Binning\<close>

definition out_of_bounds :: "Scalar \<Rightarrow> bool" where
  "out_of_bounds f \<longleftrightarrow> f < - 0.00001 \<or> f \<ge> 1.00001"

definition store_entry :: "ParticleData \<Rightarrow> nat \<Rightarrow> nat \<Rightarrow> CellList \<Rightarrow> CellList" where
  "store_entry pd n slot cl =
     (let a = m_arrays pd; p = m_pos a ! n;
          flag = (if m_flag_charge cl then Flag_charge (m_charge a ! n)
                  else if m_flag_type cl then Flag_type (snd p) else Flag_index n);
          cl = cl\<lparr>m_xyzf := (m_xyzf cl)[slot := (fst p, flag)]\<rparr>;
          cl = (if m_compute_tdb cl then cl\<lparr>m_tdb := (m_tdb cl)[slot := (snd p, m_diameter a ! n, m_body a ! n)]\<rparr> else cl);
          cl = (if m_compute_orientation cl then cl\<lparr>c_orientation := (c_orientation cl)[slot := m_orientation a ! n]\<rparr> else cl)
      in if m_compute_idx cl then cl\<lparr>m_idx := (m_idx cl)[slot := n]\<rparr> else cl)"

text \<open>One round of the loop over particles, with the conditions found so far.\<close>

definition bin_particle :: "ParticleData \<Rightarrow> nat \<Rightarrow> CellList \<times> uint3 \<Rightarrow> (CellList \<times> uint3) result" where
  "bin_particle pd n = (\<lambda>(cl, cond).
     (let f = makeFraction_ghost (m_box pd) (fst (m_pos (m_arrays pd) ! n)) (m_ghost_width cl);
          periodic = m_periodic (m_box pd); N = m_nparticles pd; d = m_dim cl;
          ib = cast_int (vx f * real (tx d)); jb = cast_int (vy f * real (ty d)); kb = cast_int (vz f * real (tz d))
      in if out_of_bounds (vx f) \<or> out_of_bounds (vy f) \<or> out_of_bounds (vz f)
         then Inr (cl, if n < N then Tri (tx cond) (ty cond) (n + 1) else cond)
         else let ib = (if ib = int (tx d) \<and> tx periodic then 0 else ib);
                  jb = (if jb = int (ty d) \<and> ty periodic then 0 else jb);
                  kb = (if kb = int (tz d) \<and> tz periodic then 0 else kb)
              in bindr (check ((ib < int (tx d) \<and> jb < int (ty d) \<and> kb < int (tz d)) \<or> n \<ge> N) Assertion_failed) (\<lambda>_.
                 let bin = cell_at cl ib jb kb
                 in if ib \<ge> int (tx d) \<or> jb \<ge> int (ty d) \<or> kb \<ge> int (tz d)
                    then Inr (cl, if n < N then Tri (tx cond) (ty cond) (n + 1) else cond)
                    else let offset = m_cell_size cl ! bin;
                             (cl, cond) = (if offset < c_Nmax cl
                               then (store_entry pd n (unat (Index2D_idx (m_cell_list_indexer cl) (of_nat offset) (of_nat bin))) cl, cond)
                               else (cl, Tri (max (tx cond) (offset + 1)) (ty cond) (tz cond)))
                         in Inr (cl\<lparr>m_cell_size := (m_cell_size cl)[bin := offset + 1]\<rparr>, cond))))"

fun bin_loop :: "ParticleData \<Rightarrow> nat list \<Rightarrow> CellList \<times> uint3 \<Rightarrow> (CellList \<times> uint3) result" where
  "bin_loop pd [] s = Inr s"
| "bin_loop pd (n # ns) s = bindr (bin_particle pd n s) (bin_loop pd ns)"

definition computeCellList :: "ParticleData \<Rightarrow> CellList \<Rightarrow> CellList result" where
  "computeCellList pd cl =
     (let cl = cl\<lparr>m_cell_size := replicate (length (m_cell_size cl)) 0\<rparr>
      in bindr (bin_loop pd [0..<m_nparticles pd + m_nghosts pd] (cl, Tri 0 0 0)) (\<lambda>(cl, cond).
           Inr (cl\<lparr>c_conditions := cond\<rparr>)))"

definition checkConditions :: "CellList \<Rightarrow> (bool \<times> CellList) result" where
  "checkConditions cl =
     (let cond = c_conditions cl;
          (res, cl) = (if tx cond > c_Nmax cl then (True, cl\<lparr>c_Nmax := tx cond\<rparr>) else (False, cl))
      in if ty cond \<noteq> 0 then Inl Runtime_error else if tz cond \<noteq> 0 then Inl Runtime_error else Inr (res, cl))"

definition resetConditions :: "CellList \<Rightarrow> CellList" where
  "resetConditions cl = cl\<lparr>c_conditions := Tri 0 0 0\<rparr>"

text \<open>The loop until no cell overflows; \<open>None\<close> is a loop that does not end.\<close>

partial_function (option) build_cells :: "nat \<Rightarrow> ParticleData \<Rightarrow> CellList \<Rightarrow> CellList result option" where
  "build_cells ndim pd cl =
     (case bindr (computeCellList pd cl) checkConditions of
        Inl e \<Rightarrow> Some (Inl e)
      | Inr (overflowed, cl) \<Rightarrow>
          if overflowed then build_cells ndim pd (resetConditions (initializeAll ndim pd cl)) else Some (Inr cl))"

definition cells_compute :: "nat \<Rightarrow> ParticleData \<Rightarrow> nat \<Rightarrow> CellList \<Rightarrow> CellList result option" where
  "cells_compute ndim pd timestep cl =
     (let (force, cl) = (if m_params_changed cl then (True, (initializeAll ndim pd cl)\<lparr>m_params_changed := False\<rparr>) else (False, cl));
          (force, cl) = (if m_box_changed cl
             then (True, (if computeDimensions ndim pd cl = m_dim cl then initializeWidth ndim pd cl else initializeAll ndim pd cl)\<lparr>m_box_changed := False\<rparr>)
             else (force, cl));
          (force, cl) = (if m_particles_sorted cl then (True, cl\<lparr>m_particles_sorted := False\<rparr>) else (force, cl));
          (should, c) = shouldCompute timestep (c_compute cl); cl = cl\<lparr>c_compute := c\<rparr>
      in if should \<or> force then build_cells ndim pd cl else Some (Inr cl))"

definition forceCompute :: "nat \<Rightarrow> ParticleData \<Rightarrow> nat \<Rightarrow> CellList \<Rightarrow> CellList result option" where
  "forceCompute ndim pd timestep cl = cells_compute ndim pd timestep (cl\<lparr>c_compute := (c_compute cl)\<lparr>m_force_compute := True\<rparr>\<rparr>)"

text \<open>The passes that \<open>benchmark\<close> times: a warm up and \<open>num_iters\<close> more.\<close>

definition cells_benchmark :: "nat \<Rightarrow> ParticleData \<Rightarrow> nat \<Rightarrow> CellList \<Rightarrow> CellList result option" where
  "cells_benchmark ndim pd num_iters cl =
     map_option (\<lambda>r. ((\<lambda>r. bindr r (computeCellList pd)) ^^ (num_iters + 1)) r) (cells_compute ndim pd 0 cl)"

end
