(* ===== verification/Neighbor_List.thy ===== *)
theory Neighbor_List
  imports Cell_List Potential_Pair
begin

text \<open>
  The neighbor list \<open>computes/NeighborList.cc\<close> on one processor (no communicator) and the class
  \<open>computes/NeighborListBinned.cc\<close> that builds it over a cell list. A derived class
  is a record extension, a virtual function an argument. Two-dimensional arrays of exclusions are lists of
  rows, one per position in the list of a particle, which stands for the arrays with their indexers; only
  columns in use are represented. \<open>m_rcut_signal\<close> has the list
  itself as its only subscriber. Time steps are below \<open>2\<^sup>3\<^sup>2\<close>.
\<close>

section \<open>State\<close>

record NeighborList =
  n_compute :: Compute
  n_typpair_idx :: Index2D
  m_r_cut :: "Scalar list"
  m_r_listsq :: "Scalar list"
  m_rcut_max :: "Scalar list"
  m_rcut_max_max :: Scalar
  m_rcut_min :: Scalar
  m_r_buff :: Scalar
  m_d_max :: Scalar
  m_filter_body :: bool
  m_diameter_shift :: bool
  m_storage_mode :: storageMode
  m_nlist :: "nat list"
  m_n_neigh :: "nat list"
  m_last_pos :: "Scalar3 list"
  m_last_L :: Scalar3
  m_last_L_local :: Scalar3
  m_head_list :: "nat list"
  n_Nmax :: "nat list"
  n_conditions :: "nat list"
  m_ex_list_tag :: "nat list list"
  m_ex_list_idx :: "nat list list"
  m_n_ex_tag :: "nat list"
  m_n_ex_idx :: "nat list"
  m_exclusions_set :: bool
  m_need_reallocate_exlist :: bool
  m_rcut_changed :: bool
  m_updates :: int
  m_forced_updates :: int
  m_dangerous_updates :: int
  m_force_update :: bool
  m_dist_check :: bool
  m_has_been_updated_once :: bool
  m_last_updated_tstep :: nat
  m_last_checked_tstep :: nat
  m_last_check_result :: bool
  m_every :: nat
  m_update_periods :: "nat list"

definition type_pair :: "'a NeighborList_scheme \<Rightarrow> uint \<Rightarrow> uint \<Rightarrow> nat" where
  "type_pair nl a b = unat (Index2D_idx (n_typpair_idx nl) a b)"

definition pos_of :: "ParticleData \<Rightarrow> nat \<Rightarrow> Scalar3" where
  "pos_of pd i = fst (m_pos (m_arrays pd) ! i)"

definition type_of :: "ParticleData \<Rightarrow> nat \<Rightarrow> uint" where
  "type_of pd i = snd (m_pos (m_arrays pd) ! i)"

definition forceUpdate :: "'a NeighborList_scheme \<Rightarrow> 'a NeighborList_scheme" where
  "forceUpdate nl = nl\<lparr>m_force_update := True\<rparr>"

text \<open>\<open>m_rcut_signal\<close> calls \<open>slotRCutChange\<close>.\<close>

definition slotRCutChange :: "'a NeighborList_scheme \<Rightarrow> 'a NeighborList_scheme" where
  "slotRCutChange nl = nl\<lparr>m_rcut_changed := True\<rparr>"

section \<open>Parameters\<close>

definition setRCutPair :: "ParticleData \<Rightarrow> uint \<Rightarrow> uint \<Rightarrow> Scalar \<Rightarrow> 'a NeighborList_scheme \<Rightarrow> 'a NeighborList_scheme result" where
  "setRCutPair pd typ1 typ2 r_cut nl =
     (if unat typ1 \<ge> Particle_Data.getNTypes pd \<or> unat typ2 \<ge> Particle_Data.getNTypes pd then Inl Runtime_error
      else Inr (forceUpdate (slotRCutChange
             (nl\<lparr>m_r_cut := (m_r_cut nl)[type_pair nl typ1 typ2 := r_cut, type_pair nl typ2 typ1 := r_cut]\<rparr>))))"

definition setRBuff :: "Scalar \<Rightarrow> 'a NeighborList_scheme \<Rightarrow> 'a NeighborList_scheme result" where
  "setRBuff r_buff nl =
     (let nl = nl\<lparr>m_r_buff := r_buff\<rparr>
      in if m_r_buff nl < 0 then Inl Runtime_error else Inr (forceUpdate (slotRCutChange nl)))"

text \<open>The pairs of types in the order of the loops, and a loop that may fail.\<close>

definition upper_pairs :: "nat \<Rightarrow> (nat \<times> nat) list" where
  "upper_pairs nt = concat (map (\<lambda>i. map (\<lambda>j. (i, j)) [i..<nt]) [0..<nt])"

fun foldr_result :: "('b \<Rightarrow> 's \<Rightarrow> 's result) \<Rightarrow> 'b list \<Rightarrow> 's \<Rightarrow> 's result" where
  "foldr_result f [] s = Inr s"
| "foldr_result f (x # xs) s = bindr (f x s) (foldr_result f xs)"

text \<open>\<open>setpair\<close> is the virtual function \<open>setRCutPair\<close>.\<close>

definition setRCut :: "(ParticleData \<Rightarrow> uint \<Rightarrow> uint \<Rightarrow> Scalar \<Rightarrow> 'a NeighborList_scheme \<Rightarrow> 'a NeighborList_scheme result)
    \<Rightarrow> ParticleData \<Rightarrow> Scalar \<Rightarrow> Scalar \<Rightarrow> 'a NeighborList_scheme \<Rightarrow> 'a NeighborList_scheme result" where
  "setRCut setpair pd r_cut r_buff nl =
     bindr (foldr_result (\<lambda>(i, j). setpair pd (of_nat i) (of_nat j) r_cut) (upper_pairs (Particle_Data.getNTypes pd)) nl) (setRBuff r_buff)"

definition setEvery :: "nat \<Rightarrow> bool \<Rightarrow> 'a NeighborList_scheme \<Rightarrow> 'a NeighborList_scheme" where
  "setEvery every dist_check nl = forceUpdate (nl\<lparr>m_every := every, m_dist_check := dist_check\<rparr>)"

definition setStorageMode :: "storageMode \<Rightarrow> 'a NeighborList_scheme \<Rightarrow> 'a NeighborList_scheme" where
  "setStorageMode mode nl = forceUpdate (nl\<lparr>m_storage_mode := mode\<rparr>)"

definition setFilterBody :: "nat \<Rightarrow> bool \<Rightarrow> 'a NeighborList_scheme \<Rightarrow> 'a NeighborList_scheme" where
  "setFilterBody num_bodies filter_body nl =
     (if num_bodies > 0 then forceUpdate (nl\<lparr>m_filter_body := filter_body\<rparr>) else nl)"

definition setDiameterShift :: "bool \<Rightarrow> 'a NeighborList_scheme \<Rightarrow> 'a NeighborList_scheme" where
  "setDiameterShift diameter_shift nl = forceUpdate (slotRCutChange (nl\<lparr>m_diameter_shift := diameter_shift\<rparr>))"

definition setMaximumDiameter :: "Scalar \<Rightarrow> 'a NeighborList_scheme \<Rightarrow> 'a NeighborList_scheme" where
  "setMaximumDiameter d_max nl = forceUpdate (slotRCutChange (nl\<lparr>m_d_max := d_max\<rparr>))"

section \<open>Cutoffs\<close>

definition type_pairs :: "nat \<Rightarrow> (nat \<times> nat) list" where
  "type_pairs nt = concat (map (\<lambda>i. map (\<lambda>j. (i, j)) [0..<nt]) [0..<nt])"

definition updateRList :: "ParticleData \<Rightarrow> 'a NeighborList_scheme \<Rightarrow> 'a NeighborList_scheme" where
  "updateRList pd nl =
     (let nt = Particle_Data.getNTypes pd;
          r_cut = (\<lambda>i j. m_r_cut nl ! type_pair nl (of_nat i) (of_nat j));
          r_cut_max_of = (\<lambda>i. foldl (\<lambda>m j. if r_cut i j > m then r_cut i j else m) 0 [0..<nt]);
          r_listsq = foldl (\<lambda>a (i, j). let r_list = (if r_cut i j > 0 then r_cut i j + m_r_buff nl else 0)
                                     in a[type_pair nl (of_nat i) (of_nat j) := r_list * r_list]) (m_r_listsq nl) (type_pairs nt);
          rcut_max = foldl (\<lambda>a i. a[i := r_cut_max_of i]) (m_rcut_max nl) [0..<nt];
          r_cut_max = foldl (\<lambda>m i. if r_cut_max_of i > m then r_cut_max_of i else m) 0 [0..<nt];
          r_cut_min = foldl (\<lambda>m k. let r = m_r_cut nl ! k in if r > 0 \<and> r < m then r else m) r_cut_max
                        [0..<unat (Index2D_getNumElements (n_typpair_idx nl))]
      in nl\<lparr>m_r_listsq := r_listsq, m_rcut_max := rcut_max, m_rcut_max_max := r_cut_max, m_rcut_min := r_cut_min, m_rcut_changed := False\<rparr>)"

definition getMaxRCut :: "ParticleData \<Rightarrow> 'a NeighborList_scheme \<Rightarrow> Scalar \<times> 'a NeighborList_scheme" where
  "getMaxRCut pd nl = (let nl = (if m_rcut_changed nl then updateRList pd nl else nl) in (m_rcut_max_max nl, nl))"

definition getMinRCut :: "ParticleData \<Rightarrow> 'a NeighborList_scheme \<Rightarrow> Scalar \<times> 'a NeighborList_scheme" where
  "getMinRCut pd nl = (let nl = (if m_rcut_changed nl then updateRList pd nl else nl) in (m_rcut_min nl, nl))"

definition add_shift :: "'a NeighborList_scheme \<Rightarrow> Scalar \<Rightarrow> Scalar" where
  "add_shift nl r = (if m_diameter_shift nl then r + (m_d_max nl - 1) else r)"

definition getMaxRList :: "ParticleData \<Rightarrow> 'a NeighborList_scheme \<Rightarrow> Scalar \<times> 'a NeighborList_scheme" where
  "getMaxRList pd nl = (let (r, nl) = getMaxRCut pd nl in (add_shift nl (r + m_r_buff nl), nl))"

definition getMinRList :: "ParticleData \<Rightarrow> 'a NeighborList_scheme \<Rightarrow> Scalar \<times> 'a NeighborList_scheme" where
  "getMinRList pd nl = (let (r, nl) = getMinRCut pd nl in (add_shift nl (r + m_r_buff nl), nl))"

definition getGhostLayerWidth :: "nat \<Rightarrow> 'a NeighborList_scheme \<Rightarrow> Scalar" where
  "getGhostLayerWidth type nl = (if m_rcut_max nl ! type > 0 then add_shift nl (m_rcut_max nl ! type + m_r_buff nl) else 0)"

definition estimateNNeigh :: "ParticleData \<Rightarrow> 'a NeighborList_scheme \<Rightarrow> Scalar \<times> 'a NeighborList_scheme" where
  "estimateNNeigh pd nl =
     (let L = m_L (m_box pd); vol = vx L * vy L * vz L; n_dens = real (m_nparticles pd) / vol;
          (r, nl) = getMaxRCut pd nl; r_max = add_shift nl (r + m_r_buff nl);
          vol_cut = 4 / 3 * pi * r_max * r_max * r_max
      in (n_dens * vol_cut, nl))"

section \<open>Memory\<close>

text \<open>\<open>GPUArray::resize(width, height)\<close> on rows.\<close>

definition rows_resize :: "nat \<Rightarrow> nat \<Rightarrow> nat list list \<Rightarrow> nat list list" where
  "rows_resize w h rows = array_resize (replicate w 0) h (map (array_resize 0 w) rows)"

definition reallocate_nlist :: "ParticleData \<Rightarrow> 'a NeighborList_scheme \<Rightarrow> 'a NeighborList_scheme" where
  "reallocate_nlist pd nl =
     (let n = m_max_nparticles pd in forceUpdate (nl\<lparr>
        m_last_pos := array_resize (Vec3 0 0 0) n (m_last_pos nl), m_n_ex_idx := array_resize 0 n (m_n_ex_idx nl),
        m_ex_list_idx := rows_resize n (length (m_ex_list_idx nl)) (m_ex_list_idx nl),
        m_head_list := array_resize 0 n (m_head_list nl), m_n_neigh := array_resize 0 n (m_n_neigh nl)\<rparr>))"

definition reallocateTypes :: "ParticleData \<Rightarrow> 'a NeighborList_scheme \<Rightarrow> 'a NeighborList_scheme" where
  "reallocateTypes pd nl =
     (let nt = Particle_Data.getNTypes pd; idx = Index2D_square (of_nat nt); n = unat (Index2D_getNumElements idx)
      in forceUpdate (slotRCutChange (nl\<lparr>n_typpair_idx := idx, m_r_cut := array_resize 0 n (m_r_cut nl),
           m_rcut_max := array_resize 0 nt (m_rcut_max nl), m_r_listsq := array_resize 0 n (m_r_listsq nl),
           n_Nmax := array_resize 0 nt (n_Nmax nl), n_conditions := array_resize 0 nt (n_conditions nl)\<rparr>)))"

definition resizeNlist :: "nat \<Rightarrow> 'a NeighborList_scheme \<Rightarrow> 'a NeighborList_scheme" where
  "resizeNlist req nl =
     (if req > length (m_nlist nl)
      then let alloc_size = (if length (m_nlist nl) \<noteq> 0 then length (m_nlist nl) else 1)
           in nl\<lparr>m_nlist := array_resize 0 (grow_until req alloc_size) (m_nlist nl)\<rparr>
      else nl)"

definition buildHeadList :: "ParticleData \<Rightarrow> 'a NeighborList_scheme \<Rightarrow> 'a NeighborList_scheme" where
  "buildHeadList pd nl =
     (let (heads, headAddress) = foldl (\<lambda>(heads, a) i. (heads[i := a], (a + n_Nmax nl ! unat (type_of pd i)) mod 2 ^ 32))
            (m_head_list nl, 0) [0..<m_nparticles pd]
      in resizeNlist headAddress (nl\<lparr>m_head_list := heads\<rparr>))"

definition checkConditions_nlist :: "ParticleData \<Rightarrow> 'a NeighborList_scheme \<Rightarrow> bool \<times> 'a NeighborList_scheme" where
  "checkConditions_nlist pd nl =
     (let (nmax, res) = foldl (\<lambda>(nmax, res) i. let c = n_conditions nl ! i in
              if c > nmax ! i then (nmax[i := (if c > 8 then (c + 7) div 8 * 8 else 8)], True) else (nmax, res))
            (n_Nmax nl, False) [0..<Particle_Data.getNTypes pd]
      in (res, nl\<lparr>n_Nmax := nmax\<rparr>))"

definition resetConditions_nlist :: "ParticleData \<Rightarrow> 'a NeighborList_scheme \<Rightarrow> 'a NeighborList_scheme" where
  "resetConditions_nlist pd nl = nl\<lparr>n_conditions := memset0 (n_conditions nl) 0 (Particle_Data.getNTypes pd)\<rparr>"

section \<open>Exclusions\<close>

definition growExclusionList :: "ParticleData \<Rightarrow> 'a NeighborList_scheme \<Rightarrow> 'a NeighborList_scheme" where
  "growExclusionList pd nl =
     (let new_height = length (m_ex_list_idx nl) + 1 in forceUpdate (nl\<lparr>
        m_ex_list_tag := rows_resize (m_rtag_size pd) new_height (m_ex_list_tag nl),
        m_ex_list_idx := rows_resize (m_max_nparticles pd) new_height (m_ex_list_idx nl)\<rparr>))"

definition isExcluded :: "ParticleData \<Rightarrow> nat \<Rightarrow> nat \<Rightarrow> 'a NeighborList_scheme \<Rightarrow> bool result" where
  "isExcluded pd tag1 tag2 nl =
     bindr (check (\<not> m_need_reallocate_exlist nl) Assertion_failed) (\<lambda>_.
     bindr (check (tag1 \<le> getMaximumTag pd) Assertion_failed) (\<lambda>_.
     bindr (check (tag2 \<le> getMaximumTag pd) Assertion_failed) (\<lambda>_.
       Inr (list_ex (\<lambda>i. m_ex_list_tag nl ! i ! tag1 = tag2) [0..<m_n_ex_tag nl ! tag1]))))"

definition store_exclusion :: "nat \<Rightarrow> nat \<Rightarrow> 'a NeighborList_scheme \<Rightarrow> 'a NeighborList_scheme result" where
  "store_exclusion tag1 tag2 nl =
     (let pos1 = m_n_ex_tag nl ! tag1
      in bindr (check (pos1 < length (m_ex_list_idx nl)) Assertion_failed) (\<lambda>_.
         Inr (nl\<lparr>m_ex_list_tag := (m_ex_list_tag nl)[pos1 := (m_ex_list_tag nl ! pos1)[tag1 := tag2]],
                 m_n_ex_tag := (m_n_ex_tag nl)[tag1 := pos1 + 1]\<rparr>)))"

definition addExclusion :: "ParticleData \<Rightarrow> nat \<Rightarrow> nat \<Rightarrow> 'a NeighborList_scheme \<Rightarrow> 'a NeighborList_scheme result" where
  "addExclusion pd tag1 tag2 nl =
     bindr (check (tag1 \<le> getMaximumTag pd) Assertion_failed) (\<lambda>_.
     bindr (check (tag2 \<le> getMaximumTag pd) Assertion_failed) (\<lambda>_.
     bindr (check (\<not> m_need_reallocate_exlist nl) Assertion_failed) (\<lambda>_.
     let nl = nl\<lparr>m_exclusions_set := True\<rparr>
     in bindr (isExcluded pd tag1 tag2 nl) (\<lambda>excluded.
        if excluded then Inr nl
        else let h = length (m_ex_list_idx nl);
                 grow = (m_n_ex_tag nl ! tag1 = h \<or> m_n_ex_tag nl ! tag2 = h);
                 nl = (if grow then growExclusionList pd nl else nl)
             in bindr (store_exclusion tag1 tag2 nl) (\<lambda>nl.
                bindr (store_exclusion tag2 tag1 nl) (\<lambda>nl. Inr (forceUpdate nl)))))))"

definition clearExclusions :: "ParticleData \<Rightarrow> 'a NeighborList_scheme \<Rightarrow> 'a NeighborList_scheme" where
  "clearExclusions pd nl =
     (let nl = (if m_need_reallocate_exlist nl
                then nl\<lparr>m_n_ex_tag := array_resize 0 (m_rtag_size pd) (m_n_ex_tag nl),
                        m_ex_list_tag := rows_resize (m_rtag_size pd) (length (m_ex_list_tag nl)) (m_ex_list_tag nl),
                        m_need_reallocate_exlist := False\<rparr>
                else nl)
      in forceUpdate (nl\<lparr>m_n_ex_tag := replicate (length (m_n_ex_tag nl)) 0, m_n_ex_idx := replicate (length (m_n_ex_idx nl)) 0,
           m_exclusions_set := False\<rparr>))"

definition slotGlobalParticleNumberChange :: "'a NeighborList_scheme \<Rightarrow> 'a NeighborList_scheme" where
  "slotGlobalParticleNumberChange nl = nl\<lparr>m_need_reallocate_exlist := True\<rparr>"

definition getNumExclusions :: "ParticleData \<Rightarrow> nat \<Rightarrow> 'a NeighborList_scheme \<Rightarrow> nat" where
  "getNumExclusions pd n nl =
     foldl (\<lambda>count tag. if \<not> isTagActive tag pd then count else if m_n_ex_tag nl ! tag = n then count + 1 else count)
       0 [0..<m_rtag_size pd + 1]"

text \<open>The members of the groups come from a snapshot of the group data: two, three and four tags.\<close>

definition addExclusionsFromBonds :: "ParticleData \<Rightarrow> (nat \<times> nat) list \<Rightarrow> 'a NeighborList_scheme \<Rightarrow> 'a NeighborList_scheme result" where
  "addExclusionsFromBonds pd bonds nl = foldr_result (\<lambda>(a, b). addExclusion pd a b) bonds nl"

definition addExclusionsFromAngles :: "ParticleData \<Rightarrow> (nat \<times> nat \<times> nat) list \<Rightarrow> 'a NeighborList_scheme \<Rightarrow> 'a NeighborList_scheme result" where
  "addExclusionsFromAngles pd angles nl = foldr_result (\<lambda>(a, b, c). addExclusion pd a c) angles nl"

definition addExclusionsFromDihedrals :: "ParticleData \<Rightarrow> (nat \<times> nat \<times> nat \<times> nat) list \<Rightarrow> 'a NeighborList_scheme
    \<Rightarrow> 'a NeighborList_scheme result" where
  "addExclusionsFromDihedrals pd dihedrals nl = foldr_result (\<lambda>(a, b, c, d). addExclusion pd a d) dihedrals nl"

definition MAXNBONDS :: nat where
  "MAXNBONDS = 7 + 1"

text \<open>\<open>localBondList\<close>: for each atom the number of its bonds and its partners.\<close>

fun bond_partners :: "(nat \<times> nat) list \<Rightarrow> nat list \<Rightarrow> nat list result" where
  "bond_partners [] l = Inr l"
| "bond_partners ((tagA, tagB) # bonds) l =
     (let nBondsA = l ! (tagA * MAXNBONDS) + 1; l = l[tagA * MAXNBONDS := nBondsA];
          nBondsB = l ! (tagB * MAXNBONDS) + 1; l = l[tagB * MAXNBONDS := nBondsB]
      in if nBondsA \<ge> MAXNBONDS then Inl Runtime_error
         else if nBondsB \<ge> MAXNBONDS then Inl Runtime_error
         else bond_partners bonds (l[tagA * MAXNBONDS + nBondsA := tagB, tagB * MAXNBONDS + nBondsB := tagA]))"

definition addOneThreeExclusionsFromTopology :: "ParticleData \<Rightarrow> (nat \<times> nat) list \<Rightarrow> 'a NeighborList_scheme
    \<Rightarrow> 'a NeighborList_scheme result" where
  "addOneThreeExclusionsFromTopology pd bonds nl =
     (let myNAtoms = m_rtag_size pd
      in if bonds = [] then Inr nl
         else bindr (bond_partners bonds (replicate (MAXNBONDS * myNAtoms) 0)) (\<lambda>l.
           foldr_result (\<lambda>(a, b). addExclusion pd a b)
             (concat (map (\<lambda>i. let iAtom = i * MAXNBONDS; nBonds = l ! iAtom
                             in if nBonds > 1
                                then concat (map (\<lambda>j. map (\<lambda>k. (l ! (iAtom + j), l ! (iAtom + k))) [j + 1..<nBonds + 1]) [1..<nBonds])
                                else []) [0..<myNAtoms])) nl))"

definition addOneFourExclusionsFromTopology :: "ParticleData \<Rightarrow> (nat \<times> nat) list \<Rightarrow> 'a NeighborList_scheme
    \<Rightarrow> 'a NeighborList_scheme result" where
  "addOneFourExclusionsFromTopology pd bonds nl =
     (let myNAtoms = m_rtag_size pd
      in if bonds = [] then Inr nl
         else bindr (bond_partners bonds (replicate (MAXNBONDS * myNAtoms) 0)) (\<lambda>l.
           foldr_result (\<lambda>(a, b). addExclusion pd a b)
             (concat (map (\<lambda>(tagA, tagB).
                let nBondsA = l ! (tagA * MAXNBONDS); nBondsB = l ! (tagB * MAXNBONDS);
                    partners = (\<lambda>tag n other. filter (\<lambda>t. t \<noteq> other) (map (\<lambda>j. l ! (tag * MAXNBONDS + j)) [1..<n + 1]))
                in concat (map (\<lambda>tagJ. map (\<lambda>tagK. (tagJ, tagK)) (partners tagB nBondsB tagA)) (partners tagA nBondsA tagB))) bonds)) nl))"

definition updateExListIdx :: "ParticleData \<Rightarrow> 'a NeighborList_scheme \<Rightarrow> 'a NeighborList_scheme result" where
  "updateExListIdx pd nl =
     bindr (check (\<not> m_need_reallocate_exlist nl) Assertion_failed) (\<lambda>_.
     let (n_ex, rows) = foldl (\<lambda>(n_ex, rows) idx.
            let tag = m_tag (m_arrays pd) ! idx; n = m_n_ex_tag nl ! tag
            in (n_ex[idx := n], foldl (\<lambda>rows offset. rows[offset := (rows ! offset)[idx := m_rtag pd ! (m_ex_list_tag nl ! offset ! tag)]]) rows [0..<n]))
          (m_n_ex_idx nl, m_ex_list_idx nl) [0..<m_nparticles pd]
     in Inr (nl\<lparr>m_n_ex_idx := n_ex, m_ex_list_idx := rows\<rparr>))"

definition filterNlist :: "ParticleData \<Rightarrow> 'a NeighborList_scheme \<Rightarrow> 'a NeighborList_scheme" where
  "filterNlist pd nl =
     (let (nlist, n_neigh) = foldl (\<lambda>(nlist, n_neigh) idx.
            let myHead = m_head_list nl ! idx; n_ex = m_n_ex_idx nl ! idx;
                (nlist, new_n_neigh) = foldl (\<lambda>(nlist, new_n_neigh) cur_neigh_idx.
                   let cur_neigh = nlist ! (myHead + cur_neigh_idx);
                       excluded = list_ex (\<lambda>cur_ex_idx. m_ex_list_idx nl ! cur_ex_idx ! idx = cur_neigh) [0..<n_ex]
                   in if excluded then (nlist, new_n_neigh) else (nlist[myHead + new_n_neigh := cur_neigh], new_n_neigh + 1))
                 (nlist, 0) [0..<n_neigh ! idx]
            in (nlist, n_neigh[idx := new_n_neigh])) (m_nlist nl, m_n_neigh nl) [0..<m_nparticles pd]
      in nl\<lparr>m_nlist := nlist, m_n_neigh := n_neigh\<rparr>)"

section \<open>Deciding when to update\<close>

definition distanceCheck :: "ParticleData \<Rightarrow> 'a NeighborList_scheme \<Rightarrow> bool" where
  "distanceCheck pd nl =
     (let L_g = getNearestPlaneDistance (m_global_box pd); L = m_last_L nl;
          lambda = make_scalar3 (vx L_g / vx L) (vy L_g / vy L) (vz L_g / vz L);
          lambda_min = (if vx lambda < vy lambda then vx lambda else vy lambda);
          lambda_min = (if lambda_min < vz lambda then lambda_min else vz lambda)
      in list_ex (\<lambda>i. let old_rmin = m_rcut_max nl ! unat (type_of pd i);
                       rmax = old_rmin + m_r_buff nl;
                       delta_max = (rmax * lambda_min - old_rmin) / 2;
                       maxsq = (if delta_max > 0 then delta_max * delta_max else 0);
                       p = pos_of pd i; q = m_last_pos nl ! i;
                       dx = minImage (m_box pd) (make_scalar3 (vx p - vx lambda * vx q) (vy p - vy lambda * vy q) (vz p - vz lambda * vz q))
                   in dot dx dx \<ge> maxsq) [0..<m_nparticles pd])"

definition setLastUpdatedPos :: "ParticleData \<Rightarrow> 'a NeighborList_scheme \<Rightarrow> 'a NeighborList_scheme" where
  "setLastUpdatedPos pd nl =
     nl\<lparr>m_last_pos := memcpy (m_last_pos nl) 0 (map fst (m_pos (m_arrays pd))) 0 (m_nparticles pd),
        m_last_L := getNearestPlaneDistance (m_global_box pd), m_last_L_local := getNearestPlaneDistance (m_box pd)\<rparr>"

definition check_period_end :: "'a NeighborList_scheme \<Rightarrow> nat" where
  "check_period_end nl = (m_last_updated_tstep nl + m_every nl) mod 2 ^ 32"

definition shouldCheckDistance :: "nat \<Rightarrow> 'a NeighborList_scheme \<Rightarrow> bool" where
  "shouldCheckDistance timestep nl \<longleftrightarrow> \<not> m_force_update nl \<and> \<not> timestep < check_period_end nl"

definition count_period :: "nat \<Rightarrow> 'a NeighborList_scheme \<Rightarrow> 'a NeighborList_scheme" where
  "count_period timestep nl =
     (if timestep > m_last_updated_tstep nl
      then let period = timestep - m_last_updated_tstep nl;
               period = (if period \<ge> length (m_update_periods nl) then length (m_update_periods nl) - 1 else period)
           in nl\<lparr>m_update_periods := (m_update_periods nl)[period := m_update_periods nl ! period + 1]\<rparr>
      else nl)"

definition needsUpdating :: "ParticleData \<Rightarrow> nat \<Rightarrow> 'a NeighborList_scheme \<Rightarrow> bool \<times> 'a NeighborList_scheme" where
  "needsUpdating pd timestep nl =
     (if m_last_checked_tstep nl = timestep
      then if m_force_update nl then (True, nl\<lparr>m_force_update := False\<rparr>) else (m_last_check_result nl, nl)
      else let nl = nl\<lparr>m_last_checked_tstep := timestep\<rparr>
      in if \<not> m_force_update nl \<and> \<not> shouldCheckDistance timestep nl then (False, nl\<lparr>m_last_check_result := False\<rparr>)
      else let dangerous = (m_dist_check nl \<and> m_every nl > 1 \<and> timestep = check_period_end nl);
               (result, dangerous, nl) =
                 (if m_force_update nl
                  then (True, False, nl\<lparr>m_force_update := False, m_forced_updates := m_forced_updates nl + 1, m_last_updated_tstep := timestep\<rparr>)
                  else let result = (if m_r_buff nl < 1 / 1000000
                                       \<or> (\<not> m_dist_check nl \<and> (m_every nl = 0 \<or> (m_every nl > 1 \<and> timestep = check_period_end nl)))
                                     then True else distanceCheck pd nl)
                       in (result, dangerous,
                           if result then (count_period timestep nl)\<lparr>m_last_updated_tstep := timestep, m_updates := m_updates nl + 1\<rparr> else nl));
               nl = (if result \<and> dangerous then nl\<lparr>m_dangerous_updates := m_dangerous_updates nl + 1\<rparr> else nl)
           in (result, nl\<lparr>m_last_check_result := result\<rparr>))"

definition hasBeenUpdated :: "nat \<Rightarrow> 'a NeighborList_scheme \<Rightarrow> bool" where
  "hasBeenUpdated timestep nl \<longleftrightarrow> m_last_updated_tstep nl = timestep \<and> m_has_been_updated_once nl"

definition getNumUpdates :: "'a NeighborList_scheme \<Rightarrow> uint" where
  "getNumUpdates nl = of_int (m_updates nl + m_forced_updates nl)"

definition resetStats :: "'a NeighborList_scheme \<Rightarrow> 'a NeighborList_scheme" where
  "resetStats nl = nl\<lparr>m_updates := 0, m_forced_updates := 0, m_dangerous_updates := 0,
     m_update_periods := replicate (length (m_update_periods nl)) 0\<rparr>"

definition getSmallestRebuild :: "'a NeighborList_scheme \<Rightarrow> nat" where
  "getSmallestRebuild nl = length (takeWhile (\<lambda>p. p = 0) (m_update_periods nl))"

section \<open>Construction\<close>

definition NeighborList_new :: "ParticleData \<Rightarrow> Scalar \<Rightarrow> Scalar \<Rightarrow> NeighborList result" where
  "NeighborList_new pd r_cut r_buff =
     bindr (check (\<not> r_buff < 0) Runtime_error) (\<lambda>_.
     let nt = Particle_Data.getNTypes pd; idx = Index2D_square (of_nat nt); n = unat (Index2D_getNumElements idx); maxn = m_max_nparticles pd
     in bindr (setRCut setRCutPair pd r_cut r_buff
          \<lparr>n_compute = Compute_new, n_typpair_idx = idx, m_r_cut = replicate n 0, m_r_listsq = replicate n 0, m_rcut_max = replicate nt 0,
           m_rcut_max_max = r_cut, m_rcut_min = r_cut, m_r_buff = r_buff, m_d_max = 1, m_filter_body = False, m_diameter_shift = False,
           m_storage_mode = half, m_nlist = replicate (8 * maxn) 0, m_n_neigh = replicate maxn 0, m_last_pos = replicate maxn (Vec3 0 0 0),
           m_last_L = getNearestPlaneDistance (m_global_box pd), m_last_L_local = getNearestPlaneDistance (m_box pd),
           m_head_list = replicate maxn 0, n_Nmax = replicate nt 8, n_conditions = replicate nt 0,
           m_ex_list_tag = [replicate (m_rtag_size pd) 0], m_ex_list_idx = [replicate maxn 0],
           m_n_ex_tag = replicate (m_rtag_size pd) 0, m_n_ex_idx = replicate maxn 0, m_exclusions_set = False,
           m_need_reallocate_exlist = False, m_rcut_changed = True, m_updates = 0, m_forced_updates = 0, m_dangerous_updates = 0,
           m_force_update = True, m_dist_check = True, m_has_been_updated_once = False, m_last_updated_tstep = 0,
           m_last_checked_tstep = 0, m_last_check_result = False, m_every = 0, m_update_periods = replicate 100 0\<rparr>)
        (\<lambda>nl. Inr (clearExclusions pd nl)))"

section \<open>Computing the list\<close>

text \<open>\<open>build\<close> is the virtual function \<open>buildNlist\<close>; \<open>None\<close> is a call that does not return.\<close>

type_synonym 'a builder = "ParticleData \<Rightarrow> nat \<Rightarrow> 'a NeighborList_scheme \<Rightarrow> 'a NeighborList_scheme result option"

definition buildNlist :: "'a builder" where
  "buildNlist pd timestep nl = Some (Inl Runtime_error)"

partial_function (option) build_until_fits :: "'a builder \<Rightarrow> ParticleData \<Rightarrow> nat \<Rightarrow> 'a NeighborList_scheme
    \<Rightarrow> 'a NeighborList_scheme result option" where
  "build_until_fits build pd timestep nl =
     (case build pd timestep nl of
        None \<Rightarrow> None
      | Some (Inl e) \<Rightarrow> Some (Inl e)
      | Some (Inr nl) \<Rightarrow>
          let (overflowed, nl) = checkConditions_nlist pd nl
          in if overflowed then build_until_fits build pd timestep (resetConditions_nlist pd (buildHeadList pd nl)) else Some (Inr nl))"

definition nlist_compute :: "'a builder \<Rightarrow> ParticleData \<Rightarrow> nat \<Rightarrow> 'a NeighborList_scheme \<Rightarrow> 'a NeighborList_scheme result option" where
  "nlist_compute build pd timestep nl =
     (let nl = (if m_rcut_changed nl then updateRList pd nl else nl);
          (should, c) = shouldCompute timestep (n_compute nl); nl = nl\<lparr>n_compute := c\<rparr>
      in if \<not> should \<and> \<not> m_force_update nl then Some (Inr nl)
         else case (if m_force_update nl
                    then let nl = buildHeadList pd nl in if m_exclusions_set nl then updateExListIdx pd nl else Inr nl
                    else Inr nl) of
                Inl e \<Rightarrow> Some (Inl e)
              | Inr nl \<Rightarrow>
                  let (needs, nl) = needsUpdating pd timestep nl
                  in if needs
                     then case build_until_fits build pd timestep nl of
                            None \<Rightarrow> None
                          | Some (Inl e) \<Rightarrow> Some (Inl e)
                          | Some (Inr nl) \<Rightarrow>
                              let nl = (if m_exclusions_set nl then filterNlist pd nl else nl)
                              in Some (Inr ((setLastUpdatedPos pd nl)\<lparr>m_has_been_updated_once := True\<rparr>))
                     else Some (Inr nl))"

text \<open>The passes that \<open>benchmark\<close> times.\<close>

definition nlist_benchmark :: "'a builder \<Rightarrow> ParticleData \<Rightarrow> nat \<Rightarrow> 'a NeighborList_scheme \<Rightarrow> 'a NeighborList_scheme result option" where
  "nlist_benchmark build pd num_iters nl =
     ((\<lambda>r. case r of Some (Inr nl) \<Rightarrow> build pd 0 nl | _ \<Rightarrow> r) ^^ (num_iters + 1)) (nlist_compute build pd 0 (forceUpdate nl))"

text \<open>What both builders do with a neighbor that is accepted: \<open>(nlist, conditions, n_neigh)\<close>.\<close>

definition push_neighbor :: "nat \<Rightarrow> nat \<Rightarrow> nat \<Rightarrow> nat \<Rightarrow> nat list \<times> nat list \<times> nat \<Rightarrow> nat list \<times> nat list \<times> nat" where
  "push_neighbor Nmax_i head_i type_i j = (\<lambda>(nlist, conditions, n).
     (if n < Nmax_i then (nlist[head_i + n := j], conditions, n + 1)
      else (nlist, conditions[type_i := max (conditions ! type_i) (n + 1)], n + 1)))"

definition same_body :: "ParticleData \<Rightarrow> 'a NeighborList_scheme \<Rightarrow> nat \<Rightarrow> nat \<Rightarrow> bool" where
  "same_body pd nl i j \<longleftrightarrow> m_filter_body nl \<and> m_body (m_arrays pd) ! i \<noteq> NO_BODY \<and> m_body (m_arrays pd) ! i = m_body (m_arrays pd) ! j"

definition sqshift :: "ParticleData \<Rightarrow> 'a NeighborList_scheme \<Rightarrow> Scalar \<Rightarrow> nat \<Rightarrow> nat \<Rightarrow> Scalar" where
  "sqshift pd nl r_list i j =
     (if m_diameter_shift nl
      then let delta = (m_diameter (m_arrays pd) ! i + m_diameter (m_arrays pd) ! j) * (1 / 2) - 1 in (delta + 2 * r_list) * delta
      else 0)"

definition stored :: "'a NeighborList_scheme \<Rightarrow> nat \<Rightarrow> nat \<Rightarrow> bool" where
  "stored nl i j \<longleftrightarrow> m_storage_mode nl = full \<or> i < j"

section \<open>Building over a cell list\<close>

record NeighborListBinned = NeighborList +
  m_cl :: CellList

definition update_width :: "ParticleData \<Rightarrow> NeighborListBinned \<Rightarrow> NeighborListBinned" where
  "update_width pd nl = (let (r, nl) = getMaxRCut pd nl; rmax = add_shift nl (r + m_r_buff nl) in nl\<lparr>m_cl := setNominalWidth rmax (m_cl nl)\<rparr>)"

definition binned_setRCutPair :: "ParticleData \<Rightarrow> uint \<Rightarrow> uint \<Rightarrow> Scalar \<Rightarrow> NeighborListBinned \<Rightarrow> NeighborListBinned result" where
  "binned_setRCutPair pd typ1 typ2 r_cut nl = bindr (setRCutPair pd typ1 typ2 r_cut nl) (\<lambda>nl. Inr (update_width pd nl))"

definition binned_setRCut :: "ParticleData \<Rightarrow> Scalar \<Rightarrow> Scalar \<Rightarrow> NeighborListBinned \<Rightarrow> NeighborListBinned result" where
  "binned_setRCut pd r_cut r_buff nl = bindr (setRCut binned_setRCutPair pd r_cut r_buff nl) (\<lambda>nl. Inr (update_width pd nl))"

definition binned_setMaximumDiameter :: "ParticleData \<Rightarrow> Scalar \<Rightarrow> NeighborListBinned \<Rightarrow> NeighborListBinned" where
  "binned_setMaximumDiameter pd d_max nl = update_width pd (setMaximumDiameter d_max nl)"

definition NeighborListBinned_new :: "ParticleData \<Rightarrow> Scalar \<Rightarrow> Scalar \<Rightarrow> CellList option \<Rightarrow> NeighborListBinned result" where
  "NeighborListBinned_new pd r_cut r_buff cl =
     bindr (NeighborList_new pd r_cut r_buff) (\<lambda>nl.
     let cl = (case cl of None \<Rightarrow> CellList_new | Some cl \<Rightarrow> cl);
         cl = setFlagIndex (setComputeTDB False (setRadius 1 cl))
     in binned_setRCut pd r_cut r_buff (NeighborList.extend nl (NeighborListBinned.fields cl)))"

text \<open>A flag read back as an integer; a list with charges is not one of this class.\<close>

fun scalar_as_int :: "cell_flag \<Rightarrow> nat" where
  "scalar_as_int (Flag_index n) = n"
| "scalar_as_int (Flag_type t) = unat t"
| "scalar_as_int (Flag_charge q) = undefined"

text \<open>The entries of a cell and its adjacent cells, in the order of the loops.\<close>

definition cell_particles :: "CellList \<Rightarrow> nat \<Rightarrow> (Scalar3 \<times> nat) list" where
  "cell_particles cl c = map (\<lambda>o'. let e = m_xyzf cl ! unat (Index2D_idx (m_cell_list_indexer cl) (of_nat o') (of_nat c)) in (fst e, scalar_as_int (snd e)))
     [0..<m_cell_size cl ! c]"

definition bin_candidates :: "CellList \<Rightarrow> nat \<Rightarrow> (Scalar3 \<times> nat) list" where
  "bin_candidates cl my_cell = concat (map (\<lambda>cur_adj.
       cell_particles cl (m_cell_adj cl ! unat (Index2D_idx (m_cell_adj_indexer cl) (of_nat cur_adj) (of_nat my_cell))))
     [0..<unat (Index2D_getW (m_cell_adj_indexer cl))])"

definition own_cell :: "ParticleData \<Rightarrow> CellList \<Rightarrow> nat \<Rightarrow> nat" where
  "own_cell pd cl i =
     (let f = makeFraction_ghost (m_box pd) (pos_of pd i) (m_ghost_width cl); d = m_dim cl; periodic = m_periodic (m_box pd);
          ib = cast_int (vx f * real (tx d)); jb = cast_int (vy f * real (ty d)); kb = cast_int (vz f * real (tz d));
          ib = (if ib = int (tx d) \<and> tx periodic then 0 else ib);
          jb = (if jb = int (ty d) \<and> ty periodic then 0 else jb);
          kb = (if kb = int (tz d) \<and> tz periodic then 0 else kb)
      in cell_at cl ib jb kb)"

definition bin_consider :: "ParticleData \<Rightarrow> NeighborListBinned \<Rightarrow> nat \<Rightarrow> Scalar3 \<times> nat \<Rightarrow> nat list \<times> nat list \<times> nat
    \<Rightarrow> nat list \<times> nat list \<times> nat" where
  "bin_consider pd nl i = (\<lambda>(neigh_pos, cur_neigh) st.
     (let type_i = type_of pd i; pair = type_pair nl type_i (type_of pd cur_neigh);
          r_cut = m_r_cut nl ! pair;
          excluded = (i = cur_neigh \<or> r_cut \<le> 0 \<or> same_body pd nl i cur_neigh)
      in if excluded then st
         else let dx = minImage (m_box pd) (pos_of pd i - neigh_pos);
                  r_list = r_cut + m_r_buff nl
              in if dot dx dx \<le> m_r_listsq nl ! pair + sqshift pd nl r_list i cur_neigh \<and> stored nl i cur_neigh
                 then push_neighbor (n_Nmax nl ! unat type_i) (m_head_list nl ! i) (unat type_i) cur_neigh st
                 else st))"

definition bin_step :: "ParticleData \<Rightarrow> NeighborListBinned \<Rightarrow> nat \<Rightarrow> NeighborListBinned" where
  "bin_step pd nl i =
     (let (nlist, conditions, n) = foldl (\<lambda>st c. bin_consider pd nl i c st) (m_nlist nl, n_conditions nl, 0)
            (bin_candidates (m_cl nl) (own_cell pd (m_cl nl) i))
      in nl\<lparr>m_nlist := nlist, n_conditions := conditions, m_n_neigh := (m_n_neigh nl)[i := n]\<rparr>)"

text \<open>\<open>rmax * 2\<close> has to be less than the distances of the planes in periodic directions.\<close>

definition box_too_small :: "nat \<Rightarrow> ParticleData \<Rightarrow> Scalar \<Rightarrow> bool" where
  "box_too_small ndim pd rmax \<longleftrightarrow>
     (let p = m_periodic (m_box pd); npd = getNearestPlaneDistance (m_box pd)
      in (tx p \<and> vx npd \<le> rmax * 2) \<or> (ty p \<and> vy npd \<le> rmax * 2) \<or> (ndim = 3 \<and> tz p \<and> vz npd \<le> rmax * 2))"

definition binned_buildNlist :: "nat \<Rightarrow> ParticleData \<Rightarrow> nat \<Rightarrow> NeighborListBinned \<Rightarrow> NeighborListBinned result option" where
  "binned_buildNlist ndim pd timestep nl =
     (case cells_compute ndim pd timestep (m_cl nl) of
        None \<Rightarrow> None
      | Some (Inl e) \<Rightarrow> Some (Inl e)
      | Some (Inr cl) \<Rightarrow>
          let nl = nl\<lparr>m_cl := cl\<rparr>;
              (r, nl) = getMaxRCut pd nl; rmax = add_shift nl (r + m_r_buff nl)
          in if box_too_small ndim pd rmax then Some (Inl Runtime_error)
             else Some (Inr (foldl (bin_step pd) nl [0..<m_nparticles pd])))"

end
