(* ===== verification/Cell_List_Correct.thy ===== *)
theory Cell_List_Correct
  imports Cell_List
begin

text \<open>
  The cell list is complete: binning puts every particle into the list of its cell, the loop over
  overflows ends, the adjacency lists enumerate the cells around each cell once, and particles
  within the nominal width of each other, through any periodic image, are found in adjacent cells.
\<close>

section \<open>Numbers of cells\<close>

definition cell_count :: "uint3 \<Rightarrow> nat" where
  "cell_count d = tx d * ty d * tz d"

definition cell_number :: "uint3 \<Rightarrow> nat \<times> nat \<times> nat \<Rightarrow> nat" where
  "cell_number d = (\<lambda>(i, j, k). (k * ty d + j) * tx d + i)"

definition cell_range :: "uint3 \<Rightarrow> (nat \<times> nat \<times> nat) set" where
  "cell_range d = {..<tx d} \<times> {..<ty d} \<times> {..<tz d}"

lemma cell_number_bij: "bij_betw (cell_number d) (cell_range d) {..<cell_count d}"
proof -
  have "cell_number d (i, j, k) < cell_count d" if "i < tx d" "j < ty d" "k < tz d" for i j k
    using row_major_less [OF that(1) row_major_less [OF that(2,3)]] by (simp add: cell_number_def cell_count_def mult.assoc)
  then have sub: "cell_number d ` cell_range d \<subseteq> {..<cell_count d}" by (auto simp: cell_range_def)
  have inj: "inj_on (cell_number d) (cell_range d)"
  proof (rule inj_onI)
    fix p q assume pq: "p \<in> cell_range d" "q \<in> cell_range d" "cell_number d p = cell_number d q"
    obtain i j k i' j' k' where e: "p = (i, j, k)" "q = (i', j', k')" by (metis surj_pair)
    have b: "i < tx d" "j < ty d" "i' < tx d" "j' < ty d" using pq by (auto simp: e cell_range_def)
    have eq: "(k * ty d + j) * tx d + i = (k' * ty d + j') * tx d + i'" using pq(3) by (simp add: e cell_number_def)
    have i: "i = i'" using arg_cong [OF eq, of "\<lambda>n. n mod tx d"] b by simp
    have jk: "k * ty d + j = k' * ty d + j'" using arg_cong [OF eq, of "\<lambda>n. n div tx d"] b by simp
    have "j = j'" using arg_cong [OF jk, of "\<lambda>n. n mod ty d"] b by simp
    moreover have "k = k'" using arg_cong [OF jk, of "\<lambda>n. n div ty d"] b by simp
    ultimately show "p = q" by (simp add: e i)
  qed
  have "card (cell_number d ` cell_range d) = cell_count d"
    unfolding card_image [OF inj] by (simp add: cell_range_def cell_count_def card_cartesian_product)
  then show ?thesis using inj sub card_subset_eq [of "{..<cell_count d}"] by (simp add: bij_betw_def)
qed

lemma cell_number_less: "p \<in> cell_range d \<Longrightarrow> cell_number d p < cell_count d"
  using cell_number_bij [of d] by (auto simp: bij_betw_def)

lemma cell_number_eq: "p \<in> cell_range d \<Longrightarrow> q \<in> cell_range d \<Longrightarrow> cell_number d p = cell_number d q \<longleftrightarrow> p = q"
  using cell_number_bij [of d] by (auto simp: bij_betw_def inj_on_def)

lemma map_upt_rows: "concat (map (\<lambda>j. map (\<lambda>i. j * w + i) [0..<w]) [0..<n]) = [0..<n * (w::nat)]"
proof (induction n)
  case (Suc n)
  have "map (\<lambda>i. n * w + i) [0..<w] = [n * w..<Suc n * w]"
    using map_add_upt [of "n * w" w] by (simp add: add.commute)
  then show ?case using upt_add_eq_append [of 0 "n * w" w] Suc.IH by (simp add: add.commute)
qed simp

lemma cell_loop_numbers: "map (cell_number d) (cell_loop d) = [0..<cell_count d]"
proof -
  have "concat (map (\<lambda>j. map (\<lambda>i. cell_number d (i, j, k)) [0..<tx d]) [0..<ty d]) = map (\<lambda>i. k * (ty d * tx d) + i) [0..<ty d * tx d]" for k
  proof -
    have "concat (map (\<lambda>j. map (\<lambda>i. cell_number d (i, j, k)) [0..<tx d]) [0..<ty d])
        = map (\<lambda>i. k * (ty d * tx d) + i) (concat (map (\<lambda>j. map (\<lambda>i. j * tx d + i) [0..<tx d]) [0..<ty d]))"
      by (simp add: map_concat comp_def cell_number_def add_mult_distrib mult.assoc add.assoc)
    then show ?thesis by (simp only: map_upt_rows)
  qed
  then have "map (cell_number d) (cell_loop d) = concat (map (\<lambda>k. map (\<lambda>i. k * (ty d * tx d) + i) [0..<ty d * tx d]) [0..<tz d])"
    by (simp add: cell_loop_def map_concat comp_def)
  also have "\<dots> = [0..<tz d * (ty d * tx d)]" by (rule map_upt_rows)
  finally show ?thesis by (simp add: cell_count_def mult.commute mult.left_commute)
qed

lemma set_cell_loop: "set (cell_loop d) = cell_range d"
  by (auto simp: cell_loop_def cell_range_def image_iff)

section \<open>Wrapped intervals\<close>

lemma crem_mod: "0 < m \<Longrightarrow> wrap_cell n m = n mod m"
proof (cases "0 \<le> n")
  case False
  assume m: "0 < m"
  have r: "0 \<le> - n mod m" "- n mod m < m" using m by simp_all
  show ?thesis
  proof (cases "- n mod m = 0")
    case True
    then have "m dvd n" by (metis dvd_eq_mod_eq_0 dvd_minus_iff)
    then show ?thesis using False True by (simp add: wrap_cell_def crem_def Let_def)
  next
    case d: False
    have "n mod m = m - (- n mod m)" using d zmod_zminus1_eq_if [of "- n" m] by simp
    then show ?thesis using False d r by (simp add: wrap_cell_def crem_def Let_def)
  qed
qed (simp add: wrap_cell_def crem_def Let_def not_less)

lemma card_mod_interval:
  assumes "0 < m"
  shows "card ((\<lambda>n. n mod m) ` {i - int r..i + int r}) = min (nat m) (2 * r + 1)"
proof (cases "2 * int r + 1 \<le> m")
  case True
  have "inj_on (\<lambda>n. n mod m) {i - int r..i + int r}"
  proof (rule inj_onI)
    fix a b assume ab: "a \<in> {i - int r..i + int r}" "b \<in> {i - int r..i + int r}" "a mod m = b mod m"
    then obtain q where q: "a - b = m * q" by (metis mod_eq_dvd_iff dvdE)
    have "\<bar>a - b\<bar> < m" using ab(1,2) True by auto
    then have "\<bar>m * q\<bar> < m" by (simp add: q)
    then have "q = 0" using assms by (simp add: abs_mult)
    then show "a = b" using q by simp
  qed
  then show ?thesis using True by (simp add: card_image)
next
  case False
  have "(\<lambda>n. n mod m) ` {i - int r..i + int r} = {0..<m}"
  proof
    show "(\<lambda>n. n mod m) ` {i - int r..i + int r} \<subseteq> {0..<m}" using assms by auto
    show "{0..<m} \<subseteq> (\<lambda>n. n mod m) ` {i - int r..i + int r}"
    proof
      fix x assume x: "x \<in> {0..<m}"
      let ?n = "i - int r + (x - (i - int r)) mod m"
      have "?n mod m = x" using x by (simp add: mod_add_right_eq)
      moreover have "0 \<le> (x - (i - int r)) mod m" "(x - (i - int r)) mod m < m" using assms by simp_all
      then have "?n \<in> {i - int r..i + int r}" using False by simp
      ultimately show "x \<in> (\<lambda>n. n mod m) ` {i - int r..i + int r}" by (metis image_eqI)
    qed
  qed
  then show ?thesis using False assms by simp
qed

section \<open>Rows of equal length\<close>

lemma length_concat_rows: "(\<And>b. b < n \<Longrightarrow> length (g b) = W) \<Longrightarrow> length (concat (map g [0..<n])) = n * W"
  by (induction n) simp_all

lemma foldl_rows:
  assumes "\<And>b. b < C \<Longrightarrow> length (g b) = W"
  shows "n \<le> C \<Longrightarrow> length a = W * C \<Longrightarrow>
    foldl (\<lambda>a b. memcpy a (b * W) (g b) 0 W) a [0..<n] = concat (map g [0..<n]) @ drop (n * W) a"
proof (induction n)
  case (Suc n)
  have l: "length (concat (map g [0..<n])) = n * W" using Suc.prems(1) assms by (intro length_concat_rows) simp
  have "Suc n * W \<le> C * W" using Suc.prems(1) by (rule mult_le_mono1)
  then show ?case using Suc l assms [of n] by (simp add: memcpy_def add.commute mult.commute)
qed simp

lemma nth_concat_rows:
  "(\<And>b. b < n \<Longrightarrow> length (g b) = W) \<Longrightarrow> b < n \<Longrightarrow> k < W \<Longrightarrow> concat (map g [0..<n]) ! (b * W + k) = g b ! k"
proof (induction n)
  case (Suc n)
  have l: "length (concat (map g [0..<n])) = n * W" using Suc.prems(1) by (intro length_concat_rows) simp
  show ?case
  proof (cases "b = n")
    case True
    then show ?thesis using l by (simp add: nth_append)
  next
    case False
    then have "b < n" using Suc.prems(2) by simp
    then have "b * W + k < n * W" using row_major_less [OF Suc.prems(3)] by (metis mult.commute)
    then show ?thesis using Suc.IH Suc.prems \<open>b < n\<close> l by (simp add: nth_append)
  qed
qed simp

section \<open>The layout of the arrays\<close>

text \<open>The cells next to cell \<open>(i, j, k)\<close>, as the set the adjacency list enumerates.\<close>

definition wrapped :: "nat \<Rightarrow> nat \<Rightarrow> nat \<Rightarrow> nat set" where
  "wrapped m r i = nat ` (\<lambda>n. n mod int m) ` {int i - int r..int i + int r}"

definition neighborhood :: "nat \<Rightarrow> nat \<Rightarrow> uint3 \<Rightarrow> nat \<times> nat \<times> nat \<Rightarrow> (nat \<times> nat \<times> nat) set" where
  "neighborhood ndim r d = (\<lambda>(i, j, k). wrapped (tx d) r i \<times> wrapped (ty d) r j \<times> wrapped (tz d) (if ndim = 2 then 0 else r) k)"

definition adj_width :: "nat \<Rightarrow> nat \<Rightarrow> uint3 \<Rightarrow> nat" where
  "adj_width ndim r d = min (tx d) (2 * r + 1) * min (ty d) (2 * r + 1) * (if ndim = 2 then 1 else min (tz d) (2 * r + 1))"

lemma wrapped_range: "0 < m \<Longrightarrow> wrapped m r i \<subseteq> {..<m}"
  by (auto simp: wrapped_def nat_less_iff)

lemma card_wrapped: "0 < m \<Longrightarrow> card (wrapped m r i) = min m (2 * r + 1)"
proof -
  assume m: "0 < m"
  have "inj_on nat ((\<lambda>n. n mod int m) ` {int i - int r..int i + int r})"
    by (rule inj_on_subset [of _ "{0..}"]) (use m in \<open>auto simp: inj_on_def\<close>)
  then show ?thesis using card_mod_interval [of "int m" "int i" r] m by (simp add: wrapped_def card_image)
qed

definition dims_ok :: "nat \<Rightarrow> uint3 \<Rightarrow> bool" where
  "dims_ok ndim d \<longleftrightarrow> 0 < tx d \<and> 0 < ty d \<and> 0 < tz d \<and> (ndim = 2 \<longrightarrow> tz d = 1)"

lemma neighborhood_range: "dims_ok ndim d \<Longrightarrow> neighborhood ndim r d p \<subseteq> cell_range d"
  by (cases p) (auto simp: neighborhood_def cell_range_def dims_ok_def dest: subsetD [OF wrapped_range])

lemma card_neighborhood: "dims_ok ndim d \<Longrightarrow> card (neighborhood ndim r d p) = adj_width ndim r d"
  by (cases p) (simp add: neighborhood_def adj_width_def card_cartesian_product card_wrapped dims_ok_def)

definition adjacency :: "nat \<Rightarrow> nat \<Rightarrow> uint3 \<Rightarrow> nat \<times> nat \<times> nat \<Rightarrow> nat list" where
  "adjacency ndim r d p = sorted_list_of_set (cell_number d ` neighborhood ndim r d p)"

lemma finite_neighborhood [simp]: "finite (neighborhood ndim r d p)"
  by (cases p) (simp add: neighborhood_def wrapped_def)

lemma length_adjacency: "dims_ok ndim d \<Longrightarrow> length (adjacency ndim r d p) = adj_width ndim r d"
proof -
  assume d: "dims_ok ndim d"
  have "inj_on (cell_number d) (neighborhood ndim r d p)"
    using cell_number_bij [of d] neighborhood_range [OF d] by (meson bij_betw_imp_inj_on inj_on_subset)
  then show ?thesis by (simp add: adjacency_def card_image card_neighborhood [OF d])
qed

definition indexed :: "CellList \<Rightarrow> bool" where
  "indexed cl \<longleftrightarrow> m_cell_indexer cl = Index3D_rect (of_nat (tx (m_dim cl))) (of_nat (ty (m_dim cl))) (of_nat (tz (m_dim cl)))
     \<and> cell_count (m_dim cl) < 2 ^ 32"

lemma dims_small:
  assumes "cell_count d < 2 ^ 32" "dims_ok ndim d"
  shows "tx d < 2 ^ 32" "ty d < 2 ^ 32" "tz d < 2 ^ 32"
proof -
  have ge: "1 \<le> ty d * tz d" "1 \<le> tx d * tz d" "1 \<le> tx d * ty d" using assms(2) by (simp_all add: dims_ok_def Suc_leI)
  have eq: "cell_count d = tx d * (ty d * tz d)" "cell_count d = ty d * (tx d * tz d)" "cell_count d = tz d * (tx d * ty d)"
    by (simp_all add: cell_count_def)
  show "tx d < 2 ^ 32" "ty d < 2 ^ 32" "tz d < 2 ^ 32"
    using assms(1) mult_le_mono2 [OF ge(1), of "tx d"] mult_le_mono2 [OF ge(2), of "ty d"] mult_le_mono2 [OF ge(3), of "tz d"]
    by (simp_all only: eq [symmetric] mult_1_right)
qed

lemma cell_idx:
  assumes "indexed cl" "dims_ok ndim (m_dim cl)" "(i, j, k) \<in> cell_range (m_dim cl)"
  shows "unat (Index3D_idx (m_cell_indexer cl) (of_nat i) (of_nat j) (of_nat k)) = cell_number (m_dim cl) (i, j, k)"
proof -
  have c: "cell_count (m_dim cl) < 2 ^ 32" and e: "m_cell_indexer cl = Index3D_rect (of_nat (tx (m_dim cl))) (of_nat (ty (m_dim cl))) (of_nat (tz (m_dim cl)))"
    using assms(1) by (simp_all add: indexed_def)
  note s = dims_small [OF c assms(2)]
  have r: "i < tx (m_dim cl)" "j < ty (m_dim cl)" "k < tz (m_dim cl)" using assms(3) by (auto simp: cell_range_def)
  then have i: "i < 2 ^ 32" "j < 2 ^ 32" "k < 2 ^ 32" using s by linarith+
  show ?thesis
    using Index3D_idx_unat [of "m_cell_indexer cl" "of_nat i" "of_nat j" "of_nat k"] s r i c
    by (simp add: e Index3D_rect_def cell_number_def cell_count_def unat_of_nat_small del: of_nat_less_iff)
qed

lemma cell_at_number:
  assumes "indexed cl" "dims_ok ndim (m_dim cl)" "(i, j, k) \<in> cell_range (m_dim cl)"
  shows "cell_at cl (int i) (int j) (int k) = cell_number (m_dim cl) (i, j, k)"
  using cell_idx [OF assms] by (simp add: cell_at_def)

lemma distinct_remdups_adj_sorted: "sorted xs \<Longrightarrow> distinct (remdups_adj xs)" for xs :: "nat list"
  by (induction xs rule: remdups_adj.induct) (auto dest: antisym)

lemma adjacent_cells_eq:
  assumes "indexed cl" "dims_ok ndim (m_dim cl)" "p \<in> cell_range (m_dim cl)"
  shows "adjacent_cells ndim cl p = adjacency ndim (m_radius cl) (m_dim cl) p"
proof -
  obtain i j k where p: "p = (i, j, k)" by (cases p)
  let ?d = "m_dim cl" and ?r = "int (m_radius cl)"
  let ?rk = "if ndim = 2 then 0 else ?r"
  let ?adj = "concat (map (\<lambda>nk. concat (map (\<lambda>nj. map (\<lambda>ni. cell_at cl (wrap_cell ni (int (tx ?d))) (wrap_cell nj (int (ty ?d))) (wrap_cell nk (int (tz ?d))))
                  [int i - ?r..int i + ?r]) [int j - ?r..int j + ?r])) [int k - ?rk..int k + ?rk])"
  have pos: "0 < int (tx ?d)" "0 < int (ty ?d)" "0 < int (tz ?d)" using assms(2) by (simp_all add: dims_ok_def)
  have at: "cell_at cl (wrap_cell ni (int (tx ?d))) (wrap_cell nj (int (ty ?d))) (wrap_cell nk (int (tz ?d)))
      = cell_number ?d (nat (ni mod int (tx ?d)), nat (nj mod int (ty ?d)), nat (nk mod int (tz ?d)))" for ni nj nk
  proof -
    have "(nat (ni mod int (tx ?d)), nat (nj mod int (ty ?d)), nat (nk mod int (tz ?d))) \<in> cell_range ?d"
      using pos by (simp add: cell_range_def nat_less_iff)
    from cell_at_number [OF assms(1,2) this] show ?thesis using pos by (simp add: crem_mod)
  qed
  have "set ?adj = cell_number ?d ` neighborhood ndim (m_radius cl) ?d p"
    unfolding at by (auto simp: neighborhood_def wrapped_def p image_iff)
  then have "sorted_list_of_set (set ?adj) = adjacency ndim (m_radius cl) ?d p" by (simp add: adjacency_def)
  moreover have "adjacent_cells ndim cl p = remdups_adj (sort ?adj)" by (simp add: adjacent_cells_def p Let_def)
  moreover have "remdups_adj (sort xs) = sorted_list_of_set (set xs)" for xs :: "nat list"
    by (rule sorted_distinct_set_unique) (simp_all add: distinct_remdups_adj_sorted)
  ultimately show ?thesis by simp
qed

lemma rect_idx:
  assumes "W * H < 2 ^ 32" "a < W" "b < H"
  shows "unat (Index2D_idx (Index2D_rect (of_nat W) (of_nat H)) (of_nat a) (of_nat b)) = b * W + a"
proof -
  have "1 \<le> H" "1 \<le> W" using assms(2,3) by simp_all
  then have "W * 1 \<le> W * H" "1 * H \<le> W * H" using mult_le_mono2 [of 1 H W] mult_le_mono1 [of 1 W H] by blast+
  then have s: "W < 2 ^ 32" "H < 2 ^ 32" using assms(1) unfolding mult_1 mult_1_right by linarith+
  then have "a < 2 ^ 32" "b < 2 ^ 32" using assms(2,3) by linarith+
  then show ?thesis
    using Index2D_idx_unat [of "Index2D_rect (of_nat W) (of_nat H)" "of_nat a" "of_nat b"] s assms
    by (simp add: Index2D_rect_def unat_of_nat_small del: of_nat_less_iff)
qed

lemma rect_elements: "W * H < 2 ^ 32 \<Longrightarrow> unat (Index2D_getNumElements (Index2D_rect (of_nat W) (of_nat H))) = W * H"
  by (simp add: Index2D_getNumElements_def Index2D_rect_def unat_of_nat_small flip: of_nat_mult)

lemma cells_elements: "Index3D_getNumElements (Index3D_rect (of_nat (tx d)) (of_nat (ty d)) (of_nat (tz d))) = of_nat (cell_count d)"
  by (simp add: Index3D_getNumElements_def Index3D_rect_def cell_count_def)

definition layout_ok :: "nat \<Rightarrow> CellList \<Rightarrow> bool" where
  "layout_ok ndim cl \<longleftrightarrow> (let d = m_dim cl; C = cell_count d; W = adj_width ndim (m_radius cl) d; n = c_Nmax cl * C in
     dims_ok ndim d \<and> indexed cl \<and> 0 < c_Nmax cl \<and> n < 2 ^ 32 \<and> W * C < 2 ^ 32
     \<and> m_cell_list_indexer cl = Index2D_rect (of_nat (c_Nmax cl)) (of_nat C) \<and> m_cell_adj_indexer cl = Index2D_rect (of_nat W) (of_nat C)
     \<and> length (m_cell_size cl) = C \<and> length (m_xyzf cl) = n \<and> (m_compute_tdb cl \<longrightarrow> length (m_tdb cl) = n)
     \<and> (m_compute_orientation cl \<longrightarrow> length (c_orientation cl) = n) \<and> (m_compute_idx cl \<longrightarrow> length (m_idx cl) = n)
     \<and> (\<forall>p \<in> cell_range d. \<forall>k < W. m_cell_adj cl ! (cell_number d p * W + k) = adjacency ndim (m_radius cl) d p ! k))"

lemma adj_width_pos: "dims_ok ndim d \<Longrightarrow> 0 < adj_width ndim r d"
  by (simp add: adj_width_def dims_ok_def)

lemma initializeCellAdj_spec:
  assumes d: "dims_ok ndim (m_dim cl)" and i: "indexed cl"
    and W: "W = adj_width ndim (m_radius cl) (m_dim cl)" "W * cell_count (m_dim cl) < 2 ^ 32"
    and ix: "m_cell_adj_indexer cl = Index2D_rect (of_nat W) (of_nat (cell_count (m_dim cl)))"
    and len: "length (m_cell_adj cl) = W * cell_count (m_dim cl)"
  shows "\<exists>adj. initializeCellAdj ndim cl = cl\<lparr>m_cell_adj := adj\<rparr>
    \<and> (\<forall>p \<in> cell_range (m_dim cl). \<forall>k < W. adj ! (cell_number (m_dim cl) p * W + k) = adjacency ndim (m_radius cl) (m_dim cl) p ! k)"
proof -
  let ?d = "m_dim cl" and ?adj = "adjacency ndim (m_radius cl) (m_dim cl)"
  define g where "g b = ?adj (the_inv_into (cell_range ?d) (cell_number ?d) b)" for b
  have inj: "inj_on (cell_number ?d) (cell_range ?d)" using cell_number_bij [of ?d] by (simp add: bij_betw_def)
  have g: "g (cell_number ?d p) = ?adj p" if "p \<in> cell_range ?d" for p
    using that by (simp add: g_def the_inv_into_f_f [OF inj])
  have lg: "length (g b) = W" for b unfolding g_def W(1) by (rule length_adjacency [OF d])
  have Wp: "0 < W" using adj_width_pos [OF d] W(1) by simp
  have step: "(case p of (i, j, k) \<Rightarrow> let adj = adjacent_cells ndim cl (i, j, k);
           cur_cell = Index3D_idx (m_cell_indexer cl) (of_nat i) (of_nat j) (of_nat k)
       in memcpy a (unat (Index2D_idx (m_cell_adj_indexer cl) 0 cur_cell)) adj 0 (length adj))
     = memcpy a (cell_number ?d p * W) (g (cell_number ?d p)) 0 W" if p: "p \<in> cell_range ?d" for a p
  proof -
    obtain i j k where e: "p = (i, j, k)" by (cases p)
    let ?n = "cell_number ?d p"
    have lt: "?n < cell_count ?d" by (rule cell_number_less [OF p])
    have "unat (Index3D_idx (m_cell_indexer cl) (of_nat i) (of_nat j) (of_nat k)) = ?n"
      using cell_idx [OF i d] p by (simp add: e)
    then have "of_nat (unat (Index3D_idx (m_cell_indexer cl) (of_nat i) (of_nat j) (of_nat k))) = (of_nat ?n :: uint)" by (rule arg_cong)
    then have cur: "Index3D_idx (m_cell_indexer cl) (of_nat i) (of_nat j) (of_nat k) = of_nat ?n" by simp
    have "unat (Index2D_idx (m_cell_adj_indexer cl) 0 (of_nat ?n)) = ?n * W"
      using rect_idx [OF W(2) Wp lt] by (simp add: ix)
    moreover have "adjacent_cells ndim cl (i, j, k) = g ?n" using adjacent_cells_eq [OF i d p] g [OF p] by (simp add: e)
    ultimately show ?thesis by (simp add: e cur lg Let_def)
  qed
  have "foldl (\<lambda>a (i, j, k). let adj = adjacent_cells ndim cl (i, j, k);
           cur_cell = Index3D_idx (m_cell_indexer cl) (of_nat i) (of_nat j) (of_nat k)
       in memcpy a (unat (Index2D_idx (m_cell_adj_indexer cl) 0 cur_cell)) adj 0 (length adj)) (m_cell_adj cl) (cell_loop ?d)
    = foldl (\<lambda>a p. memcpy a (cell_number ?d p * W) (g (cell_number ?d p)) 0 W) (m_cell_adj cl) (cell_loop ?d)"
    by (rule foldl_cong) (simp_all only: set_cell_loop step)
  also have "\<dots> = foldl (\<lambda>a b. memcpy a (b * W) (g b) 0 W) (m_cell_adj cl) [0..<cell_count ?d]"
    by (simp add: foldl_map flip: cell_loop_numbers)
  also have "\<dots> = concat (map g [0..<cell_count ?d])"
    using foldl_rows [of "cell_count ?d" g W "cell_count ?d" "m_cell_adj cl"] lg len by (simp add: mult.commute)
  finally have "initializeCellAdj ndim cl = cl\<lparr>m_cell_adj := concat (map g [0..<cell_count ?d])\<rparr>"
    by (simp only: initializeCellAdj_def)
  moreover have "concat (map g [0..<cell_count ?d]) ! (cell_number ?d p * W + k) = ?adj p ! k" if "p \<in> cell_range ?d" "k < W" for p k
    using nth_concat_rows [of "cell_count ?d" g W] lg cell_number_less [OF that(1)] that(2) g [OF that(1)] by simp
  ultimately show ?thesis by blast
qed

text \<open>What must fit into 32 bits: the cells, times the entries of a cell and the adjacent cells.\<close>

definition cells_fit :: "nat \<Rightarrow> ParticleData \<Rightarrow> CellList \<Rightarrow> uint3 \<Rightarrow> bool" where
  "cells_fit ndim pd cl d \<longleftrightarrow> max (c_Nmax cl) (m_nparticles pd + m_nghosts pd + 1) * cell_count d < 2 ^ 32
     \<and> adj_width ndim (m_radius cl) d * cell_count d < 2 ^ 32"

lemma cells_fit_count: "cells_fit ndim pd cl d \<Longrightarrow> cell_count d < 2 ^ 32"
proof -
  assume f: "cells_fit ndim pd cl d"
  have "1 * cell_count d \<le> max (c_Nmax cl) (m_nparticles pd + m_nghosts pd + 1) * cell_count d" by (rule mult_le_mono1) simp
  then show ?thesis using f unfolding cells_fit_def mult_1 by linarith
qed

text \<open>The fields that describe what is to be computed.\<close>

definition settings :: "CellList \<Rightarrow> CellList" where
  "settings cl = cl\<lparr>m_cell_indexer := Index3D_cube 0, m_cell_list_indexer := Index2D_square 0, m_cell_adj_indexer := Index2D_square 0,
     c_Nmax := 0, m_cell_size := [], m_cell_adj := [], m_xyzf := [], m_tdb := [], c_orientation := [], m_idx := [], c_conditions := Tri 0 0 0\<rparr>"

lemma settings_eq:
  assumes "settings a = settings b"
  shows "m_dim a = m_dim b" "m_radius a = m_radius b" "m_compute_tdb a = m_compute_tdb b" "m_compute_idx a = m_compute_idx b"
    "m_compute_orientation a = m_compute_orientation b" "m_flag_charge a = m_flag_charge b" "m_flag_type a = m_flag_type b"
    "m_ghost_width a = m_ghost_width b" "m_nominal_width a = m_nominal_width b" "m_multiple a = m_multiple b"
    "m_params_changed a = m_params_changed b" "m_box_changed a = m_box_changed b" "m_particles_sorted a = m_particles_sorted b"
    "c_compute a = c_compute b" "m_actual_width a = m_actual_width b"
  using arg_cong [OF assms, of m_dim] arg_cong [OF assms, of m_radius] arg_cong [OF assms, of m_compute_tdb] arg_cong [OF assms, of m_compute_idx]
    arg_cong [OF assms, of m_compute_orientation] arg_cong [OF assms, of m_flag_charge] arg_cong [OF assms, of m_flag_type]
    arg_cong [OF assms, of m_ghost_width] arg_cong [OF assms, of m_nominal_width] arg_cong [OF assms, of m_multiple]
    arg_cong [OF assms, of m_params_changed] arg_cong [OF assms, of m_box_changed] arg_cong [OF assms, of m_particles_sorted]
    arg_cong [OF assms, of c_compute] arg_cong [OF assms, of m_actual_width]
  by (simp_all add: settings_def)

lemma initializeMemory_spec:
  assumes d: "dims_ok ndim (m_dim cl)" and fit: "cells_fit ndim pd cl (m_dim cl)"
  shows "layout_ok ndim (initializeMemory ndim pd cl) \<and> settings (initializeMemory ndim pd cl) = settings cl
    \<and> c_Nmax (initializeMemory ndim pd cl) \<le> max (c_Nmax cl) (m_nparticles pd + m_nghosts pd + 1)
    \<and> c_Nmax cl \<le> c_Nmax (initializeMemory ndim pd cl)"
proof -
  let ?d = "m_dim cl" and ?N = "m_nparticles pd + m_nghosts pd"
  let ?C = "cell_count ?d" and ?W = "adj_width ndim (m_radius cl) (m_dim cl)"
  define e where "e = nat \<lceil>real ?N / real (tx ?d * ty ?d * tz ?d mod 2 ^ 32)\<rceil>"
  define nmax where "nmax = (if c_Nmax cl = 0 then if e = 0 then 1 else e else c_Nmax cl)"
  have C: "?C < 2 ^ 32" "0 < ?C" using cells_fit_count [OF fit] d by (simp_all add: dims_ok_def cell_count_def)
  then have m: "tx ?d * ty ?d * tz ?d mod 2 ^ 32 = ?C" by (simp add: cell_count_def)
  have "real ?N * 1 \<le> real ?N * real ?C" using C(2) by (intro mult_left_mono) simp_all
  then have "real ?N / real ?C \<le> real ?N" using C(2) by (simp add: divide_le_eq)
  then have "\<lceil>real ?N / real ?C\<rceil> \<le> int ?N" by (simp add: ceiling_le_iff)
  then have "e \<le> ?N" unfolding e_def m by linarith
  then have nmax: "0 < nmax" "nmax \<le> max (c_Nmax cl) (?N + 1)" "c_Nmax cl \<le> nmax" by (auto simp: nmax_def)
  have "nmax * ?C \<le> max (c_Nmax cl) (?N + 1) * ?C" using nmax(2) by (rule mult_le_mono1)
  then have n: "nmax * ?C < 2 ^ 32" "?W * ?C < 2 ^ 32" using fit unfolding cells_fit_def by linarith+
  let ?u = "\<lambda>n. if n > m_radius cl * 2 + 1 then m_radius cl * 2 + 1 else n"
  have u: "?u n = min n (2 * m_radius cl + 1)" for n by (simp add: min_def)
  have adj: "(if ndim = 2 then ?u (tx ?d) * ?u (ty ?d) else ?u (tx ?d) * ?u (ty ?d) * ?u (tz ?d)) = ?W"
    unfolding u adj_width_def by simp
  let ?ci = "Index3D_rect (of_nat (tx ?d)) (of_nat (ty ?d)) (of_nat (tz ?d))"
  let ?cl = "cl\<lparr>c_Nmax := nmax, m_cell_indexer := ?ci, m_cell_list_indexer := Index2D_rect (of_nat nmax) (of_nat ?C),
       m_cell_adj_indexer := Index2D_rect (of_nat ?W) (of_nat ?C), m_cell_size := replicate ?C 0,
       m_cell_adj := replicate (?W * ?C) 0, m_xyzf := replicate (nmax * ?C) (Vec3 0 0 0, Flag_index 0),
       m_tdb := (if m_compute_tdb cl then replicate (nmax * ?C) (0, 0, 0) else []),
       c_orientation := (if m_compute_orientation cl then replicate (nmax * ?C) (Scalar4 0 0 0 0) else []),
       m_idx := (if m_compute_idx cl \<or> m_sort_cell_list cl then replicate (nmax * ?C) 0 else [])\<rparr>"
  have "unat (of_nat ?C :: uint) = ?C" using C(1) by (rule unat_of_nat_small)
  then have eq: "initializeMemory ndim pd cl = initializeCellAdj ndim ?cl"
    unfolding initializeMemory_def Let_def adj cells_elements rect_elements [OF n(1)] rect_elements [OF n(2)]
      nmax_def [unfolded e_def, symmetric] by simp
  have i: "indexed ?cl" using C(1) by (simp add: indexed_def)
  obtain adj where a: "initializeCellAdj ndim ?cl = ?cl\<lparr>m_cell_adj := adj\<rparr>"
    "\<forall>p \<in> cell_range ?d. \<forall>k < ?W. adj ! (cell_number ?d p * ?W + k) = adjacency ndim (m_radius cl) ?d p ! k"
    using initializeCellAdj_spec [of ndim ?cl ?W] d i n(2) by auto
  show ?thesis unfolding eq a(1)
    using a(2) d i n nmax by (simp add: layout_ok_def settings_def indexed_def Let_def)
qed

section \<open>Binning\<close>

definition cell_coord :: "Scalar \<Rightarrow> nat \<Rightarrow> bool \<Rightarrow> int" where
  "cell_coord f d per = (let i = cast_int (f * real d) in if i = int d \<and> per then 0 else i)"

definition fraction :: "ParticleData \<Rightarrow> nat \<Rightarrow> Scalar3" where
  "fraction pd n = makeFraction (m_box pd) (fst (m_pos (m_arrays pd) ! n))"

text \<open>A particle that the loop puts into a cell, and the cell.\<close>

definition addressable :: "ParticleData \<Rightarrow> uint3 \<Rightarrow> nat \<Rightarrow> bool" where
  "addressable pd d n \<longleftrightarrow> (let f = fraction pd n; p = m_periodic (m_box pd) in
     \<not> out_of_bounds (vx f) \<and> \<not> out_of_bounds (vy f) \<and> \<not> out_of_bounds (vz f)
     \<and> cell_coord (vx f) (tx d) (tx p) < int (tx d) \<and> cell_coord (vy f) (ty d) (ty p) < int (ty d)
     \<and> cell_coord (vz f) (tz d) (tz p) < int (tz d))"

definition bin_of :: "ParticleData \<Rightarrow> uint3 \<Rightarrow> nat \<Rightarrow> nat \<times> nat \<times> nat" where
  "bin_of pd d n = (let f = fraction pd n; p = m_periodic (m_box pd) in
     (nat (cell_coord (vx f) (tx d) (tx p)), nat (cell_coord (vy f) (ty d) (ty p)), nat (cell_coord (vz f) (tz d) (tz p))))"

definition dims_bounded :: "uint3 \<Rightarrow> bool" where
  "dims_bounded d \<longleftrightarrow> tx d < 100000 \<and> ty d < 100000 \<and> tz d < 100000"

lemma cell_coord_nonneg: "\<not> out_of_bounds f \<Longrightarrow> d < 100000 \<Longrightarrow> 0 \<le> cell_coord f d per"
proof -
  assume f: "\<not> out_of_bounds f" and d: "d < 100000"
  have "- 1 < f * real d"
  proof (cases "0 \<le> f")
    case True
    then have "0 \<le> f * real d" by simp
    then show ?thesis by linarith
  next
    case False
    have "- 0.00001 \<le> f" using f by (simp add: out_of_bounds_def)
    then have "- 0.00001 * real d \<le> f * real d" by (rule mult_right_mono) simp
    moreover have "- 0.00001 * real d > - 1" using d by simp
    ultimately show ?thesis by linarith
  qed
  then have "0 \<le> cast_int (f * real d)" by (auto simp: cast_int_def)
  then show ?thesis by (simp add: cell_coord_def Let_def)
qed

lemma bin_of_range:
  assumes "addressable pd d n" "dims_bounded d"
  shows "bin_of pd d n \<in> cell_range d"
    "bin_of pd d n = (nat (cell_coord (vx (fraction pd n)) (tx d) (tx (m_periodic (m_box pd)))),
       nat (cell_coord (vy (fraction pd n)) (ty d) (ty (m_periodic (m_box pd)))), nat (cell_coord (vz (fraction pd n)) (tz d) (tz (m_periodic (m_box pd)))))"
    "0 \<le> cell_coord (vx (fraction pd n)) (tx d) (tx (m_periodic (m_box pd)))"
    "0 \<le> cell_coord (vy (fraction pd n)) (ty d) (ty (m_periodic (m_box pd)))"
    "0 \<le> cell_coord (vz (fraction pd n)) (tz d) (tz (m_periodic (m_box pd)))"
proof -
  show c: "0 \<le> cell_coord (vx (fraction pd n)) (tx d) (tx (m_periodic (m_box pd)))"
    "0 \<le> cell_coord (vy (fraction pd n)) (ty d) (ty (m_periodic (m_box pd)))"
    "0 \<le> cell_coord (vz (fraction pd n)) (tz d) (tz (m_periodic (m_box pd)))"
    using assms by (simp_all add: addressable_def dims_bounded_def cell_coord_nonneg Let_def)
  show "bin_of pd d n \<in> cell_range d"
    using assms(1) c by (simp add: addressable_def bin_of_def cell_range_def Let_def nat_less_iff)
qed (simp add: bin_of_def Let_def)

definition members :: "ParticleData \<Rightarrow> uint3 \<Rightarrow> nat list \<Rightarrow> nat \<Rightarrow> nat list" where
  "members pd d ns b = filter (\<lambda>n. addressable pd d n \<and> cell_number d (bin_of pd d n) = b) ns"

definition entry_flag :: "ParticleData \<Rightarrow> CellList \<Rightarrow> nat \<Rightarrow> cell_flag" where
  "entry_flag pd cl n = (if m_flag_charge cl then Flag_charge (m_charge (m_arrays pd) ! n)
     else if m_flag_type cl then Flag_type (snd (m_pos (m_arrays pd) ! n)) else Flag_index n)"

definition holds :: "ParticleData \<Rightarrow> CellList \<Rightarrow> nat \<Rightarrow> nat \<Rightarrow> bool" where
  "holds pd cl slot n \<longleftrightarrow> (let a = m_arrays pd in m_xyzf cl ! slot = (fst (m_pos a ! n), entry_flag pd cl n)
     \<and> (m_compute_tdb cl \<longrightarrow> m_tdb cl ! slot = (snd (m_pos a ! n), m_diameter a ! n, m_body a ! n))
     \<and> (m_compute_orientation cl \<longrightarrow> c_orientation cl ! slot = m_orientation a ! n)
     \<and> (m_compute_idx cl \<longrightarrow> m_idx cl ! slot = n))"

definition binned :: "ParticleData \<Rightarrow> nat list \<Rightarrow> CellList \<Rightarrow> bool" where
  "binned pd ns cl \<longleftrightarrow> (\<forall>b < cell_count (m_dim cl). let ps = members pd (m_dim cl) ns b in
     m_cell_size cl ! b = length ps \<and> (\<forall>k < min (length ps) (c_Nmax cl). holds pd cl (b * c_Nmax cl + k) (ps ! k)))"

definition conditions_ok :: "ParticleData \<Rightarrow> nat list \<Rightarrow> CellList \<Rightarrow> uint3 \<Rightarrow> bool" where
  "conditions_ok pd ns cl cond \<longleftrightarrow>
     (\<forall>b < cell_count (m_dim cl). c_Nmax cl < length (members pd (m_dim cl) ns b) \<longrightarrow> length (members pd (m_dim cl) ns b) \<le> tx cond)
     \<and> (c_Nmax cl < tx cond \<longrightarrow> (\<exists>b < cell_count (m_dim cl). c_Nmax cl < length (members pd (m_dim cl) ns b)))
     \<and> tx cond \<le> length ns \<and> ty cond = 0 \<and> (tz cond = 0 \<longleftrightarrow> (\<forall>n \<in> set ns. n < m_nparticles pd \<longrightarrow> addressable pd (m_dim cl) n))"

text \<open>What binning leaves alone.\<close>

definition cells_frame :: "CellList \<Rightarrow> CellList \<times> nat \<times> nat \<times> nat \<times> nat \<times> nat" where
  "cells_frame cl = (cl\<lparr>m_cell_size := [], m_xyzf := [], m_tdb := [], c_orientation := [], m_idx := [], c_conditions := Tri 0 0 0\<rparr>,
     length (m_cell_size cl), length (m_xyzf cl), length (m_tdb cl), length (c_orientation cl), length (m_idx cl))"

lemma cells_frame_eq:
  assumes "cells_frame a = cells_frame b"
  shows "settings a = settings b" "c_Nmax a = c_Nmax b" "m_dim a = m_dim b" "m_ghost_width a = m_ghost_width b"
    "layout_ok ndim a = layout_ok ndim b" "length (m_cell_size a) = length (m_cell_size b)"
    "m_cell_list_indexer a = m_cell_list_indexer b" "m_cell_adj_indexer a = m_cell_adj_indexer b" "m_cell_adj a = m_cell_adj b"
proof -
  note l = assms [unfolded cells_frame_def prod.inject]
  have f: "m_dim a = m_dim b" "m_radius a = m_radius b" "m_cell_indexer a = m_cell_indexer b" "m_cell_list_indexer a = m_cell_list_indexer b"
    "m_cell_adj_indexer a = m_cell_adj_indexer b" "c_Nmax a = c_Nmax b" "m_cell_adj a = m_cell_adj b" "m_compute_tdb a = m_compute_tdb b"
    "m_compute_orientation a = m_compute_orientation b" "m_compute_idx a = m_compute_idx b" "m_ghost_width a = m_ghost_width b"
    using arg_cong [OF conjunct1 [OF l], of m_dim] arg_cong [OF conjunct1 [OF l], of m_radius] arg_cong [OF conjunct1 [OF l], of m_cell_indexer]
      arg_cong [OF conjunct1 [OF l], of m_cell_list_indexer] arg_cong [OF conjunct1 [OF l], of m_cell_adj_indexer] arg_cong [OF conjunct1 [OF l], of c_Nmax]
      arg_cong [OF conjunct1 [OF l], of m_cell_adj] arg_cong [OF conjunct1 [OF l], of m_compute_tdb] arg_cong [OF conjunct1 [OF l], of m_compute_orientation]
      arg_cong [OF conjunct1 [OF l], of m_compute_idx] arg_cong [OF conjunct1 [OF l], of m_ghost_width] by simp_all
  show "layout_ok ndim a = layout_ok ndim b" using l by (simp add: layout_ok_def indexed_def f)
  show "settings a = settings b" using arg_cong [OF conjunct1 [OF l], of settings] by (simp add: settings_def)
qed (use assms in \<open>auto simp: cells_frame_def dest: arg_cong [of _ _ c_Nmax] arg_cong [of _ _ m_dim] arg_cong [of _ _ m_ghost_width]
  arg_cong [of _ _ m_cell_list_indexer] arg_cong [of _ _ m_cell_adj_indexer] arg_cong [of _ _ m_cell_adj]\<close>)

lemma row_major_eq: "(b * W + k = b' * W + k') = (b = b' \<and> k = k')" if "k < W" "k' < (W::nat)"
proof
  assume eq: "b * W + k = b' * W + k'"
  show "b = b' \<and> k = k'" using arg_cong [OF eq, of "\<lambda>n. n div W"] arg_cong [OF eq, of "\<lambda>n. n mod W"] that by simp
qed simp

lemma members_append [simp]: "members pd d (ns @ ms) b = members pd d ns b @ members pd d ms b"
  by (simp add: members_def)

lemma store_entry_holds:
  assumes "slot < n0" "length (m_xyzf cl) = n0" "m_compute_tdb cl \<longrightarrow> length (m_tdb cl) = n0"
    "m_compute_orientation cl \<longrightarrow> length (c_orientation cl) = n0" "m_compute_idx cl \<longrightarrow> length (m_idx cl) = n0"
  shows "holds pd (store_entry pd n slot cl) slot n" "slot' \<noteq> slot \<Longrightarrow> holds pd (store_entry pd n slot cl) slot' m = holds pd cl slot' m"
    "cells_frame (store_entry pd n slot cl) = cells_frame cl" "m_cell_size (store_entry pd n slot cl) = m_cell_size cl"
  using assms by (simp_all add: holds_def store_entry_def entry_flag_def cells_frame_def Let_def)

lemma bin_particle_step:
  assumes lay: "layout_ok ndim cl" and g: "m_ghost_width cl = make_scalar3 0 0 0" and db: "dims_bounded (m_dim cl)"
    and b: "binned pd ns cl" and c: "conditions_ok pd ns cl cond"
  shows "case bin_particle pd n (cl, cond) of Inl e \<Rightarrow> n < m_nparticles pd \<and> \<not> addressable pd (m_dim cl) n
    | Inr (cl', cond') \<Rightarrow> cells_frame cl' = cells_frame cl \<and> binned pd (ns @ [n]) cl' \<and> conditions_ok pd (ns @ [n]) cl' cond'"
proof -
  let ?d = "m_dim cl" and ?f = "fraction pd n" and ?p = "m_periodic (m_box pd)" and ?C = "cell_count (m_dim cl)" and ?W = "c_Nmax cl"
  have f: "makeFraction_ghost (m_box pd) (fst (m_pos (m_arrays pd) ! n)) (m_ghost_width cl) = ?f"
    by (simp add: g fraction_def makeFraction_def)
  note bp = bin_particle_def [of pd n, THEN fun_cong, of "(cl, cond)", unfolded prod.case Let_def f, folded cell_coord_def [unfolded Let_def]]
  show ?thesis
  proof (cases "addressable pd ?d n")
    case False
    then have m: "members pd ?d [n] b = []" for b by (simp add: members_def)
    have keep: "binned pd (ns @ [n]) cl" using b by (simp add: binned_def m)
    have "conditions_ok pd (ns @ [n]) cl cond" if "n \<ge> m_nparticles pd" using c that by (auto simp: conditions_ok_def m)
    moreover have "conditions_ok pd (ns @ [n]) cl (Tri (tx cond) (ty cond) (n + 1))" if "n < m_nparticles pd"
      using c that False by (auto simp: conditions_ok_def m)
    moreover have "bin_particle pd n (cl, cond) = Inr (cl, if n < m_nparticles pd then Tri (tx cond) (ty cond) (n + 1) else cond)
        \<or> n < m_nparticles pd \<and> bin_particle pd n (cl, cond) = Inl Assertion_failed"
    proof (cases "out_of_bounds (vx ?f) \<or> out_of_bounds (vy ?f) \<or> out_of_bounds (vz ?f)")
      case True
      then show ?thesis by (intro disjI1) (simp only: bp if_True)
    next
      case inside: False
      then have "\<not> (cell_coord (vx ?f) (tx ?d) (tx ?p) < int (tx ?d) \<and> cell_coord (vy ?f) (ty ?d) (ty ?p) < int (ty ?d)
          \<and> cell_coord (vz ?f) (tz ?d) (tz ?p) < int (tz ?d))"
        using False by (simp add: addressable_def Let_def)
      then show ?thesis using inside by (cases "n < m_nparticles pd") (simp_all add: bp check_def not_less)
    qed
    ultimately show ?thesis using False keep by (auto split: if_splits)
  next
    case True
    note r = bin_of_range [OF True db]
    let ?ib = "cell_coord (vx ?f) (tx ?d) (tx ?p)" and ?jb = "cell_coord (vy ?f) (ty ?d) (ty ?p)" and ?kb = "cell_coord (vz ?f) (tz ?d) (tz ?p)"
    let ?b = "cell_number ?d (bin_of pd ?d n)"
    have lt: "?ib < int (tx ?d)" "?jb < int (ty ?d)" "?kb < int (tz ?d)" "\<not> out_of_bounds (vx ?f)" "\<not> out_of_bounds (vy ?f)" "\<not> out_of_bounds (vz ?f)"
      using True by (simp_all add: addressable_def Let_def)
    have ix: "indexed cl" "dims_ok ndim ?d" "0 < ?W" "?W * ?C < 2 ^ 32" "m_cell_list_indexer cl = Index2D_rect (of_nat ?W) (of_nat ?C)"
      "length (m_cell_size cl) = ?C" and len: "length (m_xyzf cl) = ?W * ?C" "m_compute_tdb cl \<longrightarrow> length (m_tdb cl) = ?W * ?C"
      "m_compute_orientation cl \<longrightarrow> length (c_orientation cl) = ?W * ?C" "m_compute_idx cl \<longrightarrow> length (m_idx cl) = ?W * ?C"
      using lay by (simp_all add: layout_ok_def Let_def)
    have at: "cell_at cl ?ib ?jb ?kb = ?b"
      using cell_at_number [OF ix(1,2), of "nat ?ib" "nat ?jb" "nat ?kb"] r by simp
    have bC: "?b < ?C" by (rule cell_number_less [OF r(1)])
    let ?ps = "members pd ?d ns ?b"
    have off: "m_cell_size cl ! ?b = length ?ps" using b bC by (simp add: binned_def Let_def)
    have mem: "members pd ?d [n] b = (if b = ?b then [n] else [])" for b using True by (auto simp: members_def)
    define slot where "slot = unat (Index2D_idx (m_cell_list_indexer cl) (of_nat (length ?ps)) (of_nat ?b))"
    have slot: "slot = ?b * ?W + length ?ps" if "length ?ps < ?W"
      unfolding slot_def ix(5) by (rule rect_idx [OF ix(4) that bC])
    define cl1 where "cl1 = (if length ?ps < ?W then store_entry pd n slot cl else cl)"
    define cond1 where "cond1 = (if length ?ps < ?W then cond else Tri (max (tx cond) (length ?ps + 1)) (ty cond) (tz cond))"
    let ?cl' = "cl1\<lparr>m_cell_size := (m_cell_size cl1)[?b := length ?ps + 1]\<rparr>"
    have res: "bin_particle pd n (cl, cond) = Inr (?cl', cond1)"
      using lt by (simp add: bp at off check_def cl1_def cond1_def slot_def)
    have st: "holds pd cl1 slot n" "\<And>slot' m. slot' \<noteq> slot \<Longrightarrow> holds pd cl1 slot' m = holds pd cl slot' m" if "length ?ps < ?W"
    proof -
      have "slot < ?W * ?C" using row_major_less [OF that bC] slot [OF that] by simp
      from store_entry_holds(1,2) [OF this len] show "holds pd cl1 slot n" "\<And>slot' m. slot' \<noteq> slot \<Longrightarrow> holds pd cl1 slot' m = holds pd cl slot' m"
        using that by (simp_all add: cl1_def)
    qed
    have cs: "m_cell_size cl1 = m_cell_size cl" by (simp add: cl1_def store_entry_def Let_def)
    have fr1: "cells_frame cl1 = cells_frame cl" by (simp add: cl1_def cells_frame_def store_entry_def Let_def)
    then have fr: "cells_frame ?cl' = cells_frame cl" by (simp add: cells_frame_def)
    have d1: "m_dim cl1 = ?d" "c_Nmax cl1 = ?W" using cells_frame_eq(2,3) [OF fr1] by simp_all
    have len_ps: "length ?ps \<le> length ns" by (simp add: members_def)
    have hold': "holds pd (cl1\<lparr>m_cell_size := z\<rparr>) s m = holds pd cl1 s m" for z s m by (simp add: holds_def entry_flag_def)
    have all: "holds pd cl1 (b' * ?W + k) ((members pd ?d ns b' @ members pd ?d [n] b') ! k)"
      if b': "b' < ?C" and k: "k < min (length (members pd ?d ns b' @ members pd ?d [n] b')) ?W" for b' k
    proof (cases "k < length (members pd ?d ns b')")
      case True
      then have old: "holds pd cl (b' * ?W + k) (members pd ?d ns b' ! k)" using b b' k by (simp add: binned_def Let_def)
      show ?thesis
      proof (cases "length ?ps < ?W")
        case w: True
        have "b' * ?W + k \<noteq> slot" using row_major_eq [of k ?W "length ?ps" b' ?b] k w True by (auto simp: slot [OF w])
        then show ?thesis using old st(2) [OF w] True by (simp add: nth_append)
      next
        case False
        then show ?thesis using old True by (simp add: cl1_def nth_append)
      qed
    next
      case False
      then have e: "b' = ?b" "k = length ?ps" using k by (auto simp: mem split: if_splits)
      then have w: "length ?ps < ?W" using k by simp
      show ?thesis using st(1) [OF w] e by (simp add: slot [OF w] mem)
    qed
    have "m_cell_size ?cl' ! b' = length (members pd ?d ns b' @ members pd ?d [n] b')" if "b' < ?C" for b'
      using b bC ix(6) that by (auto simp: binned_def cs Let_def mem nth_list_update)
    moreover have "m_dim ?cl' = ?d" "c_Nmax ?cl' = ?W" using d1 by simp_all
    ultimately have "binned pd (ns @ [n]) ?cl'"
      unfolding binned_def Let_def members_append hold' using all
      by (simp only: simp_thms) (intro allI impI conjI; assumption?; simp only:)
    moreover have "\<exists>b < ?C. ?W < length (members pd ?d (ns @ [n]) b)" if "?W < tx cond1"
    proof (cases "?W < tx cond")
      case True
      then obtain b' where "b' < ?C" "?W < length (members pd ?d ns b')" using c by (auto simp: conditions_ok_def)
      then show ?thesis by (intro exI [of _ b']) simp
    next
      case False
      then have "\<not> length ?ps < ?W" using that by (auto simp: cond1_def)
      then show ?thesis using bC by (intro exI [of _ ?b]) (simp add: mem)
    qed
    then have "conditions_ok pd (ns @ [n]) ?cl' cond1" using c True len_ps unfolding conditions_ok_def
      by (auto simp: d1 mem cond1_def le_max_iff_disj)
    ultimately show ?thesis by (simp only: res fr sum.case prod.case simp_thms)
  qed
qed

lemma bin_loop_spec:
  assumes "layout_ok ndim cl" "m_ghost_width cl = make_scalar3 0 0 0" "dims_bounded (m_dim cl)"
    "binned pd ns cl" "conditions_ok pd ns cl cond"
  shows "case bin_loop pd ms (cl, cond) of Inl e \<Rightarrow> \<exists>n \<in> set ms. n < m_nparticles pd \<and> \<not> addressable pd (m_dim cl) n
    | Inr (cl', cond') \<Rightarrow> cells_frame cl' = cells_frame cl \<and> binned pd (ns @ ms) cl' \<and> conditions_ok pd (ns @ ms) cl' cond'"
  using assms
proof (induction ms arbitrary: cl cond ns)
  case (Cons n ms)
  note step = bin_particle_step [OF Cons.prems, of n]
  show ?case
  proof (cases "bin_particle pd n (cl, cond)")
    case (Inl e)
    then show ?thesis using step by simp
  next
    case (Inr s)
    obtain cl1 cond1 where s: "s = (cl1, cond1)" by (cases s)
    have f: "cells_frame cl1 = cells_frame cl" "binned pd (ns @ [n]) cl1" "conditions_ok pd (ns @ [n]) cl1 cond1"
      using step by (simp_all add: Inr s)
    have d: "m_dim cl1 = m_dim cl" by (rule cells_frame_eq(3) [OF f(1)])
    have "case bin_loop pd ms (cl1, cond1) of Inl e \<Rightarrow> \<exists>n \<in> set ms. n < m_nparticles pd \<and> \<not> addressable pd (m_dim cl1) n
      | Inr (cl', cond') \<Rightarrow> cells_frame cl' = cells_frame cl1 \<and> binned pd ((ns @ [n]) @ ms) cl' \<and> conditions_ok pd ((ns @ [n]) @ ms) cl' cond'"
      by (rule Cons.IH) (use f Cons.prems cells_frame_eq [OF f(1)] in simp_all)
    then show ?thesis using f(1) by (auto simp: Inr s d split: sum.splits)
  qed
qed simp

abbreviation all_particles :: "ParticleData \<Rightarrow> nat list" where
  "all_particles pd \<equiv> [0..<m_nparticles pd + m_nghosts pd]"

definition locals_addressable :: "ParticleData \<Rightarrow> uint3 \<Rightarrow> bool" where
  "locals_addressable pd d \<longleftrightarrow> (\<forall>n < m_nparticles pd. addressable pd d n)"

lemma holds_conditions: "holds pd (cl\<lparr>c_conditions := z\<rparr>) s n = holds pd cl s n"
  by (simp only: holds_def entry_flag_def) simp

lemma computeCellList_spec:
  assumes lay: "layout_ok ndim cl" and g: "m_ghost_width cl = make_scalar3 0 0 0" and d: "dims_bounded (m_dim cl)"
  shows "case computeCellList pd cl of Inl e \<Rightarrow> \<not> locals_addressable pd (m_dim cl)
    | Inr cl' \<Rightarrow> cells_frame cl' = cells_frame cl \<and> binned pd (all_particles pd) cl' \<and> conditions_ok pd (all_particles pd) cl' (c_conditions cl')"
proof -
  let ?cl = "cl\<lparr>m_cell_size := replicate (length (m_cell_size cl)) 0\<rparr>"
  have fr: "cells_frame ?cl = cells_frame cl" by (simp add: cells_frame_def)
  have len: "length (m_cell_size cl) = cell_count (m_dim cl)" using lay by (simp add: layout_ok_def Let_def)
  have b: "binned pd [] ?cl" by (simp add: binned_def members_def len)
  have c: "conditions_ok pd [] ?cl (Tri 0 0 0)" by (simp add: conditions_ok_def members_def)
  have lay': "layout_ok ndim ?cl" using cells_frame_eq(5) [OF fr] lay by simp
  note l = bin_loop_spec [OF lay' _ _ b c, of "all_particles pd", unfolded append_Nil]
  show ?thesis
  proof (cases "bin_loop pd (all_particles pd) (?cl, Tri 0 0 0)")
    case (Inl e)
    then show ?thesis using l g d by (auto simp: computeCellList_def locals_addressable_def)
  next
    case (Inr s)
    obtain cl1 cond1 where s: "s = (cl1, cond1)" by (cases s)
    have f: "cells_frame cl1 = cells_frame ?cl" "binned pd (all_particles pd) cl1" "conditions_ok pd (all_particles pd) cl1 cond1"
      using l g d by (simp_all add: Inr s)
    have r: "computeCellList pd cl = Inr (cl1\<lparr>c_conditions := cond1\<rparr>)" by (simp add: computeCellList_def Inr s)
    have "cells_frame (cl1\<lparr>c_conditions := cond1\<rparr>) = cells_frame cl" using f(1) fr by (simp add: cells_frame_def)
    moreover have "binned pd (all_particles pd) (cl1\<lparr>c_conditions := cond1\<rparr>)"
      using f(2) by (simp add: binned_def holds_conditions)
    ultimately show ?thesis using f(3) by (simp add: r conditions_ok_def)
  qed
qed

text \<open>A finished cell list: memory laid out, every addressable particle in the list of its cell, in order.\<close>

definition cells_ok :: "nat \<Rightarrow> ParticleData \<Rightarrow> CellList \<Rightarrow> bool" where
  "cells_ok ndim pd cl \<longleftrightarrow> layout_ok ndim cl \<and> m_ghost_width cl = make_scalar3 0 0 0 \<and> binned pd (all_particles pd) cl
     \<and> (\<forall>b < cell_count (m_dim cl). length (members pd (m_dim cl) (all_particles pd) b) \<le> c_Nmax cl)
     \<and> locals_addressable pd (m_dim cl)"

text \<open>One pass: either the list is finished, or it overflows and the length that is needed is known.\<close>

lemma cells_pass:
  assumes "layout_ok ndim cl" "m_ghost_width cl = make_scalar3 0 0 0" "dims_bounded (m_dim cl)"
  shows "if \<not> locals_addressable pd (m_dim cl) then \<exists>e. bindr (computeCellList pd cl) checkConditions = Inl e
    else \<exists>ov cl'. bindr (computeCellList pd cl) checkConditions = Inr (ov, cl') \<and> settings cl' = settings cl
      \<and> (if ov then c_Nmax cl < c_Nmax cl' \<and> c_Nmax cl' \<le> m_nparticles pd + m_nghosts pd
             \<and> (\<exists>b < cell_count (m_dim cl). c_Nmax cl < length (members pd (m_dim cl) (all_particles pd) b))
             \<and> (\<forall>b < cell_count (m_dim cl). length (members pd (m_dim cl) (all_particles pd) b) \<le> c_Nmax cl')
         else cells_ok ndim pd cl' \<and> c_Nmax cl' = c_Nmax cl)"
proof (cases "computeCellList pd cl")
  case (Inl e)
  then show ?thesis using computeCellList_spec [OF assms, of pd] by simp
next
  case (Inr cl1)
  have f: "cells_frame cl1 = cells_frame cl" and b: "binned pd (all_particles pd) cl1"
    and c: "conditions_ok pd (all_particles pd) cl1 (c_conditions cl1)"
    using computeCellList_spec [OF assms, of pd] by (simp_all add: Inr)
  note e = cells_frame_eq [OF f]
  have y: "ty (c_conditions cl1) = 0" and z: "tz (c_conditions cl1) = 0 \<longleftrightarrow> locals_addressable pd (m_dim cl)"
    and x: "tx (c_conditions cl1) \<le> m_nparticles pd + m_nghosts pd"
    using c by (auto simp: conditions_ok_def locals_addressable_def e(3))
  have len: "length (members pd (m_dim cl) (all_particles pd) b) \<le> max (c_Nmax cl) (tx (c_conditions cl1))" if "b < cell_count (m_dim cl)" for b
    using c that by (auto simp: conditions_ok_def e(2,3) le_max_iff_disj not_less)
  show ?thesis
  proof (cases "locals_addressable pd (m_dim cl)")
    case False
    then show ?thesis using y z by (auto simp: Inr checkConditions_def Let_def)
  next
    case True
    show ?thesis
    proof (cases "tx (c_conditions cl1) > c_Nmax cl1")
      case ov: True
      then have "bindr (computeCellList pd cl) checkConditions = Inr (True, cl1\<lparr>c_Nmax := tx (c_conditions cl1)\<rparr>)"
        using True y z by (simp add: Inr checkConditions_def)
      moreover have "settings (cl1\<lparr>c_Nmax := tx (c_conditions cl1)\<rparr>) = settings cl" using e(1) by (simp add: settings_def)
      moreover have "\<exists>b < cell_count (m_dim cl). c_Nmax cl < length (members pd (m_dim cl) (all_particles pd) b)"
        using c ov by (simp add: conditions_ok_def e(2,3))
      ultimately show ?thesis using True ov len x e(2) by fastforce
    next
      case False
      then have r: "bindr (computeCellList pd cl) checkConditions = Inr (False, cl1)"
        using True y z by (simp add: Inr checkConditions_def)
      have "cells_ok ndim pd cl1" unfolding cells_ok_def
        using b True len False assms(1,2) by (simp add: e(2,3,4) e(5) [of ndim] max_def split: if_splits)
      then show ?thesis using True r e(1,2) by (simp, intro exI [of _ False]) simp
    qed
  qed
qed

section \<open>The dimensions\<close>

text \<open>The number of cells along a direction of extent \<open>l\<close>: cells are at least as wide as the nominal width, or there is one.\<close>

definition dims_fit :: "nat \<Rightarrow> ParticleData \<Rightarrow> CellList \<Rightarrow> bool" where
  "dims_fit ndim pd cl \<longleftrightarrow> (let L = getNearestPlaneDistance (m_box pd); w = m_nominal_width cl; d = m_dim cl in
     dims_ok ndim d \<and> (tx d = 1 \<or> real (tx d) * w \<le> vx L) \<and> (ty d = 1 \<or> real (ty d) * w \<le> vy L)
     \<and> (tz d = 1 \<or> real (tz d) * w \<le> vz L))"

lemma roundDown_le: "roundDown v m \<le> v"
  by (simp add: roundDown_def Let_def)

lemma cells_along:
  assumes "0 < w" "0 \<le> l"
  shows "real (roundDown (nat (cast_int (l / w))) m) * w \<le> l"
proof -
  have "0 \<le> l / w" using assms by simp
  then have "real (nat (cast_int (l / w))) \<le> l / w" using cast_int_bounds_nonneg(1) [of "l / w"] by (simp add: cast_int_def)
  moreover have "real (roundDown (nat (cast_int (l / w))) m) \<le> real (nat (cast_int (l / w)))"
    using roundDown_le by (simp only: of_nat_le_iff)
  ultimately have "real (roundDown (nat (cast_int (l / w))) m) \<le> l / w" by linarith
  then show ?thesis using assms(1) by (simp add: pos_le_divide_eq)
qed

lemma nearest_plane_pos:
  assumes "box_ok b"
  shows "0 < vx (getNearestPlaneDistance b)" "0 < vy (getNearestPlaneDistance b)" "0 < vz (getNearestPlaneDistance b)"
proof -
  have "0 < 1 + m_xy b * m_xy b + (m_xy b * m_yz b - m_xz b) * (m_xy b * m_yz b - m_xz b)" "0 < 1 + m_yz b * m_yz b"
    by (intro add_pos_nonneg; simp)+
  then show "0 < vx (getNearestPlaneDistance b)" "0 < vy (getNearestPlaneDistance b)" "0 < vz (getNearestPlaneDistance b)"
    using box_okD(1-3) [OF assms] by (simp_all add: getNearestPlaneDistance_def rsqrt_pos)
qed

lemma computeDimensions_fit:
  assumes "box_ok (m_box pd)" "0 < m_nominal_width cl" "ndim = 2 \<or> ndim = 3"
  shows "dims_fit ndim pd (cl\<lparr>m_dim := computeDimensions ndim pd cl\<rparr>)"
  using nearest_plane_pos [OF assms(1)] assms(3) cells_along [OF assms(2)]
  by (auto simp: dims_fit_def computeDimensions_def dims_ok_def Let_def)

text \<open>The cells the next call will have, and what that call needs: 32 bits for the indices, at most 99999 cells a side
  so that a coordinate just outside of the box is rounded to its first cell.\<close>

definition cells_ready :: "nat \<Rightarrow> ParticleData \<Rightarrow> CellList \<Rightarrow> bool" where
  "cells_ready ndim pd cl \<longleftrightarrow> (let d = computeDimensions ndim pd cl in
     box_ok (m_box pd) \<and> (ndim = 2 \<or> ndim = 3) \<and> 0 < m_nominal_width cl \<and> dims_bounded d \<and> cells_fit ndim pd cl d
     \<and> (m_params_changed cl \<or> layout_ok ndim cl \<and> dims_fit ndim pd cl \<and> dims_bounded (m_dim cl) \<and> cells_fit ndim pd cl (m_dim cl)
          \<and> m_ghost_width cl = make_scalar3 0 0 0))"

lemma computeDimensions_settings: "m_nominal_width a = m_nominal_width b \<Longrightarrow> m_multiple a = m_multiple b \<Longrightarrow>
    computeDimensions ndim pd a = computeDimensions ndim pd b"
  by (simp add: computeDimensions_def)

lemma initializeWidth_simps [simp]:
  "m_dim (initializeWidth ndim pd cl) = computeDimensions ndim pd cl" "m_ghost_width (initializeWidth ndim pd cl) = make_scalar3 0 0 0"
  "m_nominal_width (initializeWidth ndim pd cl) = m_nominal_width cl" "m_multiple (initializeWidth ndim pd cl) = m_multiple cl"
  "m_radius (initializeWidth ndim pd cl) = m_radius cl" "c_Nmax (initializeWidth ndim pd cl) = c_Nmax cl"
  "c_compute (initializeWidth ndim pd cl) = c_compute cl" "m_box_changed (initializeWidth ndim pd cl) = m_box_changed cl"
  "m_params_changed (initializeWidth ndim pd cl) = m_params_changed cl" "m_particles_sorted (initializeWidth ndim pd cl) = m_particles_sorted cl"
  "m_flag_charge (initializeWidth ndim pd cl) = m_flag_charge cl" "m_flag_type (initializeWidth ndim pd cl) = m_flag_type cl"
  "m_compute_tdb (initializeWidth ndim pd cl) = m_compute_tdb cl" "m_compute_idx (initializeWidth ndim pd cl) = m_compute_idx cl"
  "m_compute_orientation (initializeWidth ndim pd cl) = m_compute_orientation cl"
  by (simp_all add: initializeWidth_def Let_def computeDimensions_def)

lemma cells_fit_cong: "m_radius a = m_radius b \<Longrightarrow> c_Nmax a \<le> max (c_Nmax b) (m_nparticles pd + m_nghosts pd + 1) \<Longrightarrow>
    cells_fit ndim pd b d \<Longrightarrow> cells_fit ndim pd a d"
proof -
  assume r: "m_radius a = m_radius b" and n: "c_Nmax a \<le> max (c_Nmax b) (m_nparticles pd + m_nghosts pd + 1)" and f: "cells_fit ndim pd b d"
  have "max (c_Nmax a) (m_nparticles pd + m_nghosts pd + 1) * cell_count d
      \<le> max (c_Nmax b) (m_nparticles pd + m_nghosts pd + 1) * cell_count d" using n by (intro mult_le_mono1) simp
  then show ?thesis using f unfolding cells_fit_def r by linarith
qed

lemma initializeAll_spec:
  assumes "box_ok (m_box pd)" "0 < m_nominal_width cl" "ndim = 2 \<or> ndim = 3" "cells_fit ndim pd cl (computeDimensions ndim pd cl)"
  shows "layout_ok ndim (initializeAll ndim pd cl) \<and> dims_fit ndim pd (initializeAll ndim pd cl)
    \<and> settings (initializeAll ndim pd cl) = settings (initializeWidth ndim pd cl)
    \<and> cells_fit ndim pd (initializeAll ndim pd cl) (computeDimensions ndim pd cl) \<and> c_Nmax cl \<le> c_Nmax (initializeAll ndim pd cl)"
proof -
  let ?w = "initializeWidth ndim pd cl"
  have fit: "dims_fit ndim pd (cl\<lparr>m_dim := computeDimensions ndim pd cl\<rparr>)" by (rule computeDimensions_fit [OF assms(1-3)])
  then have d: "dims_ok ndim (m_dim ?w)" by (simp add: dims_fit_def Let_def)
  have c: "cells_fit ndim pd ?w (m_dim ?w)" using assms(4) by (simp add: cells_fit_def)
  note i = initializeMemory_spec [OF d c, folded initializeAll_def]
  note e = settings_eq [OF conjunct1 [OF conjunct2 [OF i]]]
  have "dims_fit ndim pd (initializeAll ndim pd cl)" using fit by (simp add: dims_fit_def e)
  moreover have "cells_fit ndim pd (initializeAll ndim pd cl) (computeDimensions ndim pd cl)"
    using cells_fit_cong [of "initializeAll ndim pd cl" cl] i e(2) assms(4) by simp
  ultimately show ?thesis using i by simp
qed

section \<open>The computation\<close>

text \<open>Whether a particle can be put into a cell does not depend on the number of cells.\<close>

definition inside_along :: "Scalar \<Rightarrow> bool \<Rightarrow> bool" where
  "inside_along f per \<longleftrightarrow> \<not> out_of_bounds f \<and> (f < 1 \<or> per)"

definition inside :: "ParticleData \<Rightarrow> nat \<Rightarrow> bool" where
  "inside pd n \<longleftrightarrow> (let f = fraction pd n; p = m_periodic (m_box pd) in
     inside_along (vx f) (tx p) \<and> inside_along (vy f) (ty p) \<and> inside_along (vz f) (tz p))"

lemma coord_inside: "0 < d \<Longrightarrow> d < 100000 \<Longrightarrow> inside_along f per \<longleftrightarrow> \<not> out_of_bounds f \<and> cell_coord f d per < int d"
proof (cases "out_of_bounds f")
  case False
  assume d: "0 < d" "d < 100000"
  show ?thesis
  proof (cases "f < 1")
    case True
    then have "f * real d < real d" using d by simp
    have "cast_int (f * real d) < int d"
    proof (cases "0 \<le> f * real d")
      case True
      then show ?thesis using \<open>f * real d < real d\<close> by (simp add: cast_int_def floor_less_iff)
    next
      case False
      then have "\<lceil>f * real d\<rceil> \<le> 0" by (simp add: ceiling_le_iff)
      then have "\<lceil>f * real d\<rceil> < int d" using d(1) by linarith
      then show ?thesis using False by (simp only: cast_int_def if_False)
    qed
    then show ?thesis using True False by (simp add: inside_along_def cell_coord_def Let_def)
  next
    case ge: False
    have f: "1 \<le> f" "f < 1.00001" using ge False by (auto simp: out_of_bounds_def)
    have "f * real d < 1.00001 * real d" using f(2) d by (intro mult_strict_right_mono) simp_all
    moreover have "1.00001 * real d \<le> real d + 1" using d(2) by simp
    moreover have "1 * real d \<le> f * real d" using f(1) by (intro mult_right_mono) simp_all
    ultimately have "real d \<le> f * real d" "f * real d < real d + 1" by linarith+
    then have "cast_int (f * real d) = int d" by (auto simp: cast_int_def floor_eq_iff)
    then show ?thesis using ge False d by (simp add: inside_along_def cell_coord_def)
  qed
qed (simp add: inside_along_def)

lemma addressable_iff: "dims_ok ndim d \<Longrightarrow> dims_bounded d \<Longrightarrow> addressable pd d n \<longleftrightarrow> inside pd n"
  using coord_inside [of "tx d" "vx (fraction pd n)" "tx (m_periodic (m_box pd))"] coord_inside [of "ty d" "vy (fraction pd n)" "ty (m_periodic (m_box pd))"]
    coord_inside [of "tz d" "vz (fraction pd n)" "tz (m_periodic (m_box pd))"]
  by (auto simp: addressable_def inside_def dims_ok_def dims_bounded_def Let_def)

definition locals_inside :: "ParticleData \<Rightarrow> bool" where
  "locals_inside pd \<longleftrightarrow> (\<forall>n < m_nparticles pd. inside pd n)"

lemma locals_addressable_iff: "dims_ok ndim d \<Longrightarrow> dims_bounded d \<Longrightarrow> locals_addressable pd d \<longleftrightarrow> locals_inside pd"
  by (simp add: locals_addressable_def locals_inside_def addressable_iff)

text \<open>The state of a list between calls.\<close>

definition cells_state :: "nat \<Rightarrow> ParticleData \<Rightarrow> CellList \<Rightarrow> bool" where
  "cells_state ndim pd cl \<longleftrightarrow> box_ok (m_box pd) \<and> (ndim = 2 \<or> ndim = 3) \<and> 0 < m_nominal_width cl
     \<and> dims_bounded (computeDimensions ndim pd cl) \<and> cells_fit ndim pd cl (computeDimensions ndim pd cl)
     \<and> layout_ok ndim cl \<and> dims_fit ndim pd cl \<and> dims_bounded (m_dim cl) \<and> cells_fit ndim pd cl (m_dim cl)
     \<and> m_ghost_width cl = make_scalar3 0 0 0"

lemma cells_state_frame:
  assumes "settings a = settings b" "layout_ok ndim a" "c_Nmax a \<le> max (c_Nmax b) (m_nparticles pd + m_nghosts pd + 1)" "cells_state ndim pd b"
  shows "cells_state ndim pd a"
proof -
  note e = settings_eq [OF assms(1)]
  have "computeDimensions ndim pd a = computeDimensions ndim pd b" by (rule computeDimensions_settings [OF e(9,10)])
  then show ?thesis using assms(2,4) cells_fit_cong [OF e(2) assms(3)] by (simp add: cells_state_def dims_fit_def e)
qed

lemma reinitialize:
  assumes "box_ok (m_box pd)" "ndim = 2 \<or> ndim = 3" "0 < m_nominal_width cl" "dims_bounded (computeDimensions ndim pd cl)"
    "cells_fit ndim pd cl (computeDimensions ndim pd cl)"
  shows "cells_state ndim pd (initializeAll ndim pd cl) \<and> m_dim (initializeAll ndim pd cl) = computeDimensions ndim pd (initializeAll ndim pd cl)
    \<and> m_dim (initializeAll ndim pd cl) = computeDimensions ndim pd cl
    \<and> c_Nmax cl \<le> c_Nmax (initializeAll ndim pd cl) \<and> settings (initializeAll ndim pd cl) = settings (initializeWidth ndim pd cl)"
proof -
  note i = initializeAll_spec [OF assms(1,3,2,5)]
  note e = settings_eq [OF conjunct1 [OF conjunct2 [OF conjunct2 [OF i]]]]
  have "computeDimensions ndim pd (initializeAll ndim pd cl) = computeDimensions ndim pd cl"
    by (rule computeDimensions_settings) (simp_all add: e)
  then show ?thesis using assms i by (simp add: cells_state_def e)
qed

lemma build_cells_outside:
  assumes "cells_state ndim pd cl" "\<not> locals_inside pd"
  shows "\<exists>e. build_cells ndim pd cl = Some (Inl e)"
proof -
  have s: "layout_ok ndim cl" "m_ghost_width cl = make_scalar3 0 0 0" "dims_bounded (m_dim cl)" "dims_ok ndim (m_dim cl)"
    using assms(1) by (simp_all add: cells_state_def dims_fit_def Let_def)
  have "\<not> locals_addressable pd (m_dim cl)" using locals_addressable_iff [OF s(4,3)] assms(2) by simp
  then show ?thesis using cells_pass [OF s(1-3), of pd] by (subst build_cells.simps) auto
qed

text \<open>When the lists are long enough, one pass is enough; otherwise the list is long enough after one more.\<close>

definition roomy :: "ParticleData \<Rightarrow> CellList \<Rightarrow> bool" where
  "roomy pd cl \<longleftrightarrow> (\<forall>b < cell_count (m_dim cl). length (members pd (m_dim cl) (all_particles pd) b) \<le> c_Nmax cl)"

definition built :: "nat \<Rightarrow> ParticleData \<Rightarrow> CellList \<Rightarrow> CellList result option \<Rightarrow> bool" where
  "built ndim pd cl r \<longleftrightarrow> (\<exists>cl'. r = Some (Inr cl') \<and> cells_state ndim pd cl' \<and> cells_ok ndim pd cl'
     \<and> (settings cl' = settings cl \<or> settings cl' = settings (initializeWidth ndim pd cl)))"

lemma reset_simps [simp]: "settings (resetConditions cl) = settings cl" "layout_ok ndim (resetConditions cl) = layout_ok ndim cl"
  "c_Nmax (resetConditions cl) = c_Nmax cl" "m_dim (resetConditions cl) = m_dim cl"
  "computeDimensions ndim pd (resetConditions cl) = computeDimensions ndim pd cl"
  by (simp_all add: resetConditions_def settings_def layout_ok_def indexed_def computeDimensions_def)

lemma settings_width: "settings a = settings b \<Longrightarrow> settings (initializeWidth ndim pd a) = settings (initializeWidth ndim pd b)"
proof -
  assume e: "settings a = settings b"
  have "settings (initializeWidth ndim pd x) = initializeWidth ndim pd (settings x)" for x
    by (simp add: settings_def initializeWidth_def computeDimensions_def Let_def)
  then show ?thesis using e by simp
qed

lemma settings_width_width: "settings (initializeWidth ndim pd (initializeWidth ndim pd cl)) = settings (initializeWidth ndim pd cl)"
  by (simp add: settings_def initializeWidth_def computeDimensions_def Let_def)

lemma build_step:
  assumes st: "cells_state ndim pd cl" and ins: "locals_inside pd"
  shows "built ndim pd cl (build_cells ndim pd cl) \<or>
    (\<exists>cl'. build_cells ndim pd cl = build_cells ndim pd (resetConditions (initializeAll ndim pd cl')) \<and> cells_state ndim pd (initializeAll ndim pd cl')
      \<and> m_dim (initializeAll ndim pd cl') = computeDimensions ndim pd (initializeAll ndim pd cl')
      \<and> settings (initializeAll ndim pd cl') = settings (initializeWidth ndim pd cl)
      \<and> \<not> roomy pd cl \<and> (m_dim cl = computeDimensions ndim pd cl \<longrightarrow> roomy pd (initializeAll ndim pd cl')))"
proof -
  have s: "layout_ok ndim cl" "m_ghost_width cl = make_scalar3 0 0 0" "dims_bounded (m_dim cl)" "dims_ok ndim (m_dim cl)"
    using st by (simp_all add: cells_state_def dims_fit_def Let_def)
  have "locals_addressable pd (m_dim cl)" using locals_addressable_iff [OF s(4,3)] ins by simp
  then obtain ov cl' where p: "bindr (computeCellList pd cl) checkConditions = Inr (ov, cl')" "settings cl' = settings cl"
    "if ov then c_Nmax cl < c_Nmax cl' \<and> c_Nmax cl' \<le> m_nparticles pd + m_nghosts pd
             \<and> (\<exists>b < cell_count (m_dim cl). c_Nmax cl < length (members pd (m_dim cl) (all_particles pd) b))
             \<and> (\<forall>b < cell_count (m_dim cl). length (members pd (m_dim cl) (all_particles pd) b) \<le> c_Nmax cl')
         else cells_ok ndim pd cl' \<and> c_Nmax cl' = c_Nmax cl"
    using cells_pass [OF s(1-3), of pd] by auto
  show ?thesis
  proof (cases ov)
    case False
    then have ok: "cells_ok ndim pd cl'" "c_Nmax cl' = c_Nmax cl" using p(3) by simp_all
    have "cells_state ndim pd cl'" using cells_state_frame [OF p(2) _ _ st] ok by (simp add: cells_ok_def)
    moreover have "build_cells ndim pd cl = Some (Inr cl')" using False by (subst build_cells.simps) (simp add: p(1))
    ultimately show ?thesis using ok(1) p(2) by (auto simp: built_def)
  next
    case True
    note e = settings_eq [OF p(2)]
    have cd: "computeDimensions ndim pd cl' = computeDimensions ndim pd cl" by (rule computeDimensions_settings [OF e(9,10)])
    have le: "c_Nmax cl' \<le> max (c_Nmax cl) (m_nparticles pd + m_nghosts pd + 1)" using p(3) True by auto
    have i: "cells_state ndim pd (initializeAll ndim pd cl')" "m_dim (initializeAll ndim pd cl') = computeDimensions ndim pd (initializeAll ndim pd cl')"
      "m_dim (initializeAll ndim pd cl') = computeDimensions ndim pd cl" "c_Nmax cl' \<le> c_Nmax (initializeAll ndim pd cl')"
      "settings (initializeAll ndim pd cl') = settings (initializeWidth ndim pd cl)"
    proof -
      have pre: "box_ok (m_box pd)" "ndim = 2 \<or> ndim = 3" "0 < m_nominal_width cl'" "dims_bounded (computeDimensions ndim pd cl')"
        "cells_fit ndim pd cl' (computeDimensions ndim pd cl')"
        using st cells_fit_cong [OF e(2) le] by (simp_all add: cells_state_def cd e(9))
      note r = reinitialize [OF pre, unfolded settings_width [OF p(2)] cd]
      show "cells_state ndim pd (initializeAll ndim pd cl')" "m_dim (initializeAll ndim pd cl') = computeDimensions ndim pd (initializeAll ndim pd cl')"
        "m_dim (initializeAll ndim pd cl') = computeDimensions ndim pd cl" "c_Nmax cl' \<le> c_Nmax (initializeAll ndim pd cl')"
        "settings (initializeAll ndim pd cl') = settings (initializeWidth ndim pd cl)"
        using r by blast+
    qed
    have "roomy pd (initializeAll ndim pd cl')" if "m_dim cl = computeDimensions ndim pd cl"
      using p(3) True i(4) that unfolding roomy_def i(3) by (metis le_trans)
    moreover have "\<not> roomy pd cl" using p(3) True by (auto simp: roomy_def not_le)
    moreover have "build_cells ndim pd cl = build_cells ndim pd (resetConditions (initializeAll ndim pd cl'))"
      using True by (subst build_cells.simps) (simp add: p(1))
    ultimately show ?thesis using i by blast
  qed
qed

lemma built_settings:
  assumes "built ndim pd a r" "settings a = settings b \<or> settings a = settings (initializeWidth ndim pd b)"
  shows "built ndim pd b r"
  using assms settings_width [of a b ndim pd] settings_width [of a "initializeWidth ndim pd b" ndim pd] settings_width_width [of ndim pd b]
  unfolding built_def by metis

lemma build_cells_built:
  assumes "cells_state ndim pd cl" "locals_inside pd"
  shows "built ndim pd cl (build_cells ndim pd cl)"
proof -
  have one: "built ndim pd cl (build_cells ndim pd cl)" if "cells_state ndim pd cl" "roomy pd cl" for cl
    using build_step [OF that(1) assms(2)] that(2) by blast
  have reset: "cells_state ndim pd (resetConditions cl)" "roomy pd (resetConditions cl) = roomy pd cl" if "cells_state ndim pd cl" for cl
    using cells_state_frame [of "resetConditions cl" cl ndim pd] that by (simp_all add: cells_state_def roomy_def)
  have two: "built ndim pd cl (build_cells ndim pd cl)" if cl: "cells_state ndim pd cl" "m_dim cl = computeDimensions ndim pd cl" for cl
    using build_step [OF cl(1) assms(2)]
  proof (elim disjE exE conjE)
    fix cl' assume a: "build_cells ndim pd cl = build_cells ndim pd (resetConditions (initializeAll ndim pd cl'))"
      "cells_state ndim pd (initializeAll ndim pd cl')" "settings (initializeAll ndim pd cl') = settings (initializeWidth ndim pd cl)"
      "m_dim cl = computeDimensions ndim pd cl \<longrightarrow> roomy pd (initializeAll ndim pd cl')"
    have "built ndim pd (resetConditions (initializeAll ndim pd cl')) (build_cells ndim pd cl)"
      unfolding a(1) using reset [OF a(2)] a(4) cl(2) by (intro one) simp_all
    then show ?thesis by (rule built_settings) (simp add: a(3))
  qed
  show ?thesis using build_step [OF assms]
  proof (elim disjE exE conjE)
    fix cl' assume a: "build_cells ndim pd cl = build_cells ndim pd (resetConditions (initializeAll ndim pd cl'))"
      "cells_state ndim pd (initializeAll ndim pd cl')" "settings (initializeAll ndim pd cl') = settings (initializeWidth ndim pd cl)"
      "m_dim (initializeAll ndim pd cl') = computeDimensions ndim pd (initializeAll ndim pd cl')"
    have "built ndim pd (resetConditions (initializeAll ndim pd cl')) (build_cells ndim pd cl)"
      unfolding a(1) using reset [OF a(2)] a(4) by (intro two) simp_all
    then show ?thesis by (rule built_settings) (simp add: a(3))
  qed
qed

text \<open>The list has to be computed again.\<close>

definition needs_compute :: "nat \<Rightarrow> CellList \<Rightarrow> bool" where
  "needs_compute timestep cl \<longleftrightarrow> m_params_changed cl \<or> m_box_changed cl \<or> m_particles_sorted cl
     \<or> fst (shouldCompute timestep (c_compute cl))"

definition cells_callable :: "nat \<Rightarrow> ParticleData \<Rightarrow> nat \<Rightarrow> CellList \<Rightarrow> bool" where
  "cells_callable ndim pd timestep cl \<longleftrightarrow> box_ok (m_box pd) \<and> (ndim = 2 \<or> ndim = 3) \<and> 0 < m_nominal_width cl
     \<and> dims_bounded (computeDimensions ndim pd cl) \<and> cells_fit ndim pd cl (computeDimensions ndim pd cl)
     \<and> (m_params_changed cl \<or> cells_state ndim pd cl) \<and> (needs_compute timestep cl \<or> cells_ok ndim pd cl)"

definition user_settings :: "CellList \<Rightarrow> Scalar \<times> nat \<times> bool \<times> bool \<times> bool \<times> bool \<times> bool \<times> nat" where
  "user_settings cl = (m_nominal_width cl, m_radius cl, m_compute_tdb cl, m_compute_orientation cl, m_compute_idx cl,
     m_flag_charge cl, m_flag_type cl, m_multiple cl)"

lemma user_settings_kept: "settings a = settings b \<Longrightarrow> user_settings a = user_settings b"
  by (simp add: user_settings_def settings_eq [of a b])

lemma user_settings_width [simp]: "user_settings (initializeWidth ndim pd cl) = user_settings cl"
  by (simp add: user_settings_def)

text \<open>The first part of the call: parameters and box.\<close>

definition prepared :: "nat \<Rightarrow> ParticleData \<Rightarrow> CellList \<Rightarrow> CellList" where
  "prepared ndim pd cl =
     (let cl = (if m_params_changed cl then (initializeAll ndim pd cl)\<lparr>m_params_changed := False\<rparr> else cl);
          cl = (if m_box_changed cl
             then (if computeDimensions ndim pd cl = m_dim cl then initializeWidth ndim pd cl else initializeAll ndim pd cl)\<lparr>m_box_changed := False\<rparr>
             else cl)
      in if m_particles_sorted cl then cl\<lparr>m_particles_sorted := False\<rparr> else cl)"

lemma initializeAll_flags:
  assumes "settings (initializeAll ndim pd cl) = settings (initializeWidth ndim pd cl)"
  shows "m_box_changed (initializeAll ndim pd cl) = m_box_changed cl" "m_particles_sorted (initializeAll ndim pd cl) = m_particles_sorted cl"
    "c_compute (initializeAll ndim pd cl) = c_compute cl" "user_settings (initializeAll ndim pd cl) = user_settings cl"
    "m_params_changed (initializeAll ndim pd cl) = m_params_changed cl"
  using settings_eq [OF assms] user_settings_kept [OF assms] by simp_all

lemma cells_state_flags [simp]:
  "cells_state ndim pd (cl\<lparr>m_params_changed := x\<rparr>) = cells_state ndim pd cl" "cells_state ndim pd (cl\<lparr>m_box_changed := x\<rparr>) = cells_state ndim pd cl"
  "cells_state ndim pd (cl\<lparr>m_particles_sorted := x\<rparr>) = cells_state ndim pd cl" "cells_state ndim pd (cl\<lparr>c_compute := c\<rparr>) = cells_state ndim pd cl"
  by (simp_all add: cells_state_def layout_ok_def dims_fit_def cells_fit_def indexed_def computeDimensions_def)

lemma user_settings_flags [simp]:
  "user_settings (cl\<lparr>m_params_changed := x\<rparr>) = user_settings cl" "user_settings (cl\<lparr>m_box_changed := x\<rparr>) = user_settings cl"
  "user_settings (cl\<lparr>m_particles_sorted := x\<rparr>) = user_settings cl" "user_settings (cl\<lparr>c_compute := c\<rparr>) = user_settings cl"
  by (simp_all add: user_settings_def)

lemma cells_state_width:
  assumes "cells_state ndim pd cl" "computeDimensions ndim pd cl = m_dim cl"
  shows "cells_state ndim pd (initializeWidth ndim pd cl)"
proof -
  have "computeDimensions ndim pd (initializeWidth ndim pd cl) = computeDimensions ndim pd cl" by (rule computeDimensions_settings) simp_all
  moreover have "layout_ok ndim (initializeWidth ndim pd cl) = layout_ok ndim (cl\<lparr>m_dim := computeDimensions ndim pd cl\<rparr>)"
    by (simp add: initializeWidth_def layout_ok_def indexed_def computeDimensions_def Let_def)
  moreover have "cl\<lparr>m_dim := m_dim cl\<rparr> = cl" by simp
  ultimately show ?thesis using assms by (simp add: cells_state_def dims_fit_def cells_fit_def)
qed

lemma prepared_spec:
  assumes "cells_callable ndim pd timestep cl"
  shows "cells_state ndim pd (prepared ndim pd cl) \<and> c_compute (prepared ndim pd cl) = c_compute cl
    \<and> user_settings (prepared ndim pd cl) = user_settings cl \<and> \<not> m_params_changed (prepared ndim pd cl)
    \<and> \<not> m_box_changed (prepared ndim pd cl) \<and> \<not> m_particles_sorted (prepared ndim pd cl)"
proof -
  have pre: "box_ok (m_box pd)" "ndim = 2 \<or> ndim = 3" "0 < m_nominal_width cl" "dims_bounded (computeDimensions ndim pd cl)"
    "cells_fit ndim pd cl (computeDimensions ndim pd cl)" using assms by (simp_all add: cells_callable_def)
  define c1 where "c1 = (if m_params_changed cl then (initializeAll ndim pd cl)\<lparr>m_params_changed := False\<rparr> else cl)"
  have c1: "cells_state ndim pd c1 \<and> c_compute c1 = c_compute cl \<and> user_settings c1 = user_settings cl \<and> \<not> m_params_changed c1"
    using reinitialize [OF pre] initializeAll_flags [of ndim pd cl] assms by (auto simp: c1_def cells_callable_def)
  define c2 where "c2 = (if m_box_changed c1
             then (if computeDimensions ndim pd c1 = m_dim c1 then initializeWidth ndim pd c1 else initializeAll ndim pd c1)\<lparr>m_box_changed := False\<rparr>
             else c1)"
  have pre1: "box_ok (m_box pd)" "ndim = 2 \<or> ndim = 3" "0 < m_nominal_width c1" "dims_bounded (computeDimensions ndim pd c1)"
    "cells_fit ndim pd c1 (computeDimensions ndim pd c1)" using c1 by (simp_all add: cells_state_def)
  have c2: "cells_state ndim pd c2 \<and> c_compute c2 = c_compute cl \<and> user_settings c2 = user_settings cl \<and> \<not> m_params_changed c2 \<and> \<not> m_box_changed c2"
  proof (cases "m_box_changed c1")
    case True
    show ?thesis
    proof (cases "computeDimensions ndim pd c1 = m_dim c1")
      case same: True
      then show ?thesis using True c1 cells_state_width [of ndim pd c1] by (simp add: c2_def)
    next
      case False
      then show ?thesis using True c1 reinitialize [OF pre1] initializeAll_flags [of ndim pd c1] by (simp add: c2_def)
    qed
  qed (use c1 in \<open>simp add: c2_def\<close>)
  have "prepared ndim pd cl = (if m_particles_sorted c2 then c2\<lparr>m_particles_sorted := False\<rparr> else c2)"
    by (simp only: prepared_def c2_def c1_def Let_def)
  then show ?thesis using c2 by simp
qed

lemma cells_compute_prepared:
  assumes "cells_callable ndim pd timestep cl"
  shows "cells_compute ndim pd timestep cl =
     (let c = (prepared ndim pd cl)\<lparr>c_compute := snd (shouldCompute timestep (c_compute cl))\<rparr>
      in if needs_compute timestep cl then build_cells ndim pd c else Some (Inr c))"
proof -
  have pre: "box_ok (m_box pd)" "ndim = 2 \<or> ndim = 3" "0 < m_nominal_width cl" "dims_bounded (computeDimensions ndim pd cl)"
    "cells_fit ndim pd cl (computeDimensions ndim pd cl)" using assms by (simp_all add: cells_callable_def)
  note fl = initializeAll_flags [OF conjunct2 [OF conjunct2 [OF conjunct2 [OF conjunct2 [OF reinitialize [OF pre]]]]]]
  define c1 where "c1 = (if m_params_changed cl then (initializeAll ndim pd cl)\<lparr>m_params_changed := False\<rparr> else cl)"
  define c2 where "c2 = (if m_box_changed c1
             then (if computeDimensions ndim pd c1 = m_dim c1 then initializeWidth ndim pd c1 else initializeAll ndim pd c1)\<lparr>m_box_changed := False\<rparr>
             else c1)"
  have p: "prepared ndim pd cl = (if m_particles_sorted c2 then c2\<lparr>m_particles_sorted := False\<rparr> else c2)"
    by (simp only: prepared_def c2_def c1_def Let_def)
  have f1: "m_box_changed c1 = m_box_changed cl" "m_particles_sorted c1 = m_particles_sorted cl" using fl by (simp_all add: c1_def)
  have st1: "cells_state ndim pd c1" using reinitialize [OF pre] assms by (auto simp: c1_def cells_callable_def)
  have pre1: "box_ok (m_box pd)" "ndim = 2 \<or> ndim = 3" "0 < m_nominal_width c1" "dims_bounded (computeDimensions ndim pd c1)"
    "cells_fit ndim pd c1 (computeDimensions ndim pd c1)" using st1 by (simp_all add: cells_state_def)
  note fl1 = initializeAll_flags [OF conjunct2 [OF conjunct2 [OF conjunct2 [OF conjunct2 [OF reinitialize [OF pre1]]]]]]
  have f2: "m_particles_sorted c2 = m_particles_sorted cl" using fl1 f1 by (simp add: c2_def)
  have c: "c_compute (prepared ndim pd cl) = c_compute cl" using prepared_spec [OF assms] by blast
  have "cells_compute ndim pd timestep cl =
     (let c = prepared ndim pd cl; (should, cc) = shouldCompute timestep (c_compute c); c = c\<lparr>c_compute := cc\<rparr>
      in if should \<or> m_params_changed cl \<or> m_box_changed c1 \<or> m_particles_sorted c2 then build_cells ndim pd c else Some (Inr c))"
    unfolding p c2_def c1_def cells_compute_def
    by (cases "m_params_changed cl"; cases "m_box_changed c1"; cases "m_particles_sorted c2") (simp_all add: c1_def c2_def Let_def split: prod.split)
  then show ?thesis by (simp add: c f1 f2 needs_compute_def Let_def split: prod.split)
qed

text \<open>The contract of \<open>compute\<close>: it returns; with a particle outside of the box it fails, otherwise the list is complete.\<close>

lemma cells_compute_spec:
  assumes "cells_callable ndim pd timestep cl"
  shows "if locals_inside pd
    then \<exists>cl'. cells_compute ndim pd timestep cl = Some (Inr cl') \<and> cells_ok ndim pd cl' \<and> cells_state ndim pd cl'
      \<and> user_settings cl' = user_settings cl \<and> cells_callable ndim pd timestep cl'
    else \<exists>e. cells_compute ndim pd timestep cl = Some (Inl e)"
proof -
  let ?c = "(prepared ndim pd cl)\<lparr>c_compute := snd (shouldCompute timestep (c_compute cl))\<rparr>"
  note p = prepared_spec [OF assms]
  have r: "cells_compute ndim pd timestep cl = (if needs_compute timestep cl then build_cells ndim pd ?c else Some (Inr ?c))"
    using cells_compute_prepared [OF assms] by (simp add: Let_def)
  have st: "cells_state ndim pd ?c" "user_settings ?c = user_settings cl" using p by simp_all
  have again: "cells_callable ndim pd timestep x" if "cells_state ndim pd x" "cells_ok ndim pd x" for x
    using that by (simp add: cells_callable_def cells_state_def)
  show ?thesis
  proof (cases "needs_compute timestep cl")
    case True
    show ?thesis
    proof (cases "locals_inside pd")
      case ins: True
      obtain cl' where b: "build_cells ndim pd ?c = Some (Inr cl')" "cells_state ndim pd cl'" "cells_ok ndim pd cl'"
        "settings cl' = settings ?c \<or> settings cl' = settings (initializeWidth ndim pd ?c)"
        using build_cells_built [OF st(1) ins] by (auto simp: built_def)
      have "user_settings cl' = user_settings cl"
        using b(4) user_settings_kept [of cl' ?c] user_settings_kept [of cl' "initializeWidth ndim pd ?c"] st(2) by auto
      then show ?thesis using b again ins True by (simp add: r)
    next
      case False
      then show ?thesis using build_cells_outside [OF st(1)] True by (simp add: r)
    qed
  next
    case False
    then have ok: "cells_ok ndim pd cl" "cells_state ndim pd cl" using assms by (auto simp: cells_callable_def needs_compute_def)
    have "prepared ndim pd cl = cl" using False by (simp add: prepared_def needs_compute_def)
    moreover have "snd (shouldCompute timestep (c_compute cl)) = c_compute cl"
      using False by (auto simp: needs_compute_def shouldCompute_def)
    ultimately have c: "?c = cl" by simp
    have "locals_inside pd" using ok locals_addressable_iff [of ndim "m_dim cl" pd]
      by (simp add: cells_ok_def cells_state_def layout_ok_def Let_def)
    then show ?thesis using ok again False by (simp add: r c)
  qed
qed

section \<open>Neighbors lie in adjacent cells\<close>

lemma dot_row_bound:
  fixes a b c x y z :: real
  shows "\<bar>a * x + b * y + c * z\<bar> \<le> sqrt (a\<^sup>2 + b\<^sup>2 + c\<^sup>2) * sqrt (x\<^sup>2 + y\<^sup>2 + z\<^sup>2)"
proof -
  have "(a * x + b * y + c * z)\<^sup>2 = (a\<^sup>2 + b\<^sup>2 + c\<^sup>2) * (x\<^sup>2 + y\<^sup>2 + z\<^sup>2) - ((a * y - b * x)\<^sup>2 + (a * z - c * x)\<^sup>2 + (b * z - c * y)\<^sup>2)"
    by (simp add: power2_eq_square algebra_simps)
  then have "(a * x + b * y + c * z)\<^sup>2 \<le> (a\<^sup>2 + b\<^sup>2 + c\<^sup>2) * (x\<^sup>2 + y\<^sup>2 + z\<^sup>2)"
    using zero_le_power2 [of "a * y - b * x"] zero_le_power2 [of "a * z - c * x"] zero_le_power2 [of "b * z - c * y"] by linarith
  then have "sqrt ((a * x + b * y + c * z)\<^sup>2) \<le> sqrt ((a\<^sup>2 + b\<^sup>2 + c\<^sup>2) * (x\<^sup>2 + y\<^sup>2 + z\<^sup>2))" by (rule real_sqrt_le_mono)
  then show ?thesis by (simp add: real_sqrt_mult)
qed

text \<open>A vector of length \<open>r\<close> moves the fractional coordinates by at most \<open>r\<close> over the distance of the planes.\<close>

lemma fraction_distance:
  assumes ok: "box_ok b" and r: "0 \<le> r" "dot (p - q) (p - q) \<le> r\<^sup>2"
  shows "\<bar>vx (makeFraction b p) - vx (makeFraction b q)\<bar> * vx (getNearestPlaneDistance b) \<le> r"
    "\<bar>vy (makeFraction b p) - vy (makeFraction b q)\<bar> * vy (getNearestPlaneDistance b) \<le> r"
    "\<bar>vz (makeFraction b p) - vz (makeFraction b q)\<bar> * vz (getNearestPlaneDistance b) \<le> r"
proof -
  note L = box_okD(1-3) [OF ok] and f = makeFraction_components [OF ok]
  define x y z where "x = vx p - vx q" and "y = vy p - vy q" and "z = vz p - vz q"
  have len: "sqrt (x\<^sup>2 + y\<^sup>2 + z\<^sup>2) \<le> r"
  proof -
    have "x\<^sup>2 + y\<^sup>2 + z\<^sup>2 \<le> r\<^sup>2" using r(2) by (simp add: dot_def x_def y_def z_def power2_eq_square)
    then show ?thesis using r(1) by (intro real_le_lsqrt) simp_all
  qed
  have bound: "\<bar>a * x + b' * y + c * z\<bar> * (1 / sqrt s) \<le> r" if "s = a\<^sup>2 + b'\<^sup>2 + c\<^sup>2" "0 < s" for a b' c s
  proof -
    have "\<bar>a * x + b' * y + c * z\<bar> \<le> sqrt s * sqrt (x\<^sup>2 + y\<^sup>2 + z\<^sup>2)" using dot_row_bound [of a x b' y c z] that(1) by simp
    also have "\<dots> \<le> sqrt s * r" using len that(2) by (intro mult_left_mono) simp_all
    finally show ?thesis using that(2) by (simp add: divide_le_eq mult.commute)
  qed
  let ?s = "1 + m_xy b * m_xy b + (m_xy b * m_yz b - m_xz b) * (m_xy b * m_yz b - m_xz b)" and ?t = "1 + m_yz b * m_yz b"
  have pos: "0 < ?s" "0 < ?t" by (intro add_pos_nonneg; simp)+
  have "vx (makeFraction b p) - vx (makeFraction b q) = (1 * x + (- m_xy b) * y + (m_xy b * m_yz b - m_xz b) * z) / vx (m_L b)"
    by (simp add: f x_def y_def z_def diff_divide_distrib [symmetric] algebra_simps)
  then show "\<bar>vx (makeFraction b p) - vx (makeFraction b q)\<bar> * vx (getNearestPlaneDistance b) \<le> r"
    using bound [of ?s 1 "- m_xy b" "m_xy b * m_yz b - m_xz b"] pos(1) L(1)
    by (simp add: getNearestPlaneDistance_def rsqrt_def power2_eq_square)
  have "vy (makeFraction b p) - vy (makeFraction b q) = (0 * x + 1 * y + (- m_yz b) * z) / vy (m_L b)"
    by (simp add: f y_def z_def diff_divide_distrib [symmetric] algebra_simps)
  then show "\<bar>vy (makeFraction b p) - vy (makeFraction b q)\<bar> * vy (getNearestPlaneDistance b) \<le> r"
    using bound [of ?t 0 1 "- m_yz b"] pos(2) L(2)
    by (simp add: getNearestPlaneDistance_def rsqrt_def power2_eq_square)
  have "vz (makeFraction b p) - vz (makeFraction b q) = (0 * x + 0 * y + 1 * z) / vz (m_L b)"
    by (simp add: f z_def diff_divide_distrib [symmetric])
  then show "\<bar>vz (makeFraction b p) - vz (makeFraction b q)\<bar> * vz (getNearestPlaneDistance b) \<le> r"
    using bound [of 1 0 0 1] L(3) by (simp add: getNearestPlaneDistance_def)
qed

text \<open>A coordinate of the upper half of the check, and the cell as the floor.\<close>

definition proper_along :: "Scalar \<Rightarrow> bool \<Rightarrow> bool" where
  "proper_along f per \<longleftrightarrow> 0 \<le> f \<and> inside_along f per"

lemma cell_coord_floor:
  assumes "0 < d" "d < 100000" "proper_along f per"
  shows "\<exists>s. cell_coord f d per = \<lfloor>f * real d\<rfloor> - s * int d \<and> (\<not> per \<longrightarrow> s = 0) \<and> 0 \<le> cell_coord f d per \<and> cell_coord f d per < int d"
proof -
  have "\<not> out_of_bounds f" "cell_coord f d per < int d" "0 \<le> f" using assms coord_inside [OF assms(1,2), of f per] by (simp_all add: proper_along_def)
  moreover have "0 \<le> cell_coord f d per" using cell_coord_nonneg calculation(1) assms(2) by blast
  moreover have "cast_int (f * real d) = \<lfloor>f * real d\<rfloor>" using calculation(3) by (simp add: cast_int_def)
  ultimately show ?thesis
    by (intro exI [of _ "if \<lfloor>f * real d\<rfloor> = int d \<and> per then 1 else 0"]) (auto simp: cell_coord_def Let_def)
qed

lemma coord_wrapped:
  assumes d: "0 < d" "d < 100000" and p: "proper_along f per" "proper_along g per" and n: "\<not> per \<longrightarrow> n = 0"
    and near: "d = 1 \<or> \<bar>f + of_int n - g\<bar> * real d \<le> 1" and r: "1 \<le> r \<or> d = 1"
  shows "nat (cell_coord g d per) \<in> wrapped d r (nat (cell_coord f d per))"
proof -
  obtain s where s: "cell_coord f d per = \<lfloor>f * real d\<rfloor> - s * int d" "0 \<le> cell_coord f d per"
    using cell_coord_floor [OF d p(1)] by blast
  obtain t where t: "cell_coord g d per = \<lfloor>g * real d\<rfloor> - t * int d" "0 \<le> cell_coord g d per" "cell_coord g d per < int d"
    using cell_coord_floor [OF d p(2)] by blast
  show ?thesis
  proof (cases "d = 1")
    case True
    have "cell_coord g d per = int (nat (cell_coord f d per)) mod 1" using t True by simp
    then show ?thesis unfolding wrapped_def True by (intro image_eqI [where x = "cell_coord g 1 per"] image_eqI [where x = "int (nat (cell_coord f 1 per))"])
      (simp_all add: True)
  next
    case False
    have "\<bar>(f + of_int n - g) * real d\<bar> \<le> 1" using near False by (simp add: abs_mult)
    then have "\<bar>f * real d + of_int n * real d - g * real d\<bar> \<le> 1" by (simp only: left_diff_distrib distrib_right)
    then have "\<bar>\<lfloor>f * real d\<rfloor> + n * int d - \<lfloor>g * real d\<rfloor>\<bar> \<le> 1"
    proof -
      assume a: "\<bar>f * real d + of_int n * real d - g * real d\<bar> \<le> 1"
      obtain k where k: "k = n * int d" "of_int n * real d = real_of_int k" by simp
      have "f * real d + of_int k \<le> g * real d + 1" "g * real d \<le> f * real d + of_int k + 1" using a by (simp_all add: k(2) abs_le_iff)
      then have "\<lfloor>f * real d + of_int k\<rfloor> \<le> \<lfloor>g * real d + 1\<rfloor>" "\<lfloor>g * real d\<rfloor> \<le> \<lfloor>f * real d + of_int k + 1\<rfloor>"
        by (auto dest: floor_mono)
      then have "\<lfloor>f * real d\<rfloor> + k \<le> \<lfloor>g * real d\<rfloor> + 1" "\<lfloor>g * real d\<rfloor> \<le> \<lfloor>f * real d\<rfloor> + k + 1" by simp_all
      then show ?thesis by (simp add: k(1))
    qed
    moreover define e where "e = \<lfloor>g * real d\<rfloor> - \<lfloor>f * real d\<rfloor> - n * int d"
    ultimately have e: "\<bar>e\<bar> \<le> 1" by simp
    have "cell_coord g d per = (cell_coord f d per + e) + (n + s - t) * int d" by (simp add: s(1) t(1) e_def algebra_simps)
    then have "cell_coord g d per mod int d = (cell_coord f d per + e) mod int d" by simp
    then have c: "cell_coord g d per = (cell_coord f d per + e) mod int d" using t(2,3) by simp
    show ?thesis unfolding wrapped_def
      by (intro image_eqI [where x = "cell_coord g d per"] image_eqI [where x = "cell_coord f d per + e"])
        (use c e r False s(2) in auto)
  qed
qed

definition proper :: "ParticleData \<Rightarrow> nat \<Rightarrow> bool" where
  "proper pd n \<longleftrightarrow> (let f = fraction pd n; p = m_periodic (m_box pd) in
     proper_along (vx f) (tx p) \<and> proper_along (vy f) (ty p) \<and> proper_along (vz f) (tz p))"

definition images_of :: "BoxDim \<Rightarrow> int3 set" where
  "images_of b = {n. (tx (m_periodic b) \<or> tx n = 0) \<and> (ty (m_periodic b) \<or> ty n = 0) \<and> (tz (m_periodic b) \<or> tz n = 0)}"

text \<open>Particle \<open>j\<close> within a distance of the image of particle \<open>i\<close> that is shifted by a lattice vector.\<close>

definition near_image :: "ParticleData \<Rightarrow> Scalar \<Rightarrow> nat \<Rightarrow> nat \<Rightarrow> int3 \<Rightarrow> bool" where
  "near_image pd r i j n \<longleftrightarrow> (let v = fst (m_pos (m_arrays pd) ! i) + lattice_point (m_box pd) n - fst (m_pos (m_arrays pd) ! j)
     in dot v v \<le> r\<^sup>2)"

lemma near_along:
  assumes "d = 1 \<or> real d * w \<le> L" "x * L \<le> w" "0 \<le> x" "0 < w"
  shows "d = 1 \<or> x * real d \<le> 1"
proof (rule disjCI)
  assume "\<not> x * real d \<le> 1"
  show "d = 1"
  proof (rule ccontr)
    assume "d \<noteq> 1"
    then have "real d * w \<le> L" using assms(1) by blast
    then have "x * (real d * w) \<le> x * L" using assms(3) by (rule mult_left_mono)
    then have "(x * real d) * w \<le> 1 * w" using assms(2) by (simp add: mult.assoc)
    then show False using assms(4) \<open>\<not> x * real d \<le> 1\<close> by simp
  qed
qed

lemma neighbor_in_adjacent_cell:
  assumes st: "cells_state ndim pd cl" and i: "proper pd i" and j: "proper pd j" and n: "n \<in> images_of (m_box pd)"
    and r: "1 \<le> m_radius cl"
    and near: "near_image pd (m_nominal_width cl) i j n"
  shows "bin_of pd (m_dim cl) j \<in> neighborhood ndim (m_radius cl) (m_dim cl) (bin_of pd (m_dim cl) i)"
proof -
  let ?b = "m_box pd" and ?d = "m_dim cl" and ?w = "m_nominal_width cl" and ?p = "m_periodic (m_box pd)"
  let ?f = "fraction pd i" and ?g = "fraction pd j" and ?L = "getNearestPlaneDistance (m_box pd)"
  have ok: "box_ok ?b" "0 < ?w" "dims_bounded ?d" and fit: "dims_fit ndim pd cl" using st by (simp_all add: cells_state_def)
  have dims: "0 < tx ?d" "0 < ty ?d" "0 < tz ?d" "ndim = 2 \<longrightarrow> tz ?d = 1" "tx ?d < 100000" "ty ?d < 100000" "tz ?d < 100000"
    "tx ?d = 1 \<or> real (tx ?d) * ?w \<le> vx ?L" "ty ?d = 1 \<or> real (ty ?d) * ?w \<le> vy ?L" "tz ?d = 1 \<or> real (tz ?d) * ?w \<le> vz ?L"
    using fit ok(3) by (simp_all add: dims_fit_def dims_ok_def dims_bounded_def Let_def)
  have fr: "makeFraction ?b (fst (m_pos (m_arrays pd) ! i) + lattice_point ?b n) = ?f + Vec3 (of_int (tx n)) (of_int (ty n)) (of_int (tz n))"
    by (simp add: fraction_def makeFraction_lattice [OF ok(1)])
  have gr: "makeFraction ?b (fst (m_pos (m_arrays pd) ! j)) = ?g" by (simp add: fraction_def)
  note fd = fraction_distance [OF ok(1) less_imp_le [OF ok(2)] near [unfolded near_image_def Let_def], unfolded fr gr]
  have x: "tx ?d = 1 \<or> \<bar>vx ?f + of_int (tx n) - vx ?g\<bar> * real (tx ?d) \<le> 1"
    using near_along [OF dims(8) _ _ ok(2)] fd(1) by simp
  have y: "ty ?d = 1 \<or> \<bar>vy ?f + of_int (ty n) - vy ?g\<bar> * real (ty ?d) \<le> 1"
    using near_along [OF dims(9) _ _ ok(2)] fd(2) by simp
  have z: "tz ?d = 1 \<or> \<bar>vz ?f + of_int (tz n) - vz ?g\<bar> * real (tz ?d) \<le> 1"
    using near_along [OF dims(10) _ _ ok(2)] fd(3) by simp
  have pr: "proper_along (vx ?f) (tx ?p)" "proper_along (vy ?f) (ty ?p)" "proper_along (vz ?f) (tz ?p)"
    "proper_along (vx ?g) (tx ?p)" "proper_along (vy ?g) (ty ?p)" "proper_along (vz ?g) (tz ?p)"
    using i j by (simp_all add: proper_def Let_def)
  have im: "\<not> tx ?p \<longrightarrow> tx n = 0" "\<not> ty ?p \<longrightarrow> ty n = 0" "\<not> tz ?p \<longrightarrow> tz n = 0" using n by (auto simp: images_of_def)
  have "nat (cell_coord (vx ?g) (tx ?d) (tx ?p)) \<in> wrapped (tx ?d) (m_radius cl) (nat (cell_coord (vx ?f) (tx ?d) (tx ?p)))"
    by (rule coord_wrapped [OF dims(1,5) pr(1,4) im(1) x]) (use r in simp)
  moreover have "nat (cell_coord (vy ?g) (ty ?d) (ty ?p)) \<in> wrapped (ty ?d) (m_radius cl) (nat (cell_coord (vy ?f) (ty ?d) (ty ?p)))"
    by (rule coord_wrapped [OF dims(2,6) pr(2,5) im(2) y]) (use r in simp)
  moreover have "nat (cell_coord (vz ?g) (tz ?d) (tz ?p)) \<in> wrapped (tz ?d) (if ndim = 2 then 0 else m_radius cl) (nat (cell_coord (vz ?f) (tz ?d) (tz ?p)))"
    by (rule coord_wrapped [OF dims(3,7) pr(3,6) im(3) z]) (use r dims(4) in auto)
  ultimately show ?thesis by (simp add: neighborhood_def bin_of_def Let_def)
qed

section \<open>Reading the list\<close>

definition cell_entries :: "CellList \<Rightarrow> nat \<Rightarrow> (Scalar3 \<times> cell_flag) list" where
  "cell_entries cl c = map (\<lambda>k. m_xyzf cl ! unat (Index2D_idx (m_cell_list_indexer cl) (of_nat k) (of_nat c))) [0..<m_cell_size cl ! c]"

definition cell_neighbors :: "CellList \<Rightarrow> nat \<Rightarrow> nat list" where
  "cell_neighbors cl c = map (\<lambda>k. m_cell_adj cl ! unat (Index2D_idx (m_cell_adj_indexer cl) (of_nat k) (of_nat c)))
     [0..<unat (Index2D_getW (m_cell_adj_indexer cl))]"

lemma cell_entries_eq:
  assumes "cells_ok ndim pd cl" "dims_bounded (m_dim cl)" "c < cell_count (m_dim cl)"
  shows "cell_entries cl c = map (\<lambda>n. (fst (m_pos (m_arrays pd) ! n), entry_flag pd cl n))
    (filter (\<lambda>n. inside pd n \<and> cell_number (m_dim cl) (bin_of pd (m_dim cl) n) = c) (all_particles pd))"
proof -
  let ?d = "m_dim cl" and ?C = "cell_count (m_dim cl)"
  let ?ps = "members pd (m_dim cl) (all_particles pd) c"
  have lay: "dims_ok ndim ?d" "c_Nmax cl * ?C < 2 ^ 32" "m_cell_list_indexer cl = Index2D_rect (of_nat (c_Nmax cl)) (of_nat ?C)"
    using assms(1) by (simp_all add: cells_ok_def layout_ok_def Let_def)
  have ps: "?ps = filter (\<lambda>n. inside pd n \<and> cell_number ?d (bin_of pd ?d n) = c) (all_particles pd)"
    by (simp add: members_def addressable_iff [OF lay(1) assms(2)])
  have b: "m_cell_size cl ! c = length ?ps" "\<And>k. k < min (length ?ps) (c_Nmax cl) \<Longrightarrow> holds pd cl (c * c_Nmax cl + k) (?ps ! k)" "length ?ps \<le> c_Nmax cl"
    using assms(1,3) by (simp_all add: cells_ok_def binned_def Let_def)
  have "cell_entries cl c ! k = (fst (m_pos (m_arrays pd) ! (?ps ! k)), entry_flag pd cl (?ps ! k))" if "k < length ?ps" for k
  proof -
    have k: "k < c_Nmax cl" using that b(3) by simp
    have "unat (Index2D_idx (m_cell_list_indexer cl) (of_nat k) (of_nat c)) = c * c_Nmax cl + k"
      unfolding lay(3) by (rule rect_idx [OF lay(2) k assms(3)])
    then show ?thesis using b(2) [of k] that k by (simp add: cell_entries_def b(1) holds_def Let_def)
  qed
  then have "cell_entries cl c = map (\<lambda>n. (fst (m_pos (m_arrays pd) ! n), entry_flag pd cl n)) ?ps"
    by (intro nth_equalityI) (simp_all add: cell_entries_def b(1))
  then show ?thesis by (simp only: ps)
qed

lemma cell_neighbors_eq:
  assumes "layout_ok ndim cl" "p \<in> cell_range (m_dim cl)"
  shows "cell_neighbors cl (cell_number (m_dim cl) p) = adjacency ndim (m_radius cl) (m_dim cl) p"
proof -
  let ?d = "m_dim cl" and ?C = "cell_count (m_dim cl)" and ?W = "adj_width ndim (m_radius cl) (m_dim cl)"
  have lay: "dims_ok ndim ?d" "?W * ?C < 2 ^ 32" "m_cell_adj_indexer cl = Index2D_rect (of_nat ?W) (of_nat ?C)"
    "\<forall>p \<in> cell_range ?d. \<forall>k < ?W. m_cell_adj cl ! (cell_number ?d p * ?W + k) = adjacency ndim (m_radius cl) ?d p ! k"
    using assms(1) by (simp_all add: layout_ok_def Let_def)
  have lt: "cell_number ?d p < ?C" by (rule cell_number_less [OF assms(2)])
  have "?W * 1 \<le> ?W * ?C" using lt by (intro mult_le_mono2) simp
  then have "?W < 2 ^ 32" using lay(2) unfolding mult_1_right by linarith
  then have W: "unat (Index2D_getW (m_cell_adj_indexer cl)) = ?W"
    by (simp add: lay(3) Index2D_getW_def Index2D_rect_def unat_of_nat_small)
  have "cell_neighbors cl (cell_number ?d p) ! k = adjacency ndim (m_radius cl) ?d p ! k" if "k < ?W" for k
  proof -
    have "unat (Index2D_idx (m_cell_adj_indexer cl) (of_nat k) (of_nat (cell_number ?d p))) = cell_number ?d p * ?W + k"
      unfolding lay(3) by (rule rect_idx [OF lay(2) that lt])
    then show ?thesis using lay(4) assms(2) that by (simp add: cell_neighbors_def W)
  qed
  then show ?thesis by (intro nth_equalityI) (simp_all add: cell_neighbors_def W length_adjacency [OF lay(1)])
qed

lemma set_adjacency: "set (adjacency ndim r d p) = cell_number d ` neighborhood ndim r d p"
  by (simp add: adjacency_def)

text \<open>C9: the cell list is complete. If no local particle is outside of the box, \<open>compute\<close> returns,
  however often a cell overflows, with a list in which every cell has exactly its particles, ghosts included, in
  the order of their indices, and every cell has its adjacent cells, none twice; two particles within the
  nominal width, through any periodic image, are in adjacent cells. With a particle outside, the call fails.\<close>

theorem cell_list_complete:
  assumes "cells_callable ndim pd timestep cl" "1 \<le> m_radius cl"
  shows "(locals_inside pd \<longrightarrow> (\<exists>cl'. cells_compute ndim pd timestep cl = Some (Inr cl')
      \<and> (\<forall>c < cell_count (m_dim cl'). cell_entries cl' c = map (\<lambda>n. (fst (m_pos (m_arrays pd) ! n), entry_flag pd cl n))
            (filter (\<lambda>n. inside pd n \<and> cell_number (m_dim cl') (bin_of pd (m_dim cl') n) = c) [0..<m_nparticles pd + m_nghosts pd])
          \<and> distinct (cell_neighbors cl' c))
      \<and> (\<forall>i j n. proper pd i \<and> proper pd j \<and> n \<in> images_of (m_box pd)
          \<and> near_image pd (m_nominal_width cl) i j n
          \<longrightarrow> cell_number (m_dim cl') (bin_of pd (m_dim cl') j) \<in> set (cell_neighbors cl' (cell_number (m_dim cl') (bin_of pd (m_dim cl') i))))))
    \<and> (\<not> locals_inside pd \<longrightarrow> (\<exists>e. cells_compute ndim pd timestep cl = Some (Inl e)))"
proof (intro conjI impI)
  assume "\<not> locals_inside pd"
  then show "\<exists>e. cells_compute ndim pd timestep cl = Some (Inl e)" using cells_compute_spec [OF assms(1)] by simp
next
  assume "locals_inside pd"
  then obtain cl' where cl': "cells_compute ndim pd timestep cl = Some (Inr cl')" "cells_ok ndim pd cl'" "cells_state ndim pd cl'"
    "user_settings cl' = user_settings cl" using cells_compute_spec [OF assms(1)] by auto
  let ?d = "m_dim cl'"
  have u: "m_radius cl' = m_radius cl" "m_nominal_width cl' = m_nominal_width cl" "\<And>n. entry_flag pd cl' n = entry_flag pd cl n"
    using cl'(4) by (simp_all add: user_settings_def entry_flag_def)
  have d: "dims_bounded ?d" "dims_ok ndim ?d" "layout_ok ndim cl'" using cl'(3) by (simp_all add: cells_state_def dims_fit_def Let_def)
  have dist: "distinct (cell_neighbors cl' c)" if "c < cell_count ?d" for c
  proof -
    have "c \<in> cell_number ?d ` cell_range ?d" using that cell_number_bij [of ?d] by (simp add: bij_betw_def)
    then obtain p where p: "p \<in> cell_range ?d" "c = cell_number ?d p" by blast
    show ?thesis unfolding p(2) cell_neighbors_eq [OF d(3) p(1)] by (simp add: adjacency_def)
  qed
  have near: "cell_number ?d (bin_of pd ?d j) \<in> set (cell_neighbors cl' (cell_number ?d (bin_of pd ?d i)))"
    if "proper pd i" "proper pd j" "n \<in> images_of (m_box pd)"
      "near_image pd (m_nominal_width cl) i j n" for i j n
  proof -
    have "addressable pd ?d i" using that(1) addressable_iff [OF d(2,1)] by (simp add: proper_def proper_along_def inside_def Let_def)
    then have "bin_of pd ?d i \<in> cell_range ?d" using bin_of_range(1) d(1) by blast
    note eq = cell_neighbors_eq [OF d(3) this]
    show ?thesis using neighbor_in_adjacent_cell [OF cl'(3) that(1-3)] assms(2) that(4) by (simp add: eq set_adjacency u)
  qed
  show "\<exists>cl'. cells_compute ndim pd timestep cl = Some (Inr cl')
      \<and> (\<forall>c < cell_count (m_dim cl'). cell_entries cl' c = map (\<lambda>n. (fst (m_pos (m_arrays pd) ! n), entry_flag pd cl n))
            (filter (\<lambda>n. inside pd n \<and> cell_number (m_dim cl') (bin_of pd (m_dim cl') n) = c) [0..<m_nparticles pd + m_nghosts pd])
          \<and> distinct (cell_neighbors cl' c))
      \<and> (\<forall>i j n. proper pd i \<and> proper pd j \<and> n \<in> images_of (m_box pd)
          \<and> near_image pd (m_nominal_width cl) i j n
          \<longrightarrow> cell_number (m_dim cl') (bin_of pd (m_dim cl') j) \<in> set (cell_neighbors cl' (cell_number (m_dim cl') (bin_of pd (m_dim cl') i))))"
    using cl'(1) cell_entries_eq [OF cl'(2) d(1)] dist near by (intro exI [of _ cl']) (auto simp: u)
qed

section \<open>Examples\<close>

text \<open>Two particles at distance 1 in a cube, and a third in its corner.\<close>

definition example_particles :: ParticleData where
  "example_particles = ParticleData_null\<lparr>m_box := BoxDim_cube 4, m_global_box := BoxDim_cube 4, m_type_mapping := [''A''],
     m_nparticles := 3, m_max_nparticles := 3, m_nglobal := 3, m_tag_set := [0, 1, 2], m_rtag := [0, 1, 2], m_rtag_size := 3,
     m_arrays := (arrays_new 3)\<lparr>m_pos := [(Vec3 0 0 0, 0), (Vec3 1 0 0, 0), (Vec3 (- 2) (- 2) (- 2), 0)], m_tag := [0, 1, 2],
       m_body := [NO_BODY, NO_BODY, NO_BODY], m_diameter := [1, 1, 1]\<rparr>\<rparr>"

lemma example_particles_simps [simp]:
  "m_nparticles example_particles = 3" "m_nghosts example_particles = 0" "m_box example_particles = BoxDim_cube 4"
  "m_pos (m_arrays example_particles) = [(Vec3 0 0 0, 0), (Vec3 1 0 0, 0), (Vec3 (- 2) (- 2) (- 2), 0)]"
  by (simp_all add: example_particles_def ParticleData_null_def)

lemma example_cube: "box_ok (BoxDim_cube 4)" "m_periodic (BoxDim_cube 4) = all_periodic" "getNearestPlaneDistance (BoxDim_cube 4) = Vec3 4 4 4"
  by (simp_all add: box_constructor_defs box_ok_def getNearestPlaneDistance_def rsqrt_def Let_def vec3_eq_iff)

lemma example_fractions [simp]:
  "fraction example_particles 0 = Vec3 (1/2) (1/2) (1/2)" "fraction example_particles (Suc 0) = Vec3 (3/4) (1/2) (1/2)"
  "fraction example_particles 2 = Vec3 0 0 0"
  by (simp_all add: fraction_def vec3_eq_iff makeFraction_components [OF example_cube(1)]) (simp_all add: box_constructor_defs Let_def)

lemma example_proper: "n < 3 \<Longrightarrow> proper example_particles n"
proof -
  assume "n < 3"
  then consider "n = 0" | "n = Suc 0" | "n = 2" by linarith
  then show ?thesis by cases (simp_all add: proper_def proper_along_def inside_along_def out_of_bounds_def Let_def)
qed

lemma example_callable: "cells_callable 3 example_particles 0 CellList_new"
proof -
  have "cast_int 4 = 4" by (simp add: cast_int_def)
  then have "computeDimensions 3 example_particles CellList_new = Tri 4 4 4"
    by (simp add: computeDimensions_def example_cube CellList_new_def roundDown_def Let_def)
  then show ?thesis
    by (simp add: cells_callable_def example_cube dims_bounded_def cells_fit_def cell_count_def adj_width_def needs_compute_def)
      (simp add: CellList_new_def)
qed

theorem cell_list_complete_witness:
  "\<exists>cl'. cells_compute 3 example_particles 0 CellList_new = Some (Inr cl')
    \<and> cell_number (m_dim cl') (bin_of example_particles (m_dim cl') 1)
        \<in> set (cell_neighbors cl' (cell_number (m_dim cl') (bin_of example_particles (m_dim cl') 0)))"
proof -
  have ins: "locals_inside example_particles"
    using example_proper by (simp add: locals_inside_def inside_def proper_def proper_along_def Let_def)
  have "Tri 0 0 0 \<in> images_of (m_box example_particles)" by (simp add: images_of_def)
  moreover have "near_image example_particles (m_nominal_width CellList_new) 0 1 (Tri 0 0 0)"
    by (simp add: near_image_def CellList_new_def dot_def)
  ultimately show ?thesis
    using cell_list_complete [OF example_callable] ins example_proper [of 0] example_proper [of 1] by (fastforce simp: CellList_new_def)
qed

end
