(* ===== verification/Neighbor_Rows.thy ===== *)
theory Neighbor_Rows
  imports Neighbor_List Cell_List_Correct
begin

text \<open>
  The memory of a neighbor list: rows that follow each other, stored neighbor by neighbor with the length
  that is needed when a row overflows; the locale \<open>nlist_builder\<close> states what a builder of lists promises and shows
  that the loop over overflows returns; exclusions are filtered out, and a rebuilt list is fresh.
\<close>

section \<open>Rows of the list\<close>

abbreviation Nmax_of :: "ParticleData \<Rightarrow> 'a NeighborList_scheme \<Rightarrow> nat \<Rightarrow> nat" where
  "Nmax_of pd nl i \<equiv> n_Nmax nl ! unat (type_of pd i)"

text \<open>One row, whatever decides on its entries.\<close>

definition push_all :: "nat \<Rightarrow> nat \<Rightarrow> nat \<Rightarrow> nat list \<Rightarrow> nat list \<times> nat list \<times> nat \<Rightarrow> nat list \<times> nat list \<times> nat" where
  "push_all Nmax_i head_i type_i js st = foldl (\<lambda>st j. push_neighbor Nmax_i head_i type_i j st) st js"

definition store_row :: "ParticleData \<Rightarrow> 'a NeighborList_scheme \<Rightarrow> nat \<Rightarrow> nat list \<Rightarrow> 'a NeighborList_scheme" where
  "store_row pd nl i js =
     (let (nlist, conditions, n) = push_all (Nmax_of pd nl i) (m_head_list nl ! i) (unat (type_of pd i)) js (m_nlist nl, n_conditions nl, 0)
      in nl\<lparr>m_nlist := nlist, n_conditions := conditions, m_n_neigh := (m_n_neigh nl)[i := n]\<rparr>)"

lemma push_all_spec:
  assumes "head + M \<le> length nlist" "tp < length cond"
  shows "\<exists>nlist' cond'. push_all M head tp js (nlist, cond, n) = (nlist', cond', n + length js)
    \<and> length nlist' = length nlist \<and> length cond' = length cond
    \<and> (\<forall>p. nlist' ! p = (if head + n \<le> p \<and> p < head + min M (n + length js) then js ! (p - head - n) else nlist ! p))
    \<and> cond' = (if M < n + length js \<and> js \<noteq> [] then cond[tp := max (cond ! tp) (n + length js)] else cond)"
  using assms
proof (induction js arbitrary: nlist cond n)
  case (Cons j js)
  show ?case
  proof (cases "n < M")
    case True
    from Cons.IH [of "nlist[head + n := j]" cond "n + 1"] Cons.prems obtain nlist' cond' where
      r: "push_all M head tp js (nlist[head + n := j], cond, n + 1) = (nlist', cond', n + 1 + length js)"
      "length nlist' = length nlist" "length cond' = length cond"
      "\<forall>p. nlist' ! p = (if head + (n + 1) \<le> p \<and> p < head + min M (n + 1 + length js) then js ! (p - head - (n + 1)) else nlist[head + n := j] ! p)"
      "cond' = (if M < n + 1 + length js \<and> js \<noteq> [] then cond[tp := max (cond ! tp) (n + 1 + length js)] else cond)" by auto
    have "nlist' ! p = (if head + n \<le> p \<and> p < head + min M (n + length (j # js)) then (j # js) ! (p - head - n) else nlist ! p)" for p
    proof -
      consider "p < head + n" | "p = head + n" | "head + (n + 1) \<le> p" by linarith
      then show ?thesis
      proof cases
        case 2
        then show ?thesis using r(4) True Cons.prems(1) by (simp add: min_def)
      next
        case 3
        then have "p - head - n = Suc (p - head - (n + 1))" by linarith
        then show ?thesis using r(4) 3 by simp
      qed (use r(4) in simp)
    qed
    moreover have "cond' = (if M < n + length (j # js) \<and> j # js \<noteq> [] then cond[tp := max (cond ! tp) (n + length (j # js))] else cond)"
      using r(5) True by (cases js) auto
    ultimately show ?thesis using r(1-3) True by (simp add: push_all_def push_neighbor_def)
  next
    case False
    let ?c = "cond[tp := max (cond ! tp) (n + 1)]"
    from Cons.IH [of nlist ?c "n + 1"] Cons.prems obtain nlist' cond' where
      r: "push_all M head tp js (nlist, ?c, n + 1) = (nlist', cond', n + 1 + length js)"
      "length nlist' = length nlist" "length cond' = length cond"
      "\<forall>p. nlist' ! p = (if head + (n + 1) \<le> p \<and> p < head + min M (n + 1 + length js) then js ! (p - head - (n + 1)) else nlist ! p)"
      "cond' = (if M < n + 1 + length js \<and> js \<noteq> [] then ?c[tp := max (?c ! tp) (n + 1 + length js)] else ?c)" by auto
    have "cond' = cond[tp := max (cond ! tp) (n + length (j # js))]"
      using r(5) False Cons.prems(2) by (cases js) (auto simp: max_def)
    moreover have "min M (n + length (j # js)) \<le> n" "min M (n + 1 + length js) \<le> n" using False by simp_all
    ultimately show ?thesis using r(1-4) False by (auto simp: push_all_def push_neighbor_def)
  qed
qed (auto simp: push_all_def)

text \<open>The arrays of a list, and rows that follow each other without overlap.\<close>

definition nlist_sized :: "ParticleData \<Rightarrow> 'a NeighborList_scheme \<Rightarrow> bool" where
  "nlist_sized pd nl \<longleftrightarrow> m_nparticles pd \<le> length (m_head_list nl) \<and> m_nparticles pd \<le> length (m_n_neigh nl)
     \<and> length (n_Nmax nl) = Particle_Data.getNTypes pd \<and> length (n_conditions nl) = Particle_Data.getNTypes pd
     \<and> (\<forall>i < m_nparticles pd + m_nghosts pd. unat (type_of pd i) < Particle_Data.getNTypes pd)"

definition head_at :: "ParticleData \<Rightarrow> 'a NeighborList_scheme \<Rightarrow> nat \<Rightarrow> nat" where
  "head_at pd nl i = (\<Sum>k<i. Nmax_of pd nl k)"

definition heads_ok :: "ParticleData \<Rightarrow> 'a NeighborList_scheme \<Rightarrow> bool" where
  "heads_ok pd nl \<longleftrightarrow> (\<forall>i < m_nparticles pd. m_head_list nl ! i = head_at pd nl i) \<and> head_at pd nl (m_nparticles pd) \<le> length (m_nlist nl)"

lemma head_at_mono: "i \<le> j \<Longrightarrow> head_at pd nl i \<le> head_at pd nl j"
  unfolding head_at_def by (rule sum_mono2) auto

lemma head_at_Suc: "head_at pd nl (Suc i) = head_at pd nl i + Nmax_of pd nl i"
  by (simp add: head_at_def)

text \<open>All that a builder changes.\<close>

definition rows_frame :: "'a NeighborList_scheme \<Rightarrow> NeighborList" where
  "rows_frame nl = (NeighborList.truncate nl)\<lparr>m_nlist := [], n_conditions := [], m_n_neigh := []\<rparr>"

lemma rows_frame_eq:
  assumes "rows_frame a = rows_frame b"
  shows "n_Nmax a = n_Nmax b" "m_head_list a = m_head_list b"
proof -
  have "n_Nmax (rows_frame a) = n_Nmax (rows_frame b)" "m_head_list (rows_frame a) = m_head_list (rows_frame b)" using assms by simp_all
  then show "n_Nmax a = n_Nmax b" "m_head_list a = m_head_list b" by (simp_all add: rows_frame_def NeighborList.defs)
qed

lemma rows_frame_store [simp]: "rows_frame (store_row pd nl i js) = rows_frame nl"
  by (simp add: rows_frame_def store_row_def NeighborList.defs split: prod.split)

lemma rows_frame_fold: "rows_frame (foldl (\<lambda>nl i. store_row pd nl i (w i)) nl is) = rows_frame nl"
  by (induction "is" arbitrary: nl) simp_all

text \<open>The rows \<open>w\<close> have been stored for the first \<open>M\<close> particles.\<close>

definition rows_stored :: "ParticleData \<Rightarrow> (nat \<Rightarrow> nat list) \<Rightarrow> nat \<Rightarrow> 'a NeighborList_scheme \<Rightarrow> 'a NeighborList_scheme \<Rightarrow> bool" where
  "rows_stored pd w M nl nl' \<longleftrightarrow> rows_frame nl' = rows_frame nl
     \<and> length (m_nlist nl') = length (m_nlist nl) \<and> length (n_conditions nl') = length (n_conditions nl)
     \<and> length (m_n_neigh nl') = length (m_n_neigh nl)
     \<and> (\<forall>i < M. m_n_neigh nl' ! i = length (w i))
     \<and> (\<forall>i < M. \<forall>k < min (Nmax_of pd nl i) (length (w i)). m_nlist nl' ! (head_at pd nl i + k) = w i ! k)
     \<and> (\<forall>i < M. Nmax_of pd nl i < length (w i) \<longrightarrow> length (w i) \<le> n_conditions nl' ! unat (type_of pd i))
     \<and> (\<forall>tp < length (n_conditions nl). n_conditions nl' ! tp = n_conditions nl ! tp
          \<or> (\<exists>i < M. unat (type_of pd i) = tp \<and> n_conditions nl' ! tp = length (w i) \<and> n_Nmax nl ! tp < length (w i)))
     \<and> (\<forall>tp < length (n_conditions nl). n_conditions nl ! tp \<le> n_conditions nl' ! tp)"

lemma rows_storedD:
  assumes "rows_stored pd w M nl nl'"
  shows "rows_frame nl' = rows_frame nl" "n_Nmax nl' = n_Nmax nl" "m_head_list nl' = m_head_list nl"
    "length (m_nlist nl') = length (m_nlist nl)" "length (n_conditions nl') = length (n_conditions nl)"
    "length (m_n_neigh nl') = length (m_n_neigh nl)"
    "i < M \<Longrightarrow> m_n_neigh nl' ! i = length (w i)"
    "i < M \<Longrightarrow> k < min (Nmax_of pd nl i) (length (w i)) \<Longrightarrow> m_nlist nl' ! (head_at pd nl i + k) = w i ! k"
    "i < M \<Longrightarrow> Nmax_of pd nl i < length (w i) \<Longrightarrow> length (w i) \<le> n_conditions nl' ! unat (type_of pd i)"
    "tp < length (n_conditions nl) \<Longrightarrow> n_conditions nl' ! tp = n_conditions nl ! tp
       \<or> (\<exists>i < M. unat (type_of pd i) = tp \<and> n_conditions nl' ! tp = length (w i) \<and> n_Nmax nl ! tp < length (w i))"
    "tp < length (n_conditions nl) \<Longrightarrow> n_conditions nl ! tp \<le> n_conditions nl' ! tp"
  using assms rows_frame_eq [of nl' nl] by (simp_all add: rows_stored_def)

lemma store_rows:
  assumes sz: "nlist_sized pd nl" and heads: "heads_ok pd nl" and M: "M \<le> m_nparticles pd"
  shows "rows_stored pd w M nl (foldl (\<lambda>nl i. store_row pd nl i (w i)) nl [0..<M])"
  using M
proof (induction M)
  case 0
  show ?case by (simp add: rows_stored_def)
next
  case (Suc M)
  let ?a = "foldl (\<lambda>nl i. store_row pd nl i (w i)) nl [0..<M]"
  let ?t = "unat (type_of pd M)" and ?N = "Nmax_of pd nl M" and ?h = "head_at pd nl M" and ?len = "length (w M)"
  have IH: "rows_stored pd w M nl ?a" using Suc by simp
  note a = rows_storedD [OF IH]
  have M: "M < m_nparticles pd" using Suc.prems by simp
  have t: "?t < length (n_conditions nl)" using sz M by (simp add: nlist_sized_def)
  have h: "m_head_list nl ! M = ?h" using heads M by (simp add: heads_ok_def)
  have "head_at pd nl (Suc M) \<le> head_at pd nl (m_nparticles pd)" by (rule head_at_mono [OF Suc.prems])
  then have room: "?h + ?N \<le> length (m_nlist nl)" using heads by (simp add: heads_ok_def head_at_Suc)
  from push_all_spec [of ?h ?N "m_nlist ?a" ?t "n_conditions ?a" "w M" 0] room t a(4,5) obtain nlist' cond' where
    p: "push_all ?N ?h ?t (w M) (m_nlist ?a, n_conditions ?a, 0) = (nlist', cond', ?len)"
    "length nlist' = length (m_nlist nl)" "length cond' = length (n_conditions nl)"
    "\<forall>p. nlist' ! p = (if ?h \<le> p \<and> p < ?h + min ?N ?len then w M ! (p - ?h) else m_nlist ?a ! p)"
    "cond' = (if ?N < ?len \<and> w M \<noteq> [] then (n_conditions ?a)[?t := max (n_conditions ?a ! ?t) ?len] else n_conditions ?a)" by auto
  have s: "foldl (\<lambda>nl i. store_row pd nl i (w i)) nl [0..<Suc M]
      = ?a\<lparr>m_nlist := nlist', n_conditions := cond', m_n_neigh := (m_n_neigh ?a)[M := ?len]\<rparr>" (is "_ = ?b")
  proof -
    have "foldl (\<lambda>nl i. store_row pd nl i (w i)) nl [0..<Suc M] = store_row pd ?a M (w M)" by simp
    also have "\<dots> = ?b" using p(1) by (simp only: store_row_def [of pd ?a M "w M"] a(2,3) h Let_def prod.case)
    finally show ?thesis .
  qed
  have frame: "rows_frame ?b = rows_frame nl" using a(1) by (simp add: rows_frame_def NeighborList.defs)
  have n: "\<forall>i < Suc M. m_n_neigh ?b ! i = length (w i)"
    using a(6,7) sz M by (auto simp: nlist_sized_def less_Suc_eq)
  have l: "m_nlist ?b ! (head_at pd nl i + k) = w i ! k" if "i < Suc M" "k < min (Nmax_of pd nl i) (length (w i))" for i k
  proof (cases "i = M")
    case True
    then show ?thesis using that(2) p(4) by simp
  next
    case False
    then have i: "i < M" using that(1) by simp
    then have "head_at pd nl (Suc i) \<le> ?h" by (intro head_at_mono) simp
    then have "head_at pd nl i + k < ?h" using that(2) by (simp add: head_at_Suc)
    then show ?thesis using p(4) a(8) [OF i that(2)] by simp
  qed
  have mono: "n_conditions ?a ! tp \<le> cond' ! tp" if "tp < length (n_conditions nl)" for tp
    using p(5) t that a(5) by (simp add: nth_list_update)
  have over: "length (w i) \<le> cond' ! unat (type_of pd i)" if "i < Suc M" "Nmax_of pd nl i < length (w i)" for i
  proof (cases "i = M")
    case True
    then show ?thesis using that(2) p(5) t a(5) by auto
  next
    case False
    have "unat (type_of pd i) < length (n_conditions nl)" using sz that(1) M by (simp add: nlist_sized_def)
    then show ?thesis using a(9) [of i] mono [of "unat (type_of pd i)"] that False by simp
  qed
  have src: "cond' ! tp = n_conditions nl ! tp \<or> (\<exists>i < Suc M. unat (type_of pd i) = tp \<and> cond' ! tp = length (w i) \<and> n_Nmax nl ! tp < length (w i))"
    if "tp < length (n_conditions nl)" for tp
  proof (cases "cond' ! tp = n_conditions ?a ! tp")
    case True
    then show ?thesis using a(10) [OF that] by (auto simp: less_Suc_eq)
  next
    case False
    then have "tp = ?t \<and> cond' ! tp = ?len \<and> ?N < ?len" using p(5) t a(5) by (auto simp: nth_list_update max_def split: if_splits)
    then show ?thesis by auto
  qed
  have up: "n_conditions nl ! tp \<le> cond' ! tp" if "tp < length (n_conditions nl)" for tp
    using mono [OF that] a(11) [OF that] by simp
  show ?case unfolding s rows_stored_def using frame p(2,3) a(6) n l over src up by simp
qed

section \<open>Addresses and conditions\<close>

lemma heads_fold:
  assumes "M \<le> length heads" "head_at pd nl M < 2 ^ 32"
  shows "\<exists>heads'. foldl (\<lambda>(heads, a) i. (heads[i := a], (a + Nmax_of pd nl i) mod 2 ^ 32)) (heads, 0) [0..<M] = (heads', head_at pd nl M)
    \<and> length heads' = length heads \<and> (\<forall>i < M. heads' ! i = head_at pd nl i)"
  using assms
proof (induction M)
  case (Suc M)
  have "head_at pd nl M + Nmax_of pd nl M < 2 ^ 32" using Suc.prems(2) by (simp add: head_at_Suc)
  with Suc.IH Suc.prems(1) obtain heads' where
    "foldl (\<lambda>(heads, a) i. (heads[i := a], (a + Nmax_of pd nl i) mod 2 ^ 32)) (heads, 0) [0..<M] = (heads', head_at pd nl M)"
    "length heads' = length heads" "\<forall>i < M. heads' ! i = head_at pd nl i" by auto
  then show ?case using Suc.prems \<open>head_at pd nl M + _ < _\<close> by (auto simp: head_at_Suc less_Suc_eq)
qed (simp add: head_at_def)

lemma nth_array_resize_total: "i < n \<Longrightarrow> array_resize v n xs ! i = (if i < length xs then xs ! i else v)"
  by (simp add: array_resize_def nth_append)

lemma buildHeadList_spec:
  assumes "nlist_sized pd nl" "head_at pd nl (m_nparticles pd) < 2 ^ 31"
  shows "\<exists>heads nlist. buildHeadList pd nl = nl\<lparr>m_head_list := heads, m_nlist := nlist\<rparr>
    \<and> nlist_sized pd (buildHeadList pd nl) \<and> heads_ok pd (buildHeadList pd nl)"
proof -
  let ?N = "m_nparticles pd"
  obtain heads where h: "foldl (\<lambda>(heads, a) i. (heads[i := a], (a + Nmax_of pd nl i) mod 2 ^ 32)) (m_head_list nl, 0) [0..<?N] = (heads, head_at pd nl ?N)"
    "length heads = length (m_head_list nl)" "\<forall>i < ?N. heads ! i = head_at pd nl i"
    using heads_fold [of ?N "m_head_list nl" pd nl] assms by (auto simp: nlist_sized_def)
  have e: "buildHeadList pd nl = resizeNlist (head_at pd nl ?N) (nl\<lparr>m_head_list := heads\<rparr>)"
    unfolding buildHeadList_def using h(1) by simp
  obtain nlist where r: "buildHeadList pd nl = nl\<lparr>m_head_list := heads, m_nlist := nlist\<rparr>" "head_at pd nl ?N \<le> length nlist"
  proof (cases "head_at pd nl ?N > length (m_nlist nl)")
    case True
    then show ?thesis
      using that [of "array_resize 0 (grow_until (head_at pd nl ?N) (if length (m_nlist nl) \<noteq> 0 then length (m_nlist nl) else 1)) (m_nlist nl)"]
        grow_until_bounds(1) by (simp add: e resizeNlist_def)
  next
    case False
    then show ?thesis using that [of "m_nlist nl"] by (simp add: e resizeNlist_def)
  qed
  have "head_at pd (nl\<lparr>m_head_list := heads, m_nlist := nlist\<rparr>) = head_at pd nl" by (rule ext) (simp add: head_at_def)
  then have "heads_ok pd (nl\<lparr>m_head_list := heads, m_nlist := nlist\<rparr>)" using h(3) r(2) by (simp add: heads_ok_def)
  moreover have "nlist_sized pd (nl\<lparr>m_head_list := heads, m_nlist := nlist\<rparr>)" using assms(1) h(2) by (simp add: nlist_sized_def)
  ultimately show ?thesis using r(1) by auto
qed

definition round8 :: "nat \<Rightarrow> nat" where
  "round8 c = (if c > 8 then (c + 7) div 8 * 8 else 8)"

lemma round8_bounds: "c \<le> round8 c" "round8 c \<le> c + 8"
  by (simp_all add: round8_def) linarith+

lemma round8_mono: "a \<le> b \<Longrightarrow> round8 a \<le> round8 b"
  using div_le_mono [of "a + 7" "b + 7" 8] by (auto simp: round8_def)

lemma conditions_fold:
  assumes "M \<le> length nmax"
  shows "\<exists>nmax'. foldl (\<lambda>(nmax, res) i. let c = cond ! i in if c > nmax ! i then (nmax[i := round8 c], True) else (nmax, res)) (nmax, False) [0..<M]
      = (nmax', \<exists>i < M. cond ! i > nmax ! i)
    \<and> length nmax' = length nmax \<and> (\<forall>i. nmax' ! i = (if i < M \<and> cond ! i > nmax ! i then round8 (cond ! i) else nmax ! i))"
  using assms
proof (induction M)
  case (Suc M)
  then obtain nmax' where
    "foldl (\<lambda>(nmax, res) i. let c = cond ! i in if c > nmax ! i then (nmax[i := round8 c], True) else (nmax, res)) (nmax, False) [0..<M]
      = (nmax', \<exists>i < M. cond ! i > nmax ! i)"
    "length nmax' = length nmax" "\<forall>i. nmax' ! i = (if i < M \<and> cond ! i > nmax ! i then round8 (cond ! i) else nmax ! i)" by auto
  then show ?case using Suc.prems by (auto simp: Let_def less_Suc_eq nth_list_update)
qed simp

definition overflows :: "ParticleData \<Rightarrow> 'a NeighborList_scheme \<Rightarrow> bool" where
  "overflows pd nl \<longleftrightarrow> (\<exists>tp < Particle_Data.getNTypes pd. n_conditions nl ! tp > n_Nmax nl ! tp)"

lemma checkConditions_spec:
  assumes "nlist_sized pd nl"
  shows "\<exists>nmax. checkConditions_nlist pd nl = (overflows pd nl, nl\<lparr>n_Nmax := nmax\<rparr>) \<and> length nmax = length (n_Nmax nl)
    \<and> (\<forall>tp < Particle_Data.getNTypes pd. nmax ! tp = (if n_conditions nl ! tp > n_Nmax nl ! tp then round8 (n_conditions nl ! tp) else n_Nmax nl ! tp))"
proof -
  obtain nmax' where n: "foldl (\<lambda>(nmax, res) i. let c = n_conditions nl ! i in if c > nmax ! i then (nmax[i := round8 c], True) else (nmax, res))
      (n_Nmax nl, False) [0..<Particle_Data.getNTypes pd] = (nmax', overflows pd nl)"
    "length nmax' = length (n_Nmax nl)"
    "\<forall>i. nmax' ! i = (if i < Particle_Data.getNTypes pd \<and> n_conditions nl ! i > n_Nmax nl ! i then round8 (n_conditions nl ! i) else n_Nmax nl ! i)"
    using conditions_fold [of "Particle_Data.getNTypes pd" "n_Nmax nl" "n_conditions nl"] assms by (auto simp: nlist_sized_def overflows_def)
  then have "checkConditions_nlist pd nl = (overflows pd nl, nl\<lparr>n_Nmax := nmax'\<rparr>)"
    unfolding checkConditions_nlist_def round8_def [symmetric] by simp
  then show ?thesis using n(2,3) by auto
qed

lemma checkConditions_fits:
  assumes "nlist_sized pd nl" "\<not> overflows pd nl"
  shows "checkConditions_nlist pd nl = (False, nl)"
proof -
  obtain nmax where n: "checkConditions_nlist pd nl = (False, nl\<lparr>n_Nmax := nmax\<rparr>)" "length nmax = length (n_Nmax nl)"
    "\<forall>tp < Particle_Data.getNTypes pd. nmax ! tp = (if n_conditions nl ! tp > n_Nmax nl ! tp then round8 (n_conditions nl ! tp) else n_Nmax nl ! tp)"
    using checkConditions_spec [OF assms(1)] assms(2) by auto
  have "nmax = n_Nmax nl"
    by (rule nth_equalityI) (use n assms in \<open>auto simp: nlist_sized_def overflows_def\<close>)
  then show ?thesis using n(1) by simp
qed

section \<open>What belongs into the list\<close>

definition pair_within :: "ParticleData \<Rightarrow> 'a NeighborList_scheme \<Rightarrow> nat \<Rightarrow> nat \<Rightarrow> bool" where
  "pair_within pd nl i j \<longleftrightarrow>
     (let pair = type_pair nl (type_of pd i) (type_of pd j); r_cut = m_r_cut nl ! pair;
          dx = minImage (m_box pd) (pos_of pd i - pos_of pd j)
      in i \<noteq> j \<and> 0 < r_cut \<and> \<not> same_body pd nl i j \<and> dot dx dx \<le> m_r_listsq nl ! pair + sqshift pd nl (r_cut + m_r_buff nl) i j)"

definition accepted :: "ParticleData \<Rightarrow> 'a NeighborList_scheme \<Rightarrow> nat \<Rightarrow> nat set" where
  "accepted pd nl i = {j. j < m_nparticles pd + m_nghosts pd \<and> pair_within pd nl i j \<and> stored nl i j}"

lemma finite_accepted [simp]: "finite (accepted pd nl i)"
  by (simp add: accepted_def)

text \<open>The fields that memory management changes; nothing else matters for acceptance.\<close>

definition memory_frame :: "'a NeighborList_scheme \<Rightarrow> NeighborList" where
  "memory_frame nl = (NeighborList.truncate nl)\<lparr>m_nlist := [], n_conditions := [], m_n_neigh := [], n_Nmax := [], m_head_list := []\<rparr>"

lemma memory_frame_rows: "rows_frame a = rows_frame b \<Longrightarrow> memory_frame a = memory_frame b"
proof -
  assume a: "rows_frame a = rows_frame b"
  have "memory_frame x = (rows_frame x)\<lparr>n_Nmax := [], m_head_list := []\<rparr>" for x :: "'b NeighborList_scheme"
    by (simp add: memory_frame_def rows_frame_def)
  moreover have "memory_frame x = (rows_frame x)\<lparr>n_Nmax := [], m_head_list := []\<rparr>" for x :: "'a NeighborList_scheme"
    by (simp add: memory_frame_def rows_frame_def)
  ultimately show ?thesis using a by simp
qed

lemma memory_frame_simps [simp]:
  "memory_frame (nl\<lparr>m_nlist := a\<rparr>) = memory_frame nl" "memory_frame (nl\<lparr>n_conditions := a\<rparr>) = memory_frame nl"
  "memory_frame (nl\<lparr>m_n_neigh := a\<rparr>) = memory_frame nl" "memory_frame (nl\<lparr>n_Nmax := a\<rparr>) = memory_frame nl"
  "memory_frame (nl\<lparr>m_head_list := a\<rparr>) = memory_frame nl"
  by (simp_all add: memory_frame_def NeighborList.defs)

lemma accepted_memory: "accepted pd (memory_frame nl) i = accepted pd nl i"
  by (simp add: accepted_def pair_within_def stored_def same_body_def sqshift_def type_pair_def memory_frame_def NeighborList.defs)

lemma accepted_frame: "memory_frame a = memory_frame b \<Longrightarrow> accepted pd a = accepted pd b"
  using accepted_memory [of pd a] accepted_memory [of pd b] by (intro ext) metis

text \<open>What acceptance depends on.\<close>

definition essence :: "'a NeighborList_scheme \<Rightarrow> Index2D \<times> Scalar list \<times> Scalar list \<times> Scalar list \<times> Scalar \<times> Scalar \<times> Scalar
    \<times> bool \<times> bool \<times> storageMode \<times> bool" where
  "essence nl = (n_typpair_idx nl, m_r_cut nl, m_r_listsq nl, m_rcut_max nl, m_rcut_max_max nl, m_r_buff nl, m_d_max nl,
     m_filter_body nl, m_diameter_shift nl, m_storage_mode nl, m_rcut_changed nl)"

lemma essence_memory: "memory_frame a = memory_frame b \<Longrightarrow> essence a = essence b"
proof -
  assume "memory_frame a = memory_frame b"
  then have "essence (memory_frame a) = essence (memory_frame b)" by simp
  then show ?thesis by (simp add: essence_def memory_frame_def NeighborList.defs)
qed

lemma accepted_essence: "essence a = essence b \<Longrightarrow> accepted pd a = accepted pd b"
  by (rule ext) (simp add: essence_def accepted_def pair_within_def stored_def same_body_def sqshift_def type_pair_def)

text \<open>The list as its readers see it.\<close>

definition nview :: "'a NeighborList_scheme \<Rightarrow> NeighborView" where
  "nview nl = \<lparr>getStorageMode = m_storage_mode nl, h_n_neigh = m_n_neigh nl, h_nlist = m_nlist nl, h_head_list = m_head_list nl\<rparr>"

definition rows_fit :: "ParticleData \<Rightarrow> 'a NeighborList_scheme \<Rightarrow> bool" where
  "rows_fit pd nl \<longleftrightarrow> heads_ok pd nl \<and> (\<forall>i < m_nparticles pd. m_n_neigh nl ! i \<le> Nmax_of pd nl i)"

definition lists :: "ParticleData \<Rightarrow> 'a NeighborList_scheme \<Rightarrow> (nat \<Rightarrow> nat set) \<Rightarrow> bool" where
  "lists pd nl A \<longleftrightarrow> rows_fit pd nl
     \<and> (\<forall>i < m_nparticles pd. distinct (neighbors (nview nl) i) \<and> set (neighbors (nview nl) i) = A i)"

definition rows_for :: "ParticleData \<Rightarrow> 'a NeighborList_scheme \<Rightarrow> (nat \<Rightarrow> nat list) \<Rightarrow> bool" where
  "rows_for pd nl w \<longleftrightarrow> (\<forall>i < m_nparticles pd. distinct (w i) \<and> set (w i) = accepted pd nl i)"

lemma rows_for_length: "rows_for pd nl w \<Longrightarrow> i < m_nparticles pd \<Longrightarrow> length (w i) = card (accepted pd nl i)"
  using distinct_card [of "w i"] by (simp add: rows_for_def)

lemma rows_stored_sized: "rows_stored pd w M nl nl' \<Longrightarrow> nlist_sized pd nl \<Longrightarrow> nlist_sized pd nl'"
  using rows_storedD(2-6) [of pd w M nl nl'] by (simp add: nlist_sized_def)

lemma head_at_cong: "n_Nmax a = n_Nmax b \<Longrightarrow> head_at pd a = head_at pd b"
  by (rule ext) (simp add: head_at_def)

lemma rows_stored_heads: "rows_stored pd w M nl nl' \<Longrightarrow> heads_ok pd nl \<Longrightarrow> heads_ok pd nl'"
  using rows_storedD(2-4) [of pd w M nl nl'] head_at_cong [of nl' nl pd] by (simp add: heads_ok_def)

text \<open>All rows fit.\<close>

lemma rows_fitting:
  assumes "rows_stored pd w (m_nparticles pd) nl nl'" "rows_for pd nl w" "nlist_sized pd nl" "heads_ok pd nl"
    "\<forall>i < m_nparticles pd. card (accepted pd nl i) \<le> Nmax_of pd nl i"
  shows "n_conditions nl' = n_conditions nl \<and> lists pd nl' (accepted pd nl)"
proof
  note s = rows_storedD [OF assms(1)] and len = rows_for_length [OF assms(2)]
  show "n_conditions nl' = n_conditions nl"
  proof (rule nth_equalityI)
    show "length (n_conditions nl') = length (n_conditions nl)" by (rule s(5))
    fix tp assume "tp < length (n_conditions nl')"
    then have "tp < length (n_conditions nl)" using s(5) by simp
    from s(10) [OF this] show "n_conditions nl' ! tp = n_conditions nl ! tp" using assms(5) len by fastforce
  qed
  have row: "neighbors (nview nl') i = w i" if "i < m_nparticles pd" for i
  proof (rule nth_equalityI)
    show "length (neighbors (nview nl') i) = length (w i)" using s(7) [OF that] by (simp add: neighbors_def nview_def)
    fix k assume "k < length (neighbors (nview nl') i)"
    then have k: "k < length (w i)" using s(7) [OF that] by (simp add: neighbors_def nview_def)
    moreover have "length (w i) \<le> Nmax_of pd nl i" using assms(5) len [OF that] that by simp
    ultimately have "m_nlist nl' ! (head_at pd nl i + k) = w i ! k" using s(8) [OF that, of k] by simp
    moreover have "m_head_list nl' ! i = head_at pd nl i" using assms(4) that s(3) by (simp add: heads_ok_def)
    ultimately show "neighbors (nview nl') i ! k = w i ! k" using k s(7) [OF that] by (simp add: neighbors_def nview_def)
  qed
  have "rows_fit pd nl'" using rows_stored_heads [OF assms(1,4)] s(2,7) len assms(5) by (simp add: rows_fit_def)
  then show "lists pd nl' (accepted pd nl)" using row assms(2) by (simp add: lists_def rows_for_def)
qed

text \<open>The entries that the type of a particle will need.\<close>

definition counts :: "ParticleData \<Rightarrow> 'a NeighborList_scheme \<Rightarrow> nat \<Rightarrow> nat set" where
  "counts pd nl tp = {card (accepted pd nl k) | k. k < m_nparticles pd \<and> unat (type_of pd k) = tp}"

definition row_need :: "ParticleData \<Rightarrow> 'a NeighborList_scheme \<Rightarrow> nat \<Rightarrow> nat" where
  "row_need pd nl tp = (let m = Max (insert 0 (counts pd nl tp)) in if m > n_Nmax nl ! tp then round8 m else n_Nmax nl ! tp)"

definition nlist_fits :: "ParticleData \<Rightarrow> 'a NeighborList_scheme \<Rightarrow> bool" where
  "nlist_fits pd nl \<longleftrightarrow> (\<Sum>i<m_nparticles pd. row_need pd nl (unat (type_of pd i))) < 2 ^ 31"

lemma finite_counts: "finite (counts pd nl tp)"
proof -
  have "counts pd nl tp \<subseteq> (\<lambda>k. card (accepted pd nl k)) ` {..<m_nparticles pd}" by (auto simp: counts_def)
  then show ?thesis by (rule finite_subset) simp
qed

lemma row_need_ge: "n_Nmax nl ! tp \<le> row_need pd nl tp"
  using round8_bounds(1) [of "Max (insert 0 (counts pd nl tp))"] by (auto simp: row_need_def Let_def)

text \<open>After an overflow there is room for the rows, and no more than needed.\<close>

lemma rows_overflow:
  assumes "rows_stored pd w (m_nparticles pd) nl nl'" "rows_for pd nl w" "nlist_sized pd nl"
    "\<forall>tp < Particle_Data.getNTypes pd. n_conditions nl ! tp = 0"
    "checkConditions_nlist pd nl' = (True, nl2)"
  shows "\<exists>nmax. nl2 = nl'\<lparr>n_Nmax := nmax\<rparr> \<and> length nmax = length (n_Nmax nl)
    \<and> (\<forall>i < m_nparticles pd. card (accepted pd nl i) \<le> nmax ! unat (type_of pd i) \<and> nmax ! unat (type_of pd i) \<le> row_need pd nl (unat (type_of pd i)))"
proof -
  let ?nt = "Particle_Data.getNTypes pd"
  note s = rows_storedD [OF assms(1)] and len = rows_for_length [OF assms(2)]
  have cl: "length (n_conditions nl) = ?nt" and ty: "\<And>i. i < m_nparticles pd \<Longrightarrow> unat (type_of pd i) < ?nt" using assms(3) by (simp_all add: nlist_sized_def)
  from checkConditions_spec [OF rows_stored_sized [OF assms(1,3)]] assms(5) obtain nmax where
    n: "nl2 = nl'\<lparr>n_Nmax := nmax\<rparr>" "length nmax = length (n_Nmax nl)"
    "\<forall>tp < ?nt. nmax ! tp = (if n_conditions nl' ! tp > n_Nmax nl ! tp then round8 (n_conditions nl' ! tp) else n_Nmax nl ! tp)" by (auto simp: s(2))
  have ge: "card (accepted pd nl i) \<le> nmax ! unat (type_of pd i)" if "i < m_nparticles pd" for i
  proof (cases "Nmax_of pd nl i < length (w i)")
    case True
    then have "length (w i) \<le> n_conditions nl' ! unat (type_of pd i)" using s(9) [OF that] by simp
    then show ?thesis using n(3) ty [OF that] len [OF that] True round8_bounds(1) [of "n_conditions nl' ! unat (type_of pd i)"] by simp
  next
    case False
    then show ?thesis using n(3) ty [OF that] len [OF that] round8_bounds(1) [of "n_conditions nl' ! unat (type_of pd i)"] by auto
  qed
  have le: "nmax ! tp \<le> row_need pd nl tp" if "tp < ?nt" for tp
  proof (cases "n_conditions nl' ! tp > n_Nmax nl ! tp")
    case True
    then have "\<exists>i < m_nparticles pd. unat (type_of pd i) = tp \<and> n_conditions nl' ! tp = length (w i)"
      using s(10) [of tp] cl that assms(4) by auto
    then have "n_conditions nl' ! tp \<in> counts pd nl tp" using len by (force simp: counts_def)
    then have m: "n_conditions nl' ! tp \<le> Max (insert 0 (counts pd nl tp))" using finite_counts by (intro Max_ge) auto
    then have "round8 (n_conditions nl' ! tp) \<le> row_need pd nl tp"
      using True round8_mono [OF m] by (simp add: row_need_def Let_def)
    then show ?thesis using n(3) that True by simp
  next
    case False
    then show ?thesis using n(3) that row_need_ge by simp
  qed
  show ?thesis using n(1,2) ge le ty by blast
qed

section \<open>The contract of a builder\<close>

text \<open>A builder that is ready stores exactly the accepted neighbors of every particle, in some order, as far as there is
  room, and stays ready, whatever happens to fields that acceptance does not depend on.\<close>

locale nlist_builder =
  fixes build :: "'a builder" and ready :: "ParticleData \<Rightarrow> nat \<Rightarrow> 'a NeighborList_scheme \<Rightarrow> bool"
  assumes builds: "ready pd t nl \<Longrightarrow> nlist_sized pd nl \<Longrightarrow> heads_ok pd nl \<Longrightarrow>
      \<exists>nl' w. build pd t nl = Some (Inr nl') \<and> rows_for pd nl w \<and> rows_stored pd w (m_nparticles pd) nl nl' \<and> ready pd t nl'"
    and ready_essence: "ready pd t nl \<Longrightarrow> essence nl' = essence nl \<Longrightarrow> NeighborList.more nl' = NeighborList.more nl \<Longrightarrow> ready pd t nl'"
begin

lemma build_fits:
  assumes "ready pd t nl" "nlist_sized pd nl" "heads_ok pd nl"
    "\<forall>tp < Particle_Data.getNTypes pd. n_conditions nl ! tp = 0"
    "\<forall>i < m_nparticles pd. card (accepted pd nl i) \<le> Nmax_of pd nl i"
  shows "\<exists>nl'. build_until_fits build pd t nl = Some (Inr nl') \<and> ready pd t nl' \<and> nlist_sized pd nl'
    \<and> n_conditions nl' = n_conditions nl \<and> n_Nmax nl' = n_Nmax nl \<and> memory_frame nl' = memory_frame nl \<and> lists pd nl' (accepted pd nl)"
proof -
  from builds [OF assms(1-3)] obtain nl' w where
    b: "build pd t nl = Some (Inr nl')" "rows_for pd nl w" "rows_stored pd w (m_nparticles pd) nl nl'" "ready pd t nl'" by blast
  note fit = rows_fitting [OF b(3,2) assms(2,3,5)]
  have sz: "nlist_sized pd nl'" by (rule rows_stored_sized [OF b(3) assms(2)])
  have "checkConditions_nlist pd nl' = (False, nl')"
    by (rule checkConditions_fits [OF sz]) (use fit assms(4) in \<open>simp add: overflows_def\<close>)
  then have "build_until_fits build pd t nl = Some (Inr nl')" by (subst build_until_fits.simps) (simp add: b(1))
  then show ?thesis using b(4) sz fit memory_frame_rows [OF rows_storedD(1) [OF b(3)]] rows_storedD(2) [OF b(3)] by blast
qed

text \<open>The loop ends after at most two rounds.\<close>

lemma build_until:
  assumes "ready pd t nl" "nlist_sized pd nl" "heads_ok pd nl"
    "\<forall>tp < Particle_Data.getNTypes pd. n_conditions nl ! tp = 0" "nlist_fits pd nl"
  shows "\<exists>nl'. build_until_fits build pd t nl = Some (Inr nl') \<and> ready pd t nl' \<and> nlist_sized pd nl'
    \<and> (\<forall>tp < Particle_Data.getNTypes pd. n_conditions nl' ! tp = 0) \<and> memory_frame nl' = memory_frame nl \<and> lists pd nl' (accepted pd nl)
    \<and> (\<forall>i < m_nparticles pd. Nmax_of pd nl' i \<le> row_need pd nl (unat (type_of pd i)))"
proof -
  from builds [OF assms(1-3)] obtain nl1 w where
    b: "build pd t nl = Some (Inr nl1)" "rows_for pd nl w" "rows_stored pd w (m_nparticles pd) nl nl1" "ready pd t nl1" by blast
  have sz: "nlist_sized pd nl1" by (rule rows_stored_sized [OF b(3) assms(2)])
  obtain ov nl2 where c: "checkConditions_nlist pd nl1 = (ov, nl2)" by (cases "checkConditions_nlist pd nl1")
  show ?thesis
  proof (cases ov)
    case True
    from rows_overflow [OF b(3,2) assms(2,4)] c True obtain nmax where
      n: "nl2 = nl1\<lparr>n_Nmax := nmax\<rparr>" "length nmax = length (n_Nmax nl)"
      "\<forall>i < m_nparticles pd. card (accepted pd nl i) \<le> nmax ! unat (type_of pd i) \<and> nmax ! unat (type_of pd i) \<le> row_need pd nl (unat (type_of pd i))"
      by auto
    have sz2: "nlist_sized pd nl2" using sz n(2) rows_storedD(2) [OF b(3)] by (simp add: n(1) nlist_sized_def)
    have "head_at pd nl2 (m_nparticles pd) \<le> (\<Sum>i<m_nparticles pd. row_need pd nl (unat (type_of pd i)))"
      unfolding head_at_def by (rule sum_mono) (use n in simp)
    then have "head_at pd nl2 (m_nparticles pd) < 2 ^ 31" using assms(5) by (simp add: nlist_fits_def)
    from buildHeadList_spec [OF sz2 this] obtain heads nlist where
      h: "buildHeadList pd nl2 = nl2\<lparr>m_head_list := heads, m_nlist := nlist\<rparr>" "nlist_sized pd (buildHeadList pd nl2)" "heads_ok pd (buildHeadList pd nl2)" by blast
    let ?nl3 = "resetConditions_nlist pd (buildHeadList pd nl2)"
    have eq: "?nl3 = nl1\<lparr>n_Nmax := nmax, m_head_list := heads, m_nlist := nlist, n_conditions := memset0 (n_conditions nl1) 0 (Particle_Data.getNTypes pd)\<rparr>"
      unfolding resetConditions_nlist_def h(1) unfolding n(1) by simp
    have frame: "memory_frame ?nl3 = memory_frame nl" using memory_frame_rows [OF rows_storedD(1) [OF b(3)]] by (simp add: eq)
    have acc: "accepted pd ?nl3 = accepted pd nl" by (rule accepted_frame [OF frame])
    have nt: "length (n_conditions nl1) = Particle_Data.getNTypes pd" using sz by (simp add: nlist_sized_def)
    have r3: "ready pd t ?nl3" by (rule ready_essence [OF b(4)]) (simp_all add: eq essence_def)
    have s3: "nlist_sized pd ?nl3" using h(2) nt by (simp add: nlist_sized_def resetConditions_nlist_def h(1) n(1))
    have h3: "heads_ok pd ?nl3"
      using h(3) head_at_cong [of ?nl3 "buildHeadList pd nl2" pd] by (simp add: heads_ok_def resetConditions_nlist_def)
    have z3: "\<forall>tp < Particle_Data.getNTypes pd. n_conditions ?nl3 ! tp = 0"
      by (simp add: eq memset0_all [OF nt])
    have f3: "\<forall>i < m_nparticles pd. card (accepted pd ?nl3 i) \<le> Nmax_of pd ?nl3 i" using n(3) by (simp add: acc) (simp add: eq)
    from build_fits [OF r3 s3 h3 z3 f3] obtain nl' where
      "build_until_fits build pd t ?nl3 = Some (Inr nl')" "ready pd t nl'" "nlist_sized pd nl'"
      "n_conditions nl' = n_conditions ?nl3" "n_Nmax nl' = n_Nmax ?nl3" "memory_frame nl' = memory_frame ?nl3" "lists pd nl' (accepted pd ?nl3)" by blast
    moreover have "n_Nmax ?nl3 = nmax" by (simp add: eq)
    moreover have "build_until_fits build pd t nl = build_until_fits build pd t ?nl3"
      by (subst build_until_fits.simps) (simp add: b(1) c True)
    ultimately show ?thesis using frame acc z3 n(3) by auto
  next
    case False
    then have no: "\<not> overflows pd nl1" using checkConditions_spec [OF sz] c by auto
    have "card (accepted pd nl i) \<le> Nmax_of pd nl i" if "i < m_nparticles pd" for i
    proof (rule ccontr)
      assume "\<not> ?thesis"
      then have "Nmax_of pd nl i < length (w i)" using rows_for_length [OF b(2) that] by simp
      then have "Nmax_of pd nl1 i < n_conditions nl1 ! unat (type_of pd i)"
        using rows_storedD(2) [OF b(3)] rows_storedD(9) [OF b(3) that] by simp
      then show False using no that sz by (auto simp: overflows_def nlist_sized_def)
    qed
    then have fits: "\<forall>i < m_nparticles pd. card (accepted pd nl i) \<le> Nmax_of pd nl i" by blast
    from build_fits [OF assms(1-4) fits] show ?thesis using assms(4) row_need_ge by fastforce
  qed
qed

end

section \<open>Filtering\<close>

definition filter_row :: "(nat \<Rightarrow> bool) \<Rightarrow> nat \<Rightarrow> nat list \<Rightarrow> nat \<Rightarrow> nat list \<times> nat" where
  "filter_row ex h nlist n = foldl (\<lambda>(nlist, m) k. let c = nlist ! (h + k) in if ex c then (nlist, m) else (nlist[h + m := c], m + 1)) (nlist, 0) [0..<n]"

lemma filter_row_spec:
  assumes "h + n \<le> length nlist"
  shows "\<exists>nlist'. filter_row ex h nlist n = (nlist', length (filter (\<lambda>c. \<not> ex c) (map (\<lambda>k. nlist ! (h + k)) [0..<n])))
    \<and> length nlist' = length nlist
    \<and> (\<forall>p. nlist' ! p = (if h \<le> p \<and> p < h + length (filter (\<lambda>c. \<not> ex c) (map (\<lambda>k. nlist ! (h + k)) [0..<n]))
          then filter (\<lambda>c. \<not> ex c) (map (\<lambda>k. nlist ! (h + k)) [0..<n]) ! (p - h) else nlist ! p))"
  using assms
proof (induction n)
  case (Suc n)
  let ?F = "\<lambda>n. filter (\<lambda>c. \<not> ex c) (map (\<lambda>k. nlist ! (h + k)) [0..<n])"
  obtain nlist' where f: "filter_row ex h nlist n = (nlist', length (?F n))" "length nlist' = length nlist"
    "\<forall>p. nlist' ! p = (if h \<le> p \<and> p < h + length (?F n) then ?F n ! (p - h) else nlist ! p)" using Suc by auto
  have le: "length (?F n) \<le> n" using length_filter_le [of "\<lambda>c. \<not> ex c" "map (\<lambda>k. nlist ! (h + k)) [0..<n]"] by simp
  then have c: "nlist' ! (h + n) = nlist ! (h + n)" using f(3) by simp
  have step: "filter_row ex h nlist (Suc n) = (if ex (nlist ! (h + n)) then (nlist', length (?F n)) else (nlist'[h + length (?F n) := nlist ! (h + n)], length (?F n) + 1))"
    using f(1) c by (simp add: filter_row_def Let_def)
  show ?case
  proof (cases "ex (nlist ! (h + n))")
    case True
    then show ?thesis using step f by simp
  next
    case False
    have room: "h + length (?F n) < length nlist'" using le Suc.prems f(2) by simp
    have F: "?F (Suc n) = ?F n @ [nlist ! (h + n)]" using False by simp
    have "nlist'[h + length (?F n) := nlist ! (h + n)] ! p
        = (if h \<le> p \<and> p < h + length (?F (Suc n)) then ?F (Suc n) ! (p - h) else nlist ! p)" for p
    proof -
      consider "p < h" | "h \<le> p" "p < h + length (?F n)" | "p = h + length (?F n)" | "h + length (?F n) < p" by linarith
      then show ?thesis unfolding F using f(3) room by cases (auto simp: nth_append)
    qed
    then show ?thesis using step False f(2) by (auto simp: F)
  qed
qed (simp add: filter_row_def)

text \<open>The indices that are excluded for a particle.\<close>

definition ex_indices :: "'a NeighborList_scheme \<Rightarrow> nat \<Rightarrow> nat set" where
  "ex_indices nl i = {m_ex_list_idx nl ! k ! i | k. k < m_n_ex_idx nl ! i}"

lemma list_ex_indices: "list_ex (\<lambda>k. m_ex_list_idx nl ! k ! i = c) [0..<m_n_ex_idx nl ! i] \<longleftrightarrow> c \<in> ex_indices nl i"
  by (auto simp: list_ex_iff ex_indices_def)

definition rows_arrays :: "ParticleData \<Rightarrow> 'a NeighborList_scheme \<Rightarrow> nat \<Rightarrow> nat list \<times> nat list" where
  "rows_arrays pd nl M = foldl (\<lambda>(nlist, n_neigh) idx.
       let (nlist, n) = filter_row (\<lambda>c. c \<in> ex_indices nl idx) (m_head_list nl ! idx) nlist (n_neigh ! idx) in (nlist, n_neigh[idx := n]))
     (m_nlist nl, m_n_neigh nl) [0..<M]"

lemma filterNlist_rows:
  "filterNlist pd nl = (let (nlist, n_neigh) = rows_arrays pd nl (m_nparticles pd) in nl\<lparr>m_nlist := nlist, m_n_neigh := n_neigh\<rparr>)"
proof -
  have "foldl (\<lambda>(nlist, new_n_neigh) cur_neigh_idx.
          let cur_neigh = nlist ! (m_head_list nl ! idx + cur_neigh_idx);
              excluded = list_ex (\<lambda>cur_ex_idx. m_ex_list_idx nl ! cur_ex_idx ! idx = cur_neigh) [0..<m_n_ex_idx nl ! idx]
          in if excluded then (nlist, new_n_neigh) else (nlist[m_head_list nl ! idx + new_n_neigh := cur_neigh], new_n_neigh + 1))
        (nlist, 0) [0..<n] = filter_row (\<lambda>c. c \<in> ex_indices nl idx) (m_head_list nl ! idx) nlist n" for idx nlist n
    by (simp add: filter_row_def list_ex_indices)
  then show ?thesis by (simp add: filterNlist_def rows_arrays_def Let_def)
qed

lemma neighbors_nview: "neighbors (nview nl) i = map (\<lambda>k. m_nlist nl ! (m_head_list nl ! i + k)) [0..<m_n_neigh nl ! i]"
  by (simp add: neighbors_def nview_def)

lemma rows_arrays_spec:
  assumes sz: "nlist_sized pd nl" and fit: "rows_fit pd nl" and M: "M \<le> m_nparticles pd"
  shows "\<exists>nlist n_neigh. rows_arrays pd nl M = (nlist, n_neigh) \<and> length nlist = length (m_nlist nl) \<and> length n_neigh = length (m_n_neigh nl)
    \<and> (\<forall>i < M. n_neigh ! i = length (filter (\<lambda>c. c \<notin> ex_indices nl i) (neighbors (nview nl) i))
        \<and> (\<forall>k < n_neigh ! i. nlist ! (head_at pd nl i + k) = filter (\<lambda>c. c \<notin> ex_indices nl i) (neighbors (nview nl) i) ! k))
    \<and> (\<forall>i. M \<le> i \<and> i < m_nparticles pd \<longrightarrow> n_neigh ! i = m_n_neigh nl ! i)
    \<and> (\<forall>p. head_at pd nl M \<le> p \<longrightarrow> nlist ! p = m_nlist nl ! p)"
  using M
proof (induction M)
  case 0
  show ?case by (simp add: rows_arrays_def)
next
  case (Suc M)
  let ?F = "\<lambda>i. filter (\<lambda>c. c \<notin> ex_indices nl i) (neighbors (nview nl) i)" and ?h = "head_at pd nl M" and ?n = "m_n_neigh nl ! M"
  from Suc obtain nlist n_neigh where r: "rows_arrays pd nl M = (nlist, n_neigh)" "length nlist = length (m_nlist nl)" "length n_neigh = length (m_n_neigh nl)"
    "\<forall>i < M. n_neigh ! i = length (?F i) \<and> (\<forall>k < n_neigh ! i. nlist ! (head_at pd nl i + k) = ?F i ! k)"
    "\<forall>i. M \<le> i \<and> i < m_nparticles pd \<longrightarrow> n_neigh ! i = m_n_neigh nl ! i" "\<forall>p. ?h \<le> p \<longrightarrow> nlist ! p = m_nlist nl ! p" by auto
  have M: "M < m_nparticles pd" using Suc.prems by simp
  have h: "m_head_list nl ! M = ?h" and n: "?n \<le> Nmax_of pd nl M" using fit M by (simp_all add: rows_fit_def heads_ok_def)
  have "head_at pd nl (Suc M) \<le> head_at pd nl (m_nparticles pd)" by (rule head_at_mono [OF Suc.prems])
  then have room: "?h + ?n \<le> length nlist" using fit n r(2) by (simp add: rows_fit_def heads_ok_def head_at_Suc)
  have row: "map (\<lambda>k. nlist ! (?h + k)) [0..<?n] = neighbors (nview nl) M" using r(6) by (simp add: neighbors_nview h)
  from filter_row_spec [OF room, of "\<lambda>c. c \<in> ex_indices nl M"] obtain nlist' where
    f: "filter_row (\<lambda>c. c \<in> ex_indices nl M) ?h nlist ?n = (nlist', length (?F M))" "length nlist' = length nlist"
    "\<forall>p. nlist' ! p = (if ?h \<le> p \<and> p < ?h + length (?F M) then ?F M ! (p - ?h) else nlist ! p)" unfolding row by blast
  have s: "rows_arrays pd nl (Suc M) = (nlist', n_neigh[M := length (?F M)])"
  proof -
    have "rows_arrays pd nl (Suc M) = (let (nlist, n_neigh) = rows_arrays pd nl M;
        (nlist, n) = filter_row (\<lambda>c. c \<in> ex_indices nl M) (m_head_list nl ! M) nlist (n_neigh ! M) in (nlist, n_neigh[M := n]))"
      by (simp add: rows_arrays_def split_def Let_def)
    then show ?thesis using r(1,5) f(1) M by (simp add: h)
  qed
  have lenF: "length (?F M) \<le> Nmax_of pd nl M"
    using n length_filter_le [of "\<lambda>c. c \<notin> ex_indices nl M" "neighbors (nview nl) M"] by (simp add: neighbors_nview)
  have MN: "M < length n_neigh" using M sz r(3) by (simp add: nlist_sized_def)
  have rows: "n_neigh[M := length (?F M)] ! i = length (?F i) \<and> (\<forall>k < n_neigh[M := length (?F M)] ! i. nlist' ! (head_at pd nl i + k) = ?F i ! k)" if "i < Suc M" for i
  proof (cases "i = M")
    case True
    then show ?thesis using f(3) MN by simp
  next
    case False
    then have i: "i < M" using that by simp
    have "m_n_neigh nl ! i \<le> Nmax_of pd nl i" using fit i M by (simp add: rows_fit_def)
    then have "length (?F i) \<le> Nmax_of pd nl i"
      using length_filter_le [of "\<lambda>c. c \<notin> ex_indices nl i" "neighbors (nview nl) i"] by (simp add: neighbors_nview)
    then have lt: "head_at pd nl i + k < ?h" if "k < length (?F i)" for k
      using that head_at_mono [of "Suc i" M pd nl] i by (simp add: head_at_Suc)
    then have "nlist' ! (head_at pd nl i + k) = nlist ! (head_at pd nl i + k)" if "k < length (?F i)" for k
      using spec [OF f(3), of "head_at pd nl i + k"] lt [OF that] by (simp add: not_le)
    then show ?thesis using r(4) i by simp
  qed
  have later: "\<forall>p. head_at pd nl (Suc M) \<le> p \<longrightarrow> nlist' ! p = m_nlist nl ! p"
    using f(3) r(6) lenF by (simp add: head_at_Suc)
  show ?case unfolding s using rows later r(2,3,5) f(2) by auto
qed

lemma filterNlist_spec:
  assumes "nlist_sized pd nl" "rows_fit pd nl"
  shows "\<exists>a b. filterNlist pd nl = nl\<lparr>m_nlist := a, m_n_neigh := b\<rparr> \<and> nlist_sized pd (filterNlist pd nl) \<and> rows_fit pd (filterNlist pd nl)
    \<and> (\<forall>i < m_nparticles pd. neighbors (nview (filterNlist pd nl)) i = filter (\<lambda>c. c \<notin> ex_indices nl i) (neighbors (nview nl) i))"
proof -
  let ?N = "m_nparticles pd"
  from rows_arrays_spec [OF assms order.refl] obtain a b where r: "rows_arrays pd nl ?N = (a, b)" "length a = length (m_nlist nl)" "length b = length (m_n_neigh nl)"
    "\<forall>i < ?N. b ! i = length (filter (\<lambda>c. c \<notin> ex_indices nl i) (neighbors (nview nl) i))
        \<and> (\<forall>k < b ! i. a ! (head_at pd nl i + k) = filter (\<lambda>c. c \<notin> ex_indices nl i) (neighbors (nview nl) i) ! k)" by auto
  have f: "filterNlist pd nl = nl\<lparr>m_nlist := a, m_n_neigh := b\<rparr>" by (simp add: filterNlist_rows r(1))
  have h: "\<forall>i < ?N. m_head_list nl ! i = head_at pd nl i" using assms(2) by (simp add: rows_fit_def heads_ok_def)
  have "neighbors (nview (filterNlist pd nl)) i = filter (\<lambda>c. c \<notin> ex_indices nl i) (neighbors (nview nl) i)" if "i < ?N" for i
    by (rule nth_equalityI) (use r(4) h that in \<open>simp_all add: f neighbors_nview [of "nl\<lparr>m_nlist := a, m_n_neigh := b\<rparr>"]\<close>)
  moreover have "nlist_sized pd (filterNlist pd nl)" using assms(1) r(3) by (simp add: f nlist_sized_def)
  moreover have "rows_fit pd (filterNlist pd nl)"
  proof -
    have "head_at pd (filterNlist pd nl) = head_at pd nl" by (rule head_at_cong) (simp add: f)
    moreover have "b ! i \<le> Nmax_of pd nl i" if "i < ?N" for i
    proof -
      have "b ! i \<le> m_n_neigh nl ! i"
        using r(4) that length_filter_le [of "\<lambda>c. c \<notin> ex_indices nl i" "neighbors (nview nl) i"] by (simp add: neighbors_nview)
      also have "\<dots> \<le> Nmax_of pd nl i" using assms(2) that by (simp add: rows_fit_def)
      finally show ?thesis .
    qed
    ultimately show ?thesis using assms(2) r(2) by (simp add: rows_fit_def heads_ok_def f)
  qed
  ultimately show ?thesis using f by blast
qed

section \<open>Exclusions by index\<close>

lemma column_update:
  assumes "n \<le> length rows"
  shows "foldl (\<lambda>rows offset. rows[offset := (rows ! offset)[idx := f offset]]) rows [0..<n]
    = map (\<lambda>k. if k < n then (rows ! k)[idx := f k] else rows ! k) [0..<length rows]"
  using assms
proof (induction n)
  case 0
  show ?case by (rule nth_equalityI) simp_all
next
  case (Suc n)
  then show ?case by (intro nth_equalityI) (auto simp: nth_list_update less_Suc_eq)
qed

text \<open>The tags that are excluded for a tag.\<close>

definition ex_tags :: "'a NeighborList_scheme \<Rightarrow> nat \<Rightarrow> nat set" where
  "ex_tags nl tag = {m_ex_list_tag nl ! k ! tag | k. k < m_n_ex_tag nl ! tag}"

definition ex_arrays_ok :: "ParticleData \<Rightarrow> 'a NeighborList_scheme \<Rightarrow> bool" where
  "ex_arrays_ok pd nl \<longleftrightarrow> \<not> m_need_reallocate_exlist nl \<and> m_nparticles pd \<le> length (m_n_ex_idx nl)
     \<and> (\<forall>row \<in> set (m_ex_list_idx nl). m_nparticles pd \<le> length row)
     \<and> (\<forall>i < m_nparticles pd. m_n_ex_tag nl ! (m_tag (m_arrays pd) ! i) \<le> length (m_ex_list_idx nl))"

definition ex_idx_fold :: "ParticleData \<Rightarrow> 'a NeighborList_scheme \<Rightarrow> nat \<Rightarrow> nat list \<times> nat list list" where
  "ex_idx_fold pd nl M = foldl (\<lambda>(n_ex, rows) idx.
       let tag = m_tag (m_arrays pd) ! idx; n = m_n_ex_tag nl ! tag
       in (n_ex[idx := n], foldl (\<lambda>rows offset. rows[offset := (rows ! offset)[idx := m_rtag pd ! (m_ex_list_tag nl ! offset ! tag)]]) rows [0..<n]))
     (m_n_ex_idx nl, m_ex_list_idx nl) [0..<M]"

lemma ex_idx_fold_spec:
  assumes ok: "ex_arrays_ok pd nl" and M: "M \<le> m_nparticles pd"
  shows "\<exists>n_ex rows. ex_idx_fold pd nl M = (n_ex, rows) \<and> length n_ex = length (m_n_ex_idx nl) \<and> length rows = length (m_ex_list_idx nl)
    \<and> (\<forall>k < length rows. length (rows ! k) = length (m_ex_list_idx nl ! k))
    \<and> (\<forall>i < M. n_ex ! i = m_n_ex_tag nl ! (m_tag (m_arrays pd) ! i)
        \<and> (\<forall>k < n_ex ! i. rows ! k ! i = m_rtag pd ! (m_ex_list_tag nl ! k ! (m_tag (m_arrays pd) ! i))))"
  using M
proof (induction M)
  case (Suc M)
  let ?tag = "m_tag (m_arrays pd) ! M"
  let ?n = "m_n_ex_tag nl ! ?tag" and ?f = "\<lambda>k. m_rtag pd ! (m_ex_list_tag nl ! k ! ?tag)"
  from Suc obtain n_ex rows where r: "ex_idx_fold pd nl M = (n_ex, rows)" "length n_ex = length (m_n_ex_idx nl)" "length rows = length (m_ex_list_idx nl)"
    "\<forall>k < length rows. length (rows ! k) = length (m_ex_list_idx nl ! k)"
    "\<forall>i < M. n_ex ! i = m_n_ex_tag nl ! (m_tag (m_arrays pd) ! i)
        \<and> (\<forall>k < n_ex ! i. rows ! k ! i = m_rtag pd ! (m_ex_list_tag nl ! k ! (m_tag (m_arrays pd) ! i)))" by auto
  let ?rows = "map (\<lambda>k. if k < ?n then (rows ! k)[M := ?f k] else rows ! k) [0..<length rows]"
  have n: "?n \<le> length rows" "M < length n_ex" using ok Suc.prems r(2,3) by (auto simp: ex_arrays_ok_def)
  have s: "ex_idx_fold pd nl (Suc M) = (n_ex[M := ?n], ?rows)"
    using r(1) column_update [OF n(1), of M ?f] by (simp add: ex_idx_fold_def Let_def)
  have w: "M < length (rows ! k)" if "k < length rows" for k
  proof -
    have "m_ex_list_idx nl ! k \<in> set (m_ex_list_idx nl)" using that r(3) by simp
    then have "m_nparticles pd \<le> length (m_ex_list_idx nl ! k)" using ok by (simp add: ex_arrays_ok_def)
    then show ?thesis using r(4) that Suc.prems by simp
  qed
  have "n_ex[M := ?n] ! i = m_n_ex_tag nl ! (m_tag (m_arrays pd) ! i)
      \<and> (\<forall>k < n_ex[M := ?n] ! i. ?rows ! k ! i = m_rtag pd ! (m_ex_list_tag nl ! k ! (m_tag (m_arrays pd) ! i)))" if "i < Suc M" for i
  proof (cases "i = M")
    case True
    then show ?thesis using n w by simp
  next
    case False
    then have i: "i < M" using that by simp
    then have "i < m_nparticles pd" using Suc.prems by simp
    then have "n_ex ! i \<le> length rows" using r(3,5) ok i by (simp add: ex_arrays_ok_def)
    then show ?thesis using r(5) i False by simp
  qed
  then show ?case unfolding s using r(2-4) by auto
qed (simp add: ex_idx_fold_def)

lemma updateExListIdx_spec:
  assumes "ex_arrays_ok pd nl"
  shows "\<exists>a b. updateExListIdx pd nl = Inr (nl\<lparr>m_n_ex_idx := a, m_ex_list_idx := b\<rparr>)
    \<and> ex_arrays_ok pd (nl\<lparr>m_n_ex_idx := a, m_ex_list_idx := b\<rparr>)
    \<and> (\<forall>i < m_nparticles pd. ex_indices (nl\<lparr>m_n_ex_idx := a, m_ex_list_idx := b\<rparr>) i = (!) (m_rtag pd) ` ex_tags nl (m_tag (m_arrays pd) ! i))"
proof -
  from ex_idx_fold_spec [OF assms order.refl] obtain a b where r: "ex_idx_fold pd nl (m_nparticles pd) = (a, b)" "length a = length (m_n_ex_idx nl)" "length b = length (m_ex_list_idx nl)"
    "\<forall>k < length b. length (b ! k) = length (m_ex_list_idx nl ! k)"
    "\<forall>i < m_nparticles pd. a ! i = m_n_ex_tag nl ! (m_tag (m_arrays pd) ! i)
        \<and> (\<forall>k < a ! i. b ! k ! i = m_rtag pd ! (m_ex_list_tag nl ! k ! (m_tag (m_arrays pd) ! i)))" by auto
  have "updateExListIdx pd nl = Inr (nl\<lparr>m_n_ex_idx := a, m_ex_list_idx := b\<rparr>)"
    using assms r(1) unfolding updateExListIdx_def ex_idx_fold_def by (simp add: ex_arrays_ok_def)
  moreover have "ex_indices (nl\<lparr>m_n_ex_idx := a, m_ex_list_idx := b\<rparr>) i = (!) (m_rtag pd) ` ex_tags nl (m_tag (m_arrays pd) ! i)"
    if "i < m_nparticles pd" for i
  proof -
    let ?t = "m_tag (m_arrays pd) ! i"
    have "ex_indices (nl\<lparr>m_n_ex_idx := a, m_ex_list_idx := b\<rparr>) i = (\<lambda>k. b ! k ! i) ` {..<a ! i}" by (auto simp: ex_indices_def)
    also have "\<dots> = (\<lambda>k. m_rtag pd ! (m_ex_list_tag nl ! k ! ?t)) ` {..<m_n_ex_tag nl ! ?t}" using r(5) that by (intro image_cong) simp_all
    also have "\<dots> = (!) (m_rtag pd) ` ex_tags nl ?t" by (auto simp: ex_tags_def)
    finally show ?thesis .
  qed
  moreover have "ex_arrays_ok pd (nl\<lparr>m_n_ex_idx := a, m_ex_list_idx := b\<rparr>)"
    using assms r(2-4) by (simp add: ex_arrays_ok_def all_set_conv_all_nth)
  ultimately show ?thesis by blast
qed

section \<open>Computing\<close>

text \<open>What the list has to contain.\<close>

definition listed :: "ParticleData \<Rightarrow> 'a NeighborList_scheme \<Rightarrow> nat \<Rightarrow> nat set" where
  "listed pd nl i = (if m_exclusions_set nl then accepted pd nl i - ex_indices nl i else accepted pd nl i)"

text \<open>The state between calls, up to the list itself.\<close>

definition nlist_state :: "ParticleData \<Rightarrow> 'a NeighborList_scheme \<Rightarrow> bool" where
  "nlist_state pd nl \<longleftrightarrow> nlist_sized pd nl \<and> m_nparticles pd \<le> length (m_last_pos nl) \<and> m_nparticles pd \<le> length (m_pos (m_arrays pd))
     \<and> (\<forall>tp < Particle_Data.getNTypes pd. n_conditions nl ! tp = 0)"

text \<open>What a rebuild leaves alone.\<close>

definition rebuild_frame :: "'a NeighborList_scheme \<Rightarrow> NeighborList" where
  "rebuild_frame nl = (memory_frame nl)\<lparr>m_last_pos := [], m_last_L := 0, m_last_L_local := 0, m_has_been_updated_once := False\<rparr>"

lemma memory_frameD:
  assumes "memory_frame a = memory_frame b"
  shows "m_exclusions_set a = m_exclusions_set b" "m_n_ex_idx a = m_n_ex_idx b" "m_ex_list_idx a = m_ex_list_idx b" "m_last_pos a = m_last_pos b"
    "rebuild_frame a = rebuild_frame b"
proof -
  have "m_exclusions_set (memory_frame a) = m_exclusions_set (memory_frame b)" "m_n_ex_idx (memory_frame a) = m_n_ex_idx (memory_frame b)"
    "m_ex_list_idx (memory_frame a) = m_ex_list_idx (memory_frame b)" "m_last_pos (memory_frame a) = m_last_pos (memory_frame b)"
    using assms by simp_all
  then show "m_exclusions_set a = m_exclusions_set b" "m_n_ex_idx a = m_n_ex_idx b" "m_ex_list_idx a = m_ex_list_idx b" "m_last_pos a = m_last_pos b"
    by (simp_all add: memory_frame_def NeighborList.defs)
  show "rebuild_frame a = rebuild_frame b" by (simp add: rebuild_frame_def assms)
qed

lemma rebuild_frame_memory: "rebuild_frame a = rebuild_frame b \<Longrightarrow> essence a = essence b"
proof -
  assume "rebuild_frame a = rebuild_frame b"
  then have "essence (rebuild_frame a) = essence (rebuild_frame b)" by simp
  then show ?thesis by (simp add: rebuild_frame_def memory_frame_def essence_def NeighborList.defs)
qed

definition rebuild :: "'a builder \<Rightarrow> ParticleData \<Rightarrow> nat \<Rightarrow> 'a NeighborList_scheme \<Rightarrow> 'a NeighborList_scheme result option" where
  "rebuild build pd timestep nl =
     (case build_until_fits build pd timestep nl of
        None \<Rightarrow> None
      | Some (Inl e) \<Rightarrow> Some (Inl e)
      | Some (Inr nl) \<Rightarrow>
          let nl = (if m_exclusions_set nl then filterNlist pd nl else nl)
          in Some (Inr ((setLastUpdatedPos pd nl)\<lparr>m_has_been_updated_once := True\<rparr>)))"

text \<open>A list that has just been built: complete, and the positions it was built for are known.\<close>

definition fresh :: "ParticleData \<Rightarrow> 'a NeighborList_scheme \<Rightarrow> bool" where
  "fresh pd nl \<longleftrightarrow> lists pd nl (listed pd nl) \<and> (\<forall>i < m_nparticles pd. m_last_pos nl ! i = pos_of pd i)
     \<and> m_last_L nl = getNearestPlaneDistance (m_global_box pd) \<and> m_last_L_local nl = getNearestPlaneDistance (m_box pd)
     \<and> m_has_been_updated_once nl"

lemma nview_cong: "m_nlist a = m_nlist b \<Longrightarrow> m_head_list a = m_head_list b \<Longrightarrow> m_n_neigh a = m_n_neigh b \<Longrightarrow>
    neighbors (nview a) = neighbors (nview b)"
  by (rule ext) (simp add: neighbors_nview)

lemma lists_cong: "m_nlist a = m_nlist b \<Longrightarrow> m_head_list a = m_head_list b \<Longrightarrow> m_n_neigh a = m_n_neigh b \<Longrightarrow> n_Nmax a = n_Nmax b \<Longrightarrow>
    lists pd a A = lists pd b A"
  using nview_cong [of a b] head_at_cong [of a b pd] by (simp add: lists_def rows_fit_def heads_ok_def)

context nlist_builder
begin

lemma rebuild_spec:
  assumes "ready pd t nl" "nlist_state pd nl" "heads_ok pd nl" "nlist_fits pd nl"
  shows "\<exists>nl'. rebuild build pd t nl = Some (Inr nl') \<and> ready pd t nl' \<and> nlist_state pd nl' \<and> fresh pd nl'
    \<and> rebuild_frame nl' = rebuild_frame nl \<and> listed pd nl' = listed pd nl
    \<and> (\<forall>i < m_nparticles pd. Nmax_of pd nl' i \<le> row_need pd nl (unat (type_of pd i)))"
proof -
  have st: "nlist_sized pd nl" "\<forall>tp < Particle_Data.getNTypes pd. n_conditions nl ! tp = 0" using assms(2) by (simp_all add: nlist_state_def)
  from build_until [OF assms(1) st(1) assms(3) st(2) assms(4)] obtain nl1 where
    b: "build_until_fits build pd t nl = Some (Inr nl1)" "ready pd t nl1" "nlist_sized pd nl1"
    "\<forall>tp < Particle_Data.getNTypes pd. n_conditions nl1 ! tp = 0" "memory_frame nl1 = memory_frame nl" "lists pd nl1 (accepted pd nl)"
    "\<forall>i < m_nparticles pd. Nmax_of pd nl1 i \<le> row_need pd nl (unat (type_of pd i))" by blast
  define nl2 where "nl2 = (if m_exclusions_set nl1 then filterNlist pd nl1 else nl1)"
  define nl3 where "nl3 = (setLastUpdatedPos pd nl2)\<lparr>m_has_been_updated_once := True\<rparr>"
  have acc: "accepted pd nl1 = accepted pd nl" by (rule accepted_essence [OF essence_memory [OF b(5)]])
  have ex: "ex_indices nl1 = ex_indices nl" using memory_frameD [OF b(5)] by (intro ext) (simp add: ex_indices_def)
  have "rows_fit pd nl1" using b(6) by (simp add: lists_def)
  from filterNlist_spec [OF b(3) this] obtain x y where
    f: "filterNlist pd nl1 = nl1\<lparr>m_nlist := x, m_n_neigh := y\<rparr>" "nlist_sized pd (filterNlist pd nl1)" "rows_fit pd (filterNlist pd nl1)"
    "\<forall>i < m_nparticles pd. neighbors (nview (filterNlist pd nl1)) i = filter (\<lambda>c. c \<notin> ex_indices nl1 i) (neighbors (nview nl1) i)" by blast
  have two: "nl2 = nl1\<lparr>m_nlist := if m_exclusions_set nl1 then x else m_nlist nl1, m_n_neigh := if m_exclusions_set nl1 then y else m_n_neigh nl1\<rparr>"
    unfolding nl2_def f(1) by (cases "m_exclusions_set nl1") simp_all
  have frame: "memory_frame nl2 = memory_frame nl" using b(5) by (simp add: two)
  have sz: "nlist_sized pd nl2" using f(2) b(3) by (simp add: nl2_def)
  have l2: "lists pd nl2 (listed pd nl)"
    using b(6) f(3,4) memory_frameD(1) [OF b(5)] ex by (auto simp: nl2_def lists_def listed_def)
  have ready2: "ready pd t nl2" by (rule ready_essence [OF b(2)]) (simp_all add: two essence_def)
  have ess: "essence nl3 = essence nl2" by (simp add: nl3_def setLastUpdatedPos_def essence_def)
  have same: "listed pd nl3 = listed pd nl"
  proof -
    have "accepted pd nl3 = accepted pd nl" using accepted_essence [OF ess] accepted_essence [OF essence_memory [OF frame]] by simp
    moreover have "ex_indices nl3 = ex_indices nl" using memory_frameD [OF frame] by (intro ext) (simp add: ex_indices_def nl3_def setLastUpdatedPos_def)
    ultimately show ?thesis using memory_frameD(1) [OF frame] by (intro ext) (simp add: listed_def, simp add: nl3_def setLastUpdatedPos_def)
  qed
  have l3: "lists pd nl3 (listed pd nl3)"
    unfolding same using l2 lists_cong [of nl3 nl2 pd "listed pd nl"] by (simp add: nl3_def setLastUpdatedPos_def)
  have len: "m_nparticles pd \<le> length (m_last_pos nl2)" "m_nparticles pd \<le> length (m_pos (m_arrays pd))"
    using assms(2) memory_frameD(4) [OF frame] by (simp_all add: nlist_state_def)
  have fr: "fresh pd nl3" using l3 len by (simp add: fresh_def) (simp add: nl3_def setLastUpdatedPos_def nth_memcpy pos_of_def)
  have state: "nlist_state pd nl3"
    using sz b(4) len by (simp add: nlist_state_def nlist_sized_def nl3_def setLastUpdatedPos_def) (simp add: two)
  have ready3: "ready pd t nl3" by (rule ready_essence [OF ready2 ess]) (simp add: nl3_def setLastUpdatedPos_def)
  have "rebuild_frame nl3 = rebuild_frame nl2"
    by (simp add: rebuild_frame_def memory_frame_def nl3_def setLastUpdatedPos_def NeighborList.defs)
  then have frame3: "rebuild_frame nl3 = rebuild_frame nl" using memory_frameD(5) [OF frame] by (rule trans)
  have "rebuild build pd t nl = Some (Inr nl3)" by (simp add: rebuild_def b(1) nl2_def [symmetric] nl3_def [symmetric])
  moreover have "n_Nmax nl3 = n_Nmax nl1" by (simp add: nl3_def setLastUpdatedPos_def) (simp add: two)
  ultimately show ?thesis using ready3 state fr frame3 same b(7) by auto
qed

end

end
