(* ===== verification/Periodic_Distance.thy ===== *)
theory Periodic_Distance
  imports Cell_List_Correct
begin

text \<open>
  Distances between particles of a periodic box: the minimum image of a difference is one of its images, and
  an image that is shorter than half the box is the minimum image. The triangle inequality carries over.
\<close>

section \<open>Lengths\<close>

definition len3 :: "Scalar3 \<Rightarrow> real" where
  "len3 v = sqrt (dot v v)"

lemma len3_nonneg [simp]: "0 \<le> len3 v"
  by (simp add: len3_def dot_self_nonneg)

lemma len3_square: "(len3 v)\<^sup>2 = dot v v"
  by (simp add: len3_def dot_self_nonneg)

lemma len3_le_iff: "0 \<le> r \<Longrightarrow> len3 v \<le> r \<longleftrightarrow> dot v v \<le> r\<^sup>2"
  using power_mono_iff [of "len3 v" r 2] by (simp add: len3_square)

lemma len3_less_iff: "0 \<le> r \<Longrightarrow> len3 v < r \<longleftrightarrow> dot v v < r\<^sup>2"
  using power_mono_iff [of r "len3 v" 2] by (simp add: len3_square not_le [symmetric])

lemma len3_uminus [simp]: "len3 (- v) = len3 v"
  by (simp add: len3_def dot_def)

lemma len3_triangle: "len3 (u + v) \<le> len3 u + len3 v"
proof -
  have "dot u v \<le> len3 u * len3 v"
    using dot_row_bound [of "vx u" "vx v" "vy u" "vy v" "vz u" "vz v"] by (simp add: len3_def dot_def power2_eq_square)
  then have "dot (u + v) (u + v) \<le> (len3 u + len3 v)\<^sup>2"
    using len3_square [of u] len3_square [of v] by (simp add: power2_eq_square dot_def algebra_simps)
  then show ?thesis by (subst len3_le_iff) simp_all
qed

lemma len3_triangle3: "len3 (u - v + w) \<le> len3 u + len3 v + len3 w"
  using len3_triangle [of "u - v" w] len3_triangle [of u "- v"] by simp

lemma component_le_len3: "\<bar>vx v\<bar> \<le> len3 v" "\<bar>vy v\<bar> \<le> len3 v" "\<bar>vz v\<bar> \<le> len3 v"
proof -
  have "\<bar>c\<bar> \<le> len3 v" if "c * c \<le> dot v v" for c
    using real_sqrt_le_mono [OF that] by (simp add: len3_def)
  then show "\<bar>vx v\<bar> \<le> len3 v" "\<bar>vy v\<bar> \<le> len3 v" "\<bar>vz v\<bar> \<le> len3 v" by (simp_all add: dot_def)
qed

section \<open>Images\<close>

definition image_plus :: "int3 \<Rightarrow> int3 \<Rightarrow> int3" where
  "image_plus m n = Tri (tx m + tx n) (ty m + ty n) (tz m + tz n)"

definition image_minus :: "int3 \<Rightarrow> int3 \<Rightarrow> int3" where
  "image_minus m n = Tri (tx m - tx n) (ty m - ty n) (tz m - tz n)"

lemma lattice_image_plus: "lattice_point b (image_plus m n) = lattice_point b m + lattice_point b n"
  by (simp add: image_plus_def vec3_eq_iff algebra_simps)

lemma lattice_image_minus: "lattice_point b (image_minus m n) = lattice_point b m - lattice_point b n"
  by (simp add: image_minus_def vec3_eq_iff algebra_simps)

lemma images_of_closed: "m \<in> images_of b \<Longrightarrow> n \<in> images_of b \<Longrightarrow> image_plus m n \<in> images_of b \<and> image_minus m n \<in> images_of b"
  by (auto simp: images_of_def image_plus_def image_minus_def)

text \<open>The minimum image is an image.\<close>

lemma minImage_image: "\<exists>n \<in> images_of b. minImage b v = v + lattice_point b n"
proof -
  obtain l where l: "minImage_z b v = v + lattice_point b (Tri 0 0 l)" "tz (m_periodic b) \<or> l = 0"
  proof (cases "tz (m_periodic b)")
    case False
    then show ?thesis using that [of 0] by (simp add: minImage_z_def vec3_eq_iff)
  qed (use minImage_steps_lattice(1) that in blast)
  obtain m where m: "minImage_y b (minImage_z b v) = minImage_z b v + lattice_point b (Tri 0 m 0)" "ty (m_periodic b) \<or> m = 0"
  proof (cases "ty (m_periodic b)")
    case False
    then show ?thesis using that [of 0] by (simp add: minImage_y_def vec3_eq_iff)
  qed (use minImage_steps_lattice(2) that in blast)
  obtain k where k: "minImage b v = minImage_y b (minImage_z b v) + lattice_point b (Tri k 0 0)" "tx (m_periodic b) \<or> k = 0"
  proof (cases "tx (m_periodic b)")
    case False
    then show ?thesis using that [of 0] by (simp add: minImage_def minImage_x_def vec3_eq_iff)
  next
    case True
    from minImage_steps_lattice(3) [of b "minImage_y b (minImage_z b v)"] obtain k where
      "minImage_x b (minImage_y b (minImage_z b v)) = minImage_y b (minImage_z b v) + lattice_point b (Tri k 0 0)" by blast
    then show ?thesis using that [of k] True by (simp add: minImage_def)
  qed
  have "minImage b v = v + lattice_point b (Tri k m l)"
    unfolding k m lattice_point_add [of b k m l] using l by (simp add: ac_simps)
  moreover have "Tri k m l \<in> images_of b" using k(2) l(2) m(2) by (auto simp: images_of_def)
  ultimately show ?thesis by blast
qed

lemma small_multiple: "\<bar>of_int k * L + a\<bar> \<le> L / 2 \<Longrightarrow> \<bar>a\<bar> < L / 2 \<Longrightarrow> 0 < L \<Longrightarrow> k = (0::int)" for L a :: real
proof -
  assume a: "\<bar>of_int k * L + a\<bar> \<le> L / 2" "\<bar>a\<bar> < L / 2" "0 < L"
  then have "\<bar>of_int k * L\<bar> < L" by linarith
  then have "\<bar>of_int k :: real\<bar> * L < 1 * L" using a(3) by (simp add: abs_mult)
  then have "\<bar>of_int k :: real\<bar> < 1" using a(3) by (rule mult_right_less_imp_less [OF _ less_imp_le])
  then show "k = 0" by linarith
qed

text \<open>A short image is the minimum image, as long as its number is far from the range of \<open>int\<close>.\<close>

lemma count_near:
  assumes "0 < L" "\<bar>a\<bar> < L / 2" "\<bar>k\<bar> < 2 ^ 29"
  shows "\<bar>a - of_int k * L\<bar> \<le> 2 ^ 30 * (L::real)"
proof -
  have "real_of_int \<bar>k\<bar> \<le> real_of_int (2 ^ 29)" using assms(3) by (simp only: of_int_le_iff)
  then have "\<bar>real_of_int k\<bar> \<le> 2 ^ 29" by simp
  then have "\<bar>of_int k * L\<bar> \<le> 2 ^ 29 * L" using assms(1) by (simp add: abs_mult)
  moreover have "(2::real) ^ 30 * L = 2 * (2 ^ 29 * L)" by simp
  moreover have "L \<le> 2 ^ 29 * L" using assms(1) by simp
  ultimately show ?thesis using assms(2) by linarith
qed

lemma minImage_unique:
  assumes ok: "box_ok b" "box_centred b" and z: "\<bar>vz v\<bar> \<le> 3 / 2 * vz (m_L b)"
    and n: "n \<in> images_of b" "u = v + lattice_point b n" and small: "\<bar>tx n\<bar> < 2 ^ 29" "\<bar>ty n\<bar> < 2 ^ 29"
    and half: "tx (m_periodic b) \<longrightarrow> \<bar>vx u\<bar> < vx (m_L b) / 2" "ty (m_periodic b) \<longrightarrow> \<bar>vy u\<bar> < vy (m_L b) / 2"
      "tz (m_periodic b) \<longrightarrow> \<bar>vz u\<bar> < vz (m_L b) / 2"
  shows "minImage b v = u"
proof -
  note L = box_okD(1-3) [OF ok(1)]
  let ?z = "minImage_z b v" and ?y = "minImage_y b (minImage_z b v)"
  have nz: "tz n = 0" if "\<not> tz (m_periodic b)" using n(1) that by (simp add: images_of_def)
  have ny: "ty n = 0" if "\<not> ty (m_periodic b)" using n(1) that by (simp add: images_of_def)
  have nx: "tx n = 0" if "\<not> tx (m_periodic b)" using n(1) that by (simp add: images_of_def)
  have ez: "?z = v + lattice_point b (Tri 0 0 (tz n))"
  proof (cases "tz (m_periodic b)")
    case True
    obtain l where l: "?z = v + lattice_point b (Tri 0 0 l)" using minImage_steps_lattice(1) by blast
    have "of_int (l - tz n) * vz (m_L b) + vz u = vz ?z" by (simp add: l n(2) algebra_simps)
    then have "l - tz n = 0" using small_multiple minImage_z_range [OF ok True z] half(3) True L(3) by metis
    then show ?thesis using l by simp
  qed (simp add: nz minImage_z_def vec3_eq_iff)
  have ey: "?y = ?z + lattice_point b (Tri 0 (ty n) 0)"
  proof (cases "ty (m_periodic b)")
    case True
    obtain l where l: "?y = ?z + lattice_point b (Tri 0 l 0)" using minImage_steps_lattice(2) by blast
    have e: "vy ?z = vy u - of_int (ty n) * vy (m_L b)" by (simp add: ez n(2) algebra_simps)
    have "\<bar>vy ?z\<bar> \<le> 2 ^ 30 * vy (m_L b)" unfolding e using count_near L(2) half(2) True small(2) by blast
    note r = minImage_y_range [OF ok True this]
    have "of_int (l - ty n) * vy (m_L b) + vy u = vy ?y" unfolding l using e by (simp add: algebra_simps)
    then have "l - ty n = 0" using small_multiple r half(2) True L(2) by metis
    then show ?thesis using l by simp
  qed (simp add: ny minImage_y_def vec3_eq_iff)
  have "minImage b v = ?y + lattice_point b (Tri (tx n) 0 0)"
  proof (cases "tx (m_periodic b)")
    case True
    obtain l where l: "minImage_x b ?y = ?y + lattice_point b (Tri l 0 0)" using minImage_steps_lattice(3) by blast
    have e: "vx ?y = vx u - of_int (tx n) * vx (m_L b)" by (simp only: ey) (simp add: ez n(2) algebra_simps)
    have "\<bar>vx ?y\<bar> \<le> 2 ^ 30 * vx (m_L b)" unfolding e using count_near L(1) half(1) True small(1) by blast
    note r = minImage_x_range [OF ok True this]
    have "of_int (l - tx n) * vx (m_L b) + vx u = vx (minImage_x b ?y)" unfolding l using e by (simp add: algebra_simps)
    then have "l - tx n = 0" using small_multiple r half(1) True L(1) by metis
    then show ?thesis using l by (simp add: minImage_def)
  qed (simp add: nx minImage_def minImage_x_def vec3_eq_iff)
  then have "minImage b v = ?z + lattice_point b (Tri 0 (ty n) 0) + lattice_point b (Tri (tx n) 0 0)"
    by (simp only: ey)
  then have "minImage b v = v + lattice_point b (Tri 0 0 (tz n)) + lattice_point b (Tri 0 (ty n) 0) + lattice_point b (Tri (tx n) 0 0)"
    by (simp only: ez)
  then show ?thesis unfolding n(2) by (simp add: vec3_eq_iff algebra_simps)
qed

lemma nearest_plane_le:
  assumes "box_ok b"
  shows "vx (getNearestPlaneDistance b) \<le> vx (m_L b)" "vy (getNearestPlaneDistance b) \<le> vy (m_L b)" "vz (getNearestPlaneDistance b) = vz (m_L b)"
proof -
  have r: "L * rsqrt s \<le> L" if "0 < L" "1 \<le> s" for L s :: real
  proof -
    have "rsqrt s \<le> 1" using that(2) by (simp add: rsqrt_def)
    then show ?thesis using that(1) by simp
  qed
  have "0 \<le> m_xy b * m_xy b + (m_xy b * m_yz b - m_xz b) * (m_xy b * m_yz b - m_xz b)" by (intro add_nonneg_nonneg) simp_all
  then show "vx (getNearestPlaneDistance b) \<le> vx (m_L b)" unfolding getNearestPlaneDistance_def vec3.sel
    by (intro r box_okD(1) [OF assms]) linarith
  have "0 \<le> m_yz b * m_yz b" by simp
  then show "vy (getNearestPlaneDistance b) \<le> vy (m_L b)" unfolding getNearestPlaneDistance_def vec3.sel
    by (intro r box_okD(2) [OF assms]) linarith
  show "vz (getNearestPlaneDistance b) = vz (m_L b)" by (simp add: getNearestPlaneDistance_def Let_def)
qed

end
