(* ===== verification/Neighbor_List_Correct.thy ===== *)
theory Neighbor_List_Correct
  imports Neighbor_Rows Periodic_Distance
begin

text \<open>
  The decision to rebuild, cutoffs, and why no neighbor is missed between rebuilds: particles that have
  moved less than half of the buffer keep every interacting pair in the list. The locale \<open>moving_builder\<close> carries
  this over runs; the builder over a cell list is its interpretation.
\<close>

section \<open>The decision\<close>

text \<open>The decision to update changes flags and counters only.\<close>

definition timeless :: "'a NeighborList_scheme \<Rightarrow> 'a NeighborList_scheme" where
  "timeless nl = nl\<lparr>m_force_update := False, m_last_checked_tstep := 0, m_last_check_result := False, m_forced_updates := 0,
     m_updates := 0, m_dangerous_updates := 0, m_last_updated_tstep := 0, m_update_periods := []\<rparr>"

lemma timeless_simps [simp]:
  "timeless (nl\<lparr>m_force_update := a\<rparr>) = timeless nl" "timeless (nl\<lparr>m_last_checked_tstep := b\<rparr>) = timeless nl"
  "timeless (nl\<lparr>m_last_check_result := c\<rparr>) = timeless nl" "timeless (nl\<lparr>m_forced_updates := d\<rparr>) = timeless nl"
  "timeless (nl\<lparr>m_updates := e\<rparr>) = timeless nl" "timeless (nl\<lparr>m_dangerous_updates := f\<rparr>) = timeless nl"
  "timeless (nl\<lparr>m_last_updated_tstep := g\<rparr>) = timeless nl" "timeless (nl\<lparr>m_update_periods := h\<rparr>) = timeless nl"
  by (simp_all add: timeless_def)

lemma timelessD:
  assumes "timeless nl' = timeless nl"
  shows "essence nl' = essence nl" "NeighborList.more nl' = NeighborList.more nl"
    "m_nlist nl' = m_nlist nl" "m_n_neigh nl' = m_n_neigh nl" "m_head_list nl' = m_head_list nl" "n_Nmax nl' = n_Nmax nl" "n_conditions nl' = n_conditions nl"
    "m_last_pos nl' = m_last_pos nl" "m_last_L nl' = m_last_L nl" "m_last_L_local nl' = m_last_L_local nl" "m_has_been_updated_once nl' = m_has_been_updated_once nl"
    "m_exclusions_set nl' = m_exclusions_set nl" "m_n_ex_idx nl' = m_n_ex_idx nl" "m_ex_list_idx nl' = m_ex_list_idx nl" "m_n_ex_tag nl' = m_n_ex_tag nl"
    "m_ex_list_tag nl' = m_ex_list_tag nl" "m_need_reallocate_exlist nl' = m_need_reallocate_exlist nl" "m_every nl' = m_every nl" "m_dist_check nl' = m_dist_check nl"
    "n_compute nl' = n_compute nl"
proof -
  note c = arg_cong [OF assms]
  show "essence nl' = essence nl" using c [of essence] by (simp add: timeless_def essence_def)
  show "NeighborList.more nl' = NeighborList.more nl" using c [of NeighborList.more] by (simp add: timeless_def)
  show "m_nlist nl' = m_nlist nl" using c [of m_nlist] by (simp add: timeless_def)
  show "m_n_neigh nl' = m_n_neigh nl" using c [of m_n_neigh] by (simp add: timeless_def)
  show "m_head_list nl' = m_head_list nl" using c [of m_head_list] by (simp add: timeless_def)
  show "n_Nmax nl' = n_Nmax nl" using c [of n_Nmax] by (simp add: timeless_def)
  show "n_conditions nl' = n_conditions nl" using c [of n_conditions] by (simp add: timeless_def)
  show "m_last_pos nl' = m_last_pos nl" using c [of m_last_pos] by (simp add: timeless_def)
  show "m_last_L nl' = m_last_L nl" using c [of m_last_L] by (simp add: timeless_def)
  show "m_last_L_local nl' = m_last_L_local nl" using c [of m_last_L_local] by (simp add: timeless_def)
  show "m_has_been_updated_once nl' = m_has_been_updated_once nl" using c [of m_has_been_updated_once] by (simp add: timeless_def)
  show "m_exclusions_set nl' = m_exclusions_set nl" using c [of m_exclusions_set] by (simp add: timeless_def)
  show "m_n_ex_idx nl' = m_n_ex_idx nl" using c [of m_n_ex_idx] by (simp add: timeless_def)
  show "m_ex_list_idx nl' = m_ex_list_idx nl" using c [of m_ex_list_idx] by (simp add: timeless_def)
  show "m_n_ex_tag nl' = m_n_ex_tag nl" using c [of m_n_ex_tag] by (simp add: timeless_def)
  show "m_ex_list_tag nl' = m_ex_list_tag nl" using c [of m_ex_list_tag] by (simp add: timeless_def)
  show "m_need_reallocate_exlist nl' = m_need_reallocate_exlist nl" using c [of m_need_reallocate_exlist] by (simp add: timeless_def)
  show "m_every nl' = m_every nl" using c [of m_every] by (simp add: timeless_def)
  show "m_dist_check nl' = m_dist_check nl" using c [of m_dist_check] by (simp add: timeless_def)
  show "n_compute nl' = n_compute nl" using c [of n_compute] by (simp add: timeless_def)
qed

lemma needsUpdating_timeless: "timeless (snd (needsUpdating pd t nl)) = timeless nl"
  by (simp add: needsUpdating_def count_period_def Let_def split: prod.split)

lemma needsUpdating_forced: "m_force_update nl \<Longrightarrow> fst (needsUpdating pd t nl) \<and> \<not> m_force_update (snd (needsUpdating pd t nl))"
  by (simp add: needsUpdating_def Let_def)

text \<open>When distances are due to be checked, a negative answer is that of the check.\<close>

lemma needsUpdating_checks:
  assumes "\<not> m_force_update nl" "m_last_checked_tstep nl \<noteq> t" "\<not> t < check_period_end nl" "\<not> fst (needsUpdating pd t nl)"
  shows "\<not> distanceCheck pd nl \<and> \<not> m_r_buff nl < 1 / 1000000"
proof -
  have "distanceCheck pd (nl\<lparr>m_last_checked_tstep := t\<rparr>) = distanceCheck pd nl" by (simp add: distanceCheck_def)
  then show ?thesis using assms
    by (auto simp: needsUpdating_def shouldCheckDistance_def check_period_end_def Let_def split: if_splits)
qed

lemma needsUpdating_unforced: "\<not> m_force_update nl \<Longrightarrow> \<not> m_force_update (snd (needsUpdating pd t nl))"
  by (simp add: needsUpdating_def count_period_def Let_def split: prod.split)

lemma needsUpdating_checked: "m_last_checked_tstep (snd (needsUpdating pd t nl)) = t"
  by (simp add: needsUpdating_def count_period_def Let_def split: prod.split)

section \<open>The call\<close>

definition refreshed :: "ParticleData \<Rightarrow> 'a NeighborList_scheme \<Rightarrow> 'a NeighborList_scheme" where
  "refreshed pd nl = (if m_rcut_changed nl then updateRList pd nl else nl)"

definition arranged :: "ParticleData \<Rightarrow> 'a NeighborList_scheme \<Rightarrow> 'a NeighborList_scheme result" where
  "arranged pd nl = (let nl = buildHeadList pd nl in if m_exclusions_set nl then updateExListIdx pd nl else Inr nl)"

lemma nlist_compute_eq:
  "nlist_compute build pd t nl =
     (let nl = refreshed pd nl; (should, c) = shouldCompute t (n_compute nl); nl = nl\<lparr>n_compute := c\<rparr>
      in if \<not> should \<and> \<not> m_force_update nl then Some (Inr nl)
         else case (if m_force_update nl then arranged pd nl else Inr nl) of
                Inl e \<Rightarrow> Some (Inl e)
              | Inr nl \<Rightarrow> let (needs, nl) = needsUpdating pd t nl in if needs then rebuild build pd t nl else Some (Inr nl))"
  unfolding nlist_compute_def refreshed_def arranged_def rebuild_def by (rule refl)

lemma refreshed_simps [simp]:
  "n_compute (refreshed pd nl) = n_compute nl" "m_force_update (refreshed pd nl) = m_force_update nl"
  "m_exclusions_set (refreshed pd nl) = m_exclusions_set nl" "m_last_checked_tstep (refreshed pd nl) = m_last_checked_tstep nl"
  "n_Nmax (refreshed pd nl) = n_Nmax nl" "m_n_ex_tag (refreshed pd nl) = m_n_ex_tag nl" "m_ex_list_tag (refreshed pd nl) = m_ex_list_tag nl"
  "nlist_state pd (refreshed pd nl) = nlist_state pd nl" "ex_arrays_ok pd (refreshed pd nl) = ex_arrays_ok pd nl"
  by (simp_all add: refreshed_def updateRList_def Let_def nlist_state_def nlist_sized_def ex_arrays_ok_def)

lemma nlist_fits_head: "nlist_fits pd nl \<Longrightarrow> head_at pd nl (m_nparticles pd) < 2 ^ 31"
proof -
  assume "nlist_fits pd nl"
  moreover have "head_at pd nl (m_nparticles pd) \<le> (\<Sum>i<m_nparticles pd. row_need pd nl (unat (type_of pd i)))"
    unfolding head_at_def by (rule sum_mono) (rule row_need_ge)
  ultimately show ?thesis by (simp add: nlist_fits_def)
qed

lemma row_need_cong: "essence a = essence b \<Longrightarrow> n_Nmax a = n_Nmax b \<Longrightarrow> row_need pd a = row_need pd b"
  using accepted_essence [of a b pd] by (intro ext) (simp add: row_need_def counts_def Let_def)

lemma nlist_fits_cong: "essence a = essence b \<Longrightarrow> n_Nmax a = n_Nmax b \<Longrightarrow> nlist_fits pd a = nlist_fits pd b"
  using row_need_cong [of a b pd] by (simp add: nlist_fits_def)

lemma heads_ok_cong: "m_nlist a = m_nlist b \<Longrightarrow> m_head_list a = m_head_list b \<Longrightarrow> n_Nmax a = n_Nmax b \<Longrightarrow> heads_ok pd a = heads_ok pd b"
  using head_at_cong [of a b pd] by (simp add: heads_ok_def)

text \<open>The pairs that belong into the list, given the exclusions by tag.\<close>

definition wanted :: "ParticleData \<Rightarrow> 'a NeighborList_scheme \<Rightarrow> nat \<Rightarrow> nat set" where
  "wanted pd nl i = (if m_exclusions_set nl then accepted pd nl i - (!) (m_rtag pd) ` ex_tags nl (m_tag (m_arrays pd) ! i) else accepted pd nl i)"

lemma wanted_cong: "essence a = essence b \<Longrightarrow> m_exclusions_set a = m_exclusions_set b \<Longrightarrow> m_n_ex_tag a = m_n_ex_tag b \<Longrightarrow>
    m_ex_list_tag a = m_ex_list_tag b \<Longrightarrow> wanted pd a = wanted pd b"
  using accepted_essence [of a b pd] by (intro ext) (simp add: wanted_def ex_tags_def)

text \<open>The exclusions by index are those by tag.\<close>

definition ex_linked :: "ParticleData \<Rightarrow> 'a NeighborList_scheme \<Rightarrow> bool" where
  "ex_linked pd nl \<longleftrightarrow> (m_exclusions_set nl \<longrightarrow>
     (\<forall>i < m_nparticles pd. ex_indices nl i = (!) (m_rtag pd) ` ex_tags nl (m_tag (m_arrays pd) ! i)))"

lemma linked_wanted: "ex_linked pd nl \<Longrightarrow> i < m_nparticles pd \<Longrightarrow> listed pd nl i = wanted pd nl i"
  by (simp add: listed_def wanted_def ex_linked_def)

lemma arranged_spec:
  assumes "nlist_state pd nl" "head_at pd nl (m_nparticles pd) < 2 ^ 31" "m_exclusions_set nl \<longrightarrow> ex_arrays_ok pd nl"
  shows "\<exists>nl'. arranged pd nl = Inr nl' \<and> nlist_state pd nl' \<and> heads_ok pd nl' \<and> essence nl' = essence nl \<and> NeighborList.more nl' = NeighborList.more nl
    \<and> n_Nmax nl' = n_Nmax nl \<and> m_force_update nl' = m_force_update nl \<and> m_exclusions_set nl' = m_exclusions_set nl
    \<and> m_n_ex_tag nl' = m_n_ex_tag nl \<and> m_ex_list_tag nl' = m_ex_list_tag nl
    \<and> ex_linked pd nl'"
proof -
  from buildHeadList_spec [OF _ assms(2)] assms(1) obtain heads nlist where
    h: "buildHeadList pd nl = nl\<lparr>m_head_list := heads, m_nlist := nlist\<rparr>" "nlist_sized pd (buildHeadList pd nl)" "heads_ok pd (buildHeadList pd nl)"
    by (auto simp: nlist_state_def)
  let ?h = "nl\<lparr>m_head_list := heads, m_nlist := nlist\<rparr>"
  have st: "nlist_state pd ?h" "heads_ok pd ?h" using assms(1) h by (simp_all add: nlist_state_def)
  have ess: "essence ?h = essence nl" by (simp add: essence_def)
  show ?thesis
  proof (cases "m_exclusions_set nl")
    case True
    have "ex_arrays_ok pd ?h" using assms(3) True by (simp add: ex_arrays_ok_def)
    from updateExListIdx_spec [OF this] obtain a b where u:
      "updateExListIdx pd ?h = Inr (?h\<lparr>m_n_ex_idx := a, m_ex_list_idx := b\<rparr>)"
      "\<forall>i < m_nparticles pd. ex_indices (?h\<lparr>m_n_ex_idx := a, m_ex_list_idx := b\<rparr>) i = (!) (m_rtag pd) ` ex_tags ?h (m_tag (m_arrays pd) ! i)" by blast
    let ?u = "?h\<lparr>m_n_ex_idx := a, m_ex_list_idx := b\<rparr>"
    have e: "essence ?u = essence nl" by (simp add: essence_def)
    have "arranged pd nl = Inr ?u" using True by (simp add: arranged_def h(1) u(1))
    moreover have "nlist_state pd ?u" using st(1) by (simp add: nlist_state_def nlist_sized_def)
    moreover have "heads_ok pd ?u" using st(2) heads_ok_cong [of ?u ?h pd] by simp
    moreover have "ex_linked pd ?u"
    proof -
      have "ex_tags ?u = ex_tags ?h" by (rule ext) (simp add: ex_tags_def)
      then show ?thesis using u(2) by (simp add: ex_linked_def)
    qed
    ultimately show ?thesis using e by (intro exI [of _ ?u]) simp
  next
    case False
    have "arranged pd nl = Inr ?h" using False by (simp add: arranged_def h(1))
    moreover have "ex_linked pd ?h" using False by (simp add: ex_linked_def)
    ultimately show ?thesis using st ess by (intro exI [of _ ?h]) simp
  qed
qed

section \<open>The tables of cutoffs\<close>

lemma foldl_update_nth:
  assumes "f k < length xs" "k \<in> set ks" "\<And>k'. k' \<in> set ks \<Longrightarrow> f k' = f k \<Longrightarrow> g k' = g k"
  shows "foldl (\<lambda>a k. a[f k := g k]) xs ks ! f k = g k"
proof -
  have "f k < length (foldl (\<lambda>a k. a[f k := g k]) xs ks) \<and> (k \<in> set ks \<longrightarrow> foldl (\<lambda>a k. a[f k := g k]) xs ks ! f k = g k)"
    using assms(1,3)
  proof (induction ks rule: rev_induct)
    case (snoc x ks)
    let ?a = "foldl (\<lambda>a k. a[f k := g k]) xs ks"
    have "f k < length ?a \<and> (k \<in> set ks \<longrightarrow> ?a ! f k = g k)"
      by (rule snoc.IH [OF snoc.prems(1)]) (rule snoc.prems(2), simp_all)
    then have IH: "f k < length ?a" "k \<in> set ks \<Longrightarrow> ?a ! f k = g k" by blast+
    show ?case
    proof (cases "f x = f k")
      case True
      then have "g x = g k" by (intro snoc.prems(2)) simp_all
      then show ?thesis using IH(1) True by simp
    next
      case False
      then have "k \<noteq> x" by blast
      then show ?thesis using IH False by simp
    qed
  qed simp
  then show ?thesis using assms(2) by blast
qed

lemma length_foldl_update [simp]: "length (foldl (\<lambda>a k. a[f k := g k]) xs ks) = length xs"
  by (induction ks arbitrary: xs) simp_all

lemma foldl_max:
  fixes m :: real
  shows "m \<le> foldl (\<lambda>m j. if g j > m then g j else m) m js" "j \<in> set js \<Longrightarrow> g j \<le> foldl (\<lambda>m j. if g j > m then g j else m) m js"
proof -
  have ge: "m \<le> foldl (\<lambda>m j. if g j > m then g j else m) m js" for m js
  proof (induction js arbitrary: m)
    case (Cons j js)
    then show ?case using Cons.IH [of "g j"] Cons.IH [of m] by (auto intro: order.trans less_imp_le)
  qed simp
  show "m \<le> foldl (\<lambda>m j. if g j > m then g j else m) m js" by (rule ge)
  show "j \<in> set js \<Longrightarrow> g j \<le> foldl (\<lambda>m j. if g j > m then g j else m) m js"
  proof (induction js arbitrary: m)
    case (Cons i js)
    show ?case
    proof (cases "j = i")
      case True
      have "g j \<le> (if g i > m then g i else m)" using True by simp
      also have "\<dots> \<le> foldl (\<lambda>m j. if g j > m then g j else m) (if g i > m then g i else m) js" by (rule ge)
      finally show ?thesis by simp
    next
      case False
      then show ?thesis using Cons by simp
    qed
  qed simp
qed

lemma set_type_pairs: "set (type_pairs nt) = {..<nt} \<times> {..<nt}"
  by (auto simp: type_pairs_def)

definition cutoff_sizes :: "ParticleData \<Rightarrow> 'a NeighborList_scheme \<Rightarrow> bool" where
  "cutoff_sizes pd nl \<longleftrightarrow> (let nt = Particle_Data.getNTypes pd in n_typpair_idx nl = Index2D_square (of_nat nt) \<and> nt * nt < 2 ^ 32
     \<and> length (m_r_cut nl) = nt * nt \<and> length (m_r_listsq nl) = nt * nt \<and> length (m_rcut_max nl) = nt)"

lemma type_pair_index:
  assumes "cutoff_sizes pd nl" "a < Particle_Data.getNTypes pd" "b < Particle_Data.getNTypes pd"
  shows "type_pair nl (of_nat a) (of_nat b) = b * Particle_Data.getNTypes pd + a"
proof -
  have "Index2D_square (of_nat (Particle_Data.getNTypes pd)) = Index2D_rect (of_nat (Particle_Data.getNTypes pd)) (of_nat (Particle_Data.getNTypes pd))"
    by (simp add: Index2D_square_def Index2D_rect_def)
  then show ?thesis using assms rect_idx [of "Particle_Data.getNTypes pd" "Particle_Data.getNTypes pd" a b]
    by (simp add: type_pair_def cutoff_sizes_def Let_def)
qed

lemma pair_index_eq: "b * n + a = d * n + c \<longleftrightarrow> a = c \<and> b = d" if "a < n" "c < n" for a b c d n :: nat
  using row_major_eq [OF that(1,2), of b d] by (auto simp: conj_commute)

lemma pair_index_less: "a < n \<Longrightarrow> b < n \<Longrightarrow> b * n + a < n * n" for a b n :: nat
proof -
  assume "a < n" "b < n"
  then have "b * n + a < b * n + n" "(b + 1) * n \<le> n * n" by (simp_all only: mult_le_mono1 Suc_leI add_less_cancel_left Suc_eq_plus1 [symmetric])
  then show ?thesis by simp
qed

text \<open>The square of the list radius, and the largest cutoff of a type and of all.\<close>

definition cutoffs_ok :: "ParticleData \<Rightarrow> 'a NeighborList_scheme \<Rightarrow> bool" where
  "cutoffs_ok pd nl \<longleftrightarrow> 0 \<le> m_rcut_max_max nl \<and> (\<forall>a b. unat a < Particle_Data.getNTypes pd \<and> unat b < Particle_Data.getNTypes pd \<longrightarrow>
     (let r_cut = m_r_cut nl ! type_pair nl a b
      in m_r_listsq nl ! type_pair nl a b = (if r_cut > 0 then r_cut + m_r_buff nl else 0)\<^sup>2
         \<and> r_cut \<le> m_rcut_max nl ! unat a \<and> r_cut \<le> m_rcut_max_max nl))"

lemma updateRList_ok:
  assumes sz: "cutoff_sizes pd nl"
  shows "cutoffs_ok pd (updateRList pd nl) \<and> cutoff_sizes pd (updateRList pd nl) \<and> \<not> m_rcut_changed (updateRList pd nl)"
proof -
  let ?nt = "Particle_Data.getNTypes pd"
  define rc where "rc i j = m_r_cut nl ! type_pair nl (of_nat i) (of_nat j)" for i j
  define rl where "rl i j = (if rc i j > 0 then rc i j + m_r_buff nl else 0)" for i j
  define mx where "mx i = foldl (\<lambda>m j. if rc i j > m then rc i j else m) 0 [0..<?nt]" for i
  define all where "all = foldl (\<lambda>m i. if mx i > m then mx i else m) 0 [0..<?nt]"
  let ?u = "updateRList pd nl"
  have sizes: "length (m_r_listsq nl) = ?nt * ?nt" "length (m_rcut_max nl) = ?nt" using sz by (simp_all add: cutoff_sizes_def Let_def)
  have idx: "type_pair nl (of_nat a) (of_nat b) = b * ?nt + a" if "a < ?nt" "b < ?nt" for a b using type_pair_index [OF sz that] .
  have fields: "m_r_cut ?u = m_r_cut nl" "n_typpair_idx ?u = n_typpair_idx nl" "m_r_buff ?u = m_r_buff nl" "m_rcut_changed ?u = False"
    "m_r_listsq ?u = foldl (\<lambda>a k. a[type_pair nl (of_nat (fst k)) (of_nat (snd k)) := rl (fst k) (snd k) * rl (fst k) (snd k)]) (m_r_listsq nl) (type_pairs ?nt)"
    "m_rcut_max ?u = foldl (\<lambda>a i. a[i := mx i]) (m_rcut_max nl) [0..<?nt]" "m_rcut_max_max ?u = all"
    unfolding updateRList_def rc_def rl_def mx_def all_def Let_def split_def by simp_all
  have listsq: "m_r_listsq ?u ! type_pair nl (of_nat a) (of_nat b) = rl a b * rl a b" if "a < ?nt" "b < ?nt" for a b
  proof -
    have "m_r_listsq ?u ! type_pair nl (of_nat (fst (a, b))) (of_nat (snd (a, b))) = rl (fst (a, b)) (snd (a, b)) * rl (fst (a, b)) (snd (a, b))"
      unfolding fields
    proof (rule foldl_update_nth)
      show "type_pair nl (of_nat (fst (a, b))) (of_nat (snd (a, b))) < length (m_r_listsq nl)"
        using idx [OF that] pair_index_less [OF that] sizes(1) by simp
      show "(a, b) \<in> set (type_pairs ?nt)" using that by (simp add: set_type_pairs)
      show "rl (fst k') (snd k') * rl (fst k') (snd k') = rl (fst (a, b)) (snd (a, b)) * rl (fst (a, b)) (snd (a, b))"
        if "k' \<in> set (type_pairs ?nt)" "type_pair nl (of_nat (fst k')) (of_nat (snd k')) = type_pair nl (of_nat (fst (a, b))) (of_nat (snd (a, b)))" for k'
      proof -
        have k: "fst k' < ?nt" "snd k' < ?nt" using that(1) by (auto simp: set_type_pairs)
        have "snd k' * ?nt + fst k' = b * ?nt + a" using that(2) idx [OF k] idx [OF \<open>a < ?nt\<close> \<open>b < ?nt\<close>] by simp
        then have "fst k' = a \<and> snd k' = b" using pair_index_eq [OF k(1) \<open>a < ?nt\<close>] by blast
        then show ?thesis by simp
      qed
    qed
    then show ?thesis by simp
  qed
  have max: "m_rcut_max ?u ! a = mx a" if "a < ?nt" for a
    unfolding fields using foldl_update_nth [of "\<lambda>i. i" a "m_rcut_max nl" "[0..<?nt]" mx] that sizes(2) by simp
  have le: "rc a b \<le> mx a" "mx a \<le> all" if "a < ?nt" "b < ?nt" for a b
    using foldl_max(2) [of b "[0..<?nt]" "rc a" 0] foldl_max(2) [of a "[0..<?nt]" mx 0] that by (simp_all add: mx_def all_def)
  have pair: "type_pair ?u = type_pair nl" by (intro ext) (simp add: type_pair_def fields)
  have "m_r_listsq ?u ! type_pair ?u s t = (if m_r_cut ?u ! type_pair ?u s t > 0 then m_r_cut ?u ! type_pair ?u s t + m_r_buff ?u else 0)\<^sup>2
      \<and> m_r_cut ?u ! type_pair ?u s t \<le> m_rcut_max ?u ! unat s \<and> m_r_cut ?u ! type_pair ?u s t \<le> m_rcut_max_max ?u"
    if "unat s < ?nt" "unat t < ?nt" for s t
  proof -
    have r: "m_r_cut nl ! type_pair nl s t = rc (unat s) (unat t)" by (simp add: rc_def)
    show ?thesis
      using listsq [OF that] max [OF that(1)] le [OF that] by (simp add: pair fields(1,3,7) r rl_def power2_eq_square)
  qed
  moreover have "0 \<le> m_rcut_max_max ?u" unfolding fields all_def by (rule foldl_max(1))
  ultimately have "cutoffs_ok pd ?u" by (simp add: cutoffs_ok_def Let_def)
  moreover have "cutoff_sizes pd ?u" using sz by (simp add: cutoff_sizes_def fields(1,2,5,6) Let_def)
  ultimately show ?thesis by (simp add: fields)
qed

section \<open>Moving particles\<close>

text \<open>Between two computations particles move, in the same box and in the same order.\<close>

definition moved :: "ParticleData \<Rightarrow> ParticleData \<Rightarrow> bool" where
  "moved pd0 pd \<longleftrightarrow> m_box pd = m_box pd0 \<and> m_global_box pd = m_global_box pd0 \<and> m_nparticles pd = m_nparticles pd0
     \<and> m_nghosts pd = m_nghosts pd0 \<and> m_type_mapping pd = m_type_mapping pd0 \<and> m_rtag pd = m_rtag pd0
     \<and> m_tag (m_arrays pd) = m_tag (m_arrays pd0) \<and> m_body (m_arrays pd) = m_body (m_arrays pd0)
     \<and> m_diameter (m_arrays pd) = m_diameter (m_arrays pd0) \<and> map snd (m_pos (m_arrays pd)) = map snd (m_pos (m_arrays pd0))"

lemma moved_refl [simp]: "moved pd pd"
  by (simp add: moved_def)

lemma moved_trans: "moved a b \<Longrightarrow> moved b c \<Longrightarrow> moved a c"
  by (simp add: moved_def)

lemma movedD:
  assumes "moved pd0 pd"
  shows "m_box pd = m_box pd0" "m_global_box pd = m_global_box pd0" "m_nparticles pd = m_nparticles pd0" "m_nghosts pd = m_nghosts pd0"
    "m_type_mapping pd = m_type_mapping pd0" "m_rtag pd = m_rtag pd0" "m_tag (m_arrays pd) = m_tag (m_arrays pd0)"
    "m_body (m_arrays pd) = m_body (m_arrays pd0)" "m_diameter (m_arrays pd) = m_diameter (m_arrays pd0)"
    "length (m_pos (m_arrays pd)) = length (m_pos (m_arrays pd0))" "Particle_Data.getNTypes pd = Particle_Data.getNTypes pd0"
    "i < length (m_pos (m_arrays pd0)) \<Longrightarrow> type_of pd i = type_of pd0 i"
proof -
  have m: "map snd (m_pos (m_arrays pd)) = map snd (m_pos (m_arrays pd0))" using assms by (simp add: moved_def)
  show l: "length (m_pos (m_arrays pd)) = length (m_pos (m_arrays pd0))" using arg_cong [OF m, of length] by simp
  show "i < length (m_pos (m_arrays pd0)) \<Longrightarrow> type_of pd i = type_of pd0 i"
    using arg_cong [OF m, of "\<lambda>xs. xs ! i"] l by (simp add: type_of_def)
qed (use assms in \<open>simp_all add: moved_def Particle_Data.getNTypes_def\<close>)

definition positions_ok :: "nat \<Rightarrow> ParticleData \<Rightarrow> bool" where
  "positions_ok ndim pd \<longleftrightarrow> box_ok (m_box pd) \<and> box_centred (m_box pd) \<and> (ndim = 2 \<or> ndim = 3) \<and> m_nghosts pd = 0
     \<and> m_nparticles pd \<le> length (m_pos (m_arrays pd)) \<and> (\<forall>i < m_nparticles pd. proper pd i)
     \<and> (ndim = 2 \<longrightarrow> (\<forall>i < m_nparticles pd. vz (pos_of pd i) = 0))"

lemma proper_z:
  assumes "positions_ok ndim pd" "i < m_nparticles pd"
  shows "vz (m_lo (m_box pd)) \<le> vz (pos_of pd i)" "vz (pos_of pd i) \<le> vz (m_lo (m_box pd)) + 3 / 2 * vz (m_L (m_box pd))"
proof -
  have ok: "box_ok (m_box pd)" and p: "proper pd i" using assms by (simp_all add: positions_ok_def)
  note L = box_okD(3) [OF ok]
  have f: "0 \<le> vz (fraction pd i)" "vz (fraction pd i) < 3 / 2"
    using p by (auto simp: proper_def proper_along_def inside_along_def out_of_bounds_def Let_def)
  have e: "vz (fraction pd i) = (vz (pos_of pd i) - vz (m_lo (m_box pd))) / vz (m_L (m_box pd))"
    by (simp add: fraction_def pos_of_def makeFraction_components [OF ok])
  show "vz (m_lo (m_box pd)) \<le> vz (pos_of pd i)" using f(1) L by (simp add: e zero_le_divide_iff)
  show "vz (pos_of pd i) \<le> vz (m_lo (m_box pd)) + 3 / 2 * vz (m_L (m_box pd))" using f(2) L by (simp add: e divide_less_eq)
qed

lemma difference_z:
  assumes "positions_ok ndim pd" "positions_ok ndim pd0" "m_box pd0 = m_box pd" "i < m_nparticles pd" "j < m_nparticles pd0"
  shows "\<bar>vz (pos_of pd i - pos_of pd0 j)\<bar> \<le> 3 / 2 * vz (m_L (m_box pd))"
proof -
  note z = proper_z [OF assms(1,4)] proper_z [OF assms(2,5), unfolded assms(3)]
  have "vz (pos_of pd i - pos_of pd0 j) = vz (pos_of pd i) - vz (pos_of pd0 j)" by simp
  then show ?thesis using z by (intro abs_leI) linarith+
qed

text \<open>An image of a difference that is shorter than a plane distance has a small number.\<close>

lemma image_bound:
  assumes ok: "box_ok b" and u: "u = p - q + lattice_point b n" "len3 u < r"
    and f: "\<And>c. c \<in> {makeFraction b p, makeFraction b q} \<Longrightarrow> 0 \<le> vx c \<and> vx c < 3 / 2 \<and> 0 \<le> vy c \<and> vy c < 3 / 2"
  shows "r \<le> vx (getNearestPlaneDistance b) \<Longrightarrow> \<bar>tx n\<bar> < 2 ^ 29" "r \<le> vy (getNearestPlaneDistance b) \<Longrightarrow> \<bar>ty n\<bar> < 2 ^ 29"
proof -
  have r: "0 \<le> r" using u(2) len3_nonneg [of u] by linarith
  have d: "p + lattice_point b n - q = u" using u(1) by (simp add: algebra_simps)
  have "dot u u \<le> r\<^sup>2"
    using u(2) r len3_less_iff [of r u] by (cases "r = 0") (simp_all add: less_imp_le)
  note fd = fraction_distance [OF ok r, of "p + lattice_point b n" q, unfolded d, OF this]
  have le: "\<bar>x\<bar> \<le> 1" if "\<bar>x\<bar> * m \<le> r" "r \<le> m" "0 < m" for x m :: real
  proof -
    have "\<bar>x\<bar> * m \<le> 1 * m" using that by linarith
    then show ?thesis using that(3) by (rule mult_right_le_imp_le)
  qed
  have small: "\<bar>k\<bar> < 2 ^ 29" if "\<bar>a + of_int k - c\<bar> \<le> 1" "0 \<le> a \<and> a < 3 / 2" "0 \<le> c \<and> c < 3 / 2" for a c :: real and k :: int
  proof -
    have "\<bar>real_of_int k\<bar> < 3" using that by linarith
    then have "\<bar>k\<bar> < 3" by linarith
    then show ?thesis by simp
  qed
  have fr: "makeFraction b (p + lattice_point b n) = makeFraction b p + Vec3 (of_int (tx n)) (of_int (ty n)) (of_int (tz n))"
    by (rule makeFraction_lattice [OF ok])
  show "\<bar>tx n\<bar> < 2 ^ 29" if "r \<le> vx (getNearestPlaneDistance b)"
    by (rule small [of "vx (makeFraction b p)" _ "vx (makeFraction b q)"])
       (use le [OF fd(1) that nearest_plane_pos(1) [OF ok]] f in \<open>simp_all only: fr vec3_components vec3.sel insert_iff simp_thms\<close>)
  show "\<bar>ty n\<bar> < 2 ^ 29" if "r \<le> vy (getNearestPlaneDistance b)"
    by (rule small [of "vy (makeFraction b p)" _ "vy (makeFraction b q)"])
       (use le [OF fd(2) that nearest_plane_pos(2) [OF ok]] f in \<open>simp_all only: fr vec3_components vec3.sel insert_iff simp_thms\<close>)
qed

lemma proper_fraction:
  assumes "positions_ok ndim pd" "i < m_nparticles pd" "c = makeFraction (m_box pd) (pos_of pd i)"
  shows "0 \<le> vx c \<and> vx c < 3 / 2 \<and> 0 \<le> vy c \<and> vy c < 3 / 2"
  using assms by (auto simp: positions_ok_def proper_def proper_along_def inside_along_def out_of_bounds_def fraction_def pos_of_def Let_def)

lemma minImage_flat: "box_ok b \<Longrightarrow> box_centred b \<Longrightarrow> vz v = 0 \<Longrightarrow> vz (minImage b v) = 0"
  using centred_hi(3) [of b] box_okD(3) [of b] by (cases "tz (m_periodic b)") (auto simp: minImage_def minImage_z_def Let_def)

section \<open>No neighbor is missed\<close>

definition diam_shift :: "ParticleData \<Rightarrow> 'a NeighborList_scheme \<Rightarrow> nat \<Rightarrow> nat \<Rightarrow> Scalar" where
  "diam_shift pd nl i j = (if m_diameter_shift nl then (m_diameter (m_arrays pd) ! i + m_diameter (m_arrays pd) ! j) * (1 / 2) - 1 else 0)"

definition pair_cutoff :: "ParticleData \<Rightarrow> 'a NeighborList_scheme \<Rightarrow> nat \<Rightarrow> nat \<Rightarrow> Scalar" where
  "pair_cutoff pd nl i j = m_r_cut nl ! type_pair nl (type_of pd i) (type_of pd j)"

text \<open>The pairs that interact: the distance is at most the cutoff, shifted by the diameters where that is on.\<close>

definition pair_near :: "ParticleData \<Rightarrow> 'a NeighborList_scheme \<Rightarrow> nat \<Rightarrow> nat \<Rightarrow> bool" where
  "pair_near pd nl i j \<longleftrightarrow> i \<noteq> j \<and> 0 < pair_cutoff pd nl i j \<and> \<not> same_body pd nl i j
     \<and> len3 (minImage (m_box pd) (pos_of pd i - pos_of pd j)) \<le> pair_cutoff pd nl i j + diam_shift pd nl i j"

definition max_list_radius :: "'a NeighborList_scheme \<Rightarrow> Scalar" where
  "max_list_radius nl = add_shift nl (m_rcut_max_max nl + m_r_buff nl)"

definition diameters_ok :: "ParticleData \<Rightarrow> 'a NeighborList_scheme \<Rightarrow> bool" where
  "diameters_ok pd nl \<longleftrightarrow> (m_diameter_shift nl \<longrightarrow> (\<forall>i < m_nparticles pd. m_diameter (m_arrays pd) ! i \<le> m_d_max nl))"

lemma list_radius:
  assumes c: "cutoffs_ok pd nl" and t: "unat (type_of pd i) < Particle_Data.getNTypes pd" "unat (type_of pd j) < Particle_Data.getNTypes pd"
    and pos: "0 < pair_cutoff pd nl i j"
  shows "m_r_listsq nl ! type_pair nl (type_of pd i) (type_of pd j) + sqshift pd nl (pair_cutoff pd nl i j + m_r_buff nl) i j
      = (pair_cutoff pd nl i j + m_r_buff nl + diam_shift pd nl i j)\<^sup>2"
    "diameters_ok pd nl \<Longrightarrow> i < m_nparticles pd \<Longrightarrow> j < m_nparticles pd \<Longrightarrow>
       pair_cutoff pd nl i j + m_r_buff nl + diam_shift pd nl i j \<le> max_list_radius nl"
proof -
  have r: "m_r_listsq nl ! type_pair nl (type_of pd i) (type_of pd j) = (pair_cutoff pd nl i j + m_r_buff nl)\<^sup>2"
    "pair_cutoff pd nl i j \<le> m_rcut_max_max nl"
    using c t pos by (auto simp: cutoffs_ok_def pair_cutoff_def Let_def)
  show "m_r_listsq nl ! type_pair nl (type_of pd i) (type_of pd j) + sqshift pd nl (pair_cutoff pd nl i j + m_r_buff nl) i j
      = (pair_cutoff pd nl i j + m_r_buff nl + diam_shift pd nl i j)\<^sup>2"
    by (simp add: r(1) sqshift_def diam_shift_def Let_def power2_eq_square algebra_simps)
  assume "diameters_ok pd nl" "i < m_nparticles pd" "j < m_nparticles pd"
  then have "m_diameter_shift nl \<Longrightarrow> m_diameter (m_arrays pd) ! i \<le> m_d_max nl \<and> m_diameter (m_arrays pd) ! j \<le> m_d_max nl"
    by (simp add: diameters_ok_def)
  then have "diam_shift pd nl i j \<le> (if m_diameter_shift nl then m_d_max nl - 1 else 0)"
    by (cases "m_diameter_shift nl") (simp_all add: diam_shift_def)
  then show "pair_cutoff pd nl i j + m_r_buff nl + diam_shift pd nl i j \<le> max_list_radius nl"
    using r(2) unfolding max_list_radius_def add_shift_def by (cases "m_diameter_shift nl") simp_all
qed

lemma pair_within_len:
  assumes "cutoffs_ok pd nl" "unat (type_of pd i) < Particle_Data.getNTypes pd" "unat (type_of pd j) < Particle_Data.getNTypes pd"
    "0 < pair_cutoff pd nl i j" "0 \<le> pair_cutoff pd nl i j + m_r_buff nl + diam_shift pd nl i j"
  shows "pair_within pd nl i j \<longleftrightarrow> i \<noteq> j \<and> \<not> same_body pd nl i j
    \<and> len3 (minImage (m_box pd) (pos_of pd i - pos_of pd j)) \<le> pair_cutoff pd nl i j + m_r_buff nl + diam_shift pd nl i j"
  using list_radius(1) [OF assms(1-4)] assms(4) len3_le_iff [OF assms(5)]
  by (simp add: pair_within_def pair_cutoff_def Let_def)

text \<open>A negative distance check in an unchanged box: no particle has moved half the buffer.\<close>

lemma distanceCheck_bound:
  assumes "\<not> distanceCheck pd nl" "m_last_L nl = getNearestPlaneDistance (m_global_box pd)" "box_ok (m_global_box pd)" "i < m_nparticles pd"
  shows "len3 (minImage (m_box pd) (pos_of pd i - m_last_pos nl ! i)) < m_r_buff nl / 2"
proof -
  let ?L = "getNearestPlaneDistance (m_global_box pd)"
  have "vx ?L / vx ?L = 1" "vy ?L / vy ?L = 1" "vz ?L / vz ?L = 1" using nearest_plane_pos [OF assms(3)] by simp_all
  then have one: "make_scalar3 (vx ?L / vx ?L) (vy ?L / vy ?L) (vz ?L / vz ?L) = Vec3 1 1 1" by (simp only: make_scalar3_def)
  let ?d = "minImage (m_box pd) (pos_of pd i - m_last_pos nl ! i)"
  have v: "make_scalar3 (vx p - vx q) (vy p - vy q) (vz p - vz q) = p - q" for p q by (simp add: make_scalar3_def vec3_eq_iff)
  have irr: "(1::real) < 1 \<longleftrightarrow> False" by simp
  have "\<forall>i < m_nparticles pd. \<not> (if 0 < m_r_buff nl / 2 then m_r_buff nl / 2 * (m_r_buff nl / 2) else 0)
      \<le> dot (minImage (m_box pd) (pos_of pd i - m_last_pos nl ! i)) (minImage (m_box pd) (pos_of pd i - m_last_pos nl ! i))"
    using assms(1) unfolding distanceCheck_def Let_def assms(2) one vec3.sel irr if_False mult_1_right add_diff_cancel_left'
    by (simp add: v list_ex_iff)
  then have "\<not> dot ?d ?d \<ge> (if m_r_buff nl / 2 > 0 then m_r_buff nl / 2 * (m_r_buff nl / 2) else 0)" using assms(4) by blast
  then have "0 < m_r_buff nl" "dot ?d ?d < (m_r_buff nl / 2)\<^sup>2"
    using dot_self_nonneg [of ?d] by (auto simp: power2_eq_square split: if_splits)
  then show ?thesis by (subst len3_less_iff) simp_all
qed

lemma verlet:
  assumes mv: "moved pd0 pd" and ok: "positions_ok ndim pd" "positions_ok ndim pd0" and cut: "cutoffs_ok pd nl" and dia: "diameters_ok pd nl"
    and big: "\<not> box_too_small ndim pd (max_list_radius nl)"
    and ij: "i < m_nparticles pd" "j < m_nparticles pd" and ty: "\<forall>i < m_nparticles pd. unat (type_of pd i) < Particle_Data.getNTypes pd"
    and di: "\<forall>i < m_nparticles pd. len3 (minImage (m_box pd) (pos_of pd i - pos_of pd0 i)) < m_r_buff nl / 2"
    and near: "pair_near pd nl i j"
  shows "pair_within pd0 nl i j"
proof -
  let ?b = "m_box pd"
  let ?v = "pos_of pd i - pos_of pd j" and ?w = "pos_of pd0 i - pos_of pd0 j"
  let ?m = "minImage ?b ?v" and ?d = "\<lambda>i. minImage ?b (pos_of pd i - pos_of pd0 i)"
  let ?u = "?m - ?d i + ?d j" and ?r = "pair_cutoff pd nl i j + m_r_buff nl + diam_shift pd nl i j"
  note D = movedD [OF mv]
  have lp: "i < length (m_pos (m_arrays pd0))" "j < length (m_pos (m_arrays pd0))" using ok(2) ij D(3) by (simp_all add: positions_ok_def)
  have b: "box_ok ?b" "box_centred ?b" using ok by (simp_all add: positions_ok_def)
  have m: "len3 ?m \<le> pair_cutoff pd nl i j + diam_shift pd nl i j" "0 < pair_cutoff pd nl i j" "i \<noteq> j" "\<not> same_body pd nl i j"
    using near by (simp_all add: pair_near_def)
  have u: "len3 ?u < ?r" using len3_triangle3 [of ?m "?d i" "?d j"] m(1) di [rule_format, OF ij(1)] di [rule_format, OF ij(2)] by linarith
  have r: "?r \<le> max_list_radius nl" by (rule list_radius(2) [OF cut _ _ m(2) dia ij]) (use ty ij in simp_all)
  have same: "pair_cutoff pd0 nl i j = pair_cutoff pd nl i j" "diam_shift pd0 nl i j = diam_shift pd nl i j" "same_body pd0 nl i j = same_body pd nl i j"
    using D lp by (simp_all add: pair_cutoff_def diam_shift_def same_body_def)
  obtain n0 ni nj where n: "n0 \<in> images_of ?b" "ni \<in> images_of ?b" "nj \<in> images_of ?b"
    "?m = ?v + lattice_point ?b n0" "?d i = pos_of pd i - pos_of pd0 i + lattice_point ?b ni" "?d j = pos_of pd j - pos_of pd0 j + lattice_point ?b nj"
    using minImage_image [of ?b] by metis
  let ?n = "image_plus (image_minus n0 ni) nj"
  have img: "?n \<in> images_of ?b" using images_of_closed n(1-3) by blast
  have ue: "?u = ?w + lattice_point ?b ?n" unfolding n(4-6) by (simp add: lattice_image_plus lattice_image_minus algebra_simps)
  have half: "\<bar>vx ?u\<bar> < vx (m_L ?b) / 2" if "tx (m_periodic ?b)"
    using big that component_le_len3(1) [of ?u] u r nearest_plane_le(1) [OF b(1)] by (auto simp: box_too_small_def Let_def)
  moreover have "\<bar>vy ?u\<bar> < vy (m_L ?b) / 2" if "ty (m_periodic ?b)"
    using big that component_le_len3(2) [of ?u] u r nearest_plane_le(2) [OF b(1)] by (auto simp: box_too_small_def Let_def)
  moreover have "\<bar>vz ?u\<bar> < vz (m_L ?b) / 2" if "tz (m_periodic ?b)"
  proof (cases "ndim = 3")
    case True
    then show ?thesis using big that component_le_len3(3) [of ?u] u r nearest_plane_le(3) [OF b(1)] by (auto simp: box_too_small_def Let_def)
  next
    case False
    then have "vz (pos_of pd k) = 0" "vz (pos_of pd0 k) = 0" if "k < m_nparticles pd" for k
      using ok that D(3) by (simp_all add: positions_ok_def)
    then have "vz ?m = 0" "vz (?d i) = 0" "vz (?d j) = 0" using minImage_flat [OF b] ij by simp_all
    then show ?thesis using box_okD(3) [OF b(1)] by simp
  qed
  moreover have "\<bar>tx ?n\<bar> < 2 ^ 29 \<and> \<bar>ty ?n\<bar> < 2 ^ 29"
  proof -
    have f: "0 \<le> vx c \<and> vx c < 3 / 2 \<and> 0 \<le> vy c \<and> vy c < 3 / 2"
      if "c \<in> {makeFraction ?b (pos_of pd0 i), makeFraction ?b (pos_of pd0 j)}" for c
      using that proper_fraction [OF ok(2), of i] proper_fraction [OF ok(2), of j] ij D(1,3) by auto
    have bd: "?r \<le> vx (getNearestPlaneDistance ?b) \<Longrightarrow> \<bar>tx ?n\<bar> < 2 ^ 29" "?r \<le> vy (getNearestPlaneDistance ?b) \<Longrightarrow> \<bar>ty ?n\<bar> < 2 ^ 29"
      by (rule image_bound [OF b(1) ue u f]; assumption)+
    have "\<bar>tx ?n\<bar> < 2 ^ 29"
    proof (cases "tx (m_periodic ?b)")
      case True
      have "2 * max_list_radius nl < vx (getNearestPlaneDistance ?b)" using big True by (auto simp: box_too_small_def Let_def)
      then have "?r \<le> vx (getNearestPlaneDistance ?b)" using r u len3_nonneg [of ?u] by linarith
      then show ?thesis by (rule bd(1))
    qed (use img in \<open>simp add: images_of_def\<close>)
    moreover have "\<bar>ty ?n\<bar> < 2 ^ 29"
    proof (cases "ty (m_periodic ?b)")
      case True
      have "2 * max_list_radius nl < vy (getNearestPlaneDistance ?b)" using big True by (auto simp: box_too_small_def Let_def)
      then have "?r \<le> vy (getNearestPlaneDistance ?b)" using r u len3_nonneg [of ?u] by linarith
      then show ?thesis by (rule bd(2))
    qed (use img in \<open>simp add: images_of_def\<close>)
    ultimately show ?thesis by blast
  qed
  ultimately have "minImage ?b ?w = ?u"
    using minImage_unique [OF b _ img ue] difference_z [OF ok(2,2) refl] ij D(1,3) by simp
  then have "len3 (minImage (m_box pd0) ?w) \<le> ?r" using u D(1) by simp
  moreover have "cutoffs_ok pd0 nl" using cut D(11) by (simp add: cutoffs_ok_def)
  moreover have "0 \<le> ?r" using u len3_nonneg [of ?u] by linarith
  moreover have "unat (type_of pd0 i) < Particle_Data.getNTypes pd0" "unat (type_of pd0 j) < Particle_Data.getNTypes pd0"
    using ty [rule_format, OF ij(1)] ty [rule_format, OF ij(2)] D(11) D(12) [OF lp(1)] D(12) [OF lp(2)] by simp_all
  ultimately show ?thesis using m(2-4) same by (subst pair_within_len) simp_all
qed

section \<open>One call\<close>

lemma essence_compute [simp]: "essence (nl\<lparr>n_compute := c\<rparr>) = essence nl"
  by (simp add: essence_def)

lemma state_compute [simp]:
  "nlist_state pd (nl\<lparr>n_compute := c\<rparr>) = nlist_state pd nl" "heads_ok pd (nl\<lparr>n_compute := c\<rparr>) = heads_ok pd nl"
  "ex_arrays_ok pd (nl\<lparr>n_compute := c\<rparr>) = ex_arrays_ok pd nl" "nlist_fits pd (nl\<lparr>n_compute := c\<rparr>) = nlist_fits pd nl"
  "wanted pd (nl\<lparr>n_compute := c\<rparr>) = wanted pd nl"
  using nlist_fits_cong [of "nl\<lparr>n_compute := c\<rparr>" nl pd] wanted_cong [of "nl\<lparr>n_compute := c\<rparr>" nl pd]
    heads_ok_cong [of "nl\<lparr>n_compute := c\<rparr>" nl pd]
  by (simp_all add: nlist_state_def nlist_sized_def ex_arrays_ok_def)

lemma timeless_state:
  assumes "timeless nl' = timeless nl"
  shows "nlist_state pd nl' = nlist_state pd nl" "heads_ok pd nl' = heads_ok pd nl" "nlist_fits pd nl' = nlist_fits pd nl"
    "listed pd nl' = listed pd nl" "wanted pd nl' = wanted pd nl" "row_need pd nl' = row_need pd nl" "lists pd nl' A = lists pd nl A"
    "fresh pd nl' = fresh pd nl"
proof -
  note t = timelessD [OF assms]
  have acc: "accepted pd nl' = accepted pd nl" by (rule accepted_essence [OF t(1)])
  show "nlist_state pd nl' = nlist_state pd nl" by (simp add: nlist_state_def nlist_sized_def t)
  show "heads_ok pd nl' = heads_ok pd nl" by (rule heads_ok_cong) (simp_all add: t)
  show "nlist_fits pd nl' = nlist_fits pd nl" by (rule nlist_fits_cong) (simp_all add: t)
  show l: "listed pd nl' = listed pd nl" by (rule ext) (simp add: listed_def acc ex_indices_def t)
  show "wanted pd nl' = wanted pd nl" by (rule wanted_cong) (simp_all add: t)
  show "row_need pd nl' = row_need pd nl" by (rule row_need_cong) (simp_all add: t)
  show ls: "lists pd nl' A = lists pd nl A" for A by (rule lists_cong) (simp_all add: t)
  show "fresh pd nl' = fresh pd nl" by (simp add: fresh_def l ls t)
qed

text \<open>The fields that a rebuild and the decision leave alone, of use to callers.\<close>

definition kept :: "'a NeighborList_scheme \<Rightarrow> 'a NeighborList_scheme \<Rightarrow> bool" where
  "kept nl nl' \<longleftrightarrow> essence nl' = essence nl \<and> m_exclusions_set nl' = m_exclusions_set nl \<and> m_n_ex_tag nl' = m_n_ex_tag nl
     \<and> m_ex_list_tag nl' = m_ex_list_tag nl \<and> m_every nl' = m_every nl \<and> ex_indices nl' = ex_indices nl"

lemma kept_linked: "kept nl nl' \<Longrightarrow> ex_linked pd nl' = ex_linked pd nl"
proof -
  assume k: "kept nl nl'"
  then have "ex_tags nl' = ex_tags nl" by (intro ext) (simp add: ex_tags_def kept_def)
  then show ?thesis using k by (simp add: ex_linked_def kept_def)
qed

lemma kept_trans: "kept a b \<Longrightarrow> kept b c \<Longrightarrow> kept a c"
  by (simp add: kept_def)

lemma timeless_kept: "timeless nl' = timeless nl \<Longrightarrow> kept nl nl'"
proof -
  assume t: "timeless nl' = timeless nl"
  have "ex_indices nl' = ex_indices nl" by (rule ext) (simp add: ex_indices_def timelessD [OF t])
  then show ?thesis using timelessD [OF t] by (simp add: kept_def)
qed

lemma rebuild_frameD:
  assumes "rebuild_frame nl' = rebuild_frame nl"
  shows "kept nl nl'" "m_force_update nl' = m_force_update nl" "m_last_checked_tstep nl' = m_last_checked_tstep nl"
    "m_last_updated_tstep nl' = m_last_updated_tstep nl" "n_compute nl' = n_compute nl"
proof -
  have e: "essence nl' = essence nl" by (rule rebuild_frame_memory [OF assms])
  have "m_exclusions_set nl' = m_exclusions_set nl" using arg_cong [OF assms, of m_exclusions_set] by (simp add: rebuild_frame_def memory_frame_def NeighborList.defs)
  moreover have "m_n_ex_tag nl' = m_n_ex_tag nl" using arg_cong [OF assms, of m_n_ex_tag] by (simp add: rebuild_frame_def memory_frame_def NeighborList.defs)
  moreover have "m_ex_list_tag nl' = m_ex_list_tag nl" using arg_cong [OF assms, of m_ex_list_tag] by (simp add: rebuild_frame_def memory_frame_def NeighborList.defs)
  moreover have "m_every nl' = m_every nl" using arg_cong [OF assms, of m_every] by (simp add: rebuild_frame_def memory_frame_def NeighborList.defs)
  moreover have "m_n_ex_idx nl' = m_n_ex_idx nl" using arg_cong [OF assms, of m_n_ex_idx] by (simp add: rebuild_frame_def memory_frame_def NeighborList.defs)
  moreover have "m_ex_list_idx nl' = m_ex_list_idx nl" using arg_cong [OF assms, of m_ex_list_idx] by (simp add: rebuild_frame_def memory_frame_def NeighborList.defs)
  ultimately show "kept nl nl'" using e by (simp add: kept_def ex_indices_def fun_eq_iff)
  show "m_force_update nl' = m_force_update nl" using arg_cong [OF assms, of m_force_update] by (simp add: rebuild_frame_def memory_frame_def NeighborList.defs)
  show "m_last_checked_tstep nl' = m_last_checked_tstep nl" using arg_cong [OF assms, of m_last_checked_tstep] by (simp add: rebuild_frame_def memory_frame_def NeighborList.defs)
  show "m_last_updated_tstep nl' = m_last_updated_tstep nl" using arg_cong [OF assms, of m_last_updated_tstep] by (simp add: rebuild_frame_def memory_frame_def NeighborList.defs)
  show "n_compute nl' = n_compute nl" using arg_cong [OF assms, of n_compute] by (simp add: rebuild_frame_def memory_frame_def NeighborList.defs)
qed

lemma needsUpdating_updated: "m_last_updated_tstep nl \<le> t \<Longrightarrow> m_last_updated_tstep (snd (needsUpdating pd t nl)) \<le> t"
  by (simp add: needsUpdating_def count_period_def Let_def split: prod.split)

lemma shouldCompute_time: "m_last_computed c \<le> t \<Longrightarrow> m_last_computed (snd (shouldCompute t c)) \<le> t"
  by (simp add: shouldCompute_def)

lemma shouldCompute_later: "m_last_computed c < t \<Longrightarrow> fst (shouldCompute t c)"
  by (simp add: shouldCompute_def)

text \<open>The state of a list that has been computed for time \<open>t\<close>.\<close>

definition computed :: "nat \<Rightarrow> 'a NeighborList_scheme \<Rightarrow> bool" where
  "computed t nl \<longleftrightarrow> \<not> m_force_update nl \<and> m_last_checked_tstep nl \<le> t \<and> m_last_updated_tstep nl \<le> t \<and> m_last_computed (n_compute nl) \<le> t"

context nlist_builder
begin

lemma compute_forced:
  assumes "m_force_update nl" "ready pd t (refreshed pd nl)" "nlist_state pd nl" "nlist_fits pd (refreshed pd nl)"
    "m_exclusions_set nl \<longrightarrow> ex_arrays_ok pd nl" "m_last_updated_tstep nl \<le> t" "m_last_computed (n_compute nl) \<le> t"
  shows "\<exists>nl'. nlist_compute build pd t nl = Some (Inr nl') \<and> ready pd t nl' \<and> nlist_state pd nl' \<and> fresh pd nl' \<and> computed t nl'
    \<and> essence nl' = essence (refreshed pd nl) \<and> ex_linked pd nl'
    \<and> m_every nl' = m_every nl \<and> m_exclusions_set nl' = m_exclusions_set nl \<and> m_n_ex_tag nl' = m_n_ex_tag nl \<and> m_ex_list_tag nl' = m_ex_list_tag nl
    \<and> (\<forall>i < m_nparticles pd. Nmax_of pd nl' i \<le> row_need pd (refreshed pd nl) (unat (type_of pd i)))"
proof -
  define c where "c = snd (shouldCompute t (n_compute nl))"
  define nl0 where "nl0 = (refreshed pd nl)\<lparr>n_compute := c\<rparr>"
  have r0: "ready pd t nl0" by (rule ready_essence [OF assms(2)]) (simp_all add: nl0_def)
  have s0: "nlist_state pd nl0" "m_force_update nl0" "nlist_fits pd nl0" "m_exclusions_set nl0 \<longrightarrow> ex_arrays_ok pd nl0"
    using assms(1,3-5) by (simp_all add: nl0_def)
  from arranged_spec [OF s0(1) nlist_fits_head [OF s0(3)] s0(4)] obtain nl1 where
    a: "arranged pd nl0 = Inr nl1" "nlist_state pd nl1" "heads_ok pd nl1" "essence nl1 = essence nl0" "NeighborList.more nl1 = NeighborList.more nl0"
    "n_Nmax nl1 = n_Nmax nl0" "m_force_update nl1 = m_force_update nl0" "m_exclusions_set nl1 = m_exclusions_set nl0"
    "m_n_ex_tag nl1 = m_n_ex_tag nl0" "m_ex_list_tag nl1 = m_ex_list_tag nl0"
    "ex_linked pd nl1" by blast
  have clk: "m_last_updated_tstep nl1 = m_last_updated_tstep nl" "n_compute nl1 = c" "m_every nl1 = m_every nl"
  proof -
    have b: "buildHeadList pd x = x\<lparr>m_head_list := m_head_list (buildHeadList pd x), m_nlist := m_nlist (buildHeadList pd x)\<rparr>" for x :: "'a NeighborList_scheme"
      by (simp add: buildHeadList_def resizeNlist_def Let_def split: prod.split)
    have u: "updateExListIdx pd x = Inr y \<Longrightarrow> y = x\<lparr>m_n_ex_idx := m_n_ex_idx y, m_ex_list_idx := m_ex_list_idx y\<rparr>" for x y :: "'a NeighborList_scheme"
      by (auto simp: updateExListIdx_def bindr_Inr check_def Let_def split: prod.splits if_splits)
    have f: "m_last_updated_tstep nl0 = m_last_updated_tstep nl" "n_compute nl0 = c" "m_every nl0 = m_every nl"
      by (simp_all add: nl0_def refreshed_def updateRList_def Let_def)
    have bf: "m_last_updated_tstep (buildHeadList pd nl0) = m_last_updated_tstep nl0" "n_compute (buildHeadList pd nl0) = n_compute nl0" "m_every (buildHeadList pd nl0) = m_every nl0"
      by (subst b, simp)+
    have "m_last_updated_tstep nl1 = m_last_updated_tstep (buildHeadList pd nl0) \<and> n_compute nl1 = n_compute (buildHeadList pd nl0) \<and> m_every nl1 = m_every (buildHeadList pd nl0)"
    proof (cases "m_exclusions_set (buildHeadList pd nl0)")
      case True
      then have "updateExListIdx pd (buildHeadList pd nl0) = Inr nl1" using a(1) by (simp add: arranged_def Let_def)
      from u [OF this] obtain p q where "nl1 = (buildHeadList pd nl0)\<lparr>m_n_ex_idx := p, m_ex_list_idx := q\<rparr>" by blast
      then show ?thesis by simp
    next
      case False
      then show ?thesis using a(1) by (simp add: arranged_def Let_def)
    qed
    then show "m_last_updated_tstep nl1 = m_last_updated_tstep nl" "n_compute nl1 = c" "m_every nl1 = m_every nl" using f bf by simp_all
  qed
  define nl2 where "nl2 = snd (needsUpdating pd t nl1)"
  have tl: "timeless nl2 = timeless nl1" unfolding nl2_def by (rule needsUpdating_timeless)
  note T = timelessD [OF tl] and S = timeless_state [OF tl, of pd]
  have f1: "m_force_update nl1" using a(7) s0(2) by simp
  have n: "fst (needsUpdating pd t nl1)" "\<not> m_force_update nl2" "m_last_checked_tstep nl2 = t" "m_last_updated_tstep nl2 \<le> t"
    using needsUpdating_forced [OF f1, of pd t] needsUpdating_checked [of pd t nl1] needsUpdating_updated [of nl1 t pd] clk(1) assms(6) by (simp_all add: nl2_def)
  have r2: "ready pd t nl2" by (rule ready_essence [OF r0]) (simp_all add: T a(4,5))
  have fit: "nlist_fits pd nl1" using nlist_fits_cong [OF a(4,6), of pd] s0(3) by simp
  from rebuild_spec [OF r2 S(1) [THEN iffD2, OF a(2)] S(2) [THEN iffD2, OF a(3)] S(3) [THEN iffD2, OF fit]] obtain nl' where
    b: "rebuild build pd t nl2 = Some (Inr nl')" "ready pd t nl'" "nlist_state pd nl'" "fresh pd nl'" "rebuild_frame nl' = rebuild_frame nl2"
    "listed pd nl' = listed pd nl2" "\<forall>i < m_nparticles pd. Nmax_of pd nl' i \<le> row_need pd nl2 (unat (type_of pd i))" by blast
  note R = rebuild_frameD [OF b(5)]
  have K: "kept nl2 nl'" by (rule R(1))
  have ess: "essence nl' = essence (refreshed pd nl)" using K T(1) a(4) by (simp add: kept_def nl0_def)
  have e: "m_exclusions_set nl' = m_exclusions_set nl" "m_n_ex_tag nl' = m_n_ex_tag nl" "m_ex_list_tag nl' = m_ex_list_tag nl" "m_every nl' = m_every nl"
    using K T a(8-10) clk(3) by (simp_all add: kept_def nl0_def)
  have cmp: "nlist_compute build pd t nl = Some (Inr nl')"
  proof -
    obtain sh where sh: "shouldCompute t (n_compute nl) = (sh, c)" unfolding c_def by (cases "shouldCompute t (n_compute nl)") simp
    have "nlist_compute build pd t nl = (case arranged pd nl0 of Inl e \<Rightarrow> Some (Inl e)
        | Inr nl \<Rightarrow> let (needs, nl) = needsUpdating pd t nl in if needs then rebuild build pd t nl else Some (Inr nl))"
      using assms(1) by (simp add: nlist_compute_eq Let_def sh nl0_def [symmetric] s0(2))
    also have "\<dots> = rebuild build pd t nl2" using n(1) by (simp add: a(1) nl2_def split_def)
    finally show ?thesis by (simp add: b(1))
  qed
  have "m_last_computed c \<le> t" using shouldCompute_time [OF assms(7)] by (simp add: c_def)
  then have fin: "computed t nl'" using R(2-5) n T(20) clk(2) by (simp add: computed_def)
  have lst: "ex_linked pd nl'" using a(11) kept_linked [OF K, of pd] kept_linked [OF timeless_kept [OF tl], of pd] by simp
  have rn: "row_need pd nl2 = row_need pd (refreshed pd nl)"
    by (rule row_need_cong) (simp_all add: T(1,6) a(4,6), simp_all add: nl0_def)
  show ?thesis using cmp b(2-4) fin ess lst e b(7) unfolding rn by blast
qed

end

text \<open>A call between forced ones: the list stays, and no particle has moved far, or it is built anew.\<close>

context nlist_builder
begin

lemma compute_checked:
  assumes "\<not> m_rcut_changed nl" "computed t nl" "t < t'" "m_every nl \<le> 1" "ready pd t' nl" "nlist_state pd nl" "heads_ok pd nl" "nlist_fits pd nl"
  shows "\<exists>nl'. nlist_compute build pd t' nl = Some (Inr nl') \<and> ready pd t' nl' \<and> nlist_state pd nl' \<and> computed t' nl' \<and> kept nl nl'
    \<and> listed pd nl' = listed pd nl \<and> (\<forall>i < m_nparticles pd. Nmax_of pd nl' i \<le> row_need pd nl (unat (type_of pd i)))
    \<and> (fresh pd nl' \<or> \<not> distanceCheck pd nl \<and> (\<exists>c. timeless nl' = timeless (nl\<lparr>n_compute := c\<rparr>)))"
proof -
  define c where "c = snd (shouldCompute t' (n_compute nl))"
  define nl0 where "nl0 = nl\<lparr>n_compute := c\<rparr>"
  have clk: "\<not> m_force_update nl" "m_last_checked_tstep nl \<le> t" "m_last_updated_tstep nl \<le> t" "m_last_computed (n_compute nl) \<le> t"
    using assms(2) by (simp_all add: computed_def)
  have sh: "shouldCompute t' (n_compute nl) = (True, c)"
    using shouldCompute_later [of "n_compute nl" t'] clk(4) assms(3) by (simp add: c_def prod_eq_iff)
  have "check_period_end nl \<le> m_last_updated_tstep nl + m_every nl" by (simp add: check_period_end_def)
  then have due: "\<not> t' < check_period_end nl0" using clk(3) assms(3,4) by (simp add: nl0_def check_period_end_def)
  define nl1 where "nl1 = snd (needsUpdating pd t' nl0)"
  have tl: "timeless nl1 = timeless nl0" unfolding nl1_def by (rule needsUpdating_timeless)
  note T = timelessD [OF tl] and S = timeless_state [OF tl, of pd]
  have f: "\<not> m_force_update nl1" "m_last_checked_tstep nl1 = t'" "m_last_updated_tstep nl1 \<le> t'" "m_last_computed (n_compute nl1) \<le> t'"
    using needsUpdating_unforced [of nl0 pd t'] needsUpdating_checked [of pd t' nl0] needsUpdating_updated [of nl0 t' pd] clk assms(3) T(20)
      shouldCompute_time [of "n_compute nl" t'] by (simp_all add: nl1_def nl0_def c_def)
  have cmp: "nlist_compute build pd t' nl = (if fst (needsUpdating pd t' nl0) then rebuild build pd t' nl1 else Some (Inr nl1))"
    using assms(1) clk(1) by (simp add: nlist_compute_eq refreshed_def sh nl0_def [symmetric] nl1_def split_def Let_def) (simp add: nl0_def)
  have r1: "ready pd t' nl1" by (rule ready_essence [OF assms(5)]) (simp_all add: T nl0_def)
  have st: "nlist_state pd nl1" "heads_ok pd nl1" "nlist_fits pd nl1" using assms(6-8) by (simp_all add: S) (simp_all add: nl0_def)
  have ess: "essence nl1 = essence nl" using T(1) by (simp add: nl0_def)
  have "kept nl nl0" by (simp add: kept_def nl0_def ex_indices_def fun_eq_iff)
  then have k1: "kept nl nl1" by (rule kept_trans) (rule timeless_kept [OF tl])
  have acc: "accepted pd nl0 = accepted pd nl" by (rule accepted_essence) (simp add: nl0_def)
  have l1: "listed pd nl1 = listed pd nl" unfolding S(4) by (rule ext) (simp add: listed_def ex_indices_def acc, simp add: nl0_def)
  have rn: "row_need pd nl1 = row_need pd nl" by (rule row_need_cong) (simp_all add: ess T(6), simp add: nl0_def)
  show ?thesis
  proof (cases "fst (needsUpdating pd t' nl0)")
    case True
    from rebuild_spec [OF r1 st] obtain nl' where
      b: "rebuild build pd t' nl1 = Some (Inr nl')" "ready pd t' nl'" "nlist_state pd nl'" "fresh pd nl'" "rebuild_frame nl' = rebuild_frame nl1"
      "listed pd nl' = listed pd nl1" "\<forall>i < m_nparticles pd. Nmax_of pd nl' i \<le> row_need pd nl1 (unat (type_of pd i))" by blast
    note R = rebuild_frameD [OF b(5)]
    have "kept nl nl'" by (rule kept_trans [OF k1 R(1)])
    moreover have "computed t' nl'" using R(2-5) f by (simp add: computed_def)
    moreover have "nlist_compute build pd t' nl = Some (Inr nl')" using cmp True b(1) by simp
    ultimately show ?thesis using b(2-4,6,7) l1 unfolding rn by (intro exI [of _ nl'] conjI disjI1) simp_all
  next
    case False
    have "\<not> distanceCheck pd nl0" using needsUpdating_checks [OF _ _ due False] clk(1,2) assms(3) by (simp add: nl0_def)
    then have far: "\<not> distanceCheck pd nl" by (simp add: nl0_def distanceCheck_def)
    have "computed t' nl1" using f by (simp add: computed_def)
    moreover have "nlist_compute build pd t' nl = Some (Inr nl1)" using cmp False by simp
    moreover have "\<forall>i < m_nparticles pd. Nmax_of pd nl1 i \<le> row_need pd nl (unat (type_of pd i))"
      using row_need_ge [of nl _ pd] by (simp add: T(6) nl0_def)
    ultimately show ?thesis using r1 st(1) k1 l1 far tl unfolding nl0_def by (intro exI [of _ nl1] conjI disjI2) auto
  qed
qed

end

section \<open>A simulation\<close>

text \<open>The calls of a simulation: the particle data and the time of every call.\<close>

fun run_nlist :: "'a builder \<Rightarrow> (ParticleData \<times> nat) list \<Rightarrow> 'a NeighborList_scheme \<Rightarrow> 'a NeighborList_scheme result option" where
  "run_nlist build [] nl = Some (Inr nl)"
| "run_nlist build ((pd, t) # calls) nl =
     (case nlist_compute build pd t nl of Some (Inr nl') \<Rightarrow> run_nlist build calls nl' | r \<Rightarrow> r)"

text \<open>Every pair that interacts is listed, unless it is excluded.\<close>

definition excluded_pair :: "ParticleData \<Rightarrow> 'a NeighborList_scheme \<Rightarrow> nat \<Rightarrow> nat \<Rightarrow> bool" where
  "excluded_pair pd nl i j \<longleftrightarrow> m_exclusions_set nl \<and> j \<in> (!) (m_rtag pd) ` ex_tags nl (m_tag (m_arrays pd) ! i)"

definition covers :: "ParticleData \<Rightarrow> 'a NeighborList_scheme \<Rightarrow> bool" where
  "covers pd nl \<longleftrightarrow> (\<forall>i < m_nparticles pd. \<forall>j < m_nparticles pd. pair_near pd nl i j \<and> stored nl i j \<and> \<not> excluded_pair pd nl i j
     \<longrightarrow> j \<in> set (neighbors (nview nl) i))"

text \<open>The list was built for \<open>pd0\<close>, and particles have not moved far since then.\<close>

definition tracks :: "nat \<Rightarrow> ParticleData \<Rightarrow> ParticleData \<Rightarrow> 'a NeighborList_scheme \<Rightarrow> bool" where
  "tracks ndim pd0 pd nl \<longleftrightarrow> moved pd0 pd \<and> positions_ok ndim pd0 \<and> fresh pd0 nl \<and> ex_linked pd0 nl"

text \<open>What does not change during a run.\<close>

definition geometry_ok :: "nat \<Rightarrow> ParticleData \<Rightarrow> 'a NeighborList_scheme \<Rightarrow> bool" where
  "geometry_ok ndim pd nl \<longleftrightarrow> cutoffs_ok pd nl \<and> diameters_ok pd nl \<and> \<not> box_too_small ndim pd (max_list_radius nl) \<and> 0 \<le> m_r_buff nl
     \<and> box_ok (m_global_box pd)"

lemma geometry_essence: "essence a = essence b \<Longrightarrow> geometry_ok ndim pd a = geometry_ok ndim pd b"
  by (simp add: geometry_ok_def cutoffs_ok_def diameters_ok_def max_list_radius_def add_shift_def type_pair_def essence_def)

lemma geometry_moved: "moved pd0 pd \<Longrightarrow> geometry_ok ndim pd nl = geometry_ok ndim pd0 nl"
  using movedD [of pd0 pd] by (simp add: geometry_ok_def cutoffs_ok_def diameters_ok_def box_too_small_def)

lemma pair_near_essence: "essence a = essence b \<Longrightarrow> pair_near pd a = pair_near pd b"
  by (intro ext) (simp add: pair_near_def pair_cutoff_def same_body_def diam_shift_def type_pair_def essence_def)

lemma distanceCheck_cong:
  "m_rcut_max a = m_rcut_max b \<Longrightarrow> m_r_buff a = m_r_buff b \<Longrightarrow> m_last_L a = m_last_L b \<Longrightarrow> m_last_pos a = m_last_pos b
    \<Longrightarrow> distanceCheck pd a = distanceCheck pd b"
  unfolding distanceCheck_def by (simp only:)

lemma kept_refl: "kept nl nl"
  by (simp add: kept_def)

lemma wanted_covers:
  assumes l: "lists pd0 nl (listed pd0 nl)" "\<forall>i < m_nparticles pd. listed pd0 nl i = wanted pd0 nl i" and mv: "moved pd0 pd"
    and w: "\<And>i j. i < m_nparticles pd \<Longrightarrow> j < m_nparticles pd \<Longrightarrow> pair_near pd nl i j \<Longrightarrow> pair_within pd0 nl i j"
  shows "covers pd nl"
  unfolding covers_def
proof (intro allI impI)
  fix i j
  assume ij: "i < m_nparticles pd" "j < m_nparticles pd" and h: "pair_near pd nl i j \<and> stored nl i j \<and> \<not> excluded_pair pd nl i j"
  note D = movedD [OF mv]
  have "j \<in> accepted pd0 nl i" using w [OF ij] h ij D(3) by (simp add: accepted_def)
  moreover have "\<not> excluded_pair pd0 nl i j" using h D(6,7) by (simp add: excluded_pair_def)
  ultimately have "j \<in> wanted pd0 nl i" by (auto simp: wanted_def excluded_pair_def)
  moreover have "set (neighbors (nview nl) i) = listed pd0 nl i" using l(1) ij(1) D(3) by (simp add: lists_def)
  ultimately show "j \<in> set (neighbors (nview nl) i)" using l(2) ij(1) by simp
qed

lemma pair_near_within:
  assumes "geometry_ok ndim pd nl" "nlist_sized pd nl" "i < m_nparticles pd" "j < m_nparticles pd" "pair_near pd nl i j"
  shows "pair_within pd nl i j"
proof -
  have t: "unat (type_of pd i) < Particle_Data.getNTypes pd" "unat (type_of pd j) < Particle_Data.getNTypes pd"
    using assms(2-4) by (simp_all add: nlist_sized_def)
  have n: "0 < pair_cutoff pd nl i j" "i \<noteq> j" "\<not> same_body pd nl i j"
    "len3 (minImage (m_box pd) (pos_of pd i - pos_of pd j)) \<le> pair_cutoff pd nl i j + diam_shift pd nl i j"
    using assms(5) by (simp_all add: pair_near_def)
  have g: "cutoffs_ok pd nl" "0 \<le> m_r_buff nl" using assms(1) by (simp_all add: geometry_ok_def)
  have "len3 (minImage (m_box pd) (pos_of pd i - pos_of pd j)) \<le> pair_cutoff pd nl i j + m_r_buff nl + diam_shift pd nl i j"
    using n(4) g(2) by linarith
  moreover have "0 \<le> pair_cutoff pd nl i j + m_r_buff nl + diam_shift pd nl i j"
    using calculation len3_nonneg [of "minImage (m_box pd) (pos_of pd i - pos_of pd j)"] by linarith
  ultimately show ?thesis using pair_within_len [OF g(1) t n(1)] n by simp
qed

lemma fresh_covers:
  assumes "geometry_ok ndim pd nl" "nlist_state pd nl" "fresh pd nl" "ex_linked pd nl"
  shows "covers pd nl"
proof (rule wanted_covers [OF _ _ moved_refl])
  show "lists pd nl (listed pd nl)" using assms(3) by (simp add: fresh_def)
  show "\<forall>i < m_nparticles pd. listed pd nl i = wanted pd nl i" using linked_wanted [OF assms(4)] by blast
  have sized: "nlist_sized pd nl" using assms(2) by (simp add: nlist_state_def)
  show "pair_within pd nl i j" if "i < m_nparticles pd" "j < m_nparticles pd" "pair_near pd nl i j" for i j
    by (rule pair_near_within [OF assms(1) sized that])
qed

lemma unmoved_covers:
  assumes tr: "tracks ndim pd0 pd nl" and ok: "positions_ok ndim pd" and g: "geometry_ok ndim pd nl" and st: "nlist_state pd nl"
    and far: "\<not> distanceCheck pd nl"
  shows "covers pd nl"
proof (rule wanted_covers)
  have mv: "moved pd0 pd" and ok0: "positions_ok ndim pd0" and fr: "fresh pd0 nl" using tr by (simp_all add: tracks_def)
  note D = movedD [OF mv]
  show "moved pd0 pd" by (rule mv)
  show "lists pd0 nl (listed pd0 nl)" "\<forall>i < m_nparticles pd. listed pd0 nl i = wanted pd0 nl i"
    using tr fr D(3) linked_wanted [of pd0 nl] by (simp_all add: tracks_def fresh_def)
  have last: "\<forall>i < m_nparticles pd. m_last_pos nl ! i = pos_of pd0 i" "m_last_L nl = getNearestPlaneDistance (m_global_box pd)"
    using fr D(2,3) by (simp_all add: fresh_def)
  have gs: "cutoffs_ok pd nl" "diameters_ok pd nl" "\<not> box_too_small ndim pd (max_list_radius nl)" "box_ok (m_global_box pd)" using g by (simp_all add: geometry_ok_def)
  have di: "\<forall>i < m_nparticles pd. len3 (minImage (m_box pd) (pos_of pd i - pos_of pd0 i)) < m_r_buff nl / 2"
    using distanceCheck_bound [OF far last(2) gs(4)] last(1) by simp
  have ty: "\<forall>i < m_nparticles pd. unat (type_of pd i) < Particle_Data.getNTypes pd" using st by (simp add: nlist_state_def nlist_sized_def)
  show "pair_within pd0 nl i j" if "i < m_nparticles pd" "j < m_nparticles pd" "pair_near pd nl i j" for i j
    by (rule verlet [OF mv ok ok0 gs(1-3) that(1,2) ty di that(3)])
qed

text \<open>At most \<open>B\<close> neighbors of a particle, and memory for that many.\<close>

definition dense_at_most :: "nat \<Rightarrow> ParticleData \<Rightarrow> 'a NeighborList_scheme \<Rightarrow> bool" where
  "dense_at_most B pd nl \<longleftrightarrow> (\<forall>i < m_nparticles pd. card (accepted pd nl i) \<le> B)"

definition rows_at_most :: "nat \<Rightarrow> ParticleData \<Rightarrow> 'a NeighborList_scheme \<Rightarrow> bool" where
  "rows_at_most B pd nl \<longleftrightarrow> (\<forall>i < m_nparticles pd. Nmax_of pd nl i \<le> round8 B) \<and> m_nparticles pd * round8 B < 2 ^ 31"

lemma row_need_le:
  assumes "dense_at_most B pd nl" "rows_at_most B pd nl" "i < m_nparticles pd"
  shows "row_need pd nl (unat (type_of pd i)) \<le> round8 B"
proof -
  let ?C = "counts pd nl (unat (type_of pd i))"
  have "Max (insert 0 ?C) \<le> B"
    using assms(1) finite_counts by (subst Max_le_iff) (auto simp: counts_def dense_at_most_def)
  then show ?thesis using round8_mono assms(2,3) by (auto simp: row_need_def rows_at_most_def Let_def)
qed

lemma rows_fits: "dense_at_most B pd nl \<Longrightarrow> rows_at_most B pd nl \<Longrightarrow> nlist_fits pd nl"
proof -
  assume a: "dense_at_most B pd nl" "rows_at_most B pd nl"
  have "(\<Sum>i<m_nparticles pd. row_need pd nl (unat (type_of pd i))) \<le> (\<Sum>i<m_nparticles pd. round8 B)"
    by (rule sum_mono) (use row_need_le [OF a] in simp)
  then show ?thesis using a(2) by (simp add: nlist_fits_def rows_at_most_def)
qed

lemma accepted_near_cong: "essence a = essence b \<Longrightarrow> dense_at_most B pd a = dense_at_most B pd b"
  using accepted_essence [of a b pd] by (simp add: dense_at_most_def)

text \<open>A run after a first call: particles move in the box, time passes, and the density is bounded.\<close>

fun calls_ok :: "nat \<Rightarrow> nat \<Rightarrow> 'a NeighborList_scheme \<Rightarrow> ParticleData \<times> nat \<Rightarrow> (ParticleData \<times> nat) list \<Rightarrow> bool" where
  "calls_ok ndim B nl prev [] = True"
| "calls_ok ndim B nl (pd0, t0) ((pd, t) # calls) \<longleftrightarrow>
     moved pd0 pd \<and> t0 < t \<and> positions_ok ndim pd \<and> dense_at_most B pd nl \<and> calls_ok ndim B nl (pd, t) calls"

lemma calls_ok_essence: "essence a = essence b \<Longrightarrow> calls_ok ndim B a p calls = calls_ok ndim B b p calls"
proof (induction calls arbitrary: p)
  case (Cons c calls)
  then show ?case using accepted_near_cong [of a b B] by (cases p; cases c) simp
qed simp

text \<open>A builder that can be called again when particles have moved.\<close>

locale moving_builder = nlist_builder build ready for build :: "'a builder" and ready +
  fixes ndim :: nat
  assumes ready_moved: "ready pd t nl \<Longrightarrow> moved pd pd' \<Longrightarrow> positions_ok ndim pd' \<Longrightarrow> t < t' \<Longrightarrow> ready pd' t' nl"
begin

lemma run_covers:
  "\<not> m_rcut_changed nl \<Longrightarrow> computed t nl \<Longrightarrow> m_every nl \<le> 1 \<Longrightarrow> ready pd t nl \<Longrightarrow> nlist_state pd nl \<Longrightarrow> heads_ok pd nl
    \<Longrightarrow> rows_at_most B pd nl \<Longrightarrow> tracks ndim pd0 pd nl \<Longrightarrow> geometry_ok ndim pd nl \<Longrightarrow> covers pd nl \<Longrightarrow> calls_ok ndim B nl (pd, t) calls
    \<Longrightarrow> \<exists>nl' pd1. run_nlist build calls nl = Some (Inr nl') \<and> covers (fst (last ((pd, t) # calls))) nl' \<and> kept nl nl'
      \<and> tracks ndim pd1 (fst (last ((pd, t) # calls))) nl' \<and> nlist_state (fst (last ((pd, t) # calls))) nl'"
proof (induction calls arbitrary: pd0 pd t nl)
  case Nil
  then show ?case using kept_refl [of nl] by (intro exI [of _ nl] exI [of _ pd0] conjI) simp_all
next
  case (Cons call calls)
  obtain pd' t' where call: "call = (pd', t')" by (cases call)
  have c: "moved pd pd'" "t < t'" "positions_ok ndim pd'" "dense_at_most B pd' nl" "calls_ok ndim B nl (pd', t') calls"
    using Cons.prems(11) by (simp_all add: call)
  note D = movedD [OF c(1)]
  have lp: "i < length (m_pos (m_arrays pd))" if "i < m_nparticles pd" for i using Cons.prems(5) that by (simp add: nlist_state_def)
  have ty: "type_of pd' i = type_of pd i" if "i < m_nparticles pd" for i using D(12) [OF lp [OF that]] .
  have head: "head_at pd' nl i = head_at pd nl i" if "i \<le> m_nparticles pd" for i
    unfolding head_at_def by (rule sum.cong) (use that ty in simp_all)
  have st: "nlist_state pd' nl"
    using Cons.prems(5) D ty c(3) by (simp add: nlist_state_def nlist_sized_def positions_ok_def)
  have hd: "heads_ok pd' nl" using Cons.prems(6) head D(3) by (simp add: heads_ok_def)
  have rows: "rows_at_most B pd' nl" using Cons.prems(7) ty D(3) by (simp add: rows_at_most_def)
  have geo: "geometry_ok ndim pd' nl" using geometry_moved [OF c(1)] Cons.prems(9) by blast
  have r': "ready pd' t' nl" by (rule ready_moved [OF Cons.prems(4) c(1,3,2)])
  have tr: "tracks ndim pd0 pd' nl" using Cons.prems(8) moved_trans [OF _ c(1)] D(3) by (auto simp: tracks_def)
  from compute_checked [OF Cons.prems(1,2) c(2) Cons.prems(3) r' st hd rows_fits [OF c(4) rows]] obtain nl1 where
    n: "nlist_compute build pd' t' nl = Some (Inr nl1)" "ready pd' t' nl1" "nlist_state pd' nl1" "computed t' nl1" "kept nl nl1"
    "listed pd' nl1 = listed pd' nl" "\<forall>i < m_nparticles pd'. Nmax_of pd' nl1 i \<le> row_need pd' nl (unat (type_of pd' i))"
    "fresh pd' nl1 \<or> \<not> distanceCheck pd' nl \<and> (\<exists>c. timeless nl1 = timeless (nl\<lparr>n_compute := c\<rparr>))" by blast
  have ess: "essence nl1 = essence nl" using n(5) by (simp add: kept_def)
  have flags: "\<not> m_rcut_changed nl1" "m_every nl1 \<le> 1" using ess n(5) Cons.prems(1,3) by (simp_all add: essence_def kept_def)
  have rows1: "rows_at_most B pd' nl1"
    using n(7) row_need_le [OF c(4) rows] rows by (fastforce simp: rows_at_most_def)
  have geo1: "geometry_ok ndim pd' nl1" using geometry_essence [OF ess] geo by blast
  have calls1: "calls_ok ndim B nl1 (pd', t') calls" using calls_ok_essence [OF ess] c(5) by blast
  have link: "ex_linked pd' nl1"
  proof -
    have "ex_linked pd' nl = ex_linked pd0 nl" using movedD [of pd0 pd'] tr by (simp add: tracks_def ex_linked_def)
    then show ?thesis using tr kept_linked [OF n(5)] by (simp add: tracks_def)
  qed
  have cov: "covers pd' nl1 \<and> (\<exists>pd1. tracks ndim pd1 pd' nl1) \<and> heads_ok pd' nl1"
    using n(8)
  proof
    assume fr: "fresh pd' nl1"
    have "tracks ndim pd' pd' nl1" using fr link c(3) by (simp add: tracks_def)
    moreover have "heads_ok pd' nl1" using fr by (simp add: fresh_def lists_def rows_fit_def)
    ultimately show ?thesis using fresh_covers [OF geo1 n(3) fr link] by blast
  next
    assume "\<not> distanceCheck pd' nl \<and> (\<exists>c. timeless nl1 = timeless (nl\<lparr>n_compute := c\<rparr>))"
    then obtain cc where far: "\<not> distanceCheck pd' nl" and tl: "timeless nl1 = timeless (nl\<lparr>n_compute := cc\<rparr>)" by blast
    have "timeless (nl\<lparr>n_compute := cc\<rparr>) = timeless (nl\<lparr>n_compute := cc\<rparr>)" ..
    note T = timelessD [OF tl] and S = timeless_state [OF tl]
    have hd1: "heads_ok pd' nl1" using S(2) [of pd'] hd by simp
    have "fresh pd0 (nl\<lparr>n_compute := cc\<rparr>) = fresh pd0 nl"
    proof -
      have acc: "accepted pd0 (nl\<lparr>n_compute := cc\<rparr>) = accepted pd0 nl" by (rule accepted_essence) simp
      have "listed pd0 (nl\<lparr>n_compute := cc\<rparr>) = listed pd0 nl" by (rule ext) (simp add: listed_def ex_indices_def acc)
      moreover have "lists pd0 (nl\<lparr>n_compute := cc\<rparr>) A = lists pd0 nl A" for A by (rule lists_cong) simp_all
      ultimately show ?thesis by (simp add: fresh_def)
    qed
    then have fr0: "fresh pd0 nl1" using S(8) [of pd0] tr by (simp add: tracks_def)
    have "ex_linked pd0 nl1" using tr kept_linked [OF n(5)] by (simp add: tracks_def)
    then have tr1: "tracks ndim pd0 pd' nl1" using tr fr0 by (simp add: tracks_def)
    have "m_rcut_max nl1 = m_rcut_max nl" "m_r_buff nl1 = m_r_buff nl" using ess by (simp_all add: essence_def)
    moreover have "m_last_L nl1 = m_last_L nl" "m_last_pos nl1 = m_last_pos nl" using T(8,9) by simp_all
    ultimately have "\<not> distanceCheck pd' nl1" using far distanceCheck_cong [of nl1 nl] by blast
    then have "covers pd' nl1" by (rule unmoved_covers [OF tr1 c(3) geo1 n(3)])
    then show ?thesis using tr1 hd1 by blast
  qed
  then obtain pd1 where tr1: "tracks ndim pd1 pd' nl1" by blast
  from Cons.IH [OF flags(1) n(4) flags(2) n(2,3) _ rows1 tr1 geo1 _ calls1] cov obtain nl' pd2 where r:
    "run_nlist build calls nl1 = Some (Inr nl')" "covers (fst (last ((pd', t') # calls))) nl'" "kept nl1 nl'"
    "tracks ndim pd2 (fst (last ((pd', t') # calls))) nl'" "nlist_state (fst (last ((pd', t') # calls))) nl'" by blast
  have "kept nl nl'" by (rule kept_trans [OF n(5) r(3)])
  moreover have "run_nlist build (call # calls) nl = Some (Inr nl')" using n(1) r(1) by (simp add: call)
  moreover have "last ((pd, t) # call # calls) = last ((pd', t') # calls)" by (simp add: call)
  ultimately show ?case using r(2,4,5) by (intro exI [of _ nl'] exI [of _ pd2] conjI) simp_all
qed

end

section \<open>The builder over a cell list\<close>

lemma cells_compute_clock:
  assumes "cells_callable ndim pd timestep cl" "cells_compute ndim pd timestep cl = Some (Inr cl')" "m_last_computed (c_compute cl) \<le> timestep"
  shows "m_last_computed (c_compute cl') \<le> timestep"
proof -
  let ?c = "(prepared ndim pd cl)\<lparr>c_compute := snd (shouldCompute timestep (c_compute cl))\<rparr>"
  have r: "(if needs_compute timestep cl then build_cells ndim pd ?c else Some (Inr ?c)) = Some (Inr cl')"
    using cells_compute_prepared [OF assms(1)] assms(2) by (simp add: Let_def)
  have ins: "locals_inside pd" using cells_compute_spec [OF assms(1)] assms(2) by (auto split: if_splits)
  have st: "cells_state ndim pd ?c" using prepared_spec [OF assms(1)] by simp
  have clock: "c_compute a = c_compute b" if "settings a = settings b" for a b
    using arg_cong [OF that, of c_compute] by (simp add: settings_def)
  have c: "c_compute (initializeWidth ndim pd ?c) = c_compute ?c" by simp
  have "c_compute cl' = c_compute ?c"
  proof (cases "needs_compute timestep cl")
    case True
    then have "build_cells ndim pd ?c = Some (Inr cl')" using r by simp
    then have "settings cl' = settings ?c \<or> settings cl' = settings (initializeWidth ndim pd ?c)"
      using build_cells_built [OF st ins] by (auto simp: built_def)
    then show ?thesis using clock [of cl' ?c] clock [of cl' "initializeWidth ndim pd ?c"] c by presburger
  qed (use r in simp)
  then show ?thesis using shouldCompute_time [OF assms(3)] by simp
qed

text \<open>The candidates: the particles of the adjacent cells.\<close>

definition flags_index :: "CellList \<Rightarrow> bool" where
  "flags_index cl \<longleftrightarrow> \<not> m_flag_charge cl \<and> \<not> m_flag_type cl"

lemma cell_particles_eq:
  assumes "cells_ok ndim pd cl" "dims_bounded (m_dim cl)" "c < cell_count (m_dim cl)" "flags_index cl"
  shows "cell_particles cl c = map (\<lambda>n. (pos_of pd n, n))
    (filter (\<lambda>n. inside pd n \<and> cell_number (m_dim cl) (bin_of pd (m_dim cl) n) = c) (all_particles pd))"
proof -
  have "cell_particles cl c = map (\<lambda>e. (fst e, scalar_as_int (snd e))) (cell_entries cl c)"
    by (simp add: cell_particles_def cell_entries_def Let_def)
  then show ?thesis using assms(4) by (simp add: cell_entries_eq [OF assms(1-3)] entry_flag_def flags_index_def pos_of_def)
qed

lemma bin_candidates_eq: "bin_candidates cl c = concat (map (cell_particles cl) (cell_neighbors cl c))"
  by (simp add: bin_candidates_def cell_neighbors_def comp_def)

lemma own_cell_eq:
  assumes "cells_ok ndim pd cl" "dims_bounded (m_dim cl)" "inside pd i"
  shows "own_cell pd cl i = cell_number (m_dim cl) (bin_of pd (m_dim cl) i)" "bin_of pd (m_dim cl) i \<in> cell_range (m_dim cl)"
proof -
  let ?d = "m_dim cl" and ?f = "fraction pd i" and ?p = "m_periodic (m_box pd)"
  have lay: "layout_ok ndim cl" "m_ghost_width cl = make_scalar3 0 0 0" using assms(1) by (simp_all add: cells_ok_def)
  have ix: "indexed cl" "dims_ok ndim ?d" using lay(1) by (simp_all add: layout_ok_def Let_def)
  have f: "makeFraction_ghost (m_box pd) (pos_of pd i) (m_ghost_width cl) = ?f"
    by (simp add: lay(2) fraction_def makeFraction_def pos_of_def)
  have "addressable pd ?d i" using addressable_iff [OF ix(2) assms(2)] assms(3) by simp
  note r = bin_of_range [OF this assms(2)]
  show "bin_of pd ?d i \<in> cell_range ?d" by (rule r(1))
  have "own_cell pd cl i = cell_at cl (cell_coord (vx ?f) (tx ?d) (tx ?p)) (cell_coord (vy ?f) (ty ?d) (ty ?p)) (cell_coord (vz ?f) (tz ?d) (tz ?p))"
    unfolding own_cell_def f Let_def by (simp add: cell_coord_def Let_def)
  then show "own_cell pd cl i = cell_number ?d (bin_of pd ?d i)"
    using cell_at_number [OF ix r(1) [unfolded r(2)]] r(3-5) by (simp add: r(2))
qed

text \<open>One row: the candidates that pass the tests.\<close>

definition bin_row :: "ParticleData \<Rightarrow> NeighborListBinned \<Rightarrow> nat \<Rightarrow> nat list" where
  "bin_row pd nl i = filter (\<lambda>j. pair_within pd nl i j \<and> stored nl i j) (map snd (bin_candidates (m_cl nl) (own_cell pd (m_cl nl) i)))"

lemma bin_consider_eq:
  "bin_consider pd nl i (pos_of pd j, j) st = (if pair_within pd nl i j \<and> stored nl i j
     then push_neighbor (n_Nmax nl ! unat (type_of pd i)) (m_head_list nl ! i) (unat (type_of pd i)) j st else st)"
  by (auto simp: bin_consider_def pair_within_def Let_def)

lemma fold_considered:
  assumes "\<forall>c \<in> set cs. fst c = pos_of pd (snd c)"
  shows "foldl (\<lambda>st c. bin_consider pd nl i c st) st cs
    = push_all (n_Nmax nl ! unat (type_of pd i)) (m_head_list nl ! i) (unat (type_of pd i))
        (filter (\<lambda>j. pair_within pd nl i j \<and> stored nl i j) (map snd cs)) st"
  using assms
proof (induction cs arbitrary: st)
  case (Cons c cs)
  obtain j where c: "c = (pos_of pd j, j)" using Cons.prems by (cases c) simp
  show ?case using Cons by (simp add: c bin_consider_eq push_all_def)
qed (simp add: push_all_def)

lemma bin_step_eq:
  assumes "\<forall>c \<in> set (bin_candidates (m_cl nl) (own_cell pd (m_cl nl) i)). fst c = pos_of pd (snd c)"
  shows "bin_step pd nl i = store_row pd nl i (bin_row pd nl i)"
  unfolding bin_step_def fold_considered [OF assms] store_row_def bin_row_def by (rule refl)

lemma bin_row_cong: "essence a = essence b \<Longrightarrow> m_cl a = m_cl b \<Longrightarrow> bin_row pd a = bin_row pd b"
  by (rule ext) (simp add: bin_row_def pair_within_def stored_def same_body_def sqshift_def type_pair_def essence_def)

lemma store_row_kept: "essence (store_row pd nl i js) = essence nl" "m_cl (store_row pd nl i js) = m_cl nl"
  by (simp_all add: store_row_def essence_def split: prod.split)

lemma bin_fold_eq:
  assumes "\<forall>i < M. \<forall>c \<in> set (bin_candidates (m_cl nl) (own_cell pd (m_cl nl) i)). fst c = pos_of pd (snd c)"
  shows "foldl (bin_step pd) nl [0..<M] = foldl (\<lambda>n i. store_row pd n i (bin_row pd nl i)) nl [0..<M]
    \<and> essence (foldl (bin_step pd) nl [0..<M]) = essence nl \<and> m_cl (foldl (bin_step pd) nl [0..<M]) = m_cl nl"
  using assms
proof (induction M)
  case (Suc M)
  let ?f = "foldl (bin_step pd) nl [0..<M]"
  have IH: "?f = foldl (\<lambda>n i. store_row pd n i (bin_row pd nl i)) nl [0..<M]" "essence ?f = essence nl" "m_cl ?f = m_cl nl"
    using Suc.IH Suc.prems less_SucI by blast+
  have "bin_step pd ?f M = store_row pd ?f M (bin_row pd ?f M)" by (rule bin_step_eq) (unfold IH(3), use Suc.prems in blast)
  also have "\<dots> = store_row pd ?f M (bin_row pd nl M)" by (simp add: bin_row_cong [OF IH(2,3)])
  finally have s: "bin_step pd ?f M = store_row pd ?f M (bin_row pd nl M)" .
  have fold: "foldl g nl [0..<Suc M] = g (foldl g nl [0..<M]) M" for g by simp
  show ?case unfolding fold s by (simp add: store_row_kept IH(2,3), simp add: IH(1))
qed simp

text \<open>Particles whose list radius is not negative, and a builder that is ready.\<close>

definition radii_ok :: "ParticleData \<Rightarrow> 'a NeighborList_scheme \<Rightarrow> bool" where
  "radii_ok pd nl \<longleftrightarrow> (\<forall>i < m_nparticles pd. \<forall>j < m_nparticles pd. 0 < pair_cutoff pd nl i j
     \<longrightarrow> 0 \<le> pair_cutoff pd nl i j + m_r_buff nl + diam_shift pd nl i j)"

lemma radii_essence: "essence a = essence b \<Longrightarrow> radii_ok pd a = radii_ok pd b"
  by (simp add: radii_ok_def pair_cutoff_def diam_shift_def type_pair_def essence_def)

lemma radius_essence: "essence a = essence b \<Longrightarrow> max_list_radius a = max_list_radius b"
  by (simp add: max_list_radius_def add_shift_def essence_def)

definition binned_ready :: "nat \<Rightarrow> ParticleData \<Rightarrow> nat \<Rightarrow> NeighborListBinned \<Rightarrow> bool" where
  "binned_ready ndim pd t nl \<longleftrightarrow> \<not> m_rcut_changed nl \<and> cells_callable ndim pd t (m_cl nl) \<and> m_last_computed (c_compute (m_cl nl)) \<le> t
     \<and> 1 \<le> m_radius (m_cl nl) \<and> flags_index (m_cl nl) \<and> geometry_ok ndim pd nl \<and> radii_ok pd nl
     \<and> max_list_radius nl \<le> m_nominal_width (m_cl nl) \<and> positions_ok ndim pd"

lemma distinct_classes: "distinct cs \<Longrightarrow> distinct ns \<Longrightarrow> distinct (concat (map (\<lambda>c. filter (\<lambda>n. P n \<and> f n = c) ns) cs))"
  by (induction cs) auto

text \<open>The row of a particle has its neighbors, none twice.\<close>

lemma bin_rows:
  assumes ok: "cells_ok ndim pd cl" and st: "cells_state ndim pd cl" and cl: "m_cl nl = cl" "flags_index cl" "1 \<le> m_radius cl"
    and geo: "geometry_ok ndim pd nl" "radii_ok pd nl" "max_list_radius nl \<le> m_nominal_width cl" and pos: "positions_ok ndim pd" and sz: "nlist_sized pd nl"
    and i: "i < m_nparticles pd"
  shows "\<forall>c \<in> set (bin_candidates cl (own_cell pd cl i)). fst c = pos_of pd (snd c)"
    "distinct (bin_row pd nl i)" "set (bin_row pd nl i) = accepted pd nl i"
proof -
  let ?d = "m_dim cl" and ?own = "own_cell pd cl i"
  let ?num = "\<lambda>n. cell_number ?d (bin_of pd ?d n)"
  let ?in = "\<lambda>c. filter (\<lambda>n. inside pd n \<and> ?num n = c) (all_particles pd)"
  have db: "dims_bounded ?d" using st by (simp add: cells_state_def)
  have lay: "layout_ok ndim cl" using ok by (simp add: cells_ok_def)
  have dok: "dims_ok ndim ?d" using lay by (simp add: layout_ok_def Let_def)
  have all: "all_particles pd = [0..<m_nparticles pd]" using pos by (simp add: positions_ok_def)
  have proper: "proper pd n" if "n < m_nparticles pd" for n using pos that by (simp add: positions_ok_def)
  have inside: "inside pd n" if "n < m_nparticles pd" for n
    using proper [OF that] by (simp add: proper_def proper_along_def inside_def Let_def)
  note own = own_cell_eq [OF ok db inside [OF i]]
  have nb: "cell_neighbors cl ?own = adjacency ndim (m_radius cl) ?d (bin_of pd ?d i)"
    unfolding own(1) by (rule cell_neighbors_eq [OF lay own(2)])
  have range: "c < cell_count ?d" if c: "c \<in> set (cell_neighbors cl ?own)" for c
  proof -
    obtain p where "p \<in> neighborhood ndim (m_radius cl) ?d (bin_of pd ?d i)" "c = cell_number ?d p"
      using c unfolding nb set_adjacency by blast
    then show ?thesis using neighborhood_range [OF dok] cell_number_less by blast
  qed
  have cand: "bin_candidates cl ?own = concat (map (\<lambda>c. map (\<lambda>n. (pos_of pd n, n)) (?in c)) (cell_neighbors cl ?own))"
    unfolding bin_candidates_eq using cell_particles_eq [OF ok db range cl(2)] by (metis (no_types, lifting) map_cong)
  show "\<forall>c \<in> set (bin_candidates cl ?own). fst c = pos_of pd (snd c)" unfolding cand by auto
  have snds: "map snd (bin_candidates cl ?own) = concat (map ?in (cell_neighbors cl ?own))"
    unfolding cand by (simp add: map_concat comp_def)
  have "distinct (concat (map ?in (cell_neighbors cl ?own)))"
    by (rule distinct_classes) (simp_all add: nb adjacency_def)
  then show "distinct (bin_row pd nl i)" unfolding bin_row_def cl(1) snds by (rule distinct_filter)
  have adj: "?num j \<in> set (cell_neighbors cl ?own)" if j: "j < m_nparticles pd" "pair_within pd nl i j" for j
  proof -
    have cut: "0 < pair_cutoff pd nl i j" using j(2) by (simp add: pair_within_def pair_cutoff_def Let_def)
    have r0: "0 \<le> pair_cutoff pd nl i j + m_r_buff nl + diam_shift pd nl i j" using geo(2) i j(1) cut by (simp add: radii_ok_def)
    have g: "cutoffs_ok pd nl" "diameters_ok pd nl" using geo(1) by (simp_all add: geometry_ok_def)
    have ty: "unat (type_of pd i) < Particle_Data.getNTypes pd" "unat (type_of pd j) < Particle_Data.getNTypes pd"
      using sz i j(1) by (simp_all add: nlist_sized_def)
    let ?m = "minImage (m_box pd) (pos_of pd i - pos_of pd j)"
    have le: "len3 ?m \<le> m_nominal_width cl"
      using pair_within_len [OF g(1) ty cut r0] j(2) list_radius(2) [OF g(1) ty cut g(2) i j(1)] geo(3) by linarith
    obtain n where n: "n \<in> images_of (m_box pd)" "?m = pos_of pd i - pos_of pd j + lattice_point (m_box pd) n"
      using minImage_image by blast
    have "pos_of pd i + lattice_point (m_box pd) n - pos_of pd j = ?m" by (simp add: n(2))
    moreover have "dot ?m ?m \<le> (m_nominal_width cl)\<^sup>2" using le len3_le_iff len3_nonneg order.trans by blast
    ultimately have "near_image pd (m_nominal_width cl) i j n" by (simp add: near_image_def pos_of_def)
    from neighbor_in_adjacent_cell [OF st proper [OF i] proper [OF j(1)] n(1) cl(3) this]
    show ?thesis unfolding nb set_adjacency by (rule imageI)
  qed
  show "set (bin_row pd nl i) = accepted pd nl i"
    unfolding bin_row_def cl(1) snds using adj inside pos
    by (auto simp: all accepted_def positions_ok_def)
qed


lemma binned_builds:
  assumes r: "binned_ready ndim pd t nl" and sz: "nlist_sized pd nl" and hd: "heads_ok pd nl"
  shows "\<exists>nl' w. binned_buildNlist ndim pd t nl = Some (Inr nl') \<and> rows_for pd nl w \<and> rows_stored pd w (m_nparticles pd) nl nl'
    \<and> binned_ready ndim pd t nl'"
proof -
  have b: "\<not> m_rcut_changed nl" "cells_callable ndim pd t (m_cl nl)" "m_last_computed (c_compute (m_cl nl)) \<le> t" "1 \<le> m_radius (m_cl nl)"
    "flags_index (m_cl nl)" "geometry_ok ndim pd nl" "radii_ok pd nl" "max_list_radius nl \<le> m_nominal_width (m_cl nl)" "positions_ok ndim pd"
    using r by (simp_all add: binned_ready_def)
  have "inside pd n" if "n < m_nparticles pd" for n
    using b(9) that by (simp add: positions_ok_def proper_def proper_along_def inside_def Let_def)
  then have ins: "locals_inside pd" by (simp add: locals_inside_def)
  then obtain cl where cl: "cells_compute ndim pd t (m_cl nl) = Some (Inr cl)" "cells_ok ndim pd cl" "cells_state ndim pd cl"
    "user_settings cl = user_settings (m_cl nl)" "cells_callable ndim pd t cl" using cells_compute_spec [OF b(2)] by auto
  have u: "m_radius cl = m_radius (m_cl nl)" "m_nominal_width cl = m_nominal_width (m_cl nl)" "flags_index cl = flags_index (m_cl nl)"
    using cl(4) by (simp_all add: user_settings_def flags_index_def)
  let ?n = "nl\<lparr>m_cl := cl\<rparr>" and ?N = "m_nparticles pd"
  have e: "essence ?n = essence nl" by (simp add: essence_def)
  have geo: "geometry_ok ndim pd ?n" "radii_ok pd ?n" "max_list_radius ?n \<le> m_nominal_width cl" "nlist_sized pd ?n" "heads_ok pd ?n" "rows_frame ?n = rows_frame nl"
    using geometry_essence [OF e] radii_essence [OF e] radius_essence [OF e] b(6-8) sz hd head_at_cong [of ?n nl pd]
    by (simp_all add: u nlist_sized_def heads_ok_def rows_frame_def NeighborList.defs)
  have one: "1 \<le> m_radius cl" "flags_index cl" using b(4,5) u by simp_all
  note row = bin_rows [OF cl(2,3) _ one(2,1) geo(1-3) b(9) geo(4), simplified]
  let ?f = "foldl (bin_step pd) ?n [0..<?N]"
  have fold: "?f = foldl (\<lambda>n i. store_row pd n i (bin_row pd ?n i)) ?n [0..<?N]" "essence ?f = essence ?n" "m_cl ?f = cl"
  proof -
    have "\<forall>i < ?N. \<forall>c \<in> set (bin_candidates (m_cl ?n) (own_cell pd (m_cl ?n) i)). fst c = pos_of pd (snd c)" using row(1) by simp
    note f = bin_fold_eq [OF this]
    show "?f = foldl (\<lambda>n i. store_row pd n i (bin_row pd ?n i)) ?n [0..<?N]" by (rule conjunct1 [OF f])
    show "essence ?f = essence ?n" by (rule conjunct1 [OF conjunct2 [OF f]])
    show "m_cl ?f = cl" using conjunct2 [OF conjunct2 [OF f]] by simp
  qed
  have "rows_stored pd (bin_row pd ?n) ?N ?n ?f" unfolding fold(1) by (rule store_rows [OF geo(4,5)]) simp
  then have stored: "rows_stored pd (bin_row pd ?n) ?N nl ?f" using geo(6) by (simp add: rows_stored_def head_at_def)
  have "accepted pd ?n = accepted pd nl" by (rule accepted_essence [OF e])
  then have rows: "rows_for pd nl (bin_row pd ?n)" using row(2,3) by (simp add: rows_for_def)
  have cmp: "binned_buildNlist ndim pd t nl = Some (Inr ?f)"
  proof -
    have m: "getMaxRCut pd ?n = (m_rcut_max_max nl, ?n)" using b(1) by (simp add: getMaxRCut_def)
    have "\<not> box_too_small ndim pd (add_shift ?n (m_rcut_max_max nl + m_r_buff ?n))"
      using b(6) by (cases "m_diameter_shift nl") (simp_all add: geometry_ok_def max_list_radius_def add_shift_def)
    then show ?thesis unfolding binned_buildNlist_def by (simp add: cl(1) m Let_def)
  qed
  have "binned_ready ndim pd t ?f"
  proof -
    have ef: "essence ?f = essence nl" using fold(2) e by simp
    have "m_rcut_changed ?f = m_rcut_changed nl" using ef by (simp add: essence_def)
    then show ?thesis
      using geometry_essence [OF ef] radii_essence [OF ef] radius_essence [OF ef] b u cells_compute_clock [OF b(2) cl(1) b(3)] cl(5) unfolding binned_ready_def fold(3) by simp
  qed
  then show ?thesis using cmp rows stored by blast
qed


lemma binned_ready_essence:
  assumes "binned_ready ndim pd t nl" "essence nl' = essence nl" "NeighborList.more nl' = NeighborList.more nl"
  shows "binned_ready ndim pd t nl'"
proof -
  have "m_cl nl' = m_cl nl" using assms(3) by (cases nl; cases nl') simp
  moreover have "m_rcut_changed nl' = m_rcut_changed nl" using assms(2) by (simp add: essence_def)
  ultimately show ?thesis
    using assms(1) geometry_essence [OF assms(2)] radii_essence [OF assms(2)] radius_essence [OF assms(2)] by (simp add: binned_ready_def)
qed

lemma radii_moved: "moved pd0 pd \<Longrightarrow> m_nparticles pd0 \<le> length (m_pos (m_arrays pd0)) \<Longrightarrow> radii_ok pd nl = radii_ok pd0 nl"
  using movedD [of pd0 pd] by (simp add: radii_ok_def pair_cutoff_def diam_shift_def)

lemma callable_moved:
  assumes "cells_callable ndim pd t cl" "moved pd pd'" "m_last_computed (c_compute cl) \<le> t" "t < t'"
  shows "cells_callable ndim pd' t' cl"
proof -
  note D = movedD [OF assms(2)]
  have "needs_compute t' cl" using shouldCompute_later [of "c_compute cl" t'] assms(3,4) by (simp add: needs_compute_def)
  moreover have "computeDimensions ndim pd' cl = computeDimensions ndim pd cl" using D by (simp add: computeDimensions_def)
  moreover have "cells_fit ndim pd' cl d = cells_fit ndim pd cl d" for d using D by (simp add: cells_fit_def)
  moreover have "cells_state ndim pd' cl = cells_state ndim pd cl" using D calculation(2,3) by (simp add: cells_state_def dims_fit_def)
  ultimately show ?thesis using assms(1) D(1) by (simp add: cells_callable_def)
qed

lemma binned_ready_moved:
  assumes "binned_ready ndim pd t nl" "moved pd pd'" "positions_ok ndim pd'" "t < t'"
  shows "binned_ready ndim pd' t' nl"
  using assms callable_moved [OF _ assms(2) _ assms(4), of ndim "m_cl nl"] geometry_moved [OF assms(2), of ndim nl] radii_moved [OF assms(2), of nl]
  by (simp add: binned_ready_def positions_ok_def)

interpretation binned: moving_builder "binned_buildNlist ndim" "binned_ready ndim" ndim for ndim
proof
  show "\<exists>nl' w. binned_buildNlist ndim pd t nl = Some (Inr nl') \<and> rows_for pd nl w \<and> rows_stored pd w (m_nparticles pd) nl nl'
      \<and> binned_ready ndim pd t nl'" if "binned_ready ndim pd t nl" "nlist_sized pd nl" "heads_ok pd nl" for pd t nl
    by (rule binned_builds [OF that])
  show "binned_ready ndim pd t nl'" if "binned_ready ndim pd t nl" "essence nl' = essence nl" "NeighborList.more nl' = NeighborList.more nl" for pd t nl nl'
    by (rule binned_ready_essence [OF that])
  show "binned_ready ndim pd' t' nl" if "binned_ready ndim pd t nl" "moved pd pd'" "positions_ok ndim pd'" "t < t'" for pd t nl pd' t'
    by (rule binned_ready_moved [OF that])
qed

end
