(* ===== verification/Neighbor_List_Run.thy ===== *)
theory Neighbor_List_Run
  imports Neighbor_List_Correct
begin

text \<open>
  Lists over cells in a simulation: what \<open>compute\<close> returns, the pair forces over the list, construction, errors
  and exclusions.
\<close>

section \<open>A list over cells in a simulation\<close>

definition binned_start :: "nat \<Rightarrow> nat \<Rightarrow> ParticleData \<Rightarrow> nat \<Rightarrow> NeighborListBinned \<Rightarrow> bool" where
  "binned_start ndim B pd t nl \<longleftrightarrow> m_force_update nl \<and> m_every nl \<le> 1 \<and> binned_ready ndim pd t (refreshed pd nl) \<and> nlist_state pd nl
     \<and> rows_at_most B pd nl \<and> dense_at_most B pd (refreshed pd nl) \<and> (m_exclusions_set nl \<longrightarrow> ex_arrays_ok pd nl)
     \<and> m_last_updated_tstep nl \<le> t \<and> m_last_computed (n_compute nl) \<le> t"

lemma refreshed_pairs [simp]:
  "pair_cutoff pd0 (refreshed pd nl) = pair_cutoff pd0 nl" "same_body pd0 (refreshed pd nl) = same_body pd0 nl"
  "diam_shift pd0 (refreshed pd nl) = diam_shift pd0 nl" "stored (refreshed pd nl) = stored nl" "m_r_buff (refreshed pd nl) = m_r_buff nl"
  "m_storage_mode (refreshed pd nl) = m_storage_mode nl" "rows_at_most B pd0 (refreshed pd nl) = rows_at_most B pd0 nl"
  by (simp_all add: fun_eq_iff pair_cutoff_def type_pair_def same_body_def diam_shift_def stored_def refreshed_def updateRList_def Let_def rows_at_most_def)

lemma excluded_pair_cong: "m_exclusions_set a = m_exclusions_set b \<Longrightarrow> m_n_ex_tag a = m_n_ex_tag b \<Longrightarrow> m_ex_list_tag a = m_ex_list_tag b
    \<Longrightarrow> excluded_pair pd a = excluded_pair pd b"
  by (intro ext) (simp add: excluded_pair_def ex_tags_def)

lemma pairs_essence:
  assumes "essence a = essence b"
  shows "pair_cutoff pd a = pair_cutoff pd b" "same_body pd a = same_body pd b" "diam_shift pd a = diam_shift pd b" "stored a = stored b"
    "m_r_buff a = m_r_buff b" "m_storage_mode a = m_storage_mode b"
  using assms by (simp_all add: fun_eq_iff pair_cutoff_def type_pair_def same_body_def diam_shift_def stored_def essence_def)

lemma binned_first:
  assumes "binned_start ndim B pd t nl"
  shows "\<exists>nl'. nlist_compute (binned_buildNlist ndim) pd t nl = Some (Inr nl') \<and> binned_ready ndim pd t nl' \<and> nlist_state pd nl' \<and> fresh pd nl'
    \<and> computed t nl' \<and> essence nl' = essence (refreshed pd nl) \<and> ex_linked pd nl' \<and> m_every nl' = m_every nl
    \<and> excluded_pair pd nl' = excluded_pair pd nl \<and> rows_at_most B pd nl'"
proof -
  have s: "m_force_update nl" "binned_ready ndim pd t (refreshed pd nl)" "nlist_state pd nl" "rows_at_most B pd nl" "dense_at_most B pd (refreshed pd nl)"
    "m_exclusions_set nl \<longrightarrow> ex_arrays_ok pd nl" "m_last_updated_tstep nl \<le> t" "m_last_computed (n_compute nl) \<le> t"
    using assms by (simp_all add: binned_start_def)
  have rows: "rows_at_most B pd (refreshed pd nl)" using s(4) by simp
  from binned.compute_forced [OF s(1-3) rows_fits [OF s(5) rows] s(6-8)] obtain nl' where
    n: "nlist_compute (binned_buildNlist ndim) pd t nl = Some (Inr nl')" "binned_ready ndim pd t nl'" "nlist_state pd nl'" "fresh pd nl'"
    "computed t nl'" "essence nl' = essence (refreshed pd nl)" "ex_linked pd nl'" "m_every nl' = m_every nl"
    "m_exclusions_set nl' = m_exclusions_set nl" "m_n_ex_tag nl' = m_n_ex_tag nl" "m_ex_list_tag nl' = m_ex_list_tag nl"
    "\<forall>i < m_nparticles pd. Nmax_of pd nl' i \<le> row_need pd (refreshed pd nl) (unat (type_of pd i))" by blast
  have "\<forall>i < m_nparticles pd. Nmax_of pd nl' i \<le> round8 B" using n(12) row_need_le [OF s(5) rows] order.trans by blast
  then have "rows_at_most B pd nl'" using rows by (simp add: rows_at_most_def)
  then show ?thesis using n(1-8) excluded_pair_cong [OF n(9-11)] by blast
qed

lemma binned_run:
  assumes "binned_start ndim B pd t nl" "calls_ok ndim B (refreshed pd nl) (pd, t) calls"
  shows "\<exists>nl' pd1. run_nlist (binned_buildNlist ndim) ((pd, t) # calls) nl = Some (Inr nl') \<and> covers (fst (last ((pd, t) # calls))) nl'
    \<and> tracks ndim pd1 (fst (last ((pd, t) # calls))) nl' \<and> nlist_state (fst (last ((pd, t) # calls))) nl'
    \<and> essence nl' = essence (refreshed pd nl) \<and> excluded_pair pd nl' = excluded_pair pd nl"
proof -
  from binned_first [OF assms(1)] obtain nl1 where
    n: "nlist_compute (binned_buildNlist ndim) pd t nl = Some (Inr nl1)" "binned_ready ndim pd t nl1" "nlist_state pd nl1" "fresh pd nl1"
    "computed t nl1" "essence nl1 = essence (refreshed pd nl)" "ex_linked pd nl1" "m_every nl1 = m_every nl" "excluded_pair pd nl1 = excluded_pair pd nl"
    "rows_at_most B pd nl1" by blast
  have r: "\<not> m_rcut_changed nl1" "geometry_ok ndim pd nl1" "positions_ok ndim pd" using n(2) by (simp_all add: binned_ready_def)
  have "heads_ok pd nl1" using n(4) by (simp add: fresh_def lists_def rows_fit_def)
  moreover have "m_every nl1 \<le> 1" using n(8) assms(1) by (simp add: binned_start_def)
  moreover have "tracks ndim pd pd nl1" using n(4,7) r(3) by (simp add: tracks_def)
  moreover have "calls_ok ndim B nl1 (pd, t) calls" using calls_ok_essence [OF n(6)] assms(2) by blast
  ultimately obtain nl' pd1 where
    b: "run_nlist (binned_buildNlist ndim) calls nl1 = Some (Inr nl')" "covers (fst (last ((pd, t) # calls))) nl'" "kept nl1 nl'"
    "tracks ndim pd1 (fst (last ((pd, t) # calls))) nl'" "nlist_state (fst (last ((pd, t) # calls))) nl'"
    using binned.run_covers [OF r(1) n(5) _ n(2,3) _ n(10) _ r(2) fresh_covers [OF r(2) n(3,4,7)]] by blast
  have "excluded_pair pd nl' = excluded_pair pd nl1" using b(3) by (intro excluded_pair_cong) (simp_all add: kept_def)
  moreover have "essence nl' = essence nl1" using b(3) by (simp add: kept_def)
  ultimately show ?thesis using n(1,6,9) b(1,2,4,5) by (intro exI [of _ nl'] exI [of _ pd1] conjI) simp_all
qed

lemma wanted_eq:
  assumes "geometry_ok ndim pd nl" "radii_ok pd nl" "nlist_sized pd nl" "m_nghosts pd = 0" "i < m_nparticles pd"
  shows "wanted pd nl i = {j. j < m_nparticles pd \<and> j \<noteq> i \<and> 0 < pair_cutoff pd nl i j \<and> \<not> same_body pd nl i j \<and> stored nl i j
    \<and> len3 (minImage (m_box pd) (pos_of pd i - pos_of pd j)) \<le> pair_cutoff pd nl i j + m_r_buff nl + diam_shift pd nl i j
    \<and> \<not> excluded_pair pd nl i j}"
proof -
  have within: "pair_within pd nl i j \<longleftrightarrow> j \<noteq> i \<and> 0 < pair_cutoff pd nl i j \<and> \<not> same_body pd nl i j
    \<and> len3 (minImage (m_box pd) (pos_of pd i - pos_of pd j)) \<le> pair_cutoff pd nl i j + m_r_buff nl + diam_shift pd nl i j" if j: "j < m_nparticles pd" for j
  proof (cases "0 < pair_cutoff pd nl i j")
    case True
    have "unat (type_of pd i) < Particle_Data.getNTypes pd" "unat (type_of pd j) < Particle_Data.getNTypes pd"
      using assms(3,5) j by (simp_all add: nlist_sized_def)
    then show ?thesis using pair_within_len [of pd nl i j] assms(1,2,5) j True by (auto simp: geometry_ok_def radii_ok_def)
  qed (simp add: pair_within_def pair_cutoff_def Let_def)
  have "wanted pd nl i = {j. j < m_nparticles pd \<and> pair_within pd nl i j \<and> stored nl i j \<and> \<not> excluded_pair pd nl i j}"
    using assms(4) by (auto simp: wanted_def excluded_pair_def accepted_def)
  then show ?thesis using within by blast
qed

text \<open>C8: a computed neighbor list is exact. After a forced \<open>compute\<close> over cells the list of every particle has
  exactly the other particles whose minimum image is within cutoff plus buffer (shifted by the diameters where
  that is on), that are not in the same body, not excluded, and stored in this mode; none appears twice, whatever the
  rows that overflow on the way.\<close>

theorem neighbor_list_complete:
  assumes "binned_start ndim B pd t nl"
  shows "\<exists>nl'. nlist_compute (binned_buildNlist ndim) pd t nl = Some (Inr nl') \<and> \<not> m_force_update nl'
    \<and> (\<forall>i < m_nparticles pd. distinct (neighbors (nview nl') i)
        \<and> set (neighbors (nview nl') i) = {j. j < m_nparticles pd \<and> j \<noteq> i \<and> 0 < pair_cutoff pd nl i j \<and> \<not> same_body pd nl i j \<and> stored nl i j
            \<and> len3 (minImage (m_box pd) (pos_of pd i - pos_of pd j)) \<le> pair_cutoff pd nl i j + m_r_buff nl + diam_shift pd nl i j
            \<and> \<not> excluded_pair pd nl i j})"
proof -
  from binned_first [OF assms] obtain nl' where
    n: "nlist_compute (binned_buildNlist ndim) pd t nl = Some (Inr nl')" "binned_ready ndim pd t nl'" "nlist_state pd nl'" "fresh pd nl'"
    "computed t nl'" "essence nl' = essence (refreshed pd nl)" "ex_linked pd nl'" "excluded_pair pd nl' = excluded_pair pd nl" by blast
  have r: "geometry_ok ndim pd nl'" "radii_ok pd nl'" "m_nghosts pd = 0" using n(2) by (simp_all add: binned_ready_def positions_ok_def)
  have sz: "nlist_sized pd nl'" using n(3) by (simp add: nlist_state_def)
  note e = pairs_essence [OF n(6), unfolded refreshed_pairs]
  have "distinct (neighbors (nview nl') i) \<and> set (neighbors (nview nl') i) = wanted pd nl' i" if "i < m_nparticles pd" for i
    using n(4) that linked_wanted [OF n(7) that] by (simp add: fresh_def lists_def)
  then show ?thesis using n(1,5) wanted_eq [OF r(1,2) sz r(3)] by (simp add: computed_def e n(8))
qed

section \<open>Pair forces over the list\<close>

definition view_of :: "ParticleData \<Rightarrow> ParticleView" where
  "view_of pd = \<lparr>getN = m_nparticles pd, getNGhosts = m_nghosts pd, getNTypes = of_nat (Particle_Data.getNTypes pd), h_pos = m_pos (m_arrays pd),
     h_diameter = m_diameter (m_arrays pd), h_charge = m_charge (m_arrays pd), getGlobalBox = m_global_box pd\<rparr>"

text \<open>An evaluator that evaluates nothing beyond its cutoff, which may be shifted by the diameters.\<close>

definition within_reach :: "('p, 'e) evaluator \<Rightarrow> bool \<Rightarrow> bool" where
  "within_reach ev shifted \<longleftrightarrow> (shifted \<longrightarrow> needsDiameter ev) \<and> (\<forall>r rc prm di dj qi qj energy_shift.
     0 \<le> r \<and> 0 \<le> rc \<and> rc + (if shifted then (di + dj) * (1 / 2) - 1 else 0) \<le> r
     \<longrightarrow> evaluate ev (r * r) (rc * rc) prm di dj qi qj energy_shift = None)"

lemma square_mono: "0 \<le> rc \<Longrightarrow> rc \<le> r \<Longrightarrow> \<not> r * r < rc * rc" for r rc :: real
  using mult_mono [of rc r rc r] by linarith

lemma evaluators_within:
  "within_reach LJ False" "within_reach Mie False" "within_reach ForceShiftedLJ False" "within_reach Yukawa False" "within_reach Morse False"
  "within_reach Gauss False" "within_reach ZBL False" "within_reach Moliere False" "within_reach Ewald False"
  by (simp_all add: within_reach_def evaluate_def square_mono LJ_def EvaluatorPairLJ_new_def EvaluatorPairLJ_eval_def
      Mie_def EvaluatorPairMie_new_def EvaluatorPairMie_eval_def ForceShiftedLJ_def EvaluatorPairForceShiftedLJ_new_def EvaluatorPairForceShiftedLJ_eval_def
      Yukawa_def EvaluatorPairYukawa_new_def EvaluatorPairYukawa_eval_def Morse_def EvaluatorPairMorse_new_def EvaluatorPairMorse_eval_def
      Gauss_def EvaluatorPairGauss_new_def EvaluatorPairGauss_eval_def ZBL_def EvaluatorPairZBL_new_def EvaluatorPairZBL_eval_def
      Moliere_def EvaluatorPairMoliere_new_def EvaluatorPairMoliere_eval_def Ewald_def EvaluatorPairEwald_new_def EvaluatorPairEwald_setCharge_def
      EvaluatorPairEwald_eval_def)

lemma SLJ_within: "within_reach SLJ True"
proof -
  have r: "1 / rsqrt (r * r) = r" if "0 \<le> r" for r using that by (simp add: rsqrt_def)
  show ?thesis
    by (auto simp: within_reach_def evaluate_def SLJ_def EvaluatorPairSLJ_new_def EvaluatorPairSLJ_setDiameter_def EvaluatorPairSLJ_eval_def r Let_def)
qed

text \<open>The cutoffs of the potential are covered by those of the list.\<close>

definition cutoffs_covered :: "ParticleData \<Rightarrow> 'a NeighborList_scheme \<Rightarrow> 'p PotentialPair \<Rightarrow> bool" where
  "cutoffs_covered pd nl pp \<longleftrightarrow> (\<forall>a b. unat a < Particle_Data.getNTypes pd \<and> unat b < Particle_Data.getNTypes pd \<longrightarrow>
     (\<exists>rc \<ge> 0. m_rcutsq pp ! typpair pp a b = rc * rc
        \<and> (if 0 < m_r_cut nl ! type_pair nl a b then rc \<le> m_r_cut nl ! type_pair nl a b else rc = 0 \<and> \<not> m_diameter_shift nl)))"

lemma pair_entry_far:
  assumes ev: "within_reach ev (m_diameter_shift nl)" and cut: "cutoffs_covered pd nl pp" and box: "m_global_box pd = m_box pd"
    and ty: "unat (type_of pd i) < Particle_Data.getNTypes pd" "unat (type_of pd j) < Particle_Data.getNTypes pd"
    and far: "\<not> pair_near pd nl i j" "i \<noteq> j" "\<not> same_body pd nl i j"
  shows "pair_entry ev pp (view_of pd) cv c i j = 0"
proof -
  let ?m = "minImage (m_box pd) (pos_of pd i - pos_of pd j)"
  obtain pi ti pj tj where p: "m_pos (m_arrays pd) ! i = (pi, ti)" "m_pos (m_arrays pd) ! j = (pj, tj)"
    by (cases "m_pos (m_arrays pd) ! i"; cases "m_pos (m_arrays pd) ! j")
  have t: "type_of pd i = ti" "type_of pd j = tj" "pos_of pd i = pi" "pos_of pd j = pj" by (simp_all add: type_of_def pos_of_def p)
  have cut0: "pair_cutoff pd nl i j = m_r_cut nl ! type_pair nl ti tj" by (simp add: pair_cutoff_def t)
  from cut ty obtain rc where rc: "0 \<le> rc" "m_rcutsq pp ! typpair pp ti tj = rc * rc"
    "if 0 < pair_cutoff pd nl i j then rc \<le> pair_cutoff pd nl i j else rc = 0 \<and> \<not> m_diameter_shift nl"
    unfolding cutoffs_covered_def t cut0 by blast
  have reach: "rc + (if m_diameter_shift nl then (m_diameter (m_arrays pd) ! i + m_diameter (m_arrays pd) ! j) * (1 / 2) - 1 else 0) \<le> len3 ?m"
    using far rc(3) by (auto simp: pair_near_def diam_shift_def split: if_splits)
  have "dot ?m ?m = len3 ?m * len3 ?m" using len3_square [of ?m] by (simp add: power2_eq_square)
  then have none: "evaluate ev (dot ?m ?m) (rc * rc) prm (if needsDiameter ev then m_diameter (m_arrays pd) ! i else 0)
      (if needsDiameter ev then m_diameter (m_arrays pd) ! j else 0) qi qj es = None" for prm qi qj es
    using ev reach rc(1) by (auto simp: within_reach_def)
  then have "shifted_evaluation ev mode (dot ?m ?m) (rc * rc) ron prm (if needsDiameter ev then m_diameter (m_arrays pd) ! i else 0)
      (if needsDiameter ev then m_diameter (m_arrays pd) ! j else 0) qi qj = None" for mode ron prm qi qj
    by (simp add: shifted_evaluation_def Let_def)
  then show ?thesis
    by (auto simp: pair_entry_def pair_term_def view_of_def p rc(2) box [simplified] t Let_def bindr_def check_def split: sum.split)
qed


text \<open>The sum over all other particles, without a list: the terms of the pairs as a list in this mode would store them.\<close>

definition interacts :: "ParticleData \<Rightarrow> 'a NeighborList_scheme \<Rightarrow> nat \<Rightarrow> nat \<Rightarrow> bool" where
  "interacts pd nl i j \<longleftrightarrow> \<not> same_body pd nl i j \<and> \<not> excluded_pair pd nl i j"

definition direct_sum :: "('p, 'e) evaluator \<Rightarrow> 'p PotentialPair \<Rightarrow> ParticleData \<Rightarrow> 'a NeighborList_scheme \<Rightarrow> bool \<Rightarrow> nat \<Rightarrow> nat \<Rightarrow> Scalar" where
  "direct_sum ev pp pd nl cv c m = (\<Sum>j \<in> {..<m_nparticles pd} - {m}.
     if stored nl m j then (if interacts pd nl m j then pair_entry ev pp (view_of pd) cv c m j else 0)
     else reaction c * (if interacts pd nl j m then pair_entry ev pp (view_of pd) cv c j m else 0))"

text \<open>A list that covers all near pairs and stores no others twice, no excluded ones and none with itself.\<close>

definition proper_rows :: "ParticleData \<Rightarrow> 'a NeighborList_scheme \<Rightarrow> bool" where
  "proper_rows pd nl \<longleftrightarrow> (\<forall>i < m_nparticles pd. distinct (neighbors (nview nl) i)
     \<and> (\<forall>j \<in> set (neighbors (nview nl) i). j < m_nparticles pd \<and> i \<noteq> j \<and> stored nl i j \<and> interacts pd nl i j))"

lemma row_sum:
  assumes cov: "covers pd nl" and rows: "proper_rows pd nl" and i: "i < m_nparticles pd"
    and far: "\<And>j. j < m_nparticles pd \<Longrightarrow> \<not> pair_near pd nl i j \<Longrightarrow> i \<noteq> j \<Longrightarrow> interacts pd nl i j \<Longrightarrow> g j = 0"
    and S: "S \<subseteq> {..<m_nparticles pd} - {i}"
  shows "(\<Sum>j\<leftarrow>neighbors (nview nl) i. if j \<in> S then g j else 0) = (\<Sum>j \<in> S. if stored nl i j \<and> interacts pd nl i j then g j else (0 :: real))"
proof -
  let ?N = "set (neighbors (nview nl) i)"
  have fin: "finite S" using S finite_subset by blast
  have row: "distinct (neighbors (nview nl) i)" "j \<in> ?N \<Longrightarrow> stored nl i j \<and> interacts pd nl i j" for j
    using rows i by (auto simp: proper_rows_def)
  have zero: "(if stored nl i j \<and> interacts pd nl i j then g j else 0) = 0" if "j \<in> S" "j \<notin> ?N" for j
  proof (cases "stored nl i j \<and> interacts pd nl i j")
    case True
    have "j < m_nparticles pd" "i \<noteq> j" using S that(1) by auto
    moreover from this have "\<not> pair_near pd nl i j" using cov i True that(2) by (auto simp: covers_def interacts_def)
    ultimately show ?thesis using far True by simp
  qed auto
  have "(\<Sum>j\<leftarrow>neighbors (nview nl) i. if j \<in> S then g j else 0) = (\<Sum>j \<in> ?N. if j \<in> S then g j else 0)"
    by (rule sum_list_distinct_conv_sum_set [OF row(1)])
  also have "\<dots> = (\<Sum>j \<in> ?N \<inter> S. g j)" by (simp add: sum.inter_restrict)
  also have "\<dots> = (\<Sum>j \<in> ?N \<inter> S. if stored nl i j \<and> interacts pd nl i j then g j else 0)" by (rule sum.cong) (use row(2) in auto)
  also have "\<dots> = (\<Sum>j \<in> S. if stored nl i j \<and> interacts pd nl i j then g j else 0)"
    by (rule sum.mono_neutral_left) (use fin in blast, blast, use zero in blast)
  finally show ?thesis .
qed

lemma accumulated_direct:
  assumes ev: "within_reach ev (m_diameter_shift nl)" and cut: "cutoffs_covered pd nl pp" and box: "m_global_box pd = m_box pd"
    and ty: "\<forall>i < m_nparticles pd. unat (type_of pd i) < Particle_Data.getNTypes pd"
    and cov: "covers pd nl" and rows: "proper_rows pd nl" and m: "m < m_nparticles pd"
  shows "accumulated ev pp (view_of pd) (nview nl) cv c m = direct_sum ev pp pd nl cv c m"
proof -
  let ?N = "m_nparticles pd" and ?g = "pair_entry ev pp (view_of pd) cv c"
  have far: "?g i j = 0" if "i < ?N" "j < ?N" "\<not> pair_near pd nl i j" "i \<noteq> j" "interacts pd nl i j" for i j
    using pair_entry_far [OF ev cut box _ _ that(3,4)] ty that(1,2,5) by (simp add: interacts_def)
  have own: "(\<Sum>j\<leftarrow>neighbors (nview nl) m. ?g m j) = (\<Sum>j \<in> {..<?N} - {m}. if stored nl m j \<and> interacts pd nl m j then ?g m j else 0)"
  proof -
    have "(\<Sum>j\<leftarrow>neighbors (nview nl) m. ?g m j) = (\<Sum>j\<leftarrow>neighbors (nview nl) m. if j \<in> {..<?N} - {m} then ?g m j else 0)"
      by (intro arg_cong [of _ _ sum_list] map_cong refl) (use rows m in \<open>auto simp: proper_rows_def\<close>)
    also have "\<dots> = (\<Sum>j \<in> {..<?N} - {m}. if stored nl m j \<and> interacts pd nl m j then ?g m j else 0)"
      by (rule row_sum [OF cov rows m]) (use far [OF m] in blast, rule subset_refl)
    finally show ?thesis .
  qed
  have other: "(\<Sum>j\<leftarrow>neighbors (nview nl) i. if j = m then ?g i j else 0) = (if stored nl i m \<and> interacts pd nl i m then ?g i m else 0)"
    if "i < ?N" "i \<noteq> m" for i
  proof -
    have "(\<Sum>j\<leftarrow>neighbors (nview nl) i. if j \<in> {m} then ?g i j else 0) = (\<Sum>j \<in> {m}. if stored nl i j \<and> interacts pd nl i j then ?g i j else 0)"
      by (rule row_sum [OF cov rows that(1)]) (use far [OF that(1)] that m in auto)
    then show ?thesis by simp
  qed
  have self: "(\<Sum>j\<leftarrow>neighbors (nview nl) m. if j = m then ?g m j else 0) = 0"
  proof -
    have "(\<Sum>j\<leftarrow>neighbors (nview nl) m. if j = m then ?g m j else 0) = (\<Sum>j\<leftarrow>neighbors (nview nl) m. 0)"
      by (intro arg_cong [of _ _ sum_list] map_cong refl) (use rows m in \<open>auto simp: proper_rows_def\<close>)
    then show ?thesis by simp
  qed
  have N: "getN (view_of pd) = ?N" by (simp add: view_of_def)
  have reactions: "(\<Sum>i<?N. \<Sum>j\<leftarrow>neighbors (nview nl) i. if j = m then ?g i j else 0)
      = (\<Sum>i \<in> {..<?N} - {m}. if stored nl i m \<and> interacts pd nl i m then ?g i m else 0)"
    using sum.remove [of "{..<?N}" m "\<lambda>i. \<Sum>j\<leftarrow>neighbors (nview nl) i. if j = m then ?g i j else 0"] m self other by simp
  show ?thesis
  proof (cases "m_storage_mode nl")
    case full
    then show ?thesis by (simp add: accumulated_def nview_def [of nl, THEN arg_cong, of getStorageMode] own direct_sum_def stored_def)
  next
    case half
    have "accumulated ev pp (view_of pd) (nview nl) cv c m =
        (\<Sum>j \<in> {..<?N} - {m}. (if m < j \<and> interacts pd nl m j then ?g m j else 0)
          + reaction c * (if j < m \<and> interacts pd nl j m then ?g j m else 0))"
      using half own reactions by (simp add: accumulated_def nview_def [of nl, THEN arg_cong, of getStorageMode] N stored_def sum.distrib sum_distrib_left)
    also have "\<dots> = direct_sum ev pp pd nl cv c m" unfolding direct_sum_def
      by (rule sum.cong) (use half in \<open>auto simp: stored_def\<close>)
    finally show ?thesis .
  qed
qed

lemma calls_ok_last: "calls_ok ndim B nl (pd, t) calls \<Longrightarrow> moved pd (fst (last ((pd, t) # calls)))"
proof (induction calls arbitrary: pd t)
  case (Cons c calls)
  obtain pd' t' where c: "c = (pd', t')" by (cases c)
  have "moved pd pd'" "calls_ok ndim B nl (pd', t') calls" using Cons.prems by (simp_all add: c)
  from moved_trans [OF this(1) Cons.IH [OF this(2)]] show ?case by (simp add: c)
qed simp

lemma excluded_pair_moved: "moved pd0 pd \<Longrightarrow> excluded_pair pd nl = excluded_pair pd0 nl"
  using movedD(6,7) [of pd0 pd] by (intro ext) (simp add: excluded_pair_def)

lemma same_body_moved: "moved pd0 pd \<Longrightarrow> same_body pd nl = same_body pd0 nl"
  using movedD(8) [of pd0 pd] by (intro ext) (simp add: same_body_def)

lemma tracks_rows:
  assumes "tracks ndim pd0 pd nl"
  shows "proper_rows pd nl"
proof -
  have t: "moved pd0 pd" "positions_ok ndim pd0" "fresh pd0 nl" "ex_linked pd0 nl" using assms by (simp_all add: tracks_def)
  note e = excluded_pair_moved [OF t(1), of nl] same_body_moved [OF t(1), of nl] movedD(3) [OF t(1)]
  have g: "m_nghosts pd0 = 0" using t(2) by (simp add: positions_ok_def)
  have "distinct (neighbors (nview nl) i) \<and> set (neighbors (nview nl) i) = wanted pd0 nl i" if "i < m_nparticles pd0" for i
    using t(3) that linked_wanted [OF t(4) that] by (simp add: fresh_def lists_def)
  moreover have "j < m_nparticles pd0 \<and> i \<noteq> j \<and> stored nl i j \<and> interacts pd nl i j" if "j \<in> wanted pd0 nl i" for i j
    using that g by (auto simp: wanted_def accepted_def pair_within_def interacts_def excluded_pair_def e Let_def split: if_splits)
  ultimately show ?thesis by (simp add: proper_rows_def e)
qed

lemma cutoffs_covered_cong:
  assumes "essence a = essence b" "moved pd0 pd"
  shows "cutoffs_covered pd a pp = cutoffs_covered pd0 b pp"
  using assms(1) movedD(11) [OF assms(2)] by (simp add: cutoffs_covered_def type_pair_def essence_def)

lemma cutoffs_covered_refreshed: "cutoffs_covered pd (refreshed pd0 nl) pp = cutoffs_covered pd nl pp"
  by (simp add: cutoffs_covered_def type_pair_def refreshed_def updateRList_def Let_def)

lemma view_system_ok:
  assumes rows: "proper_rows pd nl" and st: "nlist_state pd nl" and g: "m_nghosts pd = 0" and nt: "Particle_Data.getNTypes pd < 2 ^ 32"
    and out: "m_nparticles pd \<le> num_force" "m_nparticles pd \<le> pitch" "6 * pitch \<le> num_virial"
  shows "system_ok (view_of pd) (nview nl) pitch num_force num_virial"
proof -
  have "neighbor_ok (view_of pd) i" if "i < m_nparticles pd" for i
    using st that nt g by (simp add: neighbor_ok_def view_of_def word_less_nat_alt unat_of_nat_small type_of_def nlist_state_def nlist_sized_def)
  then show ?thesis using rows out by (auto simp: system_ok_def loop_ok_def proper_rows_def) (simp_all add: view_of_def)
qed

text \<open>C2: forces over a neighbor list are the direct sum. In a run in which particles move within the same box, their
  number, types, tags, bodies and diameters staying the same, without ghosts, with \<open>compute\<close> called
  at every step, time steps increasing and a check period of at most one, the list that is kept or rebuilt by
  the distance check always has every pair that interacts: the force loop over it returns, and every entry is
  the sum over all pairs of particles, except pairs in one body and exclusions. Any potential whose cutoffs the
  list covers will do, with any storage mode.\<close>

theorem pair_forces_complete:
  assumes "binned_start ndim B pd t nl" "calls_ok ndim B (refreshed pd nl) (pd, t) calls"
    and "within_reach ev (m_diameter_shift nl)" "cutoffs_covered pd nl pp" "m_global_box pd = m_box pd" "Particle_Data.getNTypes pd < 2 ^ 32"
    and "m_nparticles pd \<le> num_force" "m_nparticles pd \<le> pitch" "6 * pitch \<le> num_virial"
  shows "let pd' = fst (last ((pd, t) # calls))
    in \<exists>nl' out. run_nlist (binned_buildNlist ndim) ((pd, t) # calls) nl = Some (Inr nl')
      \<and> computeForces ev pp (view_of pd') (nview nl') cv pitch num_force num_virial = Inr out
      \<and> (\<forall>c < 10. \<forall>m < m_nparticles pd'. entry pitch out c m = direct_sum ev pp pd' nl cv c m)"
proof -
  define pd' where "pd' = fst (last ((pd, t) # calls))"
  have mv: "moved pd pd'" unfolding pd'_def by (rule calls_ok_last [OF assms(2)])
  note D = movedD [OF mv]
  from binned_run [OF assms(1,2)] obtain nl' pd1 where
    r: "run_nlist (binned_buildNlist ndim) ((pd, t) # calls) nl = Some (Inr nl')" "covers pd' nl'" "tracks ndim pd1 pd' nl'" "nlist_state pd' nl'"
    "essence nl' = essence (refreshed pd nl)" "excluded_pair pd nl' = excluded_pair pd nl" unfolding pd'_def by blast
  have rows: "proper_rows pd' nl'" by (rule tracks_rows [OF r(3)])
  have pos: "m_nghosts pd = 0" using assms(1) by (simp add: binned_start_def binned_ready_def positions_ok_def)
  have box: "m_global_box pd' = m_box pd'" using D(1,2) assms(5) by simp
  have sys: "system_ok (view_of pd') (nview nl') pitch num_force num_virial"
    by (rule view_system_ok [OF rows r(4)]) (use pos assms(6-9) D in simp_all)
  from computeForces_entries [OF this, of ev pp cv] obtain out where
    o: "computeForces ev pp (view_of pd') (nview nl') cv pitch num_force num_virial = Inr out"
    "\<forall>c < 10. \<forall>m < getN (view_of pd'). entry pitch out c m = accumulated ev pp (view_of pd') (nview nl') cv c m" by blast
  have ds: "m_diameter_shift nl' = m_diameter_shift nl"
    using r(5) by (simp add: essence_def refreshed_def updateRList_def Let_def split: if_splits)
  have cut: "cutoffs_covered pd' nl' pp"
    using cutoffs_covered_cong [OF r(5) mv, of pp] cutoffs_covered_refreshed [of pd pd nl pp] assms(4) by blast
  have ty: "\<forall>i < m_nparticles pd'. unat (type_of pd' i) < Particle_Data.getNTypes pd'" using r(4) by (simp add: nlist_state_def nlist_sized_def)
  have ev: "within_reach ev (m_diameter_shift nl')" using assms(3) ds by simp
  note pe = pairs_essence [OF r(5), unfolded refreshed_pairs]
  have ex: "excluded_pair pd' nl' = excluded_pair pd' nl"
    using excluded_pair_moved [OF mv, of nl'] excluded_pair_moved [OF mv, of nl] r(6) by simp
  have ia: "interacts pd' nl' = interacts pd' nl" by (intro ext) (simp add: interacts_def ex pe(2))
  have same: "direct_sum ev pp pd' nl' cv c m = direct_sum ev pp pd' nl cv c m" for c m
    unfolding direct_sum_def pe(4) ia by (rule refl)
  have "entry pitch out c m = direct_sum ev pp pd' nl cv c m" if "c < 10" "m < m_nparticles pd'" for c m
  proof -
    have "m < getN (view_of pd')" using that(2) by (simp add: view_of_def)
    then have "entry pitch out c m = accumulated ev pp (view_of pd') (nview nl') cv c m" using o(2) that(1) by blast
    then show ?thesis using accumulated_direct [OF ev cut box ty r(2) rows that(2)] same by simp
  qed
  then show ?thesis unfolding Let_def pd'_def [symmetric] using r(1) o(1) by blast
qed

section \<open>A new list\<close>

text \<open>What setting cutoffs does not change.\<close>

definition bare :: "'a NeighborList_scheme \<Rightarrow> 'a NeighborList_scheme" where
  "bare nl = nl\<lparr>m_r_cut := [], m_r_listsq := [], m_rcut_max := [], m_rcut_max_max := 0, m_rcut_min := 0, m_rcut_changed := False,
     m_force_update := False\<rparr>"

lemma bare_simps [simp]:
  "bare (updateRList pd nl) = bare nl" "bare (forceUpdate nl) = bare nl" "bare (slotRCutChange nl) = bare nl" "bare (nl\<lparr>m_r_cut := x\<rparr>) = bare nl"
  by (simp_all add: bare_def updateRList_def forceUpdate_def slotRCutChange_def Let_def)

lemma sizes_simps [simp]:
  "cutoff_sizes pd (forceUpdate nl) = cutoff_sizes pd nl" "cutoff_sizes pd (slotRCutChange nl) = cutoff_sizes pd nl"
  by (simp_all add: cutoff_sizes_def forceUpdate_def slotRCutChange_def)

lemma sizes_cut: "cutoff_sizes pd nl \<Longrightarrow> length xs = length (m_r_cut nl) \<Longrightarrow> cutoff_sizes pd (nl\<lparr>m_r_cut := xs\<rparr>)"
  by (simp add: cutoff_sizes_def Let_def)

definition sets_pair :: "ParticleData \<Rightarrow> Scalar \<Rightarrow> ('a NeighborList_scheme \<Rightarrow> 'b) \<Rightarrow> nat \<Rightarrow> nat \<Rightarrow> 'a NeighborList_scheme \<Rightarrow> 'a NeighborList_scheme \<Rightarrow> bool" where
  "sets_pair pd r frame i j nl nl' \<longleftrightarrow> frame nl' = frame nl \<and> cutoff_sizes pd nl' \<and> m_force_update nl'
     \<and> m_r_cut nl' = (m_r_cut nl)[type_pair nl (of_nat i) (of_nat j) := r, type_pair nl (of_nat j) (of_nat i) := r]"

lemma set_upper_pairs: "set (upper_pairs nt) = {(i, j). i \<le> j \<and> j < nt}"
  by (auto simp: upper_pairs_def image_iff)

lemma setting_loop:
  assumes step: "\<And>i j nl. cutoff_sizes pd nl \<Longrightarrow> i < nt \<Longrightarrow> j < nt \<Longrightarrow> \<exists>nl'. f (i, j) nl = Inr nl' \<and> sets_pair pd r frame i j nl nl'"
    and nt: "nt = Particle_Data.getNTypes pd" and ps: "\<forall>(i, j) \<in> set ps. i < nt \<and> j < nt" and sz: "cutoff_sizes pd nl" "m_force_update nl"
  shows "\<exists>nl'. foldr_result f ps nl = Inr nl' \<and> frame nl' = frame nl \<and> cutoff_sizes pd nl' \<and> m_force_update nl'
    \<and> (\<forall>a < nt. \<forall>b < nt. m_r_cut nl ! (b * nt + a) = r \<or> (a, b) \<in> set ps \<or> (b, a) \<in> set ps \<longrightarrow> m_r_cut nl' ! (b * nt + a) = r)"
  using ps sz
proof (induction ps arbitrary: nl)
  case (Cons p ps)
  obtain i j where p: "p = (i, j)" by (cases p)
  have ij: "i < nt" "j < nt" using Cons.prems(1) by (auto simp: p)
  from step [OF Cons.prems(2) ij] obtain nl1 where n: "f p nl = Inr nl1" "sets_pair pd r frame i j nl nl1" unfolding p by blast
  have s: "frame nl1 = frame nl" "cutoff_sizes pd nl1" "m_force_update nl1"
    "m_r_cut nl1 = (m_r_cut nl)[j * nt + i := r, i * nt + j := r]"
    using n(2) type_pair_index [OF Cons.prems(2)] ij by (simp_all add: sets_pair_def nt)
  have "\<forall>(i, j) \<in> set ps. i < nt \<and> j < nt" using Cons.prems(1) by simp
  from Cons.IH [OF this s(2,3)] obtain nl' where
    i: "foldr_result f ps nl1 = Inr nl'" "frame nl' = frame nl1" "cutoff_sizes pd nl'" "m_force_update nl'"
    "\<forall>a < nt. \<forall>b < nt. m_r_cut nl1 ! (b * nt + a) = r \<or> (a, b) \<in> set ps \<or> (b, a) \<in> set ps \<longrightarrow> m_r_cut nl' ! (b * nt + a) = r" by blast
  have len: "length (m_r_cut nl) = nt * nt" using Cons.prems(2) by (simp add: cutoff_sizes_def nt Let_def)
  have "m_r_cut nl1 ! (b * nt + a) = r" if "a < nt" "b < nt" "m_r_cut nl ! (b * nt + a) = r \<or> (a, b) = p \<or> (b, a) = p" for a b
    using that pair_index_less [OF ij] pair_index_less [OF ij(2,1)] unfolding s(4) p by (auto simp: nth_list_update len)
  then have "m_r_cut nl' ! (b * nt + a) = r"
    if "a < nt" "b < nt" "m_r_cut nl ! (b * nt + a) = r \<or> (a, b) \<in> set (p # ps) \<or> (b, a) \<in> set (p # ps)" for a b
    using i(5) that by auto
  then show ?case using n(1) i(1-4) s(1) by (intro exI [of _ nl'] conjI) simp_all
qed simp

lemma sizes_types: "cutoff_sizes pd nl \<Longrightarrow> Particle_Data.getNTypes pd < 2 ^ 32"
proof -
  assume "cutoff_sizes pd nl"
  then have "Particle_Data.getNTypes pd * Particle_Data.getNTypes pd < 2 ^ 32" by (simp add: cutoff_sizes_def Let_def)
  moreover have "Particle_Data.getNTypes pd \<le> Particle_Data.getNTypes pd * Particle_Data.getNTypes pd" by (rule le_square)
  ultimately show ?thesis by linarith
qed

lemma setRCutPair_sets:
  assumes "cutoff_sizes pd nl" "i < Particle_Data.getNTypes pd" "j < Particle_Data.getNTypes pd"
  shows "\<exists>nl'. setRCutPair pd (of_nat i) (of_nat j) r nl = Inr nl' \<and> sets_pair pd r bare i j nl nl'"
proof -
  let ?n = "forceUpdate (slotRCutChange (nl\<lparr>m_r_cut := (m_r_cut nl)[type_pair nl (of_nat i) (of_nat j) := r, type_pair nl (of_nat j) (of_nat i) := r]\<rparr>))"
  have u: "unat (of_nat i :: uint) = i" "unat (of_nat j :: uint) = j"
    using sizes_types [OF assms(1)] assms(2,3) by (simp_all add: unat_of_nat_small)
  have "setRCutPair pd (of_nat i) (of_nat j) r nl = Inr ?n" using assms(2,3) by (simp add: setRCutPair_def u)
  moreover have "cutoff_sizes pd ?n" using sizes_cut [OF assms(1)] by simp
  moreover have "m_force_update ?n" "m_r_cut ?n = (m_r_cut nl)[type_pair nl (of_nat i) (of_nat j) := r, type_pair nl (of_nat j) (of_nat i) := r]"
    by (simp_all add: forceUpdate_def slotRCutChange_def)
  ultimately show ?thesis by (simp add: sets_pair_def)
qed

definition bbare :: "NeighborListBinned \<Rightarrow> NeighborListBinned" where
  "bbare nl = (bare nl)\<lparr>m_cl := setNominalWidth 0 (m_cl nl)\<rparr>"

lemma bbare_bare: "NeighborList.more a = NeighborList.more b \<Longrightarrow> bare a = bare b \<Longrightarrow> bbare a = bbare b"
  by (cases a; cases b) (simp add: bbare_def bare_def)

lemma foldl_max_le: "m \<le> b \<Longrightarrow> \<forall>j \<in> set js. g j \<le> b \<Longrightarrow> foldl (\<lambda>m j. if g j > m then g j else m) m js \<le> (b :: real)"
  by (induction js arbitrary: m) auto

lemma updateRList_max:
  assumes "0 \<le> r" "\<forall>a < Particle_Data.getNTypes pd. \<forall>b < Particle_Data.getNTypes pd. m_r_cut nl ! type_pair nl (of_nat a) (of_nat b) = r"
  shows "m_rcut_max_max (updateRList pd nl) \<le> r"
proof -
  let ?nt = "Particle_Data.getNTypes pd"
  define mx where "mx i = foldl (\<lambda>m j. if m_r_cut nl ! type_pair nl (of_nat i) (of_nat j) > m then m_r_cut nl ! type_pair nl (of_nat i) (of_nat j) else m) 0 [0..<?nt]" for i
  have "mx i \<le> r" if "i < ?nt" for i unfolding mx_def using assms that by (intro foldl_max_le) auto
  then have "foldl (\<lambda>m i. if mx i > m then mx i else m) 0 [0..<?nt] \<le> r" using assms(1) by (intro foldl_max_le) auto
  moreover have "m_rcut_max_max (updateRList pd nl) = foldl (\<lambda>m i. if mx i > m then mx i else m) 0 [0..<?nt]"
    unfolding updateRList_def mx_def Let_def by simp
  ultimately show ?thesis by simp
qed

lemma setRCutPair_more: "setRCutPair pd a b r nl = Inr n \<Longrightarrow> NeighborList.more n = NeighborList.more nl"
  by (auto simp: setRCutPair_def forceUpdate_def slotRCutChange_def split: if_splits)

lemma update_width_spec:
  assumes "cutoff_sizes pd nl"
  shows "bbare (update_width pd nl) = bbare nl \<and> cutoff_sizes pd (update_width pd nl) \<and> m_force_update (update_width pd nl) = m_force_update nl
    \<and> m_r_cut (update_width pd nl) = m_r_cut nl \<and> m_r_buff (update_width pd nl) = m_r_buff nl
    \<and> \<not> m_rcut_changed (update_width pd nl) \<and> m_nominal_width (m_cl (update_width pd nl)) = max_list_radius (update_width pd nl)
    \<and> (m_rcut_changed nl \<longrightarrow> cutoffs_ok pd (update_width pd nl) \<and> m_rcut_max_max (update_width pd nl) = m_rcut_max_max (updateRList pd nl))
    \<and> m_params_changed (m_cl (update_width pd nl))"
proof -
  define nl1 where "nl1 = (if m_rcut_changed nl then updateRList pd nl else nl)"
  define w where "w = max_list_radius nl1"
  have u: "update_width pd nl = nl1\<lparr>m_cl := setNominalWidth w (m_cl nl1)\<rparr>"
    by (simp add: update_width_def getMaxRCut_def nl1_def [symmetric] w_def max_list_radius_def Let_def)
  have n1: "bbare nl1 = bbare nl" "cutoff_sizes pd nl1" "m_force_update nl1 = m_force_update nl" "m_r_cut nl1 = m_r_cut nl" "m_r_buff nl1 = m_r_buff nl"
      "\<not> m_rcut_changed nl1" "m_rcut_changed nl \<longrightarrow> cutoffs_ok pd nl1 \<and> m_rcut_max_max nl1 = m_rcut_max_max (updateRList pd nl)"
    using updateRList_ok [OF assms] assms by (simp_all add: nl1_def bbare_def) (simp_all add: updateRList_def Let_def)
  have "bbare (update_width pd nl) = bbare nl1" by (simp add: u bbare_def bare_def setNominalWidth_def)
  moreover have "max_list_radius (update_width pd nl) = w" "m_nominal_width (m_cl (update_width pd nl)) = w"
    by (simp_all add: u w_def max_list_radius_def add_shift_def setNominalWidth_def)
  moreover have "m_params_changed (m_cl (update_width pd nl))" by (simp add: u setNominalWidth_def)
  moreover have "cutoff_sizes pd (update_width pd nl)" "cutoffs_ok pd (update_width pd nl) = cutoffs_ok pd nl1"
    using n1(2) by (simp_all add: u cutoff_sizes_def cutoffs_ok_def type_pair_def)
  moreover have "m_force_update (update_width pd nl) = m_force_update nl1" "m_r_cut (update_width pd nl) = m_r_cut nl1" "m_r_buff (update_width pd nl) = m_r_buff nl1"
    "m_rcut_changed (update_width pd nl) = m_rcut_changed nl1" "m_rcut_max_max (update_width pd nl) = m_rcut_max_max nl1" by (simp_all add: u)
  ultimately show ?thesis using n1 by simp
qed

lemma binned_setRCutPair_sets:
  assumes "cutoff_sizes pd nl" "i < Particle_Data.getNTypes pd" "j < Particle_Data.getNTypes pd"
  shows "\<exists>nl'. binned_setRCutPair pd (of_nat i) (of_nat j) r nl = Inr nl' \<and> sets_pair pd r bbare i j nl nl'"
proof -
  from setRCutPair_sets [OF assms, of r] obtain n where
    n: "setRCutPair pd (of_nat i) (of_nat j) r nl = Inr n" "sets_pair pd r bare i j nl n" by blast
  have g: "bare n = bare nl" "cutoff_sizes pd n" "m_force_update n"
    "m_r_cut n = (m_r_cut nl)[type_pair nl (of_nat i) (of_nat j) := r, type_pair nl (of_nat j) (of_nat i) := r]"
    using n(2) by (simp_all add: sets_pair_def)
  have b: "bbare n = bbare nl" by (rule bbare_bare [OF setRCutPair_more [OF n(1)] g(1)])
  have "binned_setRCutPair pd (of_nat i) (of_nat j) r nl = Inr (update_width pd n)" by (simp add: binned_setRCutPair_def n(1))
  moreover have "sets_pair pd r bbare i j nl (update_width pd n)"
    using update_width_spec [OF g(2)] b g(3,4) unfolding sets_pair_def by simp
  ultimately show ?thesis by blast
qed

lemma binned_setRCut_spec:
  assumes sz: "cutoff_sizes pd nl" "m_force_update nl" and r: "0 \<le> r_buff"
  shows "\<exists>nl'. binned_setRCut pd r_cut r_buff nl = Inr nl' \<and> bbare nl' = bbare (nl\<lparr>m_r_buff := r_buff\<rparr>) \<and> cutoff_sizes pd nl' \<and> cutoffs_ok pd nl'
    \<and> m_force_update nl' \<and> \<not> m_rcut_changed nl' \<and> m_nominal_width (m_cl nl') = max_list_radius nl' \<and> m_params_changed (m_cl nl')
    \<and> (0 \<le> r_cut \<longrightarrow> m_rcut_max_max nl' \<le> r_cut)
    \<and> (\<forall>a < Particle_Data.getNTypes pd. \<forall>b < Particle_Data.getNTypes pd. m_r_cut nl' ! type_pair nl' (of_nat a) (of_nat b) = r_cut)"
proof -
  let ?nt = "Particle_Data.getNTypes pd"
  have step: "\<exists>nl'. (\<lambda>(i, j). binned_setRCutPair pd (of_nat i) (of_nat j) r_cut) (i, j) nl = Inr nl' \<and> sets_pair pd r_cut bbare i j nl nl'"
    if "cutoff_sizes pd nl" "i < ?nt" "j < ?nt" for i j nl using binned_setRCutPair_sets [OF that] by simp
  have "\<forall>(i, j) \<in> set (upper_pairs ?nt). i < ?nt \<and> j < ?nt" by (auto simp: set_upper_pairs)
  from setting_loop [of pd ?nt, OF step refl this sz] obtain n where
    n: "foldr_result (\<lambda>(i, j). binned_setRCutPair pd (of_nat i) (of_nat j) r_cut) (upper_pairs ?nt) nl = Inr n" "bbare n = bbare nl" "cutoff_sizes pd n"
      "m_force_update n" "\<forall>a < ?nt. \<forall>b < ?nt. m_r_cut nl ! (b * ?nt + a) = r_cut \<or> (a, b) \<in> set (upper_pairs ?nt) \<or> (b, a) \<in> set (upper_pairs ?nt)
        \<longrightarrow> m_r_cut n ! (b * ?nt + a) = r_cut" by blast
  have all: "m_r_cut n ! (b * ?nt + a) = r_cut" if "a < ?nt" "b < ?nt" for a b
  proof -
    have "(a, b) \<in> set (upper_pairs ?nt) \<or> (b, a) \<in> set (upper_pairs ?nt)" using that by (auto simp: set_upper_pairs)
    then show ?thesis using n(5) that by blast
  qed
  let ?m = "forceUpdate (slotRCutChange (n\<lparr>m_r_buff := r_buff\<rparr>))"
  have sm: "cutoff_sizes pd ?m" unfolding sizes_simps using n(3) by (simp add: cutoff_sizes_def)
  have "binned_setRCut pd r_cut r_buff nl = Inr (update_width pd ?m)"
    using r by (simp add: binned_setRCut_def setRCut_def n(1) setRBuff_def Let_def)
  moreover have "bbare ?m = bbare (nl\<lparr>m_r_buff := r_buff\<rparr>)"
  proof -
    have "bbare (x\<lparr>m_r_buff := r_buff\<rparr>) = (bbare x)\<lparr>m_r_buff := r_buff\<rparr>" for x by (simp add: bbare_def bare_def)
    moreover have "bbare (forceUpdate (slotRCutChange x)) = bbare x" for x by (simp add: bbare_def bare_def forceUpdate_def slotRCutChange_def)
    ultimately show ?thesis using n(2) by simp
  qed
  moreover have "m_rcut_changed ?m" "m_force_update ?m" "m_r_cut ?m = m_r_cut n" by (simp_all add: forceUpdate_def slotRCutChange_def)
  moreover note u = update_width_spec [OF sm]
  moreover have "m_r_cut (update_width pd ?m) ! type_pair (update_width pd ?m) (of_nat a) (of_nat b) = r_cut" if "a < ?nt" "b < ?nt" for a b
    using type_pair_index [of pd "update_width pd ?m", OF _ that] u all [OF that] calculation(5) by simp
  moreover have "m_rcut_max_max (updateRList pd ?m) \<le> r_cut" if "0 \<le> r_cut"
    by (rule updateRList_max [OF that]) (use type_pair_index [OF sm] all calculation(5) in simp)
  ultimately show ?thesis by (intro exI [of _ "update_width pd ?m"]) simp
qed

lemma bare_eq: "bare a = bare b \<Longrightarrow> a = b\<lparr>m_r_cut := m_r_cut a, m_r_listsq := m_r_listsq a, m_rcut_max := m_rcut_max a,
    m_rcut_max_max := m_rcut_max_max a, m_rcut_min := m_rcut_min a, m_rcut_changed := m_rcut_changed a, m_force_update := m_force_update a\<rparr>"
  by (cases a; cases b) (simp add: bare_def)

definition initial_list :: "ParticleData \<Rightarrow> Scalar \<Rightarrow> Scalar \<Rightarrow> NeighborList" where
  "initial_list pd r_cut r_buff =
     (let nt = Particle_Data.getNTypes pd; idx = Index2D_square (of_nat nt); n = unat (Index2D_getNumElements idx); maxn = m_max_nparticles pd
      in \<lparr>n_compute = Compute_new, n_typpair_idx = idx, m_r_cut = replicate n 0, m_r_listsq = replicate n 0, m_rcut_max = replicate nt 0,
           m_rcut_max_max = r_cut, m_rcut_min = r_cut, m_r_buff = r_buff, m_d_max = 1, m_filter_body = False, m_diameter_shift = False,
           m_storage_mode = half, m_nlist = replicate (8 * maxn) 0, m_n_neigh = replicate maxn 0, m_last_pos = replicate maxn (Vec3 0 0 0),
           m_last_L = getNearestPlaneDistance (m_global_box pd), m_last_L_local = getNearestPlaneDistance (m_box pd),
           m_head_list = replicate maxn 0, n_Nmax = replicate nt 8, n_conditions = replicate nt 0,
           m_ex_list_tag = [replicate (m_rtag_size pd) 0], m_ex_list_idx = [replicate maxn 0],
           m_n_ex_tag = replicate (m_rtag_size pd) 0, m_n_ex_idx = replicate maxn 0, m_exclusions_set = False,
           m_need_reallocate_exlist = False, m_rcut_changed = True, m_updates = 0, m_forced_updates = 0, m_dangerous_updates = 0,
           m_force_update = True, m_dist_check = True, m_has_been_updated_once = False, m_last_updated_tstep = 0,
           m_last_checked_tstep = 0, m_last_check_result = False, m_every = 0, m_update_periods = replicate 100 0\<rparr>)"

lemma NeighborList_new_eq:
  "NeighborList_new pd r_cut r_buff = bindr (check (\<not> r_buff < 0) Runtime_error) (\<lambda>_.
     bindr (setRCut setRCutPair pd r_cut r_buff (initial_list pd r_cut r_buff)) (\<lambda>nl. Inr (clearExclusions pd nl)))"
  unfolding NeighborList_new_def initial_list_def Let_def by (rule refl)

lemma initial_sizes:
  assumes "Particle_Data.getNTypes pd * Particle_Data.getNTypes pd < 2 ^ 32"
  shows "cutoff_sizes pd (initial_list pd r_cut r_buff)" "m_force_update (initial_list pd r_cut r_buff)"
proof -
  let ?nt = "Particle_Data.getNTypes pd"
  have "?nt \<le> ?nt * ?nt" by (rule le_square)
  then have "?nt < 2 ^ 32" using assms by linarith
  then have "unat (of_nat ?nt * of_nat ?nt :: uint) = ?nt * ?nt" using assms
    by (simp add: unat_of_nat_small flip: of_nat_mult)
  then show "cutoff_sizes pd (initial_list pd r_cut r_buff)" using assms
    by (simp add: cutoff_sizes_def initial_list_def Index2D_getNumElements_def Index2D_square_def Let_def)
  show "m_force_update (initial_list pd r_cut r_buff)" by (simp add: initial_list_def Let_def)
qed

lemma NeighborList_new_spec:
  assumes "Particle_Data.getNTypes pd * Particle_Data.getNTypes pd < 2 ^ 32" "0 \<le> r_buff"
  shows "\<exists>nl. NeighborList_new pd r_cut r_buff = Inr nl \<and> bare nl = bare (initial_list pd r_cut r_buff) \<and> cutoff_sizes pd nl \<and> m_force_update nl"
proof -
  let ?nt = "Particle_Data.getNTypes pd" and ?i = "initial_list pd r_cut r_buff"
  have step: "\<exists>nl'. (\<lambda>(i, j). setRCutPair pd (of_nat i) (of_nat j) r_cut) (i, j) nl = Inr nl' \<and> sets_pair pd r_cut bare i j nl nl'"
    if "cutoff_sizes pd nl" "i < ?nt" "j < ?nt" for i j and nl :: NeighborList using setRCutPair_sets [OF that] by simp
  have "\<forall>(i, j) \<in> set (upper_pairs ?nt). i < ?nt \<and> j < ?nt" by (auto simp: set_upper_pairs)
  from setting_loop [of pd ?nt, OF step refl this initial_sizes [OF assms(1)]] obtain n where
    n: "foldr_result (\<lambda>(i, j). setRCutPair pd (of_nat i) (of_nat j) r_cut) (upper_pairs ?nt) ?i = Inr n" "bare n = bare ?i" "cutoff_sizes pd n"
    by blast
  note e = bare_eq [OF n(2)]
  let ?m = "forceUpdate (slotRCutChange (n\<lparr>m_r_buff := r_buff\<rparr>))"
  have new: "NeighborList_new pd r_cut r_buff = Inr (clearExclusions pd ?m)"
    using assms(2) by (simp add: NeighborList_new_eq check_def setRCut_def n(1) setRBuff_def Let_def)
  have "bare (clearExclusions pd ?m) = bare ?i"
    by (subst e) (simp add: bare_def clearExclusions_def forceUpdate_def slotRCutChange_def initial_list_def Let_def)
  moreover have "cutoff_sizes pd (clearExclusions pd ?m)"
    using n(3) by (simp add: cutoff_sizes_def clearExclusions_def forceUpdate_def slotRCutChange_def Let_def)
  ultimately show ?thesis using new by (simp add: clearExclusions_def forceUpdate_def)
qed

text \<open>A system for which a list with one cutoff can be made: particles in the box, a box that is not too small, memory that can
  be addressed, at most \<open>B\<close> later particles near each particle.\<close>

definition near_count :: "ParticleData \<Rightarrow> Scalar \<Rightarrow> nat \<Rightarrow> nat" where
  "near_count pd r i = card {j. j < m_nparticles pd \<and> i < j \<and> len3 (minImage (m_box pd) (pos_of pd i - pos_of pd j)) \<le> r}"

definition list_domain :: "nat \<Rightarrow> nat \<Rightarrow> ParticleData \<Rightarrow> Scalar \<Rightarrow> Scalar \<Rightarrow> bool" where
  "list_domain ndim B pd r_cut r_buff \<longleftrightarrow> (let nt = Particle_Data.getNTypes pd; r = r_cut + r_buff in
     0 < r_cut \<and> 0 \<le> r_buff \<and> 0 < nt \<and> nt * nt < 2 ^ 32 \<and> positions_ok ndim pd \<and> box_ok (m_global_box pd)
     \<and> m_nparticles pd \<le> m_max_nparticles pd \<and> (\<forall>i < m_nparticles pd. unat (type_of pd i) < nt)
     \<and> \<not> box_too_small ndim pd r \<and> m_nparticles pd * round8 B < 2 ^ 31 \<and> (\<forall>i < m_nparticles pd. near_count pd r i \<le> B)
     \<and> (let cl = setNominalWidth r CellList_new; d = computeDimensions ndim pd cl in dims_bounded d \<and> cells_fit ndim pd cl d))"

definition plain_list :: "ParticleData \<Rightarrow> Scalar \<Rightarrow> Scalar \<Rightarrow> NeighborListBinned \<Rightarrow> bool" where
  "plain_list pd r_cut r_buff nl \<longleftrightarrow> \<not> m_rcut_changed nl \<and> m_r_buff nl = r_buff \<and> \<not> m_exclusions_set nl \<and> \<not> m_filter_body nl
     \<and> \<not> m_diameter_shift nl \<and> m_storage_mode nl = half
     \<and> (\<forall>a b. unat a < Particle_Data.getNTypes pd \<and> unat b < Particle_Data.getNTypes pd \<longrightarrow> m_r_cut nl ! type_pair nl a b = r_cut)"

lemma plain_dense:
  assumes pl: "plain_list pd r_cut r_buff nl" and sz: "nlist_sized pd nl" and cut: "cutoffs_ok pd nl" and g: "m_nghosts pd = 0"
    and r: "0 < r_cut" "0 \<le> r_buff" and B: "\<forall>i < m_nparticles pd. near_count pd (r_cut + r_buff) i \<le> B"
  shows "dense_at_most B pd nl"
proof -
  have "card (accepted pd nl i) \<le> near_count pd (r_cut + r_buff) i" if i: "i < m_nparticles pd" for i
  proof -
    have ty: "unat (type_of pd j) < Particle_Data.getNTypes pd" if "j < m_nparticles pd" for j using sz that by (simp add: nlist_sized_def)
    have c: "pair_cutoff pd nl i j = r_cut" if "j < m_nparticles pd" for j
      using pl ty [OF i] ty [OF that] by (simp add: plain_list_def pair_cutoff_def)
    have s: "diam_shift pd nl i j = 0" "m_r_buff nl = r_buff" "stored nl i j \<longleftrightarrow> i < j" for j
      using pl by (simp_all add: plain_list_def diam_shift_def stored_def)
    have "accepted pd nl i \<subseteq> {j. j < m_nparticles pd \<and> i < j \<and> len3 (minImage (m_box pd) (pos_of pd i - pos_of pd j)) \<le> r_cut + r_buff}"
      using pair_within_len [OF cut ty [OF i] ty, of _] c s r g by (auto simp: accepted_def)
    then show ?thesis unfolding near_count_def by (rule card_mono [rotated]) simp
  qed
  then show ?thesis using B order.trans by (fastforce simp: dense_at_most_def)
qed

lemma new_binned_start:
  assumes "list_domain ndim B pd r_cut r_buff"
  shows "\<exists>nl. NeighborListBinned_new pd r_cut r_buff None = Inr nl \<and> binned_start ndim B pd 0 nl \<and> plain_list pd r_cut r_buff nl
    \<and> cutoff_sizes pd nl \<and> m_nominal_width (m_cl nl) = r_cut + r_buff"
proof -
  let ?nt = "Particle_Data.getNTypes pd" and ?r = "r_cut + r_buff" and ?N = "m_nparticles pd"
  have d: "0 < r_cut" "0 \<le> r_buff" "0 < ?nt" "?nt * ?nt < 2 ^ 32" "positions_ok ndim pd" "box_ok (m_global_box pd)" "?N \<le> m_max_nparticles pd"
    "\<forall>i < ?N. unat (type_of pd i) < ?nt" "\<not> box_too_small ndim pd ?r" "?N * round8 B < 2 ^ 31" "\<forall>i < ?N. near_count pd ?r i \<le> B"
    "dims_bounded (computeDimensions ndim pd (setNominalWidth ?r CellList_new))"
    "cells_fit ndim pd (setNominalWidth ?r CellList_new) (computeDimensions ndim pd (setNominalWidth ?r CellList_new))"
    using assms by (simp_all add: list_domain_def Let_def)
  from NeighborList_new_spec [OF d(4,2)] obtain n where
    n: "NeighborList_new pd r_cut r_buff = Inr n" "bare n = bare (initial_list pd r_cut r_buff)" "cutoff_sizes pd n" "m_force_update n" by blast
  define cl0 where "cl0 = setFlagIndex (setComputeTDB False (setRadius 1 CellList_new))"
  define n0 where "n0 = NeighborList.extend n (NeighborListBinned.fields cl0)"
  have s0: "cutoff_sizes pd n0" "m_force_update n0"
    using n(3,4) by (simp_all add: n0_def cutoff_sizes_def NeighborList.defs NeighborListBinned.defs)
  from binned_setRCut_spec [OF s0 d(2), of r_cut] obtain nl where
    b: "binned_setRCut pd r_cut r_buff n0 = Inr nl" "bbare nl = bbare (n0\<lparr>m_r_buff := r_buff\<rparr>)" "cutoff_sizes pd nl" "cutoffs_ok pd nl"
      "m_force_update nl" "\<not> m_rcut_changed nl" "m_nominal_width (m_cl nl) = max_list_radius nl" "m_params_changed (m_cl nl)"
      "0 \<le> r_cut \<longrightarrow> m_rcut_max_max nl \<le> r_cut" "\<forall>a < ?nt. \<forall>b < ?nt. m_r_cut nl ! type_pair nl (of_nat a) (of_nat b) = r_cut" by blast
  have new: "NeighborListBinned_new pd r_cut r_buff None = Inr nl"
    using b(1) by (simp add: NeighborListBinned_new_def n(1) n0_def cl0_def)
  note fields = bbare_def bare_def n0_def NeighborList.defs NeighborListBinned.defs initial_list_def Let_def
  note A = arg_cong [OF b(2)] and C = arg_cong [OF n(2)]
  have f: "n_compute nl = Compute_new" "m_every nl = 0" "m_last_updated_tstep nl = 0"
    using A [of n_compute] A [of m_every] A [of m_last_updated_tstep] C [of n_compute] C [of m_every] C [of m_last_updated_tstep] by (simp_all add: fields)
  have p: "m_r_buff nl = r_buff" "\<not> m_exclusions_set nl" "\<not> m_filter_body nl" "\<not> m_diameter_shift nl" "m_storage_mode nl = half"
    using A [of m_r_buff] A [of m_exclusions_set] A [of m_filter_body] A [of m_diameter_shift] A [of m_storage_mode]
      C [of m_exclusions_set] C [of m_filter_body] C [of m_diameter_shift] C [of m_storage_mode] by (simp_all add: fields)
  have z: "length (m_head_list nl) = m_max_nparticles pd" "length (m_n_neigh nl) = m_max_nparticles pd" "n_Nmax nl = replicate ?nt 8"
    "n_conditions nl = replicate ?nt 0" "length (m_last_pos nl) = m_max_nparticles pd"
    using A [of m_head_list] A [of m_n_neigh] A [of n_Nmax] A [of n_conditions] A [of m_last_pos]
      C [of m_head_list] C [of m_n_neigh] C [of n_Nmax] C [of n_conditions] C [of m_last_pos] by (simp_all add: fields)
  have "setNominalWidth 0 (m_cl nl) = setNominalWidth 0 cl0" using A [of m_cl] by (simp add: fields)
  note K = arg_cong [OF this]
  have cl: "m_radius (m_cl nl) = 1" "m_multiple (m_cl nl) = 1" "c_Nmax (m_cl nl) = 0" "flags_index (m_cl nl)" "m_last_computed (c_compute (m_cl nl)) = 0"
    using K [of m_radius] K [of m_multiple] K [of c_Nmax] K [of m_flag_charge] K [of m_flag_type] K [of "\<lambda>c. m_last_computed (c_compute c)"]
    by (simp_all add: setNominalWidth_def cl0_def setFlagIndex_def setComputeTDB_def setRadius_def CellList_new_def flags_index_def Compute_new_def)
  have cut: "m_r_cut nl ! type_pair nl a b = r_cut" if "unat a < ?nt" "unat b < ?nt" for a b
    using b(10) [rule_format, OF that] by simp
  have plain: "plain_list pd r_cut r_buff nl" using p b(6) cut by (simp add: plain_list_def)
  have "r_cut \<le> m_rcut_max_max nl" using b(4) cut [of 0 0] d(3) by (auto simp: cutoffs_ok_def Let_def)
  then have radius: "max_list_radius nl = ?r" using b(9) d(1) p by (simp add: max_list_radius_def add_shift_def)
  have pos: "m_nghosts pd = 0" "?N \<le> length (m_pos (m_arrays pd))" "box_ok (m_box pd)" "ndim = 2 \<or> ndim = 3" using d(5) by (simp_all add: positions_ok_def)
  have sized: "nlist_sized pd nl" using z d(7,8) pos(1) by (simp add: nlist_sized_def)
  have state: "nlist_state pd nl" using sized z d(7) pos(2) by (simp add: nlist_state_def)
  have "round8 0 \<le> round8 B" by (rule round8_mono) simp
  then have "8 \<le> round8 B" by (simp add: round8_def [of 0])
  then have rows: "rows_at_most B pd nl" using z d(8,10) by (simp add: rows_at_most_def)
  have dense: "dense_at_most B pd nl" by (rule plain_dense [OF plain sized b(4) pos(1) d(1,2,11)])
  have geo: "geometry_ok ndim pd nl" using b(4) p d(2,6,9) radius by (simp add: geometry_ok_def diameters_ok_def)
  have radii: "radii_ok pd nl" using d(1,2) p cut d(8) by (simp add: radii_ok_def pair_cutoff_def diam_shift_def)
  have dims: "computeDimensions ndim pd (m_cl nl) = computeDimensions ndim pd (setNominalWidth ?r CellList_new)"
    by (rule computeDimensions_settings) (simp_all add: b(7) radius cl, simp_all add: setNominalWidth_def CellList_new_def)
  have call: "cells_callable ndim pd 0 (m_cl nl)"
    using b(7,8) radius d(1,2,12,13) pos(3,4) dims cl(1,3)
    by (simp add: cells_callable_def needs_compute_def cells_fit_def) (simp add: setNominalWidth_def CellList_new_def)
  have same: "refreshed pd nl = nl" using b(6) by (simp add: refreshed_def)
  have "binned_ready ndim pd 0 nl"
    using b(6,7) call cl geo radii radius d(5) by (simp add: binned_ready_def)
  then have "binned_start ndim B pd 0 nl"
    using b(5) f state rows dense p by (simp add: binned_start_def same Compute_new_def)
  then show ?thesis using new plain b(3,7) radius by auto
qed

text \<open>A simulation in terms of the particle data alone.\<close>

fun steps_ok :: "nat \<Rightarrow> nat \<Rightarrow> Scalar \<Rightarrow> ParticleData \<times> nat \<Rightarrow> (ParticleData \<times> nat) list \<Rightarrow> bool" where
  "steps_ok ndim B r prev [] = True"
| "steps_ok ndim B r (pd0, t0) ((pd, t) # calls) \<longleftrightarrow>
     moved pd0 pd \<and> t0 < t \<and> positions_ok ndim pd \<and> (\<forall>i < m_nparticles pd. near_count pd r i \<le> B) \<and> steps_ok ndim B r (pd, t) calls"

lemma steps_calls:
  assumes "plain_list pd r_cut r_buff nl" "cutoffs_ok pd nl" "nlist_sized pd nl" "0 < r_cut" "0 \<le> r_buff" "positions_ok ndim pd"
    and "steps_ok ndim B (r_cut + r_buff) (pd, t) calls"
  shows "calls_ok ndim B nl (pd, t) calls"
  using assms
proof (induction calls arbitrary: pd t)
  case (Cons c calls)
  obtain pd' t' where c: "c = (pd', t')" by (cases c)
  have s: "moved pd pd'" "t < t'" "positions_ok ndim pd'" "\<forall>i < m_nparticles pd'. near_count pd' (r_cut + r_buff) i \<le> B"
    "steps_ok ndim B (r_cut + r_buff) (pd', t') calls" using Cons.prems(7) by (simp_all add: c)
  note D = movedD [OF s(1)]
  have lp: "m_nparticles pd \<le> length (m_pos (m_arrays pd))" "m_nghosts pd' = 0" "m_nghosts pd = 0"
    using Cons.prems(6) s(3) by (simp_all add: positions_ok_def)
  have pl: "plain_list pd' r_cut r_buff nl" using Cons.prems(1) D(11) by (simp add: plain_list_def)
  have cut: "cutoffs_ok pd' nl" using Cons.prems(2) D(11) by (simp add: cutoffs_ok_def)
  have "type_of pd' i = type_of pd i" if "i < m_nparticles pd" for i using D(12) lp(1) that by simp
  then have sz: "nlist_sized pd' nl" using Cons.prems(3) D(3,11) lp(2,3) by (simp add: nlist_sized_def)
  have "dense_at_most B pd' nl" by (rule plain_dense [OF pl sz cut lp(2) Cons.prems(4,5) s(4)])
  moreover have "calls_ok ndim B nl (pd', t') calls" by (rule Cons.IH [OF pl cut sz Cons.prems(4,5) s(3,5)])
  ultimately show ?case using s(1-3) by (simp add: c)
qed simp

text \<open>C1: a new list serves a simulation. For every centred box that is not too small the constructor succeeds, and
  after any number of steps in which only the particles move, inside the same box, the forces computed over the
  list are those of the sum over all pairs; no step fails, and none runs forever.\<close>

theorem new_list_forces:
  assumes "list_domain ndim B pd r_cut r_buff" "steps_ok ndim B (r_cut + r_buff) (pd, 0) calls" "m_global_box pd = m_box pd"
    and "within_reach ev False" "\<forall>a b. unat a < Particle_Data.getNTypes pd \<and> unat b < Particle_Data.getNTypes pd \<longrightarrow>
      (\<exists>rc. 0 \<le> rc \<and> rc \<le> r_cut \<and> m_rcutsq pp ! typpair pp a b = rc * rc)"
    and "m_nparticles pd \<le> num_force" "m_nparticles pd \<le> pitch" "6 * pitch \<le> num_virial"
  shows "let pd' = fst (last ((pd, 0) # calls))
    in \<exists>nl nl' out. NeighborListBinned_new pd r_cut r_buff None = Inr nl
      \<and> run_nlist (binned_buildNlist ndim) ((pd, 0) # calls) nl = Some (Inr nl')
      \<and> computeForces ev pp (view_of pd') (nview nl') cv pitch num_force num_virial = Inr out
      \<and> (\<forall>c < 10. \<forall>m < m_nparticles pd. entry pitch out c m = (\<Sum>j \<in> {..<m_nparticles pd} - {m}.
          if m < j then pair_entry ev pp (view_of pd') cv c m j else reaction c * pair_entry ev pp (view_of pd') cv c j m))"
proof -
  define pd' where "pd' = fst (last ((pd, 0 :: nat) # calls))"
  from new_binned_start [OF assms(1)] obtain nl where
    n: "NeighborListBinned_new pd r_cut r_buff None = Inr nl" "binned_start ndim B pd 0 nl" "plain_list pd r_cut r_buff nl" by blast
  have d: "0 < r_cut" "0 \<le> r_buff" "positions_ok ndim pd" "Particle_Data.getNTypes pd * Particle_Data.getNTypes pd < 2 ^ 32"
    using assms(1) by (simp_all add: list_domain_def Let_def)
  have same: "refreshed pd nl = nl" using n(3) by (simp add: refreshed_def plain_list_def)
  have "cutoffs_ok pd nl" "nlist_sized pd nl"
    using n(2) by (simp_all add: binned_start_def binned_ready_def geometry_ok_def same nlist_state_def)
  from steps_calls [OF n(3) this d(1,2,3) assms(2)] have calls: "calls_ok ndim B (refreshed pd nl) (pd, 0) calls" by (simp only: same)
  have "Particle_Data.getNTypes pd \<le> Particle_Data.getNTypes pd * Particle_Data.getNTypes pd" by (rule le_square)
  then have nt: "Particle_Data.getNTypes pd < 2 ^ 32" using d(4) by linarith
  have ev: "within_reach ev (m_diameter_shift nl)" using n(3) assms(4) by (simp add: plain_list_def)
  have "cutoffs_covered pd nl pp"
    unfolding cutoffs_covered_def
  proof (intro allI impI)
    fix a b :: uint assume ab: "unat a < Particle_Data.getNTypes pd \<and> unat b < Particle_Data.getNTypes pd"
    then have "m_r_cut nl ! type_pair nl a b = r_cut" using n(3) by (simp add: plain_list_def)
    moreover obtain rc where "0 \<le> rc" "rc \<le> r_cut" "m_rcutsq pp ! typpair pp a b = rc * rc" using assms(5) ab by blast
    ultimately show "\<exists>rc \<ge> 0. m_rcutsq pp ! typpair pp a b = rc * rc
        \<and> (if 0 < m_r_cut nl ! type_pair nl a b then rc \<le> m_r_cut nl ! type_pair nl a b else rc = 0 \<and> \<not> m_diameter_shift nl)"
      using d(1) by auto
  qed
  from pair_forces_complete [OF n(2) calls ev this assms(3) nt assms(6-8), of cv, unfolded Let_def, folded pd'_def] obtain nl' out where
    r: "run_nlist (binned_buildNlist ndim) ((pd, 0) # calls) nl = Some (Inr nl')"
    "computeForces ev pp (view_of pd') (nview nl') cv pitch num_force num_virial = Inr out"
    "\<forall>c < 10. \<forall>m < m_nparticles pd'. entry pitch out c m = direct_sum ev pp pd' nl cv c m" by blast
  have N: "m_nparticles pd' = m_nparticles pd" unfolding pd'_def by (rule movedD(3) [OF calls_ok_last [OF calls]])
  have "interacts pd' nl i j \<longleftrightarrow> True" for i j using n(3) by (simp add: plain_list_def interacts_def same_body_def excluded_pair_def)
  moreover have "stored nl i j \<longleftrightarrow> i < j" for i j using n(3) by (simp add: plain_list_def stored_def)
  ultimately have "direct_sum ev pp pd' nl cv c m = (\<Sum>j \<in> {..<m_nparticles pd} - {m}.
      if m < j then pair_entry ev pp (view_of pd') cv c m j else reaction c * pair_entry ev pp (view_of pd') cv c j m)" for c m
    by (simp only: direct_sum_def N if_True)
  then show ?thesis unfolding Let_def pd'_def [symmetric] using n(1) r by (auto simp: N)
qed

section \<open>Examples\<close>

lemma example_domain: "list_domain 3 8 example_particles 1 (2/5)"
proof -
  let ?pd = example_particles
  have p: "Particle_Data.getNTypes ?pd = 1" "m_max_nparticles ?pd = 3" "m_global_box ?pd = BoxDim_cube 4"
    by (simp_all add: example_particles_def Particle_Data.getNTypes_def ParticleData_null_def)
  have ty: "\<forall>i < 3. unat (type_of ?pd i) < 1" by (auto simp: type_of_def less_Suc_eq numeral_3_eq_3)
  have c: "box_centred (BoxDim_cube 4)" by (simp add: box_constructor_defs box_centred_def Let_def vec3_eq_iff)
  have pos: "positions_ok 3 ?pd" using example_proper example_cube(1) c by (simp add: positions_ok_def)
  have big: "\<not> box_too_small 3 ?pd (1 + 2/5)" by (simp add: box_too_small_def example_cube)
  have "cast_int (4 / (1 + 2/5)) = 2" by (simp add: cast_int_def)
  then have dim: "computeDimensions 3 ?pd (setNominalWidth (1 + 2/5) CellList_new) = Tri 2 2 2"
    by (simp add: computeDimensions_def example_cube CellList_new_def setNominalWidth_def roundDown_def Let_def)
  have fit: "cells_fit 3 ?pd (setNominalWidth (1 + 2/5) CellList_new) (Tri 2 2 2)"
    by (simp add: cells_fit_def cell_count_def adj_width_def CellList_new_def setNominalWidth_def)
  have "near_count ?pd (1 + 2/5) i \<le> card {..<3::nat}" for i unfolding near_count_def by (rule card_mono) auto
  then have B: "near_count ?pd (1 + 2/5) i \<le> 8" for i using order.trans [of "near_count ?pd (1 + 2/5) i" 3 8] by simp
  show ?thesis
    unfolding list_domain_def Let_def dim
    using ty pos big fit B by (simp add: p example_cube(1) round8_def dims_bounded_def)
qed

text \<open>The particles a step later.\<close>

definition example_moved :: ParticleData where
  "example_moved = example_particles\<lparr>m_arrays := (m_arrays example_particles)\<lparr>m_pos := [(Vec3 (1/10) 0 0, 0), (Vec3 1 0 0, 0), (Vec3 (- 2) (- 2) (- 2), 0)]\<rparr>\<rparr>"


lemma example_moved_simps [simp]:
  "m_nparticles example_moved = 3" "m_nghosts example_moved = 0" "m_box example_moved = BoxDim_cube 4"
  "m_pos (m_arrays example_moved) = [(Vec3 (1/10) 0 0, 0), (Vec3 1 0 0, 0), (Vec3 (- 2) (- 2) (- 2), 0)]"
  by (simp_all add: example_moved_def)

lemma example_moves: "moved example_particles example_moved"
  by (simp add: moved_def example_moved_def)

lemma example_moved_proper: "n < 3 \<Longrightarrow> proper example_moved n"
proof -
  assume n: "n < 3"
  have F: "fraction example_moved 0 = Vec3 (21/40) (1/2) (1/2)" "fraction example_moved (Suc 0) = Vec3 (3/4) (1/2) (1/2)"
    "fraction example_moved 2 = Vec3 0 0 0"
    by (simp_all add: fraction_def vec3_eq_iff makeFraction_components [OF example_cube(1)]) (simp_all add: box_constructor_defs Let_def)
  from n consider "n = 0" | "n = Suc 0" | "n = 2" by linarith
  then show ?thesis by cases (simp_all add: F proper_def proper_along_def inside_along_def out_of_bounds_def Let_def)
qed

lemma example_steps: "steps_ok 3 8 (1 + 2/5) (example_particles, 0) [(example_moved, 1)]"
proof -
  have c: "box_centred (BoxDim_cube 4)" by (simp add: box_constructor_defs box_centred_def Let_def vec3_eq_iff)
  have "near_count example_moved (1 + 2/5) i \<le> card {..<3::nat}" for i unfolding near_count_def by (rule card_mono) auto
  then have "near_count example_moved (1 + 2/5) i \<le> 8" for i using order.trans [of "near_count example_moved (1 + 2/5) i" 3 8] by simp
  then show ?thesis using example_moves example_moved_proper example_cube(1) c by (simp add: positions_ok_def)
qed

definition example_lj :: "Scalar2 PotentialPair" where
  "example_lj = \<lparr>m_shift_mode = no_shift, m_typpair_idx = Index2D_square 1, m_rcutsq = [1], m_ronsq = [1], m_params = [(4, 4)], m_log_name = ''pair_lj_energy''\<rparr>"

theorem new_list_forces_witness:
  "\<exists>nl nl' out. NeighborListBinned_new example_particles 1 (2/5) None = Inr nl
    \<and> run_nlist (binned_buildNlist 3) [(example_particles, 0), (example_moved, 1)] nl = Some (Inr nl')
    \<and> computeForces LJ example_lj (view_of example_moved) (nview nl') True 3 3 18 = Inr out
    \<and> entry 3 out 0 0 = (\<Sum>j \<in> {..<3} - {0}. pair_entry LJ example_lj (view_of example_moved) True 0 0 j)"
proof -
  have p: "Particle_Data.getNTypes example_particles = 1" "m_global_box example_particles = m_box example_particles"
    by (simp_all add: example_particles_def Particle_Data.getNTypes_def)
  have idx: "typpair example_lj a b = 0" if "unat a < 1" "unat b < 1" for a b
    using that by (simp add: example_lj_def Index2D_idx_def unat_eq_0)
  have "\<forall>a b. unat a < Particle_Data.getNTypes example_particles \<and> unat b < Particle_Data.getNTypes example_particles \<longrightarrow>
      (\<exists>rc. 0 \<le> rc \<and> rc \<le> 1 \<and> m_rcutsq example_lj ! typpair example_lj a b = rc * rc)"
    using idx by (intro allI impI exI [of _ 1]) (simp add: p, simp add: example_lj_def)
  from new_list_forces [OF example_domain example_steps p(2) evaluators_within(1) this, of 3 3 18 True] obtain nl nl' out where
    r: "NeighborListBinned_new example_particles 1 (2/5) None = Inr nl"
    "run_nlist (binned_buildNlist 3) [(example_particles, 0), (example_moved, 1)] nl = Some (Inr nl')"
    "computeForces LJ example_lj (view_of example_moved) (nview nl') True 3 3 18 = Inr out"
    "\<forall>c < 10. \<forall>m < 3. entry 3 out c m = (\<Sum>j \<in> {..<3} - {m}.
       if m < j then pair_entry LJ example_lj (view_of example_moved) True c m j else reaction c * pair_entry LJ example_lj (view_of example_moved) True c j m)"
    by auto
  have "entry 3 out 0 0 = (\<Sum>j \<in> {..<3} - {0}.
       if 0 < j then pair_entry LJ example_lj (view_of example_moved) True 0 0 j else reaction 0 * pair_entry LJ example_lj (view_of example_moved) True 0 j 0)"
    using r(4) by simp
  also have "\<dots> = (\<Sum>j \<in> {..<3} - {0}. pair_entry LJ example_lj (view_of example_moved) True 0 0 j)" by (rule sum.cong) auto
  finally show ?thesis using r(1-3) by blast
qed

text \<open>C28: a list that cannot be right is not returned. When a particle is outside of the box, or the box is
  so small that the list radius reaches half of a plane distance, a forced \<open>compute\<close> fails.\<close>

theorem neighbor_list_errors:
  assumes "m_force_update nl" "nlist_state pd nl" "head_at pd nl (m_nparticles pd) < 2 ^ 31" "m_exclusions_set nl \<longrightarrow> ex_arrays_ok pd nl"
    and "cells_callable ndim pd t (m_cl nl)"
    and "\<not> locals_inside pd \<or> box_too_small ndim pd (max_list_radius (refreshed pd nl))"
  shows "\<exists>e. nlist_compute (binned_buildNlist ndim) pd t nl = Some (Inl e)"
proof -
  define c where "c = snd (shouldCompute t (n_compute nl))"
  define nl0 where "nl0 = (refreshed pd nl)\<lparr>n_compute := c\<rparr>"
  have s0: "nlist_state pd nl0" "m_force_update nl0" "head_at pd nl0 (m_nparticles pd) < 2 ^ 31" "m_exclusions_set nl0 \<longrightarrow> ex_arrays_ok pd nl0"
    using assms(1-4) head_at_cong [of nl0 nl pd] by (simp_all add: nl0_def)
  from arranged_spec [OF s0(1,3,4)] obtain nl1 where
    a: "arranged pd nl0 = Inr nl1" "essence nl1 = essence nl0" "NeighborList.more nl1 = NeighborList.more nl0" "m_force_update nl1 = m_force_update nl0" by blast
  define nl2 where "nl2 = snd (needsUpdating pd t nl1)"
  have tl: "timeless nl2 = timeless nl1" unfolding nl2_def by (rule needsUpdating_timeless)
  note T = timelessD [OF tl]
  have "NeighborList.more nl2 = NeighborList.more nl" using T(2) a(3) by (simp add: nl0_def refreshed_def updateRList_def Let_def)
  then have cl: "m_cl nl2 = m_cl nl" by (cases nl; cases nl2) simp
  have ess: "essence nl2 = essence (refreshed pd nl)" using T(1) a(2) by (simp add: nl0_def)
  have ch: "\<not> m_rcut_changed nl2"
  proof -
    have "m_rcut_changed nl2 = m_rcut_changed (refreshed pd nl)" using ess by (simp add: essence_def)
    then show ?thesis by (simp add: refreshed_def updateRList_def Let_def)
  qed
  have rad: "max_list_radius nl2 = max_list_radius (refreshed pd nl)" by (rule radius_essence [OF ess])
  obtain e where e: "binned_buildNlist ndim pd t nl2 = Some (Inl e)"
  proof (cases "locals_inside pd")
    case False
    then show ?thesis using that cells_compute_spec [OF assms(5)] by (auto simp: binned_buildNlist_def cl)
  next
    case True
    then obtain cl' where c: "cells_compute ndim pd t (m_cl nl) = Some (Inr cl')" using cells_compute_spec [OF assms(5)] by auto
    let ?n = "nl2\<lparr>m_cl := cl'\<rparr>"
    have m: "getMaxRCut pd ?n = (m_rcut_max_max nl2, ?n)" using ch by (simp add: getMaxRCut_def)
    have "box_too_small ndim pd (add_shift ?n (m_rcut_max_max nl2 + m_r_buff ?n))"
      using assms(6) True rad by (cases "m_diameter_shift nl2") (simp_all add: max_list_radius_def add_shift_def)
    then have "binned_buildNlist ndim pd t nl2 = Some (Inl Runtime_error)" unfolding binned_buildNlist_def by (simp add: c cl m Let_def)
    then show ?thesis by (rule that)
  qed
  have "build_until_fits (binned_buildNlist ndim) pd t nl2 = Some (Inl e)" by (subst build_until_fits.simps) (simp add: e)
  then have r: "rebuild (binned_buildNlist ndim) pd t nl2 = Some (Inl e)" by (simp add: rebuild_def)
  have f1: "m_force_update nl1" using a(4) s0(2) by simp
  obtain sh where sh: "shouldCompute t (n_compute nl) = (sh, c)" unfolding c_def by (cases "shouldCompute t (n_compute nl)") simp
  have "nlist_compute (binned_buildNlist ndim) pd t nl = (case arranged pd nl0 of Inl e \<Rightarrow> Some (Inl e)
      | Inr nl \<Rightarrow> let (needs, nl) = needsUpdating pd t nl in if needs then rebuild (binned_buildNlist ndim) pd t nl else Some (Inr nl))"
    using assms(1) by (simp add: nlist_compute_eq Let_def sh nl0_def [symmetric] s0(2))
  also have "\<dots> = rebuild (binned_buildNlist ndim) pd t nl2"
    using needsUpdating_forced [OF f1, of pd t] by (simp add: a(1) nl2_def split_def)
  finally show ?thesis using r by auto
qed

theorem neighbor_list_complete_witness:
  "\<exists>nl nl'. NeighborListBinned_new example_particles 1 (2/5) None = Inr nl
    \<and> nlist_compute (binned_buildNlist 3) example_particles 0 nl = Some (Inr nl') \<and> 1 \<in> set (neighbors (nview nl') 0)"
proof -
  from new_binned_start [OF example_domain] obtain nl where
    n: "NeighborListBinned_new example_particles 1 (2/5) None = Inr nl" "binned_start 3 8 example_particles 0 nl" "plain_list example_particles 1 (2/5) nl" by blast
  from neighbor_list_complete [OF n(2)] obtain nl' where
    c: "nlist_compute (binned_buildNlist 3) example_particles 0 nl = Some (Inr nl')"
    "\<forall>i < m_nparticles example_particles. set (neighbors (nview nl') i) = {j. j < m_nparticles example_particles \<and> j \<noteq> i
      \<and> 0 < pair_cutoff example_particles nl i j \<and> \<not> same_body example_particles nl i j \<and> stored nl i j
      \<and> len3 (minImage (m_box example_particles) (pos_of example_particles i - pos_of example_particles j))
          \<le> pair_cutoff example_particles nl i j + m_r_buff nl + diam_shift example_particles nl i j
      \<and> \<not> excluded_pair example_particles nl i j}" by blast
  have p: "m_r_buff nl = 2/5" "\<not> m_exclusions_set nl" "\<not> m_filter_body nl" "\<not> m_diameter_shift nl" "m_storage_mode nl = half"
    using n(3) by (simp_all add: plain_list_def)
  have "Particle_Data.getNTypes example_particles = 1" by (simp add: example_particles_def Particle_Data.getNTypes_def)
  then have cut: "pair_cutoff example_particles nl 0 1 = 1" using n(3) by (simp add: plain_list_def pair_cutoff_def type_of_def)
  have "minImage (BoxDim_cube 4) (Vec3 0 0 0 - Vec3 1 0 0) = Vec3 (- 1) 0 0"
    by (simp add: minImage_def minImage_x_def minImage_y_def minImage_z_def box_constructor_defs Let_def vec3_eq_iff)
  then have "len3 (minImage (BoxDim_cube 4) (Vec3 0 0 0 - Vec3 1 0 0)) = 1" by (simp add: len3_def dot_def)
  then have "1 \<in> set (neighbors (nview nl') 0)"
    using c(2) cut p by (simp add: same_body_def stored_def diam_shift_def excluded_pair_def pos_of_def)
  then show ?thesis using n(1) c(1) by blast
qed


definition example_outside :: ParticleData where
  "example_outside = example_particles\<lparr>m_arrays := (m_arrays example_particles)\<lparr>m_pos := [(Vec3 0 0 0, 0), (Vec3 10 0 0, 0), (Vec3 (- 2) (- 2) (- 2), 0)]\<rparr>\<rparr>"

lemma example_outside_moved: "moved example_particles example_outside"
  by (simp add: moved_def example_outside_def)

lemma example_outside_not_inside: "\<not> locals_inside example_outside"
proof -
  have "m_box example_outside = BoxDim_cube 4" by (simp add: example_outside_def)
  then have "vx (fraction example_outside 1) = 3"
    by (simp add: fraction_def makeFraction_components [OF example_cube(1)]) (simp add: example_outside_def box_constructor_defs Let_def)
  then have "\<not> inside example_outside 1" by (simp add: inside_def inside_along_def out_of_bounds_def Let_def)
  moreover have "1 < m_nparticles example_outside" by (simp add: example_outside_def)
  ultimately show ?thesis unfolding locals_inside_def by blast
qed

theorem neighbor_list_errors_witness:
  "\<exists>nl e. NeighborListBinned_new example_particles 1 (2/5) None = Inr nl \<and> nlist_compute (binned_buildNlist 3) example_outside 1 nl = Some (Inl e)"
proof -
  from new_binned_start [OF example_domain] obtain nl where
    n: "NeighborListBinned_new example_particles 1 (2/5) None = Inr nl" "binned_start 3 8 example_particles 0 nl" "plain_list example_particles 1 (2/5) nl" by blast
  note mv = example_outside_moved
  note D = movedD [OF mv]
  have same: "refreshed example_particles nl = nl" using n(3) by (simp add: refreshed_def plain_list_def)
  have s: "m_force_update nl" "nlist_state example_particles nl" "rows_at_most 8 example_particles nl" "dense_at_most 8 example_particles nl"
    "cells_callable 3 example_particles 0 (m_cl nl)" "m_last_computed (c_compute (m_cl nl)) \<le> 0" "\<not> m_exclusions_set nl"
    using n(2,3) by (simp_all add: binned_start_def binned_ready_def same plain_list_def)
  have ty: "type_of example_outside i = type_of example_particles i" if "i < 3" for i using D(12) that by simp
  have st: "nlist_state example_outside nl"
    using s(2) D ty by (simp add: nlist_state_def nlist_sized_def)
  have "head_at example_particles nl 3 < 2 ^ 31" using nlist_fits_head [OF rows_fits [OF s(4,3)]] by simp
  then have hd: "head_at example_outside nl (m_nparticles example_outside) < 2 ^ 31"
    using D(3) ty by (simp add: head_at_def)
  have call: "cells_callable 3 example_outside 1 (m_cl nl)" by (rule callable_moved [OF s(5) mv s(6)]) simp
  show ?thesis
    using neighbor_list_errors [OF s(1) st hd _ call] example_outside_not_inside s(7) n(1) by blast
qed

section \<open>Exclusions by tag\<close>

text \<open>The excluded partners of a particle, in the order they were added.\<close>

definition ex_row :: "'a NeighborList_scheme \<Rightarrow> nat \<Rightarrow> nat list" where
  "ex_row nl a = map (\<lambda>k. m_ex_list_tag nl ! k ! a) [0..<m_n_ex_tag nl ! a]"

lemma set_ex_row: "set (ex_row nl a) = ex_tags nl a"
  by (auto simp: ex_row_def ex_tags_def)

definition exclusion_arrays :: "ParticleData \<Rightarrow> 'a NeighborList_scheme \<Rightarrow> bool" where
  "exclusion_arrays pd nl \<longleftrightarrow> \<not> m_need_reallocate_exlist nl \<and> getMaximumTag pd < m_rtag_size pd \<and> length (m_n_ex_tag nl) = m_rtag_size pd
     \<and> length (m_ex_list_tag nl) = length (m_ex_list_idx nl) \<and> (\<forall>row \<in> set (m_ex_list_tag nl). length row = m_rtag_size pd)
     \<and> (\<forall>a < m_rtag_size pd. m_n_ex_tag nl ! a \<le> length (m_ex_list_tag nl))"

definition exclusions_ok :: "ParticleData \<Rightarrow> 'a NeighborList_scheme \<Rightarrow> bool" where
  "exclusions_ok pd nl \<longleftrightarrow> exclusion_arrays pd nl \<and> (\<forall>a \<le> getMaximumTag pd. distinct (ex_row nl a) \<and> a \<notin> set (ex_row nl a)
     \<and> (\<forall>b \<le> getMaximumTag pd. b \<in> set (ex_row nl a) \<longleftrightarrow> a \<in> set (ex_row nl b)))"

lemma isExcluded_row:
  assumes "exclusion_arrays pd nl" "a \<le> getMaximumTag pd" "b \<le> getMaximumTag pd"
  shows "isExcluded pd a b nl = Inr (b \<in> set (ex_row nl a))"
  using assms by (auto simp: isExcluded_def exclusion_arrays_def check_def ex_row_def list_ex_iff)

lemma grow_rows:
  assumes "exclusion_arrays pd nl"
  shows "m_ex_list_tag (growExclusionList pd nl) = m_ex_list_tag nl @ [replicate (m_rtag_size pd) 0]"
proof -
  have "map (array_resize 0 (m_rtag_size pd)) (m_ex_list_tag nl) = m_ex_list_tag nl"
    by (rule map_idI) (use assms in \<open>auto simp: exclusion_arrays_def array_resize_def\<close>)
  moreover have "length (m_ex_list_idx nl) = length (m_ex_list_tag nl)" using assms by (simp add: exclusion_arrays_def)
  ultimately show ?thesis by (simp add: growExclusionList_def rows_resize_def forceUpdate_def array_resize_def Let_def)
qed

lemma grow_keeps:
  assumes "exclusion_arrays pd nl"
  shows "exclusion_arrays pd (growExclusionList pd nl)" "a < m_rtag_size pd \<Longrightarrow> ex_row (growExclusionList pd nl) a = ex_row nl a"
    "length (m_ex_list_tag (growExclusionList pd nl)) = length (m_ex_list_tag nl) + 1" "m_n_ex_tag (growExclusionList pd nl) = m_n_ex_tag nl"
    "m_exclusions_set (growExclusionList pd nl) = m_exclusions_set nl"
proof -
  note g = grow_rows [OF assms]
  have f: "m_n_ex_tag (growExclusionList pd nl) = m_n_ex_tag nl" "m_need_reallocate_exlist (growExclusionList pd nl) = m_need_reallocate_exlist nl"
    "length (m_ex_list_idx (growExclusionList pd nl)) = length (m_ex_list_idx nl) + 1" "m_exclusions_set (growExclusionList pd nl) = m_exclusions_set nl"
    by (simp_all add: growExclusionList_def forceUpdate_def rows_resize_def array_resize_def Let_def)
  show "exclusion_arrays pd (growExclusionList pd nl)"
    using assms by (auto simp: exclusion_arrays_def f g le_SucI)
  show "a < m_rtag_size pd \<Longrightarrow> ex_row (growExclusionList pd nl) a = ex_row nl a"
    using assms by (auto simp: ex_row_def f g exclusion_arrays_def nth_append)
  show "length (m_ex_list_tag (growExclusionList pd nl)) = length (m_ex_list_tag nl) + 1" by (simp add: g)
  show "m_n_ex_tag (growExclusionList pd nl) = m_n_ex_tag nl" "m_exclusions_set (growExclusionList pd nl) = m_exclusions_set nl" by (simp_all add: f)
qed

lemma store_spec:
  assumes ok: "exclusion_arrays pd nl" and a: "a < m_rtag_size pd" and room: "m_n_ex_tag nl ! a < length (m_ex_list_tag nl)"
  shows "\<exists>nl'. store_exclusion a b nl = Inr nl' \<and> exclusion_arrays pd nl' \<and> ex_row nl' a = ex_row nl a @ [b]
    \<and> (\<forall>c < m_rtag_size pd. c \<noteq> a \<longrightarrow> ex_row nl' c = ex_row nl c \<and> m_n_ex_tag nl' ! c = m_n_ex_tag nl ! c)
    \<and> length (m_ex_list_tag nl') = length (m_ex_list_tag nl) \<and> m_exclusions_set nl' = m_exclusions_set nl"
proof -
  let ?p = "m_n_ex_tag nl ! a"
  let ?n = "nl\<lparr>m_ex_list_tag := (m_ex_list_tag nl)[?p := (m_ex_list_tag nl ! ?p)[a := b]], m_n_ex_tag := (m_n_ex_tag nl)[a := ?p + 1]\<rparr>"
  have l: "length (m_n_ex_tag nl) = m_rtag_size pd" "length (m_ex_list_idx nl) = length (m_ex_list_tag nl)"
    "\<And>k. k < length (m_ex_list_tag nl) \<Longrightarrow> length (m_ex_list_tag nl ! k) = m_rtag_size pd"
    "\<forall>a < m_rtag_size pd. m_n_ex_tag nl ! a \<le> length (m_ex_list_tag nl)"
    using ok unfolding exclusion_arrays_def by auto
  have "store_exclusion a b nl = Inr ?n" using room by (simp add: store_exclusion_def check_def l(2) Let_def)
  moreover have "exclusion_arrays pd ?n"
    using ok a room l set_update_subset_insert [of "m_ex_list_tag nl" ?p "(m_ex_list_tag nl ! ?p)[a := b]"]
    by (auto simp: exclusion_arrays_def nth_list_update)
  moreover have "ex_row ?n a = ex_row nl a @ [b]"
    using a room l by (auto simp: ex_row_def nth_list_update)
  moreover have "ex_row ?n c = ex_row nl c" if "c \<noteq> a" for c
    using that room by (auto simp: ex_row_def) (metis nth_list_update_eq nth_list_update_neq)
  moreover have "m_n_ex_tag ?n ! c = m_n_ex_tag nl ! c" if "c \<noteq> a" for c using that by simp
  ultimately show ?thesis by (intro exI [of _ ?n]) simp
qed


text \<open>C17: exclusions are a symmetric relation. \<open>addExclusion\<close> of two different particles returns,
  growing the rows where needed, adds this pair in both directions and no other, never twice, and
  \<open>clearExclusions\<close> removes all.\<close>

theorem exclusions_symmetric:
  assumes "exclusions_ok pd nl" "tag1 \<le> getMaximumTag pd" "tag2 \<le> getMaximumTag pd" "tag1 \<noteq> tag2"
  shows "\<exists>nl'. addExclusion pd tag1 tag2 nl = Inr nl' \<and> exclusions_ok pd nl' \<and> m_exclusions_set nl'
    \<and> (\<forall>a \<le> getMaximumTag pd. \<forall>b \<le> getMaximumTag pd. \<exists>x. isExcluded pd a b nl = Inr x
        \<and> isExcluded pd a b nl' = Inr (x \<or> {a, b} = {tag1, tag2}))
    \<and> (\<forall>a \<le> getMaximumTag pd. ex_row (clearExclusions pd nl') a = [])"
proof -
  let ?R = "m_rtag_size pd" and ?M = "getMaximumTag pd"
  let ?s = "nl\<lparr>m_exclusions_set := True\<rparr>"
  have ok: "exclusion_arrays pd nl" using assms(1) by (simp add: exclusions_ok_def)
  have MR: "?M < ?R" "\<not> m_need_reallocate_exlist nl" using ok by (simp_all add: exclusion_arrays_def)
  have oks: "exclusion_arrays pd ?s" "ex_row ?s = ex_row nl" using ok by (auto simp: exclusion_arrays_def ex_row_def fun_eq_iff)
  have q: "isExcluded pd tag1 tag2 ?s = Inr (tag2 \<in> set (ex_row nl tag1))" using isExcluded_row [OF oks(1) assms(2,3)] oks(2) by simp
  have good: ?thesis if r: "addExclusion pd tag1 tag2 nl = Inr nl'" "exclusion_arrays pd nl'" "m_exclusions_set nl'"
    "\<forall>a \<le> ?M. distinct (ex_row nl' a) \<and> a \<notin> set (ex_row nl' a)"
    "\<forall>a \<le> ?M. \<forall>b \<le> ?M. b \<in> set (ex_row nl' a) \<longleftrightarrow> b \<in> set (ex_row nl a) \<or> {a, b} = {tag1, tag2}" for nl'
  proof -
    have "\<forall>a \<le> ?M. \<forall>b \<le> ?M. b \<in> set (ex_row nl' a) \<longleftrightarrow> a \<in> set (ex_row nl' b)"
      using r(5) assms(1) by (auto simp: exclusions_ok_def insert_commute)
    then have "exclusions_ok pd nl'" using r(2,4) by (simp add: exclusions_ok_def)
    moreover have "\<exists>x. isExcluded pd a b nl = Inr x \<and> isExcluded pd a b nl' = Inr (x \<or> {a, b} = {tag1, tag2})" if "a \<le> ?M" "b \<le> ?M" for a b
      using isExcluded_row [OF ok that] isExcluded_row [OF r(2) that] r(5) that by simp
    moreover have "ex_row (clearExclusions pd nl') a = []" if "a \<le> ?M" for a
      using r(2) that by (auto simp: exclusion_arrays_def clearExclusions_def forceUpdate_def ex_row_def Let_def)
    ultimately show ?thesis using r(1,3) by blast
  qed
  have add: "addExclusion pd tag1 tag2 nl = (if tag2 \<in> set (ex_row nl tag1) then Inr ?s
      else let grow = m_n_ex_tag nl ! tag1 = length (m_ex_list_idx nl) \<or> m_n_ex_tag nl ! tag2 = length (m_ex_list_idx nl);
               n = (if grow then growExclusionList pd ?s else ?s)
           in bindr (store_exclusion tag1 tag2 n) (\<lambda>n. bindr (store_exclusion tag2 tag1 n) (\<lambda>n. Inr (forceUpdate n))))"
    using assms(2,3) MR(2) by (simp add: addExclusion_def check_def q Let_def)
  show ?thesis
  proof (cases "tag2 \<in> set (ex_row nl tag1)")
    case True
    then have "tag1 \<in> set (ex_row nl tag2)" using assms(1-3) by (simp add: exclusions_ok_def)
    then have "\<forall>a \<le> ?M. \<forall>b \<le> ?M. b \<in> set (ex_row ?s a) \<longleftrightarrow> b \<in> set (ex_row nl a) \<or> {a, b} = {tag1, tag2}"
      using True by (auto simp: oks(2) doubleton_eq_iff)
    then show ?thesis using True add oks assms(1) by (intro good [of ?s]) (simp_all add: exclusions_ok_def)
  next
    case False
    define n where "n = (if m_n_ex_tag nl ! tag1 = length (m_ex_list_idx nl) \<or> m_n_ex_tag nl ! tag2 = length (m_ex_list_idx nl)
      then growExclusionList pd ?s else ?s)"
    have tags: "tag1 < ?R" "tag2 < ?R" using assms(2,3) MR(1) by simp_all
    have h: "length (m_ex_list_idx nl) = length (m_ex_list_tag nl)" "m_n_ex_tag nl ! tag1 \<le> length (m_ex_list_tag nl)" "m_n_ex_tag nl ! tag2 \<le> length (m_ex_list_tag nl)"
      using ok tags unfolding exclusion_arrays_def by auto
    have n: "exclusion_arrays pd n" "\<forall>a < ?R. ex_row n a = ex_row nl a" "m_n_ex_tag n ! tag1 < length (m_ex_list_tag n)"
      "m_n_ex_tag n ! tag2 < length (m_ex_list_tag n)" "m_exclusions_set n"
      using grow_keeps [OF oks(1)] oks h by (auto simp: n_def)
    from store_spec [OF n(1) tags(1) n(3), of tag2] obtain n1 where
      s1: "store_exclusion tag1 tag2 n = Inr n1" "exclusion_arrays pd n1" "ex_row n1 tag1 = ex_row n tag1 @ [tag2]"
      "\<forall>c < ?R. c \<noteq> tag1 \<longrightarrow> ex_row n1 c = ex_row n c \<and> m_n_ex_tag n1 ! c = m_n_ex_tag n ! c"
      "length (m_ex_list_tag n1) = length (m_ex_list_tag n)" "m_exclusions_set n1 = m_exclusions_set n" by blast
    have room: "m_n_ex_tag n1 ! tag2 < length (m_ex_list_tag n1)" using s1(4,5) tags n(4) assms(4) by simp
    from store_spec [OF s1(2) tags(2) room, of tag1] obtain n2 where
      s2: "store_exclusion tag2 tag1 n1 = Inr n2" "exclusion_arrays pd n2" "ex_row n2 tag2 = ex_row n1 tag2 @ [tag1]"
      "\<forall>c < ?R. c \<noteq> tag2 \<longrightarrow> ex_row n2 c = ex_row n1 c \<and> m_n_ex_tag n2 ! c = m_n_ex_tag n1 ! c"
      "length (m_ex_list_tag n2) = length (m_ex_list_tag n1)" "m_exclusions_set n2 = m_exclusions_set n1" by blast
    have rows: "ex_row n2 tag1 = ex_row nl tag1 @ [tag2]" "ex_row n2 tag2 = ex_row nl tag2 @ [tag1]"
      "c < ?R \<Longrightarrow> c \<noteq> tag1 \<Longrightarrow> c \<noteq> tag2 \<Longrightarrow> ex_row n2 c = ex_row nl c" for c
      using s1(3,4) s2(3,4) n(2) tags assms(4) by simp_all
    have f: "ex_row (forceUpdate n2) = ex_row n2" "exclusion_arrays pd (forceUpdate n2)" "m_exclusions_set (forceUpdate n2)"
      using s2(2,6) s1(6) n(5) by (auto simp: forceUpdate_def ex_row_def exclusion_arrays_def fun_eq_iff)
    have off: "tag1 \<notin> set (ex_row nl tag2)" using False assms(1-3) by (simp add: exclusions_ok_def)
    have cases3: "ex_row n2 a = (if a = tag1 then ex_row nl a @ [tag2] else if a = tag2 then ex_row nl a @ [tag1] else ex_row nl a)" if "a \<le> ?M" for a
      using rows that MR(1) assms(4) by simp
    show ?thesis
    proof (rule good)
      show "addExclusion pd tag1 tag2 nl = Inr (forceUpdate n2)"
        using False s1(1) s2(1) by (simp add: add Let_def n_def [symmetric])
      show "exclusion_arrays pd (forceUpdate n2)" "m_exclusions_set (forceUpdate n2)" by (rule f)+
      show "\<forall>a \<le> ?M. distinct (ex_row (forceUpdate n2) a) \<and> a \<notin> set (ex_row (forceUpdate n2) a)"
        using assms(1,4) False off by (auto simp: f(1) cases3 exclusions_ok_def)
      show "\<forall>a \<le> ?M. \<forall>b \<le> ?M. b \<in> set (ex_row (forceUpdate n2) a) \<longleftrightarrow> b \<in> set (ex_row nl a) \<or> {a, b} = {tag1, tag2}"
        using assms(4) by (auto simp: f(1) cases3 doubleton_eq_iff)
    qed
  qed
qed

lemma initial_exclusions:
  assumes "bare nl = bare (initial_list pd r_cut r_buff)" "getMaximumTag pd < m_rtag_size pd"
  shows "exclusions_ok pd nl"
proof -
  note A = arg_cong [OF assms(1)]
  have f: "m_need_reallocate_exlist nl = False" "m_n_ex_tag nl = replicate (m_rtag_size pd) 0" "m_ex_list_tag nl = [replicate (m_rtag_size pd) 0]"
    "m_ex_list_idx nl = [replicate (m_max_nparticles pd) 0]"
    using A [of m_need_reallocate_exlist] A [of m_n_ex_tag] A [of m_ex_list_tag] A [of m_ex_list_idx] by (simp_all add: bare_def initial_list_def Let_def)
  have "ex_row nl a = []" if "a \<le> getMaximumTag pd" for a using assms(2) that by (simp add: ex_row_def f)
  then show ?thesis using assms(2) by (simp add: exclusions_ok_def exclusion_arrays_def f)
qed

theorem exclusions_symmetric_witness:
  "\<exists>nl nl'. NeighborList_new example_particles 1 (2/5) = Inr nl \<and> addExclusion example_particles 0 1 nl = Inr nl'
    \<and> isExcluded example_particles 1 0 nl' = Inr True"
proof -
  have nt: "Particle_Data.getNTypes example_particles * Particle_Data.getNTypes example_particles < 2 ^ 32"
    by (simp add: example_particles_def Particle_Data.getNTypes_def)
  have m: "getMaximumTag example_particles = 2" "m_rtag_size example_particles = 3" by (simp_all add: example_particles_def getMaximumTag_def)
  from NeighborList_new_spec [OF nt, of "2/5" 1] obtain nl where
    n: "NeighborList_new example_particles 1 (2/5) = Inr nl" "bare nl = bare (initial_list example_particles 1 (2/5))" by auto
  have ok: "exclusions_ok example_particles nl" by (rule initial_exclusions [OF n(2)]) (simp add: m)
  from exclusions_symmetric [OF ok, of 0 1] obtain nl' where
    a: "addExclusion example_particles 0 1 nl = Inr nl'"
    "\<forall>a \<le> 2. \<forall>b \<le> 2. \<exists>x. isExcluded example_particles a b nl = Inr x \<and> isExcluded example_particles a b nl' = Inr (x \<or> {a, b} = {0, 1})"
    by (auto simp: m)
  have "\<exists>x. isExcluded example_particles 1 0 nl' = Inr (x \<or> {1::nat, 0} = {0, 1})" using a(2) [rule_format, of 1 0] by auto
  then have "isExcluded example_particles 1 0 nl' = Inr True" by (auto simp: insert_commute)
  then show ?thesis using n(1) a(1) by blast
qed

text \<open>Changing the number of types.\<close>

text \<open>C31: a new particle type mixes up the pair cutoffs. The table keeps its linear order while its width grows, so
  that the cutoff of types \<open>a\<close> and \<open>b\<close> becomes the one of \<open>a + b\<close> and
  \<open>b\<close>.\<close>

theorem reallocateTypes_mixes_pairs:
  assumes "cutoff_sizes pd nl" "Particle_Data.getNTypes pd' = Particle_Data.getNTypes pd + 1" "(Particle_Data.getNTypes pd + 1) * (Particle_Data.getNTypes pd + 1) < 2 ^ 32"
    and "a + b < Particle_Data.getNTypes pd"
  shows "m_r_cut (reallocateTypes pd' nl) ! type_pair (reallocateTypes pd' nl) (of_nat a) (of_nat b) = m_r_cut nl ! type_pair nl (of_nat (a + b)) (of_nat b)"
proof -
  let ?n = "Particle_Data.getNTypes pd" and ?r = "reallocateTypes pd' nl"
  let ?w = "Suc ?n" and ?N = "unat (Index2D_getNumElements (Index2D_square (of_nat (Suc ?n))))"
  have w: "?w < 2 ^ 32" using le_square [of ?w] assms(3) unfolding Suc_eq_plus1 by linarith
  have N: "?N = ?w * ?w"
    using assms(3) w by (simp add: Index2D_getNumElements_def Index2D_square_def unat_of_nat_small flip: of_nat_mult of_nat_Suc)
  have old: "type_pair nl (of_nat (a + b)) (of_nat b) = b * ?n + (a + b)" by (rule type_pair_index [OF assms(1)]) (use assms(4) in simp_all)
  have len: "length (m_r_cut nl) = ?n * ?n" using assms(1) by (simp add: cutoff_sizes_def Let_def)
  have new: "type_pair ?r (of_nat a) (of_nat b) = b * ?n + (a + b)"
  proof -
    have "n_typpair_idx ?r = Index2D_rect (of_nat ?w) (of_nat ?w)"
      by (simp add: reallocateTypes_def forceUpdate_def slotRCutChange_def assms(2) Index2D_square_def Index2D_rect_def Let_def)
    then have "type_pair ?r (of_nat a) (of_nat b) = b * ?w + a"
      unfolding type_pair_def using rect_idx [of ?w ?w a b] assms(3,4) by simp
    then show ?thesis by simp
  qed
  have "m_r_cut ?r = array_resize 0 (?w * ?w) (m_r_cut nl)"
    unfolding N [symmetric] by (simp add: reallocateTypes_def forceUpdate_def slotRCutChange_def assms(2) Let_def)
  moreover have lt: "b * ?n + (a + b) < ?n * ?n" by (rule pair_index_less) (use assms(4) in simp_all)
  moreover have "?n * ?n \<le> ?w * ?w" by (rule mult_le_mono) simp_all
  ultimately have "m_r_cut ?r ! (b * ?n + (a + b)) = m_r_cut nl ! (b * ?n + (a + b))"
    using nth_array_resize_total [of "b * ?n + (a + b)" "?w * ?w" 0 "m_r_cut nl"] unfolding len by simp
  then show ?thesis unfolding new old .
qed

text \<open>C40: a larger buffer does not reach the cells. After \<open>setRBuff\<close> the list radius is larger than the width
  of the cells, in whose neighborhood the list is built.\<close>

theorem setRBuff_width_stale:
  assumes "list_domain ndim B pd r_cut r_buff" "r_buff < r"
  shows "\<exists>nl nl'. NeighborListBinned_new pd r_cut r_buff None = Inr nl \<and> setRBuff r nl = Inr nl'
    \<and> max_list_radius (refreshed pd nl') = r_cut + r \<and> m_nominal_width (m_cl nl') = r_cut + r_buff"
proof -
  from new_binned_start [OF assms(1)] obtain nl where
    n: "NeighborListBinned_new pd r_cut r_buff None = Inr nl" "plain_list pd r_cut r_buff nl" "cutoff_sizes pd nl" "m_nominal_width (m_cl nl) = r_cut + r_buff" by blast
  have d: "0 < r_cut" "0 \<le> r_buff" "0 < Particle_Data.getNTypes pd" using assms(1) by (simp_all add: list_domain_def Let_def)
  let ?n = "forceUpdate (slotRCutChange (nl\<lparr>m_r_buff := r\<rparr>))"
  have s: "setRBuff r nl = Inr ?n" "m_nominal_width (m_cl ?n) = r_cut + r_buff"
    using d(2) assms(2) n(4) by (simp_all add: setRBuff_def forceUpdate_def slotRCutChange_def)
  have sz: "cutoff_sizes pd ?n" unfolding sizes_simps using n(3) by (simp add: cutoff_sizes_def)
  have ref: "refreshed pd ?n = updateRList pd ?n" by (simp add: refreshed_def forceUpdate_def slotRCutChange_def)
  have cut: "m_r_cut x ! type_pair x a b = r_cut" if "m_r_cut x = m_r_cut nl" "n_typpair_idx x = n_typpair_idx nl"
    "unat a < Particle_Data.getNTypes pd" "unat b < Particle_Data.getNTypes pd" for x :: NeighborListBinned and a b
    using n(2) that by (simp add: plain_list_def type_pair_def)
  have small: "unat (of_nat a :: uint) = a" if "a < Particle_Data.getNTypes pd" for a
    using sizes_types [OF n(3)] that by (simp add: unat_of_nat_small)
  have keep: "m_r_cut ?n = m_r_cut nl" "n_typpair_idx ?n = n_typpair_idx nl" "m_r_cut (updateRList pd ?n) = m_r_cut nl"
    "n_typpair_idx (updateRList pd ?n) = n_typpair_idx nl" "m_diameter_shift (updateRList pd ?n) = m_diameter_shift nl" "m_r_buff (updateRList pd ?n) = r"
    by (simp_all add: forceUpdate_def slotRCutChange_def updateRList_def Let_def)
  have "m_rcut_max_max (updateRList pd ?n) \<le> r_cut"
    by (rule updateRList_max) (use d(1) cut [OF keep(1,2)] small in simp_all)
  moreover have "r_cut \<le> m_rcut_max_max (updateRList pd ?n)"
    using updateRList_ok [OF sz] cut [OF keep(3,4), of 0 0] d(3) by (auto simp: cutoffs_ok_def Let_def)
  ultimately have "max_list_radius (refreshed pd ?n) = r_cut + r"
    using n(2) by (simp add: ref max_list_radius_def add_shift_def keep plain_list_def)
  then show ?thesis using n(1) s by blast
qed

theorem setRBuff_width_stale_witness:
  "\<exists>nl nl'. NeighborListBinned_new example_particles 1 (2/5) None = Inr nl \<and> setRBuff (4/5) nl = Inr nl'
    \<and> m_nominal_width (m_cl nl') < max_list_radius (refreshed example_particles nl')"
  using setRBuff_width_stale [OF example_domain, of "4/5"] by fastforce

definition typed_particles :: "string list \<Rightarrow> ParticleData" where
  "typed_particles names = example_particles\<lparr>m_type_mapping := names\<rparr>"

theorem reallocateTypes_mixes_pairs_witness:
  "\<exists>nl0 nl. NeighborList_new (typed_particles [''A'', ''B'']) 1 (2/5) = Inr nl0 \<and> setRCutPair (typed_particles [''A'', ''B'']) 1 1 3 nl0 = Inr nl
    \<and> m_r_cut (reallocateTypes (typed_particles [''A'', ''B'', ''C'']) nl)
        ! type_pair (reallocateTypes (typed_particles [''A'', ''B'', ''C'']) nl) (of_nat 0) (of_nat 1) = 3"
proof -
  let ?p = "typed_particles [''A'', ''B'']" and ?q = "typed_particles [''A'', ''B'', ''C'']"
  have nt: "Particle_Data.getNTypes ?p = 2" "Particle_Data.getNTypes ?q = 3" by (simp_all add: typed_particles_def Particle_Data.getNTypes_def)
  from NeighborList_new_spec [of ?p "2/5" 1] obtain nl0 where
    n: "NeighborList_new ?p 1 (2/5) = Inr nl0" "cutoff_sizes ?p nl0" by (auto simp: nt)
  from setRCutPair_sets [OF n(2), of 1 1 3] obtain nl where
    s: "setRCutPair ?p 1 1 3 nl0 = Inr nl" "sets_pair ?p 3 bare 1 1 nl0 nl" by (auto simp: nt)
  have sz: "cutoff_sizes ?p nl" using s(2) by (simp add: sets_pair_def)
  have idx: "type_pair nl (of_nat 1) (of_nat 1) = 3" "type_pair nl0 (of_nat 1) (of_nat 1) = 3"
    using type_pair_index [OF sz, of 1 1] type_pair_index [OF n(2), of 1 1] by (simp_all add: nt)
  have "length (m_r_cut nl0) = 4" using n(2) by (simp add: cutoff_sizes_def nt)
  then have "m_r_cut nl ! 3 = 3" using s(2) idx(2) by (simp add: sets_pair_def)
  then have "m_r_cut (reallocateTypes ?q nl) ! type_pair (reallocateTypes ?q nl) (of_nat 0) (of_nat 1) = 3"
    using reallocateTypes_mixes_pairs [OF sz, of ?q 0 1] idx(1) by (simp add: nt)
  then show ?thesis using n(1) s(1) by blast
qed

theorem pair_forces_complete_witness:
  "\<exists>nl nl' out. NeighborListBinned_new example_particles 1 (2/5) None = Inr nl
    \<and> run_nlist (binned_buildNlist 3) [(example_particles, 0), (example_moved, 1)] nl = Some (Inr nl')
    \<and> computeForces LJ example_lj (view_of example_moved) (nview nl') True 3 3 18 = Inr out
    \<and> entry 3 out 0 1 = direct_sum LJ example_lj example_moved nl True 0 1"
proof -
  from new_binned_start [OF example_domain] obtain nl where
    n: "NeighborListBinned_new example_particles 1 (2/5) None = Inr nl" "binned_start 3 8 example_particles 0 nl" "plain_list example_particles 1 (2/5) nl" by blast
  have p: "Particle_Data.getNTypes example_particles = 1" "m_global_box example_particles = m_box example_particles"
    by (simp_all add: example_particles_def Particle_Data.getNTypes_def)
  have same: "refreshed example_particles nl = nl" using n(3) by (simp add: refreshed_def plain_list_def)
  have c: "cutoffs_ok example_particles nl" "nlist_sized example_particles nl" "positions_ok 3 example_particles"
    using n(2) by (simp_all add: binned_start_def binned_ready_def geometry_ok_def same nlist_state_def)
  have calls: "calls_ok 3 8 (refreshed example_particles nl) (example_particles, 0) [(example_moved, 1)]"
    unfolding same by (rule steps_calls [OF n(3) c(1,2) _ _ c(3) example_steps]) simp_all
  have ev: "within_reach LJ (m_diameter_shift nl)" using n(3) evaluators_within(1) by (simp add: plain_list_def)
  have "typpair example_lj a b = 0" if "unat a < 1" "unat b < 1" for a b
    using that by (simp add: example_lj_def Index2D_idx_def unat_eq_0)
  moreover have "m_r_cut nl ! type_pair nl a b = 1" if "unat a < 1" "unat b < 1" for a b
    using n(3) that by (simp add: plain_list_def p)
  ultimately have cut: "cutoffs_covered example_particles nl example_lj"
    unfolding cutoffs_covered_def p by (intro allI impI exI [of _ 1]) (simp, simp add: example_lj_def)
  from pair_forces_complete [OF n(2) calls ev cut p(2), of 3 3 18 True] obtain nl' out where
    "run_nlist (binned_buildNlist 3) [(example_particles, 0), (example_moved, 1)] nl = Some (Inr nl')"
    "computeForces LJ example_lj (view_of example_moved) (nview nl') True 3 3 18 = Inr out"
    "\<forall>c < 10. \<forall>m < 3. entry 3 out c m = direct_sum LJ example_lj example_moved nl True c m" by (auto simp: p)
  then show ?thesis using n(1) by (intro exI [of _ nl] exI [of _ nl'] exI [of _ out]) simp
qed

end
