(* ===== verification/Spec2Isabelle.thy ===== *)
theory Spec2Isabelle
  imports Index_Maps Box_Dim AABB_Tree GPU_Vector GPU_Flags Cached_Allocator Wall_Data Potential_Bond SFC_Pack Neighbor_List_Run
begin

text \<open>
  A verification of core parts of HOOMD-blue, a molecular dynamics engine. Particles live in arrays of
  the particle data; a box with periodic boundaries relates their positions; pair and bond potentials
  turn positions into forces by looping over neighbor lists and bonds; the arrays are mirrored between
  host and device memory. Paths below are under \<^verbatim>\<open>src/libhoomd\<close>.

  The theories and what they model, in the order of their dependence:

    \<^item> \<^verbatim>\<open>Hoomd_Prelude\<close>: scalars, C++ conversions (\<^verbatim>\<open>utils/HOOMDMath.h\<close>) and shared lemmas.
    \<^item> \<^verbatim>\<open>Index_Maps\<close>: \<^verbatim>\<open>Index2D\<close>, \<^verbatim>\<open>Index3D\<close>, \<^verbatim>\<open>Index2DUpperTriangular\<close> of \<^verbatim>\<open>utils/Index1D.h\<close> on 32-bit
      words; each is a bijection onto the array positions below \<^verbatim>\<open>getNumElements\<close> as long as that fits.
    \<^item> \<^verbatim>\<open>Vector_Math\<close>: vectors, quaternions and rotation matrices of \<^verbatim>\<open>utils/VectorMath.h\<close>; the optimised
      rotation is conjugation, it is rigid, and it agrees with the matrix and with Rodrigues' formula.
    \<^item> \<^verbatim>\<open>Box_Dim\<close>: \<^verbatim>\<open>data_structures/BoxDim.h\<close>; fractional coordinates, both minimum image branches, wrapping
      with image counters, shifts, plane distances, for triclinic boxes.
    \<^item> \<^verbatim>\<open>AABB_Box\<close>, \<^verbatim>\<open>AABB_Tree\<close>: \<^verbatim>\<open>utils/AABB.h\<close> and \<^verbatim>\<open>utils/AABBTree.h\<close>. The flat node array with its skip
      links is related to a tree by a representation predicate; building, updating and querying are
      total and a query finds exactly the overlapping particles.
    \<^item> \<^verbatim>\<open>GPU_Array\<close>, \<^verbatim>\<open>GPU_Vector\<close>, \<^verbatim>\<open>GPU_Flags\<close>: \<^verbatim>\<open>data_structures/GPUArray.h\<close>, \<^verbatim>\<open>GPUVector.h\<close>, \<^verbatim>\<open>GPUFlags.h\<close>.
      The three coherence states and the lock; whichever side is acquired shows the last written
      contents, and vector operations refine those of lists. The CUDA memory interface is a parameter
      with the promises of its documentation (\<^verbatim>\<open>api_ok\<close>).
    \<^item> \<^verbatim>\<open>Cached_Allocator\<close>: \<^verbatim>\<open>utils/CachedAllocator.h\<close> over a device heap that is a parameter (\<^verbatim>\<open>cuda_heap_ok\<close>):
      no block is handed out twice, none leaks, and sizes cover requests.
    \<^item> \<^verbatim>\<open>Wall_Data\<close>: wall vectors and signed distances of \<^verbatim>\<open>data_structures/WallData.h\<close>, as geometry; a cylinder is
      evaluated about the axis \<^verbatim>\<open>wall_axis\<close>, which is not the one given when that is oblique.
    \<^item> \<^verbatim>\<open>Pair_Evaluators\<close>: the ten evaluators \<^verbatim>\<open>potentials/EvaluatorPair*.h\<close> without orientation; the force is
      the negative derivative of the energy, stated once in a locale that each evaluator interprets.
    \<^item> \<^verbatim>\<open>Potential_Pair\<close>, \<^verbatim>\<open>Potential_Bond\<close>: \<^verbatim>\<open>potentials/PotentialPair.h\<close> and \<^verbatim>\<open>potentials/PotentialBond.h\<close>:
      coefficients, energy shifts and XPLOR smoothing, the force loops over half and full lists
      and bonds: sums over pairs, Newton's third law, agreement of both storage modes, errors.
    \<^item> \<^verbatim>\<open>Particle_Data\<close>, \<^verbatim>\<open>Particle_Data_Correct\<close>: \<^verbatim>\<open>data_structures/ParticleData.h\<close> and \<^verbatim>\<open>.cc\<close>: per-particle arrays,
      tags with recycling, ghosts, snapshots. The invariant \<^verbatim>\<open>pdata_ok\<close> holds in every reachable state
      as long as particles, recycled tags and ghosts stay below \<open>2\<^sup>3\<^sup>1\<close>; runs of the operations are runs on a map from tags to particles, and snapshots are restored.
    \<^item> \<^verbatim>\<open>SFC_Pack\<close>: \<^verbatim>\<open>updaters/SFCPackUpdater.cc\<close>, the reordering of the particle data along a Hilbert curve. The
      curve visits every cell once, each beside the one before, and a sort moves particles without
      changing what any tag stands for. The theorems take grids of at most \<open>2\<^sup>1\<^sup>0\<close> cells a side in
      three dimensions and \<open>2\<^sup>1\<^sup>6\<close> in two, beyond which cell indices wrap around.
    \<^item> \<^verbatim>\<open>Cell_List\<close>, \<^verbatim>\<open>Cell_List_Correct\<close>: \<^verbatim>\<open>computes/CellList.cc\<close> and the scheduling of \<^verbatim>\<open>computes/Compute.cc\<close>. A computed
      list is complete: each cell holds its particles, and whatever is within the nominal width of a
      particle is in an adjacent cell. The loop that allocates short lists anew has no fuel (it is a partial
      function into \<open>option\<close>), and is shown to return. Grids have less than 100000 cells a side (then a fraction within the
      tolerance of the bounds check stays in the first cell) and indices below \<open>2\<^sup>3\<^sup>2\<close>.
    \<^item> \<^verbatim>\<open>Neighbor_List\<close>: \<^verbatim>\<open>computes/NeighborList.cc\<close> and \<^verbatim>\<open>computes/NeighborListBinned.cc\<close>, with the theorems in
      \<^verbatim>\<open>Neighbor_Rows\<close> (memory, overflow, exclusions), \<^verbatim>\<open>Periodic_Distance\<close> (the distance through periodic images),
      \<^verbatim>\<open>Neighbor_List_Correct\<close> (rebuild decision, runs) and \<^verbatim>\<open>Neighbor_List_Run\<close> (lists over cells). What a builder
      promises is the locale \<^verbatim>\<open>nlist_builder\<close>, and \<^verbatim>\<open>moving_builder\<close> when particles move; the cell list builder
      is its interpretation. In a run the list that is kept until the distance check fails never misses a pair,
      so that forces over the list are the sum over all pairs of the potential's own definition. The loop
      over overflows has no fuel; it returns, because rows grow until they have room for all neighbors.

  How the model reads the code:

    \<^item> \<^verbatim>\<open>Scalar\<close> (\<^verbatim>\<open>float\<close> or \<^verbatim>\<open>double\<close>) is a real number: the theorems hold up to rounding, and overflow, NaN
      and infinities are outside the model. Conversions to integers truncate; out of range of \<open>int\<close> they give
      the value of x86-64 (\<^verbatim>\<open>cast_int32\<close>), and to \<^verbatim>\<open>unsigned int\<close> they are reduced (\<^verbatim>\<open>cast_uint32\<close>). Only the growth factor
      of \<^verbatim>\<open>GPUVector\<close> is computed with the rounding of single precision, because it decides sizes.
    \<^item> \<^verbatim>\<open>unsigned int\<close> is a 32-bit word, or a natural number that the definitions reduce modulo \<open>2\<^sup>3\<^sup>2\<close> where a sum or
      product may exceed it, or that the theorems bound.
    \<^item> The build modelled has assertions, CUDA in \<^verbatim>\<open>GPU_Array\<close>, no MPI and, where sizes in bytes matter, double precision.
    \<^item> Exceptions and failed assertions are the left values of a sum; a loop that would not return is
      \<^term>\<open>None\<close>, and the theorems prove that it does return, or for a grid of 0 that it does not.
    \<^item> Loops of unknown length carry fuel or a termination proof: the query loop of the tree visits
      each node at most once, so its number of nodes is enough; \<^verbatim>\<open>height\<close> climbs at most that far.
    \<^item> State is passed explicitly in records with the fields of the classes. Signals become calls by
      the operation that fires them; profiling and messages are left out.
    \<^item> Code outside the repository (the CUDA runtime) is a parameter with named hypotheses.

  Not modelled: GPU kernels and MPI communication, whose meaning depends on the hardware and on
  libraries; Python bindings and scripts; file formats and analyzers; vendored code; and, so far,
  integrators and updaters, the tree and stencil neighbor lists, groups and bonded group tables,
  and the remaining force computes (angles, dihedrals, anisotropic, many-body, tabulated and long range).
  The manifest lists these parts one by one.
\<close>

end
